(* ===== verification/Prelude.thy ===== *)
theory Prelude
  imports Main "HOL-Library.AList" "HOL-Library.Char_ord" "HOL-Library.List_Lexorder"
    "HOL-Library.Word"
begin

text \<open>
  Shared vocabulary of the development.

  \<^item> Texts. A Rust \<open>str\<close> is the list of its UTF-8 bytes (\<open>str\<close>), so \<open>length\<close> is
    \<open>str::len\<close> and indices are byte offsets, as in the source. The functions below carry
    the names of the methods of \<open>str\<close> they model. Rust's \<open>trim\<close> also removes Unicode
    white space beyond ASCII; the model's \<open>trim\<close> removes the six ASCII white space
    characters, which is the same on texts that have no other white space at their ends.
  \<^item> Panics. An operation that may panic returns a value of \<open>rust_panic + 'a\<close>.
  \<^item> Hash maps. A \<open>HashMap\<close>, \<open>FxHashMap\<close> or \<open>DashMap\<close> is the list of its entries in
    iteration order (\<open>hash_map\<close>); the model inserts at the end, and since a property about
    a map speaks of every such list, it does not rest on the order.
  \<^item> Work lists. \<open>bfs\<close> is the queue-and-seen-set loop that the index uses for class
    hierarchies and module graphs; its reachability theorem is proved once.
\<close>

type_synonym str = string

named_theorems str_simps "unfolding of the operations on texts"
named_theorems idx_simps "look-ups in the indexes of a bucket or a reader"

subsection \<open>Texts\<close>

definition starts_with :: "str \<Rightarrow> str \<Rightarrow> bool" where
  "starts_with s p \<longleftrightarrow> take (length p) s = p"

definition ends_with :: "str \<Rightarrow> str \<Rightarrow> bool" where
  "ends_with s p \<longleftrightarrow> length p \<le> length s \<and> drop (length s - length p) s = p"

definition strip_prefix :: "str \<Rightarrow> str \<Rightarrow> str option" where
  "strip_prefix s p = (if starts_with s p then Some (drop (length p) s) else None)"

definition strip_suffix :: "str \<Rightarrow> str \<Rightarrow> str option" where
  "strip_suffix s p = (if ends_with s p then Some (take (length s - length p) s) else None)"

fun find_char :: "str \<Rightarrow> char \<Rightarrow> nat option" where
  "find_char [] c = None"
| "find_char (x # xs) c = (if x = c then Some 0 else map_option Suc (find_char xs c))"

text \<open>\<open>iter().position(p)\<close>\<close>

fun position :: "('a \<Rightarrow> bool) \<Rightarrow> 'a list \<Rightarrow> nat option" where
  "position P [] = None"
| "position P (x # xs) = (if P x then Some 0 else map_option Suc (position P xs))"

definition rfind_char :: "str \<Rightarrow> char \<Rightarrow> nat option" where
  "rfind_char s c = map_option (\<lambda>i. length s - 1 - i) (find_char (rev s) c)"

definition contains_char :: "str \<Rightarrow> char \<Rightarrow> bool" where
  "contains_char s c \<longleftrightarrow> c \<in> set s"

definition replace_char :: "char \<Rightarrow> char \<Rightarrow> str \<Rightarrow> str" where
  "replace_char a b s = map (\<lambda>x. if x = a then b else x) s"

definition is_ws :: "char \<Rightarrow> bool" where
  "is_ws c \<longleftrightarrow> c = CHR '' '' \<or> (9 \<le> (of_char c :: nat) \<and> (of_char c :: nat) \<le> 13)"

definition trim_start :: "str \<Rightarrow> str" where
  "trim_start s = dropWhile is_ws s"

definition trim_end :: "str \<Rightarrow> str" where
  "trim_end s = rev (dropWhile is_ws (rev s))"

definition trim :: "str \<Rightarrow> str" where
  "trim s = trim_end (trim_start s)"

definition is_ascii_uppercase :: "char \<Rightarrow> bool" where
  "is_ascii_uppercase c \<longleftrightarrow> 65 \<le> (of_char c :: nat) \<and> (of_char c :: nat) \<le> 90"

definition is_ascii_lowercase :: "char \<Rightarrow> bool" where
  "is_ascii_lowercase c \<longleftrightarrow> 97 \<le> (of_char c :: nat) \<and> (of_char c :: nat) \<le> 122"

definition is_ascii_digit :: "char \<Rightarrow> bool" where
  "is_ascii_digit c \<longleftrightarrow> 48 \<le> (of_char c :: nat) \<and> (of_char c :: nat) \<le> 57"

definition is_ascii_alphanumeric :: "char \<Rightarrow> bool" where
  "is_ascii_alphanumeric c \<longleftrightarrow> is_ascii_uppercase c \<or> is_ascii_lowercase c \<or> is_ascii_digit c"

definition repeat_str :: "nat \<Rightarrow> str \<Rightarrow> str" where
  "repeat_str n s = concat (replicate n s)"

fun join :: "str \<Rightarrow> str list \<Rightarrow> str" where
  "join sep [] = []"
| "join sep [x] = x"
| "join sep (x # y # ys) = x @ sep @ join sep (y # ys)"

text \<open>\<open>split(c)\<close>: the pieces between the separators; \<open>rsplit(c).next()\<close>: the last piece.\<close>

fun split_char :: "char \<Rightarrow> str \<Rightarrow> str list" where
  "split_char c [] = [[]]"
| "split_char c (x # xs) =
     (if x = c then [] # split_char c xs
      else (case split_char c xs of [] \<Rightarrow> [[x]] | p # ps \<Rightarrow> (x # p) # ps))"

definition last_piece :: "char \<Rightarrow> str \<Rightarrow> str" where
  "last_piece c s = rev (takeWhile (\<lambda>x. x \<noteq> c) (rev s))"

text \<open>\<open>rsplit_once(c)\<close>: the text before and after the last separator.\<close>

definition rsplit_once :: "char \<Rightarrow> str \<Rightarrow> (str \<times> str) option" where
  "rsplit_once c s =
     (case rfind_char s c of None \<Rightarrow> None | Some i \<Rightarrow> Some (take i s, drop (Suc i) s))"

subsection \<open>Panics and slices\<close>

datatype rust_panic = SliceRange | IndexRange | ExpectFailed

text \<open>A continuation byte of UTF-8 is \<open>10xxxxxx\<close>; a slice may only start and end outside one.\<close>

definition char_boundary :: "str \<Rightarrow> nat \<Rightarrow> bool" where
  "char_boundary s i \<longleftrightarrow> i = 0 \<or> i = length s \<or>
     (i < length s \<and> \<not> (128 \<le> (of_char (s ! i) :: nat) \<and> (of_char (s ! i) :: nat) < 192))"

definition slice :: "str \<Rightarrow> nat \<Rightarrow> nat \<Rightarrow> rust_panic + str" where
  "slice s a b =
     (if a \<le> b \<and> b \<le> length s \<and> char_boundary s a \<and> char_boundary s b
      then Inr (take (b - a) (drop a s)) else Inl SliceRange)"

lemma find_append:
  "find P (xs @ ys) = (case find P xs of None \<Rightarrow> find P ys | Some y \<Rightarrow> Some y)"
  by (induction xs) auto

lemma find_SomeD: "find P xs = Some x \<Longrightarrow> x \<in> set xs \<and> P x"
  by (induction xs) (auto split: if_splits)

lemma set_map_filter: "set (List.map_filter f xs) = {y. \<exists>x\<in>set xs. f x = Some y}"
  by (induction xs) (auto split: option.splits)

lemma map_filter_cong:
  "(\<And>x. x \<in> set xs \<Longrightarrow> f x = g x) \<Longrightarrow> List.map_filter f xs = List.map_filter g xs"
  by (induction xs) (auto split: option.splits)

lemma distinct_map_filter_inj:
  assumes "distinct xs" "\<And>x y z. f x = Some z \<Longrightarrow> f y = Some z \<Longrightarrow> x = y"
  shows "distinct (List.map_filter f xs)"
  using assms(1)
  by (induction xs) (auto simp: set_map_filter split: option.splits dest: assms(2))

lemma position_None: "position P xs = None \<longleftrightarrow> (\<forall>x\<in>set xs. \<not> P x)"
  by (induction xs) auto

lemma position_Some: "position P xs = Some i \<Longrightarrow> i < length xs \<and> P (xs ! i)"
  by (induction xs arbitrary: i) (auto split: if_splits)

lemma position_first: "position P xs = Some i \<Longrightarrow> j < i \<Longrightarrow> \<not> P (xs ! j)"
proof (induction xs arbitrary: i j)
  case (Cons x xs)
  then show ?case by (cases j) (auto split: if_splits)
qed simp

lemma position_distinct:
  "distinct xs \<Longrightarrow> i < length xs \<Longrightarrow> position (\<lambda>x. x = xs ! i) xs = Some i"
  by (induction xs arbitrary: i) (auto simp: nth_Cons split: nat.splits)

lemma find_char_None [simp]: "find_char s c = None \<longleftrightarrow> c \<notin> set s"
  by (induction s) auto

lemma find_char_append_Cons:
  "c \<notin> set xs \<Longrightarrow> find_char (xs @ c # ys) c = Some (length xs)"
  by (induction xs) auto

lemma find_char_Some:
  "find_char s c = Some i \<Longrightarrow> i < length s \<and> s ! i = c \<and> c \<notin> set (take i s)"
  by (induction s arbitrary: i) (fastforce split: if_splits)+

lemma find_char_split:
  "find_char s c = Some i \<Longrightarrow> s = take i s @ c # drop (Suc i) s"
  by (metis find_char_Some id_take_nth_drop)

lemma takeWhile_dropWhile_cut:
  assumes "\<forall>x\<in>set xs. P x" "\<not> P y"
  shows "takeWhile P (xs @ y # ys) = xs" "dropWhile P (xs @ y # ys) = y # ys"
  using assms by (auto simp: takeWhile_append dropWhile_append)

lemma starts_with_Cons [simp]:
  "starts_with (x # xs) [c] \<longleftrightarrow> x = c" "\<not> starts_with [] [c]"
  by (auto simp: starts_with_def)

lemma starts_with_singleton:
  "starts_with s [c] \<longleftrightarrow> (\<exists>r. s = c # r)"
  by (cases s) auto

lemma repeat_str_0 [simp]: "repeat_str 0 s = []"
  and repeat_str_Suc: "repeat_str (Suc n) s = s @ repeat_str n s"
  by (simp_all add: repeat_str_def)

lemma repeat_str_Suc_end: "repeat_str (Suc n) s = repeat_str n s @ s"
  by (induction n) (simp_all add: repeat_str_Suc)

lemma last_piece_no_sep [simp]: "c \<notin> set (last_piece c s)"
proof -
  have "c \<notin> set (takeWhile (\<lambda>x. x \<noteq> c) (rev s))"
    by (metis (mono_tags, lifting) set_takeWhileD)
  then show ?thesis by (simp add: last_piece_def)
qed

lemma last_piece_suffix: "c \<notin> set b \<Longrightarrow> last_piece c (a @ c # b) = b"
  by (simp add: last_piece_def takeWhile_append)

lemma last_piece_whole:
  assumes "c \<notin> set s"
  shows "last_piece c s = s"
proof -
  have "takeWhile (\<lambda>x. x \<noteq> c) (rev s) = rev s"
    using assms by (subst takeWhile_eq_all_conv) auto
  then show ?thesis by (simp only: last_piece_def rev_rev_ident)
qed

lemma trim_id:
  assumes "s = [] \<or> (\<not> is_ws (hd s) \<and> \<not> is_ws (last s))"
  shows "trim s = s"
proof (cases "s = []")
  case True
  then show ?thesis by (simp add: trim_def trim_start_def trim_end_def)
next
  case False
  with assms have h: "\<not> is_ws (hd s)" "\<not> is_ws (hd (rev s))" by (auto simp: hd_rev)
  from False obtain x xs where s: "s = x # xs" by (cases s) auto
  from False obtain y ys where r: "rev s = y # ys" by (cases "rev s") auto
  from h s have "dropWhile is_ws s = s" by simp
  moreover from h r have "dropWhile is_ws (rev s) = rev s" by simp
  ultimately show ?thesis by (simp add: trim_def trim_start_def trim_end_def)
qed

subsection \<open>Hash maps\<close>

type_synonym ('k, 'v) hash_map = "('k \<times> 'v) list"

abbreviation hget :: "('k, 'v) hash_map \<Rightarrow> 'k \<Rightarrow> 'v option" where
  "hget \<equiv> map_of"

definition hinsert :: "'k \<Rightarrow> 'v \<Rightarrow> ('k, 'v) hash_map \<Rightarrow> ('k, 'v) hash_map" where
  "hinsert k v m = AList.update k v m"

definition hremove :: "'k \<Rightarrow> ('k, 'v) hash_map \<Rightarrow> ('k, 'v) hash_map" where
  "hremove k m = AList.delete k m"

definition hkeys :: "('k, 'v) hash_map \<Rightarrow> 'k list" where
  "hkeys m = map fst m"

text \<open>The keys of a map are distinct; \<open>hinsert\<close> and \<open>hremove\<close> keep that.\<close>

definition hwf :: "('k, 'v) hash_map \<Rightarrow> bool" where
  "hwf m \<longleftrightarrow> distinct (map fst m)"

text \<open>\<open>entry(k).or_default().push(x)\<close> on a map of vectors.\<close>

definition hpush :: "'k \<Rightarrow> 'x \<Rightarrow> ('k, 'x list) hash_map \<Rightarrow> ('k, 'x list) hash_map" where
  "hpush k x m = hinsert k ((case hget m k of None \<Rightarrow> [] | Some xs \<Rightarrow> xs) @ [x]) m"

lemma hget_hinsert [simp]: "hget (hinsert k v m) = (hget m)(k \<mapsto> v)"
  by (simp add: hinsert_def update_conv' fun_eq_iff)

lemma hget_hremove [simp]: "hget (hremove k m) = (hget m)(k := None)"
  by (simp add: hremove_def delete_conv' fun_eq_iff)

lemma hwf_simps [simp, intro]:
  "hwf []" "hwf m \<Longrightarrow> hwf (hinsert k v m)" "hwf m \<Longrightarrow> hwf (hremove k m)"
  by (auto simp: hwf_def hinsert_def hremove_def distinct_update distinct_delete)

lemma hwf_hpush [simp, intro]: "hwf m \<Longrightarrow> hwf (hpush k x m)"
  by (simp add: hpush_def)

lemma set_hkeys [simp]: "set (hkeys m) = dom (map_of m)"
  by (simp add: hkeys_def dom_map_of_conv_image_fst)

lemma hget_hpush:
  "hget (hpush k x m) k' =
     (if k' = k then Some ((case hget m k of None \<Rightarrow> [] | Some xs \<Rightarrow> xs) @ [x]) else hget m k')"
  by (simp add: hpush_def)

subsection \<open>Results\<close>

text \<open>\<open>Result::and_then\<close> and the collection of a sequence of results, on \<open>rust_panic + 'a\<close>.\<close>

definition and_then :: "'e + 'a \<Rightarrow> ('a \<Rightarrow> 'e + 'b) \<Rightarrow> 'e + 'b" where
  "and_then r f = (case r of Inl e \<Rightarrow> Inl e | Inr x \<Rightarrow> f x)"

definition map_ok :: "('a \<Rightarrow> 'b) \<Rightarrow> 'e + 'a \<Rightarrow> 'e + 'b" where
  "map_ok f r = (case r of Inl e \<Rightarrow> Inl e | Inr x \<Rightarrow> Inr (f x))"

fun try_map :: "('a \<Rightarrow> 'e + 'b) \<Rightarrow> 'a list \<Rightarrow> 'e + 'b list" where
  "try_map f [] = Inr []"
| "try_map f (x # xs) = and_then (f x) (\<lambda>y. map_ok (\<lambda>ys. y # ys) (try_map f xs))"

text \<open>\<open>find_map\<close>: the first result, searching no further; \<open>try_find_map\<close> stops at a panic as well.\<close>

fun find_map :: "('a \<Rightarrow> 'b option) \<Rightarrow> 'a list \<Rightarrow> 'b option" where
  "find_map f [] = None"
| "find_map f (x # xs) = (case f x of Some y \<Rightarrow> Some y | None \<Rightarrow> find_map f xs)"

fun try_find_map :: "('a \<Rightarrow> 'e + 'b option) \<Rightarrow> 'a list \<Rightarrow> 'e + 'b option" where
  "try_find_map f [] = Inr None"
| "try_find_map f (x # xs) =
     and_then (f x) (\<lambda>r. case r of Some y \<Rightarrow> Inr (Some y) | None \<Rightarrow> try_find_map f xs)"

lemma and_then_simps [simp]:
  "and_then (Inr x) f = f x" "and_then (Inl e) f = Inl e"
  by (simp_all add: and_then_def)

lemma and_then_Inr:
  "and_then r f = Inr y \<longleftrightarrow> (\<exists>x. r = Inr x \<and> f x = Inr y)"
  by (cases r) auto

lemma map_ok_simps [simp]: "map_ok f (Inr x) = Inr (f x)" "map_ok f (Inl e) = Inl e"
  by (simp_all add: map_ok_def)

lemma map_ok_Inr: "map_ok f r = Inr y \<longleftrightarrow> (\<exists>x. r = Inr x \<and> y = f x)"
  by (cases r) auto

lemma try_map_Inr:
  "(\<And>x. x \<in> set xs \<Longrightarrow> f x = Inr (g x)) \<Longrightarrow> try_map f xs = Inr (map g xs)"
  by (induction xs) auto

lemma try_map_ex:
  "(\<And>x. x \<in> set xs \<Longrightarrow> \<exists>y. f x = Inr y) \<Longrightarrow> \<exists>ys. try_map f xs = Inr ys"
  by (induction xs) fastforce+

lemma try_map_InrD:
  "try_map f xs = Inr ys \<Longrightarrow> list_all2 (\<lambda>x y. f x = Inr y) xs ys"
  by (induction xs arbitrary: ys) (auto simp: and_then_Inr map_ok_Inr)

lemma try_map_cong [fundef_cong]:
  "xs = ys \<Longrightarrow> (\<And>x. x \<in> set ys \<Longrightarrow> f x = g x) \<Longrightarrow> try_map f xs = try_map g ys"
  by (induction ys arbitrary: xs) (auto simp: and_then_def split: sum.splits)

subsection \<open>Work lists\<close>

text \<open>
  The loop \<open>while let Some(k) = queue.pop_front()\<close> over a queue and a set of seen keys: a key
  already seen is skipped, a key \<open>get\<close> does not know is marked and skipped, any other is
  marked, handed to \<open>step\<close>, and its successors are appended to the queue. \<open>U\<close> lists the keys
  that \<open>get\<close> may know; it only makes the recursion well-founded (\<open>bfs_Cons\<close> is the equation of
  the loop without it).
\<close>

function bfs :: "'k list \<Rightarrow> ('k \<Rightarrow> 'v option) \<Rightarrow> ('v \<Rightarrow> 'k list) \<Rightarrow> ('k \<Rightarrow> 'v \<Rightarrow> 'a \<Rightarrow> 'a)
    \<Rightarrow> 'k list \<Rightarrow> 'k set \<Rightarrow> 'a \<Rightarrow> 'a" where
  "bfs U get succs step [] seen acc = acc"
| "bfs U get succs step (k # queue) seen acc =
     (if k \<in> seen then bfs U get succs step queue seen acc
      else if k \<notin> set U then bfs U get succs step queue (insert k seen) acc
      else (case get k of
              None \<Rightarrow> bfs U get succs step queue (insert k seen) acc
            | Some v \<Rightarrow> bfs U get succs step (queue @ succs v) (insert k seen) (step k v acc)))"
  by pat_completeness auto

termination bfs
proof (relation "measures [\<lambda>(U, get, succs, step, queue, seen, acc). card (set U - seen),
                           \<lambda>(U, get, succs, step, queue, seen, acc). length queue]", goal_cases)
  case (3 U get succs step k queue seen acc)
  then have "set U - insert k seen = set U - seen" by auto
  with 3 show ?case by (simp only: in_measures split_conv) simp
next
  case (4 U get succs step k queue seen acc)
  then have "card (set U - insert k seen) < card (set U - seen)"
    by (intro psubset_card_mono) auto
  then show ?case by (simp only: in_measures split_conv simp_thms)
next
  case (5 U get succs step k queue seen acc v)
  then have "card (set U - insert k seen) < card (set U - seen)"
    by (intro psubset_card_mono) auto
  then show ?case by (simp only: in_measures split_conv simp_thms)
qed auto

lemma bfs_Cons:
  assumes "dom get \<subseteq> set U"
  shows "bfs U get succs step (k # queue) seen acc =
     (if k \<in> seen then bfs U get succs step queue seen acc
      else (case get k of
              None \<Rightarrow> bfs U get succs step queue (insert k seen) acc
            | Some v \<Rightarrow> bfs U get succs step (queue @ succs v) (insert k seen) (step k v acc)))"
proof (cases "k \<in> set U")
  case False
  with assms have "get k = None" by auto
  with False show ?thesis by simp
qed simp

text \<open>The keys in the order in which the loop hands them to \<open>step\<close>.\<close>

definition visits :: "'k list \<Rightarrow> ('k \<Rightarrow> 'v option) \<Rightarrow> ('v \<Rightarrow> 'k list) \<Rightarrow> 'k list \<Rightarrow> 'k set \<Rightarrow> 'k list" where
  "visits U get succs queue seen = bfs U get succs (\<lambda>k v ks. ks @ [k]) queue seen []"

lemma bfs_collect_append:
  fixes get :: "'k \<Rightarrow> 'v option"
  shows "bfs U get succs (\<lambda>k v ks. ks @ [k]) queue seen (ks @ ls)
      = ks @ bfs U get succs (\<lambda>k v ks. ks @ [k]) queue seen ls"
  by (induction U get succs "\<lambda>(k :: 'k) (v :: 'v) ks. ks @ [k]" queue seen ls rule: bfs.induct)
     (auto split: option.splits)

lemma bfs_collect: "bfs U get succs (\<lambda>k v ks. ks @ [k]) queue seen ks = ks @ visits U get succs queue seen"
  using bfs_collect_append [of U get succs queue seen ks "[]"] by (simp add: visits_def)

lemma visits_simps:
  "visits U get succs [] seen = []"
  "visits U get succs (k # queue) seen =
     (if k \<in> seen then visits U get succs queue seen
      else if k \<notin> set U then visits U get succs queue (insert k seen)
      else (case get k of
              None \<Rightarrow> visits U get succs queue (insert k seen)
            | Some v \<Rightarrow> k # visits U get succs (queue @ succs v) (insert k seen)))"
  by (simp_all only: visits_def bfs.simps append_Nil split: option.split)
     (simp_all add: bfs_collect visits_def [symmetric] del: bfs.simps)

lemma bfs_eq_fold:
  "bfs U get succs step queue seen acc =
     fold (\<lambda>k. step k (the (get k))) (visits U get succs queue seen) acc"
  by (induction U get succs step queue seen acc rule: bfs.induct)
     (auto simp: visits_simps split: option.splits)

lemma visits_unseen:
  fixes get :: "'k \<Rightarrow> 'v option"
  shows "set (visits U get succs queue seen) \<inter> seen = {}"
    and visits_distinct: "distinct (visits U get succs queue seen)"
    and visits_dom: "set (visits U get succs queue seen) \<subseteq> dom get"
proof -
  have "set (visits U get succs queue seen) \<inter> seen = {} \<and> distinct (visits U get succs queue seen)
      \<and> set (visits U get succs queue seen) \<subseteq> dom get"
    by (induction U get succs "\<lambda>(k :: 'k) (v :: 'v) (u :: unit). ()" queue seen "()" rule: bfs.induct)
       (auto simp: visits_simps split: option.splits)
  then show "set (visits U get succs queue seen) \<inter> seen = {}"
    "distinct (visits U get succs queue seen)" "set (visits U get succs queue seen) \<subseteq> dom get"
    by blast+
qed

lemma visits_universe:
  fixes get :: "'k \<Rightarrow> 'v option"
  assumes "dom get \<subseteq> set U" "dom get \<subseteq> set U'"
  shows "visits U get succs queue seen = visits U' get succs queue seen"
  using assms
proof (induction U get succs "\<lambda>(k :: 'k) (v :: 'v) (u :: unit). ()" queue seen "()" rule: bfs.induct)
  case (2 U get succs k queue seen)
  show ?case
  proof (cases "k \<in> seen \<or> get k = None")
    case True
    with 2 show ?thesis by (auto simp: visits_simps)
  next
    case False
    then obtain v where v: "get k = Some v" by auto
    with 2(5,6) have "k \<in> set U" "k \<in> set U'" by auto
    with 2(4) [of v] 2(5,6) v False show ?thesis by (simp add: visits_simps)
  qed
qed (simp add: visits_simps)

text \<open>Keys reached from \<open>Q\<close> along successors of known keys, without entering \<open>S\<close>.\<close>

inductive reaches :: "('k \<Rightarrow> 'v option) \<Rightarrow> ('v \<Rightarrow> 'k list) \<Rightarrow> 'k set \<Rightarrow> 'k set \<Rightarrow> 'k \<Rightarrow> bool"
  for get succs S Q where
  start: "k \<in> Q \<Longrightarrow> k \<notin> S \<Longrightarrow> reaches get succs S Q k"
| edge: "reaches get succs S Q k \<Longrightarrow> get k = Some v \<Longrightarrow> k' \<in> set (succs v) \<Longrightarrow> k' \<notin> S
         \<Longrightarrow> reaches get succs S Q k'"

lemma reaches_not_in: "reaches get succs S Q k \<Longrightarrow> k \<notin> S"
  by (induction rule: reaches.induct) auto

lemma reaches_mono:
  "reaches get succs S Q k \<Longrightarrow> S' \<subseteq> S \<Longrightarrow> Q \<subseteq> Q' \<Longrightarrow> reaches get succs S' Q' k"
  by (induction rule: reaches.induct) (auto intro: reaches.intros)

lemma reaches_avoid_known:
  assumes "reaches get succs S (insert k Q) x" "get k = Some v"
  shows "x = k \<or> reaches get succs (insert k S) (Q \<union> set (succs v)) x"
  using assms(1)
proof induction
  case (edge y w y')
  then show ?case using assms(2) by (metis Un_iff insert_iff option.inject reaches.simps)
qed (auto intro: reaches.start)

lemma reaches_avoid_unknown:
  assumes "reaches get succs S (insert k Q) x" "get k = None"
  shows "x = k \<or> reaches get succs (insert k S) Q x"
  using assms(1)
proof induction
  case (edge y w y')
  then show ?case using assms(2) by (metis insert_iff option.distinct(1) reaches.edge)
qed (auto intro: reaches.start)

lemma reaches_seen: "k \<in> S \<Longrightarrow> reaches get succs S (insert k Q) x \<longleftrightarrow> reaches get succs S Q x"
proof
  assume k: "k \<in> S"
  show "reaches get succs S Q x" if "reaches get succs S (insert k Q) x"
    using that by induction (use k in \<open>auto intro: reaches.intros\<close>)
qed (auto intro: reaches_mono)

lemma reaches_step:
  assumes "k \<notin> S" "get k = Some v"
  shows "reaches get succs S (insert k Q) x
     \<longleftrightarrow> x = k \<or> reaches get succs (insert k S) (Q \<union> set (succs v)) x"
proof
  assume "x = k \<or> reaches get succs (insert k S) (Q \<union> set (succs v)) x"
  moreover have "reaches get succs S (insert k Q) x"
    if "reaches get succs (insert k S) (Q \<union> set (succs v)) x"
    using that
  proof induction
    case (start y)
    then show ?case using assms by (metis Un_iff insert_iff reaches.simps)
  next
    case (edge y w y')
    then show ?case by (metis insert_iff reaches.edge)
  qed
  ultimately show "reaches get succs S (insert k Q) x" using assms by (auto intro: reaches.start)
next
  show "x = k \<or> reaches get succs (insert k S) (Q \<union> set (succs v)) x"
    if "reaches get succs S (insert k Q) x" using that assms(2) by (rule reaches_avoid_known)
qed

lemma set_visits:
  fixes get :: "'k \<Rightarrow> 'v option"
  assumes "dom get \<subseteq> set U"
  shows "set (visits U get succs queue seen) = {k \<in> dom get. reaches get succs seen (set queue) k}"
  using assms
proof (induction U get succs "\<lambda>(k :: 'k) (v :: 'v) (u :: unit). ()" queue seen "()" rule: bfs.induct)
  case (1 U get succs seen)
  have "\<not> reaches get succs seen {} k" for k
    by (rule notI, induction rule: reaches.induct) auto
  then show ?case by (simp add: visits_simps)
next
  case (2 U get succs k queue seen)
  have unknown: "x = k \<or> reaches get succs (insert k seen) (set queue) x
      \<Longrightarrow> get k = None \<Longrightarrow> x \<in> dom get \<Longrightarrow> reaches get succs seen (insert k (set queue)) x" for x
    using reaches_mono [of get succs "insert k seen" "set queue" x seen "insert k (set queue)"]
    by auto
  consider "k \<in> seen" | "k \<notin> seen" "get k = None" | v where "k \<notin> seen" "get k = Some v"
    by (cases "get k") auto
  then show ?case
  proof cases
    case 1
    then show ?thesis using 2 by (simp add: visits_simps reaches_seen)
  next
    case u: 2
    then have "set (visits U get succs (k # queue) seen)
        = set (visits U get succs queue (insert k seen))" by (simp add: visits_simps)
    moreover have "set (visits U get succs queue (insert k seen))
        = {x \<in> dom get. reaches get succs (insert k seen) (set queue) x}"
      using 2(2) [OF u(1)] 2(3) [OF u(1)] 2(5) u by (cases "k \<in> set U") auto
    ultimately show ?thesis
      using unknown u reaches_avoid_unknown [of get succs seen k "set queue"] by fastforce
  next
    case (3 v)
    then have kU: "k \<in> set U" using 2(5) by auto
    from 3 kU 2(4) [of v] 2(5)
    have "set (visits U get succs (k # queue) seen)
        = insert k {x \<in> dom get. reaches get succs (insert k seen) (set queue \<union> set (succs v)) x}"
      by (simp add: visits_simps)
    with 3 show ?thesis by (auto simp: reaches_step)
  qed
qed

text \<open>From one start key with nothing seen, reachability is the reflexive-transitive closure.\<close>

definition succ_rel :: "('k \<Rightarrow> 'v option) \<Rightarrow> ('v \<Rightarrow> 'k list) \<Rightarrow> ('k \<times> 'k) set" where
  "succ_rel get succs = {(k, k'). \<exists>v. get k = Some v \<and> k' \<in> set (succs v)}"

lemma reaches_rtrancl: "reaches get succs {} {k} x \<longleftrightarrow> (k, x) \<in> (succ_rel get succs)\<^sup>*"
proof
  show "(k, x) \<in> (succ_rel get succs)\<^sup>*" if "reaches get succs {} {k} x"
    using that by induction (auto simp: succ_rel_def intro: rtrancl_into_rtrancl)
  show "reaches get succs {} {k} x" if "(k, x) \<in> (succ_rel get succs)\<^sup>*"
    using that by induction (auto simp: succ_rel_def intro: reaches.intros)
qed

theorem set_visits_reachable:
  "dom get \<subseteq> set U \<Longrightarrow>
     set (visits U get succs [k] {}) = {x \<in> dom get. (k, x) \<in> (succ_rel get succs)\<^sup>*}"
  by (simp add: set_visits reaches_rtrancl)

end
