(* ===== verification/Type_Name.thy ===== *)
theory Type_Name
  imports Prelude
begin

text \<open>
  Structured type names (\<open>src/semantic/types/type_name.rs\<close>): the datatype \<open>type_name\<close>, its
  constructors and queries, erasure, the conversion between an array and its element type,
  and the printers of the internal form and of the JVM signature.

  The lemmas show that the array suffix is parsed and printed consistently, that
  intersections stay flat, and that wrapping and unwrapping an array are inverse.
\<close>

datatype type_name_kind =
  Internal | KPrimitive | KTypeVar | SourceLike | Intersection | KWildcard
| WildcardExtends | WildcardSuper | KNull | KUnknown | Capture

text \<open>\<open>array_dims\<close> is a \<open>usize\<close> that counts suffixes of a text, so it is a natural number here.\<close>

datatype type_name =
  TypeName (base_internal: str) (tn_kind: type_name_kind) (tn_args: "type_name list") (array_dims: nat)

subsection \<open>Constructors\<close>

definition INTERSECTION_INTERNAL :: str where
  "INTERSECTION_INTERNAL = ''&''"

definition primitive_names :: "str list" where
  "primitive_names = [''byte'', ''char'', ''double'', ''float'', ''int'', ''long'', ''short'',
     ''boolean'', ''void'']"

definition classify_legacy_base :: "str \<Rightarrow> type_name_kind" where
  "classify_legacy_base base =
     (if base \<in> set primitive_names then KPrimitive
      else if base = INTERSECTION_INTERNAL then Intersection
      else if base = ''*'' \<or> base = ''?'' then KWildcard
      else if base = ''+'' then WildcardExtends
      else if base = ''-'' then WildcardSuper
      else if base = ''null'' then KNull
      else if base = ''capture'' then Capture
      else if contains_char base (CHR ''/'') then Internal
      else SourceLike)"

definition with_kind :: "str \<Rightarrow> type_name_kind \<Rightarrow> type_name" where
  "with_kind b k = TypeName b k [] 0"

definition with_args_and_kind :: "str \<Rightarrow> type_name_kind \<Rightarrow> type_name list \<Rightarrow> type_name" where
  "with_args_and_kind b k as = TypeName b k as 0"

definition with_args :: "str \<Rightarrow> type_name list \<Rightarrow> type_name" where
  "with_args b as = with_args_and_kind b (classify_legacy_base b) as"

fun with_array_dims :: "type_name \<Rightarrow> nat \<Rightarrow> type_name" where
  "with_array_dims (TypeName b k as _) d = TypeName b k as d"

text \<open>The loop of \<open>new\<close>: strip \<open>[]\<close> suffixes, trimming the end after each.\<close>

lemma strip_suffix_shorter: "strip_suffix s p = Some r \<Longrightarrow> p \<noteq> [] \<Longrightarrow> length r < length s"
  by (cases p) (auto simp: strip_suffix_def ends_with_def split: if_splits)

lemma length_trim_end [simp]: "length (trim_end s) \<le> length s"
  unfolding trim_end_def by (metis length_dropWhile_le length_rev)

function strip_array_suffixes :: "str \<Rightarrow> nat \<Rightarrow> str \<times> nat" where
  "strip_array_suffixes base dims =
     (case strip_suffix base ''[]'' of
        Some stripped \<Rightarrow> strip_array_suffixes (trim_end stripped) (dims + 1)
      | None \<Rightarrow> (base, dims))"
  by pat_completeness auto
termination
proof (relation "measure (\<lambda>(b, d). length b)", goal_cases)
  case (2 base dims stripped)
  then have "length stripped < length base" by (simp add: strip_suffix_shorter)
  then show ?case by (simp add: le_less_trans [OF length_trim_end])
qed simp

declare strip_array_suffixes.simps [simp del]

definition type_name_new :: "str \<Rightarrow> type_name" where
  "type_name_new raw =
     (let (base, dims) = strip_array_suffixes (trim raw) 0
      in with_array_dims (with_kind base (classify_legacy_base base)) dims)"

definition internal_type :: "str \<Rightarrow> type_name" where "internal_type b = with_kind b Internal"
definition primitive_type :: "str \<Rightarrow> type_name" where "primitive_type b = with_kind b KPrimitive"
definition type_var :: "str \<Rightarrow> type_name" where "type_var b = with_kind b KTypeVar"
definition source_like :: "str \<Rightarrow> type_name" where "source_like b = with_kind b SourceLike"
definition unknown_type :: type_name where "unknown_type = with_kind ''unknown'' KUnknown"
definition null_type :: type_name where "null_type = with_kind ''null'' KNull"
definition wildcard_type :: type_name where "wildcard_type = with_kind ''*'' KWildcard"
definition capture_type :: type_name where "capture_type = with_kind ''capture'' Capture"

definition internal_with_args :: "str \<Rightarrow> type_name list \<Rightarrow> type_name" where
  "internal_with_args b as = with_args_and_kind b Internal as"

definition wildcard_extends :: "type_name \<Rightarrow> type_name" where
  "wildcard_extends inner = with_args_and_kind ''+'' WildcardExtends [inner]"

definition wildcard_super :: "type_name \<Rightarrow> type_name" where
  "wildcard_super inner = with_args_and_kind ''-'' WildcardSuper [inner]"

subsection \<open>Queries\<close>

definition is_array :: "type_name \<Rightarrow> bool" where "is_array t \<longleftrightarrow> array_dims t > 0"
definition is_primitive :: "type_name \<Rightarrow> bool" where "is_primitive t \<longleftrightarrow> tn_kind t = KPrimitive"
definition is_intersection :: "type_name \<Rightarrow> bool" where
  "is_intersection t \<longleftrightarrow> tn_kind t = Intersection"
definition is_internal :: "type_name \<Rightarrow> bool" where "is_internal t \<longleftrightarrow> tn_kind t = Internal"
definition is_type_var :: "type_name \<Rightarrow> bool" where "is_type_var t \<longleftrightarrow> tn_kind t = KTypeVar"
definition is_source_like :: "type_name \<Rightarrow> bool" where "is_source_like t \<longleftrightarrow> tn_kind t = SourceLike"
definition is_unknown :: "type_name \<Rightarrow> bool" where "is_unknown t \<longleftrightarrow> tn_kind t = KUnknown"
definition is_null :: "type_name \<Rightarrow> bool" where "is_null t \<longleftrightarrow> tn_kind t = KNull"
definition is_wildcard :: "type_name \<Rightarrow> bool" where "is_wildcard t \<longleftrightarrow> tn_kind t = KWildcard"
definition is_wildcard_extends :: "type_name \<Rightarrow> bool" where
  "is_wildcard_extends t \<longleftrightarrow> tn_kind t = WildcardExtends"
definition is_wildcard_super :: "type_name \<Rightarrow> bool" where
  "is_wildcard_super t \<longleftrightarrow> tn_kind t = WildcardSuper"
definition is_capture :: "type_name \<Rightarrow> bool" where "is_capture t \<longleftrightarrow> tn_kind t = Capture"
definition is_wildcard_like :: "type_name \<Rightarrow> bool" where
  "is_wildcard_like t \<longleftrightarrow> tn_kind t \<in> {KWildcard, WildcardExtends, WildcardSuper, Capture}"
definition has_generics :: "type_name \<Rightarrow> bool" where "has_generics t \<longleftrightarrow> tn_args t \<noteq> []"

definition first_arg :: "type_name \<Rightarrow> type_name option" where
  "first_arg t = (case tn_args t of [] \<Rightarrow> None | a # _ \<Rightarrow> Some a)"

definition primary_bound :: "type_name \<Rightarrow> type_name option" where
  "primary_bound t = (if is_intersection t then first_arg t else None)"

definition wildcard_upper_bound :: "type_name \<Rightarrow> type_name option" where
  "wildcard_upper_bound t = (if is_wildcard_extends t then first_arg t else None)"

definition bounds_for_lookup :: "type_name \<Rightarrow> type_name list" where
  "bounds_for_lookup t = (if is_intersection t then tn_args t else [t])"

definition intersection :: "type_name list \<Rightarrow> type_name" where
  "intersection bounds =
     (let flattened = concat (map (\<lambda>b. if is_intersection b then tn_args b else [b]) bounds)
      in case flattened of
           [] \<Rightarrow> with_kind INTERSECTION_INTERNAL Intersection
         | [t] \<Rightarrow> t
         | _ \<Rightarrow> with_args_and_kind INTERSECTION_INTERNAL Intersection flattened)"

fun is_exact_class :: "type_name \<Rightarrow> bool" where
  "is_exact_class (TypeName b k as d) =
     (if k = Intersection then (case as of [] \<Rightarrow> False | p # _ \<Rightarrow> is_exact_class p)
      else k = Internal)"

subsection \<open>Erasure and arrays\<close>

fun erased_internal :: "type_name \<Rightarrow> str" where
  "erased_internal (TypeName b k as d) =
     (if k = Intersection then (case as of [] \<Rightarrow> b | p # _ \<Rightarrow> erased_internal p) else b)"

fun erased_internal_with_arrays :: "type_name \<Rightarrow> str" where
  "erased_internal_with_arrays (TypeName b k as d) =
     (if k = Intersection
      then (case as of [] \<Rightarrow> b | p # _ \<Rightarrow> erased_internal_with_arrays p) else b)
     @ repeat_str d ''[]''"

fun contains_slash :: "type_name \<Rightarrow> bool" where
  "contains_slash (TypeName b k as d) =
     (if k = Intersection then list_ex contains_slash as else contains_char b (CHR ''/''))"

fun element_type :: "type_name \<Rightarrow> type_name option" where
  "element_type (TypeName b k as d) = (if d = 0 then None else Some (TypeName b k as (d - 1)))"

fun wrap_array :: "type_name \<Rightarrow> type_name" where
  "wrap_array (TypeName b k as d) = TypeName b k as (d + 1)"

subsection \<open>Printers\<close>

definition primitive_code :: "str \<Rightarrow> str" where
  "primitive_code b =
     (if b = ''byte'' then ''B'' else if b = ''char'' then ''C'' else if b = ''double'' then ''D''
      else if b = ''float'' then ''F'' else if b = ''int'' then ''I'' else if b = ''long'' then ''J''
      else if b = ''short'' then ''S'' else if b = ''boolean'' then ''Z''
      else if b = ''void'' then ''V'' else b)"

fun to_jvm_signature :: "type_name \<Rightarrow> str" where
  "to_jvm_signature (TypeName b k as d) =
     (if k = Intersection then
        (case as of
           [] \<Rightarrow> ''Ljava/lang/Object;''
         | p # _ \<Rightarrow> repeat_str d ''['' @ to_jvm_signature p)
      else repeat_str d ''['' @
        (case k of
           KPrimitive \<Rightarrow> primitive_code b
         | KWildcard \<Rightarrow> ''*''
         | WildcardExtends \<Rightarrow> (case as of [] \<Rightarrow> b | i # _ \<Rightarrow> b @ to_jvm_signature i)
         | WildcardSuper \<Rightarrow> (case as of [] \<Rightarrow> b | i # _ \<Rightarrow> b @ to_jvm_signature i)
         | KTypeVar \<Rightarrow> ''T'' @ b @ '';''
         | KNull \<Rightarrow> ''T'' @ b @ '';''
         | KUnknown \<Rightarrow> ''T'' @ b @ '';''
         | Intersection \<Rightarrow> ''Ljava/lang/Object;''
         | _ \<Rightarrow> (if as = [] then ''L'' @ b @ '';''
                 else ''L'' @ b @ ''<'' @ concat (map to_jvm_signature as) @ ''>;'')))"

fun to_internal_with_generics :: "type_name \<Rightarrow> str" where
  "to_internal_with_generics (TypeName b k as d) =
     (if k = Intersection then
        join '' & '' (map to_internal_with_generics as) @ repeat_str d ''[]''
      else
        (if as = [] \<or> k = WildcardExtends \<or> k = WildcardSuper then b
         else b @ ''<'' @ concat (map to_jvm_signature as) @ ''>'')
        @ repeat_str d ''[]'')"

fun to_jvm_sig_for_substitution :: "type_name \<Rightarrow> str" where
  "to_jvm_sig_for_substitution (TypeName b k as d) =
     repeat_str d ''['' @
       (case k of
          KPrimitive \<Rightarrow> primitive_code b
        | KWildcard \<Rightarrow> ''*''
        | WildcardExtends \<Rightarrow> (case as of [] \<Rightarrow> b | i # _ \<Rightarrow> b @ to_jvm_sig_for_substitution i)
        | WildcardSuper \<Rightarrow> (case as of [] \<Rightarrow> b | i # _ \<Rightarrow> b @ to_jvm_sig_for_substitution i)
        | KTypeVar \<Rightarrow> ''T'' @ b @ '';''
        | _ \<Rightarrow> (if as = [] then ''L'' @ b @ '';''
                else ''L'' @ b @ ''<'' @ concat (map to_jvm_sig_for_substitution as) @ ''>;''))"

fun to_internal_with_generics_for_substitution :: "type_name \<Rightarrow> str" where
  "to_internal_with_generics_for_substitution (TypeName b k as d) =
     (if k = Intersection then
        join '' & '' (map to_internal_with_generics_for_substitution as) @ repeat_str d ''[]''
      else
        (if as = [] then b
         else b @ ''<'' @ concat (map to_jvm_sig_for_substitution as) @ ''>'')
        @ repeat_str d ''[]'')"

subsection \<open>Array suffixes\<close>

lemma strip_array_suffixes_done:
  "\<not> ends_with b ''[]'' \<Longrightarrow> strip_array_suffixes b d = (b, d)"
  by (subst strip_array_suffixes.simps) (simp add: strip_suffix_def)

lemma strip_array_suffixes_step:
  "trim_end b = b \<Longrightarrow> strip_array_suffixes (b @ ''[]'') d = strip_array_suffixes b (d + 1)"
  by (subst strip_array_suffixes.simps) (simp add: strip_suffix_def ends_with_def)

lemma trim_end_id: "b = [] \<or> \<not> is_ws (last b) \<Longrightarrow> trim_end b = b"
  by (cases b rule: rev_cases) (auto simp: trim_end_def)

lemma last_repeat_arrays: "b \<noteq> [] \<Longrightarrow> \<not> is_ws (last b) \<Longrightarrow> \<not> is_ws (last (b @ repeat_str n ''[]''))"
  by (cases n) (simp_all add: repeat_str_Suc_end is_ws_def)

lemma strip_array_suffixes_repeat:
  assumes "b \<noteq> []" "\<not> is_ws (last b)" "\<not> ends_with b ''[]''"
  shows "strip_array_suffixes (b @ repeat_str n ''[]'') d = (b, d + n)"
proof (induction n arbitrary: d)
  case 0
  then show ?case using assms(3) by (simp add: strip_array_suffixes_done)
next
  case (Suc n)
  have "trim_end (b @ repeat_str n ''[]'') = b @ repeat_str n ''[]''"
    using last_repeat_arrays [OF assms(1,2)] by (intro trim_end_id) blast
  then have "strip_array_suffixes ((b @ repeat_str n ''[]'') @ ''[]'') d = (b, d + 1 + n)"
    by (subst strip_array_suffixes_step) (simp_all add: Suc)
  then show ?case by (simp add: repeat_str_Suc_end)
qed

lemma type_name_new_arrays:
  assumes "b \<noteq> []" "\<not> is_ws (hd b)" "\<not> is_ws (last b)" "\<not> ends_with b ''[]''"
  shows "type_name_new (b @ repeat_str n ''[]'') = TypeName b (classify_legacy_base b) [] n"
proof -
  have "trim (b @ repeat_str n ''[]'') = b @ repeat_str n ''[]''"
    using assms last_repeat_arrays [OF assms(1,3)] by (intro trim_id) auto
  then show ?thesis
    using strip_array_suffixes_repeat [OF assms(1,3,4)] by (simp add: type_name_new_def with_kind_def)
qed

subsection \<open>Intersections\<close>

text \<open>A type whose bounds, if it is an intersection, are no intersections themselves.\<close>

definition flat :: "type_name \<Rightarrow> bool" where
  "flat t \<longleftrightarrow> (\<forall>b\<in>set (bounds_for_lookup t). \<not> is_intersection b)"

lemma intersection_alt:
  "intersection bs =
     (case concat (map bounds_for_lookup bs) of
        [] \<Rightarrow> TypeName INTERSECTION_INTERNAL Intersection [] 0
      | [t] \<Rightarrow> t
      | ts \<Rightarrow> TypeName INTERSECTION_INTERNAL Intersection ts 0)"
proof -
  have "bounds_for_lookup = (\<lambda>b. if is_intersection b then tn_args b else [b])"
    by (simp add: fun_eq_iff bounds_for_lookup_def)
  then show ?thesis
    by (cases "concat (map bounds_for_lookup bs)")
      (auto simp: intersection_def Let_def with_kind_def with_args_and_kind_def
        simp del: concat_eq_Nil_conv split: list.split)
qed

lemma bounds_of_intersection:
  assumes "\<forall>b\<in>set bs. flat b"
  shows "bounds_for_lookup (intersection bs) = concat (map bounds_for_lookup bs)"
proof -
  let ?c = "concat (map bounds_for_lookup bs)"
  have "\<not> is_intersection t" if "t \<in> set ?c" for t
    using that assms by (auto simp: flat_def)
  then show ?thesis
    unfolding intersection_alt
    by (cases ?c) (auto simp: bounds_for_lookup_def is_intersection_def simp del: set_concat
      concat_eq_Nil_conv split: list.split)
qed

section \<open>Properties\<close>

text \<open>
  Reading a type text strips exactly its array suffixes, and erasing the result with its
  arrays prints the text that was read.
\<close>

theorem type_name_text_roundtrip:
  assumes "b \<noteq> []" "\<not> is_ws (hd b)" "\<not> is_ws (last b)" "\<not> ends_with b ''[]''"
  shows "type_name_new (b @ repeat_str n ''[]'') = TypeName b (classify_legacy_base b) [] n \<and>
    erased_internal_with_arrays (type_name_new (b @ repeat_str n ''[]'')) = b @ repeat_str n ''[]''"
  using type_name_new_arrays [OF assms] by simp

theorem type_name_text_roundtrip_witness:
  "type_name_new ''java/lang/String[][]'' = TypeName ''java/lang/String'' Internal [] 2"
  using type_name_text_roundtrip [of "''java/lang/String''" 2]
  by (simp add: is_ws_def ends_with_def repeat_str_def numeral_2_eq_2 classify_legacy_base_def
      primitive_names_def INTERSECTION_INTERNAL_def contains_char_def)

text \<open>
  Intersections stay flat and merge associatively: the bounds of an intersection are the
  bounds of its members in order, none of them an intersection, and replacing a member that is
  an intersection by its members changes nothing.
\<close>

theorem intersection_flattens:
  assumes "\<forall>b\<in>set (xs @ ys). flat b"
  shows "bounds_for_lookup (intersection (xs @ ys)) = concat (map bounds_for_lookup (xs @ ys)) \<and>
    flat (intersection (xs @ ys)) \<and> intersection (intersection xs # ys) = intersection (xs @ ys)"
proof (intro conjI)
  have xs: "bounds_for_lookup (intersection xs) = concat (map bounds_for_lookup xs)"
    using assms by (intro bounds_of_intersection) auto
  show all: "bounds_for_lookup (intersection (xs @ ys)) = concat (map bounds_for_lookup (xs @ ys))"
    by (rule bounds_of_intersection [OF assms])
  show "flat (intersection (xs @ ys))"
    using assms unfolding flat_def all by auto
  show "intersection (intersection xs # ys) = intersection (xs @ ys)"
    by (simp add: intersection_alt [of "_ # _"] intersection_alt [of "xs @ ys"] xs)
qed

theorem intersection_flattens_witness:
  "intersection (intersection [type_var ''A'', type_var ''B''] # [type_var ''C''])
     = intersection [type_var ''A'', type_var ''B'', type_var ''C'']"
  using intersection_flattens [of "[type_var ''A'', type_var ''B'']" "[type_var ''C'']"]
  by (simp add: flat_def bounds_for_lookup_def is_intersection_def type_var_def with_kind_def)

text \<open>
  Wrapping a type in an array and taking the element type are inverse, in both directions,
  and neither changes the erased class name.
\<close>

theorem array_wrap_unwrap:
  "element_type (wrap_array t) = Some t \<and>
   (\<forall>e. element_type t = Some e \<longleftrightarrow> is_array t \<and> wrap_array e = t) \<and>
   erased_internal (wrap_array t) = erased_internal t"
proof (cases t)
  case (TypeName b k as d)
  have "element_type t = Some e \<longleftrightarrow> is_array t \<and> wrap_array e = t" for e
    using TypeName by (cases e) (auto simp: is_array_def)
  with TypeName show ?thesis by simp
qed

theorem array_wrap_unwrap_witness:
  "element_type (TypeName ''int'' KPrimitive [] 1) = Some (TypeName ''int'' KPrimitive [] 0)"
  using array_wrap_unwrap [of "TypeName ''int'' KPrimitive [] 0"] by simp

end
