(* ===== verification/Jvm_Type.thy ===== *)
theory Jvm_Type
  imports Type_Name
begin

text \<open>
  JVM signatures (\<open>src/semantic/types/generics.rs\<close>): the datatype \<open>jvm_type\<close>, its recursive
  descent parser, the printers, substitution of type variables, the parsers of type parameter
  sections and method signatures, and the expansion of type variables by their bounds.
\<close>

datatype jvm_type =
  Object str "jvm_type list"
| TypeVar str
| Array jvm_type
| Primitive char
| Wildcard
| WildcardBound char jvm_type

subsection \<open>Parser\<close>

definition primitive_chars :: "char list" where
  "primitive_chars = ''VBCDFIJSZ''"

definition name_byte :: "char \<Rightarrow> bool" where
  "name_byte b \<longleftrightarrow> b \<noteq> CHR ''<'' \<and> b \<noteq> CHR '';''"

text \<open>\<open>if rest.starts_with(';') \<lbrace> rest = &rest[1..] \<rbrace>\<close>\<close>

definition eat_semicolon :: "str \<Rightarrow> str" where
  "eat_semicolon r = (case r of [] \<Rightarrow> [] | c # r' \<Rightarrow> if c = CHR '';'' then r' else r)"

text \<open>
  \<open>parse_args\<close> is the loop \<open>while !rest.starts_with('>')\<close> inside the case of a class type; it
  returns the arguments and the text after the closing bracket.
\<close>

function parse :: "str \<Rightarrow> (jvm_type \<times> str) option"
  and parse_args :: "str \<Rightarrow> (jvm_type list \<times> str) option" where
  "parse s =
     (case s of
        [] \<Rightarrow> None
      | first # more \<Rightarrow>
          if first = CHR ''L'' then
            (let internal_name = takeWhile name_byte more; rest = dropWhile name_byte more
             in case rest of
                  [] \<Rightarrow> Some (Object internal_name [], [])
                | c # rest' \<Rightarrow>
                    if c = CHR ''<'' then
                      (case parse_args rest' of
                         None \<Rightarrow> None
                       | Some (as, rest'') \<Rightarrow> Some (Object internal_name as, eat_semicolon rest''))
                    else Some (Object internal_name [], eat_semicolon rest))
          else if first = CHR ''T'' then
            (case find_char s (CHR '';'') of
               None \<Rightarrow> None
             | Some e \<Rightarrow> Some (TypeVar (drop 1 (take e s)), drop (e + 1) s))
          else if first = CHR ''['' then
            (case parse more of None \<Rightarrow> None | Some (inner, rest) \<Rightarrow> Some (Array inner, rest))
          else if first = CHR ''*'' then Some (Wildcard, more)
          else if first = CHR ''+'' \<or> first = CHR ''-'' then
            (case parse more of
               None \<Rightarrow> None | Some (inner, rest) \<Rightarrow> Some (WildcardBound first inner, rest))
          else if first \<in> set primitive_chars then Some (Primitive first, more)
          else None)"
| "parse_args s =
     (if starts_with s ''>'' then Some ([], drop 1 s)
      else (case parse s of
              None \<Rightarrow> None
            | Some (arg, next_rest) \<Rightarrow>
                (case parse_args next_rest of
                   None \<Rightarrow> None | Some (as, rest) \<Rightarrow> Some (arg # as, rest))))"
  by pat_completeness auto

text \<open>
  The recursion of \<open>parse_args\<close> is on the rest that \<open>parse\<close> returns, so termination needs
  first that a successful call consumes at least one byte.
\<close>

lemma length_eat_semicolon: "length (eat_semicolon r) \<le> length r"
  by (auto simp: eat_semicolon_def split: list.splits)

lemma dropWhile_Cons_shorter: "dropWhile P xs = c # r \<Longrightarrow> length r < length xs"
  by (metis Suc_le_lessD length_Cons length_dropWhile_le)

text \<open>The cases of a successful parse that is not of a class type, over the parse \<open>q\<close> of the tail.\<close>

lemma nonclass_cases:
  assumes "(if first = CHR ''T'' then
      (case find_char s (CHR '';'') of
         None \<Rightarrow> None | Some e \<Rightarrow> Some (TypeVar (drop 1 (take e s)), drop (e + 1) s))
    else if first = CHR ''['' then
      (case q of None \<Rightarrow> None | Some (inner, rest) \<Rightarrow> Some (Array inner, rest))
    else if first = CHR ''*'' then Some (Wildcard, more)
    else if first = CHR ''+'' \<or> first = CHR ''-'' then
      (case q of None \<Rightarrow> None | Some (inner, rest) \<Rightarrow> Some (WildcardBound first inner, rest))
    else if first \<in> set primitive_chars then Some (Primitive first, more)
    else None) = Some (t, r)"
  obtains (Var) e where "find_char s (CHR '';'') = Some e" "t = TypeVar (drop 1 (take e s))"
      "r = drop (e + 1) s"
    | (Arr) inner where "first = CHR ''[''" "q = Some (inner, r)" "t = Array inner"
    | (Bound) inner where "first = CHR ''+'' \<or> first = CHR ''-''" "q = Some (inner, r)"
      "t = WildcardBound first inner"
    | (Wild) "r = more" "t = Wildcard"
    | (Prim) "r = more" "t = Primitive first" "first \<in> set primitive_chars"
  using assms by (auto split: if_splits option.splits)

lemma parse_dom_shorter:
  "parse_parse_args_dom (Inl s) \<Longrightarrow> parse s = Some (t, r) \<Longrightarrow> length r < length s"
  "parse_parse_args_dom (Inr s) \<Longrightarrow> parse_args s = Some (ts, r) \<Longrightarrow> length r < length s"
proof (induction s and s arbitrary: t r and ts r rule: parse_parse_args.pinduct)
  case (1 s)
  show ?case
  proof (cases s)
    case Nil
    with 1 show ?thesis by (simp add: parse.psimps)
  next
    case (Cons first more)
    note IHa = "1.IH"(1)[OF Cons] and IHb = "1.IH"(2)[OF Cons] and IHc = "1.IH"(3)[OF Cons]
    have L: "length r < length s" if f: "first = CHR ''L''"
    proof (cases "dropWhile name_byte more")
      case Nil
      with 1 f Cons show ?thesis by (simp add: parse.psimps)
    next
      case rest: (Cons c rest')
      show ?thesis
      proof (cases "c = CHR ''<''")
        case True
        from 1 f Cons rest True obtain as r'' where pa: "parse_args rest' = Some (as, r'')"
          and r: "r = eat_semicolon r''"
          by (auto simp: parse.psimps Let_def split: option.splits)
        from IHa [OF f refl refl rest True pa] dropWhile_Cons_shorter [OF rest]
          length_eat_semicolon [of r''] r Cons
        show ?thesis by simp
      next
        case False
        with 1 f Cons rest have "r = eat_semicolon (c # rest')" by (simp add: parse.psimps)
        with dropWhile_Cons_shorter [OF rest] length_eat_semicolon [of "c # rest'"] Cons
        show ?thesis by simp
      qed
    qed
    show ?thesis
    proof (cases "first = CHR ''L''")
      case False
      note body = "1.prems" [unfolded parse.psimps [OF "1.hyps"], unfolded Cons list.case if_not_P [OF False]]
      from body show ?thesis
      proof (cases rule: nonclass_cases)
        case (Var e)
        then show ?thesis using Cons by (auto dest: find_char_Some)
      next
        case (Arr inner)
        then show ?thesis using IHb [of inner r] Cons by simp
      next
        case (Bound inner)
        then show ?thesis using IHc [of inner r] Cons by auto
      qed (simp_all add: Cons)
    qed (rule L)
  qed
next
  case (2 s)
  then show ?case
    by (fastforce simp: parse_args.psimps starts_with_singleton split: if_splits option.splits)
qed

lemma parse_dom_total: "All parse_parse_args_dom"
proof (rule "parse_parse_args.termination"
    [where R = "measure (\<lambda>x. case x of Inl s \<Rightarrow> 2 * length s | Inr s \<Rightarrow> 2 * length s + 1)"],
    goal_cases)
  case (2 s first more internal_name rest c rest')
  then show ?case using dropWhile_Cons_shorter [of name_byte more c rest'] by simp
next
  case (6 s a arg next_rest)
  then show ?case using parse_dom_shorter(1) [of s arg next_rest] by simp
qed simp_all

termination parse
  by (rule parse_dom_total)

declare parse.simps [simp del] parse_args.simps [simp del]

lemma parse_shorter: "parse s = Some (t, r) \<Longrightarrow> length r < length s"
  using parse_dom_shorter(1) parse_dom_total by blast

subsection \<open>Printers\<close>

fun to_signature_string :: "jvm_type \<Rightarrow> str" where
  "to_signature_string (Object name as) =
     (if as = [] then ''L'' @ name @ '';''
      else ''L'' @ name @ ''<'' @ concat (map to_signature_string as) @ ''>;'')"
| "to_signature_string (TypeVar name) = ''T'' @ name @ '';''"
| "to_signature_string (Array inner) = ''['' @ to_signature_string inner"
| "to_signature_string Wildcard = ''*''"
| "to_signature_string (WildcardBound c inner) = [c] @ to_signature_string inner"
| "to_signature_string (Primitive c) = [c]"

definition java_primitive_char_to_name :: "char \<Rightarrow> str" where
  "java_primitive_char_to_name c =
     (if c = CHR ''I'' then ''int'' else if c = CHR ''Z'' then ''boolean''
      else if c = CHR ''J'' then ''long'' else if c = CHR ''F'' then ''float''
      else if c = CHR ''D'' then ''double'' else if c = CHR ''B'' then ''byte''
      else if c = CHR ''C'' then ''char'' else if c = CHR ''S'' then ''short''
      else if c = CHR ''V'' then ''void'' else ''unknown'')"

fun to_type_name :: "jvm_type \<Rightarrow> type_name" where
  "to_type_name (Object name as) = internal_with_args name (map to_type_name as)"
| "to_type_name (TypeVar name) = type_var name"
| "to_type_name (Array inner) = wrap_array (to_type_name inner)"
| "to_type_name Wildcard = wildcard_type"
| "to_type_name (WildcardBound c inner) =
     (if c = CHR ''+'' then wildcard_extends (to_type_name inner)
      else if c = CHR ''-'' then wildcard_super (to_type_name inner)
      else with_args [c] [to_type_name inner])"
| "to_type_name (Primitive c) = primitive_type (java_primitive_char_to_name c)"

definition to_internal_name_string :: "jvm_type \<Rightarrow> str" where
  "to_internal_name_string t = to_internal_with_generics (to_type_name t)"

fun to_java_like_string :: "jvm_type \<Rightarrow> str" where
  "to_java_like_string (Object name as) =
     (if as = [] then name else name @ ''<'' @ join '', '' (map to_java_like_string as) @ ''>'')"
| "to_java_like_string (TypeVar name) = name"
| "to_java_like_string (Array inner) = to_java_like_string inner @ ''[]''"
| "to_java_like_string (Primitive c) = java_primitive_char_to_name c"
| "to_java_like_string Wildcard = ''?''"
| "to_java_like_string (WildcardBound c inner) =
     (if c = CHR ''+'' then ''? extends '' @ to_java_like_string inner
      else if c = CHR ''-'' then ''? super '' @ to_java_like_string inner
      else ''? ('' @ [c] @ '') '' @ to_java_like_string inner)"

subsection \<open>Round trip of signatures\<close>

text \<open>
  The types the parser can produce: class names hold no \<open><\<close> and no \<open>;\<close>, type variables no
  \<open>;\<close>, primitives one of the nine descriptor letters, bounds \<open>+\<close> or \<open>-\<close>.
\<close>

fun jvm_wf :: "jvm_type \<Rightarrow> bool" where
  "jvm_wf (Object name as) \<longleftrightarrow> list_all name_byte name \<and> list_all jvm_wf as"
| "jvm_wf (TypeVar name) \<longleftrightarrow> CHR '';'' \<notin> set name"
| "jvm_wf (Array inner) \<longleftrightarrow> jvm_wf inner"
| "jvm_wf Wildcard \<longleftrightarrow> True"
| "jvm_wf (WildcardBound c inner) \<longleftrightarrow> (c = CHR ''+'' \<or> c = CHR ''-'') \<and> jvm_wf inner"
| "jvm_wf (Primitive c) \<longleftrightarrow> c \<in> set primitive_chars"

lemma name_byte_cut:
  assumes "list_all name_byte n" "\<not> name_byte c"
  shows "takeWhile name_byte (n @ c # r) = n" "dropWhile name_byte (n @ c # r) = c # r"
  using assms takeWhile_dropWhile_cut [of n name_byte c r] by (auto simp: list_all_iff)

lemma name_byte_simps [simp]:
  "\<not> name_byte (CHR ''<'')" "\<not> name_byte (CHR '';'')"
  by (simp_all add: name_byte_def)

lemma eat_semicolon_simps [simp]:
  "eat_semicolon [] = []" "eat_semicolon (CHR '';'' # r) = r"
  "c \<noteq> CHR '';'' \<Longrightarrow> eat_semicolon (c # r) = c # r"
  by (simp_all add: eat_semicolon_def)

lemma parse_class_no_args:
  "list_all name_byte n \<Longrightarrow> parse (CHR ''L'' # n @ CHR '';'' # r) = Some (Object n [], r)"
  by (simp add: parse.simps name_byte_cut)

lemma parse_class_args:
  "list_all name_byte n \<Longrightarrow> parse_args r = Some (as, CHR '';'' # r') \<Longrightarrow>
     parse (CHR ''L'' # n @ CHR ''<'' # r) = Some (Object n as, r')"
  by (simp add: parse.simps name_byte_cut)

lemma parse_type_var:
  "CHR '';'' \<notin> set n \<Longrightarrow> parse (CHR ''T'' # n @ CHR '';'' # r) = Some (TypeVar n, r)"
  by (simp add: parse.simps find_char_append_Cons)

lemma parse_simple [simp]:
  "parse [] = None"
  "parse (CHR ''['' # r) = map_option (\<lambda>(t, q). (Array t, q)) (parse r)"
  "parse (CHR ''*'' # r) = Some (Wildcard, r)"
  "parse (CHR ''+'' # r) = map_option (\<lambda>(t, q). (WildcardBound (CHR ''+'') t, q)) (parse r)"
  "parse (CHR ''-'' # r) = map_option (\<lambda>(t, q). (WildcardBound (CHR ''-'') t, q)) (parse r)"
  by (simp add: parse.simps)
    (auto simp: parse.simps [of "_ # _"] split: option.splits)

lemma parse_primitive: "c \<in> set primitive_chars \<Longrightarrow> parse (c # r) = Some (Primitive c, r)"
  by (auto simp: parse.simps primitive_chars_def)

lemma parse_args_close [simp]: "parse_args (CHR ''>'' # r) = Some ([], r)"
  by (simp add: parse_args.simps)

lemma parse_args_step:
  "parse s = Some (a, r) \<Longrightarrow> \<not> starts_with s ''>'' \<Longrightarrow>
     parse_args s = map_option (\<lambda>(as, q). (a # as, q)) (parse_args r)"
  by (subst parse_args.simps) (auto split: option.splits)

lemma signature_start: "jvm_wf t \<Longrightarrow> \<not> starts_with (to_signature_string t @ r) ''>''"
  by (cases t) (auto simp: primitive_chars_def)

lemma parse_print:
  "jvm_wf t \<Longrightarrow> parse (to_signature_string t @ r) = Some (t, r)"
proof (induction t arbitrary: r)
  case (Object n as)
  have args: "parse_args (concat (map to_signature_string bs) @ CHR ''>'' # q) = Some (bs, q)"
    if "set bs \<subseteq> set as" for bs q
    using that
  proof (induction bs)
    case Nil
    then show ?case by simp
  next
    case (Cons b bs)
    then have b: "b \<in> set as" "jvm_wf b" using Object.prems by (auto simp: list_all_iff)
    then have "parse (to_signature_string b @ q') = Some (b, q')" for q' by (rule Object.IH)
    with Cons b show ?case by (simp add: parse_args_step signature_start)
  qed
  from Object.prems have n: "list_all name_byte n" by simp
  show ?case
  proof (cases "as = []")
    case True
    then show ?thesis using parse_class_no_args [OF n] by simp
  next
    case False
    then show ?thesis
      using parse_class_args [OF n args [OF subset_refl, of "CHR '';'' # r"]] by simp
  qed
next
  case (TypeVar n)
  then show ?case using parse_type_var [of n r] by simp
next
  case (Primitive c)
  then show ?case using parse_primitive [of c r] by simp
next
  case (WildcardBound c t)
  then show ?case by auto
qed simp_all

subsection \<open>Substitution of type variables\<close>

definition box_jvm_primitive :: "jvm_type \<Rightarrow> jvm_type" where
  "box_jvm_primitive ty =
     (case ty of
        Primitive c \<Rightarrow>
          (if c = CHR ''I'' then Object ''java/lang/Integer'' []
           else if c = CHR ''J'' then Object ''java/lang/Long'' []
           else if c = CHR ''D'' then Object ''java/lang/Double'' []
           else if c = CHR ''F'' then Object ''java/lang/Float'' []
           else if c = CHR ''Z'' then Object ''java/lang/Boolean'' []
           else if c = CHR ''B'' then Object ''java/lang/Byte'' []
           else if c = CHR ''S'' then Object ''java/lang/Short'' []
           else if c = CHR ''C'' then Object ''java/lang/Character'' []
           else ty)
      | _ \<Rightarrow> ty)"

fun substitute :: "jvm_type \<Rightarrow> str list \<Rightarrow> jvm_type list \<Rightarrow> jvm_type" where
  "substitute (TypeVar name) ps as =
     (case position (\<lambda>p. p = name) ps of
        Some pos \<Rightarrow> (if pos < length as then as ! pos else TypeVar name)
      | None \<Rightarrow> TypeVar name)"
| "substitute (Object name ts) ps as =
     Object name (map (\<lambda>a. box_jvm_primitive (substitute a ps as)) ts)"
| "substitute (Array inner) ps as = Array (substitute inner ps as)"
| "substitute (WildcardBound c inner) ps as = WildcardBound c (substitute inner ps as)"
| "substitute (Primitive c) ps as = Primitive c"
| "substitute Wildcard ps as = Wildcard"

fun substitute_type_vars :: "jvm_type \<Rightarrow> (str, jvm_type) hash_map \<Rightarrow> jvm_type" where
  "substitute_type_vars (TypeVar name) bindings =
     (case hget bindings name of Some t \<Rightarrow> t | None \<Rightarrow> TypeVar name)"
| "substitute_type_vars (Object name as) bindings =
     Object name (map (\<lambda>a. substitute_type_vars a bindings) as)"
| "substitute_type_vars (Array inner) bindings = Array (substitute_type_vars inner bindings)"
| "substitute_type_vars (WildcardBound c inner) bindings =
     WildcardBound c (substitute_type_vars inner bindings)"
| "substitute_type_vars (Primitive c) bindings = Primitive c"
| "substitute_type_vars Wildcard bindings = Wildcard"

subsection \<open>Internal names, type parameter sections, method signatures\<close>

text \<open>The loop that parses a sequence of types and stops at the first that does not parse.\<close>

function parse_many :: "str \<Rightarrow> jvm_type list" where
  "parse_many rest =
     (case parse rest of None \<Rightarrow> [] | Some (ty, next_rest) \<Rightarrow> ty # parse_many next_rest)"
  by pat_completeness auto
termination
  by (relation "measure length") (auto dest: parse_shorter)

declare parse_many.simps [simp del]

definition split_internal_name :: "str \<Rightarrow> rust_panic + str \<times> jvm_type list" where
  "split_internal_name internal =
     (case find_char internal (CHR ''<'') of
        Some pos \<Rightarrow>
          (case slice internal (pos + 1) (length internal - 1) of
             Inl e \<Rightarrow> Inl e
           | Inr args_str \<Rightarrow> Inr (take pos internal, parse_many args_str))
      | None \<Rightarrow> Inr (internal, []))"

text \<open>\<open>scan_close\<close> is the bracket counting loop over \<open>char_indices\<close>, at depth \<open>d\<close> and index \<open>i\<close>.\<close>

fun scan_close :: "int \<Rightarrow> nat \<Rightarrow> str \<Rightarrow> nat option" where
  "scan_close d i [] = None"
| "scan_close d i (c # cs) =
     (if c = CHR ''<'' then scan_close (d + 1) (i + 1) cs
      else if c = CHR ''>'' then
        (if d - 1 = 0 then Some i else scan_close (d - 1) (i + 1) cs)
      else scan_close d (i + 1) cs)"

definition find_type_parameter_prefix_end :: "str \<Rightarrow> nat option" where
  "find_type_parameter_prefix_end sig =
     (if \<not> starts_with sig ''<'' then None else scan_close 0 0 sig)"

text \<open>The text after the next \<open>;\<close> outside brackets, or the empty text.\<close>

fun skip_bound :: "int \<Rightarrow> str \<Rightarrow> str" where
  "skip_bound d [] = []"
| "skip_bound d (c # cs) =
     (if c = CHR ''<'' then skip_bound (d + 1) cs
      else if c = CHR ''>'' then skip_bound (d - 1) cs
      else if c = CHR '';'' \<and> d = 0 then cs
      else skip_bound d cs)"

lemma length_skip_bound: "length (skip_bound d s) \<le> length s"
  by (induction d s rule: skip_bound.induct) (auto simp: le_SucI)

function skip_more_bounds :: "str \<Rightarrow> str" where
  "skip_more_bounds rest =
     (if starts_with rest '':'' then skip_more_bounds (skip_bound 0 (drop 1 rest)) else rest)"
  by pat_completeness auto
termination
proof (relation "measure length", goal_cases)
  case (2 rest)
  then show ?case using length_skip_bound [of 0 "drop 1 rest"] by (auto simp: starts_with_singleton)
qed simp

declare skip_more_bounds.simps [simp del]

lemma length_skip_more_bounds: "length (skip_more_bounds s) \<le> length s"
proof (induction s rule: skip_more_bounds.induct)
  case (1 s)
  then show ?case
    using length_skip_bound [of 0 "drop 1 s"] by (subst skip_more_bounds.simps) (auto intro: le_trans)
qed

function class_type_parameters_loop :: "str \<Rightarrow> str list" where
  "class_type_parameters_loop rest =
     (case find_char rest (CHR '':'') of
        None \<Rightarrow> []
      | Some colon_pos \<Rightarrow>
          (let param_name = trim (take colon_pos rest);
               rest' = skip_more_bounds (skip_bound 0 (drop (colon_pos + 1) rest))
           in (if param_name \<noteq> [] then [param_name] else []) @ class_type_parameters_loop rest'))"
  by pat_completeness auto
termination
proof (relation "measure length", goal_cases)
  case (2 rest colon_pos param_name rest')
  then have "length rest' \<le> length (drop (colon_pos + 1) rest)"
    by (metis le_trans length_skip_bound length_skip_more_bounds)
  with 2 show ?case by (auto dest!: find_char_Some)
qed simp

declare class_type_parameters_loop.simps [simp del]

definition parse_class_type_parameters :: "str \<Rightarrow> str list" where
  "parse_class_type_parameters sig =
     (case find_type_parameter_prefix_end sig of
        None \<Rightarrow> []
      | Some end_angle \<Rightarrow> class_type_parameters_loop (drop 1 (take end_angle sig)))"

definition parse_method_type_parameters :: "str \<Rightarrow> str list" where
  "parse_method_type_parameters sig = parse_class_type_parameters sig"

function interface_bounds_loop :: "str \<Rightarrow> jvm_type list \<times> str" where
  "interface_bounds_loop rest =
     (if starts_with rest '':'' then
        (let rest' = drop 1 rest
         in if starts_with rest' '':'' then interface_bounds_loop rest'
            else (case parse rest' of
                    None \<Rightarrow> ([], rest')
                  | Some (bound, next_rest) \<Rightarrow>
                      (let (bs, r) = interface_bounds_loop next_rest in (bound # bs, r))))
      else ([], rest))"
  by pat_completeness auto
termination
  by (relation "measure length") (auto simp: starts_with_singleton dest: parse_shorter)

declare interface_bounds_loop.simps [simp del]

definition class_bound :: "str \<Rightarrow> jvm_type list \<times> str" where
  "class_bound rest =
     (if \<not> starts_with rest '':'' then
        (case parse rest of Some (bound, next_rest) \<Rightarrow> ([bound], next_rest) | None \<Rightarrow> ([], rest))
      else ([], rest))"

lemma length_class_bound: "length (snd (class_bound s)) \<le> length s"
  by (auto simp: class_bound_def dest: parse_shorter split: option.splits)

lemma length_interface_bounds_loop: "length (snd (interface_bounds_loop s)) \<le> length s"
proof (induction s rule: interface_bounds_loop.induct)
  case (1 s)
  show ?case
  proof (cases "starts_with s '':'' \<and> \<not> starts_with (drop 1 s) '':''")
    case True
    then show ?thesis
      using 1 by (subst interface_bounds_loop.simps)
        (force simp: Let_def split: option.splits prod.splits dest: parse_shorter)
  next
    case False
    then show ?thesis
      using 1 by (subst interface_bounds_loop.simps) (auto simp: Let_def)
  qed
qed

function type_parameter_bounds_loop ::
  "str \<Rightarrow> (str, jvm_type list) hash_map \<Rightarrow> (str, jvm_type list) hash_map" where
  "type_parameter_bounds_loop rest bounds =
     (case find_char rest (CHR '':'') of
        None \<Rightarrow> bounds
      | Some colon_pos \<Rightarrow>
          (let param_name = trim (take colon_pos rest)
           in if param_name = [] then bounds
              else
                (let cb = class_bound (drop (colon_pos + 1) rest);
                     ib = interface_bounds_loop (snd cb)
                 in type_parameter_bounds_loop (snd ib)
                      (hinsert param_name (fst cb @ fst ib) bounds))))"
  by pat_completeness auto
termination
proof (relation "measure (\<lambda>(r, b). length r)", goal_cases)
  case (2 rest bounds colon_pos param_name cb ib)
  then have "length (snd ib) \<le> length (drop (colon_pos + 1) rest)"
    by (metis le_trans length_class_bound length_interface_bounds_loop)
  with 2 show ?case by (auto dest!: find_char_Some)
qed simp

declare type_parameter_bounds_loop.simps [simp del]

definition parse_type_parameter_bounds :: "str \<Rightarrow> (str, jvm_type list) hash_map" where
  "parse_type_parameter_bounds sig =
     (case find_type_parameter_prefix_end sig of
        None \<Rightarrow> []
      | Some end_angle \<Rightarrow> type_parameter_bounds_loop (drop 1 (take end_angle sig)) [])"

text \<open>The parameters of a method: unlike \<open>parse_many\<close> a type that does not parse is a failure.\<close>

function parse_all :: "str \<Rightarrow> jvm_type list option" where
  "parse_all raw =
     (if raw = [] then Some []
      else (case parse raw of
              None \<Rightarrow> None
            | Some (ty, rest) \<Rightarrow> map_option ((#) ty) (parse_all rest)))"
  by pat_completeness auto
termination
  by (relation "measure length") (auto dest: parse_shorter)

declare parse_all.simps [simp del]

definition parse_method_signature_types :: "str \<Rightarrow> (jvm_type list \<times> jvm_type) option" where
  "parse_method_signature_types sig =
     (case (if starts_with sig ''<''
            then map_option (\<lambda>e. drop (e + 1) sig) (scan_close 0 0 sig) else Some sig) of
        None \<Rightarrow> None
      | Some s \<Rightarrow>
          (if \<not> starts_with s ''('' then None
           else (case find_char s (CHR '')'') of
                   None \<Rightarrow> None
                 | Some close \<Rightarrow>
                     (case parse_all (drop 1 (take close s)) of
                        None \<Rightarrow> None
                      | Some params \<Rightarrow>
                          (case parse (drop (close + 1) s) of
                             None \<Rightarrow> None | Some (ret, _) \<Rightarrow> Some (params, ret))))))"

definition substitute_type :: "str \<Rightarrow> str option \<Rightarrow> str \<Rightarrow> rust_panic + type_name option" where
  "substitute_type receiver_internal class_generic_signature target_jvm_type_str =
     (case split_internal_name receiver_internal of
        Inl e \<Rightarrow> Inl e
      | Inr (_, receiver_type_args) \<Rightarrow> Inr
          (if receiver_type_args = [] then None
           else
             (let class_type_params =
                    (case class_generic_signature of
                       Some sig \<Rightarrow> parse_class_type_parameters sig | None \<Rightarrow> [])
              in if class_type_params = [] then None
                 else (case parse target_jvm_type_str of
                         None \<Rightarrow> None
                       | Some (ret, _) \<Rightarrow>
                           Some (to_type_name (substitute ret class_type_params receiver_type_args))))))"

subsection \<open>Expansion of type variables by their bounds\<close>

definition is_likely_type_var_name :: "str \<Rightarrow> bool" where
  "is_likely_type_var_name name =
     (case name of
        [] \<Rightarrow> False
      | first # chars \<Rightarrow>
          if \<not> is_ascii_uppercase first then False
          else if length name = 1 then True
          else list_all (\<lambda>c. is_ascii_alphanumeric c \<or> c = CHR ''_'') chars)"

text \<open>
  The source threads a mutable set \<open>visiting\<close> through the recursion; every path that inserts a
  name removes it again before it returns, so a call leaves the set as it found it and the
  model passes it down only.
\<close>

function expand_type_name_with_bounds_impl ::
  "(str, jvm_type list) hash_map \<Rightarrow> (str, jvm_type list) hash_map \<Rightarrow> str set \<Rightarrow> type_name
     \<Rightarrow> type_name option" where
  "expand_type_name_with_bounds_impl mb cb visiting (TypeName b k as d) =
     (if k = Intersection then
        Some (with_array_dims (intersection
          (map (\<lambda>t. case expand_type_name_with_bounds_impl mb cb visiting t of
                      Some t' \<Rightarrow> t' | None \<Rightarrow> t) as)) d)
      else if as = [] \<and> (k = KTypeVar \<or> (k = SourceLike \<and> is_likely_type_var_name b)) then
        (case (case hget mb b of Some bs \<Rightarrow> Some bs | None \<Rightarrow> hget cb b) of
           None \<Rightarrow> None
         | Some bounds \<Rightarrow>
             (if b \<in> visiting then None
              else
                (let expanded =
                       map (\<lambda>bound. case expand_type_name_with_bounds_impl mb cb (insert b visiting)
                                            (to_type_name bound) of
                                     Some t' \<Rightarrow> t' | None \<Rightarrow> to_type_name bound) bounds
                 in if expanded = [] then None
                    else Some (with_array_dims (intersection expanded) d))))
      else Some (TypeName b k
        (map (\<lambda>t. case expand_type_name_with_bounds_impl mb cb visiting t of
                    Some t' \<Rightarrow> t' | None \<Rightarrow> t) as) d))"
  by pat_completeness auto

lemma card_unvisited_less:
  assumes "b \<in> dom (hget mb) \<union> dom (hget cb)" "b \<notin> visiting"
  shows "card (dom (hget mb) \<union> dom (hget cb) - insert b visiting)
       < card (dom (hget mb) \<union> dom (hget cb) - visiting)"
  using assms by (intro psubset_card_mono) (auto simp: finite_dom_map_of)

lemma size_member_arg: "t \<in> set as \<Longrightarrow> size t < Suc (size_list size as)"
  by (meson less_Suc_eq_le size_list_estimation' order_refl)

termination expand_type_name_with_bounds_impl
proof (relation "measures [\<lambda>(mb, cb, vis, t). card (dom (hget mb) \<union> dom (hget cb) - vis),
                          \<lambda>(mb, cb, vis, t). size t]", goal_cases)
  case (3 mb cb visiting b k as d bounds z)
  then have "b \<in> dom (hget mb) \<union> dom (hget cb)" by (cases "hget mb b") auto
  from card_unvisited_less [OF this] 3(4) show ?case by (simp only: in_measures split: prod.splits) simp
qed (auto simp: size_member_arg)

declare expand_type_name_with_bounds_impl.simps [simp del]

definition expand_type_name_with_type_parameter_bounds ::
  "type_name \<Rightarrow> str option \<Rightarrow> str option \<Rightarrow> type_name option" where
  "expand_type_name_with_type_parameter_bounds ty method_signature class_signature =
     (let mb = (case method_signature of Some sig \<Rightarrow> parse_type_parameter_bounds sig | None \<Rightarrow> []);
          cb = (case class_signature of Some sig \<Rightarrow> parse_type_parameter_bounds sig | None \<Rightarrow> [])
      in if mb = [] \<and> cb = [] then None
         else expand_type_name_with_bounds_impl mb cb {} ty)"

subsection \<open>What the parser returns\<close>

lemma parse_wf:
  "parse s = Some (t, r) \<Longrightarrow> jvm_wf t"
  "parse_args s = Some (ts, r) \<Longrightarrow> list_all jvm_wf ts"
proof (induction s and s arbitrary: t r and ts r rule: parse_parse_args.induct)
  case (1 s)
  show ?case
  proof (cases s)
    case Nil
    with "1.prems" show ?thesis by simp
  next
    case (Cons first more)
    have nb: "list_all name_byte (takeWhile name_byte more)"
      by (simp add: list_all_iff) (meson set_takeWhileD)
    have tv: "CHR '';'' \<notin> set (drop 1 (take e s))" if "find_char s (CHR '';'') = Some e" for e
      using find_char_Some [OF that] by (meson in_set_dropD)
    show ?thesis
    proof (cases "first = CHR ''L''")
      case L: True
      show ?thesis
      proof (cases "dropWhile name_byte more")
        case Nil
        with "1.prems" Cons L nb show ?thesis by (auto simp: parse.simps)
      next
        case rest: (Cons c rest')
        show ?thesis
        proof (cases "c = CHR ''<''")
          case True
          then have "jvm_wf t" if "parse_args rest' = Some (as, q)" "t = Object (takeWhile name_byte more) as" for as q
            using "1.IH"(1) [OF Cons L refl refl rest True that(1)] that nb by simp
          with "1.prems" Cons L True rest show ?thesis
            by (auto simp: parse.simps split: option.splits)
        next
          case False
          with "1.prems" Cons L rest nb show ?thesis by (auto simp: parse.simps)
        qed
      qed
    next
      case False
      note IHb = "1.IH"(2) [OF Cons False] and IHc = "1.IH"(3) [OF Cons False]
      note body = "1.prems" [unfolded parse.simps [of s], unfolded Cons list.case if_not_P [OF False]]
      from body show ?thesis
      proof (cases rule: nonclass_cases)
        case (Var e)
        then show ?thesis using tv [of e] Cons by simp
      next
        case (Arr inner)
        then show ?thesis using IHb [of inner r] by simp
      next
        case (Bound inner)
        then show ?thesis using IHc [of inner r] by auto
      qed simp_all
    qed
  qed
next
  case (2 s)
  from "2.prems" "2.IH" show ?case
    by (subst (asm) parse_args.simps) (auto split: if_splits option.splits)
qed

subsection \<open>The two signature printers agree\<close>

lemma to_jvm_signature_wrap_array:
  "tn_kind t \<noteq> Intersection \<Longrightarrow> to_jvm_signature (wrap_array t) = ''['' @ to_jvm_signature t"
  by (cases t) (simp add: repeat_str_Suc)

lemma tn_kind_wrap_array [simp]: "tn_kind (wrap_array t) = tn_kind t"
  by (cases t) simp

lemma to_type_name_not_intersection [simp]: "jvm_wf t \<Longrightarrow> tn_kind (to_type_name t) \<noteq> Intersection"
  by (induction t)
    (auto simp: internal_with_args_def with_args_and_kind_def type_var_def wildcard_type_def
      primitive_type_def with_kind_def wildcard_extends_def wildcard_super_def)

lemma primitive_code_name:
  "c \<in> set primitive_chars \<Longrightarrow> primitive_code (java_primitive_char_to_name c) = [c]"
  by (auto simp: primitive_chars_def primitive_code_def java_primitive_char_to_name_def)

lemma to_jvm_signature_to_type_name:
  "jvm_wf t \<Longrightarrow> to_jvm_signature (to_type_name t) = to_signature_string t"
proof (induction t)
  case (Object n as)
  then have "concat (map (to_jvm_signature \<circ> to_type_name) as) = concat (map to_signature_string as)"
    by (intro arg_cong [where f = concat] map_cong) (auto simp: list_all_iff)
  then show ?case by (simp add: internal_with_args_def with_args_and_kind_def)
next
  case (Primitive c)
  then show ?case by (simp add: primitive_type_def with_kind_def primitive_code_name)
next
  case (WildcardBound c t)
  then show ?case by (auto simp: wildcard_extends_def wildcard_super_def with_args_and_kind_def)
qed (simp_all add: type_var_def with_kind_def wildcard_type_def to_jvm_signature_wrap_array)

subsection \<open>Internal names\<close>

lemma parse_many_print:
  "list_all jvm_wf ts \<Longrightarrow> parse_many (concat (map to_signature_string ts)) = ts"
proof (induction ts)
  case Nil
  then show ?case by (simp add: parse_many.simps)
next
  case (Cons t ts)
  then have "parse (to_signature_string t @ concat (map to_signature_string ts))
      = Some (t, concat (map to_signature_string ts))"
    by (simp add: parse_print)
  with Cons show ?case by (simp add: parse_many.simps [of "_ @ _"])
qed

lemma internal_name_string_object:
  "list_all jvm_wf as \<Longrightarrow> to_internal_name_string (Object n as) =
     (if as = [] then n else n @ ''<'' @ concat (map to_signature_string as) @ ''>'')"
proof -
  assume wf: "list_all jvm_wf as"
  then have "concat (map (to_jvm_signature \<circ> to_type_name) as) = concat (map to_signature_string as)"
    by (intro arg_cong [where f = concat] map_cong)
      (auto simp: list_all_iff to_jvm_signature_to_type_name)
  then show ?thesis
    by (simp add: to_internal_name_string_def internal_with_args_def with_args_and_kind_def)
qed

lemma signature_ascii_start:
  "jvm_wf t \<Longrightarrow> \<exists>c r. to_signature_string t = c # r \<and> (of_char c :: nat) < 128"
  by (cases t) (auto simp: primitive_chars_def)

lemma signatures_nonempty:
  "list_all jvm_wf (a # as) \<Longrightarrow>
     \<exists>c r. concat (map to_signature_string (a # as)) = c # r \<and> (of_char c :: nat) < 128"
  using signature_ascii_start [of a] by auto

lemma split_internal_name_print:
  assumes n: "list_all name_byte n" and wf: "list_all jvm_wf as"
  shows "split_internal_name (to_internal_name_string (Object n as)) = Inr (n, as)"
proof (cases as)
  case Nil
  from n have "CHR ''<'' \<notin> set n" by (auto simp: list_all_iff)
  then have "find_char n (CHR ''<'') = None" by simp
  with Nil show ?thesis
    by (simp add: split_internal_name_def internal_name_string_object del: find_char_None)
next
  case (Cons a as')
  let ?sigs = "concat (map to_signature_string as)" and ?i = "to_internal_name_string (Object n as)"
  from wf Cons obtain c r where c: "?sigs = c # r" "(of_char c :: nat) < 128"
    using signatures_nonempty by blast
  have i: "?i = n @ CHR ''<'' # ?sigs @ ''>''"
    using wf Cons by (simp add: internal_name_string_object)
  from n have lt: "CHR ''<'' \<notin> set n" by (auto simp: list_all_iff)
  have find: "find_char ?i (CHR ''<'') = Some (length n)" unfolding i by (rule find_char_append_Cons [OF lt])
  have bounds: "char_boundary ?i (length n + 1)" "char_boundary ?i (length ?i - 1)"
    using c by (auto simp: i char_boundary_def nth_append)
  have "slice ?i (length n + 1) (length ?i - 1) = Inr ?sigs"
    using bounds by (simp add: slice_def) (simp add: i)
  with find wf show ?thesis
    by (simp add: split_internal_name_def parse_many_print) (simp add: i)
qed

subsection \<open>Substitution\<close>

fun type_vars :: "jvm_type \<Rightarrow> str set" where
  "type_vars (Object n as) = (\<Union>a\<in>set as. type_vars a)"
| "type_vars (TypeVar n) = {n}"
| "type_vars (Array t) = type_vars t"
| "type_vars (WildcardBound c t) = type_vars t"
| "type_vars (Primitive c) = {}"
| "type_vars Wildcard = {}"

lemma jvm_wf_box: "jvm_wf t \<Longrightarrow> jvm_wf (box_jvm_primitive t)"
  by (cases t) (auto simp: box_jvm_primitive_def name_byte_def)

lemma substitute_wf:
  "jvm_wf t \<Longrightarrow> list_all jvm_wf as \<Longrightarrow> jvm_wf (substitute t ps as)"
  by (induction t)
    (auto simp: list_all_iff list_all_length jvm_wf_box split: option.splits)

text \<open>No primitive is the direct argument of a class type, as the JVM grammar demands.\<close>

fun no_primitive_args :: "jvm_type \<Rightarrow> bool" where
  "no_primitive_args (Object n as) \<longleftrightarrow>
     list_all (\<lambda>a. (\<forall>c. a \<noteq> Primitive c) \<and> no_primitive_args a) as"
| "no_primitive_args (Array t) \<longleftrightarrow> no_primitive_args t"
| "no_primitive_args (WildcardBound c t) \<longleftrightarrow> no_primitive_args t"
| "no_primitive_args _ \<longleftrightarrow> True"

lemma box_not_primitive: "(\<And>c. t \<noteq> Primitive c) \<Longrightarrow> box_jvm_primitive t = t"
  by (cases t) (auto simp: box_jvm_primitive_def)

lemma substitute_eq_bindings:
  assumes "no_primitive_args t" "\<forall>a\<in>set as. \<forall>c. a \<noteq> Primitive c"
    "length ps = length as" "distinct ps"
  shows "substitute t ps as = substitute_type_vars t (zip ps as)"
  using assms(1)
proof (induction t)
  case (TypeVar n)
  show ?case
  proof (cases "position (\<lambda>p. p = n) ps")
    case None
    then have "n \<notin> set ps" by (auto simp: position_None)
    then have "hget (zip ps as) n = None" using assms(3) by (simp add: map_of_zip_is_None)
    with None show ?thesis by simp
  next
    case (Some i)
    with assms(3,4) have "hget (zip ps as) n = Some (as ! i)"
      using position_Some [OF Some] by (auto simp: set_zip)
    with Some position_Some [OF Some] assms(3) show ?thesis by simp
  qed
next
  case (Object n ts)
  have "box_jvm_primitive (substitute a ps as) = substitute_type_vars a (zip ps as)"
    if a: "a \<in> set ts" for a
  proof -
    from Object a have eq: "substitute a ps as = substitute_type_vars a (zip ps as)"
      by (auto simp: list_all_iff)
    have "substitute a ps as \<noteq> Primitive c" for c
      using Object.prems a assms(2)
      by (cases a) (auto simp: list_all_iff in_set_conv_nth split: option.splits if_splits)
    then show ?thesis by (simp add: box_not_primitive eq)
  qed
  then show ?case by simp
qed simp_all

lemma substitute_closed:
  "type_vars t \<inter> set ps = {} \<Longrightarrow> no_primitive_args t \<Longrightarrow> substitute t ps as = t"
proof (induction t)
  case (TypeVar n)
  then have "position (\<lambda>p. p = n) ps = None" by (auto simp: position_None)
  then show ?case by simp
next
  case (Object n ts)
  have "box_jvm_primitive (substitute a ps as) = a" if "a \<in> set ts" for a
  proof -
    from Object that have "substitute a ps as = a" by (auto simp: list_all_iff)
    with Object.prems that show ?thesis by (simp add: list_all_iff box_not_primitive)
  qed
  then show ?case by (simp add: map_idI)
qed simp_all

subsection \<open>Type parameter sections\<close>

text \<open>
  The grammar of a type parameter section, as a printer: a name, an optional class bound and
  interface bounds. Identifiers of the grammar hold no bracket, colon, semicolon or
  parenthesis (\<open>plain_byte\<close>).
\<close>

definition plain_byte :: "char \<Rightarrow> bool" where
  "plain_byte c \<longleftrightarrow> c \<notin> set ''<>;:()''"

fun jvm_plain :: "jvm_type \<Rightarrow> bool" where
  "jvm_plain (Object n as) \<longleftrightarrow> list_all plain_byte n \<and> list_all jvm_plain as"
| "jvm_plain (TypeVar n) \<longleftrightarrow> list_all plain_byte n"
| "jvm_plain (Array t) \<longleftrightarrow> jvm_plain t"
| "jvm_plain Wildcard \<longleftrightarrow> True"
| "jvm_plain (WildcardBound c t) \<longleftrightarrow> (c = CHR ''+'' \<or> c = CHR ''-'') \<and> jvm_plain t"
| "jvm_plain (Primitive c) \<longleftrightarrow> c \<in> set primitive_chars"

fun reference_bound :: "jvm_type \<Rightarrow> bool" where
  "reference_bound (Object n as) \<longleftrightarrow> jvm_plain (Object n as)"
| "reference_bound (TypeVar n) \<longleftrightarrow> jvm_plain (TypeVar n)"
| "reference_bound _ \<longleftrightarrow> False"

type_synonym type_param = "str \<times> jvm_type option \<times> jvm_type list"

fun print_type_param :: "type_param \<Rightarrow> str" where
  "print_type_param (n, cb, ibs) =
     n @ '':'' @ (case cb of None \<Rightarrow> [] | Some b \<Rightarrow> to_signature_string b)
     @ concat (map (\<lambda>b. CHR '':'' # to_signature_string b) ibs)"

definition print_type_params :: "type_param list \<Rightarrow> str" where
  "print_type_params tps = ''<'' @ concat (map print_type_param tps) @ ''>''"

fun type_param_wf :: "type_param \<Rightarrow> bool" where
  "type_param_wf (n, cb, ibs) \<longleftrightarrow>
     n \<noteq> [] \<and> list_all (\<lambda>c. plain_byte c \<and> \<not> is_ws c) n \<and> (cb = None \<longrightarrow> ibs \<noteq> []) \<and>
     pred_option reference_bound cb \<and> list_all reference_bound ibs"

lemma plain_name_byte: "list_all plain_byte n \<Longrightarrow> list_all name_byte n"
  by (auto simp: list_all_iff plain_byte_def name_byte_def)

lemma jvm_plain_wf: "jvm_plain t \<Longrightarrow> jvm_wf t"
  by (induction t) (auto simp: list_all_iff plain_byte_def name_byte_def)

lemma reference_bound_plain: "reference_bound t \<Longrightarrow> jvm_plain t"
  by (cases t) auto

lemma skip_bound_name: "list_all plain_byte n \<Longrightarrow> skip_bound d (n @ r) = skip_bound d r"
  by (induction n) (auto simp: plain_byte_def)

lemma scan_close_name: "list_all plain_byte n \<Longrightarrow> scan_close d i (n @ r) = scan_close d (i + length n) r"
  by (induction n arbitrary: i) (auto simp: plain_byte_def)

lemma skip_bound_inside: "jvm_plain t \<Longrightarrow> d > 0 \<Longrightarrow> skip_bound d (to_signature_string t @ r) = skip_bound d r"
proof (induction t arbitrary: d r)
  case (Object n as)
  have "skip_bound (d + 1) (concat (map to_signature_string bs) @ q) = skip_bound (d + 1) q"
    if "set bs \<subseteq> set as" for bs q
    using that Object by (induction bs) (auto simp: list_all_iff)
  from this [OF subset_refl] Object.prems show ?case by (simp add: skip_bound_name)
qed (auto simp: skip_bound_name primitive_chars_def)

lemma scan_close_inside:
  "jvm_plain t \<Longrightarrow> d > 0 \<Longrightarrow>
     scan_close d i (to_signature_string t @ r) = scan_close d (i + length (to_signature_string t)) r"
proof (induction t arbitrary: d i r)
  case (Object n as)
  have "scan_close (d + 1) j (concat (map to_signature_string bs) @ q)
      = scan_close (d + 1) (j + length (concat (map to_signature_string bs))) q"
    if "set bs \<subseteq> set as" for bs j q
    using that
  proof (induction bs arbitrary: j)
    case (Cons b bs)
    then have "scan_close (d + 1) j (to_signature_string b @ concat (map to_signature_string bs) @ q)
        = scan_close (d + 1) (j + length (to_signature_string b)) (concat (map to_signature_string bs) @ q)"
      using Object by (auto simp: list_all_iff)
    with Cons show ?case by (simp add: add.assoc)
  qed simp
  from this [OF subset_refl] Object.prems show ?case
    by (auto simp: scan_close_name algebra_simps)
qed (auto simp: scan_close_name primitive_chars_def algebra_simps)

lemma skip_bound_reference:
  assumes "reference_bound b"
  shows "skip_bound 0 (to_signature_string b @ r) = r"
proof (cases b)
  case (Object n as)
  have "skip_bound 1 (concat (map to_signature_string bs) @ q) = skip_bound 1 q"
    if "set bs \<subseteq> set as" for bs q
    using that assms Object by (induction bs) (auto simp: list_all_iff skip_bound_inside)
  from this [OF subset_refl] assms Object show ?thesis by (simp add: skip_bound_name)
qed (use assms in \<open>auto simp: skip_bound_name\<close>)

abbreviation print_bounds :: "jvm_type list \<Rightarrow> str" where
  "print_bounds ibs \<equiv> concat (map (\<lambda>b. CHR '':'' # to_signature_string b) ibs)"

lemma skip_more_bounds_print:
  "list_all reference_bound ibs \<Longrightarrow> \<not> starts_with r '':'' \<Longrightarrow> skip_more_bounds (print_bounds ibs @ r) = r"
  by (induction ibs) (simp_all add: skip_more_bounds.simps skip_bound_reference)

lemma interface_bounds_loop_print:
  "list_all reference_bound ibs \<Longrightarrow> \<not> starts_with r '':'' \<Longrightarrow>
     interface_bounds_loop (print_bounds ibs @ r) = (ibs, r)"
proof (induction ibs)
  case (Cons b ibs)
  then have "jvm_wf b" by (simp add: reference_bound_plain jvm_plain_wf)
  moreover have "\<not> starts_with (to_signature_string b @ q) '':''" for q
    using Cons.prems by (cases b) auto
  ultimately show ?case
    using Cons by (subst interface_bounds_loop.simps) (simp add: parse_print)
qed (simp add: interface_bounds_loop.simps)

fun declared_bounds :: "type_param \<Rightarrow> jvm_type list" where
  "declared_bounds (n, cb, ibs) = (case cb of None \<Rightarrow> [] | Some b \<Rightarrow> [b]) @ ibs"

lemma type_param_name:
  assumes "type_param_wf (n, cb, ibs)"
  shows "CHR '':'' \<notin> set n" "trim n = n" "n \<noteq> []" "list_all plain_byte n"
proof -
  from assms have w: "\<forall>c\<in>set n. plain_byte c \<and> \<not> is_ws c" and ne: "n \<noteq> []"
    by (auto simp: list_all_iff)
  from w show "CHR '':'' \<notin> set n" "list_all plain_byte n" by (auto simp: plain_byte_def list_all_iff)
  from ne show "n \<noteq> []" .
  from w ne have "\<not> is_ws (hd n) \<and> \<not> is_ws (last n)" by simp
  then show "trim n = n" by (simp add: trim_id)
qed

lemma type_param_start: "type_param_wf p \<Longrightarrow> \<not> starts_with (print_type_param p @ r) '':''"
  using type_param_name by (cases p; cases "fst p") (fastforce simp: plain_byte_def)+

lemma type_params_start:
  "list_all type_param_wf tps \<Longrightarrow> \<not> starts_with (concat (map print_type_param tps)) '':''"
  using type_param_start by (cases tps) auto

lemma skip_bounds_of_param:
  assumes wf: "type_param_wf (n, cb, ibs)" and r: "\<not> starts_with r '':''"
  shows "skip_more_bounds (skip_bound 0
    ((case cb of None \<Rightarrow> [] | Some b \<Rightarrow> to_signature_string b) @ print_bounds ibs @ r)) = r"
proof (cases cb)
  case None
  with wf obtain b bs where "ibs = b # bs" by (cases ibs) auto
  with wf r None show ?thesis by (simp add: skip_bound_reference skip_more_bounds_print)
next
  case (Some b)
  with wf r show ?thesis by (simp add: skip_bound_reference skip_more_bounds_print)
qed

lemma bounds_of_param:
  assumes wf: "type_param_wf (n, cb, ibs)" and r: "\<not> starts_with r '':''"
  defines "s \<equiv> (case cb of None \<Rightarrow> [] | Some b \<Rightarrow> to_signature_string b) @ print_bounds ibs @ r"
  shows "fst (class_bound s) @ fst (interface_bounds_loop (snd (class_bound s)))
           = declared_bounds (n, cb, ibs)"
    and "snd (interface_bounds_loop (snd (class_bound s))) = r"
proof -
  have "class_bound s = ((case cb of None \<Rightarrow> [] | Some b \<Rightarrow> [b]), print_bounds ibs @ r)"
  proof (cases cb)
    case None
    with wf obtain b bs where "ibs = b # bs" by (cases ibs) auto
    with None show ?thesis by (simp add: class_bound_def s_def)
  next
    case (Some b)
    with wf have "jvm_wf b" by (simp add: reference_bound_plain jvm_plain_wf)
    moreover have "\<not> starts_with (to_signature_string b @ q) '':''" for q
      using wf Some by (cases b) auto
    ultimately show ?thesis using Some by (simp add: class_bound_def s_def parse_print)
  qed
  moreover have "interface_bounds_loop (print_bounds ibs @ r) = (ibs, r)"
    using wf r by (intro interface_bounds_loop_print) auto
  ultimately show "fst (class_bound s) @ fst (interface_bounds_loop (snd (class_bound s)))
           = declared_bounds (n, cb, ibs)"
    and "snd (interface_bounds_loop (snd (class_bound s))) = r" by simp_all
qed

lemma class_type_parameters_loop_print:
  "list_all type_param_wf tps \<Longrightarrow>
     class_type_parameters_loop (concat (map print_type_param tps)) = map fst tps"
proof (induction tps)
  case Nil
  then show ?case by (simp add: class_type_parameters_loop.simps)
next
  case (Cons p tps)
  obtain n cb ibs where p: "p = (n, cb, ibs)" by (cases p)
  let ?r = "concat (map print_type_param tps)"
  from Cons.prems p have wf: "type_param_wf (n, cb, ibs)" by simp
  from Cons.prems have r: "\<not> starts_with ?r '':''" by (simp add: type_params_start)
  show ?case
    using type_param_name [OF wf] skip_bounds_of_param [OF wf r] Cons
    by (subst class_type_parameters_loop.simps) (simp add: p find_char_append_Cons)
qed

lemma type_parameter_bounds_loop_print:
  "list_all type_param_wf tps \<Longrightarrow>
     type_parameter_bounds_loop (concat (map print_type_param tps)) m
       = fold (\<lambda>p. hinsert (fst p) (declared_bounds p)) tps m"
proof (induction tps arbitrary: m)
  case Nil
  then show ?case by (simp add: type_parameter_bounds_loop.simps)
next
  case (Cons p tps)
  obtain n cb ibs where p: "p = (n, cb, ibs)" by (cases p)
  let ?r = "concat (map print_type_param tps)"
  from Cons.prems p have wf: "type_param_wf (n, cb, ibs)" by simp
  from Cons.prems have r: "\<not> starts_with ?r '':''" by (simp add: type_params_start)
  show ?case
    using type_param_name [OF wf] bounds_of_param [OF wf r] Cons
    by (subst type_parameter_bounds_loop.simps)
      (simp add: p find_char_append_Cons del: declared_bounds.simps)
qed

lemma scan_close_bounds:
  "list_all reference_bound ibs \<Longrightarrow>
     scan_close 1 i (print_bounds ibs @ r) = scan_close 1 (i + length (print_bounds ibs)) r"
  by (induction ibs arbitrary: i)
    (simp_all add: scan_close_inside reference_bound_plain add.assoc)

lemma scan_close_param:
  "type_param_wf p \<Longrightarrow>
     scan_close 1 i (print_type_param p @ r) = scan_close 1 (i + length (print_type_param p)) r"
proof -
  assume wf: "type_param_wf p"
  obtain n cb ibs where p: "p = (n, cb, ibs)" by (cases p)
  with wf have n: "list_all plain_byte n" and ibs: "list_all reference_bound ibs"
    using type_param_name(4) [of n cb ibs] by auto
  show ?thesis
  proof (cases cb)
    case None
    with p n ibs show ?thesis by (simp add: scan_close_name scan_close_bounds add.assoc)
  next
    case (Some b)
    with wf p have "jvm_plain b" by (simp add: reference_bound_plain)
    with Some p n ibs show ?thesis
      by (simp add: scan_close_name scan_close_bounds scan_close_inside add.assoc)
  qed
qed

lemma scan_close_params:
  "list_all type_param_wf tps \<Longrightarrow> scan_close 1 i (concat (map print_type_param tps) @ CHR ''>'' # r)
     = Some (i + length (concat (map print_type_param tps)))"
  by (induction tps arbitrary: i) (simp_all add: scan_close_param add.assoc)

lemma prefix_end_print:
  assumes "list_all type_param_wf tps"
  shows "scan_close 0 0 (print_type_params tps @ r)
      = Some (Suc (length (concat (map print_type_param tps))))"
  using scan_close_params [OF assms, of 1 r] by (simp add: print_type_params_def)

lemma parse_class_type_parameters_print:
  assumes "list_all type_param_wf tps"
  shows "parse_class_type_parameters (print_type_params tps @ r) = map fst tps"
  using prefix_end_print [OF assms, of r] class_type_parameters_loop_print [OF assms]
  by (simp add: parse_class_type_parameters_def find_type_parameter_prefix_end_def)
    (simp add: print_type_params_def)

lemma parse_type_parameter_bounds_print:
  assumes "list_all type_param_wf tps"
  shows "parse_type_parameter_bounds (print_type_params tps @ r)
    = fold (\<lambda>p. hinsert (fst p) (declared_bounds p)) tps []"
  using prefix_end_print [OF assms, of r] type_parameter_bounds_loop_print [OF assms, of "[]"]
  by (simp add: parse_type_parameter_bounds_def find_type_parameter_prefix_end_def)
    (simp add: print_type_params_def)

lemma hget_fold_hinsert:
  "distinct (map fst tps) \<Longrightarrow> p \<in> set tps \<Longrightarrow>
     hget (fold (\<lambda>p. hinsert (fst p) (f p)) tps m) (fst p) = Some (f p)"
proof (induction tps arbitrary: m)
  case (Cons q tps)
  have keep: "hget (fold (\<lambda>p. hinsert (fst p) (f p)) ts m') k = hget m' k"
    if "k \<notin> fst ` set ts" for ts m' k
    using that by (induction ts arbitrary: m') auto
  from Cons show ?case by (auto simp: keep)
qed simp

subsection \<open>Method signatures\<close>

lemma parse_all_print:
  "list_all jvm_wf ts \<Longrightarrow> parse_all (concat (map to_signature_string ts)) = Some ts"
proof (induction ts)
  case Nil
  then show ?case by (simp add: parse_all.simps)
next
  case (Cons t ts)
  then have "to_signature_string t \<noteq> []" using signature_ascii_start [of t] by auto
  with Cons show ?case by (subst parse_all.simps) (simp add: parse_print)
qed

lemma plain_name_no_paren: "list_all plain_byte n \<Longrightarrow> CHR '')'' \<notin> set n"
  by (induction n) (auto simp: plain_byte_def)

lemma plain_no_paren: "jvm_plain t \<Longrightarrow> CHR '')'' \<notin> set (to_signature_string t)"
proof (induction t)
  case (Object n as)
  then show ?case using plain_name_no_paren [of n] by (auto simp: list_all_iff)
qed (auto simp: plain_name_no_paren primitive_chars_def)

lemma method_signature_body:
  fixes r :: str
  assumes "list_all jvm_plain params" "jvm_wf ret"
  defines "s \<equiv> ''('' @ concat (map to_signature_string params) @ '')'' @ to_signature_string ret @ r"
  shows "parse_method_signature_types s = Some (params, ret)"
    and "list_all type_param_wf tps \<Longrightarrow>
      parse_method_signature_types (print_type_params tps @ s) = Some (params, ret)"
proof -
  let ?ps = "concat (map to_signature_string params)"
  have "CHR '')'' \<notin> set ?ps" using assms(1) plain_no_paren by (auto simp: list_all_iff)
  then have close: "find_char s (CHR '')'') = Some (Suc (length ?ps))"
    using find_char_append_Cons [of "CHR '')''" "CHR ''('' # ?ps"] by (simp add: s_def)
  have wf: "list_all jvm_wf params" using assms(1) jvm_plain_wf by (auto simp: list_all_iff)
  have body: "drop 1 (take (Suc (length ?ps)) s) = ?ps"
    "drop (Suc (length ?ps) + 1) s = to_signature_string ret @ r"
    by (simp_all add: s_def)
  have start: "starts_with s ''(''" "\<not> starts_with s ''<''" by (simp_all add: s_def)
  show plain: "parse_method_signature_types s = Some (params, ret)"
    using start close body parse_all_print [OF wf] parse_print [OF assms(2)]
    by (simp add: parse_method_signature_types_def)
  show "parse_method_signature_types (print_type_params tps @ s) = Some (params, ret)"
    if "list_all type_param_wf tps"
    using start close body parse_all_print [OF wf] parse_print [OF assms(2)]
      prefix_end_print [OF that, of s]
    by (simp add: parse_method_signature_types_def) (simp add: print_type_params_def)
qed

subsection \<open>Expansion by bounds\<close>

definition var_bounds ::
  "(str, jvm_type list) hash_map \<Rightarrow> (str, jvm_type list) hash_map \<Rightarrow> str \<Rightarrow> jvm_type list option" where
  "var_bounds mb cb v = (case hget mb v of Some bs \<Rightarrow> Some bs | None \<Rightarrow> hget cb v)"

text \<open>
  Nothing in the type can be expanded: every name that looks like a type variable has no declared
  bounds or is being expanded already, and there is no intersection.
\<close>

fun settled ::
  "(str, jvm_type list) hash_map \<Rightarrow> (str, jvm_type list) hash_map \<Rightarrow> str set \<Rightarrow> type_name \<Rightarrow> bool" where
  "settled mb cb vis (TypeName b k as d) \<longleftrightarrow> k \<noteq> Intersection \<and>
     (as = [] \<and> (k = KTypeVar \<or> k = SourceLike \<and> is_likely_type_var_name b) \<longrightarrow>
        var_bounds mb cb b = None \<or> b \<in> vis) \<and>
     list_all (settled mb cb vis) as"

lemma expand_settled:
  "settled mb cb vis t \<Longrightarrow>
     (case expand_type_name_with_bounds_impl mb cb vis t of Some t' \<Rightarrow> t' | None \<Rightarrow> t) = t"
proof (induction t)
  case (TypeName b k as d)
  then have "map (\<lambda>t. case expand_type_name_with_bounds_impl mb cb vis t of
      Some t' \<Rightarrow> t' | None \<Rightarrow> t) as = as"
    by (intro map_idI) (auto simp: list_all_iff)
  with TypeName.prems show ?case
    by (subst expand_type_name_with_bounds_impl.simps) (auto simp: var_bounds_def split: option.splits)
qed

section \<open>Properties\<close>

text \<open>
  C23. Printing a type as a JVM signature and parsing it back gives the type, whatever text
  follows: \<open>to_signature_string\<close> and \<open>parse\<close> are inverse on every type the parser can produce.
\<close>

theorem signature_roundtrip:
  "jvm_wf t \<Longrightarrow> parse (to_signature_string t @ rest) = Some (t, rest)"
  by (rule parse_print)

theorem signature_roundtrip_witness:
  "parse (to_signature_string (Object ''java/util/Map'' [TypeVar ''K'', Array (Primitive CHR ''I''),
       WildcardBound CHR ''+'' (Object ''java/lang/Number'' [])]) @ '')V'')
   = Some (Object ''java/util/Map'' [TypeVar ''K'', Array (Primitive CHR ''I''),
       WildcardBound CHR ''+'' (Object ''java/lang/Number'' [])], '')V'')"
  by (rule signature_roundtrip) (simp add: name_byte_def primitive_chars_def)

text \<open>
  Parsing normalises: whatever text a type was parsed from, the type is well formed and its
  printed signature parses to the same type, with the rest untouched.
\<close>

theorem parse_normalises:
  assumes "parse s = Some (t, r)"
  shows "jvm_wf t \<and> length r < length s \<and> parse (to_signature_string t @ r') = Some (t, r')"
  using parse_wf(1) [OF assms] parse_print parse_shorter [OF assms] by blast

theorem parse_normalises_witness:
  "parse ''Ljava/util/List<>;I'' = Some (Object ''java/util/List'' [], ''I'') \<and>
   parse (to_signature_string (Object ''java/util/List'' []) @ ''Z'')
     = Some (Object ''java/util/List'' [], ''Z'')"
proof -
  have p: "parse ''Ljava/util/List<>;I'' = Some (Object ''java/util/List'' [], ''I'')"
    by (simp add: parse.simps parse_args.simps name_byte_def starts_with_def)
  from p parse_normalises [OF p, of "''Z''"] show ?thesis by simp
qed

text \<open>
  The structured type name of a parsed signature prints the same JVM signature as the
  signature itself, so the two representations of a type describe the same type.
\<close>

theorem signature_printers_agree:
  "jvm_wf t \<Longrightarrow> to_jvm_signature (to_type_name t) = to_signature_string t"
  by (rule to_jvm_signature_to_type_name)

theorem signature_printers_agree_witness:
  "to_jvm_signature (to_type_name (Array (Object ''a/B'' [Wildcard, Array (Primitive CHR ''J'')])))
     = ''[La/B<*[J>;''"
proof -
  have "jvm_wf (Array (Object ''a/B'' [Wildcard, Array (Primitive CHR ''J'')]))"
    by (simp add: name_byte_def primitive_chars_def)
  from signature_printers_agree [OF this] show ?thesis by simp
qed

text \<open>
  The internal name of a generic class type splits back into the class name and the type
  arguments, without a panic.
\<close>

theorem internal_name_roundtrip:
  assumes "list_all name_byte n" "list_all jvm_wf as"
  shows "split_internal_name (to_internal_name_string (Object n as)) = Inr (n, as)"
  by (rule split_internal_name_print [OF assms])

theorem internal_name_roundtrip_witness:
  "split_internal_name (to_internal_name_string (Object ''java/util/List''
     [Object ''java/lang/String'' []])) = Inr (''java/util/List'', [Object ''java/lang/String'' []])"
  by (rule internal_name_roundtrip) (simp_all add: name_byte_def)

text \<open>
  On ASCII texts \<open>split_internal_name\<close> panics exactly when the text ends in its first opening
  bracket: the slice of the arguments then starts after its own end.
\<close>

theorem split_internal_name_panics_iff:
  assumes "\<forall>c\<in>set s. (of_char c :: nat) < 128"
  shows "(\<exists>e. split_internal_name s = Inl e) \<longleftrightarrow> (\<exists>n. s = n @ ''<'' \<and> CHR ''<'' \<notin> set n)"
proof (cases "find_char s (CHR ''<'')")
  case None
  then have "CHR ''<'' \<notin> set s" by simp
  with None show ?thesis by (auto simp: split_internal_name_def simp del: find_char_None)
next
  case (Some pos)
  note f = find_char_Some [OF Some] and s = find_char_split [OF Some]
  have b: "char_boundary s i" if "i \<le> length s" for i
  proof (cases "i = length s")
    case False
    with that assms have "i < length s" "(of_char (s ! i) :: nat) < 128" by auto
    then show ?thesis by (simp add: char_boundary_def)
  qed (simp add: char_boundary_def)
  have "(\<exists>e. split_internal_name s = Inl e) \<longleftrightarrow> Suc pos = length s"
    using Some f b by (auto simp: split_internal_name_def slice_def)
  also have "\<dots> \<longleftrightarrow> (\<exists>n. s = n @ ''<'' \<and> CHR ''<'' \<notin> set n)"
  proof
    assume "Suc pos = length s"
    with s f have "s = take pos s @ ''<''" "CHR ''<'' \<notin> set (take pos s)" by simp_all
    then show "\<exists>n. s = n @ ''<'' \<and> CHR ''<'' \<notin> set n" by blast
  next
    assume "\<exists>n. s = n @ ''<'' \<and> CHR ''<'' \<notin> set n"
    with Some show "Suc pos = length s" using find_char_append_Cons [of _ _ "[]"] by force
  qed
  finally show ?thesis .
qed

theorem split_internal_name_panics_iff_witness:
  "\<exists>e. split_internal_name ''java/util/List<'' = Inl e"
proof -
  have "\<forall>c\<in>set ''java/util/List<''. (of_char c :: nat) < 128" by simp
  moreover have "\<exists>n. ''java/util/List<'' = n @ ''<'' \<and> CHR ''<'' \<notin> set n"
    by (rule exI [of _ "''java/util/List''"]) simp
  ultimately show ?thesis using split_internal_name_panics_iff by blast
qed

text \<open>
  A type parameter section \<open><T:ClassBound:InterfaceBound>\<close> with any number of parameters and
  bounds is read completely: the names in order, and for each name its bounds in order.
\<close>

theorem type_parameter_section_roundtrip:
  assumes "list_all type_param_wf tps" "distinct (map fst tps)"
  shows "parse_class_type_parameters (print_type_params tps @ r) = map fst tps \<and>
    (\<forall>p\<in>set tps. hget (parse_type_parameter_bounds (print_type_params tps @ r)) (fst p)
       = Some (declared_bounds p))"
  using parse_class_type_parameters_print [OF assms(1), of r]
    parse_type_parameter_bounds_print [OF assms(1), of r]
    hget_fold_hinsert [OF assms(2), of _ declared_bounds "[]"] by simp

theorem type_parameter_section_roundtrip_witness:
  "parse_class_type_parameters (print_type_params
     [(''K'', Some (Object ''java/lang/Object'' []), []),
      (''V'', None, [Object ''java/lang/Comparable'' [TypeVar ''V'']])] @ ''Ljava/lang/Object;'')
   = [''K'', ''V'']"
  using type_parameter_section_roundtrip
    [of "[(''K'', Some (Object ''java/lang/Object'' []), []),
          (''V'', None, [Object ''java/lang/Comparable'' [TypeVar ''V'']])]" "''Ljava/lang/Object;''"]
  by (simp add: plain_byte_def is_ws_def)

text \<open>
  A method signature, with or without a type parameter section, parses to its parameter
  types and its return type.
\<close>

theorem method_signature_roundtrip:
  assumes "list_all jvm_plain params" "jvm_wf ret" "list_all type_param_wf tps"
  shows "parse_method_signature_types ((if tps = [] then [] else print_type_params tps) @
    ''('' @ concat (map to_signature_string params) @ '')'' @ to_signature_string ret @ r)
      = Some (params, ret)"
  using method_signature_body(1) [OF assms(1,2), of r]
    method_signature_body(2) [OF assms(1,2), of tps r] assms(3) by simp

theorem method_signature_roundtrip_witness:
  "parse_method_signature_types ''<R::La/B;>(TR;[I)Ljava/util/List<TR;>;''
     = Some ([TypeVar ''R'', Array (Primitive CHR ''I'')], Object ''java/util/List'' [TypeVar ''R''])"
  using method_signature_roundtrip [of "[TypeVar ''R'', Array (Primitive CHR ''I'')]"
      "Object ''java/util/List'' [TypeVar ''R'']" "[(''R'', None, [Object ''a/B'' []])]" "[]"]
  by (simp add: plain_byte_def name_byte_def is_ws_def primitive_chars_def print_type_params_def)

text \<open>
  Generic member types: on a receiver with type arguments, a member whose declared type is
  the i-th type parameter of the class has the i-th type argument of the receiver.
\<close>

theorem substitute_type_selects_argument:
  assumes "list_all name_byte n" "list_all jvm_wf as" "list_all type_param_wf tps"
    and "distinct (map fst tps)" "length tps = length as" "i < length as"
  shows "substitute_type (to_internal_name_string (Object n as)) (Some (print_type_params tps @ sc))
     (to_signature_string (TypeVar (fst (tps ! i)))) = Inr (Some (to_type_name (as ! i)))"
proof -
  let ?v = "fst (tps ! i)"
  obtain n' cb ibs where p: "tps ! i = (n', cb, ibs)" by (cases "tps ! i")
  from assms(3,5,6) have "type_param_wf (tps ! i)" by (simp add: list_all_length)
  then have wfv: "jvm_wf (TypeVar ?v)"
    using type_param_name(4) [of n' cb ibs] by (auto simp: p list_all_iff plain_byte_def)
  have ne: "as \<noteq> []" "tps \<noteq> []" using assms(5,6) by auto
  have "position (\<lambda>q. q = ?v) (map fst tps) = Some i"
    using position_distinct [OF assms(4), of i] assms(5,6) by simp
  then have "substitute (TypeVar ?v) (map fst tps) as = as ! i" using assms(6) by simp
  then show ?thesis
    using split_internal_name_print [OF assms(1,2)] parse_print [OF wfv, of "[]"] ne
      parse_class_type_parameters_print [OF assms(3), of sc]
    by (simp add: substitute_type_def del: substitute.simps to_signature_string.simps)
qed

theorem substitute_type_selects_argument_witness:
  "substitute_type ''java/util/List<Ljava/lang/String;>''
     (Some ''<E:Ljava/lang/Object;>Ljava/lang/Object;'') ''TE;''
   = Inr (Some (internal_type ''java/lang/String''))"
  using substitute_type_selects_argument [of "''java/util/List''" "[Object ''java/lang/String'' []]"
      "[(''E'', Some (Object ''java/lang/Object'' []), [])]" 0 "''Ljava/lang/Object;''"]
  by (simp add: internal_name_string_object name_byte_def plain_byte_def is_ws_def
      print_type_params_def internal_type_def internal_with_args_def with_args_and_kind_def
      with_kind_def)

text \<open>
  The two substitution routines agree: replacing parameters by position (with boxing of
  primitive arguments) is replacing them by a binding map, on types without primitive
  arguments; and a type without the parameters is left as it is.
\<close>

theorem substitutions_agree:
  assumes "no_primitive_args t" "\<forall>a\<in>set as. \<forall>c. a \<noteq> Primitive c"
    "length ps = length as" "distinct ps"
  shows "substitute t ps as = substitute_type_vars t (zip ps as) \<and>
    (type_vars t \<inter> set ps = {} \<longrightarrow> substitute t ps as = t)"
  using substitute_eq_bindings [OF assms] substitute_closed [OF _ assms(1)] by blast

theorem substitutions_agree_witness:
  "substitute (Object ''a/M'' [TypeVar ''K'', Array (TypeVar ''V'')]) [''K'', ''V''] [Wildcard, Wildcard]
   = substitute_type_vars (Object ''a/M'' [TypeVar ''K'', Array (TypeVar ''V'')])
       (zip [''K'', ''V''] [Wildcard, Wildcard])"
  using substitutions_agree [of "Object ''a/M'' [TypeVar ''K'', Array (TypeVar ''V'')]"
      "[Wildcard, Wildcard]" "[''K'', ''V'']"] by simp

text \<open>
  A class type signature whose parameterised outer class has a member suffix, such as
  \<open>La/Outer<TT;>.Inner;\<close> of the JVM grammar, is not parsed as one type: the parser stops at the
  dot, and a method signature with such a parameter does not parse at all.
\<close>

theorem inner_of_parameterised_outer_not_parsed:
  "parse ''La/Outer<TT;>.Inner;I'' = Some (Object ''a/Outer'' [TypeVar ''T''], ''.Inner;I'') \<and>
   parse_method_signature_types ''(La/Outer<TT;>.Inner;I)V'' = None"
  by (simp add: parse_method_signature_types_def parse_all.simps parse.simps parse_args.simps
      name_byte_def starts_with_def primitive_chars_def)


text \<open>
  A type variable with declared bounds is expanded to the intersection of its bounds, also
  when a bound mentions the variable itself, and a type in which nothing can be expanded is
  returned unchanged.
\<close>

theorem expand_type_variable:
  assumes "var_bounds mb cb v = Some bs" "bs \<noteq> []" "v \<notin> vis"
    "\<forall>b\<in>set bs. settled mb cb (insert v vis) (to_type_name b)"
  shows "expand_type_name_with_bounds_impl mb cb vis (TypeName v KTypeVar [] d)
    = Some (with_array_dims (intersection (map to_type_name bs)) d)"
proof -
  have "map (\<lambda>bound. case expand_type_name_with_bounds_impl mb cb (insert v vis) (to_type_name bound) of
      Some t' \<Rightarrow> t' | None \<Rightarrow> to_type_name bound) bs = map to_type_name bs"
    using assms(4) by (intro map_cong refl expand_settled) auto
  with assms(1-3) show ?thesis
    by (subst expand_type_name_with_bounds_impl.simps) (simp add: var_bounds_def Let_def cong: map_cong)
qed

theorem expand_type_variable_witness:
  "expand_type_name_with_bounds_impl
     [(''T'', [Object ''java/lang/Comparable'' [TypeVar ''T'']])] [] {} (TypeName ''T'' KTypeVar [] 1)
   = Some (TypeName ''java/lang/Comparable'' Internal [TypeName ''T'' KTypeVar [] 0] 1)"
  using expand_type_variable [of "[(''T'', [Object ''java/lang/Comparable'' [TypeVar ''T'']])]" "[]"
      "''T''" "[Object ''java/lang/Comparable'' [TypeVar ''T'']]" "{}" 1]
  by (simp add: var_bounds_def internal_with_args_def with_args_and_kind_def type_var_def
      with_kind_def intersection_alt bounds_for_lookup_def is_intersection_def)

end
