(* ===== verification/Class_Metadata.thy ===== *)
theory Class_Metadata
  imports Jvm_Type
begin

text \<open>
  Descriptors (\<open>jvm/descriptor.rs\<close>, the descriptor helpers of \<open>semantic/types.rs\<close>) and the class
  metadata that every index stores (\<open>index.rs\<close>): annotations, methods, fields, classes, origins,
  source ranges, and the merge of source parameter names into bytecode classes.

  A \<open>double\<close> or \<open>float\<close> of an annotation is kept as its bits. \<open>PartialEq\<close> on metadata is
  structural, except that hash maps compare by content and floats as IEEE 754 does;
  \<open>annotation_value_eq\<close> and the functions after it write that out. Interning a text
  (\<open>intern_str\<close>) gives an equal text and is not modelled.
\<close>

unbundle bit_operations_syntax

subsection \<open>Descriptors\<close>

fun consume_one_descriptor_type :: "str \<Rightarrow> rust_panic + (str \<times> str)" where
  "consume_one_descriptor_type [] = Inr ([], [])"
| "consume_one_descriptor_type (c # s) =
     (if c = CHR ''L'' then
        (case find_char (c # s) (CHR '';'') of
           Some e \<Rightarrow> Inr (take (Suc e) (c # s), drop (Suc e) (c # s))
         | None \<Rightarrow> Inr (c # s, []))
      else if c = CHR ''['' then
        and_then (consume_one_descriptor_type s)
          (\<lambda>(_, rest). Inr (take (length (c # s) - length rest) (c # s), rest))
      else and_then (slice (c # s) 0 1) (\<lambda>one. Inr (one, s)))"

lemma consume_split: "consume_one_descriptor_type s = Inr (ty, rest) \<Longrightarrow> s = ty @ rest"
proof (induction s arbitrary: ty rest)
  case (Cons c s)
  consider "c = CHR ''L''" | "c = CHR ''[''" | "c \<noteq> CHR ''L''" "c \<noteq> CHR ''[''" by blast
  then show ?case
  proof cases
    case 1
    then show ?thesis using Cons.prems by (auto split: option.splits)
  next
    case 2
    then obtain t r where "consume_one_descriptor_type s = Inr (t, r)"
      "ty = take (length (c # s) - length r) (c # s)" "rest = r"
      using Cons.prems by (auto simp: and_then_Inr)
    with Cons.IH [of t r] show ?thesis by simp
  next
    case 3
    then show ?thesis using Cons.prems by (auto simp: and_then_Inr slice_def split: if_splits)
  qed
qed simp

lemma consume_nonempty:
  assumes "consume_one_descriptor_type s = Inr (ty, rest)" "s \<noteq> []"
  shows "length rest < length s"
proof (cases "rest = s")
  case True
  with assms obtain c s' where s: "s = c # s'" by (cases s) auto
  with True consume_split [OF assms(1)] have "ty = []" by simp
  moreover have "consume_one_descriptor_type s' \<noteq> Inr (t, c # s')" for t
    using consume_split [of s' t "c # s'"] by (metis append_Cons length_append length_Cons
        add_leE le_add2 not_less_eq_eq)
  ultimately show ?thesis using assms(1) s True
    by (auto simp: and_then_Inr slice_def split: if_splits option.splits)
next
  case False
  then show ?thesis using consume_split [OF assms(1)] by (cases ty) auto
qed

text \<open>The loop that cuts a text of concatenated descriptors into its descriptors.\<close>

function descriptor_types :: "str \<Rightarrow> rust_panic + str list" where
  "descriptor_types s =
     (if s = [] then Inr []
      else (case consume_one_descriptor_type s of
              Inl p \<Rightarrow> Inl p
            | Inr (ty, rest) \<Rightarrow>
                if ty = [] then Inr [] else map_ok (\<lambda>ts. ty # ts) (descriptor_types rest)))"
  by pat_completeness auto
termination descriptor_types
  by (relation "measure length") (auto dest: consume_nonempty)

declare descriptor_types.simps [simp del]

text \<open>The text between the first opening and the first closing parenthesis.\<close>

definition params_text :: "str \<Rightarrow> rust_panic + str option" where
  "params_text desc =
     (case (find_char desc (CHR ''(''), find_char desc (CHR '')'')) of
        (Some l, Some r) \<Rightarrow> map_ok Some (slice desc (l + 1) r)
      | _ \<Rightarrow> Inr None)"

definition split_param_descriptors :: "str \<Rightarrow> rust_panic + str list" where
  "split_param_descriptors desc =
     and_then (params_text desc) (\<lambda>t. case t of None \<Rightarrow> Inr [] | Some s \<Rightarrow> descriptor_types s)"

definition count_params :: "str \<Rightarrow> rust_panic + nat" where
  "count_params desc = map_ok length (split_param_descriptors desc)"

definition singleton_descriptor_to_type :: "str \<Rightarrow> str option" where
  "singleton_descriptor_to_type desc =
     (if desc = ''B'' then Some ''byte'' else if desc = ''C'' then Some ''char''
      else if desc = ''D'' then Some ''double'' else if desc = ''F'' then Some ''float''
      else if desc = ''I'' then Some ''int'' else if desc = ''J'' then Some ''long''
      else if desc = ''S'' then Some ''short'' else if desc = ''Z'' then Some ''boolean''
      else if desc = ''V'' then Some ''void''
      else if starts_with desc ''L'' \<and> ends_with desc '';''
        then Some (take (length desc - 2) (drop 1 desc))
      else None)"

definition extract_return_internal_name :: "str \<Rightarrow> jvm_type option" where
  "extract_return_internal_name desc =
     (case find_char desc (CHR '')'') of
        None \<Rightarrow> None
      | Some i \<Rightarrow>
          (case parse (drop (i + 1) desc) of
             None \<Rightarrow> None
           | Some (t, _) \<Rightarrow> if t = Primitive (CHR ''V'') then None else Some t))"

definition parse_single_type_to_internal :: "str \<Rightarrow> type_name option" where
  "parse_single_type_to_internal ty =
     (case parse ty of
        None \<Rightarrow> None
      | Some (Primitive _, _) \<Rightarrow> None
      | Some (t, _) \<Rightarrow> Some (to_type_name t))"

definition parse_return_type_from_descriptor :: "str \<Rightarrow> str option" where
  "parse_return_type_from_descriptor desc =
     map_option to_signature_string (extract_return_internal_name desc)"

subsection \<open>Annotations\<close>

datatype annotation_value =
    AByte "8 word" | AChar "16 word" | ADouble "64 word" | AFloat "32 word" | AInt "32 word"
  | ALong "64 word" | AShort "16 word" | ABoolean bool | AString str | AEnum str str | AClass str
  | ANested annotation_summary | AArray "annotation_value list" | AUnknown
and annotation_summary =
    AnnotationSummary (an_internal_name: str) (an_runtime_visible: bool)
      (an_elements: "(str \<times> annotation_value) list")

text \<open>Equality of IEEE 754 values, on their bits: zeros are equal, a NaN equals nothing.\<close>

definition f64_eq :: "64 word \<Rightarrow> 64 word \<Rightarrow> bool" where
  "f64_eq a b \<longleftrightarrow>
     \<not> 0x7FF0000000000000 < a AND 0x7FFFFFFFFFFFFFFF \<and>
     \<not> 0x7FF0000000000000 < b AND 0x7FFFFFFFFFFFFFFF \<and>
     (a = b \<or> (a AND 0x7FFFFFFFFFFFFFFF = 0 \<and> b AND 0x7FFFFFFFFFFFFFFF = 0))"

definition f32_eq :: "32 word \<Rightarrow> 32 word \<Rightarrow> bool" where
  "f32_eq a b \<longleftrightarrow>
     \<not> 0x7F800000 < a AND 0x7FFFFFFF \<and> \<not> 0x7F800000 < b AND 0x7FFFFFFF \<and>
     (a = b \<or> (a AND 0x7FFFFFFF = 0 \<and> b AND 0x7FFFFFFF = 0))"

function annotation_value_eq :: "annotation_value \<Rightarrow> annotation_value \<Rightarrow> bool"
  and annotation_summary_eq :: "annotation_summary \<Rightarrow> annotation_summary \<Rightarrow> bool" where
  "annotation_value_eq v w =
     (case (v, w) of
        (ADouble a, ADouble b) \<Rightarrow> f64_eq a b
      | (AFloat a, AFloat b) \<Rightarrow> f32_eq a b
      | (ANested a, ANested b) \<Rightarrow> annotation_summary_eq a b
      | (AArray xs, AArray ys) \<Rightarrow>
          length xs = length ys \<and> list_all (\<lambda>(x, y). annotation_value_eq x y) (zip xs ys)
      | _ \<Rightarrow> v = w)"
| "annotation_summary_eq (AnnotationSummary n b es) (AnnotationSummary n' b' es') \<longleftrightarrow>
     n = n' \<and> b = b' \<and> length es = length es' \<and>
     list_all (\<lambda>(k, x). case hget es' k of None \<Rightarrow> False | Some y \<Rightarrow> annotation_value_eq x y) es"
  by pat_completeness auto

lemma size_element:
  "(k, x) \<in> set es \<Longrightarrow> size x < Suc (size_list (size_prod (\<lambda>_. 0) size) es)"
  by (induction es) auto

lemma size_array_item: "(x, y) \<in> set (zip xs ys) \<Longrightarrow> size x < Suc (size_list size xs)"
  by (induction xs ys rule: list_induct2') auto

termination annotation_value_eq
  by (relation "measure (\<lambda>x. case x of Inl (v, _) \<Rightarrow> size v | Inr (s, _) \<Rightarrow> size s)")
     (auto simp: size_element size_array_item)

declare annotation_value_eq.simps [simp del]


subsection \<open>Methods, fields and classes\<close>

record method_param =
  mp_descriptor :: str
  mp_name :: str
  mp_annotations :: "annotation_summary list"

type_synonym method_params = "method_param list"

record method_summary =
  ms_name :: str
  ms_params :: method_params
  ms_annotations :: "annotation_summary list"
  ms_access_flags :: "16 word"
  ms_is_synthetic :: bool
  ms_generic_signature :: "str option"
  ms_return_type :: "str option"

record field_summary =
  fs_name :: str
  fs_descriptor :: str
  fs_access_flags :: "16 word"
  fs_annotations :: "annotation_summary list"
  fs_is_synthetic :: bool
  fs_generic_signature :: "str option"

datatype class_origin = Jar str | SourceFile str | ZipSource str str | UnknownOrigin

record class_metadata =
  cm_package :: "str option"
  cm_name :: str
  cm_internal_name :: str
  cm_super_name :: "str option"
  cm_interfaces :: "str list"
  cm_annotations :: "annotation_summary list"
  cm_methods :: "method_summary list"
  cm_fields :: "field_summary list"
  cm_access_flags :: "16 word"
  cm_generic_signature :: "str option"
  cm_inner_class_of :: "str option"
  cm_origin :: class_origin

text \<open>\<open>==\<close> on metadata: every field structurally, annotations by \<open>annotation_summary_eq\<close>.\<close>

definition annotations_eq :: "annotation_summary list \<Rightarrow> annotation_summary list \<Rightarrow> bool" where
  "annotations_eq as bs \<longleftrightarrow> list_all2 annotation_summary_eq as bs"

definition method_param_eq :: "method_param \<Rightarrow> method_param \<Rightarrow> bool" where
  "method_param_eq p q \<longleftrightarrow> mp_descriptor p = mp_descriptor q \<and> mp_name p = mp_name q \<and>
     annotations_eq (mp_annotations p) (mp_annotations q)"

definition method_summary_eq :: "method_summary \<Rightarrow> method_summary \<Rightarrow> bool" where
  "method_summary_eq m n \<longleftrightarrow> ms_name m = ms_name n \<and>
     list_all2 method_param_eq (ms_params m) (ms_params n) \<and>
     annotations_eq (ms_annotations m) (ms_annotations n) \<and>
     ms_access_flags m = ms_access_flags n \<and> ms_is_synthetic m = ms_is_synthetic n \<and>
     ms_generic_signature m = ms_generic_signature n \<and> ms_return_type m = ms_return_type n"

definition field_summary_eq :: "field_summary \<Rightarrow> field_summary \<Rightarrow> bool" where
  "field_summary_eq f g \<longleftrightarrow> fs_name f = fs_name g \<and> fs_descriptor f = fs_descriptor g \<and>
     fs_access_flags f = fs_access_flags g \<and>
     annotations_eq (fs_annotations f) (fs_annotations g) \<and>
     fs_is_synthetic f = fs_is_synthetic g \<and> fs_generic_signature f = fs_generic_signature g"

definition class_metadata_eq :: "class_metadata \<Rightarrow> class_metadata \<Rightarrow> bool" where
  "class_metadata_eq c d \<longleftrightarrow> cm_package c = cm_package d \<and> cm_name c = cm_name d \<and>
     cm_internal_name c = cm_internal_name d \<and> cm_super_name c = cm_super_name d \<and>
     cm_interfaces c = cm_interfaces d \<and> annotations_eq (cm_annotations c) (cm_annotations d) \<and>
     list_all2 method_summary_eq (cm_methods c) (cm_methods d) \<and>
     list_all2 field_summary_eq (cm_fields c) (cm_fields d) \<and>
     cm_access_flags c = cm_access_flags d \<and> cm_generic_signature c = cm_generic_signature d \<and>
     cm_inner_class_of c = cm_inner_class_of d \<and> cm_origin c = cm_origin d"

subsection \<open>Queries on a class\<close>

definition fallback_nested_source_name :: "class_metadata \<Rightarrow> str" where
  "fallback_nested_source_name c =
     (case cm_inner_class_of c of
        Some owner \<Rightarrow>
          (let out = replace_char (CHR ''/'') (CHR ''.'') owner
           in (if out = [] then out else out @ ''.'') @ cm_name c)
      | None \<Rightarrow> replace_char (CHR ''/'') (CHR ''.'') (cm_internal_name c))"

definition package_prefix :: "class_metadata \<Rightarrow> str" where
  "package_prefix c =
     (case cm_package c of
        Some pkg \<Rightarrow> replace_char (CHR ''/'') (CHR ''.'') pkg @ ''.'' | None \<Rightarrow> [])"

definition source_name :: "class_metadata \<Rightarrow> str" where
  "source_name c =
     (if cm_inner_class_of c \<noteq> None then fallback_nested_source_name c
      else package_prefix c @ cm_name c)"

text \<open>
  The loop of \<open>qualified_source_name_with\<close>: the segments from the class outwards, None when an
  owner is unknown or the chain is longer than 64.
\<close>

function owner_segments ::
  "(str \<Rightarrow> class_metadata option) \<Rightarrow> str option \<Rightarrow> nat \<Rightarrow> str list \<Rightarrow> str list option" where
  "owner_segments resolve_owner owner depth segments =
     (case owner of
        None \<Rightarrow> Some segments
      | Some owner_name \<Rightarrow>
          (case resolve_owner owner_name of
             None \<Rightarrow> None
           | Some oc \<Rightarrow>
               if depth + 1 > 64 then None
               else owner_segments resolve_owner (cm_inner_class_of oc) (depth + 1)
                      (segments @ [cm_name oc])))"
  by pat_completeness auto
termination
  by (relation "measure (\<lambda>(_, _, depth, _). 65 - depth)") auto

declare owner_segments.simps [simp del]

definition qualified_source_name_with ::
  "class_metadata \<Rightarrow> (str \<Rightarrow> class_metadata option) \<Rightarrow> str" where
  "qualified_source_name_with c resolve_owner =
     (if cm_inner_class_of c = None then source_name c
      else (case owner_segments resolve_owner (cm_inner_class_of c) 0 [cm_name c] of
              None \<Rightarrow> fallback_nested_source_name c
            | Some segments \<Rightarrow> package_prefix c @ join ''.'' (rev segments)))"

definition direct_name :: "class_metadata \<Rightarrow> str" where
  "direct_name c = cm_name c"

definition matches_simple_name :: "class_metadata \<Rightarrow> str \<Rightarrow> bool" where
  "matches_simple_name c simple \<longleftrightarrow> direct_name c = simple"

definition matches_internal_name_tail :: "class_metadata \<Rightarrow> str \<Rightarrow> bool" where
  "matches_internal_name_tail c tail \<longleftrightarrow>
     last_piece (CHR ''/'') (cm_internal_name c) = tail \<or> direct_name c = tail"

definition ACC_STATIC :: "16 word" where "ACC_STATIC = 0x0008"
definition ACC_VARARGS :: "16 word" where "ACC_VARARGS = 0x0080"

definition is_static :: "class_metadata \<Rightarrow> bool" where
  "is_static c \<longleftrightarrow> cm_access_flags c AND ACC_STATIC \<noteq> 0"

definition is_instance_inner_class :: "class_metadata \<Rightarrow> bool" where
  "is_instance_inner_class c \<longleftrightarrow> cm_inner_class_of c \<noteq> None \<and> \<not> is_static c"

definition TARGET_INTERNAL :: str where "TARGET_INTERNAL = ''java/lang/annotation/Target''"
definition RETENTION_INTERNAL :: str where "RETENTION_INTERNAL = ''java/lang/annotation/Retention''"

definition annotation_targets :: "class_metadata \<Rightarrow> str list option" where
  "annotation_targets c =
     (case find (\<lambda>a. an_internal_name a = TARGET_INTERNAL) (cm_annotations c) of
        None \<Rightarrow> None
      | Some target_ann \<Rightarrow>
          (case hget (an_elements target_ann) ''value'' of
             Some (AEnum _ const_name) \<Rightarrow> Some [const_name]
           | Some (AArray items) \<Rightarrow>
               Some (List.map_filter (\<lambda>item. case item of AEnum _ n \<Rightarrow> Some n | _ \<Rightarrow> None) items)
           | _ \<Rightarrow> None))"

definition annotation_retention :: "class_metadata \<Rightarrow> str option" where
  "annotation_retention c =
     (case find (\<lambda>a. an_internal_name a = RETENTION_INTERNAL) (cm_annotations c) of
        None \<Rightarrow> None
      | Some ann \<Rightarrow>
          (case hget (an_elements ann) ''value'' of Some (AEnum _ n) \<Rightarrow> Some n | _ \<Rightarrow> None))"

definition method_desc :: "method_summary \<Rightarrow> str" where
  "method_desc m = ''('' @ concat (map mp_descriptor (ms_params m)) @ '')''
     @ (case ms_return_type m of None \<Rightarrow> ''V'' | Some r \<Rightarrow> r)"

definition is_varargs :: "method_summary \<Rightarrow> bool" where
  "is_varargs m \<longleftrightarrow> ms_access_flags m AND ACC_VARARGS \<noteq> 0"

subsection \<open>Parameter lists\<close>

definition from_method_descriptor :: "str \<Rightarrow> rust_panic + method_params" where
  "from_method_descriptor desc =
     map_ok (map (\<lambda>ty. \<lparr>mp_descriptor = ty, mp_name = [], mp_annotations = []\<rparr>))
       (and_then (params_text desc) (\<lambda>t. case t of None \<Rightarrow> Inr [] | Some s \<Rightarrow> descriptor_types s))"

definition name_params :: "method_params \<Rightarrow> str list \<Rightarrow> method_params" where
  "name_params ps names =
     map (\<lambda>i. if i < length names then (ps ! i)\<lparr>mp_name := names ! i\<rparr> else ps ! i) [0..<length ps]"

definition from_descriptor_and_names :: "str \<Rightarrow> str list \<Rightarrow> rust_panic + method_params" where
  "from_descriptor_and_names desc names =
     map_ok (\<lambda>out. name_params out names) (from_method_descriptor desc)"

definition param_names :: "method_params \<Rightarrow> str list" where
  "param_names ps = map mp_name ps"

definition is_erased_object_descriptor :: "str \<Rightarrow> bool" where
  "is_erased_object_descriptor desc \<longleftrightarrow> desc = ''Ljava/lang/Object;''"

definition is_type_variable_descriptor :: "str \<Rightarrow> bool" where
  "is_type_variable_descriptor desc \<longleftrightarrow>
     starts_with desc ''T'' \<and> ends_with desc '';'' \<or>
     (starts_with desc ''L'' \<and> ends_with desc '';'' \<and>
      (let inner = take (length desc - 2) (drop 1 desc)
       in CHR ''/'' \<notin> set inner \<and> CHR ''.'' \<notin> set inner \<and> CHR ''$'' \<notin> set inner \<and> inner \<noteq> [] \<and>
          length inner \<le> 3 \<and> list_all is_ascii_uppercase inner))"

function param_descriptor_compatible_for_name_carryover :: "str \<Rightarrow> str \<Rightarrow> bool" where
  "param_descriptor_compatible_for_name_carryover bytecode_desc source_desc =
     (if bytecode_desc = source_desc then True
      else if starts_with bytecode_desc ''['' \<and> starts_with source_desc ''['' then
        param_descriptor_compatible_for_name_carryover (drop 1 bytecode_desc) (drop 1 source_desc)
      else is_erased_object_descriptor bytecode_desc \<and> is_type_variable_descriptor source_desc)"
  by pat_completeness auto
termination
  by (relation "measure (length \<circ> fst)") (auto simp: starts_with_singleton)

declare param_descriptor_compatible_for_name_carryover.simps [simp del]

definition expand_params :: "method_params \<Rightarrow> method_params \<Rightarrow> method_params" where
  "expand_params self other =
     (if length self \<noteq> length other then self
      else map2 (\<lambda>a b.
        if param_descriptor_compatible_for_name_carryover (mp_descriptor a) (mp_descriptor b)
           \<and> mp_name b \<noteq> []
        then a\<lparr>mp_name := mp_name b, mp_annotations := mp_annotations b\<rparr> else a) self other)"

subsection \<open>Source positions, modules and names\<close>

record source_position =
  sp_line :: "32 word"
  sp_character :: "32 word"

record source_range =
  sr_start :: source_position
  sr_end :: source_position

record declaration_batch =
  db_type_ranges :: "(str, source_range) hash_map"
  db_method_ranges :: "(str \<times> str \<times> str, source_range) hash_map"
  db_field_ranges :: "(str \<times> str, source_range) hash_map"

definition insert_type :: "declaration_batch \<Rightarrow> str \<Rightarrow> source_range \<Rightarrow> declaration_batch" where
  "insert_type b n r = b\<lparr>db_type_ranges := hinsert n r (db_type_ranges b)\<rparr>"

definition insert_method ::
  "declaration_batch \<Rightarrow> str \<Rightarrow> str \<Rightarrow> str \<Rightarrow> source_range \<Rightarrow> declaration_batch" where
  "insert_method b owner n desc r =
     b\<lparr>db_method_ranges := hinsert (owner, n, desc) r (db_method_ranges b)\<rparr>"

definition insert_field ::
  "declaration_batch \<Rightarrow> str \<Rightarrow> str \<Rightarrow> source_range \<Rightarrow> declaration_batch" where
  "insert_field b owner n r = b\<lparr>db_field_ranges := hinsert (owner, n) r (db_field_ranges b)\<rparr>"

definition type_range :: "declaration_batch \<Rightarrow> str \<Rightarrow> source_range option" where
  "type_range b n = hget (db_type_ranges b) n"

definition method_range :: "declaration_batch \<Rightarrow> str \<Rightarrow> str \<Rightarrow> str \<Rightarrow> source_range option" where
  "method_range b owner n desc = hget (db_method_ranges b) (owner, n, desc)"

definition field_range :: "declaration_batch \<Rightarrow> str \<Rightarrow> str \<Rightarrow> source_range option" where
  "field_range b owner n = hget (db_field_ranges b) (owner, n)"

record java_module_requires =
  jr_module_name :: str
  jr_is_static :: bool
  jr_is_transitive :: bool

record java_module_package_directive =
  jd_package_name :: str
  jd_target_modules :: "str list"

record java_module_provides =
  jp_service :: str
  jp_implementations :: "str list"

record java_module_descriptor =
  jm_name :: str
  jm_is_open :: bool
  jm_requires :: "java_module_requires list"
  jm_exports :: "java_module_package_directive list"
  jm_opens :: "java_module_package_directive list"
  jm_uses :: "str list"
  jm_provides :: "java_module_provides list"

record indexed_java_module =
  im_descriptor :: java_module_descriptor
  im_origin :: class_origin

definition indexed_module_name :: "indexed_java_module \<Rightarrow> str" where
  "indexed_module_name m = jm_name (im_descriptor m)"

text \<open>A name table is a hash set of internal names: a map to unit.\<close>

type_synonym name_table = "(str, unit) hash_map"

definition name_table_extend_with :: "name_table \<Rightarrow> str list \<Rightarrow> name_table" where
  "name_table_extend_with t names = fold (\<lambda>n. hinsert n ()) names t"

definition name_table_from_names :: "str list \<Rightarrow> name_table" where
  "name_table_from_names names = fold (\<lambda>n. hinsert n ()) names []"

definition name_table_from_classes :: "class_metadata list \<Rightarrow> name_table" where
  "name_table_from_classes classes = name_table_from_names (map cm_internal_name classes)"

definition name_table_exists :: "name_table \<Rightarrow> str \<Rightarrow> bool" where
  "name_table_exists t n \<longleftrightarrow> hget t n \<noteq> None"

definition name_table_len :: "name_table \<Rightarrow> nat" where
  "name_table_len t = length t"

definition name_table_is_empty :: "name_table \<Rightarrow> bool" where
  "name_table_is_empty t \<longleftrightarrow> name_table_len t = 0"


subsection \<open>Merging source classes into bytecode classes\<close>

definition simple_of_descriptor :: "str \<Rightarrow> str" where
  "simple_of_descriptor ty =
     (let prefix = takeWhile (\<lambda>c. c = CHR ''['') ty; ty_str = dropWhile (\<lambda>c. c = CHR ''['') ty
      in prefix @
         (if starts_with ty_str ''L'' \<and> ends_with ty_str '';''
          then last_piece (CHR ''/'') (take (length ty_str - 2) (drop 1 ty_str))
          else ty_str))"

definition extract_simple_types :: "str \<Rightarrow> rust_panic + str list" where
  "extract_simple_types desc =
     and_then (params_text desc)
       (\<lambda>t. case t of
              None \<Rightarrow> Inr []
            | Some s \<Rightarrow> map_ok (map simple_of_descriptor) (descriptor_types s))"

text \<open>\<open>candidates.iter().find(..)\<close>, which stops at the first match.\<close>

fun find_by_simple_types :: "str list \<Rightarrow> method_summary list \<Rightarrow> rust_panic + method_summary option" where
  "find_by_simple_types b_simple [] = Inr None"
| "find_by_simple_types b_simple (m # ms) =
     and_then (extract_simple_types (method_desc m))
       (\<lambda>ts. if ts = b_simple then Inr (Some m) else find_by_simple_types b_simple ms)"

definition merge_method :: "class_metadata \<Rightarrow> method_summary \<Rightarrow> rust_panic + method_summary" where
  "merge_method s_class b_method =
     (let candidates = filter (\<lambda>m. ms_name m = ms_name b_method
                                  \<and> length (ms_params m) = length (ms_params b_method)) (cm_methods s_class)
      in case candidates of
           [] \<Rightarrow> Inr b_method
         | [m] \<Rightarrow> Inr (b_method\<lparr>ms_params := expand_params (ms_params b_method) (ms_params m)\<rparr>)
         | m # _ \<Rightarrow>
             and_then (extract_simple_types (method_desc b_method)) (\<lambda>b_simple.
             and_then (find_by_simple_types b_simple candidates) (\<lambda>best.
               Inr (b_method\<lparr>ms_params :=
                 expand_params (ms_params b_method)
                   (ms_params (case best of Some b \<Rightarrow> b | None \<Rightarrow> m))\<rparr>))))"

fun merge_classes_loop ::
  "(str, class_metadata) hash_map \<Rightarrow> class_metadata list \<Rightarrow> rust_panic + class_metadata list" where
  "merge_classes_loop source_map [] = Inr []"
| "merge_classes_loop source_map (b_class # bs) =
     (case hget source_map (cm_internal_name b_class) of
        None \<Rightarrow> map_ok (\<lambda>cs. b_class # cs) (merge_classes_loop source_map bs)
      | Some s_class \<Rightarrow>
          and_then (try_map (merge_method s_class) (cm_methods b_class)) (\<lambda>ms.
            map_ok (\<lambda>cs. b_class\<lparr>cm_origin := cm_origin s_class, cm_methods := ms\<rparr> # cs)
              (merge_classes_loop (hremove (cm_internal_name b_class) source_map) bs)))"

definition merge_source_into_bytecode ::
  "class_metadata list \<Rightarrow> class_metadata list \<Rightarrow> rust_panic + class_metadata list" where
  "merge_source_into_bytecode bytecode source =
     merge_classes_loop (fold (\<lambda>c. hinsert (cm_internal_name c) c) source []) bytecode"


subsection \<open>Well-formed descriptors\<close>

text \<open>The field descriptors of the class file format (with no parenthesis in class names).\<close>

fun field_descriptor :: "str \<Rightarrow> bool" where
  "field_descriptor [] = False"
| "field_descriptor (c # s) \<longleftrightarrow>
     (c \<in> set ''BCDFIJSZ'' \<and> s = []) \<or> (c = CHR ''['' \<and> field_descriptor s) \<or>
     (c = CHR ''L'' \<and> s \<noteq> [] \<and> last s = CHR '';'' \<and> CHR '';'' \<notin> set (butlast s) \<and> CHR '')'' \<notin> set s)"

definition return_descriptor :: "str \<Rightarrow> bool" where
  "return_descriptor r \<longleftrightarrow>
     (case parse r of
        Some (t, []) \<Rightarrow> to_signature_string t = r \<and> t \<noteq> Primitive (CHR ''V'') | _ \<Rightarrow> False)"

definition method_descriptors_ok :: "method_summary \<Rightarrow> bool" where
  "method_descriptors_ok m \<longleftrightarrow> list_all (field_descriptor \<circ> mp_descriptor) (ms_params m) \<and>
     (case ms_return_type m of None \<Rightarrow> True | Some r \<Rightarrow> return_descriptor r)"

definition starts_ascii :: "str \<Rightarrow> bool" where
  "starts_ascii s \<longleftrightarrow> s = [] \<or> (of_char (hd s) :: nat) < 128"

lemma field_descriptor_start:
  assumes "field_descriptor d"
  shows "d \<noteq> []" "(of_char (hd d) :: nat) < 128" "CHR '')'' \<notin> set d"
proof -
  have "CHR '')'' \<notin> set d" using assms by (induction d rule: field_descriptor.induct) auto
  then show "d \<noteq> []" "(of_char (hd d) :: nat) < 128" "CHR '')'' \<notin> set d"
    using assms by (cases d; auto)+
qed

lemma slice_first:
  "starts_ascii s \<Longrightarrow> slice (c # s) 0 (Suc 0) = Inr [c]"
  by (cases s) (auto simp: slice_def char_boundary_def starts_ascii_def)

lemma consume_field_descriptor:
  "field_descriptor d \<Longrightarrow> starts_ascii rest \<Longrightarrow> consume_one_descriptor_type (d @ rest) = Inr (d, rest)"
proof (induction d arbitrary: rest rule: field_descriptor.induct)
  case (2 c s)
  consider "c = CHR ''['' \<and> field_descriptor s" | "c \<in> set ''BCDFIJSZ''" "s = []"
    | "c = CHR ''L''" "s \<noteq> []" "last s = CHR '';''" "CHR '';'' \<notin> set (butlast s)"
    using "2.prems"(1) unfolding field_descriptor.simps by blast
  then show ?case
  proof cases
    case 1
    with "2.IH" "2.prems"(2) show ?thesis by simp
  next
    case p: 2
    then show ?thesis using slice_first [of rest c] "2.prems"(2) by auto
  next
    case 3
    then have "s @ rest = butlast s @ CHR '';'' # rest"
      by (metis append_Cons append_Nil append_assoc append_butlast_last_id)
    then have "find_char (s @ rest) (CHR '';'') = Some (length (butlast s))"
      using 3 find_char_append_Cons by metis
    moreover have "Suc (length (butlast s)) = length s" using 3 by simp
    ultimately show ?thesis using 3 by simp
  qed
qed simp

lemma starts_ascii_concat:
  "list_all field_descriptor ds \<Longrightarrow> starts_ascii (concat ds)"
  by (cases ds) (auto simp: starts_ascii_def field_descriptor_start)

lemma descriptor_types_concat:
  "list_all field_descriptor ds \<Longrightarrow> descriptor_types (concat ds) = Inr ds"
proof (induction ds)
  case (Cons d ds)
  then show ?case
    using consume_field_descriptor [of d "concat ds"] starts_ascii_concat [of ds]
      field_descriptor_start(1) [of d]
    by (simp add: descriptor_types.simps [of "d @ concat ds"])
qed (simp add: descriptor_types.simps)

lemma params_text_desc:
  assumes "list_all field_descriptor ds"
  shows "params_text (''('' @ concat ds @ '')'' @ r) = Inr (Some (concat ds))"
proof -
  have no: "CHR '')'' \<notin> set (concat ds)"
    using assms field_descriptor_start(3) by (auto simp: list_all_iff)
  have bound: "char_boundary (CHR ''('' # t @ CHR '')'' # r) (Suc 0)" if "starts_ascii t" for t
    using that by (cases t) (auto simp: char_boundary_def starts_ascii_def)
  note b = bound [OF starts_ascii_concat [OF assms]]
  have e: "char_boundary (CHR ''('' # concat ds @ CHR '')'' # r) (Suc (length (concat ds)))"
    by (simp add: char_boundary_def nth_append)
  show ?thesis
    using b e find_char_append_Cons [OF no, of r] by (simp add: params_text_def slice_def)
qed

lemma split_params_of_desc:
  assumes "list_all (field_descriptor \<circ> mp_descriptor) (ms_params m)"
  shows "and_then (params_text (method_desc m))
           (\<lambda>t. case t of None \<Rightarrow> Inr [] | Some s \<Rightarrow> descriptor_types s)
         = Inr (map mp_descriptor (ms_params m))"
  using assms descriptor_types_concat [of "map mp_descriptor (ms_params m)"]
    params_text_desc [of "map mp_descriptor (ms_params m)"]
  by (simp add: method_desc_def list.pred_map)

lemma return_type_of_desc:
  assumes "method_descriptors_ok m"
  shows "parse_return_type_from_descriptor (method_desc m) = ms_return_type m"
proof -
  let ?ds = "map mp_descriptor (ms_params m)"
  have "CHR '')'' \<notin> set (CHR ''('' # concat ?ds)"
    using assms field_descriptor_start(3) by (auto simp: method_descriptors_ok_def list_all_iff)
  from find_char_append_Cons [OF this]
  have f: "find_char (method_desc m) (CHR '')'') = Some (Suc (length (concat ?ds)))"
    by (simp add: method_desc_def)
  have d: "drop (Suc (length (concat ?ds)) + 1) (method_desc m)
      = (case ms_return_type m of None \<Rightarrow> ''V'' | Some r \<Rightarrow> r)"
    by (simp add: method_desc_def)
  have v: "parse ''V'' = Some (Primitive (CHR ''V''), [])"
    by (simp add: parse.simps [of "''V''"] primitive_chars_def)
  show ?thesis
    unfolding parse_return_type_from_descriptor_def extract_return_internal_name_def f option.case d
    using assms v
    by (auto simp: method_descriptors_ok_def return_descriptor_def neq_Nil_conv
             split: option.splits list.splits prod.splits)
qed


subsection \<open>Owner chains\<close>

text \<open>\<open>os\<close> are the owners of a member class from the innermost outwards, up to a top-level class.\<close>

fun owner_chain :: "(str \<Rightarrow> class_metadata option) \<Rightarrow> str option \<Rightarrow> class_metadata list \<Rightarrow> bool" where
  "owner_chain resolve owner [] \<longleftrightarrow> owner = None"
| "owner_chain resolve owner (oc # os) \<longleftrightarrow>
     owner \<noteq> None \<and> resolve (the owner) = Some oc \<and> owner_chain resolve (cm_inner_class_of oc) os"

lemma owner_segments_chain:
  "owner_chain resolve owner os \<Longrightarrow>
     owner_segments resolve owner depth segs =
       (if os = [] \<or> depth + length os \<le> 64 then Some (segs @ map cm_name os) else None)"
proof (induction os arbitrary: owner depth segs)
  case Nil
  then show ?case by (simp add: owner_segments.simps)
next
  case (Cons oc os)
  then show ?case
    by (auto simp: owner_segments.simps [of resolve owner])
qed

text \<open>A chain of owners that never ends, as with classes that own each other.\<close>

lemma owner_segments_None:
  assumes "\<And>os. \<not> owner_chain resolve owner os"
  shows "owner_segments resolve owner depth segs = None"
  using assms
proof (induction "65 - depth" arbitrary: owner depth segs rule: less_induct)
  case less
  show ?case
  proof (cases owner)
    case None
    then show ?thesis using less.prems [of "[]"] by simp
  next
    case (Some n)
    show ?thesis
    proof (cases "resolve n")
      case None
      then show ?thesis using Some by (simp add: owner_segments.simps)
    next
      case oc: (Some oc)
      have "\<not> owner_chain resolve (cm_inner_class_of oc) os" for os
        using less.prems [of "oc # os"] Some oc by simp
      with less.hyps [of "depth + 1" "cm_inner_class_of oc"] Some oc show ?thesis
        by (auto simp: owner_segments.simps [of resolve "Some n"])
    qed
  qed
qed

subsection \<open>What a merge keeps\<close>

lemma expand_params_descriptors:
  "map mp_descriptor (expand_params ps qs) = map mp_descriptor ps"
  by (rule nth_equalityI) (auto simp: expand_params_def)

lemma merge_method_shape:
  assumes "merge_method s m = Inr m'"
  shows "m' = m\<lparr>ms_params := ms_params m'\<rparr>" "map mp_descriptor (ms_params m') = map mp_descriptor (ms_params m)"
  using assms
  by (auto simp: merge_method_def Let_def and_then_Inr expand_params_descriptors split: list.splits)

definition method_shape :: "method_summary \<Rightarrow> str \<times> str \<times> 16 word \<times> bool \<times> str option \<times> str option" where
  "method_shape m = (ms_name m, method_desc m, ms_access_flags m, ms_is_synthetic m,
     ms_generic_signature m, ms_return_type m)"

definition class_shape :: "class_metadata \<Rightarrow> class_metadata \<times> (str \<times> str \<times> 16 word \<times> bool \<times> str option \<times> str option) list" where
  "class_shape c = (c\<lparr>cm_origin := UnknownOrigin, cm_methods := []\<rparr>, map method_shape (cm_methods c))"

lemma merge_method_same_shape: "merge_method s m = Inr m' \<Longrightarrow> method_shape m' = method_shape m"
  using merge_method_shape [of s m m'] unfolding method_shape_def method_desc_def
  by (cases m; cases m') simp

lemma merge_loop_shape:
  "merge_classes_loop sm bs = Inr cs \<Longrightarrow> map class_shape cs = map class_shape bs"
proof (induction bs arbitrary: sm cs)
  case (Cons b bs)
  have "map method_shape ms = map method_shape (cm_methods b)"
    if "try_map (merge_method s) (cm_methods b) = Inr ms" for s ms
    using try_map_InrD [OF that]
    by (induction rule: list_all2_induct) (auto dest: merge_method_same_shape)
  note shape = this
  show ?case
  proof (cases "hget sm (cm_internal_name b)")
    case None
    with Cons show ?thesis by (auto simp: map_ok_Inr)
  next
    case (Some s)
    then obtain ms cs' where "try_map (merge_method s) (cm_methods b) = Inr ms"
      "merge_classes_loop (hremove (cm_internal_name b) sm) bs = Inr cs'"
      "cs = b\<lparr>cm_origin := cm_origin s, cm_methods := ms\<rparr> # cs'"
      using Cons.prems by (auto simp: map_ok_Inr and_then_Inr)
    with Cons.IH shape show ?thesis by (simp add: class_shape_def)
  qed
qed simp

lemma extract_simple_types_ok:
  assumes "list_all (field_descriptor \<circ> mp_descriptor) (ms_params m)"
  shows "\<exists>ts. extract_simple_types (method_desc m) = Inr ts"
  using split_params_of_desc [OF assms] unfolding extract_simple_types_def
  by (cases "params_text (method_desc m)") (auto split: option.splits)

lemma find_by_simple_types_ok:
  "list_all method_descriptors_ok ms \<Longrightarrow>
     \<exists>r. find_by_simple_types ts ms = Inr r \<and> (case r of None \<Rightarrow> True | Some m \<Rightarrow> m \<in> set ms)"
proof (induction ms)
  case (Cons m ms)
  then obtain us where "extract_simple_types (method_desc m) = Inr us"
    using extract_simple_types_ok [of m] by (auto simp: method_descriptors_ok_def)
  with Cons show ?case by (auto split: option.splits)
qed simp

definition class_descriptors_ok :: "class_metadata \<Rightarrow> bool" where
  "class_descriptors_ok c \<longleftrightarrow> list_all method_descriptors_ok (cm_methods c)"

lemma list_all_filter_method: "list_all P xs \<Longrightarrow> list_all P (filter Q xs)"
  by (induction xs) auto

lemma merge_method_ok:
  assumes "class_descriptors_ok s" "method_descriptors_ok m"
  shows "\<exists>m'. merge_method s m = Inr m'"
proof -
  let ?cands = "filter (\<lambda>m'. ms_name m' = ms_name m \<and> length (ms_params m') = length (ms_params m)) (cm_methods s)"
  obtain us where us: "extract_simple_types (method_desc m) = Inr us"
    using assms(2) extract_simple_types_ok by (auto simp: method_descriptors_ok_def)
  obtain r where "find_by_simple_types us ?cands = Inr r"
    using find_by_simple_types_ok [of ?cands us] assms(1) list_all_filter_method
    unfolding class_descriptors_ok_def by blast
  then show ?thesis using us by (auto simp: merge_method_def Let_def split: list.splits)
qed

lemma merge_loop_ok:
  "\<forall>n s. hget sm n = Some s \<longrightarrow> class_descriptors_ok s \<Longrightarrow> list_all class_descriptors_ok bs \<Longrightarrow>
     \<exists>cs. merge_classes_loop sm bs = Inr cs"
proof (induction bs arbitrary: sm)
  case (Cons b bs)
  have "\<exists>ms. try_map (merge_method s) (cm_methods b) = Inr ms" if "class_descriptors_ok s" for s
    using that Cons.prems(2) merge_method_ok
    by (intro try_map_ex) (simp add: class_descriptors_ok_def list_all_iff)
  note methods = this
  show ?case
  proof (cases "hget sm (cm_internal_name b)")
    case None
    with Cons.IH [of sm] Cons.prems show ?thesis by auto
  next
    case (Some s)
    have "\<exists>cs. merge_classes_loop (hremove (cm_internal_name b) sm) bs = Inr cs"
      using Cons.IH Cons.prems by simp
    with Some methods [of s] Cons.prems(1) show ?thesis by auto
  qed
qed simp


lemma hget_fold_classes:
  "hget (fold (\<lambda>c. hinsert (cm_internal_name c) c) cs m) n =
     (case find (\<lambda>c. cm_internal_name c = n) (rev cs) of None \<Rightarrow> hget m n | Some c \<Rightarrow> Some c)"
  by (induction cs arbitrary: m) (simp_all add: find_append split: option.split)

lemma merge_loop_origin:
  "merge_classes_loop sm bs = Inr cs \<Longrightarrow> distinct (map cm_internal_name bs) \<Longrightarrow>
     list_all2 (\<lambda>b c. cm_origin c = (case hget sm (cm_internal_name b) of
       None \<Rightarrow> cm_origin b | Some s \<Rightarrow> cm_origin s)) bs cs"
proof (induction bs arbitrary: sm cs)
  case (Cons b bs)
  show ?case
  proof (cases "hget sm (cm_internal_name b)")
    case None
    with Cons show ?thesis by (auto simp: map_ok_Inr)
  next
    case (Some s)
    then obtain ms cs' where
      "merge_classes_loop (hremove (cm_internal_name b) sm) bs = Inr cs'"
      "cs = b\<lparr>cm_origin := cm_origin s, cm_methods := ms\<rparr> # cs'"
      using Cons.prems by (auto simp: map_ok_Inr and_then_Inr)
    then show ?thesis using Cons.IH [of "hremove (cm_internal_name b) sm" cs'] Cons.prems Some
      by (auto simp: image_iff elim!: list.rel_mono_strong split: option.splits if_splits)
  qed
qed simp

text \<open>A class with no members, for the examples.\<close>

definition plain_class :: "str option \<Rightarrow> str \<Rightarrow> str \<Rightarrow> class_origin \<Rightarrow> class_metadata" where
  "plain_class pkg name internal origin =
     \<lparr>cm_package = pkg, cm_name = name, cm_internal_name = internal, cm_super_name = None,
      cm_interfaces = [], cm_annotations = [], cm_methods = [], cm_fields = [],
      cm_access_flags = 0, cm_generic_signature = None, cm_inner_class_of = None,
      cm_origin = origin\<rparr>"

definition plain_method :: "str \<Rightarrow> (str \<times> str) list \<Rightarrow> str option \<Rightarrow> method_summary" where
  "plain_method name ps ret =
     \<lparr>ms_name = name,
      ms_params = map (\<lambda>(d, n). \<lparr>mp_descriptor = d, mp_name = n, mp_annotations = []\<rparr>) ps,
      ms_annotations = [], ms_access_flags = 0, ms_is_synthetic = False,
      ms_generic_signature = None, ms_return_type = ret\<rparr>"

subsection \<open>Properties\<close>



text \<open>
  The qualified source name of a member class is its package and the names of its owners
  from the outermost inwards, for owner chains of up to 64 classes; when the chain is longer,
  breaks off at an unknown class or runs in a circle, it is the fallback made of the owner's
  internal name, so the computation ends on every class graph.
\<close>

theorem qualified_source_name_of_member:
  assumes "cm_inner_class_of c \<noteq> None"
  shows "(\<forall>os. owner_chain resolve (cm_inner_class_of c) os \<longrightarrow>
      qualified_source_name_with c resolve =
        (if length os \<le> 64 then package_prefix c @ join ''.'' (rev (map cm_name (c # os)))
         else fallback_nested_source_name c))
    \<and> ((\<nexists>os. owner_chain resolve (cm_inner_class_of c) os) \<longrightarrow>
      qualified_source_name_with c resolve = fallback_nested_source_name c)"
proof (intro conjI allI impI)
  fix os assume os: "owner_chain resolve (cm_inner_class_of c) os"
  then have "os \<noteq> []" using assms by (cases os) auto
  with assms show "qualified_source_name_with c resolve =
      (if length os \<le> 64 then package_prefix c @ join ''.'' (rev (map cm_name (c # os)))
       else fallback_nested_source_name c)"
    using owner_segments_chain [OF os, of 0 "[cm_name c]"]
    by (auto simp: qualified_source_name_with_def)
next
  assume "\<nexists>os. owner_chain resolve (cm_inner_class_of c) os"
  then show "qualified_source_name_with c resolve = fallback_nested_source_name c"
    using assms owner_segments_None [of resolve "cm_inner_class_of c" 0]
    by (auto simp: qualified_source_name_with_def)
qed

theorem qualified_source_name_of_member_witness:
  "qualified_source_name_with
     ((plain_class (Some ''a/b'') ''Entry'' ''a/b/Map$Entry'' UnknownOrigin)
        \<lparr>cm_inner_class_of := Some ''a/b/Map''\<rparr>)
     [''a/b/Map'' \<mapsto> plain_class (Some ''a/b'') ''Map'' ''a/b/Map'' UnknownOrigin]
   = ''a.b.Map.Entry''"
  using qualified_source_name_of_member
    [of "(plain_class (Some ''a/b'') ''Entry'' ''a/b/Map$Entry'' UnknownOrigin)
          \<lparr>cm_inner_class_of := Some ''a/b/Map''\<rparr>"
        "[''a/b/Map'' \<mapsto> plain_class (Some ''a/b'') ''Map'' ''a/b/Map'' UnknownOrigin]",
     THEN conjunct1, rule_format, of "[plain_class (Some ''a/b'') ''Map'' ''a/b/Map'' UnknownOrigin]"]
  by (simp add: plain_class_def package_prefix_def replace_char_def)

text \<open>
  Merging source classes into bytecode classes never panics on well-formed descriptors and
  takes only documentation from the source: every class keeps its names, hierarchy, fields and
  flags and every method its descriptor, flags and signature, and the origin becomes that of
  the (last) source class with the same internal name, if there is one.
\<close>

theorem merge_keeps_bytecode:
  assumes "list_all class_descriptors_ok bytecode" "list_all class_descriptors_ok source"
  shows "\<exists>merged. merge_source_into_bytecode bytecode source = Inr merged
    \<and> map class_shape merged = map class_shape bytecode
    \<and> (distinct (map cm_internal_name bytecode) \<longrightarrow>
        list_all2 (\<lambda>b c. cm_origin c =
          (case find (\<lambda>s. cm_internal_name s = cm_internal_name b) (rev source) of
             None \<Rightarrow> cm_origin b | Some s \<Rightarrow> cm_origin s)) bytecode merged)"
proof -
  let ?sm = "fold (\<lambda>c. hinsert (cm_internal_name c) c) source []"
  have "class_descriptors_ok s" if "hget ?sm n = Some s" for n s
    using that assms(2)
    by (auto simp: hget_fold_classes list_all_iff split: option.splits dest!: find_SomeD)
  then obtain merged where m: "merge_classes_loop ?sm bytecode = Inr merged"
    using merge_loop_ok [of ?sm bytecode] assms(1) by auto
  show ?thesis
  proof (intro exI conjI impI)
    show "merge_source_into_bytecode bytecode source = Inr merged"
      using m by (simp add: merge_source_into_bytecode_def)
    show "map class_shape merged = map class_shape bytecode" using merge_loop_shape [OF m] .
    assume "distinct (map cm_internal_name bytecode)"
    from merge_loop_origin [OF m this] show "list_all2 (\<lambda>b c. cm_origin c =
          (case find (\<lambda>s. cm_internal_name s = cm_internal_name b) (rev source) of
             None \<Rightarrow> cm_origin b | Some s \<Rightarrow> cm_origin s)) bytecode merged"
      by (rule list.rel_mono_strong) (auto simp: hget_fold_classes split: option.splits)
  qed
qed

theorem merge_keeps_bytecode_witness:
  "\<exists>merged. merge_source_into_bytecode
      [(plain_class None ''A'' ''A'' (Jar ''a.jar''))
         \<lparr>cm_methods := [plain_method ''f'' [(''I'', []), (''Ljava/lang/Object;'', [])] None]\<rparr>]
      [(plain_class None ''A'' ''A'' (SourceFile ''A.java''))
         \<lparr>cm_methods := [plain_method ''f'' [(''I'', ''count''), (''LT;'', ''item'')] None]\<rparr>] = Inr merged
    \<and> map cm_origin merged = [SourceFile ''A.java'']"
proof -
  let ?b = "[(plain_class None ''A'' ''A'' (Jar ''a.jar''))
         \<lparr>cm_methods := [plain_method ''f'' [(''I'', []), (''Ljava/lang/Object;'', [])] None]\<rparr>]"
  let ?s = "[(plain_class None ''A'' ''A'' (SourceFile ''A.java''))
         \<lparr>cm_methods := [plain_method ''f'' [(''I'', ''count''), (''LT;'', ''item'')] None]\<rparr>]"
  have "list_all class_descriptors_ok ?b" "list_all class_descriptors_ok ?s"
    by (simp_all add: plain_class_def plain_method_def class_descriptors_ok_def method_descriptors_ok_def)
  from merge_keeps_bytecode [OF this] obtain merged where
    "merge_source_into_bytecode ?b ?s = Inr merged"
    "list_all2 (\<lambda>b c. cm_origin c =
          (case find (\<lambda>s. cm_internal_name s = cm_internal_name b) (rev ?s) of
             None \<Rightarrow> cm_origin b | Some s \<Rightarrow> cm_origin s)) ?b merged" by auto
  then show ?thesis by (auto simp: plain_class_def list_all2_Cons1)
qed

end
