(* ===== verification/Archive_Stub.thy ===== *)
theory Archive_Stub
  imports Class_Metadata
begin

text \<open>
  The compact form in which archive classes are kept (\<open>index/archive_stub.rs\<close>): a stub drops
  annotations but the meta-annotations \<open>@Target\<close> and \<open>@Retention\<close>, keeps a method as its
  descriptor and parameter names, and \<open>materialize\<close> rebuilds the metadata. Rebuilding cuts the
  descriptor at byte offsets and so may panic; the result is of type \<open>rust_panic + 'a\<close>.
\<close>

record archive_method_stub =
  sm_name :: str
  sm_descriptor :: str
  sm_param_names :: "str list"
  sm_access_flags :: "16 word"
  sm_is_synthetic :: bool
  sm_generic_signature :: "str option"

record archive_field_stub =
  sf_name :: str
  sf_descriptor :: str
  sf_access_flags :: "16 word"
  sf_is_synthetic :: bool
  sf_generic_signature :: "str option"

record archive_class_stub =
  sc_package :: "str option"
  sc_name :: str
  sc_internal_name :: str
  sc_super_name :: "str option"
  sc_interfaces :: "str list"
  sc_methods :: "archive_method_stub list"
  sc_fields :: "archive_field_stub list"
  sc_access_flags :: "16 word"
  sc_generic_signature :: "str option"
  sc_inner_class_of :: "str option"
  sc_origin :: class_origin
  sc_annotation_targets :: "str list option"
  sc_annotation_retention :: "str option"

definition TARGET_VALUE_TYPE :: str where
  "TARGET_VALUE_TYPE = ''java/lang/annotation/ElementType''"

definition RETENTION_VALUE_TYPE :: str where
  "RETENTION_VALUE_TYPE = ''java/lang/annotation/RetentionPolicy''"

definition from_method_summary :: "method_summary \<Rightarrow> archive_method_stub" where
  "from_method_summary m =
     \<lparr>sm_name = ms_name m, sm_descriptor = method_desc m, sm_param_names = param_names (ms_params m),
      sm_access_flags = ms_access_flags m, sm_is_synthetic = ms_is_synthetic m,
      sm_generic_signature = ms_generic_signature m\<rparr>"

definition materialize_method_stub :: "archive_method_stub \<Rightarrow> rust_panic + method_summary" where
  "materialize_method_stub s =
     map_ok (\<lambda>ps. \<lparr>ms_name = sm_name s, ms_params = ps, ms_annotations = [],
        ms_access_flags = sm_access_flags s, ms_is_synthetic = sm_is_synthetic s,
        ms_generic_signature = sm_generic_signature s,
        ms_return_type = parse_return_type_from_descriptor (sm_descriptor s)\<rparr>)
       (from_descriptor_and_names (sm_descriptor s) (sm_param_names s))"

definition from_field_summary :: "field_summary \<Rightarrow> archive_field_stub" where
  "from_field_summary f =
     \<lparr>sf_name = fs_name f, sf_descriptor = fs_descriptor f, sf_access_flags = fs_access_flags f,
      sf_is_synthetic = fs_is_synthetic f, sf_generic_signature = fs_generic_signature f\<rparr>"

definition materialize_field_stub :: "archive_field_stub \<Rightarrow> field_summary" where
  "materialize_field_stub s =
     \<lparr>fs_name = sf_name s, fs_descriptor = sf_descriptor s, fs_access_flags = sf_access_flags s,
      fs_annotations = [], fs_is_synthetic = sf_is_synthetic s,
      fs_generic_signature = sf_generic_signature s\<rparr>"

definition from_class_metadata :: "class_metadata \<Rightarrow> archive_class_stub" where
  "from_class_metadata c =
     \<lparr>sc_package = cm_package c, sc_name = cm_name c, sc_internal_name = cm_internal_name c,
      sc_super_name = cm_super_name c, sc_interfaces = cm_interfaces c,
      sc_methods = map from_method_summary (cm_methods c),
      sc_fields = map from_field_summary (cm_fields c),
      sc_access_flags = cm_access_flags c, sc_generic_signature = cm_generic_signature c,
      sc_inner_class_of = cm_inner_class_of c, sc_origin = cm_origin c,
      sc_annotation_targets = annotation_targets c,
      sc_annotation_retention = annotation_retention c\<rparr>"

definition materialize_annotations :: "archive_class_stub \<Rightarrow> annotation_summary list" where
  "materialize_annotations s =
     (case sc_annotation_targets s of
        None \<Rightarrow> []
      | Some targets \<Rightarrow>
          [AnnotationSummary TARGET_INTERNAL True
             [(''value'',
               if length targets = 1 then AEnum TARGET_VALUE_TYPE (targets ! 0)
               else AArray (map (AEnum TARGET_VALUE_TYPE) targets))]])
     @ (case sc_annotation_retention s of
          None \<Rightarrow> []
        | Some retention \<Rightarrow>
            [AnnotationSummary RETENTION_INTERNAL True
               [(''value'', AEnum RETENTION_VALUE_TYPE retention)]])"

definition materialize :: "archive_class_stub \<Rightarrow> rust_panic + class_metadata" where
  "materialize s =
     map_ok (\<lambda>ms. \<lparr>cm_package = sc_package s, cm_name = sc_name s,
        cm_internal_name = sc_internal_name s, cm_super_name = sc_super_name s,
        cm_interfaces = sc_interfaces s, cm_annotations = materialize_annotations s,
        cm_methods = ms, cm_fields = map materialize_field_stub (sc_fields s),
        cm_access_flags = sc_access_flags s, cm_generic_signature = sc_generic_signature s,
        cm_inner_class_of = sc_inner_class_of s, cm_origin = sc_origin s\<rparr>)
       (try_map materialize_method_stub (sc_methods s))"

subsection \<open>What a stub keeps\<close>

text \<open>A class without its annotations; this is all that a stub loses, \<open>@Target\<close> and
  \<open>@Retention\<close> apart.\<close>

definition strip_method :: "method_summary \<Rightarrow> method_summary" where
  "strip_method m = m\<lparr>ms_annotations := [],
     ms_params := map (\<lambda>p. p\<lparr>mp_annotations := []\<rparr>) (ms_params m)\<rparr>"

definition strip_class :: "class_metadata \<Rightarrow> class_metadata" where
  "strip_class c = c\<lparr>cm_annotations := [], cm_methods := map strip_method (cm_methods c),
     cm_fields := map (\<lambda>f. f\<lparr>fs_annotations := []\<rparr>) (cm_fields c)\<rparr>"

lemma strip_method_simps [simp]:
  "ms_name (strip_method m) = ms_name m" "method_desc (strip_method m) = method_desc m"
  "ms_access_flags (strip_method m) = ms_access_flags m"
  by (simp_all add: strip_method_def method_desc_def comp_def)

lemma name_params_own:
  "name_params (map (\<lambda>p. \<lparr>mp_descriptor = mp_descriptor p, mp_name = [], mp_annotations = []\<rparr>) ps)
     (param_names ps) = map (\<lambda>p. p\<lparr>mp_annotations := []\<rparr>) (ps :: method_params)"
  by (rule nth_equalityI) (simp_all add: name_params_def param_names_def)

lemma materialize_method_of_summary:
  assumes "method_descriptors_ok m"
  shows "materialize_method_stub (from_method_summary m) = Inr (strip_method m)"
proof -
  have "from_method_descriptor (method_desc m)
      = Inr (map (\<lambda>p. \<lparr>mp_descriptor = mp_descriptor p, mp_name = [], mp_annotations = []\<rparr>) (ms_params m))"
    using split_params_of_desc [of m] assms
    by (simp add: from_method_descriptor_def method_descriptors_ok_def comp_def)
  then show ?thesis
    using name_params_own [of "ms_params m"] return_type_of_desc [OF assms]
    by (simp add: materialize_method_stub_def from_method_summary_def from_descriptor_and_names_def
          strip_method_def)
qed

lemma materialize_field_of_summary:
  "materialize_field_stub (from_field_summary f) = f\<lparr>fs_annotations := []\<rparr>"
  by (simp add: materialize_field_stub_def from_field_summary_def)

lemma materialize_methods_of_class:
  assumes "class_descriptors_ok c"
  shows "try_map materialize_method_stub (sc_methods (from_class_metadata c))
       = Inr (map strip_method (cm_methods c))"
  using assms
proof (cases c)
  case (fields)
  have "list_all method_descriptors_ok ms \<Longrightarrow>
      try_map materialize_method_stub (map from_method_summary ms) = Inr (map strip_method ms)" for ms
    by (induction ms) (auto simp: materialize_method_of_summary)
  then show ?thesis using assms by (simp add: from_class_metadata_def class_descriptors_ok_def)
qed

lemma map_filter_enum:
  "List.map_filter (\<lambda>item. case item of AEnum _ n \<Rightarrow> Some n | _ \<Rightarrow> None) (map (AEnum t) ns) = ns"
  by (induction ns) (auto simp: map_filter_simps)

lemma targets_of_materialized:
  assumes "cm_annotations c = materialize_annotations s"
  shows "annotation_targets c = sc_annotation_targets s"
    "annotation_retention c = sc_annotation_retention s"
proof -
  have ne: "TARGET_INTERNAL \<noteq> RETENTION_INTERNAL" "RETENTION_INTERNAL \<noteq> TARGET_INTERNAL"
    by (simp_all add: TARGET_INTERNAL_def RETENTION_INTERNAL_def)
  show "annotation_targets c = sc_annotation_targets s"
    using assms ne
    by (auto simp: annotation_targets_def materialize_annotations_def map_filter_enum length_Suc_conv
             split: option.splits)
  show "annotation_retention c = sc_annotation_retention s"
    using assms ne
    by (auto simp: annotation_retention_def materialize_annotations_def split: option.splits)
qed

text \<open>What \<open>materialize\<close> returns on the stub of a class with well-formed descriptors.\<close>

definition archived :: "class_metadata \<Rightarrow> class_metadata" where
  "archived c = (strip_class c)\<lparr>cm_annotations := materialize_annotations (from_class_metadata c)\<rparr>"

lemma materialize_from_class:
  "class_descriptors_ok c \<Longrightarrow> materialize (from_class_metadata c) = Inr (archived c)"
  using materialize_methods_of_class [of c]
  by (simp add: materialize_def archived_def strip_class_def)
     (simp add: from_class_metadata_def comp_def materialize_field_of_summary)

lemma archived_simps [simp]:
  "cm_internal_name (archived c) = cm_internal_name c" "cm_name (archived c) = cm_name c"
  "cm_package (archived c) = cm_package c" "cm_inner_class_of (archived c) = cm_inner_class_of c"
  "cm_origin (archived c) = cm_origin c" "cm_super_name (archived c) = cm_super_name c"
  "cm_interfaces (archived c) = cm_interfaces c"
  by (simp_all add: archived_def strip_class_def)

lemma materialize_simps:
  assumes "materialize s = Inr c"
  shows "cm_internal_name c = sc_internal_name s" "cm_name c = sc_name s" "cm_package c = sc_package s"
    "cm_inner_class_of c = sc_inner_class_of s" "cm_origin c = sc_origin s"
    "cm_super_name c = sc_super_name s" "cm_interfaces c = sc_interfaces s"
    "cm_access_flags c = sc_access_flags s" "cm_annotations c = materialize_annotations s"
  using assms by (auto simp: materialize_def map_ok_Inr)

subsection \<open>Properties\<close>

text \<open>
  C21. Archiving a class and rebuilding it loses exactly its annotations: with well-formed
  descriptors the rebuilding does not panic, everything else of the class, its methods
  (parameter names and return types included) and its fields comes back, and the targets and the
  retention of an annotation type can still be read from the result.
\<close>

theorem archive_stub_roundtrip:
  assumes "class_descriptors_ok c"
  shows "\<exists>d. materialize (from_class_metadata c) = Inr d \<and> strip_class d = strip_class c
    \<and> annotation_targets d = annotation_targets c
    \<and> annotation_retention d = annotation_retention c"
proof (intro exI conjI)
  show "materialize (from_class_metadata c) = Inr (archived c)"
    using assms by (rule materialize_from_class)
  show "strip_class (archived c) = strip_class c"
    by (simp add: archived_def strip_class_def strip_method_def comp_def)
  have "cm_annotations (archived c) = materialize_annotations (from_class_metadata c)"
    by (simp add: archived_def)
  from targets_of_materialized [OF this]
  show "annotation_targets (archived c) = annotation_targets c"
    "annotation_retention (archived c) = annotation_retention c"
    by (simp_all add: from_class_metadata_def)
qed

theorem archive_stub_roundtrip_witness:
  "\<exists>d. materialize (from_class_metadata
      ((plain_class (Some ''p'') ''Marker'' ''p/Marker'' (Jar ''x.jar''))
        \<lparr>cm_methods := [plain_method ''f'' [(''I'', ''n''), (''[Ljava/lang/String;'', ''names'')] None],
         cm_annotations := [AnnotationSummary TARGET_INTERNAL True
           [(''value'', AArray [AEnum ''E'' ''TYPE'', AEnum ''E'' ''METHOD''])]]\<rparr>)) = Inr d
    \<and> annotation_targets d = Some [''TYPE'', ''METHOD'']
    \<and> map (map mp_name \<circ> ms_params) (cm_methods (strip_class d)) = [[''n'', ''names'']]"
proof -
  let ?c = "(plain_class (Some ''p'') ''Marker'' ''p/Marker'' (Jar ''x.jar''))
        \<lparr>cm_methods := [plain_method ''f'' [(''I'', ''n''), (''[Ljava/lang/String;'', ''names'')] None],
         cm_annotations := [AnnotationSummary TARGET_INTERNAL True
           [(''value'', AArray [AEnum ''E'' ''TYPE'', AEnum ''E'' ''METHOD''])]]\<rparr>"
  have "class_descriptors_ok ?c"
    by (simp add: class_descriptors_ok_def method_descriptors_ok_def plain_method_def)
  from archive_stub_roundtrip [OF this] obtain d where
    "materialize (from_class_metadata ?c) = Inr d" "strip_class d = strip_class ?c"
    "annotation_targets d = annotation_targets ?c" by blast
  moreover have "annotation_targets ?c = Some [''TYPE'', ''METHOD'']"
    by (simp add: annotation_targets_def map_filter_simps)
  moreover have "map (map mp_name \<circ> ms_params) (cm_methods (strip_class ?c)) = [[''n'', ''names'']]"
    by (simp add: strip_class_def strip_method_def plain_method_def)
  ultimately show ?thesis by auto
qed

end
