(* ===== verification/Class_Source.thy ===== *)
theory Class_Source
  imports Archive_Stub "HOL-Library.Product_Lexorder"
begin

text \<open>
  What a collection of classes offers to its clients. Buckets (\<open>index/bucket.rs\<close>), artifact
  readers (\<open>index/artifact_reader.rs\<close>) and views (\<open>index/view.rs\<close>) all look classes up by
  internal name, list them by simple name, package and owner, and walk the class hierarchy with
  the same loop. The locale \<open>class_lookup\<close> states the contract of the look-up by internal name, and
  the theorems on hierarchies are proved in it once; \<open>class_source\<close> extends it by the contract of
  the secondary look-ups.
\<close>

subsection \<open>Shared pieces of the look-ups\<close>

abbreviation slashed :: "str \<Rightarrow> str" where
  "slashed \<equiv> replace_char (CHR ''.'') (CHR ''/'')"

text \<open>
  Fuzzy search: \<open>score query name\<close> is the score of the matcher, if the name matches. The order is
  by decreasing score, then by name.
\<close>

definition fuzzy_rank ::
  "(str \<Rightarrow> str \<Rightarrow> 32 word option) \<Rightarrow> str list \<Rightarrow> str \<Rightarrow> nat \<Rightarrow> str list" where
  "fuzzy_rank score names query limit =
     (if limit = 0 then []
      else if query = [] then take limit (sort names)
      else map fst (take limit (sort_key (\<lambda>(name, sc). (- uint sc, name))
             (List.map_filter (\<lambda>name. map_option (Pair name) (score query name)) names))))"

subsection \<open>Secondary indexes\<close>

text \<open>
  A secondary index maps a key to the slots of the records with that key. \<open>proj\<close> gives the key of
  a record, if it has one, and \<open>m\<close> the record in each slot.
\<close>

definition trim_id_index :: "('k, 'i list) hash_map \<Rightarrow> 'k \<Rightarrow> 'i \<Rightarrow> ('k, 'i list) hash_map" where
  "trim_id_index idx key class_id =
     (case hget idx key of
        None \<Rightarrow> idx
      | Some ids \<Rightarrow>
          (let ids' = filter (\<lambda>candidate. candidate \<noteq> class_id) ids
           in if ids' = [] then hremove key idx else hinsert key ids' idx))"

definition ids_of :: "('k, 'i list) hash_map \<Rightarrow> 'k \<Rightarrow> 'i list" where
  "ids_of idx k = (case hget idx k of None \<Rightarrow> [] | Some ids \<Rightarrow> ids)"

definition index_ok :: "('r \<Rightarrow> 'k option) \<Rightarrow> ('k, 'i list) hash_map \<Rightarrow> ('i \<Rightarrow> 'r option) \<Rightarrow> bool" where
  "index_ok proj idx m \<longleftrightarrow> (\<forall>k. distinct (ids_of idx k) \<and> hget idx k \<noteq> Some [] \<and>
     set (ids_of idx k) = {i. \<exists>r. m i = Some r \<and> proj r = Some k})"

definition trim_opt :: "('k, 'i list) hash_map \<Rightarrow> 'k option \<Rightarrow> 'i \<Rightarrow> ('k, 'i list) hash_map" where
  "trim_opt idx k i = (case k of None \<Rightarrow> idx | Some k \<Rightarrow> trim_id_index idx k i)"

definition push_opt :: "('k, 'i list) hash_map \<Rightarrow> 'k option \<Rightarrow> 'i \<Rightarrow> ('k, 'i list) hash_map" where
  "push_opt idx k i = (case k of None \<Rightarrow> idx | Some k \<Rightarrow> hpush k i idx)"

lemma ids_of_trim:
  "ids_of (trim_id_index idx k i) k' = (if k' = k then filter (\<lambda>j. j \<noteq> i) (ids_of idx k) else ids_of idx k')"
  by (auto simp: ids_of_def trim_id_index_def Let_def split: option.splits)

lemma trim_not_empty:
  "hget idx k' \<noteq> Some [] \<Longrightarrow> hget (trim_id_index idx k i) k' \<noteq> Some []"
  by (auto simp: trim_id_index_def Let_def split: option.splits)

lemma ids_of_push: "ids_of (hpush k i idx) k' = (if k' = k then ids_of idx k @ [i] else ids_of idx k')"
  by (simp add: ids_of_def hget_hpush)

lemma index_ok_empty [simp]: "index_ok proj [] (\<lambda>_. None)"
  by (simp add: index_ok_def ids_of_def)

lemma index_ok_remove:
  assumes "index_ok proj idx m" "m i = Some r"
  shows "index_ok proj (trim_opt idx (proj r) i) (m(i := None))"
proof (cases "proj r")
  case None
  with assms show ?thesis by (fastforce simp: index_ok_def trim_opt_def)
next
  case (Some k)
  then show ?thesis
    using assms trim_not_empty [of idx _ k i]
    by (auto simp: index_ok_def trim_opt_def ids_of_trim)
qed

lemma index_ok_insert:
  assumes "index_ok proj idx m" "m i = None"
  shows "index_ok proj (push_opt idx (proj r) i) (m(i \<mapsto> r))"
proof (cases "proj r")
  case None
  with assms show ?thesis by (auto simp: index_ok_def push_opt_def)
next
  case (Some k)
  then have "i \<notin> set (ids_of idx k)" using assms by (auto simp: index_ok_def)
  with Some show ?thesis
    using assms by (auto simp: index_ok_def push_opt_def ids_of_push hget_hpush)
qed

text \<open>Removing a whole entry together with the slots it lists.\<close>

lemma index_ok_remove_entry:
  assumes "index_ok proj idx m" "set is = set (ids_of idx k)"
  shows "index_ok proj (hremove k idx) (\<lambda>i. if i \<in> set is then None else m i)"
  using assms by (auto simp: index_ok_def ids_of_def split: if_splits)

subsection \<open>Hierarchies and inherited members\<close>

text \<open>The names that the hierarchy loops push for a class: superclass, then interfaces.\<close>

definition supertypes :: "class_metadata \<Rightarrow> str list" where
  "supertypes c =
     (case cm_super_name c of None \<Rightarrow> [] | Some n \<Rightarrow> if n = [] then [] else [n])
     @ filter (\<lambda>n. n \<noteq> []) (cm_interfaces c)"

text \<open>The classes of a hierarchy in the order of the loop of \<open>mro\<close>.\<close>

definition hierarchy :: "str list \<Rightarrow> (str \<Rightarrow> class_metadata option) \<Rightarrow> str \<Rightarrow> class_metadata list" where
  "hierarchy keys get class_internal =
     bfs keys get supertypes (\<lambda>_ c result. result @ [c]) [class_internal] {} []"

type_synonym members = "method_summary list \<times> field_summary list"

text \<open>The members of one class that no class before it declared.\<close>

type_synonym member_acc =
  "members \<times> (str \<times> str) set \<times> str set"

definition add_method :: "method_summary \<Rightarrow> method_summary list \<times> (str \<times> str) set
    \<Rightarrow> method_summary list \<times> (str \<times> str) set" where
  "add_method m = (\<lambda>(ms, seen).
     if (ms_name m, method_desc m) \<in> seen then (ms, seen)
     else (ms @ [m], insert (ms_name m, method_desc m) seen))"

definition add_field :: "field_summary \<Rightarrow> field_summary list \<times> str set
    \<Rightarrow> field_summary list \<times> str set" where
  "add_field f = (\<lambda>(fs, seen).
     if fs_name f \<in> seen then (fs, seen) else (fs @ [f], insert (fs_name f) seen))"

definition add_members :: "class_metadata \<Rightarrow> member_acc \<Rightarrow> member_acc" where
  "add_members c = (\<lambda>((ms, fs), seen_m, seen_f).
     (let (ms', seen_m') = fold add_method (cm_methods c) (ms, seen_m);
          (fs', seen_f') = fold add_field (cm_fields c) (fs, seen_f)
      in ((ms', fs'), seen_m', seen_f')))"

text \<open>The loop of \<open>collect_inherited_members\<close>.\<close>

definition members_loop :: "str list \<Rightarrow> (str \<Rightarrow> class_metadata option) \<Rightarrow> str \<Rightarrow> members" where
  "members_loop keys get class_internal =
     fst (bfs keys get supertypes (\<lambda>_. add_members) [class_internal] {} (([], []), {}, {}))"

text \<open>The first element of a list for each key, in order.\<close>

fun first_by :: "('a \<Rightarrow> 'k) \<Rightarrow> 'k set \<Rightarrow> 'a list \<Rightarrow> 'a list" where
  "first_by key seen [] = []"
| "first_by key seen (x # xs) =
     (if key x \<in> seen then first_by key seen xs else x # first_by key (insert (key x) seen) xs)"

definition method_key :: "method_summary \<Rightarrow> str \<times> str" where
  "method_key m = (ms_name m, method_desc m)"

lemma first_by_append:
  "first_by key seen (xs @ ys) = first_by key seen xs @ first_by key (seen \<union> key ` set xs) ys"
  by (induction xs arbitrary: seen) (auto simp: insert_absorb)

lemma first_by_keys: "key ` set (first_by key seen xs) = key ` set xs - seen"
  by (induction xs arbitrary: seen) auto

lemma first_by_distinct: "distinct (map key (first_by key seen xs))"
proof (induction xs arbitrary: seen)
  case (Cons x xs)
  then show ?case using first_by_keys [of key "insert (key x) seen" xs] by auto
qed simp

lemma first_by_find:
  "x \<in> set (first_by key seen xs) \<longleftrightarrow> key x \<notin> seen \<and> find (\<lambda>y. key y = key x) xs = Some x"
  by (induction xs arbitrary: seen) auto

lemma fold_add_method:
  "fold add_method xs (ms, seen) = (ms @ first_by method_key seen xs, seen \<union> method_key ` set xs)"
  by (induction xs arbitrary: ms seen) (auto simp: add_method_def method_key_def insert_absorb)

lemma fold_add_field:
  "fold add_field xs (fs, seen) = (fs @ first_by fs_name seen xs, seen \<union> fs_name ` set xs)"
  by (induction xs arbitrary: fs seen) (auto simp: add_field_def insert_absorb)

lemma fold_add_members:
  "fold add_members cs ((ms, fs), sm, sf) =
     ((ms @ first_by method_key sm (concat (map cm_methods cs)),
       fs @ first_by fs_name sf (concat (map cm_fields cs))),
      sm \<union> method_key ` set (concat (map cm_methods cs)),
      sf \<union> fs_name ` set (concat (map cm_fields cs)))"
  by (induction cs arbitrary: ms fs sm sf)
     (auto simp: add_members_def fold_add_method fold_add_field first_by_append image_Un Un_assoc)

lemma fold_snoc: "fold (\<lambda>k result. result @ [f k]) ks acc = acc @ map f ks"
  by (induction ks arbitrary: acc) auto

lemma hierarchy_visits:
  "hierarchy keys get n = map (the \<circ> get) (visits keys get supertypes [n] {})"
  by (simp add: hierarchy_def bfs_eq_fold fold_snoc comp_def)

text \<open>The members loop visits the classes of the hierarchy and keeps the first of each key.\<close>

lemma members_loop_eq:
  "members_loop keys get n =
     (first_by method_key {} (concat (map cm_methods (hierarchy keys get n))),
      first_by fs_name {} (concat (map cm_fields (hierarchy keys get n))))"
proof -
  have "fold (\<lambda>k. add_members (the (get k))) ks acc = fold add_members (map (the \<circ> get) ks) acc" for ks acc
    by (induction ks arbitrary: acc) auto
  then show ?thesis
    by (simp add: members_loop_def bfs_eq_fold hierarchy_visits fold_add_members)
qed

subsection \<open>The interface\<close>

abbreviation super_rel :: "(str \<Rightarrow> class_metadata option) \<Rightarrow> (str \<times> str) set" where
  "super_rel get \<equiv> succ_rel get supertypes"

text \<open>The classes, among those that \<open>get\<close> knows, with a property.\<close>

definition classes_with ::
  "(str \<Rightarrow> class_metadata option) \<Rightarrow> (class_metadata \<Rightarrow> bool) \<Rightarrow> class_metadata set" where
  "classes_with get P = {c. (\<exists>n. get n = Some c) \<and> P c}"

locale class_lookup =
  fixes inv :: "'s \<Rightarrow> bool"
    and get :: "'s \<Rightarrow> str \<Rightarrow> class_metadata option"
    and keys :: "'s \<Rightarrow> str list"
  assumes get_name: "inv s \<Longrightarrow> get s n = Some c \<Longrightarrow> cm_internal_name c = n"
    and keys_dom: "inv s \<Longrightarrow> set (keys s) = dom (get s)"
begin

lemma visited_class:
  assumes "inv s" "k \<in> set (visits (keys s) (get s) supertypes [n] {})"
  shows "get s k = Some (the (get s k))" "cm_internal_name (the (get s k)) = k"
  using assms visits_dom [of "keys s" "get s" supertypes "[n]" "{}"] get_name by auto

text \<open>The hierarchy of a class: every known class above it, each once, the class itself first.\<close>

lemma hierarchy_set:
  assumes "inv s"
  shows "set (hierarchy (keys s) (get s) n) =
    {c. \<exists>m. (n, m) \<in> (super_rel (get s))\<^sup>* \<and> get s m = Some c}"
proof -
  have "set (visits (keys s) (get s) supertypes [n] {})
      = {m \<in> dom (get s). (n, m) \<in> (super_rel (get s))\<^sup>*}"
    using set_visits_reachable [of "get s" "keys s" supertypes n] keys_dom [OF assms] by simp
  then show ?thesis by (auto simp: hierarchy_visits intro: rev_image_eqI)
qed

lemma hierarchy_distinct:
  assumes "inv s"
  shows "distinct (map cm_internal_name (hierarchy (keys s) (get s) n))"
proof -
  have "map cm_internal_name (hierarchy (keys s) (get s) n)
      = visits (keys s) (get s) supertypes [n] {}"
    using visited_class(2) [OF assms, of _ n] by (auto simp: hierarchy_visits intro: map_idI)
  then show ?thesis using visits_distinct by metis
qed

lemma hierarchy_head:
  assumes "inv s"
  shows "get s n = Some c \<Longrightarrow> \<exists>cs. hierarchy (keys s) (get s) n = c # cs"
    and "get s n = None \<Longrightarrow> hierarchy (keys s) (get s) n = []"
  using keys_dom [OF assms] by (auto simp: hierarchy_visits visits_simps)

end

locale class_source = class_lookup inv get keys
  for inv :: "'s \<Rightarrow> bool" and get :: "'s \<Rightarrow> str \<Rightarrow> class_metadata option" and keys :: "'s \<Rightarrow> str list" +
  fixes by_simple in_package inner_of :: "'s \<Rightarrow> str \<Rightarrow> class_metadata list"
  assumes by_simple_set: "inv s \<Longrightarrow> set (by_simple s k) = classes_with (get s) (\<lambda>c. cm_name c = k)"
    and in_package_set:
      "inv s \<Longrightarrow> set (in_package s p) = classes_with (get s) (\<lambda>c. cm_package c = Some (slashed p))"
    and inner_of_set:
      "inv s \<Longrightarrow> set (inner_of s k) = classes_with (get s) (\<lambda>c. cm_inner_class_of c = Some k)"
begin

text \<open>A direct inner class found by owner and simple name.\<close>

lemma inner_by_name:
  assumes "inv s" "find (\<lambda>c. matches_simple_name c k) (inner_of s ow) = Some c"
  shows "get s (cm_internal_name c) = Some c" "cm_inner_class_of c = Some ow" "cm_name c = k"
  using find_SomeD [OF assms(2)] inner_of_set [OF assms(1), of ow] get_name [OF assms(1)]
  by (auto simp: classes_with_def matches_simple_name_def direct_name_def)

lemma inner_by_name_complete:
  assumes "inv s" "get s n = Some c" "cm_inner_class_of c = Some ow" "cm_name c = k"
  shows "find (\<lambda>c. matches_simple_name c k) (inner_of s ow) \<noteq> None"
  using inner_of_set [OF assms(1), of ow] assms
  by (auto simp: find_None_iff classes_with_def matches_simple_name_def direct_name_def)

end

end
