(* ===== verification/Bucket_Index.thy ===== *)
theory Bucket_Index
  imports Class_Source
begin

text \<open>
  The in-memory class index of one origin group (\<open>index/bucket.rs\<close>): a slot vector of stored
  classes with a stack of free slots, the map from internal names to slots, secondary indexes by
  simple name, package, owner and origin, declaration ranges, modules, and a cache of inherited
  members.

  \<^item> The record \<open>bucket_state\<close> is \<open>BucketState\<close>; each public method of \<open>BucketIndex\<close> is one
    definition \<open>bucket_<method>\<close> on it. A method runs under the lock of the bucket, or takes it
    once per step, and the model is its sequential behaviour; \<open>bucket_collect_publish\<close> at the end
    splits the one method that computes outside the lock into its two critical sections.
  \<^item> The cell \<open>materialized\<close> of an archive class is filled on the first read. The model fills it
    when the class is stored, so a panic of \<open>materialize\<close> shows there.
  \<^item> The cache is an \<open>LruCache\<close> of the crate \<open>lru\<close> and a parameter (\<open>lru_ops\<close>); what the index
    relies on is \<open>lru_laws\<close>: a cleared cache is empty, and storing an entry never invents another.
    The score of a fuzzy match (crate \<open>nucleo_matcher\<close>) is a parameter as well.
\<close>

subsection \<open>State\<close>

datatype stored_class_body =
    Rich class_metadata
  | ArchiveStub (ab_stub: archive_class_stub) (ab_materialized: class_metadata)

record stored_class =
  st_internal_name :: str
  st_name :: str
  st_package :: "str option"
  st_inner_class_of :: "str option"
  st_origin :: class_origin
  st_body :: stored_class_body

definition from_metadata :: "class_metadata \<Rightarrow> stored_class" where
  "from_metadata c =
     \<lparr>st_internal_name = cm_internal_name c, st_name = cm_name c, st_package = cm_package c,
      st_inner_class_of = cm_inner_class_of c, st_origin = cm_origin c, st_body = Rich c\<rparr>"

definition from_archive_stub :: "archive_class_stub \<Rightarrow> rust_panic + stored_class" where
  "from_archive_stub stub =
     map_ok (\<lambda>c. \<lparr>st_internal_name = sc_internal_name stub, st_name = sc_name stub,
        st_package = sc_package stub, st_inner_class_of = sc_inner_class_of stub,
        st_origin = sc_origin stub, st_body = ArchiveStub stub c\<rparr>) (materialize stub)"

definition stored_materialize :: "stored_class \<Rightarrow> class_metadata" where
  "stored_materialize st = (case st_body st of Rich c \<Rightarrow> c | ArchiveStub _ c \<Rightarrow> c)"

record 'c lru_ops =
  lru_new :: 'c
  lru_peek :: "'c \<Rightarrow> str \<Rightarrow> members option"
  lru_put :: "'c \<Rightarrow> str \<Rightarrow> members \<Rightarrow> 'c"
  lru_clear :: "'c \<Rightarrow> 'c"
  lru_len :: "'c \<Rightarrow> nat"

definition lru_laws :: "('c, 'm) lru_ops_scheme \<Rightarrow> bool" where
  "lru_laws L \<longleftrightarrow> (\<forall>k. lru_peek L (lru_new L) k = None) \<and>
     (\<forall>c k. lru_peek L (lru_clear L c) k = None) \<and>
     (\<forall>c k v k' w. lru_peek L (lru_put L c k v) k' = Some w \<longrightarrow>
        (k' = k \<and> w = v) \<or> lru_peek L c k' = Some w)"

record 'c bucket_state =
  bk_classes :: "stored_class option list"
  bk_free_class_ids :: "nat list"
  bk_by_internal :: "(str, nat) hash_map"
  bk_modules :: "(str, indexed_java_module) hash_map"
  bk_by_origin :: "(class_origin, nat list) hash_map"
  bk_type_ranges :: "(str, source_range) hash_map"
  bk_method_ranges :: "(str \<times> str \<times> str, source_range) hash_map"
  bk_field_ranges :: "(str \<times> str, source_range) hash_map"
  bk_simple_name_index :: "(str, nat list) hash_map"
  bk_package_index :: "(str, nat list) hash_map"
  bk_owner_index :: "(str, nat list) hash_map"
  bk_mro_cache :: 'c

definition bucket_new :: "'c lru_ops \<Rightarrow> 'c bucket_state" where
  "bucket_new L =
     \<lparr>bk_classes = [], bk_free_class_ids = [], bk_by_internal = [], bk_modules = [],
      bk_by_origin = [], bk_type_ranges = [], bk_method_ranges = [], bk_field_ranges = [],
      bk_simple_name_index = [], bk_package_index = [], bk_owner_index = [],
      bk_mro_cache = lru_new L\<rparr>"

text \<open>\<open>classes.get(id).and_then(|c| c.as_ref())\<close>\<close>

definition slots :: "'r option list \<Rightarrow> nat \<Rightarrow> 'r option" where
  "slots cls i = (if i < length cls then cls ! i else None)"

subsection \<open>Removing a class\<close>

definition remove_declarations_for_class :: "'c bucket_state \<Rightarrow> stored_class \<Rightarrow> 'c bucket_state" where
  "remove_declarations_for_class s st =
     (let c = stored_materialize st
      in s\<lparr>bk_type_ranges := hremove (st_internal_name st) (bk_type_ranges s),
           bk_method_ranges := fold (\<lambda>m. hremove (st_internal_name st, ms_name m, method_desc m))
             (cm_methods c) (bk_method_ranges s),
           bk_field_ranges := fold (\<lambda>f. hremove (st_internal_name st, fs_name f))
             (cm_fields c) (bk_field_ranges s)\<rparr>)"

definition detach_class :: "'c bucket_state \<Rightarrow> nat \<Rightarrow> 'c bucket_state \<times> stored_class option" where
  "detach_class s class_id =
     (case slots (bk_classes s) class_id of
        None \<Rightarrow> (s, None)
      | Some st \<Rightarrow>
          (let s1 = s\<lparr>bk_classes := (bk_classes s)[class_id := None]\<rparr>;
               s2 = (if hget (bk_by_internal s1) (st_internal_name st) = Some class_id
                     then s1\<lparr>bk_by_internal := hremove (st_internal_name st) (bk_by_internal s1)\<rparr>
                     else s1);
               s3 = remove_declarations_for_class s2 st;
               s4 = s3\<lparr>bk_simple_name_index :=
                      trim_id_index (bk_simple_name_index s3) (st_name st) class_id\<rparr>;
               s5 = (case st_package st of
                       None \<Rightarrow> s4
                     | Some pkg \<Rightarrow>
                         s4\<lparr>bk_package_index := trim_id_index (bk_package_index s4) pkg class_id\<rparr>);
               s6 = (case st_inner_class_of st of
                       None \<Rightarrow> s5
                     | Some owner_name \<Rightarrow>
                         s5\<lparr>bk_owner_index := trim_id_index (bk_owner_index s5) owner_name class_id\<rparr>)
           in (s6\<lparr>bk_free_class_ids := bk_free_class_ids s6 @ [class_id]\<rparr>, Some st)))"

definition remove_class_by_id :: "'c bucket_state \<Rightarrow> nat \<Rightarrow> 'c bucket_state \<times> bool" where
  "remove_class_by_id s class_id =
     (case detach_class s class_id of
        (s', None) \<Rightarrow> (s', False)
      | (s', Some st) \<Rightarrow>
          (s'\<lparr>bk_by_origin := trim_id_index (bk_by_origin s') (st_origin st) class_id\<rparr>, True))"

definition bucket_remove_by_origin ::
  "'c lru_ops \<Rightarrow> 'c bucket_state \<Rightarrow> class_origin \<Rightarrow> bool \<times> 'c bucket_state" where
  "bucket_remove_by_origin L s origin =
     (case hget (bk_by_origin s) origin of
        None \<Rightarrow> (False, s)
      | Some class_ids \<Rightarrow>
          (let s' = fold (\<lambda>i t. fst (detach_class t i)) class_ids
                      (s\<lparr>bk_by_origin := hremove origin (bk_by_origin s)\<rparr>)
           in (True, s'\<lparr>bk_mro_cache := lru_clear L (bk_mro_cache s')\<rparr>)))"

subsection \<open>Inserting classes\<close>

definition insert_declarations_for_metadata ::
  "'c bucket_state \<Rightarrow> class_metadata \<Rightarrow> declaration_batch option \<Rightarrow> 'c bucket_state" where
  "insert_declarations_for_metadata s c declarations =
     (case declarations of
        None \<Rightarrow> s
      | Some d \<Rightarrow>
          (let n = cm_internal_name c
           in s\<lparr>bk_type_ranges :=
                  (case type_range d n of
                     None \<Rightarrow> bk_type_ranges s | Some r \<Rightarrow> hinsert n r (bk_type_ranges s)),
                bk_method_ranges :=
                  fold (\<lambda>m rs. case method_range d n (ms_name m) (method_desc m) of
                                 None \<Rightarrow> rs
                               | Some r \<Rightarrow> hinsert (n, ms_name m, method_desc m) r rs)
                    (cm_methods c) (bk_method_ranges s),
                bk_field_ranges :=
                  fold (\<lambda>f rs. case field_range d n (fs_name f) of
                                 None \<Rightarrow> rs | Some r \<Rightarrow> hinsert (n, fs_name f) r rs)
                    (cm_fields c) (bk_field_ranges s)\<rparr>))"

text \<open>
  The slot of a new class: the last one freed, or a new one at the end. Writing to a freed slot
  indexes the vector and would panic out of range.
\<close>

definition alloc_slot :: "'c bucket_state \<Rightarrow> stored_class \<Rightarrow> rust_panic + nat \<times> 'c bucket_state" where
  "alloc_slot s st =
     (if bk_free_class_ids s = [] then
        Inr (length (bk_classes s), s\<lparr>bk_classes := bk_classes s @ [Some st]\<rparr>)
      else
        (let reused_id = last (bk_free_class_ids s)
         in if reused_id < length (bk_classes s)
            then Inr (reused_id, s\<lparr>bk_free_class_ids := butlast (bk_free_class_ids s),
                                  bk_classes := (bk_classes s)[reused_id := Some st]\<rparr>)
            else Inl IndexRange))"

definition insert_record ::
  "'c bucket_state \<Rightarrow> stored_class \<Rightarrow> declaration_batch option \<Rightarrow> rust_panic + 'c bucket_state" where
  "insert_record s st declarations =
     (let declaration_meta = map_option (\<lambda>_. stored_materialize st) declarations;
          s1 = (case hget (bk_by_internal s) (st_internal_name st) of
                  None \<Rightarrow> s | Some existing_id \<Rightarrow> fst (remove_class_by_id s existing_id))
      in and_then (alloc_slot s1 st) (\<lambda>(class_id, s2).
           (let s3 = s2\<lparr>bk_by_internal := hinsert (st_internal_name st) class_id (bk_by_internal s2),
                        bk_simple_name_index := hpush (st_name st) class_id (bk_simple_name_index s2)\<rparr>;
                s4 = (case st_package st of
                        None \<Rightarrow> s3
                      | Some pkg \<Rightarrow> s3\<lparr>bk_package_index := hpush pkg class_id (bk_package_index s3)\<rparr>);
                s5 = (case st_inner_class_of st of
                        None \<Rightarrow> s4
                      | Some owner_name \<Rightarrow>
                          s4\<lparr>bk_owner_index := hpush owner_name class_id (bk_owner_index s4)\<rparr>);
                s6 = s5\<lparr>bk_by_origin := hpush (st_origin st) class_id (bk_by_origin s5)\<rparr>
            in Inr (case declaration_meta of
                      None \<Rightarrow> s6
                    | Some c \<Rightarrow> insert_declarations_for_metadata s6 c declarations))))"

fun insert_records ::
  "'c bucket_state \<Rightarrow> stored_class list \<Rightarrow> declaration_batch option \<Rightarrow> rust_panic + 'c bucket_state" where
  "insert_records s [] declarations = Inr s"
| "insert_records s (st # sts) declarations =
     and_then (insert_record s st declarations) (\<lambda>s'. insert_records s' sts declarations)"

definition clear_mro :: "'c lru_ops \<Rightarrow> 'c bucket_state \<Rightarrow> 'c bucket_state" where
  "clear_mro L s = s\<lparr>bk_mro_cache := lru_clear L (bk_mro_cache s)\<rparr>"

definition bucket_add_classes_with_declarations ::
  "'c lru_ops \<Rightarrow> 'c bucket_state \<Rightarrow> class_metadata list \<Rightarrow> declaration_batch option
     \<Rightarrow> rust_panic + 'c bucket_state" where
  "bucket_add_classes_with_declarations L s classes declarations =
     map_ok (clear_mro L) (insert_records s (map from_metadata classes) declarations)"

definition bucket_add_classes ::
  "'c lru_ops \<Rightarrow> 'c bucket_state \<Rightarrow> class_metadata list \<Rightarrow> rust_panic + 'c bucket_state" where
  "bucket_add_classes L s classes = bucket_add_classes_with_declarations L s classes None"

definition bucket_add_archive_classes ::
  "'c lru_ops \<Rightarrow> 'c bucket_state \<Rightarrow> class_metadata list \<Rightarrow> rust_panic + 'c bucket_state" where
  "bucket_add_archive_classes L s classes =
     and_then (try_map (from_archive_stub \<circ> from_class_metadata) classes)
       (\<lambda>sts. map_ok (clear_mro L) (insert_records s sts None))"

definition bucket_add_modules ::
  "'c bucket_state \<Rightarrow> indexed_java_module list \<Rightarrow> 'c bucket_state" where
  "bucket_add_modules s modules =
     s\<lparr>bk_modules := fold (\<lambda>m. hinsert (indexed_module_name m) m) modules (bk_modules s)\<rparr>"

subsection \<open>Queries\<close>

definition bucket_get_class :: "'c bucket_state \<Rightarrow> str \<Rightarrow> class_metadata option" where
  "bucket_get_class s internal_name =
     (case hget (bk_by_internal s) internal_name of
        None \<Rightarrow> None
      | Some i \<Rightarrow> map_option stored_materialize (slots (bk_classes s) i))"

definition resolve_class_ids :: "'c bucket_state \<Rightarrow> nat list \<Rightarrow> class_metadata list" where
  "resolve_class_ids s ids =
     List.map_filter (\<lambda>i. map_option stored_materialize (slots (bk_classes s) i)) ids"

definition resolve_entry ::
  "'c bucket_state \<Rightarrow> ('k, nat list) hash_map \<Rightarrow> 'k \<Rightarrow> class_metadata list" where
  "resolve_entry s idx key =
     (case hget idx key of None \<Rightarrow> [] | Some ids \<Rightarrow> resolve_class_ids s ids)"

definition bucket_get_module :: "'c bucket_state \<Rightarrow> str \<Rightarrow> indexed_java_module option" where
  "bucket_get_module s name = hget (bk_modules s) name"

definition bucket_get_source_type_name :: "'c bucket_state \<Rightarrow> str \<Rightarrow> str option" where
  "bucket_get_source_type_name s internal =
     map_option (\<lambda>c. qualified_source_name_with c (bucket_get_class s)) (bucket_get_class s internal)"

definition bucket_get_classes_by_simple_name :: "'c bucket_state \<Rightarrow> str \<Rightarrow> class_metadata list" where
  "bucket_get_classes_by_simple_name s simple = resolve_entry s (bk_simple_name_index s) simple"

definition bucket_direct_inner_classes_by_owner :: "'c bucket_state \<Rightarrow> str \<Rightarrow> class_metadata list" where
  "bucket_direct_inner_classes_by_owner s owner = resolve_entry s (bk_owner_index s) owner"

definition bucket_direct_inner_classes_of :: "'c bucket_state \<Rightarrow> str \<Rightarrow> class_metadata list" where
  "bucket_direct_inner_classes_of s owner = bucket_direct_inner_classes_by_owner s owner"

definition bucket_resolve_direct_inner_class ::
  "'c bucket_state \<Rightarrow> str \<Rightarrow> str \<Rightarrow> class_metadata option" where
  "bucket_resolve_direct_inner_class s owner simple =
     find (\<lambda>c. matches_simple_name c simple) (bucket_direct_inner_classes_of s owner)"

definition bucket_classes_in_package :: "'c bucket_state \<Rightarrow> str \<Rightarrow> class_metadata list" where
  "bucket_classes_in_package s pkg = resolve_entry s (bk_package_index s) (slashed pkg)"

definition bucket_has_package :: "'c bucket_state \<Rightarrow> str \<Rightarrow> bool" where
  "bucket_has_package s pkg \<longleftrightarrow> hget (bk_package_index s) (slashed pkg) \<noteq> None"

definition bucket_has_classes_in_package :: "'c bucket_state \<Rightarrow> str \<Rightarrow> bool" where
  "bucket_has_classes_in_package s pkg \<longleftrightarrow>
     (case hget (bk_package_index s) (slashed pkg) of None \<Rightarrow> False | Some ids \<Rightarrow> ids \<noteq> [])"

definition bucket_package_names :: "'c bucket_state \<Rightarrow> str list" where
  "bucket_package_names s = hkeys (bk_package_index s)"

definition bucket_module_names :: "'c bucket_state \<Rightarrow> str list" where
  "bucket_module_names s = hkeys (bk_modules s)"

definition bucket_type_declaration_range :: "'c bucket_state \<Rightarrow> str \<Rightarrow> source_range option" where
  "bucket_type_declaration_range s n = hget (bk_type_ranges s) n"

definition bucket_method_declaration_range ::
  "'c bucket_state \<Rightarrow> str \<Rightarrow> str \<Rightarrow> str \<Rightarrow> source_range option" where
  "bucket_method_declaration_range s owner n desc = hget (bk_method_ranges s) (owner, n, desc)"

definition bucket_field_declaration_range ::
  "'c bucket_state \<Rightarrow> str \<Rightarrow> str \<Rightarrow> source_range option" where
  "bucket_field_declaration_range s owner n = hget (bk_field_ranges s) (owner, n)"

text \<open>\<open>trim_end_matches\<close> with a text as pattern removes every copy at the end.\<close>

function trim_end_matches :: "str \<Rightarrow> str \<Rightarrow> str" where
  "trim_end_matches p s =
     (if p \<noteq> [] \<and> ends_with s p then trim_end_matches p (take (length s - length p) s) else s)"
  by pat_completeness auto
termination
  by (relation "measure (length \<circ> snd)") (auto simp: ends_with_def neq_Nil_conv)

declare trim_end_matches.simps [simp del]

definition resolve_import :: "'c bucket_state \<Rightarrow> str \<Rightarrow> class_metadata list" where
  "resolve_import s import =
     (if ends_with import ''.*'' then
        bucket_classes_in_package s (slashed (trim_end_matches ''.*'' import))
      else (case bucket_get_class s (slashed import) of None \<Rightarrow> [] | Some c \<Rightarrow> [c]))"

definition bucket_resolve_imports :: "'c bucket_state \<Rightarrow> str list \<Rightarrow> class_metadata list" where
  "bucket_resolve_imports s imports = concat (map (resolve_import s) imports)"

definition bucket_exact_match_keys :: "'c bucket_state \<Rightarrow> str list" where
  "bucket_exact_match_keys s = hkeys (bk_by_internal s)"

definition bucket_class_count :: "'c bucket_state \<Rightarrow> nat" where
  "bucket_class_count s = length (bk_by_internal s)"

definition bucket_iter_all_classes :: "'c bucket_state \<Rightarrow> class_metadata list" where
  "bucket_iter_all_classes s = List.map_filter (map_option stored_materialize) (bk_classes s)"

definition bucket_build_name_table :: "'c bucket_state \<Rightarrow> name_table" where
  "bucket_build_name_table s = name_table_from_names (bucket_exact_match_keys s)"

record bucket_stats =
  bs_class_count :: nat
  bs_module_count :: nat
  bs_origin_count :: nat
  bs_simple_name_entry_count :: nat
  bs_package_entry_count :: nat
  bs_owner_entry_count :: nat
  bs_name_table_size :: nat
  bs_mro_cache_entries :: nat

definition bucket_stats_of :: "'c lru_ops \<Rightarrow> 'c bucket_state \<Rightarrow> bucket_stats" where
  "bucket_stats_of L s =
     \<lparr>bs_class_count = length (bk_by_internal s), bs_module_count = length (bk_modules s),
      bs_origin_count = length (bk_by_origin s),
      bs_simple_name_entry_count = length (bk_simple_name_index s),
      bs_package_entry_count = length (bk_package_index s),
      bs_owner_entry_count = length (bk_owner_index s), bs_name_table_size = 0,
      bs_mro_cache_entries = lru_len L (bk_mro_cache s)\<rparr>"

definition bucket_clear_query_caches :: "'c lru_ops \<Rightarrow> 'c bucket_state \<Rightarrow> 'c bucket_state" where
  "bucket_clear_query_caches L s = clear_mro L s"

definition bucket_fuzzy_autocomplete ::
  "(str \<Rightarrow> str \<Rightarrow> 32 word option) \<Rightarrow> 'c bucket_state \<Rightarrow> str \<Rightarrow> nat \<Rightarrow> str list" where
  "bucket_fuzzy_autocomplete score s query limit =
     fuzzy_rank score (hkeys (bk_simple_name_index s)) query limit"

definition bucket_fuzzy_search_classes ::
  "(str \<Rightarrow> str \<Rightarrow> 32 word option) \<Rightarrow> 'c bucket_state \<Rightarrow> str \<Rightarrow> nat \<Rightarrow> class_metadata list" where
  "bucket_fuzzy_search_classes score s query limit =
     (if query = [] then take limit (bucket_iter_all_classes s)
      else concat (map (bucket_get_classes_by_simple_name s)
             (bucket_fuzzy_autocomplete score s query limit)))"

subsection \<open>Class hierarchies\<close>

definition bucket_mro :: "'c bucket_state \<Rightarrow> str \<Rightarrow> class_metadata list" where
  "bucket_mro s class_internal =
     hierarchy (bucket_exact_match_keys s) (bucket_get_class s) class_internal"

text \<open>The computation of \<open>collect_inherited_members\<close> without the cache.\<close>

definition inherited_members :: "'c bucket_state \<Rightarrow> str \<Rightarrow> members" where
  "inherited_members s class_internal =
     members_loop (bucket_exact_match_keys s) (bucket_get_class s) class_internal"

definition bucket_collect_inherited_members ::
  "'c lru_ops \<Rightarrow> 'c bucket_state \<Rightarrow> str \<Rightarrow> members \<times> 'c bucket_state" where
  "bucket_collect_inherited_members L s class_internal =
     (case lru_peek L (bk_mro_cache s) class_internal of
        Some cached \<Rightarrow> (cached, s)
      | None \<Rightarrow>
          (let result = inherited_members s class_internal
           in (result, s\<lparr>bk_mro_cache := lru_put L (bk_mro_cache s) class_internal result\<rparr>)))"

subsection \<open>Updating the classes of a source file\<close>

definition same_classes_for_origin ::
  "'c bucket_state \<Rightarrow> class_origin \<Rightarrow> class_metadata list \<Rightarrow> bool" where
  "same_classes_for_origin s origin classes =
     (case hget (bk_by_origin s) origin of
        None \<Rightarrow> False
      | Some class_ids \<Rightarrow>
          if length class_ids \<noteq> length classes then False
          else list_all2 class_metadata_eq
                 (sort_key cm_internal_name (resolve_class_ids s class_ids))
                 (sort_key cm_internal_name classes))"

definition is_jar :: "class_origin \<Rightarrow> bool" where
  "is_jar origin \<longleftrightarrow> (case origin of Jar _ \<Rightarrow> True | _ \<Rightarrow> False)"

text \<open>A source class does not replace a class that came from a jar.\<close>

definition not_blocked :: "'c bucket_state \<Rightarrow> class_metadata \<Rightarrow> bool" where
  "not_blocked s c \<longleftrightarrow>
     (case bucket_get_class s (cm_internal_name c) of
        None \<Rightarrow> True | Some existing \<Rightarrow> \<not> is_jar (cm_origin existing))"

definition bucket_update_source_with_declarations ::
  "'c lru_ops \<Rightarrow> 'c bucket_state \<Rightarrow> class_origin \<Rightarrow> class_metadata list \<Rightarrow> declaration_batch option
     \<Rightarrow> rust_panic + bool \<times> 'c bucket_state" where
  "bucket_update_source_with_declarations L s origin classes declarations =
     (let filtered = filter (not_blocked s) classes
      in if filtered = [] then Inr (False, s)
         else if same_classes_for_origin s origin filtered then Inr (False, s)
         else map_ok (Pair True)
                (bucket_add_classes_with_declarations L (snd (bucket_remove_by_origin L s origin))
                   filtered declarations))"

definition bucket_update_source ::
  "'c lru_ops \<Rightarrow> 'c bucket_state \<Rightarrow> class_origin \<Rightarrow> class_metadata list
     \<Rightarrow> rust_panic + bool \<times> 'c bucket_state" where
  "bucket_update_source L s origin classes =
     bucket_update_source_with_declarations L s origin classes None"


subsection \<open>Slots\<close>

lemma slots_update: "i < length cls \<Longrightarrow> slots (cls[i := x]) = (slots cls)(i := x)"
  by (auto simp: slots_def fun_eq_iff)

lemma slots_append: "slots (cls @ [Some x]) = (slots cls)(length cls \<mapsto> x)"
  by (auto simp: slots_def fun_eq_iff nth_append less_Suc_eq)

lemma slots_Nil [simp]: "slots [] = (\<lambda>_. None)"
  by (simp add: slots_def fun_eq_iff)

lemma slots_Some: "slots cls i = Some r \<Longrightarrow> i < length cls"
  by (simp add: slots_def split: if_splits)

subsection \<open>Invariant\<close>

text \<open>The header of a stored class repeats the fields of its metadata.\<close>

definition stored_ok :: "stored_class \<Rightarrow> bool" where
  "stored_ok st \<longleftrightarrow> (let c = stored_materialize st in
     cm_internal_name c = st_internal_name st \<and> cm_name c = st_name st \<and>
     cm_package c = st_package st \<and> cm_inner_class_of c = st_inner_class_of st \<and>
     cm_origin c = st_origin st)"

definition declares_method :: "class_metadata \<Rightarrow> str \<Rightarrow> str \<Rightarrow> bool" where
  "declares_method c n d \<longleftrightarrow> (\<exists>m\<in>set (cm_methods c). ms_name m = n \<and> method_desc m = d)"

definition declares_field :: "class_metadata \<Rightarrow> str \<Rightarrow> bool" where
  "declares_field c n \<longleftrightarrow> (\<exists>f\<in>set (cm_fields c). fs_name f = n)"

text \<open>
  The ranges that a bucket keeps are those of declarations of classes it holds (\<open>g\<close> is the
  look-up by internal name).
\<close>

definition ranges_ok :: "(str \<Rightarrow> class_metadata option) \<Rightarrow> 'c bucket_state \<Rightarrow> bool" where
  "ranges_ok g s \<longleftrightarrow>
     (\<forall>n r. hget (bk_type_ranges s) n = Some r \<longrightarrow> (\<exists>c. g n = Some c)) \<and>
     (\<forall>n mn d r. hget (bk_method_ranges s) (n, mn, d) = Some r \<longrightarrow>
        (\<exists>c. g n = Some c \<and> declares_method c mn d)) \<and>
     (\<forall>n fn r. hget (bk_field_ranges s) (n, fn) = Some r \<longrightarrow>
        (\<exists>c. g n = Some c \<and> declares_field c fn))"

definition by_internal_ok :: "(str, nat) hash_map \<Rightarrow> (nat \<Rightarrow> stored_class option) \<Rightarrow> bool" where
  "by_internal_ok bi m \<longleftrightarrow>
     (\<forall>n i. hget bi n = Some i \<longleftrightarrow> (\<exists>st. m i = Some st \<and> st_internal_name st = n))"

text \<open>All of the invariant but the index by origin, over the content \<open>m\<close> of the slots.\<close>

definition core_inv :: "'c bucket_state \<Rightarrow> bool" where
  "core_inv s \<longleftrightarrow> (let m = slots (bk_classes s) in
     (\<forall>st \<in> ran m. stored_ok st) \<and>
     distinct (bk_free_class_ids s) \<and>
     set (bk_free_class_ids s) = {i. i < length (bk_classes s) \<and> m i = None} \<and>
     by_internal_ok (bk_by_internal s) m \<and> hwf (bk_by_internal s) \<and>
     index_ok (Some \<circ> st_name) (bk_simple_name_index s) m \<and>
     index_ok st_package (bk_package_index s) m \<and>
     index_ok st_inner_class_of (bk_owner_index s) m \<and>
     ranges_ok (bucket_get_class s) s)"

definition origin_ok :: "'c bucket_state \<Rightarrow> bool" where
  "origin_ok s \<longleftrightarrow> index_ok (Some \<circ> st_origin) (bk_by_origin s) (slots (bk_classes s))"

definition bucket_inv :: "'c bucket_state \<Rightarrow> bool" where
  "bucket_inv s \<longleftrightarrow> core_inv s \<and> origin_ok s"

lemma bucket_new_inv: "bucket_inv (bucket_new L)"
  by (simp add: bucket_inv_def core_inv_def origin_ok_def bucket_new_def by_internal_ok_def
        ranges_ok_def Let_def)

subsection \<open>The look-up by internal name\<close>

lemma by_internal_iff:
  "core_inv s \<Longrightarrow> hget (bk_by_internal s) n = Some i \<longleftrightarrow>
     (\<exists>st. slots (bk_classes s) i = Some st \<and> st_internal_name st = n)"
  by (simp add: core_inv_def by_internal_ok_def Let_def)

lemma get_class_iff:
  assumes "core_inv s"
  shows "bucket_get_class s n = Some c \<longleftrightarrow>
    (\<exists>i st. slots (bk_classes s) i = Some st \<and> st_internal_name st = n \<and> stored_materialize st = c)"
proof
  assume "bucket_get_class s n = Some c"
  then obtain i st where "hget (bk_by_internal s) n = Some i" "slots (bk_classes s) i = Some st"
    "stored_materialize st = c" by (auto simp: bucket_get_class_def split: option.splits)
  then show "\<exists>i st. slots (bk_classes s) i = Some st \<and> st_internal_name st = n \<and> stored_materialize st = c"
    using by_internal_iff [OF assms] by fastforce
next
  assume "\<exists>i st. slots (bk_classes s) i = Some st \<and> st_internal_name st = n \<and> stored_materialize st = c"
  then obtain i st where st: "slots (bk_classes s) i = Some st" "st_internal_name st = n"
    "stored_materialize st = c" by blast
  then have "hget (bk_by_internal s) n = Some i" using by_internal_iff [OF assms] by blast
  with st show "bucket_get_class s n = Some c" by (simp add: bucket_get_class_def)
qed

lemma get_class_name:
  assumes "core_inv s" "bucket_get_class s n = Some c"
  shows "cm_internal_name c = n"
proof -
  from assms obtain i st where "slots (bk_classes s) i = Some st" "st_internal_name st = n"
    "stored_materialize st = c" by (auto simp: get_class_iff)
  moreover from this assms(1) have "stored_ok st" by (auto simp: core_inv_def Let_def ran_def)
  ultimately show ?thesis by (auto simp: stored_ok_def Let_def)
qed

lemma slot_unique:
  assumes "core_inv s" "slots (bk_classes s) i = Some st" "slots (bk_classes s) j = Some st'"
    "st_internal_name st = st_internal_name st'"
  shows "i = j" "st = st'"
proof -
  have "hget (bk_by_internal s) (st_internal_name st) = Some i"
    "hget (bk_by_internal s) (st_internal_name st) = Some j"
    using assms(2-) by_internal_iff [OF assms(1)] by auto
  then show "i = j" by simp
  then show "st = st'" using assms by simp
qed

text \<open>A slot holds the class with its name.\<close>

lemma slot_get_class:
  assumes "core_inv s" "slots (bk_classes s) i = Some st"
  shows "bucket_get_class s (st_internal_name st) = Some (stored_materialize st)"
  using assms get_class_iff by blast

lemma exact_match_keys_dom:
  assumes "core_inv s"
  shows "set (bucket_exact_match_keys s) = dom (bucket_get_class s)"
proof -
  have "hget (bk_by_internal s) n = None \<longleftrightarrow> bucket_get_class s n = None" for n
  proof (cases "hget (bk_by_internal s) n")
    case (Some i)
    with by_internal_iff [OF assms, of n i] show ?thesis by (auto simp: bucket_get_class_def)
  qed (simp add: bucket_get_class_def)
  then show ?thesis by (auto simp: bucket_exact_match_keys_def dom_def)
qed


subsection \<open>Detaching a class\<close>

lemma hget_fold_hremove:
  "hget (fold (\<lambda>x. hremove (f x)) xs m) k = (if k \<in> f ` set xs then None else hget m k)"
  by (induction xs arbitrary: m) auto

lemma detach_class_eq:
  assumes "slots (bk_classes s) i = Some st" "hget (bk_by_internal s) (st_internal_name st) = Some i"
  shows "detach_class s i = ((remove_declarations_for_class s st)
    \<lparr>bk_classes := (bk_classes s)[i := None],
     bk_by_internal := hremove (st_internal_name st) (bk_by_internal s),
     bk_simple_name_index := trim_opt (bk_simple_name_index s) (Some (st_name st)) i,
     bk_package_index := trim_opt (bk_package_index s) (st_package st) i,
     bk_owner_index := trim_opt (bk_owner_index s) (st_inner_class_of st) i,
     bk_free_class_ids := bk_free_class_ids s @ [i]\<rparr>, Some st)"
  using assms
  by (cases "st_package st"; cases "st_inner_class_of st")
     (simp_all add: detach_class_def remove_declarations_for_class_def Let_def trim_opt_def)

text \<open>The state after \<open>detach_class\<close>, field by field.\<close>

lemma detach_class_fields:
  assumes "slots (bk_classes s) i = Some st" "hget (bk_by_internal s) (st_internal_name st) = Some i"
  defines "s' \<equiv> fst (detach_class s i)"
  shows "snd (detach_class s i) = Some st"
    and "bk_classes s' = (bk_classes s)[i := None]"
    and "bk_free_class_ids s' = bk_free_class_ids s @ [i]"
    and "bk_by_internal s' = hremove (st_internal_name st) (bk_by_internal s)"
    and "bk_modules s' = bk_modules s" and "bk_by_origin s' = bk_by_origin s"
    and "bk_simple_name_index s' = trim_opt (bk_simple_name_index s) (Some (st_name st)) i"
    and "bk_package_index s' = trim_opt (bk_package_index s) (st_package st) i"
    and "bk_owner_index s' = trim_opt (bk_owner_index s) (st_inner_class_of st) i"
    and "bk_mro_cache s' = bk_mro_cache s"
    and "hget (bk_type_ranges s') = (hget (bk_type_ranges s))(st_internal_name st := None)"
    and "hget (bk_method_ranges s') k = (if \<exists>m\<in>set (cm_methods (stored_materialize st)).
      k = (st_internal_name st, ms_name m, method_desc m) then None else hget (bk_method_ranges s) k)"
    and "hget (bk_field_ranges s') k' = (if \<exists>f\<in>set (cm_fields (stored_materialize st)).
      k' = (st_internal_name st, fs_name f) then None else hget (bk_field_ranges s) k')"
  unfolding s'_def detach_class_eq [OF assms(1,2)]
  by (simp_all add: remove_declarations_for_class_def Let_def hget_fold_hremove image_iff)

lemma slot_by_internal:
  "core_inv s \<Longrightarrow> slots (bk_classes s) i = Some st \<Longrightarrow>
     hget (bk_by_internal s) (st_internal_name st) = Some i"
  using by_internal_iff by blast

lemma detach_slots:
  assumes "core_inv s" "slots (bk_classes s) i = Some st"
  shows "slots (bk_classes (fst (detach_class s i))) = (slots (bk_classes s))(i := None)"
  using detach_class_fields(2) [OF assms(2) slot_by_internal [OF assms]] slots_Some [OF assms(2)]
  by (simp add: slots_update)

text \<open>The look-up loses exactly the detached class.\<close>

lemma detach_get_class:
  assumes "core_inv s" "slots (bk_classes s) i = Some st"
  shows "bucket_get_class (fst (detach_class s i)) = (bucket_get_class s)(st_internal_name st := None)"
proof
  fix n
  note f = detach_class_fields(2,4) [OF assms(2) slot_by_internal [OF assms]] detach_slots [OF assms]
  have other: "j \<noteq> i" if "hget (bk_by_internal s) n = Some j" "n \<noteq> st_internal_name st" for j
    using that assms by_internal_iff [OF assms(1), of n j] by auto
  show "bucket_get_class (fst (detach_class s i)) n = ((bucket_get_class s)(st_internal_name st := None)) n"
    using other by (auto simp: bucket_get_class_def f(2,3) split: option.splits)
qed

lemma detach_ranges:
  assumes "core_inv s" "slots (bk_classes s) i = Some st"
  shows "ranges_ok (bucket_get_class (fst (detach_class s i))) (fst (detach_class s i))"
proof -
  note f = detach_class_fields(11-13) [OF assms(2) slot_by_internal [OF assms]]
  note g = detach_get_class [OF assms]
  have own: "bucket_get_class s (st_internal_name st) = Some (stored_materialize st)"
    using slot_get_class [OF assms] .
  have r: "ranges_ok (bucket_get_class s) s" using assms(1) by (simp add: core_inv_def Let_def)
  show ?thesis
    unfolding ranges_ok_def g
  proof (intro conjI allI impI)
    fix n r' assume "hget (bk_type_ranges (fst (detach_class s i))) n = Some r'"
    then show "\<exists>c. ((bucket_get_class s)(st_internal_name st := None)) n = Some c"
      using r by (auto simp: f(1) ranges_ok_def split: if_splits)
  next
    fix n mn d r' assume "hget (bk_method_ranges (fst (detach_class s i))) (n, mn, d) = Some r'"
    then have in_s: "hget (bk_method_ranges s) (n, mn, d) = Some r'"
      and not_own: "n = st_internal_name st \<longrightarrow> \<not> declares_method (stored_materialize st) mn d"
      by (auto simp: f(2) declares_method_def split: if_splits)
    from r in_s obtain c where c: "bucket_get_class s n = Some c" "declares_method c mn d"
      unfolding ranges_ok_def by blast
    with not_own own show
      "\<exists>c. ((bucket_get_class s)(st_internal_name st := None)) n = Some c \<and> declares_method c mn d"
      by auto
  next
    fix n fn r' assume "hget (bk_field_ranges (fst (detach_class s i))) (n, fn) = Some r'"
    then have in_s: "hget (bk_field_ranges s) (n, fn) = Some r'"
      and not_own: "n = st_internal_name st \<longrightarrow> \<not> declares_field (stored_materialize st) fn"
      by (auto simp: f(3) declares_field_def split: if_splits)
    from r in_s obtain c where c: "bucket_get_class s n = Some c" "declares_field c fn"
      unfolding ranges_ok_def by blast
    with not_own own show
      "\<exists>c. ((bucket_get_class s)(st_internal_name st := None)) n = Some c \<and> declares_field c fn"
      by auto
  qed
qed

lemma by_internal_ok_remove:
  assumes "by_internal_ok bi m" "m i = Some st"
  shows "by_internal_ok (hremove (st_internal_name st) bi) (m(i := None))"
  using assms unfolding by_internal_ok_def by (auto, (metis option.inject)+)

lemma by_internal_ok_insert:
  assumes "by_internal_ok bi m" "m i = None" "hget bi (st_internal_name st) = None"
  shows "by_internal_ok (hinsert (st_internal_name st) i bi) (m(i \<mapsto> st))"
  using assms unfolding by_internal_ok_def by (auto, (metis option.distinct(1))+)

lemma detach_core_inv:
  assumes "core_inv s" "slots (bk_classes s) i = Some st"
  shows "core_inv (fst (detach_class s i))"
proof -
  note f = detach_class_fields [OF assms(2) slot_by_internal [OF assms]]
  note m = detach_slots [OF assms]
  note inv = assms(1) [unfolded core_inv_def Let_def]
  have len: "i < length (bk_classes s)" using assms(2) by (rule slots_Some)
  have "i \<notin> set (bk_free_class_ids s)" using inv assms(2) by auto
  then have free: "distinct (bk_free_class_ids s @ [i])" "set (bk_free_class_ids s @ [i])
      = {j. j < length (bk_classes s) \<and> ((slots (bk_classes s))(i := None)) j = None}"
    using inv len by auto
  have idx: "index_ok (Some \<circ> st_name) (trim_opt (bk_simple_name_index s) (Some (st_name st)) i)
        ((slots (bk_classes s))(i := None))"
    "index_ok st_package (trim_opt (bk_package_index s) (st_package st) i) ((slots (bk_classes s))(i := None))"
    "index_ok st_inner_class_of (trim_opt (bk_owner_index s) (st_inner_class_of st) i)
        ((slots (bk_classes s))(i := None))"
    using inv index_ok_remove [of "Some \<circ> st_name" _ "slots (bk_classes s)" i st] assms(2)
      index_ok_remove [of st_package _ "slots (bk_classes s)" i st]
      index_ok_remove [of st_inner_class_of _ "slots (bk_classes s)" i st] by auto
  have "by_internal_ok (hremove (st_internal_name st) (bk_by_internal s)) ((slots (bk_classes s))(i := None))"
    using inv assms(2) by (auto intro: by_internal_ok_remove)
  with free idx inv show ?thesis
    unfolding core_inv_def Let_def m
    by (simp add: f(2-4,7-9) detach_ranges [OF assms])
       (auto simp: ran_def)
qed

lemma detach_none [simp]: "slots (bk_classes s) i = None \<Longrightarrow> detach_class s i = (s, None)"
  by (simp add: detach_class_def)


subsection \<open>Removing and inserting keep the invariant\<close>

lemma get_class_frame [simp]:
  "bucket_get_class (s\<lparr>bk_by_origin := x\<rparr>) = bucket_get_class s"
  "bucket_get_class (s\<lparr>bk_mro_cache := y\<rparr>) = bucket_get_class s"
  by (simp_all add: bucket_get_class_def fun_eq_iff split: option.split)

lemma core_inv_frame [simp]:
  "core_inv (s\<lparr>bk_by_origin := x\<rparr>) = core_inv s" "core_inv (s\<lparr>bk_mro_cache := y\<rparr>) = core_inv s"
  by (simp_all add: core_inv_def ranges_ok_def)

lemma bucket_inv_mro [simp]: "bucket_inv (s\<lparr>bk_mro_cache := x\<rparr>) = bucket_inv s"
  by (simp add: bucket_inv_def origin_ok_def)

lemma remove_class_by_id_inv:
  assumes "bucket_inv s" "slots (bk_classes s) i = Some st"
  shows "bucket_inv (fst (remove_class_by_id s i))"
    and "bucket_get_class (fst (remove_class_by_id s i)) = (bucket_get_class s)(st_internal_name st := None)"
    and "slots (bk_classes (fst (remove_class_by_id s i))) = (slots (bk_classes s))(i := None)"
    and "bk_mro_cache (fst (remove_class_by_id s i)) = bk_mro_cache s"
    and "hget (bk_by_internal (fst (remove_class_by_id s i)))
           = (hget (bk_by_internal s))(st_internal_name st := None)"
proof -
  have c: "core_inv s" and o: "origin_ok s" using assms(1) by (auto simp: bucket_inv_def)
  note f = detach_class_fields [OF assms(2) slot_by_internal [OF c assms(2)]]
  obtain s' where s': "detach_class s i = (s', Some st)"
    using f(1) by (cases "detach_class s i") auto
  have r: "fst (remove_class_by_id s i)
      = s'\<lparr>bk_by_origin := trim_opt (bk_by_origin s) ((Some \<circ> st_origin) st) i\<rparr>"
    using f(6) s' by (simp add: remove_class_by_id_def trim_opt_def)
  have "core_inv s'" using detach_core_inv [OF c assms(2)] s' by simp
  moreover have m: "slots (bk_classes s') = (slots (bk_classes s))(i := None)"
    using detach_slots [OF c assms(2)] s' by simp
  moreover have "index_ok (Some \<circ> st_origin) (trim_opt (bk_by_origin s) ((Some \<circ> st_origin) st) i)
      ((slots (bk_classes s))(i := None))"
    using o assms(2) unfolding origin_ok_def by (rule index_ok_remove)
  ultimately show "bucket_inv (fst (remove_class_by_id s i))"
    by (simp add: r bucket_inv_def origin_ok_def)
  show "bucket_get_class (fst (remove_class_by_id s i)) = (bucket_get_class s)(st_internal_name st := None)"
    using detach_get_class [OF c assms(2)] s' by (simp add: r)
  show "slots (bk_classes (fst (remove_class_by_id s i))) = (slots (bk_classes s))(i := None)"
    using m by (simp add: r)
  show "bk_mro_cache (fst (remove_class_by_id s i)) = bk_mro_cache s"
    using f(10) s' by (simp add: r)
  show "hget (bk_by_internal (fst (remove_class_by_id s i)))
      = (hget (bk_by_internal s))(st_internal_name st := None)"
    using f(4) s' by (simp add: r)
qed

lemma alloc_slot_ok:
  assumes "core_inv s"
  obtains i s' where "alloc_slot s st = Inr (i, s')" "slots (bk_classes s) i = None"
    "slots (bk_classes s') = (slots (bk_classes s))(i \<mapsto> st)"
    "distinct (bk_free_class_ids s')"
    "set (bk_free_class_ids s') = {j. j < length (bk_classes s') \<and> slots (bk_classes s') j = None}"
    "s' = s\<lparr>bk_classes := bk_classes s', bk_free_class_ids := bk_free_class_ids s'\<rparr>"
proof (cases "bk_free_class_ids s = []")
  case True
  let ?s' = "s\<lparr>bk_classes := bk_classes s @ [Some st]\<rparr>"
  have "{j. j < length (bk_classes s) \<and> slots (bk_classes s) j = None} = {}"
    using assms True by (auto simp: core_inv_def Let_def)
  then show ?thesis
    using that [of "length (bk_classes s)" ?s'] True
    by (auto simp: alloc_slot_def slots_append less_Suc_eq slots_def)
next
  case False
  let ?i = "last (bk_free_class_ids s)"
  have inv: "distinct (bk_free_class_ids s)"
    "set (bk_free_class_ids s) = {j. j < length (bk_classes s) \<and> slots (bk_classes s) j = None}"
    using assms by (auto simp: core_inv_def Let_def)
  have "?i \<in> set (bk_free_class_ids s)" using False by simp
  then have i: "?i < length (bk_classes s)" "slots (bk_classes s) ?i = None" using inv(2) by auto
  have split: "bk_free_class_ids s = butlast (bk_free_class_ids s) @ [?i]" using False by simp
  then have d: "distinct (butlast (bk_free_class_ids s) @ [?i])" using inv(1) by simp
  then have "set (butlast (bk_free_class_ids s)) = set (bk_free_class_ids s) - {?i}"
    by (subst (2) split) auto
  then have free: "set (butlast (bk_free_class_ids s))
      = {j. j < length (bk_classes s) \<and> ((slots (bk_classes s))(?i \<mapsto> st)) j = None}"
    using inv(2) by auto
  show ?thesis
  proof (rule that [of ?i "s\<lparr>bk_free_class_ids := butlast (bk_free_class_ids s),
        bk_classes := (bk_classes s)[?i := Some st]\<rparr>"])
    show "alloc_slot s st = Inr (?i, s\<lparr>bk_free_class_ids := butlast (bk_free_class_ids s),
        bk_classes := (bk_classes s)[?i := Some st]\<rparr>)"
      using False i by (simp add: alloc_slot_def Let_def)
  qed (use i d free in \<open>simp_all add: slots_update\<close>)
qed

lemma hget_fold_insert_opt:
  "hget (fold (\<lambda>x rs. case f x of None \<Rightarrow> rs | Some r \<Rightarrow> hinsert (g x) r rs) xs m) k = Some r \<Longrightarrow>
     hget m k = Some r \<or> k \<in> g ` set xs"
proof (induction xs arbitrary: m)
  case (Cons x xs)
  then show ?case by (cases "f x") (auto split: if_splits dest!: Cons.IH)
qed simp

lemma insert_declarations_ranges:
  assumes "ranges_ok g s" "g (cm_internal_name c) = Some c"
  shows "ranges_ok g (insert_declarations_for_metadata s c ds)"
proof (cases ds)
  case None
  then show ?thesis using assms by (simp add: insert_declarations_for_metadata_def)
next
  case (Some d)
  let ?s = "insert_declarations_for_metadata s c (Some d)"
  let ?n = "cm_internal_name c"
  have t: "n = ?n \<or> hget (bk_type_ranges s) n = Some r" if "hget (bk_type_ranges ?s) n = Some r" for n r
    using that by (auto simp: insert_declarations_for_metadata_def Let_def split: option.splits if_splits)
  have m: "hget (bk_method_ranges s) (n, mn, de) = Some r \<or> n = ?n \<and> declares_method c mn de"
    if "hget (bk_method_ranges ?s) (n, mn, de) = Some r" for n mn de r
    using that hget_fold_insert_opt
      [where f = "\<lambda>m. method_range d ?n (ms_name m) (method_desc m)"
         and g = "\<lambda>m. (?n, ms_name m, method_desc m)" and xs = "cm_methods c"
         and m = "bk_method_ranges s" and k = "(n, mn, de)"]
    by (simp add: insert_declarations_for_metadata_def Let_def declares_method_def image_iff) blast
  have f: "hget (bk_field_ranges s) (n, fn) = Some r \<or> n = ?n \<and> declares_field c fn"
    if "hget (bk_field_ranges ?s) (n, fn) = Some r" for n fn r
    using that hget_fold_insert_opt
      [where f = "\<lambda>f. field_range d ?n (fs_name f)" and g = "\<lambda>f. (?n, fs_name f)"
         and xs = "cm_fields c" and m = "bk_field_ranges s" and k = "(n, fn)"]
    by (simp add: insert_declarations_for_metadata_def Let_def declares_field_def image_iff) blast
  show ?thesis
    using assms t m f unfolding Some ranges_ok_def by blast
qed

lemma insert_declarations_frame:
  "bk_classes (insert_declarations_for_metadata s c ds) = bk_classes s"
  "bk_free_class_ids (insert_declarations_for_metadata s c ds) = bk_free_class_ids s"
  "bk_by_internal (insert_declarations_for_metadata s c ds) = bk_by_internal s"
  "bk_by_origin (insert_declarations_for_metadata s c ds) = bk_by_origin s"
  "bk_simple_name_index (insert_declarations_for_metadata s c ds) = bk_simple_name_index s"
  "bk_package_index (insert_declarations_for_metadata s c ds) = bk_package_index s"
  "bk_owner_index (insert_declarations_for_metadata s c ds) = bk_owner_index s"
  "bk_mro_cache (insert_declarations_for_metadata s c ds) = bk_mro_cache s"
  "bk_modules (insert_declarations_for_metadata s c ds) = bk_modules s"
  "bucket_get_class (insert_declarations_for_metadata s c ds) = bucket_get_class s"
  by (cases ds; simp add: insert_declarations_for_metadata_def Let_def bucket_get_class_def fun_eq_iff
           split: option.split)+

lemma ranges_ok_mono:
  assumes "ranges_ok g s" "\<And>n c. g n = Some c \<Longrightarrow> g' n = Some c"
  shows "ranges_ok g' s"
  using assms unfolding ranges_ok_def by blast

text \<open>Filling a free slot with a class whose name is not in the index, all indexes included.\<close>

definition fill_slot :: "'c bucket_state \<Rightarrow> stored_class \<Rightarrow> nat \<Rightarrow> 'c bucket_state" where
  "fill_slot s st i = s\<lparr>bk_by_internal := hinsert (st_internal_name st) i (bk_by_internal s),
     bk_simple_name_index := push_opt (bk_simple_name_index s) (Some (st_name st)) i,
     bk_package_index := push_opt (bk_package_index s) (st_package st) i,
     bk_owner_index := push_opt (bk_owner_index s) (st_inner_class_of st) i,
     bk_by_origin := push_opt (bk_by_origin s) (Some (st_origin st)) i\<rparr>"

lemma fill_slot_inv:
  assumes inv: "bucket_inv s" and ok: "stored_ok st"
    and new: "hget (bk_by_internal s) (st_internal_name st) = None"
    and alloc: "alloc_slot s st = Inr (i, s')"
  shows "bucket_inv (fill_slot s' st i)"
    and "bucket_get_class (fill_slot s' st i)
      = (bucket_get_class s)(st_internal_name st \<mapsto> stored_materialize st)"
    and "bk_mro_cache (fill_slot s' st i) = bk_mro_cache s"
proof -
  have core: "core_inv s" and orig: "origin_ok s" using inv by (auto simp: bucket_inv_def)
  note c = core [unfolded core_inv_def Let_def]
  obtain m' where m': "slots (bk_classes s') = m'" by simp
  from alloc_slot_ok [OF core, of st] alloc
  have free: "slots (bk_classes s) i = None" and m: "slots (bk_classes s') = (slots (bk_classes s))(i \<mapsto> st)"
    and d: "distinct (bk_free_class_ids s')"
    and fs: "set (bk_free_class_ids s') = {j. j < length (bk_classes s') \<and> slots (bk_classes s') j = None}"
    and s': "s' = s\<lparr>bk_classes := bk_classes s', bk_free_class_ids := bk_free_class_ids s'\<rparr>"
    by (metis Inr_inject prod.inject)+
  have frame: "bk_by_internal s' = bk_by_internal s" "bk_simple_name_index s' = bk_simple_name_index s"
    "bk_package_index s' = bk_package_index s" "bk_owner_index s' = bk_owner_index s"
    "bk_by_origin s' = bk_by_origin s" "bk_mro_cache s' = bk_mro_cache s"
    "bk_type_ranges s' = bk_type_ranges s" "bk_method_ranges s' = bk_method_ranges s"
    "bk_field_ranges s' = bk_field_ranges s"
    by (subst s', simp)+
  have other: "j \<noteq> i" if "hget (bk_by_internal s) n = Some j" for n j
    using that free by_internal_iff [OF core, of n j] by auto
  show g: "bucket_get_class (fill_slot s' st i)
      = (bucket_get_class s)(st_internal_name st \<mapsto> stored_materialize st)"
    using other
    by (auto simp: bucket_get_class_def fill_slot_def m frame fun_eq_iff split: option.splits)
  have r: "ranges_ok ((bucket_get_class s)(st_internal_name st \<mapsto> stored_materialize st)) (fill_slot s' st i)"
  proof -
    have "bucket_get_class s (st_internal_name st) = None"
      using new by (simp add: bucket_get_class_def)
    then have keep: "((bucket_get_class s)(st_internal_name st \<mapsto> stored_materialize st)) n = Some d"
      if "bucket_get_class s n = Some d" for n d using that by auto
    have "ranges_ok (bucket_get_class s) s" using c by blast
    then have "ranges_ok ((bucket_get_class s)(st_internal_name st \<mapsto> stored_materialize st)) s"
      using keep by (rule ranges_ok_mono)
    then show ?thesis by (simp add: ranges_ok_def fill_slot_def frame)
  qed
  show "bucket_inv (fill_slot s' st i)"
    unfolding bucket_inv_def core_inv_def origin_ok_def Let_def g
  proof (intro conjI)
    show "\<forall>x\<in>ran (slots (bk_classes (fill_slot s' st i))). stored_ok x"
      using c ok by (auto simp: fill_slot_def m ran_def)
    show "by_internal_ok (bk_by_internal (fill_slot s' st i)) (slots (bk_classes (fill_slot s' st i)))"
      using c free new by (auto simp: fill_slot_def m frame intro: by_internal_ok_insert)
    show "index_ok (Some \<circ> st_name) (bk_simple_name_index (fill_slot s' st i))
        (slots (bk_classes (fill_slot s' st i)))"
      using c index_ok_insert [of "Some \<circ> st_name" _ _ i st] free by (simp add: fill_slot_def m frame)
    show "index_ok st_package (bk_package_index (fill_slot s' st i))
        (slots (bk_classes (fill_slot s' st i)))"
      using c index_ok_insert [of st_package _ _ i st] free by (simp add: fill_slot_def m frame)
    show "index_ok st_inner_class_of (bk_owner_index (fill_slot s' st i))
        (slots (bk_classes (fill_slot s' st i)))"
      using c index_ok_insert [of st_inner_class_of _ _ i st] free by (simp add: fill_slot_def m frame)
    show "index_ok (Some \<circ> st_origin) (bk_by_origin (fill_slot s' st i))
        (slots (bk_classes (fill_slot s' st i)))"
      using orig index_ok_insert [of "Some \<circ> st_origin" _ _ i st] free
      by (simp add: fill_slot_def m frame origin_ok_def)
  qed (use c d fs r in \<open>simp_all add: fill_slot_def frame\<close>)
  show "bk_mro_cache (fill_slot s' st i) = bk_mro_cache s" by (simp add: fill_slot_def frame)
qed

lemma insert_record_alt:
  "insert_record s st ds =
     (let s1 = (case hget (bk_by_internal s) (st_internal_name st) of
                  None \<Rightarrow> s | Some j \<Rightarrow> fst (remove_class_by_id s j))
      in map_ok (\<lambda>(i, s2). insert_declarations_for_metadata (fill_slot s2 st i) (stored_materialize st) ds)
           (alloc_slot s1 st))"
  by (cases "alloc_slot (case hget (bk_by_internal s) (st_internal_name st) of
                  None \<Rightarrow> s | Some j \<Rightarrow> fst (remove_class_by_id s j)) st")
     (auto simp: insert_record_def Let_def fill_slot_def push_opt_def insert_declarations_for_metadata_def
           split: option.splits)

text \<open>Inserting a class always succeeds and is a map update.\<close>

lemma insert_record_ok:
  assumes inv: "bucket_inv s" and ok: "stored_ok st"
  obtains s' where "insert_record s st ds = Inr s'" "bucket_inv s'"
    "bucket_get_class s' = (bucket_get_class s)(st_internal_name st \<mapsto> stored_materialize st)"
    "bk_mro_cache s' = bk_mro_cache s"
proof -
  define s1 where "s1 = (case hget (bk_by_internal s) (st_internal_name st) of
    None \<Rightarrow> s | Some j \<Rightarrow> fst (remove_class_by_id s j))"
  have core: "core_inv s" using inv by (simp add: bucket_inv_def)
  have s1: "bucket_inv s1 \<and> hget (bk_by_internal s1) (st_internal_name st) = None
      \<and> bucket_get_class s1 = (bucket_get_class s)(st_internal_name st := None)
      \<and> bk_mro_cache s1 = bk_mro_cache s"
  proof (cases "hget (bk_by_internal s) (st_internal_name st)")
    case None
    then show ?thesis using inv by (auto simp: s1_def bucket_get_class_def fun_eq_iff)
  next
    case (Some j)
    then obtain st' where st': "slots (bk_classes s) j = Some st'"
      "st_internal_name st' = st_internal_name st"
      using by_internal_iff [OF core] by blast
    show ?thesis using remove_class_by_id_inv [OF inv st'(1)] Some st'(2) by (simp add: s1_def)
  qed
  then have core1: "core_inv s1" by (simp add: bucket_inv_def)
  obtain i s2 where a: "alloc_slot s1 st = Inr (i, s2)" by (rule alloc_slot_ok [OF core1])
  let ?f = "fill_slot s2 st i"
  let ?s' = "insert_declarations_for_metadata ?f (stored_materialize st) ds"
  note f = fill_slot_inv [OF _ ok _ a]
  have finv: "bucket_inv ?f" and fget: "bucket_get_class ?f
      = (bucket_get_class s)(st_internal_name st \<mapsto> stored_materialize st)"
    and fmro: "bk_mro_cache ?f = bk_mro_cache s"
    using f s1 by auto
  have name: "cm_internal_name (stored_materialize st) = st_internal_name st"
    using ok by (simp add: stored_ok_def Let_def)
  have "ranges_ok (bucket_get_class ?f) ?s'"
    using finv fget name
    by (intro insert_declarations_ranges) (auto simp: bucket_inv_def core_inv_def Let_def)
  then have "bucket_inv ?s'"
    using finv by (simp add: bucket_inv_def core_inv_def origin_ok_def insert_declarations_frame Let_def)
  then show ?thesis
    using that [of ?s'] a fget fmro
    by (simp add: insert_record_alt s1_def [symmetric] insert_declarations_frame)
qed

lemma stored_ok_from_metadata [simp]: "stored_ok (from_metadata c)"
  by (simp add: stored_ok_def from_metadata_def stored_materialize_def Let_def)

lemma from_metadata_simps [simp]:
  "st_internal_name (from_metadata c) = cm_internal_name c"
  "stored_materialize (from_metadata c) = c"
  by (simp_all add: from_metadata_def stored_materialize_def)

lemma stored_ok_from_archive_stub:
  assumes "from_archive_stub stub = Inr st"
  shows "stored_ok st" "st_internal_name st = sc_internal_name stub"
    "materialize stub = Inr (stored_materialize st)"
  using assms
  by (auto simp: from_archive_stub_def map_ok_Inr stored_ok_def stored_materialize_def Let_def
        dest: materialize_simps)

lemma insert_records_ok:
  assumes "bucket_inv s" "list_all stored_ok sts"
  obtains s' where "insert_records s sts ds = Inr s'" "bucket_inv s'"
    "bucket_get_class s' = bucket_get_class s
       ++ map_of (rev (map (\<lambda>st. (st_internal_name st, stored_materialize st)) sts))"
    "bk_mro_cache s' = bk_mro_cache s"
  using assms
proof (induction sts arbitrary: s thesis)
  case (Cons st sts)
  from Cons.prems obtain s1 where s1: "insert_record s st ds = Inr s1" "bucket_inv s1"
    "bucket_get_class s1 = (bucket_get_class s)(st_internal_name st \<mapsto> stored_materialize st)"
    "bk_mro_cache s1 = bk_mro_cache s"
    using insert_record_ok [of s st ds] by (metis list.pred_inject(2))
  from Cons.prems s1(2) obtain s' where s': "insert_records s1 sts ds = Inr s'" "bucket_inv s'"
    "bucket_get_class s' = bucket_get_class s1
       ++ map_of (rev (map (\<lambda>st. (st_internal_name st, stored_materialize st)) sts))"
    "bk_mro_cache s' = bk_mro_cache s1"
    using Cons.IH [of s1] by auto
  show ?case
    by (rule Cons.prems(1) [of s']) (use s1 s' in \<open>simp_all add: map_add_upd_left map_add_def fun_eq_iff split: option.splits\<close>)
qed simp


subsection \<open>Removing the classes of an origin\<close>

lemma detach_by_origin [simp]: "bk_by_origin (fst (detach_class s i)) = bk_by_origin s"
  by (simp add: detach_class_def remove_declarations_for_class_def Let_def split: option.splits)

abbreviation detach_ids :: "nat list \<Rightarrow> 'c bucket_state \<Rightarrow> 'c bucket_state" where
  "detach_ids ids s \<equiv> fold (\<lambda>i t. fst (detach_class t i)) ids s"

lemma detach_all:
  "core_inv s \<Longrightarrow> core_inv (detach_ids ids s) \<and> bk_by_origin (detach_ids ids s) = bk_by_origin s
     \<and> slots (bk_classes (detach_ids ids s)) = (\<lambda>i. if i \<in> set ids then None else slots (bk_classes s) i)"
proof (induction ids arbitrary: s)
  case (Cons i js)
  have "core_inv (fst (detach_class s i))
      \<and> slots (bk_classes (fst (detach_class s i))) = (slots (bk_classes s))(i := None)"
  proof (cases "slots (bk_classes s) i")
    case None
    then show ?thesis using Cons.prems by (simp add: fun_eq_iff)
  next
    case (Some st)
    then show ?thesis using Cons.prems by (simp add: detach_core_inv detach_slots)
  qed
  with Cons.IH [of "fst (detach_class s i)"] show ?case by (auto simp: fun_eq_iff)
qed auto

text \<open>The classes of an index, as a map from names, restricted to those not of an origin.\<close>

definition without_origin ::
  "class_origin \<Rightarrow> (str \<Rightarrow> class_metadata option) \<Rightarrow> str \<Rightarrow> class_metadata option" where
  "without_origin origin g n =
     (case g n of None \<Rightarrow> None | Some c \<Rightarrow> if cm_origin c = origin then None else Some c)"

lemma stored_origin:
  "core_inv s \<Longrightarrow> slots (bk_classes s) i = Some st \<Longrightarrow> cm_origin (stored_materialize st) = st_origin st"
  by (auto simp: core_inv_def stored_ok_def Let_def ran_def)

lemma get_class_eqI:
  assumes "core_inv s"
    "\<And>c. g = Some c \<longleftrightarrow> (\<exists>i st. slots (bk_classes s) i = Some st \<and> st_internal_name st = n
       \<and> stored_materialize st = c)"
  shows "bucket_get_class s n = g"
  using get_class_iff [OF assms(1), of n] assms(2)
  by (metis option.exhaust)

lemma remove_by_origin_ok:
  assumes inv: "bucket_inv s"
  shows "bucket_inv (snd (bucket_remove_by_origin L s origin))"
    and "bucket_get_class (snd (bucket_remove_by_origin L s origin))
      = without_origin origin (bucket_get_class s)"
    and "fst (bucket_remove_by_origin L s origin) \<longleftrightarrow>
      (\<exists>n c. bucket_get_class s n = Some c \<and> cm_origin c = origin)"
proof -
  have core: "core_inv s" and orig: "index_ok (Some \<circ> st_origin) (bk_by_origin s) (slots (bk_classes s))"
    using inv by (auto simp: bucket_inv_def origin_ok_def)
  define ids where "ids = ids_of (bk_by_origin s) origin"
  have ids: "i \<in> set ids \<longleftrightarrow> (\<exists>st. slots (bk_classes s) i = Some st \<and> st_origin st = origin)" for i
    using orig by (auto simp: index_ok_def ids_def)
  let ?s0 = "s\<lparr>bk_by_origin := hremove origin (bk_by_origin s)\<rparr>"
  let ?s1 = "fold (\<lambda>i t. fst (detach_class t i)) ids ?s0"
  note d = detach_all [of ?s0 ids]
  have core1: "core_inv ?s1" and o1: "bk_by_origin ?s1 = hremove origin (bk_by_origin s)"
    and m1: "slots (bk_classes ?s1) = (\<lambda>i. if i \<in> set ids then None else slots (bk_classes s) i)"
    using d core by auto
  have inv1: "bucket_inv ?s1"
    using core1 index_ok_remove_entry [OF orig, of ids origin, unfolded ids_def [symmetric], OF refl]
    by (simp add: bucket_inv_def origin_ok_def o1 m1)
  have get1: "bucket_get_class ?s1 = without_origin origin (bucket_get_class s)"
  proof
    fix n
    show "bucket_get_class ?s1 n = without_origin origin (bucket_get_class s) n"
    proof (rule get_class_eqI [OF core1])
      fix c
      show "without_origin origin (bucket_get_class s) n = Some c \<longleftrightarrow>
        (\<exists>i st. slots (bk_classes ?s1) i = Some st \<and> st_internal_name st = n \<and> stored_materialize st = c)"
      proof -
        have "without_origin origin (bucket_get_class s) n = Some c \<longleftrightarrow>
            bucket_get_class s n = Some c \<and> cm_origin c \<noteq> origin"
          by (auto simp: without_origin_def split: option.splits)
        also have "\<dots> \<longleftrightarrow> (\<exists>i st. slots (bk_classes s) i = Some st \<and> st_internal_name st = n
            \<and> stored_materialize st = c \<and> st_origin st \<noteq> origin)"
          unfolding get_class_iff [OF core] using stored_origin [OF core] by metis
        also have "\<dots> \<longleftrightarrow> (\<exists>i st. slots (bk_classes ?s1) i = Some st \<and> st_internal_name st = n
            \<and> stored_materialize st = c)"
        proof -
          have "slots (bk_classes ?s1) i = Some st \<longleftrightarrow>
              slots (bk_classes s) i = Some st \<and> st_origin st \<noteq> origin" for i st
            using ids [of i] by (auto simp: m1)
          then show ?thesis by blast
        qed
        finally show ?thesis .
      qed
    qed
  qed
  have ne: "hget (bk_by_origin s) origin \<noteq> Some []" using orig by (simp add: index_ok_def)
  show "bucket_inv (snd (bucket_remove_by_origin L s origin))"
    using inv inv1 by (auto simp: bucket_remove_by_origin_def ids_def ids_of_def Let_def split: option.splits)
  have none: "without_origin origin (bucket_get_class s) = bucket_get_class s"
    if "hget (bk_by_origin s) origin = None"
  proof -
    have "ids = []" using that by (simp add: ids_def ids_of_def)
    then show ?thesis using get1 d by (simp add: bucket_get_class_def)
  qed
  show "bucket_get_class (snd (bucket_remove_by_origin L s origin))
      = without_origin origin (bucket_get_class s)"
    using get1 none by (auto simp: bucket_remove_by_origin_def ids_def ids_of_def Let_def split: option.splits)
  have "(\<exists>n c. bucket_get_class s n = Some c \<and> cm_origin c = origin) \<longleftrightarrow> ids \<noteq> []"
  proof -
    have "(\<exists>n c. bucket_get_class s n = Some c \<and> cm_origin c = origin) \<longleftrightarrow>
        (\<exists>i st. slots (bk_classes s) i = Some st \<and> st_origin st = origin)"
      unfolding get_class_iff [OF core] using stored_origin [OF core] by metis
    also have "\<dots> \<longleftrightarrow> (\<exists>i. i \<in> set ids)" using ids by blast
    finally show ?thesis by (simp add: ex_in_conv)
  qed
  then show "fst (bucket_remove_by_origin L s origin) \<longleftrightarrow>
      (\<exists>n c. bucket_get_class s n = Some c \<and> cm_origin c = origin)"
    using ne by (auto simp: bucket_remove_by_origin_def ids_def ids_of_def Let_def split: option.splits)
qed


subsection \<open>The look-ups through the secondary indexes\<close>

lemma slot_classes:
  assumes "core_inv s"
  shows "classes_with (bucket_get_class s) P =
    {stored_materialize st | i st. slots (bk_classes s) i = Some st \<and> P (stored_materialize st)}"
  unfolding classes_with_def get_class_iff [OF assms] by blast

lemma stored_slot_ok: "core_inv s \<Longrightarrow> slots (bk_classes s) i = Some st \<Longrightarrow> stored_ok st"
  by (auto simp: core_inv_def Let_def ran_def)

lemma resolve_entry_set:
  assumes "core_inv s" "index_ok proj idx (slots (bk_classes s))"
    "\<And>st. stored_ok st \<Longrightarrow> p (stored_materialize st) = proj st"
  shows "set (resolve_entry s idx k) = classes_with (bucket_get_class s) (\<lambda>c. p c = Some k)"
proof -
  have "set (resolve_entry s idx k) = {c. \<exists>i \<in> set (ids_of idx k).
      map_option stored_materialize (slots (bk_classes s) i) = Some c}"
    by (auto simp: resolve_entry_def resolve_class_ids_def set_map_filter ids_of_def split: option.splits)
  also have "\<dots> = {c. \<exists>i st. slots (bk_classes s) i = Some st \<and> proj st = Some k
      \<and> stored_materialize st = c}"
  proof -
    have "i \<in> set (ids_of idx k) \<longleftrightarrow> (\<exists>st. slots (bk_classes s) i = Some st \<and> proj st = Some k)" for i
      using assms(2) by (simp add: index_ok_def)
    then show ?thesis by fastforce
  qed
  also have "\<dots> = classes_with (bucket_get_class s) (\<lambda>c. p c = Some k)"
  proof -
    have "proj st = p (stored_materialize st)" if "slots (bk_classes s) i = Some st" for i st
      using stored_slot_ok [OF assms(1) that] assms(3) by simp
    then show ?thesis unfolding slot_classes [OF assms(1)] by (intro Collect_cong) metis
  qed
  finally show ?thesis .
qed

lemma resolve_entry_distinct:
  assumes "core_inv s" "index_ok proj idx (slots (bk_classes s))"
  shows "distinct (map cm_internal_name (resolve_entry s idx k))"
proof -
  let ?f = "\<lambda>i. map_option stored_materialize (slots (bk_classes s) i)"
  have name: "cm_internal_name (stored_materialize st) = st_internal_name st"
    if "slots (bk_classes s) i = Some st" for i st
    using stored_slot_ok [OF assms(1) that] by (simp add: stored_ok_def Let_def)
  have "map cm_internal_name (List.map_filter ?f is)
      = List.map_filter (\<lambda>i. map_option st_internal_name (slots (bk_classes s) i)) is" for "is"
  proof (induction "is")
    case (Cons i js)
    then show ?case by (cases "slots (bk_classes s) i") (simp_all add: name)
  qed simp
  moreover have "distinct (List.map_filter (\<lambda>i. map_option st_internal_name (slots (bk_classes s) i)) is)"
    if "distinct is" for "is"
  proof (rule distinct_map_filter_inj [OF that])
    fix i j z
    assume "map_option st_internal_name (slots (bk_classes s) i) = Some z"
      "map_option st_internal_name (slots (bk_classes s) j) = Some z"
    then obtain st st' where "slots (bk_classes s) i = Some st" "slots (bk_classes s) j = Some st'"
      "st_internal_name st = st_internal_name st'" by auto
    then show "i = j" by (rule slot_unique(1) [OF assms(1)])
  qed
  moreover have "distinct (ids_of idx k)" using assms(2) by (simp add: index_ok_def)
  ultimately show ?thesis
    by (auto simp: resolve_entry_def resolve_class_ids_def ids_of_def split: option.splits)
qed

lemmas bucket_core_indexes =
  resolve_entry_set [where proj = "Some \<circ> st_name" and p = "Some \<circ> cm_name"]
  resolve_entry_set [where proj = st_package and p = cm_package]
  resolve_entry_set [where proj = st_inner_class_of and p = cm_inner_class_of]

lemma core_indexes:
  assumes "core_inv s"
  shows "index_ok (Some \<circ> st_name) (bk_simple_name_index s) (slots (bk_classes s))"
    "index_ok st_package (bk_package_index s) (slots (bk_classes s))"
    "index_ok st_inner_class_of (bk_owner_index s) (slots (bk_classes s))"
  using assms by (simp_all add: core_inv_def Let_def)

interpretation bucket: class_source bucket_inv bucket_get_class bucket_exact_match_keys
  bucket_get_classes_by_simple_name bucket_classes_in_package bucket_direct_inner_classes_of
proof unfold_locales
  fix s :: "'c bucket_state" and n k p c
  assume "bucket_inv s"
  then have core: "core_inv s" by (simp add: bucket_inv_def)
  note idx = core_indexes [OF core]
  show "bucket_get_class s n = Some c \<Longrightarrow> cm_internal_name c = n" using get_class_name [OF core] .
  show "set (bucket_exact_match_keys s) = dom (bucket_get_class s)" using exact_match_keys_dom [OF core] .
  show "set (bucket_get_classes_by_simple_name s k)
      = classes_with (bucket_get_class s) (\<lambda>c. cm_name c = k)"
    using bucket_core_indexes(1) [OF core idx(1), of k]
    by (simp add: bucket_get_classes_by_simple_name_def stored_ok_def Let_def)
  show "set (bucket_classes_in_package s p)
      = classes_with (bucket_get_class s) (\<lambda>c. cm_package c = Some (slashed p))"
    using bucket_core_indexes(2) [OF core idx(2), of "slashed p"]
    by (simp add: bucket_classes_in_package_def stored_ok_def Let_def)
  show "set (bucket_direct_inner_classes_of s k)
      = classes_with (bucket_get_class s) (\<lambda>c. cm_inner_class_of c = Some k)"
    using bucket_core_indexes(3) [OF core idx(3), of k]
    by (simp add: bucket_direct_inner_classes_of_def bucket_direct_inner_classes_by_owner_def
          stored_ok_def Let_def)
qed

subsection \<open>The cache of inherited members\<close>

definition cache_ok :: "'c lru_ops \<Rightarrow> 'c bucket_state \<Rightarrow> bool" where
  "cache_ok L s \<longleftrightarrow>
     (\<forall>k v. lru_peek L (bk_mro_cache s) k = Some v \<longrightarrow> v = inherited_members s k)"

lemma cache_ok_cleared: "lru_laws L \<Longrightarrow> cache_ok L (clear_mro L s)"
  by (simp add: cache_ok_def clear_mro_def lru_laws_def)

lemma inherited_members_cong:
  assumes "bucket_inv s" "bucket_inv s'" "bucket_get_class s' = bucket_get_class s"
  shows "inherited_members s' k = inherited_members s k"
proof -
  have "visits (bucket_exact_match_keys s') (bucket_get_class s) supertypes q S
      = visits (bucket_exact_match_keys s) (bucket_get_class s) supertypes q S" for q S
    using assms bucket.keys_dom [OF assms(1)] bucket.keys_dom [OF assms(2)]
    by (intro visits_universe) auto
  then show ?thesis
    by (simp add: inherited_members_def members_loop_eq hierarchy_visits assms(3))
qed

end
