(* ===== verification/Bucket_Laws.thy ===== *)
theory Bucket_Laws
  imports Bucket_Index
begin

text \<open>
  What a bucket promises: its states are reached by steps of its operations (\<open>bucket_step\<close>,
  \<open>bucket_run\<close>), every reachable state satisfies the invariant and has a coherent cache, and the
  operations refine operations on a map from internal names to classes. The last part splits
  \<open>collect_inherited_members\<close> into its critical sections and shows what a concurrent update does.
\<close>

subsection \<open>The operations on the map of classes\<close>

abbreviation class_map :: "class_metadata list \<Rightarrow> str \<Rightarrow> class_metadata option" where
  "class_map cs \<equiv> map_of (rev (map (\<lambda>c. (cm_internal_name c, c)) cs))"

lemma clear_mro_frame [simp]:
  "bucket_inv (clear_mro L s) = bucket_inv s" "bucket_get_class (clear_mro L s) = bucket_get_class s"
  by (simp_all add: clear_mro_def)

lemma add_classes_ok:
  assumes "bucket_inv s"
  obtains s' where "bucket_add_classes_with_declarations L s cs ds = Inr s'" "bucket_inv s'"
    "bucket_get_class s' = bucket_get_class s ++ class_map cs" "lru_laws L \<Longrightarrow> cache_ok L s'"
proof -
  have "list_all stored_ok (map from_metadata cs)" by (simp add: list_all_iff)
  from insert_records_ok [OF assms this, where ds = ds] obtain t
    where t: "insert_records s (map from_metadata cs) ds = Inr t" "bucket_inv t"
      "bucket_get_class t = bucket_get_class s ++ class_map cs" by (auto simp: comp_def)
  then show ?thesis
    using that [of "clear_mro L t"]
    by (simp add: bucket_add_classes_with_declarations_def cache_ok_cleared)
qed

lemma add_archive_classes_ok:
  assumes "bucket_inv s" "bucket_add_archive_classes L s cs = Inr s'"
  shows "bucket_inv s'" "lru_laws L \<Longrightarrow> cache_ok L s'"
proof -
  from assms(2) obtain sts t where
    sts: "try_map (from_archive_stub \<circ> from_class_metadata) cs = Inr sts"
    and t: "insert_records s sts None = Inr t" "s' = clear_mro L t"
    by (auto simp: bucket_add_archive_classes_def and_then_Inr map_ok_Inr)
  have "list_all stored_ok sts"
    using try_map_InrD [OF sts] stored_ok_from_archive_stub(1)
    by (auto simp: list_all2_conv_all_nth list_all_length)
  from insert_records_ok [OF assms(1) this, where ds = None] t(1) have "bucket_inv t" by auto
  then show "bucket_inv s'" "lru_laws L \<Longrightarrow> cache_ok L s'"
    using t(2) by (simp_all add: cache_ok_cleared)
qed

lemma add_archive_classes_get:
  assumes "bucket_inv s" "list_all class_descriptors_ok cs"
  obtains s' where "bucket_add_archive_classes L s cs = Inr s'"
    "bucket_get_class s' = bucket_get_class s ++ class_map (map archived cs)"
proof -
  define stub where "stub c = \<lparr>st_internal_name = cm_internal_name c, st_name = cm_name c,
    st_package = cm_package c, st_inner_class_of = cm_inner_class_of c, st_origin = cm_origin c,
    st_body = ArchiveStub (from_class_metadata c) (archived c)\<rparr>" for c
  have stub: "from_archive_stub (from_class_metadata c) = Inr (stub c)" if "class_descriptors_ok c" for c
    using materialize_from_class [OF that]
    by (simp add: from_archive_stub_def stub_def from_class_metadata_def)
  have "try_map (from_archive_stub \<circ> from_class_metadata) cs = Inr (map stub cs)"
    using assms(2) stub by (intro try_map_Inr) (simp add: list_all_iff)
  moreover have "list_all stored_ok (map stub cs)"
    using assms(2) stub stored_ok_from_archive_stub(1) by (auto simp: list_all_iff)
  from insert_records_ok [OF assms(1) this, where ds = None] obtain t where
    "insert_records s (map stub cs) None = Inr t"
    "bucket_get_class t = bucket_get_class s ++ class_map (map archived cs)"
    by (auto simp: comp_def stub_def stored_materialize_def)
  ultimately show ?thesis
    using that [of "clear_mro L t"] by (simp add: bucket_add_archive_classes_def)
qed

lemma remove_by_origin_cache:
  assumes "lru_laws L" "cache_ok L s"
  shows "cache_ok L (snd (bucket_remove_by_origin L s origin))"
  using assms cache_ok_cleared [OF assms(1), unfolded clear_mro_def]
  by (simp add: bucket_remove_by_origin_def Let_def split: option.splits)

lemma class_map_None: "class_map cs n = None \<longleftrightarrow> n \<notin> cm_internal_name ` set cs"
  by (force simp: map_of_eq_None_iff)

lemma update_source_ok:
  assumes "bucket_inv s"
  obtains b s' where "bucket_update_source_with_declarations L s origin cs ds = Inr (b, s')"
    "bucket_inv s'" "lru_laws L \<longrightarrow> cache_ok L s \<longrightarrow> cache_ok L s'" "\<not> b \<longrightarrow> s' = s"
    "b \<longrightarrow> bucket_get_class s' = without_origin origin (bucket_get_class s)
       ++ class_map (filter (not_blocked s) cs)"
proof -
  let ?f = "filter (not_blocked s) cs"
  show ?thesis
  proof (cases "?f = [] \<or> same_classes_for_origin s origin ?f")
    case True
    then show ?thesis using that [of False s] assms
      by (auto simp: bucket_update_source_with_declarations_def Let_def)
  next
    case False
    let ?r = "snd (bucket_remove_by_origin L s origin)"
    note r = remove_by_origin_ok [OF assms, of L origin]
    obtain s' where s': "bucket_add_classes_with_declarations L ?r ?f ds = Inr s'" "bucket_inv s'"
      "bucket_get_class s' = bucket_get_class ?r ++ class_map ?f" "lru_laws L \<Longrightarrow> cache_ok L s'"
      using add_classes_ok [OF r(1)] by blast
    show ?thesis
    proof (rule that [of True s'])
      show "bucket_update_source_with_declarations L s origin cs ds = Inr (True, s')"
        using False s'(1) by (simp add: bucket_update_source_with_declarations_def Let_def)
    qed (use s' r in auto)
  qed
qed

lemma get_class_collect:
  "bucket_get_class (snd (bucket_collect_inherited_members L s n)) = bucket_get_class s"
  "bucket_inv (snd (bucket_collect_inherited_members L s n)) = bucket_inv s"
  by (simp_all add: bucket_collect_inherited_members_def Let_def split: option.split)

lemma inherited_members_mro [simp]:
  "inherited_members (s\<lparr>bk_mro_cache := x\<rparr>) k = inherited_members s k"
  by (simp add: inherited_members_def bucket_exact_match_keys_def)

lemma collect_ok:
  assumes "lru_laws L" "cache_ok L s"
  shows "fst (bucket_collect_inherited_members L s n) = inherited_members s n"
    and "cache_ok L (snd (bucket_collect_inherited_members L s n))"
proof -
  show "fst (bucket_collect_inherited_members L s n) = inherited_members s n"
    using assms(2) by (auto simp: bucket_collect_inherited_members_def cache_ok_def Let_def split: option.splits)
  show "cache_ok L (snd (bucket_collect_inherited_members L s n))"
  proof (cases "lru_peek L (bk_mro_cache s) n")
    case None
    have "v = inherited_members s k"
      if "lru_peek L (lru_put L (bk_mro_cache s) n (inherited_members s n)) k = Some v" for k v
      using that assms unfolding lru_laws_def cache_ok_def by blast
    with None show ?thesis by (simp add: bucket_collect_inherited_members_def cache_ok_def Let_def)
  next
    case (Some v)
    with assms(2) show ?thesis by (simp add: bucket_collect_inherited_members_def)
  qed
qed

subsection \<open>Reachable states\<close>

inductive bucket_step :: "'c lru_ops \<Rightarrow> 'c bucket_state \<Rightarrow> 'c bucket_state \<Rightarrow> bool" for L where
  add: "bucket_add_classes_with_declarations L s cs ds = Inr s' \<Longrightarrow> bucket_step L s s'"
| add_archive: "bucket_add_archive_classes L s cs = Inr s' \<Longrightarrow> bucket_step L s s'"
| add_modules: "bucket_step L s (bucket_add_modules s ms)"
| update: "bucket_update_source_with_declarations L s origin cs ds = Inr (b, s') \<Longrightarrow> bucket_step L s s'"
| remove: "bucket_step L s (snd (bucket_remove_by_origin L s origin))"
| collect: "bucket_step L s (snd (bucket_collect_inherited_members L s n))"
| clear: "bucket_step L s (bucket_clear_query_caches L s)"

inductive bucket_run :: "'c lru_ops \<Rightarrow> 'c bucket_state \<Rightarrow> bool" for L where
  init: "bucket_run L (bucket_new L)"
| step: "bucket_run L s \<Longrightarrow> bucket_step L s s' \<Longrightarrow> bucket_run L s'"

inductive_cases bucket_stepE: "bucket_step L s s'"

lemma bucket_modules_frame [simp]:
  "bucket_inv (bucket_add_modules s ms) = bucket_inv s"
  "bucket_get_class (bucket_add_modules s ms) = bucket_get_class s"
  "cache_ok L (bucket_add_modules s ms) = cache_ok L s"
proof -
  show g: "bucket_get_class (bucket_add_modules s ms) = bucket_get_class s"
    by (simp add: bucket_get_class_def bucket_add_modules_def fun_eq_iff split: option.split)
  show "bucket_inv (bucket_add_modules s ms) = bucket_inv s"
    using g by (simp add: bucket_inv_def core_inv_def origin_ok_def ranges_ok_def bucket_add_modules_def)
  show "cache_ok L (bucket_add_modules s ms) = cache_ok L s"
    using g by (simp add: cache_ok_def inherited_members_def bucket_exact_match_keys_def bucket_add_modules_def)
qed

lemma bucket_step_keeps:
  assumes "lru_laws L" "bucket_step L s s'" "bucket_inv s" "cache_ok L s"
  shows "bucket_inv s' \<and> cache_ok L s'"
  using assms(2)
proof cases
  case (add cs ds)
  then show ?thesis using add_classes_ok [OF assms(3), of L cs ds] assms(1) by auto
next
  case (add_archive cs)
  then show ?thesis using add_archive_classes_ok [OF assms(3)] assms(1) by auto
next
  case (update origin cs ds b)
  then show ?thesis using update_source_ok [OF assms(3), of L origin cs ds] assms(1,4) by auto
next
  case (remove origin)
  then show ?thesis using remove_by_origin_ok(1) [OF assms(3)] remove_by_origin_cache [OF assms(1,4)] by simp
next
  case (collect n)
  then show ?thesis using collect_ok(2) [OF assms(1,4)] assms(3) by (simp add: get_class_collect)
qed (use assms in \<open>simp_all add: bucket_clear_query_caches_def cache_ok_cleared\<close>)

lemma cache_ok_new: "lru_laws L \<Longrightarrow> cache_ok L (bucket_new L)"
  by (simp add: cache_ok_def lru_laws_def bucket_new_def)

lemma bucket_run_inv:
  "bucket_run L s \<Longrightarrow> lru_laws L \<Longrightarrow> bucket_inv s \<and> cache_ok L s"
  by (induction rule: bucket_run.induct) (auto simp: bucket_new_inv cache_ok_new dest: bucket_step_keeps)


subsection \<open>Counting and listing\<close>

lemma has_package_iff:
  assumes "bucket_inv s"
  shows "bucket_has_package s p \<longleftrightarrow> bucket_classes_in_package s p \<noteq> []"
    and "bucket_has_classes_in_package s p \<longleftrightarrow> bucket_classes_in_package s p \<noteq> []"
proof -
  have core: "core_inv s" using assms by (simp add: bucket_inv_def)
  note idx = core_indexes(2) [OF core]
  have ne: "hget (bk_package_index s) k \<noteq> Some []" for k using idx by (simp add: index_ok_def)
  have "resolve_class_ids s ids \<noteq> []" if h: "hget (bk_package_index s) k = Some ids" for k ids
  proof -
    from h ne [of k] obtain i where i: "i \<in> set ids" by (cases ids) auto
    then have "i \<in> set (ids_of (bk_package_index s) k)" using h by (simp add: ids_of_def)
    then obtain st where "slots (bk_classes s) i = Some st" using idx by (auto simp: index_ok_def)
    with i have "stored_materialize st \<in> set (resolve_class_ids s ids)"
      by (auto simp: resolve_class_ids_def set_map_filter intro: bexI [of _ i])
    then show ?thesis by auto
  qed
  with ne show "bucket_has_package s p \<longleftrightarrow> bucket_classes_in_package s p \<noteq> []"
    "bucket_has_classes_in_package s p \<longleftrightarrow> bucket_classes_in_package s p \<noteq> []"
    by (auto simp: bucket_has_package_def bucket_has_classes_in_package_def
          bucket_classes_in_package_def resolve_entry_def split: option.splits)
qed

lemma class_count_card:
  assumes "bucket_inv s"
  shows "bucket_class_count s = card (dom (bucket_get_class s))"
proof -
  have "hwf (bk_by_internal s)" using assms by (simp add: bucket_inv_def core_inv_def Let_def)
  then have "length (bk_by_internal s) = card (set (bucket_exact_match_keys s))"
    using distinct_card [of "map fst (bk_by_internal s)"]
    by (simp only: hwf_def bucket_exact_match_keys_def hkeys_def length_map)
  then show ?thesis using bucket.keys_dom [OF assms] by (simp add: bucket_class_count_def)
qed

lemma iter_all_classes_set:
  assumes "bucket_inv s"
  shows "set (bucket_iter_all_classes s) = ran (bucket_get_class s)"
proof -
  have core: "core_inv s" using assms by (simp add: bucket_inv_def)
  have "set (bucket_iter_all_classes s)
      = {c. \<exists>i st. slots (bk_classes s) i = Some st \<and> stored_materialize st = c}"
  proof (rule set_eqI)
    fix c
    have "c \<in> set (bucket_iter_all_classes s) \<longleftrightarrow>
        (\<exists>i<length (bk_classes s). map_option stored_materialize (bk_classes s ! i) = Some c)"
      unfolding bucket_iter_all_classes_def set_map_filter in_set_conv_nth Bex_def by blast
    then show "c \<in> set (bucket_iter_all_classes s) \<longleftrightarrow>
        c \<in> {c. \<exists>i st. slots (bk_classes s) i = Some st \<and> stored_materialize st = c}"
      by (auto simp: slots_def)
  qed
  then show ?thesis unfolding ran_def get_class_iff [OF core] by blast
qed

subsection \<open>Properties\<close>

text \<open>A cache that forgets nothing satisfies the laws of the parameter.\<close>

definition map_cache :: "(str, members) hash_map lru_ops" where
  "map_cache = \<lparr>lru_new = [], lru_peek = hget, lru_put = (\<lambda>c k v. hinsert k v c),
     lru_clear = (\<lambda>_. []), lru_len = length\<rparr>"

lemma map_cache_laws: "lru_laws map_cache"
  by (auto simp: lru_laws_def map_cache_def split: if_splits)

text \<open>
  C12. Consistency of the index: in every state that a bucket reaches, whatever classes were
  added, archived, replaced or removed before, all look-ups describe one and the same set of
  classes. A class is found under its own internal name; the look-ups by simple name, by package
  and by owner list exactly the classes with that name, package or owner, none of them twice; a
  package is reported exactly if it has classes; and the count and the enumeration agree.
\<close>

theorem bucket_lookups_consistent:
  assumes "lru_laws L" "bucket_run L s"
  shows "(\<forall>n c. bucket_get_class s n = Some c \<longrightarrow> cm_internal_name c = n)
    \<and> set (bucket_get_classes_by_simple_name s k) = classes_with (bucket_get_class s) (\<lambda>c. cm_name c = k)
    \<and> distinct (map cm_internal_name (bucket_get_classes_by_simple_name s k))
    \<and> set (bucket_classes_in_package s p)
        = classes_with (bucket_get_class s) (\<lambda>c. cm_package c = Some (slashed p))
    \<and> distinct (map cm_internal_name (bucket_classes_in_package s p))
    \<and> set (bucket_direct_inner_classes_of s ow)
        = classes_with (bucket_get_class s) (\<lambda>c. cm_inner_class_of c = Some ow)
    \<and> distinct (map cm_internal_name (bucket_direct_inner_classes_of s ow))
    \<and> (bucket_has_package s p \<longleftrightarrow> bucket_classes_in_package s p \<noteq> [])
    \<and> bucket_class_count s = card (dom (bucket_get_class s))
    \<and> set (bucket_iter_all_classes s) = ran (bucket_get_class s)"
proof -
  have inv: "bucket_inv s" using bucket_run_inv assms by blast
  then have core: "core_inv s" by (simp add: bucket_inv_def)
  note idx = core_indexes [OF core]
  show ?thesis
    using bucket.get_name [OF inv] bucket.by_simple_set [OF inv] bucket.in_package_set [OF inv]
      bucket.inner_of_set [OF inv] has_package_iff(1) [OF inv] class_count_card [OF inv]
      iter_all_classes_set [OF inv] resolve_entry_distinct [OF core idx(1)]
      resolve_entry_distinct [OF core idx(2)] resolve_entry_distinct [OF core idx(3)]
    by (simp add: bucket_get_classes_by_simple_name_def bucket_classes_in_package_def
          bucket_direct_inner_classes_of_def bucket_direct_inner_classes_by_owner_def)
qed

theorem bucket_lookups_consistent_witness:
  "\<exists>s. bucket_add_classes map_cache (bucket_new map_cache)
        [plain_class (Some ''p'') ''A'' ''p/A'' UnknownOrigin] = Inr s
     \<and> set (bucket_classes_in_package s ''p'')
        = classes_with (bucket_get_class s) (\<lambda>c. cm_package c = Some (slashed ''p''))"
proof -
  obtain s where s: "bucket_add_classes map_cache (bucket_new map_cache)
        [plain_class (Some ''p'') ''A'' ''p/A'' UnknownOrigin] = Inr s"
    unfolding bucket_add_classes_def
    using add_classes_ok [OF bucket_new_inv, of map_cache map_cache
        "[plain_class (Some ''p'') ''A'' ''p/A'' UnknownOrigin]" None] by blast
  then have "bucket_run map_cache s"
    unfolding bucket_add_classes_def by (blast intro: bucket_run.intros bucket_step.add)
  from bucket_lookups_consistent [OF map_cache_laws this, of _ "''p''"] s show ?thesis by blast
qed

text \<open>
  C13. Adding classes refines a map update: it never panics, and afterwards the class found under
  a name is the last added one with that name, or else the one found before.
\<close>

theorem add_classes_refines:
  assumes "bucket_inv s"
  shows "\<exists>s'. bucket_add_classes_with_declarations L s cs ds = Inr s' \<and> bucket_inv s'
    \<and> bucket_get_class s' = bucket_get_class s ++ class_map cs"
  using add_classes_ok [OF assms, of L cs ds] by blast

theorem add_classes_refines_witness:
  "\<exists>s. bucket_add_classes_with_declarations map_cache (bucket_new map_cache)
        [plain_class None ''A'' ''A'' (SourceFile ''1''), plain_class None ''A'' ''A'' (SourceFile ''2'')]
        None = Inr s
     \<and> bucket_get_class s ''A'' = Some (plain_class None ''A'' ''A'' (SourceFile ''2''))"
  using add_classes_refines [OF bucket_new_inv, of map_cache map_cache
      "[plain_class None ''A'' ''A'' (SourceFile ''1''), plain_class None ''A'' ''A'' (SourceFile ''2'')]" None]
  by (auto simp: plain_class_def)

text \<open>
  Adding archive classes keeps them in compact form, and look-ups return the rebuilt
  metadata: with well-formed descriptors nothing panics and the class found under a name is the
  archived form of the last added one.
\<close>

theorem add_archive_classes_refines:
  assumes "bucket_inv s" "list_all class_descriptors_ok cs"
  shows "\<exists>s'. bucket_add_archive_classes L s cs = Inr s' \<and> bucket_inv s'
    \<and> bucket_get_class s' = bucket_get_class s ++ class_map (map archived cs)"
proof -
  obtain s' where s': "bucket_add_archive_classes L s cs = Inr s'"
    "bucket_get_class s' = bucket_get_class s ++ class_map (map archived cs)"
    by (rule add_archive_classes_get [OF assms])
  with add_archive_classes_ok(1) [OF assms(1) s'(1)] show ?thesis by blast
qed

theorem add_archive_classes_refines_witness:
  "\<exists>s. bucket_add_archive_classes map_cache (bucket_new map_cache)
        [(plain_class (Some ''p'') ''A'' ''p/A'' (Jar ''x.jar''))
           \<lparr>cm_methods := [plain_method ''f'' [(''I'', ''n'')] None]\<rparr>] = Inr s
     \<and> map_option (map method_desc \<circ> cm_methods) (bucket_get_class s ''p/A'') = Some [''(I)V'']"
proof -
  let ?c = "(plain_class (Some ''p'') ''A'' ''p/A'' (Jar ''x.jar''))
     \<lparr>cm_methods := [plain_method ''f'' [(''I'', ''n'')] None]\<rparr>"
  have "list_all class_descriptors_ok [?c]"
    by (simp add: class_descriptors_ok_def method_descriptors_ok_def plain_method_def)
  from add_archive_classes_refines [OF bucket_new_inv this, of map_cache map_cache] obtain s where
    "bucket_add_archive_classes map_cache (bucket_new map_cache) [?c] = Inr s"
    "bucket_get_class s = bucket_get_class (bucket_new map_cache) ++ class_map (map archived [?c])"
    by blast
  then show ?thesis
    by (simp add: archived_def strip_class_def plain_class_def plain_method_def method_desc_def
          strip_method_def)
qed

text \<open>
  C14. Removing an origin removes exactly its classes from every look-up, and the result tells
  whether there were any.
\<close>

theorem remove_by_origin_refines:
  assumes "bucket_inv s"
  shows "bucket_inv (snd (bucket_remove_by_origin L s origin))
    \<and> bucket_get_class (snd (bucket_remove_by_origin L s origin))
        = without_origin origin (bucket_get_class s)
    \<and> (fst (bucket_remove_by_origin L s origin) \<longleftrightarrow>
        (\<exists>n c. bucket_get_class s n = Some c \<and> cm_origin c = origin))"
  using remove_by_origin_ok [OF assms] by blast

theorem remove_by_origin_refines_witness:
  "\<exists>s. bucket_add_classes map_cache (bucket_new map_cache)
        [plain_class None ''A'' ''A'' (SourceFile ''1''), plain_class None ''B'' ''B'' (SourceFile ''2'')] = Inr s
     \<and> bucket_get_class (snd (bucket_remove_by_origin map_cache s (SourceFile ''1''))) ''A'' = None
     \<and> bucket_get_class (snd (bucket_remove_by_origin map_cache s (SourceFile ''1''))) ''B''
         = Some (plain_class None ''B'' ''B'' (SourceFile ''2''))"
proof -
  let ?cs = "[plain_class None ''A'' ''A'' (SourceFile ''1''), plain_class None ''B'' ''B'' (SourceFile ''2'')]"
  obtain s where s: "bucket_add_classes map_cache (bucket_new map_cache) ?cs = Inr s" "bucket_inv s"
    "bucket_get_class s = bucket_get_class (bucket_new map_cache) ++ class_map ?cs"
    unfolding bucket_add_classes_def
    using add_classes_ok [OF bucket_new_inv, of map_cache map_cache ?cs None] by blast
  have "bucket_get_class (snd (bucket_remove_by_origin map_cache s (SourceFile ''1'')))
      = without_origin (SourceFile ''1'') (bucket_get_class s)"
    using remove_by_origin_refines [OF s(2), of map_cache "SourceFile ''1''"] by blast
  with s(1,3) show ?thesis by (simp add: without_origin_def plain_class_def)
qed




text \<open>
  The linearised hierarchy of a class: it lists each known class that can be reached from the
  class over superclass and interface names, cyclic declarations included, exactly once, the class
  itself first; an unknown class has an empty hierarchy.
\<close>

theorem mro_lists_hierarchy:
  assumes "bucket_inv s"
  shows "set (bucket_mro s n) = {c. \<exists>m. (n, m) \<in> (super_rel (bucket_get_class s))\<^sup>*
      \<and> bucket_get_class s m = Some c}
    \<and> distinct (map cm_internal_name (bucket_mro s n))
    \<and> (case bucket_get_class s n of None \<Rightarrow> bucket_mro s n = []
       | Some c \<Rightarrow> bucket_mro s n \<noteq> [] \<and> hd (bucket_mro s n) = c)"
  using bucket.hierarchy_set [OF assms, of n] bucket.hierarchy_distinct [OF assms, of n]
    bucket.hierarchy_head [OF assms, of n]
  by (auto simp: bucket_mro_def split: option.splits)

theorem mro_lists_hierarchy_witness:
  "\<exists>s. bucket_add_classes map_cache (bucket_new map_cache)
        [(plain_class None ''A'' ''A'' UnknownOrigin)\<lparr>cm_super_name := Some ''B''\<rparr>,
         (plain_class None ''B'' ''B'' UnknownOrigin)\<lparr>cm_interfaces := [''A'', ''X'']\<rparr>] = Inr s
     \<and> distinct (map cm_internal_name (bucket_mro s ''A''))
     \<and> hd (bucket_mro s ''A'') = (plain_class None ''A'' ''A'' UnknownOrigin)\<lparr>cm_super_name := Some ''B''\<rparr>"
proof -
  let ?cs = "[(plain_class None ''A'' ''A'' UnknownOrigin)\<lparr>cm_super_name := Some ''B''\<rparr>,
         (plain_class None ''B'' ''B'' UnknownOrigin)\<lparr>cm_interfaces := [''A'', ''X'']\<rparr>]"
  obtain s where s: "bucket_add_classes map_cache (bucket_new map_cache) ?cs = Inr s" "bucket_inv s"
    "bucket_get_class s = bucket_get_class (bucket_new map_cache) ++ class_map ?cs"
    unfolding bucket_add_classes_def
    using add_classes_ok [OF bucket_new_inv, of map_cache map_cache ?cs None] by blast
  have "bucket_get_class s ''A''
      = Some ((plain_class None ''A'' ''A'' UnknownOrigin)\<lparr>cm_super_name := Some ''B''\<rparr>)"
    using s(3) by (simp add: plain_class_def)
  with mro_lists_hierarchy [OF s(2), of "''A''"] s(1) show ?thesis by auto
qed

text \<open>
  Inherited members: through the cache or not, the members collected for a class are those
  of the classes of its hierarchy in order, of each method name and descriptor and of each field
  name the first one only, so that a member hides the ones it overrides.
\<close>

theorem collect_inherited_members_spec:
  assumes "lru_laws L" "bucket_run L s"
  shows "fst (bucket_collect_inherited_members L s n) =
      (first_by method_key {} (concat (map cm_methods (bucket_mro s n))),
       first_by fs_name {} (concat (map cm_fields (bucket_mro s n))))
    \<and> bucket_run L (snd (bucket_collect_inherited_members L s n))
    \<and> bucket_get_class (snd (bucket_collect_inherited_members L s n)) = bucket_get_class s"
  using bucket_run_inv [OF assms(2,1)] collect_ok(1) [OF assms(1), of s n]
    bucket_run.step [OF assms(2) bucket_step.collect, of n]
  by (simp add: inherited_members_def members_loop_eq bucket_mro_def get_class_collect)

theorem collect_inherited_members_spec_witness:
  "fst (bucket_collect_inherited_members map_cache (bucket_new map_cache) ''A'') = ([], [])"
  using collect_inherited_members_spec [OF map_cache_laws bucket_run.init, of "''A''"]
    bucket.hierarchy_head(2) [OF bucket_new_inv, of map_cache "''A''"]
  by (simp add: bucket_mro_def bucket_get_class_def bucket_new_def)

subsection \<open>Concurrent updates\<close>

text \<open>
  \<open>collect_inherited_members\<close> reads the cache under the lock, computes the members with a lock
  per class, and stores the result in a last critical section:
\<close>

definition bucket_collect_publish ::
  "'c lru_ops \<Rightarrow> 'c bucket_state \<Rightarrow> str \<Rightarrow> members \<Rightarrow> 'c bucket_state" where
  "bucket_collect_publish L s class_internal result =
     s\<lparr>bk_mro_cache := lru_put L (bk_mro_cache s) class_internal result\<rparr>"

text \<open>
  The cache can go stale: when another thread changes classes between the computation and
  the last critical section, the members computed before the change are stored after the change
  has cleared the cache, and later queries return them although the class index has moved on. (\<open>s\<close>
  is the state that the computation read, \<open>s'\<close> the state after the concurrent update.)
\<close>

theorem stale_members_after_race:
  assumes "\<forall>c k v. lru_peek L (lru_put L c k v) k = Some v"
    and "bucket_inv s" "bucket_add_classes L s cs = Inr s'"
  shows "fst (bucket_collect_inherited_members L
      (bucket_collect_publish L s' n (inherited_members s n)) n) = inherited_members s n
    \<and> bucket_get_class (bucket_collect_publish L s' n (inherited_members s n))
      = bucket_get_class s ++ class_map cs"
proof
  show "fst (bucket_collect_inherited_members L
      (bucket_collect_publish L s' n (inherited_members s n)) n) = inherited_members s n"
    using assms(1) [rule_format, of "bk_mro_cache s'" n "inherited_members s n"]
    by (simp add: bucket_collect_inherited_members_def bucket_collect_publish_def)
  show "bucket_get_class (bucket_collect_publish L s' n (inherited_members s n))
      = bucket_get_class s ++ class_map cs"
    using add_classes_ok [OF assms(2), of L cs None] assms(3)
    by (auto simp: bucket_collect_publish_def bucket_add_classes_def)
qed

theorem stale_members_after_race_witness:
  "\<exists>s'. bucket_add_classes map_cache (bucket_new map_cache)
        [(plain_class None ''A'' ''A'' UnknownOrigin)\<lparr>cm_methods := [plain_method ''f'' [] None]\<rparr>] = Inr s'
     \<and> fst (bucket_collect_inherited_members map_cache
          (bucket_collect_publish map_cache s' ''A'' (inherited_members (bucket_new map_cache) ''A'')) ''A'')
        = ([], [])
     \<and> map method_key (fst (inherited_members s' ''A'')) = [(''f'', ''()V'')]"
proof -
  let ?c = "(plain_class None ''A'' ''A'' UnknownOrigin)\<lparr>cm_methods := [plain_method ''f'' [] None]\<rparr>"
  obtain s where s: "bucket_add_classes map_cache (bucket_new map_cache) [?c] = Inr s" "bucket_inv s"
    "bucket_get_class s = bucket_get_class (bucket_new map_cache) ++ class_map [?c]"
    unfolding bucket_add_classes_def
    using add_classes_ok [OF bucket_new_inv, of map_cache map_cache "[?c]" None] by blast
  have g: "bucket_get_class s = [''A'' \<mapsto> ?c]"
    using s(3) by (auto simp: bucket_get_class_def bucket_new_def plain_class_def fun_eq_iff)
  have "bucket_mro s ''A'' = [?c]"
    using bucket.keys_dom [OF s(2)]
    by (simp add: bucket_mro_def hierarchy_visits visits_simps g supertypes_def plain_class_def)
  then have "map method_key (fst (inherited_members s ''A'')) = [(''f'', ''()V'')]"
    by (simp add: inherited_members_def members_loop_eq bucket_mro_def plain_method_def method_key_def
          method_desc_def)
  moreover have "inherited_members (bucket_new map_cache) ''A'' = ([], [])"
    using bucket.hierarchy_head(2) [OF bucket_new_inv, of map_cache "''A''"]
    by (simp add: inherited_members_def members_loop_eq bucket_get_class_def bucket_new_def)
  moreover have "\<forall>c k v. lru_peek map_cache (lru_put map_cache c k v) k = Some v"
    by (simp add: map_cache_def)
  ultimately show ?thesis
    using stale_members_after_race [OF _ bucket_new_inv s(1), of "''A''"] s(1) by auto
qed

end
