(* ===== verification/Artifact_Reader.thy ===== *)
theory Artifact_Reader
  imports Class_Source
begin

text \<open>
  The read-only index of one stored artifact (\<open>index/artifact_reader.rs\<close>): the stubs of its
  classes in a vector, 32-bit slots as handles, and the same secondary indexes as a bucket. A
  reader is built once from an archive; its look-ups return handles, and \<open>reader_get_class\<close>
  rebuilds the metadata of a handle. As in a bucket, the model fills the cell \<open>materialized\<close> when
  the reader is built, so that a panic of \<open>materialize\<close> shows there. The counter of rebuilt
  classes serves diagnostics only and is not modelled.
\<close>

subsection \<open>Data\<close>

type_synonym artifact_id = "64 word"

record artifact_class_handle =
  ch_artifact_id :: artifact_id
  ch_slot :: "32 word"

record artifact_method_handle =
  mh_class :: artifact_class_handle
  mh_slot :: "32 word"

record artifact_field_handle =
  fh_class :: artifact_class_handle
  fh_slot :: "32 word"

datatype artifact_kind = KindJar | JdkModulesImage | SourceZip | KindUnknown

record artifact_metadata =
  am_id :: artifact_id
  am_kind :: artifact_kind
  am_source_path :: str
  am_content_hash :: "64 word"
  am_byte_len :: "64 word"
  am_stored_at_unix_secs :: "64 word"

record stored_artifact_archive =
  aa_metadata :: artifact_metadata
  aa_classes :: "archive_class_stub list"
  aa_modules :: "indexed_java_module list"

record artifact_class_record =
  cr_stub :: archive_class_stub
  cr_materialized :: class_metadata

record artifact_scope_reader =
  rd_metadata :: artifact_metadata
  rd_classes :: "artifact_class_record list"
  rd_by_internal :: "(str, 32 word) hash_map"
  rd_simple_name_index :: "(str, 32 word list) hash_map"
  rd_package_index :: "(str, 32 word list) hash_map"
  rd_owner_index :: "(str, 32 word list) hash_map"
  rd_modules :: "(str, indexed_java_module) hash_map"

subsection \<open>Building a reader\<close>

text \<open>\<open>u32::try_from(n).expect(..)\<close>\<close>

definition slot_of :: "nat \<Rightarrow> rust_panic + 32 word" where
  "slot_of n = (if n < 2 ^ 32 then Inr (word_of_nat n) else Inl ExpectFailed)"

text \<open>One turn of the loop over \<open>archive.classes\<close>.\<close>

definition load_class ::
  "artifact_scope_reader \<Rightarrow> archive_class_stub \<Rightarrow> rust_panic + artifact_scope_reader" where
  "load_class r stub =
     and_then (slot_of (length (rd_classes r))) (\<lambda>slot.
     and_then (materialize stub) (\<lambda>c.
       Inr (r\<lparr>rd_by_internal := hinsert (sc_internal_name stub) slot (rd_by_internal r),
              rd_simple_name_index := hpush (sc_name stub) slot (rd_simple_name_index r),
              rd_package_index :=
                (case sc_package stub of
                   None \<Rightarrow> rd_package_index r | Some pkg \<Rightarrow> hpush pkg slot (rd_package_index r)),
              rd_owner_index :=
                (case sc_inner_class_of stub of
                   None \<Rightarrow> rd_owner_index r | Some ow \<Rightarrow> hpush ow slot (rd_owner_index r)),
              rd_classes := rd_classes r @ [\<lparr>cr_stub = stub, cr_materialized = c\<rparr>]\<rparr>)))"

fun load_classes ::
  "artifact_scope_reader \<Rightarrow> archive_class_stub list \<Rightarrow> rust_panic + artifact_scope_reader" where
  "load_classes r [] = Inr r"
| "load_classes r (stub # stubs) = and_then (load_class r stub) (\<lambda>r'. load_classes r' stubs)"

definition from_archive :: "stored_artifact_archive \<Rightarrow> rust_panic + artifact_scope_reader" where
  "from_archive archive =
     load_classes
       \<lparr>rd_metadata = aa_metadata archive, rd_classes = [], rd_by_internal = [],
        rd_simple_name_index = [], rd_package_index = [], rd_owner_index = [],
        rd_modules = fold (\<lambda>m. hinsert (indexed_module_name m) m) (aa_modules archive) []\<rparr>
       (aa_classes archive)"

subsection \<open>Handles\<close>

definition reader_artifact_id :: "artifact_scope_reader \<Rightarrow> artifact_id" where
  "reader_artifact_id r = am_id (rd_metadata r)"

abbreviation handle_at :: "artifact_scope_reader \<Rightarrow> 32 word \<Rightarrow> artifact_class_handle" where
  "handle_at r slot \<equiv> \<lparr>ch_artifact_id = am_id (rd_metadata r), ch_slot = slot\<rparr>"

definition get_class_handle :: "artifact_scope_reader \<Rightarrow> str \<Rightarrow> artifact_class_handle option" where
  "get_class_handle r internal_name = map_option (handle_at r) (hget (rd_by_internal r) internal_name)"

text \<open>A handle of another artifact, or beyond the end of the vector, has no record.\<close>

definition reader_record :: "artifact_scope_reader \<Rightarrow> artifact_class_handle \<Rightarrow> artifact_class_record option" where
  "reader_record r h =
     (if ch_artifact_id h \<noteq> am_id (rd_metadata r) then None
      else if unat (ch_slot h) < length (rd_classes r) then Some (rd_classes r ! unat (ch_slot h))
      else None)"

definition reader_stub :: "artifact_scope_reader \<Rightarrow> artifact_class_handle \<Rightarrow> archive_class_stub option" where
  "reader_stub r h = map_option cr_stub (reader_record r h)"

definition reader_get_class :: "artifact_scope_reader \<Rightarrow> artifact_class_handle \<Rightarrow> class_metadata option" where
  "reader_get_class r h = map_option cr_materialized (reader_record r h)"

definition reader_method_stub ::
  "artifact_scope_reader \<Rightarrow> artifact_method_handle \<Rightarrow> archive_method_stub option" where
  "reader_method_stub r h =
     (case reader_stub r (mh_class h) of
        None \<Rightarrow> None
      | Some stub \<Rightarrow>
          if unat (mh_slot h) < length (sc_methods stub) then Some (sc_methods stub ! unat (mh_slot h))
          else None)"

definition reader_field_stub ::
  "artifact_scope_reader \<Rightarrow> artifact_field_handle \<Rightarrow> archive_field_stub option" where
  "reader_field_stub r h =
     (case reader_stub r (fh_class h) of
        None \<Rightarrow> None
      | Some stub \<Rightarrow>
          if unat (fh_slot h) < length (sc_fields stub) then Some (sc_fields stub ! unat (fh_slot h))
          else None)"

definition class_internal_name :: "artifact_scope_reader \<Rightarrow> artifact_class_handle \<Rightarrow> str option" where
  "class_internal_name r h = map_option sc_internal_name (reader_stub r h)"

definition reader_class_origin :: "artifact_scope_reader \<Rightarrow> artifact_class_handle \<Rightarrow> class_origin option" where
  "reader_class_origin r h = map_option sc_origin (reader_stub r h)"

definition class_package :: "artifact_scope_reader \<Rightarrow> artifact_class_handle \<Rightarrow> str option option" where
  "class_package r h = map_option sc_package (reader_stub r h)"

definition class_owner :: "artifact_scope_reader \<Rightarrow> artifact_class_handle \<Rightarrow> str option option" where
  "class_owner r h = map_option sc_inner_class_of (reader_stub r h)"

definition class_super_name :: "artifact_scope_reader \<Rightarrow> artifact_class_handle \<Rightarrow> str option option" where
  "class_super_name r h = map_option sc_super_name (reader_stub r h)"

definition class_interfaces :: "artifact_scope_reader \<Rightarrow> artifact_class_handle \<Rightarrow> str list option" where
  "class_interfaces r h = map_option sc_interfaces (reader_stub r h)"

definition class_name :: "artifact_scope_reader \<Rightarrow> artifact_class_handle \<Rightarrow> str option" where
  "class_name r h = map_option sc_name (reader_stub r h)"

definition class_access_flags :: "artifact_scope_reader \<Rightarrow> artifact_class_handle \<Rightarrow> 16 word option" where
  "class_access_flags r h = map_option sc_access_flags (reader_stub r h)"

definition class_matches_simple_name ::
  "artifact_scope_reader \<Rightarrow> artifact_class_handle \<Rightarrow> str \<Rightarrow> bool" where
  "class_matches_simple_name r h simple \<longleftrightarrow>
     (case reader_stub r h of None \<Rightarrow> False | Some stub \<Rightarrow> sc_name stub = simple)"

definition class_matches_internal_name_tail ::
  "artifact_scope_reader \<Rightarrow> artifact_class_handle \<Rightarrow> str \<Rightarrow> bool" where
  "class_matches_internal_name_tail r h tail \<longleftrightarrow>
     (case reader_stub r h of
        None \<Rightarrow> False
      | Some stub \<Rightarrow>
          last_piece (CHR ''/'') (sc_internal_name stub) = tail \<or> sc_name stub = tail)"

definition class_origin_precedence :: "artifact_scope_reader \<Rightarrow> artifact_class_handle \<Rightarrow> nat option" where
  "class_origin_precedence r h =
     map_option (\<lambda>stub. case sc_origin stub of SourceFile _ \<Rightarrow> 2 | _ \<Rightarrow> 1) (reader_stub r h)"

subsection \<open>Members of a handle\<close>

definition reader_materialize_methods ::
  "artifact_scope_reader \<Rightarrow> artifact_class_handle \<Rightarrow> (rust_panic + method_summary list) option" where
  "reader_materialize_methods r h =
     map_option (\<lambda>stub. try_map materialize_method_stub (sc_methods stub)) (reader_stub r h)"

definition reader_materialize_method ::
  "artifact_scope_reader \<Rightarrow> artifact_method_handle \<Rightarrow> (rust_panic + method_summary) option" where
  "reader_materialize_method r h = map_option materialize_method_stub (reader_method_stub r h)"

definition reader_materialize_fields ::
  "artifact_scope_reader \<Rightarrow> artifact_class_handle \<Rightarrow> field_summary list option" where
  "reader_materialize_fields r h =
     map_option (\<lambda>stub. map materialize_field_stub (sc_fields stub)) (reader_stub r h)"

definition reader_materialize_field ::
  "artifact_scope_reader \<Rightarrow> artifact_field_handle \<Rightarrow> field_summary option" where
  "reader_materialize_field r h = map_option materialize_field_stub (reader_field_stub r h)"

definition has_method_named_desc ::
  "artifact_scope_reader \<Rightarrow> artifact_class_handle \<Rightarrow> str \<Rightarrow> str \<Rightarrow> bool option" where
  "has_method_named_desc r h n d =
     map_option (\<lambda>stub. list_ex (\<lambda>m. sm_name m = n \<and> sm_descriptor m = d) (sc_methods stub))
       (reader_stub r h)"

text \<open>The handles of the methods in the slots listed by \<open>is\<close>.\<close>

definition method_handles_of ::
  "artifact_class_handle \<Rightarrow> nat list \<Rightarrow> rust_panic + artifact_method_handle list" where
  "method_handles_of h slots = try_map (\<lambda>i. map_ok (\<lambda>w. \<lparr>mh_class = h, mh_slot = w\<rparr>) (slot_of i)) slots"

definition method_handles ::
  "artifact_scope_reader \<Rightarrow> artifact_class_handle \<Rightarrow> (rust_panic + artifact_method_handle list) option" where
  "method_handles r h =
     map_option (\<lambda>stub. method_handles_of h [0..<length (sc_methods stub)]) (reader_stub r h)"

definition method_handles_named ::
  "artifact_scope_reader \<Rightarrow> artifact_class_handle \<Rightarrow> str
     \<Rightarrow> (rust_panic + artifact_method_handle list) option" where
  "method_handles_named r h n =
     map_option (\<lambda>stub. method_handles_of h
         (filter (\<lambda>i. sm_name (sc_methods stub ! i) = n) [0..<length (sc_methods stub)]))
       (reader_stub r h)"

definition method_handle_by_name_desc ::
  "artifact_scope_reader \<Rightarrow> artifact_class_handle \<Rightarrow> str \<Rightarrow> str
     \<Rightarrow> (rust_panic + artifact_method_handle) option" where
  "method_handle_by_name_desc r h n d =
     (case reader_stub r h of
        None \<Rightarrow> None
      | Some stub \<Rightarrow>
          map_option (\<lambda>i. map_ok (\<lambda>w. \<lparr>mh_class = h, mh_slot = w\<rparr>) (slot_of i))
            (position (\<lambda>m. sm_name m = n \<and> sm_descriptor m = d) (sc_methods stub)))"

definition project_method_stub ::
  "artifact_scope_reader \<Rightarrow> artifact_method_handle \<Rightarrow> archive_method_stub option" where
  "project_method_stub r h = reader_method_stub r h"

definition field_handles ::
  "artifact_scope_reader \<Rightarrow> artifact_class_handle \<Rightarrow> (rust_panic + artifact_field_handle list) option" where
  "field_handles r h =
     map_option (\<lambda>stub. try_map (\<lambda>i. map_ok (\<lambda>w. \<lparr>fh_class = h, fh_slot = w\<rparr>) (slot_of i))
         [0..<length (sc_fields stub)]) (reader_stub r h)"

definition field_handle_by_name ::
  "artifact_scope_reader \<Rightarrow> artifact_class_handle \<Rightarrow> str \<Rightarrow> (rust_panic + artifact_field_handle) option" where
  "field_handle_by_name r h n =
     (case reader_stub r h of
        None \<Rightarrow> None
      | Some stub \<Rightarrow>
          map_option (\<lambda>i. map_ok (\<lambda>w. \<lparr>fh_class = h, fh_slot = w\<rparr>) (slot_of i))
            (position (\<lambda>f. sf_name f = n) (sc_fields stub)))"

definition project_field_stub ::
  "artifact_scope_reader \<Rightarrow> artifact_field_handle \<Rightarrow> archive_field_stub option" where
  "project_field_stub r h = reader_field_stub r h"

subsection \<open>Look-ups\<close>

definition handles_of_entry ::
  "artifact_scope_reader \<Rightarrow> (str, 32 word list) hash_map \<Rightarrow> str \<Rightarrow> artifact_class_handle list" where
  "handles_of_entry r idx k = map (handle_at r) (case hget idx k of None \<Rightarrow> [] | Some ids \<Rightarrow> ids)"

definition class_handles_by_simple_name :: "artifact_scope_reader \<Rightarrow> str \<Rightarrow> artifact_class_handle list" where
  "class_handles_by_simple_name r simple = handles_of_entry r (rd_simple_name_index r) simple"

definition class_handles_in_package :: "artifact_scope_reader \<Rightarrow> str \<Rightarrow> artifact_class_handle list" where
  "class_handles_in_package r pkg = handles_of_entry r (rd_package_index r) (slashed pkg)"

definition direct_inner_class_handles :: "artifact_scope_reader \<Rightarrow> str \<Rightarrow> artifact_class_handle list" where
  "direct_inner_class_handles r owner = handles_of_entry r (rd_owner_index r) owner"

definition reader_has_package :: "artifact_scope_reader \<Rightarrow> str \<Rightarrow> bool" where
  "reader_has_package r pkg \<longleftrightarrow> hget (rd_package_index r) (slashed pkg) \<noteq> None"

definition reader_has_classes_in_package :: "artifact_scope_reader \<Rightarrow> str \<Rightarrow> bool" where
  "reader_has_classes_in_package r pkg \<longleftrightarrow>
     (case hget (rd_package_index r) (slashed pkg) of None \<Rightarrow> False | Some ids \<Rightarrow> ids \<noteq> [])"

definition reader_module_names :: "artifact_scope_reader \<Rightarrow> str list" where
  "reader_module_names r = hkeys (rd_modules r)"

definition reader_get_module :: "artifact_scope_reader \<Rightarrow> str \<Rightarrow> indexed_java_module option" where
  "reader_get_module r name = hget (rd_modules r) name"

definition reader_exact_match_keys :: "artifact_scope_reader \<Rightarrow> str list" where
  "reader_exact_match_keys r = hkeys (rd_by_internal r)"

definition iter_all_class_handles :: "artifact_scope_reader \<Rightarrow> rust_panic + artifact_class_handle list" where
  "iter_all_class_handles r = try_map (\<lambda>i. map_ok (handle_at r) (slot_of i)) [0..<length (rd_classes r)]"

definition reader_fuzzy_autocomplete ::
  "(str \<Rightarrow> str \<Rightarrow> 32 word option) \<Rightarrow> artifact_scope_reader \<Rightarrow> str \<Rightarrow> nat \<Rightarrow> str list" where
  "reader_fuzzy_autocomplete score r query limit =
     fuzzy_rank score (hkeys (rd_simple_name_index r)) query limit"

subsection \<open>The cache of readers\<close>

text \<open>
  \<open>load\<close> is \<open>cache::load_artifact_archive_by_id\<close>, which reads the artifact from the store on disk.
\<close>

type_synonym reader_cache = "(artifact_id, artifact_scope_reader) hash_map"

definition reader_cache_get ::
  "(artifact_id \<Rightarrow> stored_artifact_archive option) \<Rightarrow> reader_cache \<Rightarrow> artifact_id
     \<Rightarrow> rust_panic + (artifact_scope_reader option \<times> reader_cache)" where
  "reader_cache_get load readers i =
     (case hget readers i of
        Some existing \<Rightarrow> Inr (Some existing, readers)
      | None \<Rightarrow>
          (case load i of
             None \<Rightarrow> Inr (None, readers)
           | Some archive \<Rightarrow> map_ok (\<lambda>r. (Some r, hinsert i r readers)) (from_archive archive)))"

definition insert_preloaded :: "reader_cache \<Rightarrow> artifact_scope_reader \<Rightarrow> reader_cache" where
  "insert_preloaded readers r = hinsert (reader_artifact_id r) r readers"

definition reader_cache_clear :: "reader_cache \<Rightarrow> reader_cache" where
  "reader_cache_clear readers = []"


subsection \<open>Invariant\<close>

definition reader_slots :: "artifact_scope_reader \<Rightarrow> 32 word \<Rightarrow> artifact_class_record option" where
  "reader_slots r w =
     (if unat w < length (rd_classes r) then Some (rd_classes r ! unat w) else None)"

definition reader_inv :: "artifact_scope_reader \<Rightarrow> bool" where
  "reader_inv r \<longleftrightarrow>
     length (rd_classes r) \<le> 2 ^ 32 \<and>
     (\<forall>rec\<in>set (rd_classes r). materialize (cr_stub rec) = Inr (cr_materialized rec)) \<and>
     (\<forall>n w. hget (rd_by_internal r) n = Some w \<longleftrightarrow>
        (\<exists>rec. reader_slots r w = Some rec \<and> sc_internal_name (cr_stub rec) = n)) \<and>
     index_ok (Some \<circ> sc_name \<circ> cr_stub) (rd_simple_name_index r) (reader_slots r) \<and>
     index_ok (sc_package \<circ> cr_stub) (rd_package_index r) (reader_slots r) \<and>
     index_ok (sc_inner_class_of \<circ> cr_stub) (rd_owner_index r) (reader_slots r)"

lemma reader_by_internal:
  "reader_inv r \<Longrightarrow> hget (rd_by_internal r) n = Some w \<longleftrightarrow>
     (\<exists>rec. reader_slots r w = Some rec \<and> sc_internal_name (cr_stub rec) = n)"
  by (simp add: reader_inv_def)

lemma unat_word_of_nat_32: "n < 2 ^ 32 \<Longrightarrow> unat (word_of_nat n :: 32 word) = n"
  by (simp add: unat_of_nat)

lemma reader_slots_append:
  assumes "length (rd_classes r) < 2 ^ 32" "rd_classes r' = rd_classes r @ [rec]"
  shows "reader_slots r' = (reader_slots r)(word_of_nat (length (rd_classes r)) \<mapsto> rec)"
proof
  fix w :: "32 word"
  have "unat w = length (rd_classes r) \<longleftrightarrow> w = word_of_nat (length (rd_classes r))"
    using unat_word_of_nat_32 [OF assms(1)] by (metis unsigned_word_eqI)
  then show "reader_slots r' w = ((reader_slots r)(word_of_nat (length (rd_classes r)) \<mapsto> rec)) w"
    using assms(2) by (auto simp: reader_slots_def nth_append less_Suc_eq)
qed

lemma load_class_ok:
  assumes inv: "reader_inv r" and len: "length (rd_classes r) < 2 ^ 32"
    and mat: "materialize stub = Inr c" and new: "hget (rd_by_internal r) (sc_internal_name stub) = None"
  obtains r' where "load_class r stub = Inr r'" "reader_inv r'"
    "rd_classes r' = rd_classes r @ [\<lparr>cr_stub = stub, cr_materialized = c\<rparr>]"
    "hget (rd_by_internal r') = (hget (rd_by_internal r))
       (sc_internal_name stub \<mapsto> word_of_nat (length (rd_classes r)))"
    "rd_metadata r' = rd_metadata r"
proof -
  let ?w = "word_of_nat (length (rd_classes r)) :: 32 word"
  let ?rec = "\<lparr>cr_stub = stub, cr_materialized = c\<rparr>"
  define r' where "r' = r\<lparr>rd_by_internal := hinsert (sc_internal_name stub) ?w (rd_by_internal r),
      rd_simple_name_index := push_opt (rd_simple_name_index r) ((Some \<circ> sc_name \<circ> cr_stub) ?rec) ?w,
      rd_package_index := push_opt (rd_package_index r) ((sc_package \<circ> cr_stub) ?rec) ?w,
      rd_owner_index := push_opt (rd_owner_index r) ((sc_inner_class_of \<circ> cr_stub) ?rec) ?w,
      rd_classes := rd_classes r @ [?rec]\<rparr>"
  have load: "load_class r stub = Inr r'"
    using len mat by (simp add: load_class_def slot_of_def r'_def push_opt_def split: option.splits)
  have m: "reader_slots r' = (reader_slots r)(?w \<mapsto> ?rec)"
    by (rule reader_slots_append [OF len]) (simp add: r'_def)
  have free: "reader_slots r ?w = None"
    using unat_word_of_nat_32 [OF len] by (simp add: reader_slots_def)
  have bi: "hget (rd_by_internal r') n = Some w \<longleftrightarrow>
      (\<exists>rec. reader_slots r' w = Some rec \<and> sc_internal_name (cr_stub rec) = n)" for n w
  proof -
    note old = reader_by_internal [OF inv]
    have other: "reader_slots r w = Some rec \<Longrightarrow> sc_internal_name (cr_stub rec) \<noteq> sc_internal_name stub" for rec
      using old [of "sc_internal_name stub" w] new by auto
    have "hget (rd_by_internal r') = (hget (rd_by_internal r))(sc_internal_name stub \<mapsto> ?w)"
      by (simp add: r'_def)
    then show ?thesis using other old [of n w] free by (auto simp: m)
  qed
  have "reader_inv r'"
    unfolding reader_inv_def
  proof (intro conjI allI bi)
    show "length (rd_classes r') \<le> 2 ^ 32" using len by (simp add: r'_def)
    show "\<forall>rec\<in>set (rd_classes r'). materialize (cr_stub rec) = Inr (cr_materialized rec)"
      using inv mat by (simp add: r'_def reader_inv_def)
    have ins: "index_ok proj (push_opt idx (proj ?rec) ?w) (reader_slots r')"
      if "index_ok proj idx (reader_slots r)" for proj :: "artifact_class_record \<Rightarrow> str option" and idx
      unfolding m using that free by (rule index_ok_insert)
    show "index_ok (Some \<circ> sc_name \<circ> cr_stub) (rd_simple_name_index r') (reader_slots r')"
      using ins [of "Some \<circ> sc_name \<circ> cr_stub" "rd_simple_name_index r"] inv
      by (simp add: r'_def reader_inv_def)
    show "index_ok (sc_package \<circ> cr_stub) (rd_package_index r') (reader_slots r')"
      using ins [of "sc_package \<circ> cr_stub" "rd_package_index r"] inv by (simp add: r'_def reader_inv_def)
    show "index_ok (sc_inner_class_of \<circ> cr_stub) (rd_owner_index r') (reader_slots r')"
      using ins [of "sc_inner_class_of \<circ> cr_stub" "rd_owner_index r"] inv
      by (simp add: r'_def reader_inv_def)
  qed
  then show ?thesis using that [OF load] by (simp add: r'_def)
qed

text \<open>The reader of an archive holds its stubs in order.\<close>

lemma load_classes_ok:
  assumes "reader_inv r" "length (rd_classes r) + length stubs \<le> 2 ^ 32"
    "\<And>s. s \<in> set stubs \<Longrightarrow> \<exists>c. materialize s = Inr c" "distinct (map sc_internal_name stubs)"
    "\<And>s. s \<in> set stubs \<Longrightarrow> hget (rd_by_internal r) (sc_internal_name s) = None"
  shows "\<exists>r'. load_classes r stubs = Inr r' \<and> reader_inv r'
    \<and> map cr_stub (rd_classes r') = map cr_stub (rd_classes r) @ stubs
    \<and> rd_metadata r' = rd_metadata r"
  using assms
proof (induction stubs arbitrary: r)
  case (Cons stub stubs)
  from Cons.prems(3) [of stub] obtain c where c: "materialize stub = Inr c" by auto
  from Cons.prems have "length (rd_classes r) < 2 ^ 32" "hget (rd_by_internal r) (sc_internal_name stub) = None"
    by auto
  from load_class_ok [OF Cons.prems(1) this(1) c this(2)] obtain r' where
    r': "load_class r stub = Inr r'" "reader_inv r'"
      "rd_classes r' = rd_classes r @ [\<lparr>cr_stub = stub, cr_materialized = c\<rparr>]"
      "hget (rd_by_internal r') = (hget (rd_by_internal r))
         (sc_internal_name stub \<mapsto> word_of_nat (length (rd_classes r)))"
      "rd_metadata r' = rd_metadata r" by blast
  have "\<exists>r''. load_classes r' stubs = Inr r'' \<and> reader_inv r''
      \<and> map cr_stub (rd_classes r'') = map cr_stub (rd_classes r') @ stubs
      \<and> rd_metadata r'' = rd_metadata r'"
    using Cons.prems r' by (intro Cons.IH) (auto simp: image_iff)
  with r' show ?case by auto
qed simp

lemma empty_reader_inv:
  "reader_inv \<lparr>rd_metadata = md, rd_classes = [], rd_by_internal = [], rd_simple_name_index = [],
     rd_package_index = [], rd_owner_index = [], rd_modules = ms\<rparr>"
proof -
  have "reader_slots \<lparr>rd_metadata = md, rd_classes = [], rd_by_internal = [], rd_simple_name_index = [],
     rd_package_index = [], rd_owner_index = [], rd_modules = ms\<rparr> = (\<lambda>_. None)"
    by (simp add: reader_slots_def fun_eq_iff)
  then show ?thesis by (simp add: reader_inv_def)
qed

definition archive_ok :: "stored_artifact_archive \<Rightarrow> bool" where
  "archive_ok a \<longleftrightarrow> length (aa_classes a) \<le> 2 ^ 32 \<and> distinct (map sc_internal_name (aa_classes a)) \<and>
     list_all (\<lambda>s. \<not> isl (materialize s)) (aa_classes a)"

lemma from_archive_ok:
  assumes "archive_ok a"
  obtains r where "from_archive a = Inr r" "reader_inv r" "map cr_stub (rd_classes r) = aa_classes a"
    "rd_metadata r = aa_metadata a"
proof -
  have "\<exists>c. materialize s = Inr c" if "s \<in> set (aa_classes a)" for s
    using assms that by (cases "materialize s") (auto simp: archive_ok_def list_all_iff)
  with load_classes_ok [OF empty_reader_inv, where stubs = "aa_classes a"] assms that
  show ?thesis by (auto simp: archive_ok_def from_archive_def)
qed

subsection \<open>The reader as a source of classes\<close>

definition reader_lookup :: "artifact_scope_reader \<Rightarrow> str \<Rightarrow> class_metadata option" where
  "reader_lookup r n =
     (case get_class_handle r n of None \<Rightarrow> None | Some h \<Rightarrow> reader_get_class r h)"

definition reader_resolve :: "artifact_scope_reader \<Rightarrow> artifact_class_handle list \<Rightarrow> class_metadata list" where
  "reader_resolve r hs = List.map_filter (reader_get_class r) hs"

lemma reader_get_class_slot: "reader_get_class r (handle_at r w) = map_option cr_materialized (reader_slots r w)"
  by (simp add: reader_get_class_def reader_record_def reader_slots_def)

lemma reader_slot_class:
  assumes "reader_inv r" "reader_slots r w = Some rec"
  shows "materialize (cr_stub rec) = Inr (cr_materialized rec)"
proof -
  from assms(2) have "rec \<in> set (rd_classes r)" by (auto simp: reader_slots_def split: if_splits)
  with assms(1) show ?thesis by (simp add: reader_inv_def)
qed

lemma reader_lookup_iff:
  assumes "reader_inv r"
  shows "reader_lookup r n = Some c \<longleftrightarrow>
    (\<exists>w rec. reader_slots r w = Some rec \<and> sc_internal_name (cr_stub rec) = n \<and> cr_materialized rec = c)"
proof
  assume "reader_lookup r n = Some c"
  then obtain w rec where "hget (rd_by_internal r) n = Some w" "reader_slots r w = Some rec"
    "cr_materialized rec = c"
    by (auto simp: reader_lookup_def get_class_handle_def reader_get_class_slot split: option.splits)
  then show "\<exists>w rec. reader_slots r w = Some rec \<and> sc_internal_name (cr_stub rec) = n
      \<and> cr_materialized rec = c"
    using reader_by_internal [OF assms, of n w] by auto
next
  assume "\<exists>w rec. reader_slots r w = Some rec \<and> sc_internal_name (cr_stub rec) = n \<and> cr_materialized rec = c"
  then obtain w rec where w: "reader_slots r w = Some rec" "sc_internal_name (cr_stub rec) = n"
    "cr_materialized rec = c" by blast
  then have "hget (rd_by_internal r) n = Some w" using reader_by_internal [OF assms] by blast
  with w show "reader_lookup r n = Some c"
    by (simp add: reader_lookup_def get_class_handle_def reader_get_class_slot)
qed

lemma reader_resolve_set:
  assumes "reader_inv r" "index_ok proj idx (reader_slots r)"
    "\<And>rec. materialize (cr_stub rec) = Inr (cr_materialized rec) \<Longrightarrow> p (cr_materialized rec) = proj rec"
  shows "set (reader_resolve r (handles_of_entry r idx k)) = classes_with (reader_lookup r) (\<lambda>c. p c = Some k)"
proof -
  have mem: "w \<in> set (ids_of idx k) \<longleftrightarrow> (\<exists>rec. reader_slots r w = Some rec \<and> proj rec = Some k)" for w
    using assms(2) by (simp add: index_ok_def)
  have "set (reader_resolve r (handles_of_entry r idx k))
      = {c. \<exists>w\<in>set (ids_of idx k). map_option cr_materialized (reader_slots r w) = Some c}"
    by (auto simp: reader_resolve_def handles_of_entry_def set_map_filter ids_of_def reader_get_class_slot)
  also have "\<dots> = {c. \<exists>w rec. reader_slots r w = Some rec \<and> proj rec = Some k \<and> cr_materialized rec = c}"
    using mem by fastforce
  also have "\<dots> = {c. \<exists>w rec. reader_slots r w = Some rec \<and> p c = Some k \<and> cr_materialized rec = c}"
    using assms(3) [OF reader_slot_class [OF assms(1)]] by (intro Collect_cong) metis
  also have "\<dots> = classes_with (reader_lookup r) (\<lambda>c. p c = Some k)"
    unfolding classes_with_def reader_lookup_iff [OF assms(1)] by blast
  finally show ?thesis .
qed

interpretation reader: class_source reader_inv reader_lookup reader_exact_match_keys
  "\<lambda>r k. reader_resolve r (class_handles_by_simple_name r k)"
  "\<lambda>r p. reader_resolve r (class_handles_in_package r p)"
  "\<lambda>r k. reader_resolve r (direct_inner_class_handles r k)"
proof unfold_locales
  fix r n c k p
  assume inv: "reader_inv r"
  show "reader_lookup r n = Some c \<Longrightarrow> cm_internal_name c = n"
    unfolding reader_lookup_iff [OF inv]
    using reader_slot_class [OF inv] materialize_simps(1) by metis
  have "hget (rd_by_internal r) n = None \<longleftrightarrow> reader_lookup r n = None" for n
  proof (cases "hget (rd_by_internal r) n")
    case (Some w)
    with reader_by_internal [OF inv, of n w] show ?thesis
      by (auto simp: reader_lookup_def get_class_handle_def reader_get_class_slot)
  qed (simp add: reader_lookup_def get_class_handle_def)
  then show "set (reader_exact_match_keys r) = dom (reader_lookup r)"
    by (auto simp: reader_exact_match_keys_def dom_def)
  show "set (reader_resolve r (class_handles_by_simple_name r k))
      = classes_with (reader_lookup r) (\<lambda>c. cm_name c = k)"
    using reader_resolve_set [of r "Some \<circ> sc_name \<circ> cr_stub" "rd_simple_name_index r" "Some \<circ> cm_name" k]
      inv materialize_simps(2)
    by (simp add: class_handles_by_simple_name_def reader_inv_def)
  show "set (reader_resolve r (class_handles_in_package r p))
      = classes_with (reader_lookup r) (\<lambda>c. cm_package c = Some (slashed p))"
    using reader_resolve_set [of r "sc_package \<circ> cr_stub" "rd_package_index r" cm_package "slashed p"]
      inv materialize_simps(3)
    by (simp add: class_handles_in_package_def reader_inv_def)
  show "set (reader_resolve r (direct_inner_class_handles r k))
      = classes_with (reader_lookup r) (\<lambda>c. cm_inner_class_of c = Some k)"
    using reader_resolve_set [of r "sc_inner_class_of \<circ> cr_stub" "rd_owner_index r" cm_inner_class_of k]
      inv materialize_simps(4)
    by (simp add: direct_inner_class_handles_def reader_inv_def)
qed


subsection \<open>Handles stay in range\<close>

lemma reader_handles_valid:
  assumes "reader_inv r" "get_class_handle r n = Some h"
  shows "ch_artifact_id h = reader_artifact_id r" "unat (ch_slot h) < length (rd_classes r)"
proof -
  from assms(2) obtain w where w: "hget (rd_by_internal r) n = Some w" "h = handle_at r w"
    by (auto simp: get_class_handle_def)
  with reader_by_internal [OF assms(1), of n w] show "unat (ch_slot h) < length (rd_classes r)"
    by (auto simp: reader_slots_def split: if_splits)
  from w show "ch_artifact_id h = reader_artifact_id r" by (simp add: reader_artifact_id_def)
qed

lemma load_classes_length:
  "load_classes r stubs = Inr r' \<Longrightarrow> length (rd_classes r) \<le> 2 ^ 32 \<Longrightarrow>
     length (rd_classes r) + length stubs \<le> 2 ^ 32"
proof (induction stubs arbitrary: r)
  case (Cons stub stubs)
  then obtain t where t: "load_class r stub = Inr t" "load_classes t stubs = Inr r'"
    by (auto simp: and_then_Inr)
  from t(1) have "length (rd_classes t) = Suc (length (rd_classes r))" "length (rd_classes r) < 2 ^ 32"
    by (auto simp: load_class_def slot_of_def and_then_Inr split: if_splits)
  with Cons.IH [OF t(2)] show ?case by simp
qed simp

lemma iter_all_class_handles_ok:
  assumes "length (rd_classes r) \<le> 2 ^ 32"
  shows "iter_all_class_handles r = Inr (map (handle_at r \<circ> word_of_nat) [0..<length (rd_classes r)])"
  unfolding iter_all_class_handles_def using assms by (intro try_map_Inr) (simp add: slot_of_def)

lemma iter_all_resolves:
  assumes "reader_inv r"
  shows "map (reader_get_class r \<circ> handle_at r \<circ> word_of_nat) [0..<length (rd_classes r)]
    = map (Some \<circ> cr_materialized) (rd_classes r)"
proof (rule nth_equalityI)
  fix i assume "i < length (map (reader_get_class r \<circ> handle_at r \<circ> word_of_nat) [0..<length (rd_classes r)])"
  then have i: "i < length (rd_classes r)" by simp
  moreover have "length (rd_classes r) \<le> 2 ^ 32" using assms by (simp add: reader_inv_def)
  ultimately have "unat (word_of_nat i :: 32 word) = i" by (intro unat_word_of_nat_32) simp
  then show "map (reader_get_class r \<circ> handle_at r \<circ> word_of_nat) [0..<length (rd_classes r)] ! i
      = map (Some \<circ> cr_materialized) (rd_classes r) ! i"
    using i by (simp add: reader_get_class_slot reader_slots_def)
qed simp

lemma reader_slots_ran:
  assumes "reader_inv r"
  shows "(\<exists>w. reader_slots r w = Some rec) \<longleftrightarrow> rec \<in> set (rd_classes r)"
proof
  assume "rec \<in> set (rd_classes r)"
  then obtain i where i: "i < length (rd_classes r)" "rd_classes r ! i = rec"
    by (auto simp: in_set_conv_nth)
  moreover have "length (rd_classes r) \<le> 2 ^ 32" using assms by (simp add: reader_inv_def)
  ultimately have "unat (word_of_nat i :: 32 word) = i" by (intro unat_word_of_nat_32) simp
  with i have "reader_slots r (word_of_nat i) = Some rec" by (simp add: reader_slots_def)
  then show "\<exists>w. reader_slots r w = Some rec" ..
qed (auto simp: reader_slots_def split: if_splits)

lemma reader_resolve_map: "map (reader_get_class r) hs = map Some cs \<Longrightarrow> reader_resolve r hs = cs"
  by (induction hs arbitrary: cs) (auto simp: reader_resolve_def map_filter_simps)

lemma reader_iter_all_set:
  assumes "reader_inv r"
  shows "set (reader_resolve r (map (handle_at r \<circ> word_of_nat) [0..<length (rd_classes r)]))
    = classes_with (reader_lookup r) (\<lambda>_. True)"
proof -
  have "reader_resolve r (map (handle_at r \<circ> word_of_nat) [0..<length (rd_classes r)])
      = map cr_materialized (rd_classes r)"
    using iter_all_resolves [OF assms] by (intro reader_resolve_map) (simp add: comp_assoc)
  then have "set (reader_resolve r (map (handle_at r \<circ> word_of_nat) [0..<length (rd_classes r)]))
      = {c. \<exists>w rec. reader_slots r w = Some rec \<and> cr_materialized rec = c}"
    using reader_slots_ran [OF assms] by (simp only: set_map) blast
  then show ?thesis by (simp add: classes_with_def reader_lookup_iff [OF assms])
qed

subsection \<open>Properties\<close>

text \<open>
  C19. A reader refines its archive: for an archive of at most \<open>2 ^ 32\<close> classes with distinct
  internal names and rebuildable stubs, the reader is built without a panic, it finds under each
  internal name exactly the metadata rebuilt from the stub with that name, and enumerating its
  handles and resolving them gives the classes of the archive in order.
\<close>

theorem reader_refines_archive:
  assumes "archive_ok a"
  shows "\<exists>r. from_archive a = Inr r \<and> reader_inv r
    \<and> (\<forall>n c. reader_lookup r n = Some c \<longleftrightarrow>
         (\<exists>stub\<in>set (aa_classes a). sc_internal_name stub = n \<and> materialize stub = Inr c))
    \<and> map_ok (map (reader_get_class r)) (iter_all_class_handles r)
        = Inr (map (\<lambda>stub. Some (projr (materialize stub))) (aa_classes a))"
proof -
  obtain r where r: "from_archive a = Inr r" "reader_inv r" "map cr_stub (rd_classes r) = aa_classes a"
    by (rule from_archive_ok [OF assms])
  have len: "length (rd_classes r) \<le> 2 ^ 32" using r(2) by (simp add: reader_inv_def)
  have mat: "materialize (cr_stub rec) = Inr (cr_materialized rec)" if "rec \<in> set (rd_classes r)" for rec
    using r(2) that by (simp add: reader_inv_def)
  have lookup: "reader_lookup r n = Some c \<longleftrightarrow>
      (\<exists>stub\<in>set (aa_classes a). sc_internal_name stub = n \<and> materialize stub = Inr c)" for n c
  proof -
    have "reader_lookup r n = Some c \<longleftrightarrow>
        (\<exists>rec\<in>set (rd_classes r). sc_internal_name (cr_stub rec) = n \<and> cr_materialized rec = c)"
      unfolding reader_lookup_iff [OF r(2)] using reader_slots_ran [OF r(2)] by blast
    also have "\<dots> \<longleftrightarrow> (\<exists>rec\<in>set (rd_classes r). sc_internal_name (cr_stub rec) = n
        \<and> materialize (cr_stub rec) = Inr c)" using mat by auto
    also have "\<dots> \<longleftrightarrow> (\<exists>stub\<in>set (aa_classes a). sc_internal_name stub = n \<and> materialize stub = Inr c)"
      unfolding r(3) [symmetric] by simp
    finally show ?thesis .
  qed
  have "map_ok (map (reader_get_class r)) (iter_all_class_handles r)
      = Inr (map (Some \<circ> cr_materialized) (rd_classes r))"
    using iter_all_resolves [OF r(2)] by (simp add: iter_all_class_handles_ok [OF len] comp_assoc)
  also have "map (Some \<circ> cr_materialized) (rd_classes r)
      = map (\<lambda>stub. Some (projr (materialize stub))) (aa_classes a)"
    unfolding r(3) [symmetric] using mat by simp
  finally show ?thesis using r lookup by blast
qed

theorem reader_refines_archive_witness:
  "\<exists>r. from_archive \<lparr>aa_metadata = \<lparr>am_id = 7, am_kind = KindJar, am_source_path = ''x.jar'',
          am_content_hash = 0, am_byte_len = 0, am_stored_at_unix_secs = 0\<rparr>,
        aa_classes = [from_class_metadata (plain_class (Some ''p'') ''A'' ''p/A'' (Jar ''x.jar''))],
        aa_modules = []\<rparr> = Inr r
     \<and> reader_lookup r ''p/A'' = Some (plain_class (Some ''p'') ''A'' ''p/A'' (Jar ''x.jar''))"
proof -
  let ?s = "from_class_metadata (plain_class (Some ''p'') ''A'' ''p/A'' (Jar ''x.jar''))"
  let ?a = "\<lparr>aa_metadata = \<lparr>am_id = 7, am_kind = KindJar, am_source_path = ''x.jar'',
      am_content_hash = 0, am_byte_len = 0, am_stored_at_unix_secs = 0\<rparr>,
      aa_classes = [?s], aa_modules = []\<rparr>"
  have m: "materialize ?s = Inr (plain_class (Some ''p'') ''A'' ''p/A'' (Jar ''x.jar''))"
    by (simp add: materialize_def from_class_metadata_def plain_class_def materialize_annotations_def
          annotation_targets_def annotation_retention_def)
  have n: "sc_internal_name ?s = ''p/A''" by (simp add: from_class_metadata_def plain_class_def)
  have "archive_ok ?a" using m by (simp add: archive_ok_def)
  from reader_refines_archive [OF this] m n show ?thesis by auto
qed



end
