(* ===== verification/Index_View.thy ===== *)
theory Index_View
  imports Bucket_Index Artifact_Reader
begin

text \<open>
  The scope of an analysis context (\<open>index/scope_snapshot.rs\<close>, \<open>index/scope.rs\<close>) and the view
  that answers queries over it (\<open>index/view.rs\<close>): an ordered list of layers, each a bucket or the
  reader of an artifact, searched front to back, with source classes taking precedence.

  \<^item> Buckets are shared and mutable (\<open>Arc<BucketIndex>\<close>): a layer holds the address of a bucket, and
    \<open>wd_buckets\<close> gives the content of each address when the query runs. \<open>wd_readers\<close> is what
    \<open>artifact_reader\<close> returns for each artifact.
  \<^item> The per-view caches (\<open>IndexViewCaches\<close>) and the name table cell only memoise the results of
    these functions on the same world, and the request metrics only count; both are left out.
  \<^item> Definitions are named \<open>view_<method>\<close> after the methods of \<open>IndexView\<close>. A query that cuts
    descriptors or makes 32-bit slots may panic and returns \<open>rust_panic + 'a\<close>.
\<close>

subsection \<open>Scopes\<close>

type_synonym module_id = "32 word"

definition ROOT :: module_id where "ROOT = 0"

datatype classpath_id = Main | Test

type_synonym source_root_id = "32 word"

type_synonym analysis_context_key = "module_id \<times> classpath_id \<times> source_root_id option"

datatype scope_layer = Overlay nat | Artifact artifact_id

record scope_snapshot =
  ss_key :: analysis_context_key
  ss_layers :: "scope_layer list"
  ss_jar_paths :: "str list"

definition scope_new ::
  "module_id \<Rightarrow> classpath_id \<Rightarrow> source_root_id option \<Rightarrow> scope_layer list \<Rightarrow> str list \<Rightarrow> scope_snapshot" where
  "scope_new m cp root layers jars = \<lparr>ss_key = (m, cp, root), ss_layers = layers, ss_jar_paths = jars\<rparr>"

definition scope_from_layers :: "nat list \<Rightarrow> scope_snapshot" where
  "scope_from_layers buckets = scope_new ROOT Main None (map Overlay buckets) []"

definition scope_layer_count :: "scope_snapshot \<Rightarrow> nat" where
  "scope_layer_count sc = length (ss_layers sc)"

definition scope_jar_count :: "scope_snapshot \<Rightarrow> nat" where
  "scope_jar_count sc = length (ss_jar_paths sc)"

definition with_prepended_overlay :: "scope_snapshot \<Rightarrow> nat \<Rightarrow> scope_snapshot" where
  "with_prepended_overlay sc overlay =
     (case ss_key sc of (m, cp, root) \<Rightarrow>
        scope_new m cp root (Overlay overlay # ss_layers sc) (ss_jar_paths sc))"

record 'c world =
  wd_buckets :: "nat \<Rightarrow> 'c bucket_state"
  wd_readers :: "artifact_id \<Rightarrow> artifact_scope_reader option"

record 'c index_view =
  iv_world :: "'c world"
  iv_scope :: scope_snapshot

abbreviation bucket_at :: "'c index_view \<Rightarrow> nat \<Rightarrow> 'c bucket_state" where
  "bucket_at v b \<equiv> wd_buckets (iv_world v) b"

abbreviation artifact_reader :: "'c index_view \<Rightarrow> artifact_id \<Rightarrow> artifact_scope_reader option" where
  "artifact_reader v i \<equiv> wd_readers (iv_world v) i"

definition layers :: "'c index_view \<Rightarrow> scope_layer list" where
  "layers v = ss_layers (iv_scope v)"

definition layer_names :: "'c index_view \<Rightarrow> scope_layer \<Rightarrow> str list" where
  "layer_names v layer =
     (case layer of
        Overlay b \<Rightarrow> bucket_exact_match_keys (bucket_at v b)
      | Artifact i \<Rightarrow>
          (case artifact_reader v i of None \<Rightarrow> [] | Some r \<Rightarrow> reader_exact_match_keys r))"

text \<open>Appending an element unless one with its key was appended before.\<close>

definition push_new :: "('a \<Rightarrow> 'k) \<Rightarrow> 'a \<Rightarrow> 'a list \<times> 'k set \<Rightarrow> 'a list \<times> 'k set" where
  "push_new key x = (\<lambda>(out, seen). if key x \<in> seen then (out, seen) else (out @ [x], insert (key x) seen))"

definition scope_build_name_table :: "'c index_view \<Rightarrow> name_table" where
  "scope_build_name_table v =
     name_table_from_names
       (fst (fold (\<lambda>layer. fold (push_new id) (layer_names v layer)) (layers v) ([], {})))"

subsection \<open>Class references\<close>

datatype class_handle_ref = OverlayRef nat str | ArtifactRef artifact_class_handle

definition overlay_ref :: "nat \<Rightarrow> class_metadata \<Rightarrow> class_handle_ref" where
  "overlay_ref b c = OverlayRef b (cm_internal_name c)"

definition overlay_refs :: "nat \<Rightarrow> class_metadata list \<Rightarrow> class_handle_ref list" where
  "overlay_refs b cs = map (overlay_ref b) cs"

text \<open>\<open>scope.artifact_reader(handle.artifact_id).and_then(f)\<close>\<close>

definition with_reader ::
  "'c index_view \<Rightarrow> artifact_class_handle \<Rightarrow> (artifact_scope_reader \<Rightarrow> 'a option) \<Rightarrow> 'a option" where
  "with_reader v h f = (case artifact_reader v (ch_artifact_id h) of None \<Rightarrow> None | Some r \<Rightarrow> f r)"

definition resolve_class_ref :: "'c index_view \<Rightarrow> class_handle_ref \<Rightarrow> class_metadata option" where
  "resolve_class_ref v ref =
     (case ref of
        OverlayRef b n \<Rightarrow> bucket_get_class (bucket_at v b) n
      | ArtifactRef h \<Rightarrow> with_reader v h (\<lambda>r. reader_get_class r h))"

definition resolve_class_refs :: "'c index_view \<Rightarrow> class_handle_ref list \<Rightarrow> class_metadata list" where
  "resolve_class_refs v refs = List.map_filter (resolve_class_ref v) refs"

definition class_ref_internal_name :: "'c index_view \<Rightarrow> class_handle_ref \<Rightarrow> str option" where
  "class_ref_internal_name v ref =
     (case ref of
        OverlayRef b n \<Rightarrow> Some n
      | ArtifactRef h \<Rightarrow> with_reader v h (\<lambda>r. class_internal_name r h))"

definition class_ref_origin :: "'c index_view \<Rightarrow> class_handle_ref \<Rightarrow> class_origin option" where
  "class_ref_origin v ref =
     (case ref of
        OverlayRef b n \<Rightarrow> map_option cm_origin (bucket_get_class (bucket_at v b) n)
      | ArtifactRef h \<Rightarrow> with_reader v h (\<lambda>r. reader_class_origin r h))"

definition class_ref_direct_name :: "'c index_view \<Rightarrow> class_handle_ref \<Rightarrow> str option" where
  "class_ref_direct_name v ref =
     (case ref of
        OverlayRef b n \<Rightarrow> map_option cm_name (bucket_get_class (bucket_at v b) n)
      | ArtifactRef h \<Rightarrow> with_reader v h (\<lambda>r. class_name r h))"

definition origin_precedence :: "class_metadata \<Rightarrow> nat" where
  "origin_precedence c = (case cm_origin c of SourceFile _ \<Rightarrow> 2 | _ \<Rightarrow> 1)"

definition should_replace :: "class_metadata \<Rightarrow> class_metadata \<Rightarrow> bool" where
  "should_replace current candidate \<longleftrightarrow> origin_precedence candidate > origin_precedence current"

definition class_ref_origin_precedence :: "'c index_view \<Rightarrow> class_handle_ref \<Rightarrow> nat" where
  "class_ref_origin_precedence v ref =
     (case (case ref of
              OverlayRef b n \<Rightarrow> map_option origin_precedence (bucket_get_class (bucket_at v b) n)
            | ArtifactRef h \<Rightarrow> with_reader v h (\<lambda>r. class_origin_precedence r h))
      of None \<Rightarrow> 0 | Some p \<Rightarrow> p)"

definition should_replace_ref :: "'c index_view \<Rightarrow> class_handle_ref \<Rightarrow> class_handle_ref \<Rightarrow> bool" where
  "should_replace_ref v current candidate \<longleftrightarrow>
     class_ref_origin_precedence v candidate > class_ref_origin_precedence v current"

definition ACC_ANNOTATION :: "16 word" where "ACC_ANNOTATION = 0x2000"

definition class_ref_is_annotation :: "'c index_view \<Rightarrow> class_handle_ref \<Rightarrow> bool" where
  "class_ref_is_annotation v ref =
     (case (case ref of
              OverlayRef b n \<Rightarrow> map_option cm_access_flags (bucket_get_class (bucket_at v b) n)
            | ArtifactRef h \<Rightarrow> with_reader v h (\<lambda>r. class_access_flags r h))
      of None \<Rightarrow> False | Some flags \<Rightarrow> flags AND ACC_ANNOTATION \<noteq> 0)"

definition class_ref_matches_simple_name :: "'c index_view \<Rightarrow> class_handle_ref \<Rightarrow> str \<Rightarrow> bool" where
  "class_ref_matches_simple_name v ref simple =
     (case ref of
        OverlayRef b n \<Rightarrow>
          (case bucket_get_class (bucket_at v b) n of
             None \<Rightarrow> False | Some c \<Rightarrow> matches_simple_name c simple)
      | ArtifactRef h \<Rightarrow>
          (case artifact_reader v (ch_artifact_id h) of
             None \<Rightarrow> False | Some r \<Rightarrow> class_matches_simple_name r h simple))"

definition class_ref_matches_internal_name_tail :: "'c index_view \<Rightarrow> class_handle_ref \<Rightarrow> str \<Rightarrow> bool" where
  "class_ref_matches_internal_name_tail v ref tail =
     (case ref of
        OverlayRef b n \<Rightarrow>
          (case bucket_get_class (bucket_at v b) n of
             None \<Rightarrow> False | Some c \<Rightarrow> matches_internal_name_tail c tail)
      | ArtifactRef h \<Rightarrow>
          (case artifact_reader v (ch_artifact_id h) of
             None \<Rightarrow> False | Some r \<Rightarrow> class_matches_internal_name_tail r h tail))"

definition class_ref_parent_internals :: "'c index_view \<Rightarrow> class_handle_ref \<Rightarrow> str list" where
  "class_ref_parent_internals v ref =
     (case ref of
        OverlayRef b n \<Rightarrow>
          (case bucket_get_class (bucket_at v b) n of
             None \<Rightarrow> []
           | Some c \<Rightarrow> (case cm_super_name c of None \<Rightarrow> [] | Some sn \<Rightarrow> [sn]) @ cm_interfaces c)
      | ArtifactRef h \<Rightarrow>
          (case artifact_reader v (ch_artifact_id h) of
             None \<Rightarrow> []
           | Some r \<Rightarrow>
               (case class_super_name r h of Some (Some sn) \<Rightarrow> [sn] | _ \<Rightarrow> [])
               @ (case class_interfaces r h of None \<Rightarrow> [] | Some ifs \<Rightarrow> ifs)))"

subsection \<open>What a layer contributes\<close>

definition layer_get_class_ref :: "'c index_view \<Rightarrow> scope_layer \<Rightarrow> str \<Rightarrow> class_handle_ref option" where
  "layer_get_class_ref v layer n =
     (case layer of
        Overlay b \<Rightarrow> map_option (overlay_ref b) (bucket_get_class (bucket_at v b) n)
      | Artifact i \<Rightarrow>
          (case artifact_reader v i of
             None \<Rightarrow> None | Some r \<Rightarrow> map_option ArtifactRef (get_class_handle r n)))"

definition layer_refs ::
  "('c bucket_state \<Rightarrow> class_metadata list) \<Rightarrow> (artifact_scope_reader \<Rightarrow> artifact_class_handle list)
     \<Rightarrow> 'c index_view \<Rightarrow> scope_layer \<Rightarrow> class_handle_ref list" where
  "layer_refs of_bucket of_reader v layer =
     (case layer of
        Overlay b \<Rightarrow> overlay_refs b (of_bucket (bucket_at v b))
      | Artifact i \<Rightarrow>
          (case artifact_reader v i of None \<Rightarrow> [] | Some r \<Rightarrow> map ArtifactRef (of_reader r)))"

definition layer_classes_by_simple_name_refs ::
  "'c index_view \<Rightarrow> scope_layer \<Rightarrow> str \<Rightarrow> class_handle_ref list" where
  "layer_classes_by_simple_name_refs v layer simple =
     layer_refs (\<lambda>s. bucket_get_classes_by_simple_name s simple)
       (\<lambda>r. class_handles_by_simple_name r simple) v layer"

definition layer_classes_in_package_refs ::
  "'c index_view \<Rightarrow> scope_layer \<Rightarrow> str \<Rightarrow> class_handle_ref list" where
  "layer_classes_in_package_refs v layer pkg =
     layer_refs (\<lambda>s. bucket_classes_in_package s pkg) (\<lambda>r. class_handles_in_package r pkg) v layer"

definition layer_direct_inner_class_refs ::
  "'c index_view \<Rightarrow> scope_layer \<Rightarrow> str \<Rightarrow> class_handle_ref list" where
  "layer_direct_inner_class_refs v layer owner =
     layer_refs (\<lambda>s. bucket_direct_inner_classes_by_owner s owner)
       (\<lambda>r. direct_inner_class_handles r owner) v layer"

definition layer_iter_all_class_refs ::
  "'c index_view \<Rightarrow> scope_layer \<Rightarrow> rust_panic + class_handle_ref list" where
  "layer_iter_all_class_refs v layer =
     (case layer of
        Overlay b \<Rightarrow> Inr (overlay_refs b (bucket_iter_all_classes (bucket_at v b)))
      | Artifact i \<Rightarrow>
          (case artifact_reader v i of
             None \<Rightarrow> Inr [] | Some r \<Rightarrow> map_ok (map ArtifactRef) (iter_all_class_handles r)))"

subsection \<open>Merging layers\<close>

text \<open>
  One turn of the loop of \<open>merge_class_refs\<close>, on the positions of the names and the merged list. A
  position is always in range, so the source's \<open>merged[existing]\<close> does not panic.
\<close>

definition merge_ref ::
  "'c index_view \<Rightarrow> class_handle_ref \<Rightarrow> (str, nat) hash_map \<times> class_handle_ref list
     \<Rightarrow> (str, nat) hash_map \<times> class_handle_ref list" where
  "merge_ref v ref = (\<lambda>(positions, merged).
     (case class_ref_internal_name v ref of
        None \<Rightarrow> (positions, merged)
      | Some key \<Rightarrow>
          (case hget positions key of
             Some existing \<Rightarrow>
               (positions,
                if should_replace_ref v (merged ! existing) ref then merged[existing := ref] else merged)
           | None \<Rightarrow> (hinsert key (length merged) positions, merged @ [ref]))))"

definition merge_refs :: "'c index_view \<Rightarrow> class_handle_ref list list \<Rightarrow> class_handle_ref list" where
  "merge_refs v fetched = snd (fold (fold (merge_ref v)) fetched ([], []))"

definition merge_class_refs ::
  "'c index_view \<Rightarrow> (scope_layer \<Rightarrow> class_handle_ref list) \<Rightarrow> class_handle_ref list" where
  "merge_class_refs v fetch = merge_refs v (map fetch (layers v))"

text \<open>The loop \<open>best\<close> over candidates: the first one, replaced by one of higher precedence.\<close>

definition better_ref ::
  "'c index_view \<Rightarrow> class_handle_ref \<Rightarrow> class_handle_ref option \<Rightarrow> class_handle_ref option" where
  "better_ref v candidate best =
     (case best of
        None \<Rightarrow> Some candidate
      | Some current \<Rightarrow> if should_replace_ref v current candidate then Some candidate else best)"

definition get_class_ref_by_internal :: "'c index_view \<Rightarrow> str \<Rightarrow> class_handle_ref option" where
  "get_class_ref_by_internal v n =
     fold (\<lambda>layer best. case layer_get_class_ref v layer n of
             None \<Rightarrow> best | Some candidate \<Rightarrow> better_ref v candidate best) (layers v) None"

definition view_get_class :: "'c index_view \<Rightarrow> str \<Rightarrow> class_metadata option" where
  "view_get_class v n =
     (case get_class_ref_by_internal v n of None \<Rightarrow> None | Some ref \<Rightarrow> resolve_class_ref v ref)"

definition view_get_classes_by_simple_name :: "'c index_view \<Rightarrow> str \<Rightarrow> class_metadata list" where
  "view_get_classes_by_simple_name v simple =
     resolve_class_refs v
       (merge_class_refs v (\<lambda>layer. layer_classes_by_simple_name_refs v layer simple))"

definition classes_in_package_refs :: "'c index_view \<Rightarrow> str \<Rightarrow> class_handle_ref list" where
  "classes_in_package_refs v pkg =
     merge_class_refs v (\<lambda>layer. layer_classes_in_package_refs v layer pkg)"

definition view_classes_in_package :: "'c index_view \<Rightarrow> str \<Rightarrow> class_metadata list" where
  "view_classes_in_package v pkg = resolve_class_refs v (classes_in_package_refs v pkg)"

definition top_level_classes_in_package :: "'c index_view \<Rightarrow> str \<Rightarrow> class_metadata list" where
  "top_level_classes_in_package v pkg =
     filter (\<lambda>c. cm_inner_class_of c = None) (view_classes_in_package v pkg)"

definition view_direct_inner_classes_of :: "'c index_view \<Rightarrow> str \<Rightarrow> class_metadata list" where
  "view_direct_inner_classes_of v owner =
     resolve_class_refs v (merge_class_refs v (\<lambda>layer. layer_direct_inner_class_refs v layer owner))"

definition view_resolve_direct_inner_class ::
  "'c index_view \<Rightarrow> str \<Rightarrow> str \<Rightarrow> class_metadata option" where
  "view_resolve_direct_inner_class v owner simple =
     (case fold (\<lambda>layer best.
              fold (\<lambda>candidate best'.
                 if class_ref_matches_simple_name v candidate simple
                 then better_ref v candidate best' else best')
                (layer_direct_inner_class_refs v layer owner) best) (layers v) None
      of None \<Rightarrow> None | Some ref \<Rightarrow> resolve_class_ref v ref)"

definition view_iter_all_classes :: "'c index_view \<Rightarrow> rust_panic + class_metadata list" where
  "view_iter_all_classes v =
     map_ok (\<lambda>fetched. resolve_class_refs v (merge_refs v fetched))
       (try_map (layer_iter_all_class_refs v) (layers v))"

definition annotation_classes :: "'c index_view \<Rightarrow> rust_panic + class_metadata list" where
  "annotation_classes v =
     map_ok (\<lambda>fetched. resolve_class_refs v
         (merge_refs v (map (filter (class_ref_is_annotation v)) fetched)))
       (try_map (layer_iter_all_class_refs v) (layers v))"

definition get_unique_class_by_simple_name :: "'c index_view \<Rightarrow> str \<Rightarrow> class_metadata option" where
  "get_unique_class_by_simple_name v simple =
     (case view_get_classes_by_simple_name v simple of [c] \<Rightarrow> Some c | _ \<Rightarrow> None)"

definition view_has_package :: "'c index_view \<Rightarrow> str \<Rightarrow> bool" where
  "view_has_package v pkg \<longleftrightarrow>
     list_ex (\<lambda>layer. case layer of
       Overlay b \<Rightarrow> bucket_has_package (bucket_at v b) pkg
     | Artifact i \<Rightarrow>
         (case artifact_reader v i of None \<Rightarrow> False | Some r \<Rightarrow> reader_has_package r pkg)) (layers v)"

definition view_has_classes_in_package :: "'c index_view \<Rightarrow> str \<Rightarrow> bool" where
  "view_has_classes_in_package v pkg \<longleftrightarrow>
     list_ex (\<lambda>layer. case layer of
       Overlay b \<Rightarrow> bucket_has_classes_in_package (bucket_at v b) pkg
     | Artifact i \<Rightarrow>
         (case artifact_reader v i of None \<Rightarrow> False | Some r \<Rightarrow> reader_has_classes_in_package r pkg))
       (layers v)"

definition view_exact_match_keys :: "'c index_view \<Rightarrow> str list" where
  "view_exact_match_keys v = hkeys (scope_build_name_table v)"

definition view_get_source_type_name :: "'c index_view \<Rightarrow> str \<Rightarrow> str option" where
  "view_get_source_type_name v internal =
     map_option (\<lambda>c. qualified_source_name_with c (view_get_class v)) (view_get_class v internal)"

definition resolve_owner_class :: "'c index_view \<Rightarrow> str \<Rightarrow> class_metadata option" where
  "resolve_owner_class v class_internal =
     (case view_get_class v class_internal of
        None \<Rightarrow> None
      | Some c \<Rightarrow> (case cm_inner_class_of c of None \<Rightarrow> None | Some owner \<Rightarrow> view_get_class v owner))"

definition view_resolve_imports :: "'c index_view \<Rightarrow> str list \<Rightarrow> class_metadata list" where
  "view_resolve_imports v imports =
     fst (fold (\<lambda>import acc.
        if ends_with import ''.*'' then
          fold (push_new cm_internal_name)
            (view_classes_in_package v (slashed (trim_end_matches ''.*'' import))) acc
        else (case view_get_class v (slashed import) of
                None \<Rightarrow> acc | Some c \<Rightarrow> push_new cm_internal_name c acc)) imports ([], {}))"

definition view_fuzzy_autocomplete ::
  "(str \<Rightarrow> str \<Rightarrow> 32 word option) \<Rightarrow> 'c index_view \<Rightarrow> str \<Rightarrow> nat \<Rightarrow> str list" where
  "view_fuzzy_autocomplete score v query limit =
     fst (fold (\<lambda>layer. fold (push_new id)
        (case layer of
           Overlay b \<Rightarrow> bucket_fuzzy_autocomplete score (bucket_at v b) query limit
         | Artifact i \<Rightarrow>
             (case artifact_reader v i of
                None \<Rightarrow> [] | Some r \<Rightarrow> reader_fuzzy_autocomplete score r query limit)))
        (layers v) ([], {}))"

definition view_fuzzy_search_classes ::
  "(str \<Rightarrow> str \<Rightarrow> 32 word option) \<Rightarrow> 'c index_view \<Rightarrow> str \<Rightarrow> nat \<Rightarrow> class_metadata list" where
  "view_fuzzy_search_classes score v query limit =
     map snd (fold (\<lambda>name. fold (\<lambda>c by_internal.
        (case hget by_internal (cm_internal_name c) of
           Some current \<Rightarrow>
             if should_replace current c then hinsert (cm_internal_name c) c by_internal else by_internal
         | None \<Rightarrow> hinsert (cm_internal_name c) c by_internal))
        (view_get_classes_by_simple_name v name)) (view_fuzzy_autocomplete score v query limit) [])"

text \<open>A view with one more bucket in front; \<open>overlay\<close> is the address of the new bucket.\<close>

definition with_overlay_classes ::
  "'c lru_ops \<Rightarrow> 'c index_view \<Rightarrow> nat \<Rightarrow> class_metadata list \<Rightarrow> rust_panic + 'c index_view" where
  "with_overlay_classes L v overlay classes =
     (if classes = [] then Inr v
      else map_ok (\<lambda>s. \<lparr>iv_world = (iv_world v)\<lparr>wd_buckets := (wd_buckets (iv_world v))(overlay := s)\<rparr>,
                       iv_scope = with_prepended_overlay (iv_scope v) overlay\<rparr>)
             (bucket_add_classes L (bucket_new L) classes))"

end
