(* ===== verification/View_Members.thy ===== *)
theory View_Members
  imports Index_View
begin

text \<open>
  Members, hierarchies, references and navigation targets of a view (\<open>index/view.rs\<close>), with the
  reference types of \<open>index.rs\<close>. A class of the hierarchy is held as a reference; members of
  overlay classes are read from their bucket, members of artifact classes are rebuilt from stubs.
\<close>

subsection \<open>References\<close>

datatype type_ref = TypeSource str | TypeArtifact str artifact_class_handle

fun type_ref_internal_name :: "type_ref \<Rightarrow> str" where
  "type_ref_internal_name (TypeSource n) = n"
| "type_ref_internal_name (TypeArtifact n _) = n"

fun artifact_handle :: "type_ref \<Rightarrow> artifact_class_handle option" where
  "artifact_handle (TypeArtifact _ h) = Some h"
| "artifact_handle (TypeSource _) = None"

datatype navigation_decl_kind = DeclType | DeclMethod | DeclField

record navigation_symbol =
  ny_target_internal_name :: str
  ny_member_name :: "str option"
  ny_descriptor :: "str option"
  ny_fallback_name :: "str option"
  ny_decl_kind :: navigation_decl_kind

datatype navigation_target =
    NavSourceFile str "source_range option" navigation_symbol
  | NavZipSource str str navigation_symbol
  | NavBytecode str navigation_symbol

record method_ref =
  mr_owner :: type_ref
  mr_name :: str
  mr_descriptor :: str
  mr_access_flags :: "16 word"
  mr_artifact :: "artifact_method_handle option"

definition method_ref_source :: "type_ref \<Rightarrow> str \<Rightarrow> str \<Rightarrow> 16 word \<Rightarrow> method_ref" where
  "method_ref_source owner n d flags =
     \<lparr>mr_owner = owner, mr_name = n, mr_descriptor = d, mr_access_flags = flags, mr_artifact = None\<rparr>"

definition method_ref_artifact ::
  "type_ref \<Rightarrow> artifact_method_handle \<Rightarrow> str \<Rightarrow> str \<Rightarrow> 16 word \<Rightarrow> method_ref" where
  "method_ref_artifact owner h n d flags =
     \<lparr>mr_owner = owner, mr_name = n, mr_descriptor = d, mr_access_flags = flags, mr_artifact = Some h\<rparr>"

record field_ref =
  fr_owner :: type_ref
  fr_name :: str
  fr_descriptor :: str
  fr_access_flags :: "16 word"
  fr_artifact :: "artifact_field_handle option"

definition field_ref_source :: "type_ref \<Rightarrow> str \<Rightarrow> str \<Rightarrow> 16 word \<Rightarrow> field_ref" where
  "field_ref_source owner n d flags =
     \<lparr>fr_owner = owner, fr_name = n, fr_descriptor = d, fr_access_flags = flags, fr_artifact = None\<rparr>"

definition field_ref_artifact ::
  "type_ref \<Rightarrow> artifact_field_handle \<Rightarrow> str \<Rightarrow> str \<Rightarrow> 16 word \<Rightarrow> field_ref" where
  "field_ref_artifact owner h n d flags =
     \<lparr>fr_owner = owner, fr_name = n, fr_descriptor = d, fr_access_flags = flags, fr_artifact = Some h\<rparr>"

definition type_ref_from_class_ref :: "'c index_view \<Rightarrow> class_handle_ref \<Rightarrow> type_ref option" where
  "type_ref_from_class_ref v ref =
     (case ref of
        OverlayRef b n \<Rightarrow> Some (TypeSource n)
      | ArtifactRef h \<Rightarrow> map_option (\<lambda>n. TypeArtifact n h) (class_ref_internal_name v ref))"

definition class_ref_from_type_ref :: "'c index_view \<Rightarrow> type_ref \<Rightarrow> class_handle_ref option" where
  "class_ref_from_type_ref v t =
     (case t of
        TypeSource n \<Rightarrow> get_class_ref_by_internal v n
      | TypeArtifact n h \<Rightarrow> Some (ArtifactRef h))"

definition resolve_class_handle_ref :: "'c index_view \<Rightarrow> type_ref \<Rightarrow> class_handle_ref option" where
  "resolve_class_handle_ref v t = class_ref_from_type_ref v t"

definition get_class_ref :: "'c index_view \<Rightarrow> str \<Rightarrow> type_ref option" where
  "get_class_ref v n =
     (case get_class_ref_by_internal v n of None \<Rightarrow> None | Some ref \<Rightarrow> type_ref_from_class_ref v ref)"

definition materialize_class :: "'c index_view \<Rightarrow> type_ref \<Rightarrow> class_metadata option" where
  "materialize_class v t =
     (case resolve_class_handle_ref v t of None \<Rightarrow> None | Some ref \<Rightarrow> resolve_class_ref v ref)"

definition materialize_method :: "'c index_view \<Rightarrow> method_ref \<Rightarrow> rust_panic + method_summary option" where
  "materialize_method v mr =
     (case mr_artifact mr of
        Some h \<Rightarrow>
          (case artifact_reader v (ch_artifact_id (mh_class h)) of
             None \<Rightarrow> Inr None
           | Some r \<Rightarrow>
               (case reader_materialize_method r h of
                  None \<Rightarrow> Inr None | Some made \<Rightarrow> map_ok Some made))
      | None \<Rightarrow>
          (case materialize_class v (mr_owner mr) of
             None \<Rightarrow> Inr None
           | Some owner \<Rightarrow>
               Inr (find (\<lambda>m. ms_name m = mr_name mr \<and> method_desc m = mr_descriptor mr)
                      (cm_methods owner))))"

definition materialize_field :: "'c index_view \<Rightarrow> field_ref \<Rightarrow> field_summary option" where
  "materialize_field v fr =
     (case fr_artifact fr of
        Some h \<Rightarrow>
          (case artifact_reader v (ch_artifact_id (fh_class h)) of
             None \<Rightarrow> None | Some r \<Rightarrow> reader_materialize_field r h)
      | None \<Rightarrow>
          (case materialize_class v (fr_owner fr) of
             None \<Rightarrow> None
           | Some owner \<Rightarrow>
               find (\<lambda>f. fs_name f = fr_name fr \<and> fs_descriptor f = fr_descriptor fr) (cm_fields owner)))"

subsection \<open>Navigation\<close>

definition navigation_target_from_class_ref ::
  "'c index_view \<Rightarrow> class_handle_ref \<Rightarrow> navigation_symbol \<Rightarrow> source_range option
     \<Rightarrow> navigation_target option" where
  "navigation_target_from_class_ref v ref symbol exact_range =
     (case class_ref_origin v ref of
        None \<Rightarrow> None
      | Some (SourceFile uri) \<Rightarrow> Some (NavSourceFile uri exact_range symbol)
      | Some (ZipSource zip_path entry_name) \<Rightarrow> Some (NavZipSource zip_path entry_name symbol)
      | Some (Jar jar_path) \<Rightarrow> Some (NavBytecode jar_path symbol)
      | Some Unknown \<Rightarrow> None)"

definition type_ref_declaration_range :: "'c index_view \<Rightarrow> class_handle_ref \<Rightarrow> source_range option" where
  "type_ref_declaration_range v ref =
     (case ref of
        OverlayRef b n \<Rightarrow> bucket_type_declaration_range (bucket_at v b) n
      | ArtifactRef _ \<Rightarrow> None)"

definition method_ref_declaration_range ::
  "'c index_view \<Rightarrow> class_handle_ref \<Rightarrow> method_ref \<Rightarrow> source_range option" where
  "method_ref_declaration_range v ref mr =
     (case ref of
        OverlayRef b n \<Rightarrow>
          bucket_method_declaration_range (bucket_at v b) n (mr_name mr) (mr_descriptor mr)
      | ArtifactRef _ \<Rightarrow> None)"

definition field_ref_declaration_range ::
  "'c index_view \<Rightarrow> class_handle_ref \<Rightarrow> field_ref \<Rightarrow> source_range option" where
  "field_ref_declaration_range v ref fr =
     (case ref of
        OverlayRef b n \<Rightarrow> bucket_field_declaration_range (bucket_at v b) n (fr_name fr)
      | ArtifactRef _ \<Rightarrow> None)"

definition project_type_navigation_target :: "'c index_view \<Rightarrow> type_ref \<Rightarrow> navigation_target option" where
  "project_type_navigation_target v t =
     (case resolve_class_handle_ref v t of
        None \<Rightarrow> None
      | Some ref \<Rightarrow>
          (case class_ref_direct_name v ref of
             None \<Rightarrow> None
           | Some direct \<Rightarrow>
               navigation_target_from_class_ref v ref
                 \<lparr>ny_target_internal_name = type_ref_internal_name t, ny_member_name = None,
                  ny_descriptor = None, ny_fallback_name = Some direct, ny_decl_kind = DeclType\<rparr>
                 (type_ref_declaration_range v ref)))"

definition project_method_navigation_target :: "'c index_view \<Rightarrow> method_ref \<Rightarrow> navigation_target option" where
  "project_method_navigation_target v mr =
     (case resolve_class_handle_ref v (mr_owner mr) of
        None \<Rightarrow> None
      | Some ref \<Rightarrow>
          navigation_target_from_class_ref v ref
            \<lparr>ny_target_internal_name = type_ref_internal_name (mr_owner mr),
             ny_member_name = Some (mr_name mr), ny_descriptor = Some (mr_descriptor mr),
             ny_fallback_name = Some (mr_name mr), ny_decl_kind = DeclMethod\<rparr>
            (method_ref_declaration_range v ref mr))"

definition project_field_navigation_target :: "'c index_view \<Rightarrow> field_ref \<Rightarrow> navigation_target option" where
  "project_field_navigation_target v fr =
     (case resolve_class_handle_ref v (fr_owner fr) of
        None \<Rightarrow> None
      | Some ref \<Rightarrow>
          navigation_target_from_class_ref v ref
            \<lparr>ny_target_internal_name = type_ref_internal_name (fr_owner fr),
             ny_member_name = Some (fr_name fr), ny_descriptor = None,
             ny_fallback_name = Some (fr_name fr), ny_decl_kind = DeclField\<rparr>
            (field_ref_declaration_range v ref fr))"

subsection \<open>Hierarchies and inherited members\<close>

definition parent_names :: "'c index_view \<Rightarrow> class_handle_ref \<Rightarrow> str list" where
  "parent_names v ref = filter (\<lambda>parent. parent \<noteq> []) (class_ref_parent_internals v ref)"

definition hierarchy_order :: "'c index_view \<Rightarrow> str \<Rightarrow> class_handle_ref list" where
  "hierarchy_order v class_internal =
     bfs (view_exact_match_keys v) (get_class_ref_by_internal v) (parent_names v)
       (\<lambda>_ ref order. order @ [ref]) [class_internal] {} []"

definition method_shadow_key :: "method_summary \<Rightarrow> str \<times> str" where
  "method_shadow_key m =
     (ms_name m, case ms_generic_signature m of Some s \<Rightarrow> s | None \<Rightarrow> method_desc m)"

definition project_hierarchy_classes ::
  "'c index_view \<Rightarrow> class_handle_ref list \<Rightarrow> class_metadata list" where
  "project_hierarchy_classes v order =
     fst (fold (\<lambda>ref (result, seen_methods, seen_fields).
        (case resolve_class_ref v ref of
           None \<Rightarrow> (result, seen_methods, seen_fields)
         | Some c \<Rightarrow>
             (let (ms, seen_methods') = fold (push_new method_shadow_key) (cm_methods c) ([], seen_methods);
                  (fs, seen_fields') = fold (push_new fs_name) (cm_fields c) ([], seen_fields)
              in (result @ [c\<lparr>cm_methods := ms, cm_fields := fs\<rparr>], seen_methods', seen_fields'))))
        order ([], {}, {}))"

definition view_mro :: "'c index_view \<Rightarrow> str \<Rightarrow> class_metadata list" where
  "view_mro v class_internal = project_hierarchy_classes v (hierarchy_order v class_internal)"

text \<open>The members that one class of the hierarchy offers.\<close>

definition ref_members :: "'c index_view \<Rightarrow> class_handle_ref \<Rightarrow> rust_panic + members" where
  "ref_members v ref =
     (case ref of
        OverlayRef _ _ \<Rightarrow>
          (case resolve_class_ref v ref of
             None \<Rightarrow> Inr ([], []) | Some c \<Rightarrow> Inr (cm_methods c, cm_fields c))
      | ArtifactRef h \<Rightarrow>
          (case artifact_reader v (ch_artifact_id h) of
             None \<Rightarrow> Inr ([], [])
           | Some r \<Rightarrow>
               and_then (case reader_materialize_methods r h of None \<Rightarrow> Inr [] | Some made \<Rightarrow> made)
                 (\<lambda>ms. Inr (ms, case reader_materialize_fields r h of None \<Rightarrow> [] | Some fs \<Rightarrow> fs))))"

definition add_new_members ::
  "members \<Rightarrow> (method_summary list \<times> (str \<times> str) set) \<times> (field_summary list \<times> str set)
     \<Rightarrow> (method_summary list \<times> (str \<times> str) set) \<times> (field_summary list \<times> str set)" where
  "add_new_members = (\<lambda>(ms, fs) (methods, found_fields).
     (fold (push_new method_shadow_key) ms methods, fold (push_new fs_name) fs found_fields))"

definition view_collect_inherited_members :: "'c index_view \<Rightarrow> str \<Rightarrow> rust_panic + members" where
  "view_collect_inherited_members v class_internal =
     map_ok (\<lambda>parts. case fold add_new_members parts (([], {}), ([], {})) of
                       (methods, found_fields) \<Rightarrow> (fst methods, fst found_fields))
       (try_map (ref_members v) (hierarchy_order v class_internal))"

definition lookup_methods_in_hierarchy ::
  "'c index_view \<Rightarrow> str \<Rightarrow> str \<Rightarrow> rust_panic + method_summary list" where
  "lookup_methods_in_hierarchy v class_internal name =
     map_ok (\<lambda>found. filter (\<lambda>m. ms_name m = name) (fst found))
       (view_collect_inherited_members v class_internal)"

definition lookup_field_in_hierarchy ::
  "'c index_view \<Rightarrow> str \<Rightarrow> str \<Rightarrow> rust_panic + field_summary option" where
  "lookup_field_in_hierarchy v class_internal name =
     map_ok (\<lambda>found. find (\<lambda>f. fs_name f = name) (snd found))
       (view_collect_inherited_members v class_internal)"

subsection \<open>Look-ups that return references\<close>

definition stub_shadow_key :: "archive_method_stub \<Rightarrow> str \<times> str" where
  "stub_shadow_key stub =
     (sm_name stub, case sm_generic_signature stub of Some s \<Rightarrow> s | None \<Rightarrow> sm_descriptor stub)"

text \<open>The methods of a name that one class of the hierarchy declares, each with its shadow key.\<close>

definition method_ref_candidates ::
  "'c index_view \<Rightarrow> str \<Rightarrow> class_handle_ref \<Rightarrow> rust_panic + ((str \<times> str) \<times> method_ref) list" where
  "method_ref_candidates v name ref =
     (case type_ref_from_class_ref v ref of
        None \<Rightarrow> Inr []
      | Some owner_ref \<Rightarrow>
          (case ref of
             OverlayRef _ _ \<Rightarrow>
               (case resolve_class_ref v ref of
                  None \<Rightarrow> Inr []
                | Some c \<Rightarrow>
                    Inr (map (\<lambda>m. (method_shadow_key m,
                           method_ref_source owner_ref (ms_name m) (method_desc m) (ms_access_flags m)))
                         (filter (\<lambda>m. ms_name m = name) (cm_methods c))))
           | ArtifactRef h \<Rightarrow>
               (case artifact_reader v (ch_artifact_id h) of
                  None \<Rightarrow> Inr []
                | Some r \<Rightarrow>
                    (case method_handles_named r h name of
                       None \<Rightarrow> Inr []
                     | Some handles \<Rightarrow>
                         map_ok (List.map_filter (\<lambda>mh. map_option (\<lambda>stub. (stub_shadow_key stub,
                             method_ref_artifact owner_ref mh (sm_name stub) (sm_descriptor stub)
                               (sm_access_flags stub))) (project_method_stub r mh))) handles))))"

definition lookup_methods_in_hierarchy_refs ::
  "'c index_view \<Rightarrow> str \<Rightarrow> str \<Rightarrow> rust_panic + method_ref list" where
  "lookup_methods_in_hierarchy_refs v class_internal name =
     map_ok (\<lambda>parts. map snd (fst (fold (fold (push_new fst)) parts ([], {}))))
       (try_map (method_ref_candidates v name) (hierarchy_order v class_internal))"

text \<open>The field of a name that one class of the hierarchy declares.\<close>

definition field_ref_at :: "'c index_view \<Rightarrow> str \<Rightarrow> class_handle_ref \<Rightarrow> rust_panic + field_ref option" where
  "field_ref_at v name ref =
     (case type_ref_from_class_ref v ref of
        None \<Rightarrow> Inr None
      | Some owner_ref \<Rightarrow>
          (case ref of
             OverlayRef _ _ \<Rightarrow>
               (case resolve_class_ref v ref of
                  None \<Rightarrow> Inr None
                | Some c \<Rightarrow>
                    Inr (map_option (\<lambda>f. field_ref_source owner_ref (fs_name f) (fs_descriptor f)
                          (fs_access_flags f)) (find (\<lambda>f. fs_name f = name) (cm_fields c))))
           | ArtifactRef h \<Rightarrow>
               (case artifact_reader v (ch_artifact_id h) of
                  None \<Rightarrow> Inr None
                | Some r \<Rightarrow>
                    (case field_handle_by_name r h name of
                       None \<Rightarrow> Inr None
                     | Some handle \<Rightarrow>
                         map_ok (\<lambda>fh. map_option (\<lambda>stub. field_ref_artifact owner_ref fh (sf_name stub)
                             (sf_descriptor stub) (sf_access_flags stub)) (project_field_stub r fh))
                           handle))))"

definition lookup_field_in_hierarchy_ref ::
  "'c index_view \<Rightarrow> str \<Rightarrow> str \<Rightarrow> rust_panic + field_ref option" where
  "lookup_field_in_hierarchy_ref v class_internal name =
     try_find_map (field_ref_at v name) (hierarchy_order v class_internal)"

text \<open>The owner to report when one class of the hierarchy declares the method.\<close>

definition declaring_owner_at ::
  "'c index_view \<Rightarrow> str \<Rightarrow> str \<Rightarrow> class_handle_ref \<Rightarrow> rust_panic + type_ref option" where
  "declaring_owner_at v name desc ref =
     (case ref of
        OverlayRef _ _ \<Rightarrow>
          (case resolve_class_ref v ref of
             None \<Rightarrow> Inr None
           | Some c \<Rightarrow>
               Inr (if list_ex (\<lambda>m. ms_name m = name \<and> method_desc m = desc) (cm_methods c)
                    then type_ref_from_class_ref v ref else None))
      | ArtifactRef h \<Rightarrow>
          (case artifact_reader v (ch_artifact_id h) of
             None \<Rightarrow> Inr None
           | Some r \<Rightarrow>
               (case method_handle_by_name_desc r h name desc of
                  None \<Rightarrow> Inr None
                | Some handle \<Rightarrow> map_ok (\<lambda>_. type_ref_from_class_ref v ref) handle)))"

definition find_declaring_method_owner_ref ::
  "'c index_view \<Rightarrow> str \<Rightarrow> str \<Rightarrow> str \<Rightarrow> rust_panic + type_ref option" where
  "find_declaring_method_owner_ref v class_internal name desc =
     try_find_map (declaring_owner_at v name desc) (hierarchy_order v class_internal)"

definition find_declaring_method_owner ::
  "'c index_view \<Rightarrow> str \<Rightarrow> str \<Rightarrow> str \<Rightarrow> rust_panic + class_metadata option" where
  "find_declaring_method_owner v class_internal name desc =
     map_ok (\<lambda>owner. case owner of None \<Rightarrow> None | Some t \<Rightarrow> materialize_class v t)
       (find_declaring_method_owner_ref v class_internal name desc)"

definition resolve_direct_inner_class_ref :: "'c index_view \<Rightarrow> str \<Rightarrow> str \<Rightarrow> type_ref option" where
  "resolve_direct_inner_class_ref v owner simple =
     (case view_resolve_direct_inner_class v owner simple of
        None \<Rightarrow> None | Some c \<Rightarrow> get_class_ref v (cm_internal_name c))"

definition lookup_member_type_ref_in_hierarchy :: "'c index_view \<Rightarrow> str \<Rightarrow> str \<Rightarrow> type_ref option" where
  "lookup_member_type_ref_in_hierarchy v class_internal simple =
     find_map (\<lambda>ref. case class_ref_internal_name v ref of
         None \<Rightarrow> None | Some owner \<Rightarrow> resolve_direct_inner_class_ref v owner simple)
       (hierarchy_order v class_internal)"

definition lookup_member_type_in_hierarchy :: "'c index_view \<Rightarrow> str \<Rightarrow> str \<Rightarrow> class_metadata option" where
  "lookup_member_type_in_hierarchy v class_internal simple =
     (case lookup_member_type_ref_in_hierarchy v class_internal simple of
        None \<Rightarrow> None | Some t \<Rightarrow> materialize_class v t)"

subsection \<open>Nested names\<close>

definition resolve_internal_hint_to_class :: "'c index_view \<Rightarrow> str \<Rightarrow> class_metadata option" where
  "resolve_internal_hint_to_class v internal_hint =
     (case rsplit_once (CHR ''/'') internal_hint of
        None \<Rightarrow> None
      | Some (pkg, simple) \<Rightarrow>
          (case filter (\<lambda>ref. class_ref_matches_internal_name_tail v ref simple)
                  (classes_in_package_refs v pkg) of
             [first] \<Rightarrow> resolve_class_ref v first
           | _ \<Rightarrow> None))"

text \<open>
  The owners pushed by the loop of \<open>resolve_scoped_inner_class\<close>; the loop stops after \<open>n\<close> pushes,
  and the code's test \<open>depth > 64\<close> allows 65.
\<close>

fun scope_chain :: "(str \<Rightarrow> class_metadata option) \<Rightarrow> nat \<Rightarrow> class_metadata \<Rightarrow> str list" where
  "scope_chain get 0 cur = []"
| "scope_chain get (Suc n) cur =
     (case cm_inner_class_of cur of
        None \<Rightarrow> []
      | Some parent_internal \<Rightarrow>
          parent_internal # (case get parent_internal of
                               None \<Rightarrow> [] | Some parent \<Rightarrow> scope_chain get n parent))"

text \<open>The loop over the candidates: the one whose owner comes first in the chain.\<close>

definition nearest_scoped ::
  "str option \<Rightarrow> str \<Rightarrow> str list \<Rightarrow> class_metadata
     \<Rightarrow> (nat \<times> class_metadata) option \<Rightarrow> (nat \<times> class_metadata) option" where
  "nearest_scoped pkg simple chain c best =
     (if cm_package c \<noteq> pkg \<or> \<not> matches_simple_name c simple then best
      else (case cm_inner_class_of c of
              None \<Rightarrow> best
            | Some parent \<Rightarrow>
                (case position (\<lambda>n. n = parent) chain of
                   None \<Rightarrow> best
                 | Some pos \<Rightarrow>
                     (case best of
                        Some (best_pos, _) \<Rightarrow> if best_pos \<le> pos then best else Some (pos, c)
                      | None \<Rightarrow> Some (pos, c)))))"

definition resolve_scoped_inner_class :: "'c index_view \<Rightarrow> str \<Rightarrow> str \<Rightarrow> class_metadata option" where
  "resolve_scoped_inner_class v enclosing_internal simple =
     (case (case view_get_class v enclosing_internal of
              Some c \<Rightarrow> Some c | None \<Rightarrow> resolve_internal_hint_to_class v enclosing_internal) of
        None \<Rightarrow> None
      | Some enclosing \<Rightarrow>
          (let chain = cm_internal_name enclosing # scope_chain (view_get_class v) 65 enclosing;
               candidates = (case cm_package enclosing of
                               Some pkg \<Rightarrow> view_classes_in_package v pkg
                             | None \<Rightarrow> view_get_classes_by_simple_name v simple)
           in map_option snd
                (fold (nearest_scoped (cm_package enclosing) simple chain) candidates None)))"

fun follow_inner :: "'c index_view \<Rightarrow> str \<Rightarrow> str list \<Rightarrow> str option" where
  "follow_inner v current [] = Some current"
| "follow_inner v current (seg # segs) =
     (case view_resolve_direct_inner_class v current seg of
        None \<Rightarrow> None | Some inner \<Rightarrow> follow_inner v (cm_internal_name inner) segs)"

text \<open>\<open>resolve_head\<close> is the caller's resolver of the leading part of the path.\<close>

definition resolve_qualified_type_path ::
  "(str \<Rightarrow> str option) \<Rightarrow> 'c index_view \<Rightarrow> str \<Rightarrow> class_metadata option" where
  "resolve_qualified_type_path resolve_head v path =
     (let text = trim path
      in if text = [] then None
         else if contains_char text (CHR ''/'') then view_get_class v text
         else (let parts = filter (\<lambda>s. s \<noteq> []) (split_char (CHR ''.'') text)
               in find_map (\<lambda>split.
                    (case resolve_head (join ''.'' (take split parts)) of
                       None \<Rightarrow> None
                     | Some head \<Rightarrow>
                         (case follow_inner v head (drop split parts) of
                            None \<Rightarrow> None | Some current \<Rightarrow> view_get_class v current)))
                    (rev [1..<Suc (length parts)])))"

end
