(* ===== verification/View_Laws.thy ===== *)
theory View_Laws
  imports View_Members
begin

text \<open>
  What a view promises. \<open>layer_lookup\<close> and \<open>layer_list\<close> read one layer as a source of classes, and
  \<open>best\<close> is the precedence between layers: the first class from a source file, or else the first
  class. Look-ups, merged lists, hierarchies and members of the view are shown to be those of the
  map \<open>view_get_class v\<close>; the locales of \<open>Class_Source\<close> are interpreted on the view.
\<close>

subsection \<open>Precedence\<close>

definition is_source :: "class_metadata \<Rightarrow> bool" where
  "is_source c \<longleftrightarrow> (case cm_origin c of SourceFile _ \<Rightarrow> True | _ \<Rightarrow> False)"

definition best :: "class_metadata list \<Rightarrow> class_metadata option" where
  "best cs =
     (case find is_source cs of
        Some c \<Rightarrow> Some c | None \<Rightarrow> (case cs of [] \<Rightarrow> None | c # _ \<Rightarrow> Some c))"

lemma origin_precedence_is_source: "origin_precedence c = (if is_source c then 2 else 1)"
  by (simp add: origin_precedence_def is_source_def split: class_origin.splits)

lemma should_replace_iff: "should_replace c d \<longleftrightarrow> is_source d \<and> \<not> is_source c"
  by (simp add: should_replace_def origin_precedence_is_source)

lemma best_simps [simp]: "best [] = None" "best [c] = Some c"
  by (simp_all add: best_def)

lemma best_None [simp]: "best cs = None \<longleftrightarrow> cs = []"
  by (cases cs) (auto simp: best_def split: option.splits)

lemma best_in: "best cs = Some c \<Longrightarrow> c \<in> set cs"
  by (auto simp: best_def find_Some_iff split: option.splits list.splits)

lemma best_snoc:
  "best (cs @ [c]) =
     (case best cs of None \<Rightarrow> Some c | Some d \<Rightarrow> if should_replace d c then Some c else Some d)"
proof (cases "find is_source cs")
  case None
  then have "x \<in> set cs \<Longrightarrow> \<not> is_source x" for x by (simp add: find_None_iff)
  then show ?thesis
    using None by (cases cs) (auto simp: best_def find_append should_replace_iff)
next
  case (Some d)
  then have "is_source d" by (simp add: find_SomeD)
  with Some show ?thesis by (simp add: best_def find_append should_replace_iff)
qed

text \<open>Repeating the class of a layer does not change the best class.\<close>

lemma best_copies:
  assumes "\<And>l. l \<in> set ls \<Longrightarrow> set (f l) = set_option (g l)"
  shows "best (concat (map f ls)) = best (List.map_filter g ls)"
proof -
  have "find is_source (concat (map f ls)) = find is_source (List.map_filter g ls)
    \<and> (case concat (map f ls) of [] \<Rightarrow> None | c # _ \<Rightarrow> Some c)
       = (case List.map_filter g ls of [] \<Rightarrow> None | c # _ \<Rightarrow> Some c)"
    using assms
  proof (induction ls)
    case (Cons l ls)
    have IH: "find is_source (concat (map f ls)) = find is_source (List.map_filter g ls)"
      "(case concat (map f ls) of [] \<Rightarrow> None | c # _ \<Rightarrow> Some c)
       = (case List.map_filter g ls of [] \<Rightarrow> None | c # _ \<Rightarrow> Some c)"
      using Cons.IH Cons.prems by auto
    have set: "set (f l) = set_option (g l)" using Cons.prems by simp
    show ?case
    proof (cases "g l")
      case None
      with set have "f l = []" by simp
      with None IH show ?thesis by (simp add: map_filter_simps)
    next
      case (Some c)
      with set have set_c: "set (f l) = {c}" by simp
      then obtain xs where fl: "f l = c # xs" "set xs \<subseteq> {c}" by (cases "f l") auto
      then have "find is_source xs = (if is_source c \<and> xs \<noteq> [] then Some c else None)"
        by (induction xs arbitrary:) (auto simp: find_None_iff)
      with fl Some IH show ?thesis
        by (auto simp: map_filter_simps find_append)
    qed
  qed (simp add: map_filter_simps)
  then show ?thesis by (auto simp: best_def split: option.split)
qed

subsection \<open>Accumulating without repetition\<close>

lemma fold_push_new:
  "fold (push_new key) xs (out, seen) = (out @ first_by key seen xs, seen \<union> key ` set xs)"
  by (induction xs arbitrary: out seen) (auto simp: push_new_def insert_absorb)

lemma fold_fold_concat: "fold (fold f) xss acc = fold f (concat xss) acc"
  by (induction xss arbitrary: acc) auto

lemma fold_fold_map: "fold (\<lambda>x. fold f (g x)) xs acc = fold f (concat (map g xs)) acc"
  by (induction xs arbitrary: acc) auto

definition dedup :: "'a list \<Rightarrow> 'a list" where
  "dedup xs = first_by id {} xs"

lemma dedup_Nil [simp]: "dedup [] = []"
  by (simp add: dedup_def)

lemma dedup_snoc: "dedup (xs @ [x]) = (if x \<in> set xs then dedup xs else dedup xs @ [x])"
  by (simp add: dedup_def first_by_append)

lemma set_dedup [simp]: "set (dedup xs) = set xs"
  using first_by_keys [of id "{}" xs] by (simp add: dedup_def)

lemma distinct_dedup [simp]: "distinct (dedup xs)"
  using first_by_distinct [of id "{}" xs] by (simp add: dedup_def)

subsection \<open>Layers as sources of classes\<close>

definition layer_ok :: "'c index_view \<Rightarrow> scope_layer \<Rightarrow> bool" where
  "layer_ok v layer \<longleftrightarrow>
     (case layer of
        Overlay b \<Rightarrow> bucket_inv (bucket_at v b)
      | Artifact i \<Rightarrow>
          (case artifact_reader v i of
             None \<Rightarrow> True | Some r \<Rightarrow> reader_inv r \<and> reader_artifact_id r = i))"

definition view_ok :: "'c index_view \<Rightarrow> bool" where
  "view_ok v \<longleftrightarrow> list_all (layer_ok v) (layers v)"

definition layer_lookup :: "'c index_view \<Rightarrow> scope_layer \<Rightarrow> str \<Rightarrow> class_metadata option" where
  "layer_lookup v layer n =
     (case layer of
        Overlay b \<Rightarrow> bucket_get_class (bucket_at v b) n
      | Artifact i \<Rightarrow> (case artifact_reader v i of None \<Rightarrow> None | Some r \<Rightarrow> reader_lookup r n))"

definition layer_list ::
  "('c bucket_state \<Rightarrow> class_metadata list) \<Rightarrow> (artifact_scope_reader \<Rightarrow> artifact_class_handle list)
     \<Rightarrow> 'c index_view \<Rightarrow> scope_layer \<Rightarrow> class_metadata list" where
  "layer_list of_bucket of_reader v layer =
     (case layer of
        Overlay b \<Rightarrow> of_bucket (bucket_at v b)
      | Artifact i \<Rightarrow>
          (case artifact_reader v i of None \<Rightarrow> [] | Some r \<Rightarrow> reader_resolve r (of_reader r)))"

text \<open>A reference stands for a class: every question about the reference has the class's answer.\<close>

definition ref_of :: "'c index_view \<Rightarrow> class_handle_ref \<Rightarrow> class_metadata \<Rightarrow> bool" where
  "ref_of v ref c \<longleftrightarrow>
     resolve_class_ref v ref = Some c \<and> class_ref_internal_name v ref = Some (cm_internal_name c) \<and>
     class_ref_origin v ref = Some (cm_origin c) \<and> class_ref_direct_name v ref = Some (cm_name c) \<and>
     class_ref_origin_precedence v ref = origin_precedence c \<and>
     class_ref_is_annotation v ref = (cm_access_flags c AND ACC_ANNOTATION \<noteq> 0) \<and>
     (\<forall>k. class_ref_matches_simple_name v ref k = matches_simple_name c k) \<and>
     (\<forall>k. class_ref_matches_internal_name_tail v ref k = matches_internal_name_tail c k) \<and>
     parent_names v ref = supertypes c \<and> ref_members v ref = Inr (cm_methods c, cm_fields c)"

lemmas class_ref_defs =
  resolve_class_ref_def class_ref_internal_name_def class_ref_origin_def class_ref_direct_name_def
  class_ref_origin_precedence_def class_ref_is_annotation_def class_ref_matches_simple_name_def
  class_ref_matches_internal_name_tail_def parent_names_def class_ref_parent_internals_def
  ref_members_def with_reader_def

lemma ref_ofD:
  assumes "ref_of v ref c"
  shows "resolve_class_ref v ref = Some c" "class_ref_internal_name v ref = Some (cm_internal_name c)"
    "class_ref_origin v ref = Some (cm_origin c)" "class_ref_direct_name v ref = Some (cm_name c)"
    "class_ref_origin_precedence v ref = origin_precedence c"
    "class_ref_is_annotation v ref = (cm_access_flags c AND ACC_ANNOTATION \<noteq> 0)"
    "class_ref_matches_simple_name v ref k = matches_simple_name c k"
    "class_ref_matches_internal_name_tail v ref k = matches_internal_name_tail c k"
    "parent_names v ref = supertypes c" "ref_members v ref = Inr (cm_methods c, cm_fields c)"
  using assms by (simp_all add: ref_of_def)

lemma overlay_ref_of:
  assumes "bucket_inv (bucket_at v b)" "bucket_get_class (bucket_at v b) n = Some c"
  shows "ref_of v (overlay_ref b c) c"
proof -
  have "cm_internal_name c = n" using bucket.get_name [OF assms] .
  with assms(2) show ?thesis
    by (auto simp: ref_of_def class_ref_defs overlay_ref_def supertypes_def split: option.splits)
qed

lemma materialize_members:
  assumes "materialize s = Inr c"
  shows "try_map materialize_method_stub (sc_methods s) = Inr (cm_methods c)"
    "map materialize_field_stub (sc_fields s) = cm_fields c"
  using assms by (auto simp: materialize_def map_ok_Inr)

lemma artifact_ref_of:
  assumes "artifact_reader v (ch_artifact_id h) = Some r" "reader_inv r" "reader_record r h = Some rec"
  shows "ref_of v (ArtifactRef h) (cr_materialized rec)"
proof -
  have "rec \<in> set (rd_classes r)" using assms(3) by (auto simp: reader_record_def split: if_splits)
  then have m: "materialize (cr_stub rec) = Inr (cr_materialized rec)"
    using assms(2) by (simp add: reader_inv_def)
  have stub: "reader_stub r h = Some (cr_stub rec)" by (simp add: reader_stub_def assms(3))
  show ?thesis
    unfolding ref_of_def class_ref_defs
    by (simp add: assms(1,3) stub reader_get_class_def class_internal_name_def reader_class_origin_def
          class_name_def class_origin_precedence_def origin_precedence_def class_access_flags_def
          class_matches_simple_name_def class_matches_internal_name_tail_def class_super_name_def
          class_interfaces_def reader_materialize_methods_def reader_materialize_fields_def
          materialize_simps [OF m] materialize_members [OF m] supertypes_def matches_simple_name_def
          direct_name_def matches_internal_name_tail_def split: option.splits)
qed


lemma layer_get_class_ref_of:
  assumes "layer_ok v l"
  shows "rel_option (ref_of v) (layer_get_class_ref v l n) (layer_lookup v l n)"
proof (cases l)
  case (Overlay b)
  then show ?thesis
    using assms overlay_ref_of [of v b n]
    by (cases "bucket_get_class (bucket_at v b) n")
       (simp_all add: layer_ok_def layer_get_class_ref_def layer_lookup_def)
next
  case (Artifact i)
  show ?thesis
  proof (cases "artifact_reader v i")
    case (Some r)
    with assms Artifact have r: "reader_inv r" "am_id (rd_metadata r) = i"
      by (simp_all add: layer_ok_def reader_artifact_id_def)
    show ?thesis
    proof (cases "get_class_handle r n")
      case (Some h)
      then have h: "ch_artifact_id h = i" "reader_get_class r h = reader_lookup r n"
        using r by (auto simp: get_class_handle_def reader_lookup_def)
      with reader_handles_valid [OF r(1) Some] obtain rec where rec: "reader_record r h = Some rec"
        using r(2) by (simp add: reader_record_def reader_artifact_id_def)
      with h have "reader_lookup r n = Some (cr_materialized rec)" by (simp add: reader_get_class_def)
      moreover have "ref_of v (ArtifactRef h) (cr_materialized rec)"
        using artifact_ref_of rec r(1) \<open>artifact_reader v i = Some r\<close> h(1) by blast
      ultimately show ?thesis
        using Artifact Some \<open>artifact_reader v i = Some r\<close>
        by (simp add: layer_get_class_ref_def layer_lookup_def)
    qed (use Artifact Some in \<open>simp add: layer_get_class_ref_def layer_lookup_def reader_lookup_def\<close>)
  qed (use Artifact in \<open>simp add: layer_get_class_ref_def layer_lookup_def\<close>)
qed

lemma layer_refs_of:
  assumes "layer_ok v l"
    and bk: "\<And>s. bucket_inv s \<Longrightarrow> set (of_bucket s) \<subseteq> ran (bucket_get_class s)"
    and rd: "\<And>r h. reader_inv r \<Longrightarrow> h \<in> set (of_reader r) \<Longrightarrow> \<exists>rec. reader_record r h = Some rec"
  shows "list_all2 (ref_of v) (layer_refs of_bucket of_reader v l) (layer_list of_bucket of_reader v l)"
proof (cases l)
  case (Overlay b)
  with assms(1) have inv: "bucket_inv (bucket_at v b)" by (simp add: layer_ok_def)
  have "ref_of v (overlay_ref b c) c" if "c \<in> set (of_bucket (bucket_at v b))" for c
    using bk [OF inv] that overlay_ref_of [OF inv] by (auto simp: ran_def)
  then show ?thesis
    using Overlay by (simp add: layer_refs_def layer_list_def overlay_refs_def list_all2_map1 list.rel_refl_strong)
next
  case (Artifact i)
  show ?thesis
  proof (cases "artifact_reader v i")
    case (Some r)
    with assms(1) Artifact have r: "reader_inv r" "am_id (rd_metadata r) = i"
      by (simp_all add: layer_ok_def reader_artifact_id_def)
    have "list_all2 (ref_of v) (map ArtifactRef hs) (reader_resolve r hs)"
      if "set hs \<subseteq> set (of_reader r)" for hs
      using that
    proof (induction hs)
      case (Cons h hs)
      then obtain rec where rec: "reader_record r h = Some rec" using rd [OF r(1)] by auto
      then have "ch_artifact_id h = i" using r(2) by (simp add: reader_record_def split: if_splits)
      with rec r(1) Some have "ref_of v (ArtifactRef h) (cr_materialized rec)"
        using artifact_ref_of by blast
      with Cons rec show ?case by (simp add: reader_resolve_def map_filter_simps reader_get_class_def)
    qed (simp add: reader_resolve_def map_filter_simps)
    with Artifact Some show ?thesis by (simp add: layer_refs_def layer_list_def)
  qed (use Artifact in \<open>simp add: layer_refs_def layer_list_def\<close>)
qed

subsection \<open>Look-up by internal name\<close>

lemma better_ref_of:
  assumes "rel_option (ref_of v) b (best cs)" "ref_of v ref c"
  shows "rel_option (ref_of v) (better_ref v ref b) (best (cs @ [c]))"
  using assms
  by (cases b; cases "best cs")
     (auto simp: better_ref_def best_snoc should_replace_ref_def should_replace_def ref_ofD(5))

lemma fold_better_of:
  assumes "list_all2 (ref_of v) refs ds" "rel_option (ref_of v) b (best cs)"
  shows "rel_option (ref_of v) (fold (better_ref v) refs b) (best (cs @ ds))"
  using assms
proof (induction refs ds arbitrary: b cs rule: list_all2_induct)
  case (Cons ref refs d ds)
  from Cons.IH [of "better_ref v ref b" "cs @ [d]"] better_ref_of [OF Cons.prems Cons.hyps(1)]
  show ?case by simp
qed simp

abbreviation found_in_layers :: "'c index_view \<Rightarrow> str \<Rightarrow> class_metadata list" where
  "found_in_layers v n \<equiv> List.map_filter (\<lambda>l. layer_lookup v l n) (layers v)"

lemma get_class_ref_of:
  assumes "view_ok v"
  shows "rel_option (ref_of v) (get_class_ref_by_internal v n) (best (found_in_layers v n))"
proof -
  have "rel_option (ref_of v)
      (fold (\<lambda>layer best. case layer_get_class_ref v layer n of
         None \<Rightarrow> best | Some candidate \<Rightarrow> better_ref v candidate best) ls b)
      (best (cs @ List.map_filter (\<lambda>l. layer_lookup v l n) ls))"
    if "rel_option (ref_of v) b (best cs)" "list_all (layer_ok v) ls" for ls b cs
    using that
  proof (induction ls arbitrary: b cs)
    case (Cons l ls)
    have rel: "rel_option (ref_of v) (layer_get_class_ref v l n) (layer_lookup v l n)"
      using Cons.prems(2) by (simp add: layer_get_class_ref_of)
    show ?case
    proof (cases "layer_lookup v l n")
      case None
      with rel Cons show ?thesis by (simp add: map_filter_simps)
    next
      case (Some c)
      with rel obtain ref where ref: "layer_get_class_ref v l n = Some ref" "ref_of v ref c"
        by (auto simp: option_rel_Some2)
      from Cons.IH [of "better_ref v ref b" "cs @ [c]"] better_ref_of [OF Cons.prems(1) ref(2)]
        Cons.prems(2) ref Some
      show ?thesis by (simp add: map_filter_simps)
    qed
  qed (simp add: map_filter_simps)
  from this [of None "[]" "layers v"] assms show ?thesis
    by (simp add: get_class_ref_by_internal_def view_ok_def)
qed

lemma view_get_class_best:
  assumes "view_ok v"
  shows "view_get_class v n = best (found_in_layers v n)"
  using get_class_ref_of [OF assms, of n]
  by (auto simp: view_get_class_def ref_ofD(1) rel_option_iff split: option.splits)

lemma get_class_ref_some:
  assumes "view_ok v" "get_class_ref_by_internal v n = Some ref"
  obtains c where "view_get_class v n = Some c" "ref_of v ref c"
  using get_class_ref_of [OF assms(1), of n] assms that
  by (auto simp: view_get_class_best option_rel_Some1)

lemma get_class_ref_none:
  "view_ok v \<Longrightarrow> get_class_ref_by_internal v n = None \<longleftrightarrow> view_get_class v n = None"
  using get_class_ref_of [of v n] by (auto simp: view_get_class_best rel_option_iff split: option.splits)


subsection \<open>Merged lists\<close>

text \<open>The merge of the lists of all layers: each name once, with its best class.\<close>

definition merge_spec :: "class_metadata list \<Rightarrow> class_metadata list" where
  "merge_spec cs =
     map (\<lambda>n. the (best (filter (\<lambda>c. cm_internal_name c = n) cs)))
       (dedup (map cm_internal_name cs))"

lemma merge_spec_snoc:
  "merge_spec (cs @ [c]) =
     (let ns = dedup (map cm_internal_name cs)
      in if cm_internal_name c \<in> cm_internal_name ` set cs
         then map (\<lambda>n. if n = cm_internal_name c
                       then the (best (filter (\<lambda>d. cm_internal_name d = n) cs @ [c]))
                       else the (best (filter (\<lambda>d. cm_internal_name d = n) cs))) ns
         else merge_spec cs @ [c])"
proof (cases "cm_internal_name c \<in> cm_internal_name ` set cs")
  case True
  then show ?thesis by (simp add: merge_spec_def dedup_snoc Let_def)
next
  case False
  then have none: "filter (\<lambda>d. cm_internal_name d = cm_internal_name c) cs = []"
    by (auto simp: filter_empty_conv image_iff)
  have "the (best (filter (\<lambda>d. cm_internal_name d = n) (cs @ [c])))
      = the (best (filter (\<lambda>d. cm_internal_name d = n) cs))" if "n \<in> cm_internal_name ` set cs" for n
    using that False by auto
  then show ?thesis using False none by (simp add: merge_spec_def dedup_snoc)
qed

text \<open>The positions kept by the merge point at the names of the merged list.\<close>

definition positions_ok :: "(str, nat) hash_map \<Rightarrow> str list \<Rightarrow> bool" where
  "positions_ok ps ns \<longleftrightarrow> (\<forall>n i. hget ps n = Some i \<longleftrightarrow> i < length ns \<and> ns ! i = n)"

lemma positions_ok_snoc:
  assumes "positions_ok ps ns" "n \<notin> set ns"
  shows "positions_ok (hinsert n (length ns) ps) (ns @ [n])"
  using assms by (auto simp: positions_ok_def nth_append less_Suc_eq)

lemma merge_ref_step:
  assumes ps: "positions_ok ps (dedup (map cm_internal_name cs))"
    and rel: "list_all2 (ref_of v) merged (merge_spec cs)" and ref: "ref_of v ref c"
    and step: "merge_ref v ref (ps, merged) = (ps', merged')"
  shows "positions_ok ps' (dedup (map cm_internal_name (cs @ [c])))
    \<and> list_all2 (ref_of v) merged' (merge_spec (cs @ [c]))"
proof -
  let ?n = "cm_internal_name c" and ?ns = "dedup (map cm_internal_name cs)"
  let ?at = "\<lambda>n. filter (\<lambda>d. cm_internal_name d = n) cs"
  have len: "length merged = length ?ns" using list_all2_lengthD [OF rel] by (simp add: merge_spec_def)
  show ?thesis
  proof (cases "hget ps ?n")
    case None
    then have new: "?n \<notin> set ?ns"
      using ps unfolding positions_ok_def by (metis in_set_conv_nth option.distinct(1))
    then have "?n \<notin> cm_internal_name ` set cs" by simp
    with None step ref_ofD(2) [OF ref] rel ref positions_ok_snoc [OF ps new] len show ?thesis
      by (auto simp: merge_ref_def merge_spec_snoc dedup_snoc intro: list_all2_appendI)
  next
    case (Some i)
    then have i: "i < length ?ns" "?ns ! i = ?n" using ps by (auto simp: positions_ok_def)
    then have old: "?n \<in> cm_internal_name ` set cs" using nth_mem [OF i(1)] by simp
    have "?at ?n \<noteq> []" using old by (auto simp: filter_empty_conv)
    then obtain d where d: "best (?at ?n) = Some d" by (cases "best (?at ?n)") auto
    have cur: "ref_of v (merged ! i) d"
      using list_all2_nthD [OF rel, of i] len i d by (simp add: merge_spec_def)
    have "list_all2 (ref_of v)
        (if should_replace_ref v (merged ! i) ref then merged[i := ref] else merged)
        (map (\<lambda>n. if n = ?n then the (best (?at n @ [c])) else the (best (?at n))) ?ns)"
    proof (rule list_all2_all_nthI)
      fix j assume j: "j < length (if should_replace_ref v (merged ! i) ref then merged[i := ref] else merged)"
      then have j': "j < length ?ns" using len by (simp split: if_splits)
      have same: "?ns ! j = ?n \<longleftrightarrow> j = i" using nth_eq_iff_index_eq [of ?ns j i] i j' by simp
      have "ref_of v (merged ! j) (the (best (?at (?ns ! j))))"
        using list_all2_nthD [OF rel, of j] len j' by (simp add: merge_spec_def)
      then show "ref_of v ((if should_replace_ref v (merged ! i) ref then merged[i := ref] else merged) ! j)
          (map (\<lambda>n. if n = ?n then the (best (?at n @ [c])) else the (best (?at n))) ?ns ! j)"
        using j' same ref cur d len i
        by (auto simp: best_snoc should_replace_ref_def should_replace_def ref_ofD(5) nth_list_update)
    qed (simp add: len)
    with step Some old ref_ofD(2) [OF ref] ps show ?thesis
      by (auto simp: merge_ref_def merge_spec_snoc dedup_snoc Let_def)
  qed
qed

lemma merge_refs_of:
  assumes "list_all2 (ref_of v) (concat fetched) cs"
  shows "list_all2 (ref_of v) (merge_refs v fetched) (merge_spec cs)"
proof -
  have "positions_ok (fst (fold (merge_ref v) refs ([], []))) (dedup (map cm_internal_name ds))
    \<and> list_all2 (ref_of v) (snd (fold (merge_ref v) refs ([], []))) (merge_spec ds)"
    if "list_all2 (ref_of v) refs ds" for refs ds
    using that
  proof (induction refs arbitrary: ds rule: rev_induct)
    case (snoc ref refs)
    then obtain d es where ds: "ds = es @ [d]" "list_all2 (ref_of v) refs es" "ref_of v ref d"
      by (auto simp: list_all2_append1 list_all2_Cons1)
    obtain ps merged where pm: "fold (merge_ref v) refs ([], []) = (ps, merged)" by fastforce
    obtain ps' merged' where step: "merge_ref v ref (ps, merged) = (ps', merged')" by fastforce
    from merge_ref_step [OF _ _ ds(3) step, of es] snoc.IH [OF ds(2)] ds(1) pm step
    show ?case by simp
  qed (simp add: positions_ok_def merge_spec_def)
  from this [OF assms] show ?thesis by (simp add: merge_refs_def fold_fold_concat)
qed

lemma resolve_refs_of:
  "list_all2 (ref_of v) refs cs \<Longrightarrow> resolve_class_refs v refs = cs"
  by (induction refs cs rule: list_all2_induct)
     (simp_all add: resolve_class_refs_def map_filter_simps ref_ofD(1))

lemma concat_layer_refs_of:
  assumes "view_ok v"
    and "\<And>s. bucket_inv s \<Longrightarrow> set (of_bucket s) \<subseteq> ran (bucket_get_class s)"
    and "\<And>r h. reader_inv r \<Longrightarrow> h \<in> set (of_reader r) \<Longrightarrow> \<exists>rec. reader_record r h = Some rec"
  shows "list_all2 (ref_of v) (concat (map (layer_refs of_bucket of_reader v) (layers v)))
    (concat (map (layer_list of_bucket of_reader v) (layers v)))"
proof -
  have "list_all2 (ref_of v) (concat (map (layer_refs of_bucket of_reader v) ls))
      (concat (map (layer_list of_bucket of_reader v) ls))" if "list_all (layer_ok v) ls" for ls
    using that
  proof (induction ls)
    case (Cons l ls)
    then show ?case
      using layer_refs_of [of v l of_bucket of_reader] assms(2,3)
      by (auto intro!: list_all2_appendI)
  qed simp
  with assms(1) show ?thesis by (simp add: view_ok_def)
qed


lemma best_same_name: "best (filter (\<lambda>c. cm_internal_name c = n) cs) = Some c \<Longrightarrow> cm_internal_name c = n"
  using best_in by fastforce

lemma merge_spec_names: "map cm_internal_name (merge_spec cs) = dedup (map cm_internal_name cs)"
proof -
  have "cm_internal_name (the (best (filter (\<lambda>c. cm_internal_name c = n) cs))) = n"
    if "n \<in> set (dedup (map cm_internal_name cs))" for n
  proof -
    from that have "filter (\<lambda>c. cm_internal_name c = n) cs \<noteq> []" by (auto simp: filter_empty_conv)
    then obtain c where "best (filter (\<lambda>c. cm_internal_name c = n) cs) = Some c"
      by (cases "best (filter (\<lambda>c. cm_internal_name c = n) cs)") auto
    with best_same_name [OF this] show ?thesis by simp
  qed
  then show ?thesis by (simp add: merge_spec_def map_idI comp_def del: set_dedup)
qed

lemma merge_spec_set:
  "set (merge_spec cs) = {c. \<exists>n. best (filter (\<lambda>c. cm_internal_name c = n) cs) = Some c}"
proof (intro set_eqI iffI)
  fix c assume "c \<in> set (merge_spec cs)"
  then obtain n where n: "n \<in> cm_internal_name ` set cs"
    "c = the (best (filter (\<lambda>c. cm_internal_name c = n) cs))" by (auto simp: merge_spec_def)
  then have "filter (\<lambda>c. cm_internal_name c = n) cs \<noteq> []" by (auto simp: filter_empty_conv)
  with n(2) show "c \<in> {c. \<exists>n. best (filter (\<lambda>c. cm_internal_name c = n) cs) = Some c}"
    by (cases "best (filter (\<lambda>c. cm_internal_name c = n) cs)") auto
next
  fix c assume "c \<in> {c. \<exists>n. best (filter (\<lambda>c. cm_internal_name c = n) cs) = Some c}"
  then obtain n where n: "best (filter (\<lambda>c. cm_internal_name c = n) cs) = Some c" by auto
  from best_in [OF n] have "n \<in> cm_internal_name ` set cs" by auto
  with n show "c \<in> set (merge_spec cs)" by (force simp: merge_spec_def)
qed

subsection \<open>The view as a source of classes\<close>

lemma classes_with_ran: "classes_with g P \<subseteq> ran g"
  by (auto simp: classes_with_def ran_def)

lemma layer_lookup_name:
  assumes "layer_ok v l" "layer_lookup v l n = Some c"
  shows "cm_internal_name c = n"
  using assms bucket.get_name reader.get_name
  by (auto simp: layer_ok_def layer_lookup_def split: scope_layer.splits option.splits)

lemma layer_names_dom:
  assumes "layer_ok v l"
  shows "set (layer_names v l) = dom (layer_lookup v l)"
  using assms
  by (auto simp: layer_ok_def layer_names_def layer_lookup_def bucket.keys_dom reader.keys_dom domIff
        split: scope_layer.splits option.splits)

lemma view_layer_ok: "view_ok v \<Longrightarrow> l \<in> set (layers v) \<Longrightarrow> layer_ok v l"
  by (simp add: view_ok_def list_all_iff)

lemma name_table_names: "set (hkeys (name_table_from_names ns)) = set ns"
proof -
  have "dom (hget (fold (\<lambda>n. hinsert n ()) ns t)) = set ns \<union> dom (hget t)" for t :: name_table
    by (induction ns arbitrary: t) (auto simp: domIff split: if_splits)
  then show ?thesis by (simp add: name_table_from_names_def)
qed

interpretation view: class_lookup view_ok view_get_class view_exact_match_keys
proof unfold_locales
  fix v :: "'c index_view" and n c
  assume ok: "view_ok v"
  assume "view_get_class v n = Some c"
  then obtain l where "l \<in> set (layers v)" "layer_lookup v l n = Some c"
    using best_in [of "found_in_layers v n"] by (auto simp: view_get_class_best [OF ok] set_map_filter)
  then show "cm_internal_name c = n" using layer_lookup_name view_layer_ok [OF ok] by blast
next
  fix v :: "'c index_view"
  assume ok: "view_ok v"
  have "set (view_exact_match_keys v) = (\<Union>l\<in>set (layers v). set (layer_names v l))"
    by (simp add: view_exact_match_keys_def scope_build_name_table_def name_table_names
          fold_fold_map fold_push_new flip: dedup_def del: set_hkeys)
  also have "\<dots> = (\<Union>l\<in>set (layers v). dom (layer_lookup v l))"
    using view_layer_ok [OF ok] by (simp add: layer_names_dom)
  also have "\<dots> = dom (view_get_class v)"
    by (auto simp: dom_def view_get_class_best [OF ok] set_map_filter simp flip: set_empty)
  finally show "set (view_exact_match_keys v) = dom (view_get_class v)" .
qed


text \<open>
  Classes of one internal name in several layers agree on their simple name, package and owner.
  Then merging the lists of the layers gives the classes that \<open>view_get_class\<close> returns.
\<close>

definition coherent :: "'c index_view \<Rightarrow> bool" where
  "coherent v \<longleftrightarrow>
     (\<forall>l\<in>set (layers v). \<forall>l'\<in>set (layers v). \<forall>n c c'.
        layer_lookup v l n = Some c \<longrightarrow> layer_lookup v l' n = Some c' \<longrightarrow>
        cm_name c = cm_name c' \<and> cm_package c = cm_package c' \<and>
        cm_inner_class_of c = cm_inner_class_of c')"

definition view_inv :: "'c index_view \<Rightarrow> bool" where
  "view_inv v \<longleftrightarrow> view_ok v \<and> coherent v"

lemma coherentD:
  assumes "coherent v" "l \<in> set (layers v)" "l' \<in> set (layers v)"
    "layer_lookup v l n = Some c" "layer_lookup v l' n = Some c'"
  shows "cm_name c = cm_name c'" "cm_package c = cm_package c'" "cm_inner_class_of c = cm_inner_class_of c'"
  using assms unfolding coherent_def by blast+

lemma filter_concat_map: "filter P (concat (map f xs)) = concat (map (\<lambda>x. filter P (f x)) xs)"
  by (induction xs) auto

lemma merged_set:
  assumes ok: "view_ok v"
    and lists: "\<And>l. l \<in> set (layers v) \<Longrightarrow> set (f l) = classes_with (layer_lookup v l) P"
    and stable: "\<And>l l' n c c'. l \<in> set (layers v) \<Longrightarrow> l' \<in> set (layers v) \<Longrightarrow>
      layer_lookup v l n = Some c \<Longrightarrow> layer_lookup v l' n = Some c' \<Longrightarrow> P c \<Longrightarrow> P c'"
  shows "set (merge_spec (concat (map f (layers v)))) = classes_with (view_get_class v) P"
proof -
  have at: "set (filter (\<lambda>c. cm_internal_name c = n) (f l)) = {c. layer_lookup v l n = Some c \<and> P c}"
    if "l \<in> set (layers v)" for l n
    using lists [OF that] layer_lookup_name [OF view_layer_ok [OF ok that]]
    by (auto simp: classes_with_def)
  have best: "best (filter (\<lambda>c. cm_internal_name c = n) (concat (map f (layers v))))
      = (if \<exists>l\<in>set (layers v). \<exists>c. layer_lookup v l n = Some c \<and> P c then view_get_class v n else None)"
    for n
  proof (cases "\<exists>l\<in>set (layers v). \<exists>c. layer_lookup v l n = Some c \<and> P c")
    case True
    then obtain l0 d where l0: "l0 \<in> set (layers v)" "layer_lookup v l0 n = Some d" "P d" by blast
    have "set (filter (\<lambda>c. cm_internal_name c = n) (f l)) = set_option (layer_lookup v l n)"
      if "l \<in> set (layers v)" for l
      unfolding at [OF that] using stable [OF l0(1) that l0(2) _ l0(3)]
      by (cases "layer_lookup v l n") auto
    then show ?thesis
      using True by (simp add: filter_concat_map best_copies view_get_class_best [OF ok])
  next
    case False
    then have "filter (\<lambda>c. cm_internal_name c = n) (f l) = []" if "l \<in> set (layers v)" for l
      using at [OF that, of n] that by (simp flip: set_empty)
    then have "filter (\<lambda>c. cm_internal_name c = n) (concat (map f (layers v))) = []"
      by (simp add: filter_concat_map concat_eq_Nil_conv)
    then show ?thesis by (simp only: False if_False best_simps)
  qed
  have "P c" if "view_get_class v n = Some c" "l \<in> set (layers v)" "layer_lookup v l n = Some d" "P d"
    for n c l d
    using best_in [of "found_in_layers v n" c] that stable [OF that(2) _ that(3) _ that(4)]
    by (auto simp: view_get_class_best [OF ok] set_map_filter)
  moreover have "\<exists>l\<in>set (layers v). layer_lookup v l n = Some c" if "view_get_class v n = Some c" for n c
    using best_in [of "found_in_layers v n" c] that
    by (auto simp: view_get_class_best [OF ok] set_map_filter)
  ultimately have "(if \<exists>l\<in>set (layers v). \<exists>c. layer_lookup v l n = Some c \<and> P c
      then view_get_class v n else None) = Some c \<longleftrightarrow> view_get_class v n = Some c \<and> P c" for n c
    by (metis option.distinct(1))
  then show ?thesis by (auto simp: merge_spec_set best classes_with_def)
qed

lemma reader_entry_valid:
  assumes "index_ok proj idx (reader_slots r)" "h \<in> set (handles_of_entry r idx k)"
  shows "\<exists>rec. reader_record r h = Some rec"
proof -
  from assms(2) obtain w where w: "w \<in> set (ids_of idx k)" "h = handle_at r w"
    by (auto simp: handles_of_entry_def ids_of_def)
  from w(1) assms(1) have "\<exists>rec. reader_slots r w = Some rec" by (auto simp: index_ok_def)
  then show ?thesis using w(2) by (auto simp: reader_slots_def reader_record_def split: if_splits)
qed

text \<open>The list of the view for one of the secondary indexes is the merge of the layers' lists.\<close>

lemma merged_list:
  assumes "view_ok v"
    and "\<And>s. bucket_inv s \<Longrightarrow> set (of_bucket s) = classes_with (bucket_get_class s) P"
    and "\<And>r h. reader_inv r \<Longrightarrow> h \<in> set (of_reader r) \<Longrightarrow> \<exists>rec. reader_record r h = Some rec"
  shows "resolve_class_refs v (merge_class_refs v (layer_refs of_bucket of_reader v))
    = merge_spec (concat (map (layer_list of_bucket of_reader v) (layers v)))"
  unfolding merge_class_refs_def
  using assms classes_with_ran by (intro resolve_refs_of merge_refs_of concat_layer_refs_of) auto

lemma layer_list_set:
  assumes "layer_ok v l"
    and "\<And>s. bucket_inv s \<Longrightarrow> set (of_bucket s) = classes_with (bucket_get_class s) P"
    and "\<And>r. reader_inv r \<Longrightarrow> set (reader_resolve r (of_reader r)) = classes_with (reader_lookup r) P"
  shows "set (layer_list of_bucket of_reader v l) = classes_with (layer_lookup v l) P"
  using assms
  by (auto simp: layer_ok_def layer_list_def layer_lookup_def classes_with_def
        split: scope_layer.splits option.splits)

lemma view_simple_name_merge:
  assumes "view_ok v"
  shows "view_get_classes_by_simple_name v k = merge_spec (concat (map (layer_list
    (\<lambda>s. bucket_get_classes_by_simple_name s k) (\<lambda>r. class_handles_by_simple_name r k) v) (layers v)))"
  unfolding view_get_classes_by_simple_name_def layer_classes_by_simple_name_refs_def
  by (rule merged_list [OF assms bucket.by_simple_set])
     (auto simp: reader_inv_def class_handles_by_simple_name_def dest: reader_entry_valid)

lemma view_package_merge:
  assumes "view_ok v"
  shows "view_classes_in_package v p = merge_spec (concat (map (layer_list
    (\<lambda>s. bucket_classes_in_package s p) (\<lambda>r. class_handles_in_package r p) v) (layers v)))"
  unfolding view_classes_in_package_def classes_in_package_refs_def layer_classes_in_package_refs_def
  by (rule merged_list [OF assms bucket.in_package_set])
     (auto simp: reader_inv_def class_handles_in_package_def dest: reader_entry_valid)

lemma view_inner_merge:
  assumes "view_ok v"
  shows "view_direct_inner_classes_of v k = merge_spec (concat (map (layer_list
    (\<lambda>s. bucket_direct_inner_classes_by_owner s k) (\<lambda>r. direct_inner_class_handles r k) v) (layers v)))"
  unfolding view_direct_inner_classes_of_def layer_direct_inner_class_refs_def
  by (rule merged_list [OF assms bucket.inner_of_set [unfolded bucket_direct_inner_classes_of_def]])
     (auto simp: reader_inv_def direct_inner_class_handles_def dest: reader_entry_valid)


interpretation view_source: class_source view_inv view_get_class view_exact_match_keys
  view_get_classes_by_simple_name view_classes_in_package view_direct_inner_classes_of
proof unfold_locales
  fix v :: "'c index_view" and n k p c
  assume "view_inv v"
  then have ok: "view_ok v" and coh: "coherent v" by (simp_all add: view_inv_def)
  show "view_get_class v n = Some c \<Longrightarrow> cm_internal_name c = n" by (rule view.get_name [OF ok])
  show "set (view_exact_match_keys v) = dom (view_get_class v)" by (rule view.keys_dom [OF ok])
  show "set (view_get_classes_by_simple_name v k) = classes_with (view_get_class v) (\<lambda>c. cm_name c = k)"
    unfolding view_simple_name_merge [OF ok]
    by (rule merged_set [OF ok layer_list_set [OF view_layer_ok [OF ok]]])
       (auto simp: bucket.by_simple_set reader.by_simple_set dest: coherentD [OF coh])
  show "set (view_classes_in_package v p)
      = classes_with (view_get_class v) (\<lambda>c. cm_package c = Some (slashed p))"
    unfolding view_package_merge [OF ok]
    by (rule merged_set [OF ok layer_list_set [OF view_layer_ok [OF ok]]])
       (auto simp: bucket.in_package_set reader.in_package_set dest: coherentD [OF coh])
  show "set (view_direct_inner_classes_of v k)
      = classes_with (view_get_class v) (\<lambda>c. cm_inner_class_of c = Some k)"
    unfolding view_inner_merge [OF ok]
    by (rule merged_set [OF ok layer_list_set [OF view_layer_ok [OF ok]]])
       (auto simp: bucket.inner_of_set [unfolded bucket_direct_inner_classes_of_def] reader.inner_of_set
             dest: coherentD [OF coh])
qed

lemma merged_distinct: "distinct (map cm_internal_name (merge_spec cs))"
  by (simp add: merge_spec_names)

subsection \<open>Hierarchies\<close>

text \<open>The references of the hierarchy stand for the classes of the hierarchy of the view's map.\<close>

lemma visits_rel:
  fixes get :: "'k \<Rightarrow> 'a option" and get' :: "'k \<Rightarrow> 'b option"
  assumes "\<And>k. rel_option (\<lambda>x y. f x = g y) (get k) (get' k)"
  shows "visits U get f q S = visits U get' g q S"
proof -
  have "bfs U get f (\<lambda>k v ks. ks @ [k]) q S acc = bfs U get' g (\<lambda>k v ks. ks @ [k]) q S acc" for acc
    using assms
  proof (induction U get f "\<lambda>(k :: 'k) (v :: 'a) ks. ks @ [k]" q S acc rule: bfs.induct)
    case (2 U get f k q S acc)
    show ?case
    proof (cases "get k")
      case None
      with "2.prems" [of k] have "get' k = None" by simp
      with None 2 show ?thesis by (auto split: option.splits)
    next
      case (Some x)
      with "2.prems" [of k] obtain y where "get' k = Some y" "f x = g y" by (auto simp: option_rel_Some1)
      with Some 2 show ?thesis by auto
    qed
  qed simp
  then show ?thesis by (simp add: visits_def)
qed


abbreviation view_hierarchy :: "'c index_view \<Rightarrow> str \<Rightarrow> class_metadata list" where
  "view_hierarchy v \<equiv> hierarchy (view_exact_match_keys v) (view_get_class v)"

text \<open>The reference that the look-up by internal name returns for a class.\<close>

definition found_ref :: "'c index_view \<Rightarrow> class_handle_ref \<Rightarrow> class_metadata \<Rightarrow> bool" where
  "found_ref v ref c \<longleftrightarrow>
     ref_of v ref c \<and> get_class_ref_by_internal v (cm_internal_name c) = Some ref"

lemma hierarchy_order_found:
  assumes "view_ok v"
  shows "list_all2 (found_ref v) (hierarchy_order v n) (view_hierarchy v n)"
proof -
  let ?ks = "visits (view_exact_match_keys v) (view_get_class v) supertypes [n] {}"
  have rel: "rel_option (\<lambda>ref c. parent_names v ref = supertypes c)
      (get_class_ref_by_internal v k) (view_get_class v k)" for k
    using get_class_ref_of [OF assms, of k]
    by (auto simp: view_get_class_best [OF assms] rel_option_iff ref_ofD(9) split: option.splits)
  have order: "hierarchy_order v n = map (the \<circ> get_class_ref_by_internal v) ?ks"
    by (simp add: hierarchy_order_def bfs_eq_fold fold_snoc comp_def visits_rel [OF rel])
  have "found_ref v (the (get_class_ref_by_internal v k)) (the (view_get_class v k))" if k: "k \<in> set ?ks" for k
  proof -
    obtain c where c: "view_get_class v k = Some c" "cm_internal_name c = k"
      using view.visited_class [OF assms k] by metis
    then obtain ref where ref: "get_class_ref_by_internal v k = Some ref"
      using get_class_ref_none [OF assms, of k] by (cases "get_class_ref_by_internal v k") auto
    from get_class_ref_some [OF assms ref] c ref show ?thesis by (auto simp: found_ref_def)
  qed
  then show ?thesis
    by (simp add: order hierarchy_visits list_all2_map1 list_all2_map2 list.rel_refl_strong)
qed

lemma hierarchy_order_of:
  assumes "view_ok v"
  shows "list_all2 (ref_of v) (hierarchy_order v n) (view_hierarchy v n)"
  using hierarchy_order_found [OF assms] by (rule list_all2_mono) (simp add: found_ref_def)

subsection \<open>Members\<close>

abbreviation all_methods :: "class_metadata list \<Rightarrow> method_summary list" where
  "all_methods cs \<equiv> concat (map cm_methods cs)"

abbreviation all_fields :: "class_metadata list \<Rightarrow> field_summary list" where
  "all_fields cs \<equiv> concat (map cm_fields cs)"

lemma fold_add_new_members:
  "fold add_new_members (map (\<lambda>c. (cm_methods c, cm_fields c)) cs) ((ms, sm), (fs, sf)) =
     ((ms @ first_by method_shadow_key sm (all_methods cs), sm \<union> method_shadow_key ` set (all_methods cs)),
      (fs @ first_by fs_name sf (all_fields cs), sf \<union> fs_name ` set (all_fields cs)))"
  by (induction cs arbitrary: ms sm fs sf)
     (auto simp: add_new_members_def fold_push_new first_by_append image_Un Un_assoc)

lemma ref_members_of:
  "list_all2 (ref_of v) refs cs \<Longrightarrow>
     try_map (ref_members v) refs = Inr (map (\<lambda>c. (cm_methods c, cm_fields c)) cs)"
  by (induction refs cs rule: list_all2_induct) (simp_all add: ref_ofD(10))

lemma view_members:
  assumes "view_ok v"
  shows "view_collect_inherited_members v n =
    Inr (first_by method_shadow_key {} (all_methods (view_hierarchy v n)),
         first_by fs_name {} (all_fields (view_hierarchy v n)))"
  using ref_members_of [OF hierarchy_order_of [OF assms, of n]]
  by (simp add: view_collect_inherited_members_def fold_add_new_members)

lemma project_hierarchy_of:
  assumes "list_all2 (ref_of v) refs cs"
  shows "\<exists>ps. project_hierarchy_classes v refs = ps
    \<and> all_methods ps = first_by method_shadow_key {} (all_methods cs)
    \<and> all_fields ps = first_by fs_name {} (all_fields cs)
    \<and> map (\<lambda>p. p\<lparr>cm_methods := [], cm_fields := []\<rparr>) ps = map (\<lambda>c. c\<lparr>cm_methods := [], cm_fields := []\<rparr>) cs"
proof -
  let ?step = "\<lambda>ref (result, seen_methods, seen_fields).
        (case resolve_class_ref v ref of
           None \<Rightarrow> (result, seen_methods, seen_fields)
         | Some c \<Rightarrow>
             (let (ms, seen_methods') = fold (push_new method_shadow_key) (cm_methods c) ([], seen_methods);
                  (fs, seen_fields') = fold (push_new fs_name) (cm_fields c) ([], seen_fields)
              in (result @ [c\<lparr>cm_methods := ms, cm_fields := fs\<rparr>], seen_methods', seen_fields')))"
  have "\<exists>ps sm' sf'. fold ?step refs (acc, sm, sf) = (acc @ ps, sm', sf')
      \<and> all_methods ps = first_by method_shadow_key sm (all_methods cs)
      \<and> all_fields ps = first_by fs_name sf (all_fields cs)
      \<and> map (\<lambda>p. p\<lparr>cm_methods := [], cm_fields := []\<rparr>) ps
          = map (\<lambda>c. c\<lparr>cm_methods := [], cm_fields := []\<rparr>) cs" for acc sm sf
    using assms
  proof (induction refs cs arbitrary: acc sm sf rule: list_all2_induct)
    case (Cons ref refs c cs)
    let ?p = "c\<lparr>cm_methods := first_by method_shadow_key sm (cm_methods c),
                cm_fields := first_by fs_name sf (cm_fields c)\<rparr>"
    from Cons.IH [of "acc @ [?p]" "sm \<union> method_shadow_key ` set (cm_methods c)"
        "sf \<union> fs_name ` set (cm_fields c)"]
    obtain ps sm' sf' where
      ps: "fold ?step refs (acc @ [?p], sm \<union> method_shadow_key ` set (cm_methods c),
          sf \<union> fs_name ` set (cm_fields c)) = (acc @ [?p] @ ps, sm', sf')"
      "all_methods ps = first_by method_shadow_key (sm \<union> method_shadow_key ` set (cm_methods c)) (all_methods cs)"
      "all_fields ps = first_by fs_name (sf \<union> fs_name ` set (cm_fields c)) (all_fields cs)"
      "map (\<lambda>p. p\<lparr>cm_methods := [], cm_fields := []\<rparr>) ps = map (\<lambda>c. c\<lparr>cm_methods := [], cm_fields := []\<rparr>) cs"
      by auto
    then show ?case
      by (intro exI [of _ "?p # ps"] exI [of _ sm'] exI [of _ sf'])
         (simp add: ref_ofD(1) [OF Cons.hyps(1)] fold_push_new first_by_append)
  qed simp
  from this [of "[]" "{}" "{}"] show ?thesis by (auto simp: project_hierarchy_classes_def)
qed

lemma view_mro_shape:
  assumes "view_ok v"
  shows "map (\<lambda>c. c\<lparr>cm_methods := [], cm_fields := []\<rparr>) (view_mro v n)
    = map (\<lambda>c. c\<lparr>cm_methods := [], cm_fields := []\<rparr>) (view_hierarchy v n)"
  using project_hierarchy_of [OF hierarchy_order_of [OF assms, of n]] by (auto simp: view_mro_def)

lemma view_mro_names:
  assumes "view_ok v"
  shows "map cm_internal_name (view_mro v n) = map cm_internal_name (view_hierarchy v n)"
    and "set (map cm_internal_name (view_mro v n))
      = {m. (n, m) \<in> (super_rel (view_get_class v))\<^sup>* \<and> view_get_class v m \<noteq> None}"
proof -
  have "map cm_internal_name (map (\<lambda>c. c\<lparr>cm_methods := [], cm_fields := []\<rparr>) (view_mro v n))
      = map cm_internal_name (map (\<lambda>c. c\<lparr>cm_methods := [], cm_fields := []\<rparr>) (view_hierarchy v n))"
    by (simp only: view_mro_shape [OF assms])
  then show names: "map cm_internal_name (view_mro v n) = map cm_internal_name (view_hierarchy v n)"
    by (simp add: comp_def)
  show "set (map cm_internal_name (view_mro v n))
      = {m. (n, m) \<in> (super_rel (view_get_class v))\<^sup>* \<and> view_get_class v m \<noteq> None}"
    unfolding names using view.hierarchy_set [OF assms, of n] view.get_name [OF assms]
    by (force intro: rev_image_eqI)
qed

end
