(* ===== verification/View_Properties.thy ===== *)
theory View_Properties
  imports View_Laws Bucket_Laws
begin

text \<open>
  The properties of views. \<open>sample_view\<close> builds a small view for the examples: one bucket per list
  of classes, in order.
\<close>

subsection \<open>A view for the examples\<close>

definition sample_bucket :: "class_metadata list \<Rightarrow> (str, members) hash_map bucket_state" where
  "sample_bucket cs = projr (bucket_add_classes map_cache (bucket_new map_cache) cs)"

definition sample_view :: "class_metadata list list \<Rightarrow> (str, members) hash_map index_view" where
  "sample_view css =
     \<lparr>iv_world = \<lparr>wd_buckets = (\<lambda>i. sample_bucket (if i < length css then css ! i else [])),
                  wd_readers = (\<lambda>_. None)\<rparr>,
      iv_scope = scope_from_layers [0..<length css]\<rparr>"

lemma bucket_get_class_new [simp]: "bucket_get_class (bucket_new L) = Map.empty"
  by (simp add: bucket_get_class_def bucket_new_def fun_eq_iff)

lemma sample_bucket_ok:
  "bucket_inv (sample_bucket cs)" "bucket_get_class (sample_bucket cs) = class_map cs"
proof -
  obtain s where "bucket_add_classes map_cache (bucket_new map_cache) cs = Inr s" "bucket_inv s"
    "bucket_get_class s = class_map cs"
    using add_classes_ok [OF bucket_new_inv, of map_cache map_cache cs None]
    by (auto simp: bucket_add_classes_def)
  then show "bucket_inv (sample_bucket cs)" "bucket_get_class (sample_bucket cs) = class_map cs"
    by (simp_all add: sample_bucket_def)
qed

lemma sample_view_ok:
  "view_ok (sample_view css)" "layers (sample_view css) = map Overlay [0..<length css]"
  "i < length css \<Longrightarrow> layer_lookup (sample_view css) (Overlay i) = class_map (css ! i)"
  by (auto simp: view_ok_def layer_ok_def layers_def sample_view_def scope_from_layers_def scope_new_def
        layer_lookup_def fun_eq_iff sample_bucket_ok list_all_iff split: scope_layer.splits)

lemma sample_found:
  "found_in_layers (sample_view css) n = List.map_filter (\<lambda>cs. class_map cs n) css"
proof -
  have "List.map_filter (\<lambda>l. layer_lookup (sample_view css) l n) (map Overlay is)
      = List.map_filter (\<lambda>cs. class_map cs n) (map (\<lambda>i. css ! i) is)" if "\<forall>i\<in>set is. i < length css" for "is"
    using that by (induction "is") (auto simp: map_filter_simps sample_view_ok(3) split: option.splits)
  from this [of "[0..<length css]"] show ?thesis by (simp add: sample_view_ok(2) map_nth)
qed

subsection \<open>Look-ups\<close>

text \<open>
  C5. Precedence: the class that a view returns for an internal name is the first class from a
  source file that any layer holds under that name, or, if there is none, the class of the first
  layer that holds one; and the view knows a name exactly when some layer does.
\<close>

theorem view_get_class_precedence:
  assumes "view_ok v"
  shows "view_get_class v n = best (List.map_filter (\<lambda>l. layer_lookup v l n) (layers v))
    \<and> (view_get_class v n = None \<longleftrightarrow> (\<forall>l\<in>set (layers v). layer_lookup v l n = None))"
proof -
  have "List.map_filter f xs = [] \<longleftrightarrow> (\<forall>x\<in>set xs. f x = None)" for f :: "scope_layer \<Rightarrow> class_metadata option" and xs
    by (induction xs) (auto simp: map_filter_simps split: option.splits)
  then show ?thesis by (simp add: view_get_class_best [OF assms])
qed

theorem view_get_class_precedence_witness:
  "view_get_class (sample_view
      [[plain_class None ''A'' ''A'' (Jar ''1.jar'')], [],
       [plain_class None ''A'' ''A'' (SourceFile ''A.java'')],
       [plain_class None ''A'' ''A'' (SourceFile ''old/A.java'')]]) ''A''
    = Some (plain_class None ''A'' ''A'' (SourceFile ''A.java''))"
  using view_get_class_precedence [OF sample_view_ok(1)]
  by (simp add: sample_found map_filter_simps plain_class_def best_def is_source_def)

text \<open>
  Consistency of a view: when the layers agree on the simple name, package and owner of the
  classes they share, the look-ups by simple name, package and owner list exactly the classes that
  the look-up by internal name returns and that have that name, package or owner, each internal
  name once.
\<close>

theorem view_lookups_consistent:
  assumes "view_inv v"
  shows "set (view_get_classes_by_simple_name v k) = classes_with (view_get_class v) (\<lambda>c. cm_name c = k)
    \<and> set (view_classes_in_package v p)
        = classes_with (view_get_class v) (\<lambda>c. cm_package c = Some (slashed p))
    \<and> set (view_direct_inner_classes_of v k)
        = classes_with (view_get_class v) (\<lambda>c. cm_inner_class_of c = Some k)
    \<and> set (view_exact_match_keys v) = dom (view_get_class v)
    \<and> distinct (map cm_internal_name (view_get_classes_by_simple_name v k))
    \<and> distinct (map cm_internal_name (view_classes_in_package v p))
    \<and> distinct (map cm_internal_name (view_direct_inner_classes_of v k))"
proof -
  have ok: "view_ok v" using assms by (simp add: view_inv_def)
  show ?thesis
    using view_source.by_simple_set [OF assms, of k] view_source.in_package_set [OF assms, of p]
      view_source.inner_of_set [OF assms, of k] view.keys_dom [OF ok]
    by (simp add: view_simple_name_merge [OF ok] view_package_merge [OF ok] view_inner_merge [OF ok]
          merged_distinct)
qed

lemma class_map_Some_in: "class_map cs n = Some c \<Longrightarrow> c \<in> set cs \<and> cm_internal_name c = n"
  by (auto dest: map_of_SomeD)

lemma sample_coherent:
  assumes "\<forall>c\<in>set (concat css). \<forall>c'\<in>set (concat css). cm_internal_name c = cm_internal_name c' \<longrightarrow>
    cm_name c = cm_name c' \<and> cm_package c = cm_package c' \<and> cm_inner_class_of c = cm_inner_class_of c'"
  shows "view_inv (sample_view css)"
proof -
  have "c \<in> set (concat css) \<and> cm_internal_name c = n"
    if "l \<in> set (layers (sample_view css))" "layer_lookup (sample_view css) l n = Some c" for l n c
  proof -
    from that(1) obtain i where i: "i < length css" "l = Overlay i" by (auto simp: sample_view_ok(2))
    with that(2) have "class_map (css ! i) n = Some c" by (simp add: sample_view_ok(3))
    with class_map_Some_in [OF this] nth_mem [OF i(1)] show ?thesis by auto
  qed
  with assms have "coherent (sample_view css)" unfolding coherent_def by blast
  then show ?thesis by (simp add: view_inv_def sample_view_ok(1))
qed

theorem view_lookups_consistent_witness:
  "set (view_classes_in_package (sample_view
      [[plain_class (Some ''p'') ''A'' ''p/A'' (Jar ''1.jar'')],
       [plain_class (Some ''p'') ''A'' ''p/A'' (SourceFile ''A.java'')]]) ''p'')
    = {plain_class (Some ''p'') ''A'' ''p/A'' (SourceFile ''A.java'')}"
proof -
  let ?css = "[[plain_class (Some ''p'') ''A'' ''p/A'' (Jar ''1.jar'')],
       [plain_class (Some ''p'') ''A'' ''p/A'' (SourceFile ''A.java'')]]"
  have "view_inv (sample_view ?css)" by (rule sample_coherent) (simp add: plain_class_def)
  from view_lookups_consistent [OF this, of _ "''p''"] show ?thesis
    by (auto simp: classes_with_def view_get_class_best [OF sample_view_ok(1)] sample_found
          map_filter_simps plain_class_def best_def is_source_def replace_char_def split: if_splits)
qed

lemma layer_iter_all:
  assumes "layer_ok v l"
  shows "layer_iter_all_class_refs v l = Inr (layer_refs bucket_iter_all_classes
    (\<lambda>r. map (handle_at r \<circ> word_of_nat) [0..<length (rd_classes r)]) v l)"
proof -
  have "iter_all_class_handles r = Inr (map (handle_at r \<circ> word_of_nat) [0..<length (rd_classes r)])"
    if "reader_inv r" for r
    using that by (intro iter_all_class_handles_ok) (simp add: reader_inv_def)
  with assms show ?thesis
    by (auto simp: layer_ok_def layer_iter_all_class_refs_def layer_refs_def
          split: scope_layer.splits option.splits)
qed

lemma reader_iter_all_valid:
  assumes "reader_inv r" "h \<in> set (map (handle_at r \<circ> word_of_nat) [0..<length (rd_classes r)])"
  shows "\<exists>rec. reader_record r h = Some rec"
proof -
  from assms(2) obtain i where i: "i < length (rd_classes r)" "h = handle_at r (word_of_nat i)" by auto
  moreover have "length (rd_classes r) \<le> 2 ^ 32" using assms(1) by (simp add: reader_inv_def)
  ultimately show ?thesis using unat_word_of_nat_32 [of i] by (simp add: reader_record_def)
qed

lemma bucket_iter_all_with:
  "bucket_inv s \<Longrightarrow> set (bucket_iter_all_classes s) = classes_with (bucket_get_class s) (\<lambda>_. True)"
  by (simp add: iter_all_classes_set classes_with_def ran_def)

text \<open>
  Enumeration: listing all classes of a view never panics and gives every class that the
  look-up by internal name returns, each once.
\<close>

theorem view_enumerates:
  assumes "view_ok v"
  shows "\<exists>cs. view_iter_all_classes v = Inr cs \<and> set cs = ran (view_get_class v)
    \<and> distinct (map cm_internal_name cs)"
proof -
  let ?handles = "\<lambda>r. map (handle_at r \<circ> word_of_nat) [0..<length (rd_classes r)]"
  let ?cs = "merge_spec (concat (map (layer_list bucket_iter_all_classes ?handles v) (layers v)))"
  have "try_map (layer_iter_all_class_refs v) (layers v)
      = Inr (map (layer_refs bucket_iter_all_classes ?handles v) (layers v))"
    using layer_iter_all view_layer_ok [OF assms] by (intro try_map_Inr) blast
  then have "view_iter_all_classes v = Inr ?cs"
    using merged_list [OF assms bucket_iter_all_with reader_iter_all_valid, of ?handles]
    by (simp add: view_iter_all_classes_def merge_class_refs_def)
  moreover have "set ?cs = classes_with (view_get_class v) (\<lambda>_. True)"
    by (rule merged_set [OF assms layer_list_set [OF view_layer_ok [OF assms]
          bucket_iter_all_with reader_iter_all_set]]) auto
  ultimately show ?thesis by (auto simp: merged_distinct classes_with_def ran_def)
qed

theorem view_enumerates_witness:
  "\<exists>cs. view_iter_all_classes (sample_view
      [[plain_class None ''A'' ''A'' (Jar ''1.jar'')], [plain_class None ''A'' ''A'' (SourceFile ''A.java'')]])
     = Inr cs \<and> set cs = {plain_class None ''A'' ''A'' (SourceFile ''A.java'')}"
  using view_enumerates [OF sample_view_ok(1), of
      "[[plain_class None ''A'' ''A'' (Jar ''1.jar'')], [plain_class None ''A'' ''A'' (SourceFile ''A.java'')]]"]
  by (fastforce simp: ran_def view_get_class_best [OF sample_view_ok(1)] sample_found
        map_filter_simps plain_class_def best_def is_source_def split: if_splits)

subsection \<open>Hierarchies and members\<close>

text \<open>
  C16. The linearised hierarchy of a view lists every class that the view knows and that is
  reachable over superclass and interface names, each once and the class itself first, and keeps
  everything of a class but the members that a class before it declared.
\<close>

theorem view_mro_lists_hierarchy:
  assumes "view_ok v"
  shows "set (map cm_internal_name (view_mro v n))
      = {m. (n, m) \<in> (super_rel (view_get_class v))\<^sup>* \<and> view_get_class v m \<noteq> None}
    \<and> distinct (map cm_internal_name (view_mro v n))
    \<and> (view_get_class v n \<noteq> None \<longrightarrow> view_mro v n \<noteq> [] \<and> cm_internal_name (hd (view_mro v n)) = n)
    \<and> map (\<lambda>c. c\<lparr>cm_methods := [], cm_fields := []\<rparr>) (view_mro v n)
      = map (\<lambda>c. c\<lparr>cm_methods := [], cm_fields := []\<rparr>) (view_hierarchy v n)"
proof -
  note names = view_mro_names [OF assms]
  have "view_mro v n \<noteq> [] \<and> cm_internal_name (hd (view_mro v n)) = n"
    if known: "view_get_class v n \<noteq> None"
  proof -
    from known obtain c where c: "view_get_class v n = Some c" by auto
    with view.hierarchy_head(1) [OF assms c] view.get_name [OF assms c] names(1) [of n] show ?thesis
      by (cases "view_mro v n") auto
  qed
  then show ?thesis
    using names [of n] view.hierarchy_distinct [OF assms, of n] view_mro_shape [OF assms] by simp
qed

lemma sample_get_class:
  "view_get_class (sample_view css) n = best (List.map_filter (\<lambda>cs. class_map cs n) css)"
  by (simp add: view_get_class_best [OF sample_view_ok(1)] sample_found)

lemma sample_keys:
  "n \<in> set (view_exact_match_keys (sample_view css)) \<longleftrightarrow> view_get_class (sample_view css) n \<noteq> None"
  by (simp add: view.keys_dom [OF sample_view_ok(1)] domIff)

lemmas sample_hierarchy = hierarchy_visits visits_simps sample_keys sample_get_class map_filter_simps
  supertypes_def

theorem view_mro_lists_hierarchy_witness:
  "distinct (map cm_internal_name (view_mro (sample_view
      [[(plain_class None ''A'' ''A'' UnknownOrigin)\<lparr>cm_super_name := Some ''B''\<rparr>],
       [(plain_class None ''B'' ''B'' UnknownOrigin)\<lparr>cm_interfaces := [''A'', ''X'']\<rparr>]]) ''A''))
   \<and> cm_internal_name (hd (view_mro (sample_view
      [[(plain_class None ''A'' ''A'' UnknownOrigin)\<lparr>cm_super_name := Some ''B''\<rparr>],
       [(plain_class None ''B'' ''B'' UnknownOrigin)\<lparr>cm_interfaces := [''A'', ''X'']\<rparr>]]) ''A'')) = ''A''"
  using view_mro_lists_hierarchy [OF sample_view_ok(1), of
      "[[(plain_class None ''A'' ''A'' UnknownOrigin)\<lparr>cm_super_name := Some ''B''\<rparr>],
        [(plain_class None ''B'' ''B'' UnknownOrigin)\<lparr>cm_interfaces := [''A'', ''X'']\<rparr>]]" "''A''"]
  by (simp add: sample_get_class map_filter_simps plain_class_def)

text \<open>
  C17. Inherited members: collecting the members of a class never panics and gives exactly the
  members of the linearised hierarchy, which are the first method of each name and signature and
  the first field of each name along the hierarchy; the look-ups of a method or field name select
  from these.
\<close>

theorem view_members_agree:
  assumes "view_ok v"
  shows "view_collect_inherited_members v n = Inr (all_methods (view_mro v n), all_fields (view_mro v n))
    \<and> all_methods (view_mro v n) = first_by method_shadow_key {} (all_methods (view_hierarchy v n))
    \<and> all_fields (view_mro v n) = first_by fs_name {} (all_fields (view_hierarchy v n))
    \<and> lookup_field_in_hierarchy v n f = Inr (find (\<lambda>x. fs_name x = f) (all_fields (view_hierarchy v n)))"
proof -
  have "all_methods (view_mro v n) = first_by method_shadow_key {} (all_methods (view_hierarchy v n))
    \<and> all_fields (view_mro v n) = first_by fs_name {} (all_fields (view_hierarchy v n))"
    using project_hierarchy_of [OF hierarchy_order_of [OF assms, of n]] by (auto simp: view_mro_def)
  moreover have "f \<notin> seen \<Longrightarrow> find (\<lambda>x. fs_name x = f) (first_by fs_name seen xs) = find (\<lambda>x. fs_name x = f) xs"
    for seen and xs :: "field_summary list" by (induction xs arbitrary: seen) auto
  ultimately show ?thesis by (simp add: view_members [OF assms] lookup_field_in_hierarchy_def)
qed

theorem view_members_agree_witness:
  "map_ok (map method_key \<circ> fst) (view_collect_inherited_members (sample_view
      [[(plain_class None ''A'' ''A'' UnknownOrigin)\<lparr>cm_super_name := Some ''B'',
           cm_methods := [plain_method ''f'' [] None]\<rparr>],
       [(plain_class None ''B'' ''B'' UnknownOrigin)\<lparr>cm_interfaces := [''A''],
           cm_methods := [plain_method ''f'' [] (Some ''I''), plain_method ''f'' [] None]\<rparr>]]) ''A'')
   = Inr [(''f'', ''()V''), (''f'', ''()I'')]"
  using view_members_agree [OF sample_view_ok(1)]
  by (simp add: sample_hierarchy plain_class_def plain_method_def method_key_def method_shadow_key_def
        method_desc_def)


subsection \<open>References to members\<close>

text \<open>
  What the reference look-ups rely on: a class of a bucket declares each method name and descriptor
  once, and the stubs of an artifact rebuild to the descriptors they carry.
\<close>

definition stub_methods_ok :: "archive_class_stub \<Rightarrow> bool" where
  "stub_methods_ok s \<longleftrightarrow> length (sc_methods s) \<le> 2 ^ 32 \<and>
     list_all (\<lambda>m. case materialize_method_stub m of
                     Inl _ \<Rightarrow> False | Inr m' \<Rightarrow> method_desc m' = sm_descriptor m) (sc_methods s)"

definition ref_methods_ok :: "'c index_view \<Rightarrow> class_handle_ref \<Rightarrow> bool" where
  "ref_methods_ok v ref \<longleftrightarrow>
     (case ref of
        OverlayRef _ _ \<Rightarrow>
          (case resolve_class_ref v ref of None \<Rightarrow> True | Some c \<Rightarrow> distinct (map method_key (cm_methods c)))
      | ArtifactRef h \<Rightarrow>
          (case with_reader v h (\<lambda>r. reader_stub r h) of None \<Rightarrow> True | Some s \<Rightarrow> stub_methods_ok s))"

lemma filter_by_index: "filter P xs = map ((!) xs) (filter (\<lambda>i. P (xs ! i)) [0..<length xs])"
proof -
  have "filter P xs = filter P (map ((!) xs) [0..<length xs])" by (simp add: map_nth)
  then show ?thesis by (simp only: filter_map comp_def)
qed

lemma first_by_rel:
  assumes "list_all2 R xs ys" "\<And>x y. R x y \<Longrightarrow> k x = k' y"
  shows "list_all2 R (first_by k S xs) (first_by k' S ys)"
  using assms by (induction xs ys arbitrary: S rule: list_all2_induct) auto

lemma first_by_seen_cong:
  assumes "\<And>x. x \<in> set xs \<Longrightarrow> key x \<in> S \<longleftrightarrow> key x \<in> S'"
  shows "first_by key S xs = first_by key S' xs"
  using assms
proof (induction xs arbitrary: S S')
  case (Cons x xs)
  from Cons.IH [of S S'] Cons.IH [of "insert (key x) S" "insert (key x) S'"] Cons.prems
  show ?case by simp
qed simp

lemma filter_first_by:
  assumes "\<And>x y. key x = key y \<Longrightarrow> P x = P y"
  shows "filter P (first_by key S xs) = first_by key S (filter P xs)"
proof (induction xs arbitrary: S)
  case (Cons x xs)
  show ?case
  proof (cases "P x")
    case False
    have "key y \<in> insert (key x) S \<longleftrightarrow> key y \<in> S" if "y \<in> set (filter P xs)" for y
      using assms [of y x] that False by auto
    with False Cons show ?thesis
      using first_by_seen_cong [of "filter P xs" key "insert (key x) S" S] by auto
  qed (use Cons in auto)
qed simp

text \<open>The candidates of one class stand for its methods of that name, in order.\<close>

definition method_ref_of :: "'c index_view \<Rightarrow> (str \<times> str) \<times> method_ref \<Rightarrow> method_summary \<Rightarrow> bool" where
  "method_ref_of v km m \<longleftrightarrow>
     fst km = method_shadow_key m \<and> materialize_method v (snd km) = Inr (Some m)"

lemma find_unique:
  assumes "distinct (map key xs)" "x \<in> set xs" "\<And>y. P y \<longleftrightarrow> key y = key x"
  shows "find P xs = Some x"
  using assms(1,2) by (induction xs) (auto simp: assms(3) image_iff)

lemma overlay_candidates:
  assumes "found_ref v (OverlayRef b n) c" "ref_methods_ok v (OverlayRef b n)"
  shows "\<exists>cands. method_ref_candidates v name (OverlayRef b n) = Inr cands
    \<and> list_all2 (method_ref_of v) cands (filter (\<lambda>m. ms_name m = name) (cm_methods c))"
proof -
  have c: "resolve_class_ref v (OverlayRef b n) = Some c" "cm_internal_name c = n"
    "get_class_ref_by_internal v n = Some (OverlayRef b n)"
    using assms(1) by (auto simp: found_ref_def ref_of_def class_ref_internal_name_def)
  then have d: "distinct (map method_key (cm_methods c))" using assms(2) by (simp add: ref_methods_ok_def)
  have "materialize_method v (method_ref_source (TypeSource n) (ms_name m) (method_desc m) flags) = Inr (Some m)"
    if "m \<in> set (cm_methods c)" for m flags
    using find_unique [OF d that, of "\<lambda>x. ms_name x = ms_name m \<and> method_desc x = method_desc m"] c
    by (simp add: materialize_method_def method_ref_source_def materialize_class_def method_key_def
          resolve_class_handle_ref_def class_ref_from_type_ref_def)
  then show ?thesis
    using c by (auto simp: method_ref_candidates_def type_ref_from_class_ref_def list_all2_map1
        method_ref_of_def intro!: list.rel_refl_strong)
qed

lemma artifact_candidates:
  assumes "artifact_reader v (ch_artifact_id h) = Some r" "reader_inv r" "reader_record r h = Some rec"
    and "ref_methods_ok v (ArtifactRef h)"
  shows "\<exists>cands. method_ref_candidates v name (ArtifactRef h) = Inr cands
    \<and> list_all2 (method_ref_of v) cands (filter (\<lambda>m. ms_name m = name) (cm_methods (cr_materialized rec)))"
proof -
  let ?s = "cr_stub rec" and ?c = "cr_materialized rec"
  have m: "materialize ?s = Inr ?c"
    using assms(2,3) by (auto simp: reader_inv_def reader_record_def split: if_splits)
  have stub: "reader_stub r h = Some ?s" by (simp add: reader_stub_def assms(3))
  have ok: "stub_methods_ok ?s" using assms(1,4) stub by (simp add: ref_methods_ok_def with_reader_def)
  have rel: "list_all2 (\<lambda>x y. materialize_method_stub x = Inr y) (sc_methods ?s) (cm_methods ?c)"
    by (rule try_map_InrD [OF materialize_members(1) [OF m]])
  then have len: "length (cm_methods ?c) = length (sc_methods ?s)" by (simp add: list_all2_lengthD)
  have at: "materialize_method_stub (sc_methods ?s ! i) = Inr (cm_methods ?c ! i)"
    "method_desc (cm_methods ?c ! i) = sm_descriptor (sc_methods ?s ! i)"
    "ms_name (cm_methods ?c ! i) = sm_name (sc_methods ?s ! i)"
    "stub_shadow_key (sc_methods ?s ! i) = method_shadow_key (cm_methods ?c ! i)"
    "unat (word_of_nat i :: 32 word) = i"
    if i: "i < length (sc_methods ?s)" for i
  proof -
    show mat: "materialize_method_stub (sc_methods ?s ! i) = Inr (cm_methods ?c ! i)"
      using list_all2_nthD [OF rel i] .
    show desc: "method_desc (cm_methods ?c ! i) = sm_descriptor (sc_methods ?s ! i)"
      using ok i mat by (auto simp: stub_methods_ok_def list_all_length)
    from mat have fields: "ms_name (cm_methods ?c ! i) = sm_name (sc_methods ?s ! i)"
      "ms_generic_signature (cm_methods ?c ! i) = sm_generic_signature (sc_methods ?s ! i)"
      by (auto simp: materialize_method_stub_def map_ok_Inr)
    then show "ms_name (cm_methods ?c ! i) = sm_name (sc_methods ?s ! i)" by simp
    show "stub_shadow_key (sc_methods ?s ! i) = method_shadow_key (cm_methods ?c ! i)"
      by (simp add: stub_shadow_key_def method_shadow_key_def fields desc split: option.split)
    show "unat (word_of_nat i :: 32 word) = i"
      using ok i by (intro unat_word_of_nat_32) (simp add: stub_methods_ok_def)
  qed
  let ?is = "filter (\<lambda>i. sm_name (sc_methods ?s ! i) = name) [0..<length (sc_methods ?s)]"
  let ?mh = "\<lambda>i. \<lparr>mh_class = h, mh_slot = word_of_nat i\<rparr>"
  let ?cand = "\<lambda>i. (stub_shadow_key (sc_methods ?s ! i),
     method_ref_artifact (TypeArtifact (sc_internal_name ?s) h) (?mh i) (sm_name (sc_methods ?s ! i))
       (sm_descriptor (sc_methods ?s ! i)) (sm_access_flags (sc_methods ?s ! i)))"
  have "method_handles_of h ?is = Inr (map ?mh ?is)"
    unfolding method_handles_of_def using ok
    by (intro try_map_Inr) (auto simp: slot_of_def stub_methods_ok_def)
  moreover have "List.map_filter (\<lambda>mh. map_option (\<lambda>stub. (stub_shadow_key stub,
        method_ref_artifact (TypeArtifact (sc_internal_name ?s) h) mh (sm_name stub) (sm_descriptor stub)
          (sm_access_flags stub))) (project_method_stub r mh)) (map ?mh is) = map ?cand is"
    if "\<forall>i\<in>set is. i < length (sc_methods ?s)" for "is"
    using that at(5)
    by (induction "is") (auto simp: map_filter_simps project_method_stub_def reader_method_stub_def stub)
  ultimately have "method_ref_candidates v name (ArtifactRef h) = Inr (map ?cand ?is)"
    using assms(1) stub
    by (simp add: method_ref_candidates_def type_ref_from_class_ref_def class_ref_internal_name_def
          with_reader_def class_internal_name_def method_handles_named_def)
  moreover have "filter (\<lambda>m. ms_name m = name) (cm_methods ?c) = map ((!) (cm_methods ?c)) ?is"
    unfolding filter_by_index [of _ "cm_methods ?c"] len
    using at(3) by (intro arg_cong [of _ _ "map ((!) (cm_methods ?c))"] filter_cong) auto
  moreover have "method_ref_of v (?cand i) (cm_methods ?c ! i)" if "i < length (sc_methods ?s)" for i
    using at [OF that] that assms(1) stub
    by (simp add: method_ref_of_def materialize_method_def method_ref_artifact_def
          reader_materialize_method_def reader_method_stub_def)
  ultimately show ?thesis by (auto simp: list_all2_map1 list_all2_map2 intro!: list.rel_refl_strong)
qed


lemma get_class_ref_in:
  assumes "get_class_ref_by_internal v n = Some ref"
  shows "\<exists>l\<in>set (layers v). layer_get_class_ref v l n = Some ref"
proof -
  have "b = Some ref \<or> (\<exists>l\<in>set ls. layer_get_class_ref v l n = Some ref)"
    if "fold (\<lambda>layer best. case layer_get_class_ref v layer n of
         None \<Rightarrow> best | Some candidate \<Rightarrow> better_ref v candidate best) ls b = Some ref" for ls b
    using that
  proof (induction ls arbitrary: b)
    case (Cons l ls)
    from Cons.IH [OF Cons.prems [unfolded fold_Cons comp_apply]] show ?case
      by (auto simp: better_ref_def split: option.splits if_splits)
  qed simp
  from this [of "layers v" None] assms show ?thesis by (simp add: get_class_ref_by_internal_def)
qed

lemma artifact_found:
  assumes "view_ok v" "found_ref v (ArtifactRef h) c"
  obtains r rec where "artifact_reader v (ch_artifact_id h) = Some r" "reader_inv r"
    "reader_record r h = Some rec" "c = cr_materialized rec"
proof -
  from assms(2) have c: "resolve_class_ref v (ArtifactRef h) = Some c"
    "get_class_ref_by_internal v (cm_internal_name c) = Some (ArtifactRef h)"
    by (auto simp: found_ref_def dest: ref_ofD(1))
  from c(1) obtain r rec where r: "artifact_reader v (ch_artifact_id h) = Some r"
    "reader_record r h = Some rec" "c = cr_materialized rec"
    by (auto simp: resolve_class_ref_def with_reader_def reader_get_class_def split: option.splits)
  from get_class_ref_in [OF c(2)] obtain i where i: "Artifact i \<in> set (layers v)"
    "layer_get_class_ref v (Artifact i) (cm_internal_name c) = Some (ArtifactRef h)"
    by (fastforce simp: layer_get_class_ref_def overlay_ref_def split: scope_layer.splits)
  with view_layer_ok [OF assms(1) i(1)] obtain r' where r': "artifact_reader v i = Some r'"
    "reader_inv r'" "reader_artifact_id r' = i"
    "get_class_handle r' (cm_internal_name c) = Some h"
    by (auto simp: layer_ok_def layer_get_class_ref_def split: option.splits)
  from reader_handles_valid(1) [OF r'(2,4)] r'(3) have "ch_artifact_id h = i" by simp
  with r r' have "reader_inv r" by simp
  with r show ?thesis using that by blast
qed

lemma candidates_of:
  assumes "view_ok v" "found_ref v ref c" "ref_methods_ok v ref"
  shows "\<exists>cands. method_ref_candidates v name ref = Inr cands
    \<and> list_all2 (method_ref_of v) cands (filter (\<lambda>m. ms_name m = name) (cm_methods c))"
proof (cases ref)
  case (OverlayRef b n)
  with assms overlay_candidates show ?thesis by blast
next
  case (ArtifactRef h)
  with assms obtain r rec where "artifact_reader v (ch_artifact_id h) = Some r" "reader_inv r"
    "reader_record r h = Some rec" "c = cr_materialized rec" using artifact_found by blast
  with ArtifactRef assms(3) artifact_candidates show ?thesis by blast
qed

text \<open>
  Method look-up by reference agrees with the look-up that rebuilds every member: for a
  hierarchy whose classes declare each method once and whose stubs carry the descriptors they
  rebuild to, both look-ups succeed, and rebuilding the references one by one gives the methods of
  the other look-up in the same order.
\<close>

theorem method_refs_agree:
  assumes "view_ok v" "list_all (ref_methods_ok v) (hierarchy_order v n)"
  shows "\<exists>refs ms. lookup_methods_in_hierarchy_refs v n name = Inr refs
    \<and> lookup_methods_in_hierarchy v n name = Inr ms
    \<and> try_map (materialize_method v) refs = Inr (map Some ms)"
proof -
  have "\<exists>parts. try_map (method_ref_candidates v name) refs = Inr parts
      \<and> list_all2 (method_ref_of v) (concat parts) (filter (\<lambda>m. ms_name m = name) (all_methods cs))"
    if "list_all2 (found_ref v) refs cs" "list_all (ref_methods_ok v) refs" for refs cs
    using that
  proof (induction refs cs rule: list_all2_induct)
    case (Cons ref refs c cs)
    then obtain parts where parts: "try_map (method_ref_candidates v name) refs = Inr parts"
      "list_all2 (method_ref_of v) (concat parts) (filter (\<lambda>m. ms_name m = name) (all_methods cs))" by auto
    from candidates_of [OF assms(1) Cons.hyps(1), of name] Cons.prems obtain cands where
      "method_ref_candidates v name ref = Inr cands"
      "list_all2 (method_ref_of v) cands (filter (\<lambda>m. ms_name m = name) (cm_methods c))" by auto
    with parts show ?case by (auto intro!: list_all2_appendI)
  qed simp
  from this [OF hierarchy_order_found [OF assms(1)] assms(2)] obtain parts where
    parts: "try_map (method_ref_candidates v name) (hierarchy_order v n) = Inr parts"
      "list_all2 (method_ref_of v) (concat parts)
         (filter (\<lambda>m. ms_name m = name) (all_methods (view_hierarchy v n)))" by blast
  let ?ms = "first_by method_shadow_key {} (filter (\<lambda>m. ms_name m = name) (all_methods (view_hierarchy v n)))"
  let ?kms = "first_by fst {} (concat parts)"
  have "list_all2 (method_ref_of v) ?kms ?ms"
    by (rule first_by_rel [OF parts(2)]) (simp add: method_ref_of_def)
  then have "try_map (materialize_method v) (map snd ?kms) = Inr (map Some ?ms)"
    by (induction rule: list_all2_induct) (simp_all add: method_ref_of_def)
  moreover have "lookup_methods_in_hierarchy_refs v n name = Inr (map snd ?kms)"
    using parts(1) by (simp add: lookup_methods_in_hierarchy_refs_def fold_fold_concat fold_push_new)
  moreover have "lookup_methods_in_hierarchy v n name = Inr ?ms"
    using filter_first_by [of method_shadow_key "\<lambda>m. ms_name m = name"]
    by (simp add: lookup_methods_in_hierarchy_def view_members [OF assms(1)] method_shadow_key_def)
  ultimately show ?thesis by blast
qed

lemma sample_refs_ok:
  assumes "\<And>c. c \<in> set (concat css) \<Longrightarrow> distinct (map method_key (cm_methods c))"
  shows "list_all (ref_methods_ok (sample_view css)) (hierarchy_order (sample_view css) n)"
proof -
  have ok: "ref_methods_ok (sample_view css) ref" if "ref_of (sample_view css) ref c" "c \<in> set (concat css)" for ref c
    using ref_ofD(1) [OF that(1)] assms [OF that(2)]
    by (cases ref) (simp_all add: ref_methods_ok_def with_reader_def sample_view_def)
  have "list_all (ref_methods_ok (sample_view css)) refs"
    if "list_all2 (ref_of (sample_view css)) refs cs" "set cs \<subseteq> set (concat css)" for refs cs
    using that by (induction refs cs rule: list_all2_induct) (simp_all add: ok)
  moreover have "c \<in> set (concat css)" if known: "c \<in> set (view_hierarchy (sample_view css) n)" for c
  proof -
    from known view.hierarchy_set [OF sample_view_ok(1)] obtain m where
      "view_get_class (sample_view css) m = Some c" by fastforce
    from best_in [OF this [unfolded sample_get_class]] obtain cs where
      "cs \<in> set css" "class_map cs m = Some c" by (auto simp: set_map_filter)
    with class_map_Some_in [of cs m c] show ?thesis by auto
  qed
  ultimately show ?thesis using hierarchy_order_of [OF sample_view_ok(1), of css n] by blast
qed

theorem method_refs_agree_witness:
  "\<exists>refs. lookup_methods_in_hierarchy_refs (sample_view [[(plain_class None ''A'' ''A'' UnknownOrigin)
        \<lparr>cm_methods := [plain_method ''f'' [] None, plain_method ''g'' [] None]\<rparr>]]) ''A'' ''g'' = Inr refs
     \<and> try_map (materialize_method (sample_view [[(plain_class None ''A'' ''A'' UnknownOrigin)
        \<lparr>cm_methods := [plain_method ''f'' [] None, plain_method ''g'' [] None]\<rparr>]])) refs
       = Inr [Some (plain_method ''g'' [] None)]"
proof -
  let ?css = "[[(plain_class None ''A'' ''A'' UnknownOrigin)
        \<lparr>cm_methods := [plain_method ''f'' [] None, plain_method ''g'' [] None]\<rparr>]]"
  have "list_all (ref_methods_ok (sample_view ?css)) (hierarchy_order (sample_view ?css) ''A'')"
    by (rule sample_refs_ok) (simp add: method_key_def plain_method_def plain_class_def)
  moreover have "lookup_methods_in_hierarchy (sample_view ?css) ''A'' ''g''
      = Inr [plain_method ''g'' [] None]"
    by (simp add: lookup_methods_in_hierarchy_def view_members [OF sample_view_ok(1)])
       (simp add: sample_hierarchy plain_class_def method_shadow_key_def plain_method_def method_desc_def)
  ultimately show ?thesis using method_refs_agree [OF sample_view_ok(1), of ?css "''A''" "''g''"] by auto
qed

lemma found_type_ref:
  assumes "found_ref v ref c"
  obtains t where "type_ref_from_class_ref v ref = Some t" "materialize_class v t = Some c"
    "type_ref_internal_name t = cm_internal_name c"
proof (cases ref)
  case (OverlayRef b n)
  with assms show ?thesis
    using that [of "TypeSource n"]
    by (auto simp: found_ref_def ref_of_def class_ref_internal_name_def type_ref_from_class_ref_def
          materialize_class_def resolve_class_handle_ref_def class_ref_from_type_ref_def)
next
  case (ArtifactRef h)
  with assms show ?thesis
    using that [of "TypeArtifact (cm_internal_name c) h"]
    by (auto simp: found_ref_def ref_of_def type_ref_from_class_ref_def
          materialize_class_def resolve_class_handle_ref_def class_ref_from_type_ref_def)
qed

lemma artifact_method_handle:
  assumes "reader_inv r" "reader_record r h = Some rec" "stub_methods_ok (cr_stub rec)"
  shows "case method_handle_by_name_desc r h name desc of
      None \<Rightarrow> \<not> declares_method (cr_materialized rec) name desc
    | Some mh \<Rightarrow> declares_method (cr_materialized rec) name desc \<and> (\<exists>w. mh = Inr w)"
proof -
  let ?s = "cr_stub rec" and ?c = "cr_materialized rec"
  have "materialize ?s = Inr ?c"
    using assms(1,2) by (auto simp: reader_inv_def reader_record_def split: if_splits)
  then have "list_all2 (\<lambda>x y. materialize_method_stub x = Inr y) (sc_methods ?s) (cm_methods ?c)"
    by (intro try_map_InrD materialize_members(1))
  moreover have "materialize_method_stub x = Inr y \<Longrightarrow> x \<in> set (sc_methods ?s) \<Longrightarrow>
      ms_name y = sm_name x \<and> method_desc y = sm_descriptor x" for x y
    using assms(3)
    by (auto simp: stub_methods_ok_def list_all_iff materialize_method_stub_def map_ok_Inr split: sum.splits)
  ultimately have "list_all2 (\<lambda>x y. ms_name y = sm_name x \<and> method_desc y = sm_descriptor x)
      (sc_methods ?s) (cm_methods ?c)"
    by (auto simp: list_all2_iff set_zip_leftD)
  then have declares: "declares_method ?c name desc \<longleftrightarrow> (\<exists>x\<in>set (sc_methods ?s). sm_name x = name \<and> sm_descriptor x = desc)"
    unfolding declares_method_def by (induction rule: list_all2_induct) auto
  have slot: "slot_of i = Inr (word_of_nat i)" if "i < length (sc_methods ?s)" for i
    using that assms(3) by (simp add: slot_of_def stub_methods_ok_def)
  show ?thesis
  proof (cases "position (\<lambda>m. sm_name m = name \<and> sm_descriptor m = desc) (sc_methods ?s)")
    case None
    with declares show ?thesis
      using None [unfolded position_None] by (simp add: method_handle_by_name_desc_def reader_stub_def assms(2))
  next
    case (Some i)
    note i = position_Some [OF Some]
    then have "declares_method ?c name desc" using declares nth_mem by blast
    with Some i slot show ?thesis by (simp add: method_handle_by_name_desc_def reader_stub_def assms(2))
  qed
qed

lemma declaring_step:
  assumes "view_ok v" "found_ref v ref c" "ref_methods_ok v ref" "type_ref_from_class_ref v ref = Some t"
  shows "declaring_owner_at v name desc ref
    = Inr (if declares_method c name desc then Some t else None)"
proof (cases ref)
  case (OverlayRef b n)
  have "resolve_class_ref v ref = Some c" using assms(2) by (auto simp: found_ref_def dest: ref_ofD(1))
  with OverlayRef assms(4) show ?thesis
    by (auto simp: declaring_owner_at_def declares_method_def list_ex_iff)
next
  case (ArtifactRef h)
  with assms(1,2) obtain r rec where r: "artifact_reader v (ch_artifact_id h) = Some r" "reader_inv r"
    "reader_record r h = Some rec" "c = cr_materialized rec" using artifact_found by blast
  moreover have "stub_methods_ok (cr_stub rec)"
    using assms(3) ArtifactRef r by (simp add: ref_methods_ok_def with_reader_def reader_stub_def)
  ultimately show ?thesis
    using artifact_method_handle [of r h rec name desc] ArtifactRef assms(4)
    by (auto simp: declaring_owner_at_def split: option.splits)
qed

text \<open>
  The declaring owner: on the same kind of hierarchy, the owner that is found for a method
  name and descriptor is the first class along the hierarchy that declares such a method, and
  nothing when there is none.
\<close>

theorem declaring_owner_first:
  assumes "view_ok v" "list_all (ref_methods_ok v) (hierarchy_order v n)"
  shows "find_declaring_method_owner v n name desc
    = Inr (find (\<lambda>c. declares_method c name desc) (view_hierarchy v n))"
proof -
  have "map_ok (\<lambda>owner. case owner of None \<Rightarrow> None | Some t \<Rightarrow> materialize_class v t) 
        (try_find_map (declaring_owner_at v name desc) refs)
      = Inr (find (\<lambda>c. declares_method c name desc) cs)"
    if "list_all2 (found_ref v) refs cs" "list_all (ref_methods_ok v) refs" for refs cs
    using that
  proof (induction refs cs rule: list_all2_induct)
    case (Cons ref refs c cs)
    obtain t where t: "type_ref_from_class_ref v ref = Some t" "materialize_class v t = Some c"
      by (rule found_type_ref [OF Cons.hyps(1)])
    with declaring_step [OF assms(1) Cons.hyps(1) _ t(1)] Cons show ?case by simp
  qed simp
  from this [OF hierarchy_order_found [OF assms(1)] assms(2)] show ?thesis
    by (simp add: find_declaring_method_owner_def find_declaring_method_owner_ref_def)
qed


theorem declaring_owner_first_witness:
  "map_ok (map_option cm_internal_name) (find_declaring_method_owner (sample_view
      [[(plain_class None ''A'' ''A'' UnknownOrigin)\<lparr>cm_super_name := Some ''B''\<rparr>],
       [(plain_class None ''B'' ''B'' UnknownOrigin)\<lparr>cm_methods := [plain_method ''f'' [] None]\<rparr>]])
      ''A'' ''f'' ''()V'') = Inr (Some ''B'')"
proof -
  let ?css = "[[(plain_class None ''A'' ''A'' UnknownOrigin)\<lparr>cm_super_name := Some ''B''\<rparr>],
       [(plain_class None ''B'' ''B'' UnknownOrigin)\<lparr>cm_methods := [plain_method ''f'' [] None]\<rparr>]]"
  have "list_all (ref_methods_ok (sample_view ?css)) (hierarchy_order (sample_view ?css) ''A'')"
    by (rule sample_refs_ok) (auto simp: method_key_def plain_method_def plain_class_def)
  from declaring_owner_first [OF sample_view_ok(1) this] show ?thesis
    by (simp add: sample_hierarchy plain_class_def declares_method_def plain_method_def method_desc_def)
qed

subsection \<open>Nested classes in scope\<close>

text \<open>Where the owner of a class that a name can mean stands on the chain.\<close>

definition scoped_position :: "str option \<Rightarrow> str \<Rightarrow> str list \<Rightarrow> class_metadata \<Rightarrow> nat option" where
  "scoped_position pkg simple chain c =
     (if cm_package c \<noteq> pkg \<or> cm_name c \<noteq> simple then None
      else case cm_inner_class_of c of
             None \<Rightarrow> None | Some parent \<Rightarrow> position (\<lambda>n. n = parent) chain)"

lemma nearest_scoped_fold:
  "case fold (nearest_scoped pkg simple chain) cs None of
      None \<Rightarrow> \<forall>c\<in>set cs. scoped_position pkg simple chain c = None
    | Some (i, c) \<Rightarrow> c \<in> set cs \<and> scoped_position pkg simple chain c = Some i
        \<and> (\<forall>d\<in>set cs. \<forall>j. scoped_position pkg simple chain d = Some j \<longrightarrow> i \<le> j)"
proof (induction cs rule: rev_induct)
  case (snoc c cs)
  have step: "nearest_scoped pkg simple chain c best =
      (case scoped_position pkg simple chain c of None \<Rightarrow> best
       | Some p \<Rightarrow> (case best of Some (bp, _) \<Rightarrow> if bp \<le> p then best else Some (p, c) | None \<Rightarrow> Some (p, c)))"
    for best
    by (auto simp: nearest_scoped_def scoped_position_def matches_simple_name_def direct_name_def
          split: option.splits)
  show ?case
    using snoc by (cases "scoped_position pkg simple chain c")
      (fastforce simp: step split: option.splits if_splits)+
qed simp

text \<open>The enclosing class and its owners, and the members of an owner that a name can mean.\<close>

definition owners_in_scope :: "'c index_view \<Rightarrow> class_metadata \<Rightarrow> str list" where
  "owners_in_scope v enc = cm_internal_name enc # scope_chain (view_get_class v) 65 enc"

definition scoped_member :: "'c index_view \<Rightarrow> class_metadata \<Rightarrow> str \<Rightarrow> str \<Rightarrow> class_metadata \<Rightarrow> bool" where
  "scoped_member v enc simple ow c \<longleftrightarrow>
     view_get_class v (cm_internal_name c) = Some c \<and> cm_inner_class_of c = Some ow \<and>
     cm_name c = simple \<and> cm_package c = cm_package enc"

text \<open>
  A simple name in the scope of an enclosing class: the class found is a member of the
  enclosing class or of one of its owners, in the same package and of that simple name, and no
  class of that name is a member of an owner nearer to the enclosing class; when nothing is found,
  no owner on the chain has such a member. The chain holds the enclosing class and up to 65 owners.
\<close>

theorem scoped_inner_nearest:
  assumes "view_inv v" "view_get_class v e = Some enc"
    and "\<And>p. cm_package enc = Some p \<Longrightarrow> slashed p = p"
  shows "case resolve_scoped_inner_class v e simple of
      None \<Rightarrow> \<forall>ow\<in>set (owners_in_scope v enc). \<forall>c. \<not> scoped_member v enc simple ow c
    | Some c \<Rightarrow> \<exists>i<length (owners_in_scope v enc). scoped_member v enc simple (owners_in_scope v enc ! i) c
        \<and> (\<forall>j<i. \<forall>d. \<not> scoped_member v enc simple (owners_in_scope v enc ! j) d)"
proof -
  define chain where "chain = owners_in_scope v enc"
  define member where "member = scoped_member v enc simple"
  let ?cs = "case cm_package enc of Some pkg \<Rightarrow> view_classes_in_package v pkg
             | None \<Rightarrow> view_get_classes_by_simple_name v simple"
  define pos where "pos = scoped_position (cm_package enc) simple chain"
  have cands: "member ow c \<longleftrightarrow> c \<in> set ?cs \<and> cm_inner_class_of c = Some ow \<and> cm_name c = simple
      \<and> cm_package c = cm_package enc" for ow c
    using view_source.by_simple_set [OF assms(1), of simple] view_source.in_package_set [OF assms(1)]
      view_source.get_name [OF assms(1)] assms(3)
    by (auto simp: member_def scoped_member_def classes_with_def split: option.splits)
  have pos: "i < length chain" "cm_inner_class_of c = Some (chain ! i)" "cm_name c = simple"
    "cm_package c = cm_package enc" if "pos c = Some i" for c i
    using that position_Some [of _ chain i]
    by (auto simp: pos_def scoped_position_def split: option.splits if_splits)
  have pos_le: "\<exists>i\<le>j. pos c = Some i" if "member (chain ! j) c" "j < length chain" for c j
  proof -
    have "position (\<lambda>n. n = chain ! j) chain \<noteq> None" using that(2) by (auto simp: position_None)
    then obtain i where i: "position (\<lambda>n. n = chain ! j) chain = Some i" by auto
    then have "i \<le> j" using position_first [OF i] by (metis not_le)
    with i that(1) show ?thesis by (auto simp: member_def scoped_member_def pos_def scoped_position_def)
  qed
  have res: "resolve_scoped_inner_class v e simple
      = map_option snd (fold (nearest_scoped (cm_package enc) simple chain) ?cs None)"
    by (simp add: resolve_scoped_inner_class_def assms(2) chain_def owners_in_scope_def Let_def split: option.split)
  show ?thesis
  proof (cases "fold (nearest_scoped (cm_package enc) simple chain) ?cs None")
    case None
    then have none: "\<forall>c\<in>set ?cs. pos c = None"
      using nearest_scoped_fold [of ?cs "cm_package enc" simple chain] by (simp add: pos_def)
    have "\<not> member ow c" if "ow \<in> set chain" for ow c
    proof
      assume m: "member ow c"
      from that obtain j where j: "j < length chain" "chain ! j = ow" by (auto simp: in_set_conv_nth)
      with pos_le [of j c] m none cands show False by fastforce
    qed
    then show ?thesis using None by (simp add: res flip: chain_def member_def)
  next
    case (Some ic)
    obtain i c where ic: "ic = (i, c)" by (cases ic)
    then have least: "c \<in> set ?cs" "pos c = Some i" "\<forall>d\<in>set ?cs. \<forall>j. pos d = Some j \<longrightarrow> i \<le> j"
      using nearest_scoped_fold [of ?cs "cm_package enc" simple chain] Some by (simp_all add: pos_def)
    have "member (chain ! i) c" using least(1) pos [OF least(2)] cands by blast
    moreover have "\<not> member (chain ! j) d" if ji: "j < i" for j d
    proof
      assume m: "member (chain ! j) d"
      then obtain k where k: "k \<le> j" "pos d = Some k" using pos_le [OF m] ji pos(1) [OF least(2)] by auto
      from m cands have "d \<in> set ?cs" by blast
      with least(3) k ji show False by fastforce
    qed
    ultimately show ?thesis using Some ic pos [OF least(2)] by (auto simp: res simp flip: chain_def member_def)
  qed
qed


theorem scoped_inner_nearest_witness:
  "\<exists>c. resolve_scoped_inner_class (sample_view
      [[plain_class None ''A'' ''A'' UnknownOrigin,
        (plain_class None ''B'' ''A$B'' UnknownOrigin)\<lparr>cm_inner_class_of := Some ''A''\<rparr>,
        (plain_class None ''C'' ''A$C'' UnknownOrigin)\<lparr>cm_inner_class_of := Some ''A''\<rparr>]])
      ''A$B'' ''C'' = Some c \<and> cm_inner_class_of c = Some ''A''"
proof -
  let ?css = "[[plain_class None ''A'' ''A'' UnknownOrigin,
        (plain_class None ''B'' ''A$B'' UnknownOrigin)\<lparr>cm_inner_class_of := Some ''A''\<rparr>,
        (plain_class None ''C'' ''A$C'' UnknownOrigin)\<lparr>cm_inner_class_of := Some ''A''\<rparr>]]"
  let ?B = "(plain_class None ''B'' ''A$B'' UnknownOrigin)\<lparr>cm_inner_class_of := Some ''A''\<rparr>"
  let ?C = "(plain_class None ''C'' ''A$C'' UnknownOrigin)\<lparr>cm_inner_class_of := Some ''A''\<rparr>"
  have inv: "view_inv (sample_view ?css)" by (rule sample_coherent) (simp add: plain_class_def)
  have get: "view_get_class (sample_view ?css) ''A$B'' = Some ?B" "view_get_class (sample_view ?css) ''A$C'' = Some ?C"
    "view_get_class (sample_view ?css) ''A'' = Some (plain_class None ''A'' ''A'' UnknownOrigin)"
    by (simp_all add: sample_get_class map_filter_simps plain_class_def)
  have owners: "owners_in_scope (sample_view ?css) ?B = [''A$B'', ''A'']"
    using get(3) by (simp add: owners_in_scope_def plain_class_def eval_nat_numeral)
  have found: "scoped_member (sample_view ?css) ?B ''C'' ''A'' ?C"
    using get(2) by (simp add: scoped_member_def plain_class_def)
  have other: "\<not> scoped_member (sample_view ?css) ?B ''C'' ''A$B'' c" for c
    using best_in by (fastforce simp: scoped_member_def sample_get_class map_filter_simps plain_class_def
        split: if_splits)
  have pkg: "cm_package ?B = None" by (simp add: plain_class_def)
  show ?thesis
  proof (cases "resolve_scoped_inner_class (sample_view ?css) ''A$B'' ''C''")
    case None
    then have "\<not> scoped_member (sample_view ?css) ?B ''C'' ''A'' ?C"
      using scoped_inner_nearest [OF inv get(1), of "''C''"] pkg by (simp add: owners)
    with found show ?thesis by contradiction
  next
    case (Some c)
    then have "\<exists>i<Suc (Suc 0). scoped_member (sample_view ?css) ?B ''C'' ([''A$B'', ''A''] ! i) c"
      using scoped_inner_nearest [OF inv get(1), of "''C''"] pkg by (auto simp: owners)
    with other have "scoped_member (sample_view ?css) ?B ''C'' ''A'' c"
      by (auto simp: less_Suc_eq)
    with Some show ?thesis by (simp add: scoped_member_def)
  qed
qed

subsection \<open>Overlays\<close>



subsection \<open>Fuzzy search\<close>

lemma fuzzy_rank_bound: "length (fuzzy_rank score names query limit) \<le> limit"
  by (simp add: fuzzy_rank_def)

lemma first_by_length: "length (first_by key S xs) \<le> length xs"
  by (induction xs arbitrary: S) (auto intro: le_SucI)

text \<open>
  Bounds of the fuzzy search: the search over a view returns no name twice and at most
  \<open>limit\<close> names per layer; the limit is not applied to the whole list.
\<close>

theorem fuzzy_autocomplete_bounded:
  "distinct (view_fuzzy_autocomplete score v query limit)
   \<and> length (view_fuzzy_autocomplete score v query limit) \<le> limit * scope_layer_count (iv_scope v)"
proof -
  let ?found = "\<lambda>layer. case layer of
           Overlay b \<Rightarrow> bucket_fuzzy_autocomplete score (bucket_at v b) query limit
         | Artifact i \<Rightarrow>
             (case artifact_reader v i of
                None \<Rightarrow> [] | Some r \<Rightarrow> reader_fuzzy_autocomplete score r query limit)"
  have eq: "view_fuzzy_autocomplete score v query limit = dedup (concat (map ?found (layers v)))"
    by (simp add: view_fuzzy_autocomplete_def fold_fold_map fold_push_new dedup_def)
  have "length (?found l) \<le> limit" for l
    by (auto simp: bucket_fuzzy_autocomplete_def reader_fuzzy_autocomplete_def fuzzy_rank_bound
          split: scope_layer.split option.split)
  then have "length (concat (map ?found ls)) \<le> limit * length ls" for ls
    by (induction ls) (auto intro: add_mono)
  then show ?thesis
    using first_by_length [of id "{}" "concat (map ?found (layers v))"]
    by (fastforce simp: eq dedup_def scope_layer_count_def layers_def simp flip: dedup_def intro: order_trans)
qed


end
