(* ===== verification/Module_Index.thy ===== *)
theory Module_Index
  imports Index_View
begin

text \<open>
  The index of one module (\<open>index/module_index.rs\<close>) and the dependency graph of modules
  (\<open>index/module_graph.rs\<close>). A module holds addresses of buckets; the buckets themselves live in a
  heap, because scopes and caches share them (\<open>Arc<BucketIndex>\<close>). \<open>Arc::new\<close> takes the next
  unused address. The order in which a hash map is iterated is that of its association list; the
  theorems do not depend on it.
\<close>

subsection \<open>The heap of buckets\<close>

record 'c bucket_heap =
  hp_buckets :: "nat \<Rightarrow> 'c bucket_state"
  hp_next :: nat

definition heap_new :: "'c bucket_heap \<Rightarrow> 'c bucket_state \<Rightarrow> nat \<times> 'c bucket_heap" where
  "heap_new h s = (hp_next h, \<lparr>hp_buckets = (hp_buckets h)(hp_next h := s), hp_next = Suc (hp_next h)\<rparr>)"

definition heap_update ::
  "'c bucket_heap \<Rightarrow> nat \<Rightarrow> ('c bucket_state \<Rightarrow> rust_panic + ('a \<times> 'c bucket_state))
     \<Rightarrow> rust_panic + ('a \<times> 'c bucket_heap)" where
  "heap_update h b f =
     map_ok (\<lambda>(x, s). (x, h\<lparr>hp_buckets := (hp_buckets h)(b := s)\<rparr>)) (f (hp_buckets h b))"

subsection \<open>Module graph\<close>

record module_graph =
  mg_version :: "64 word"
  mg_deps :: "(module_id, module_id list) hash_map"

definition graph_new :: module_graph where
  "graph_new = \<lparr>mg_version = 0, mg_deps = []\<rparr>"

definition set_deps :: "module_graph \<Rightarrow> module_id \<Rightarrow> module_id list \<Rightarrow> module_graph" where
  "set_deps g m deps = \<lparr>mg_version = mg_version g + 1, mg_deps = hinsert m deps (mg_deps g)\<rparr>"

definition deps_of :: "module_graph \<Rightarrow> module_id \<Rightarrow> module_id list" where
  "deps_of g m = (case hget (mg_deps g) m of None \<Rightarrow> [] | Some deps \<Rightarrow> deps)"

subsection \<open>Modules\<close>

datatype classpath_entry = EntryArtifact artifact_id | EntryOverlay nat

record classpath_index =
  ci_jars :: "str list"
  ci_entries :: "classpath_entry list"

record source_root_index =
  sr_classpath :: classpath_id
  sr_bucket :: nat

record module_index =
  mi_id :: module_id
  mi_name :: str
  mi_source :: nat
  mi_classpaths :: "(classpath_id, classpath_index) hash_map"
  mi_active_classpath :: classpath_id
  mi_source_roots :: "(source_root_id, source_root_index) hash_map"
  mi_query_cache :: "(str, class_metadata) hash_map"

definition module_new ::
  "'c lru_ops \<Rightarrow> 'c bucket_heap \<Rightarrow> module_id \<Rightarrow> str \<Rightarrow> module_index \<times> 'c bucket_heap" where
  "module_new L h i name =
     (case heap_new h (bucket_new L) of (b, h') \<Rightarrow>
        (\<lparr>mi_id = i, mi_name = name, mi_source = b, mi_classpaths = [], mi_active_classpath = Main,
          mi_source_roots = [], mi_query_cache = []\<rparr>, h'))"

definition query_cache_get :: "module_index \<Rightarrow> str \<Rightarrow> class_metadata option" where
  "query_cache_get m internal = hget (mi_query_cache m) internal"

definition query_cache_insert :: "module_index \<Rightarrow> str \<Rightarrow> class_metadata \<Rightarrow> module_index" where
  "query_cache_insert m internal c = m\<lparr>mi_query_cache := hinsert internal c (mi_query_cache m)\<rparr>"

definition query_cache_clear :: "module_index \<Rightarrow> module_index" where
  "query_cache_clear m = m\<lparr>mi_query_cache := []\<rparr>"

text \<open>Each root of the list gets a new bucket; a root listed twice keeps the last.\<close>

definition set_source_roots ::
  "'c lru_ops \<Rightarrow> 'c bucket_heap \<Rightarrow> module_index \<Rightarrow> (source_root_id \<times> classpath_id) list
     \<Rightarrow> module_index \<times> 'c bucket_heap" where
  "set_source_roots L h m roots =
     (case fold (\<lambda>(i, cp) (rs, h). case heap_new h (bucket_new L) of (b, h') \<Rightarrow>
                   (hinsert i \<lparr>sr_classpath = cp, sr_bucket = b\<rparr> rs, h')) roots ([], h)
      of (rs, h') \<Rightarrow> (m\<lparr>mi_source_roots := rs\<rparr>, h'))"

text \<open>The bucket that an update or removal in a source root goes to.\<close>

definition root_bucket :: "module_index \<Rightarrow> source_root_id option \<Rightarrow> nat" where
  "root_bucket m source_root =
     (case source_root of
        None \<Rightarrow> mi_source m
      | Some i \<Rightarrow> (case hget (mi_source_roots m) i of None \<Rightarrow> mi_source m | Some root \<Rightarrow> sr_bucket root))"

definition update_source_in_root_with_declarations ::
  "'c lru_ops \<Rightarrow> 'c bucket_heap \<Rightarrow> module_index \<Rightarrow> source_root_id option \<Rightarrow> class_origin
     \<Rightarrow> class_metadata list \<Rightarrow> declaration_batch option \<Rightarrow> rust_panic + (bool \<times> 'c bucket_heap)" where
  "update_source_in_root_with_declarations L h m source_root origin classes declarations =
     heap_update h (root_bucket m source_root)
       (\<lambda>s. bucket_update_source_with_declarations L s origin classes declarations)"

definition update_source_in_root ::
  "'c lru_ops \<Rightarrow> 'c bucket_heap \<Rightarrow> module_index \<Rightarrow> source_root_id option \<Rightarrow> class_origin
     \<Rightarrow> class_metadata list \<Rightarrow> rust_panic + (bool \<times> 'c bucket_heap)" where
  "update_source_in_root L h m source_root origin classes =
     update_source_in_root_with_declarations L h m source_root origin classes None"

definition module_update_source_with_declarations ::
  "'c lru_ops \<Rightarrow> 'c bucket_heap \<Rightarrow> module_index \<Rightarrow> class_origin \<Rightarrow> class_metadata list
     \<Rightarrow> declaration_batch option \<Rightarrow> rust_panic + 'c bucket_heap" where
  "module_update_source_with_declarations L h m origin classes declarations =
     map_ok snd (heap_update h (mi_source m)
       (\<lambda>s. bucket_update_source_with_declarations L s origin classes declarations))"

definition module_update_source ::
  "'c lru_ops \<Rightarrow> 'c bucket_heap \<Rightarrow> module_index \<Rightarrow> class_origin \<Rightarrow> class_metadata list
     \<Rightarrow> rust_panic + 'c bucket_heap" where
  "module_update_source L h m origin classes =
     module_update_source_with_declarations L h m origin classes None"

definition remove_source_origin_in_root ::
  "'c lru_ops \<Rightarrow> 'c bucket_heap \<Rightarrow> module_index \<Rightarrow> source_root_id option \<Rightarrow> class_origin
     \<Rightarrow> rust_panic + (bool \<times> 'c bucket_heap)" where
  "remove_source_origin_in_root L h m source_root origin =
     heap_update h (root_bucket m source_root) (\<lambda>s. Inr (bucket_remove_by_origin L s origin))"

definition set_classpath ::
  "module_index \<Rightarrow> classpath_id \<Rightarrow> str list \<Rightarrow> classpath_entry list \<Rightarrow> module_index" where
  "set_classpath m cp jars entries =
     m\<lparr>mi_classpaths := hinsert cp \<lparr>ci_jars = jars, ci_entries = entries\<rparr> (mi_classpaths m)\<rparr>"

definition add_classpath_bucket :: "module_index \<Rightarrow> classpath_id \<Rightarrow> nat \<Rightarrow> module_index" where
  "add_classpath_bucket m cp b =
     (let ci = (case hget (mi_classpaths m) cp of
                  None \<Rightarrow> \<lparr>ci_jars = [], ci_entries = []\<rparr> | Some ci \<Rightarrow> ci)
      in m\<lparr>mi_classpaths := hinsert cp (ci\<lparr>ci_entries := ci_entries ci @ [EntryOverlay b]\<rparr>)
             (mi_classpaths m)\<rparr>)"

definition set_active_classpath :: "module_index \<Rightarrow> classpath_id \<Rightarrow> module_index" where
  "set_active_classpath m cp = m\<lparr>mi_active_classpath := cp\<rparr>"

definition classpath_entries :: "module_index \<Rightarrow> classpath_id \<Rightarrow> classpath_entry list" where
  "classpath_entries m cp =
     (case hget (mi_classpaths m) cp of None \<Rightarrow> [] | Some ci \<Rightarrow> ci_entries ci)"

definition active_classpath_entries :: "module_index \<Rightarrow> classpath_entry list" where
  "active_classpath_entries m =
     (case hget (mi_classpaths m) (mi_active_classpath m) of None \<Rightarrow> [] | Some ci \<Rightarrow> ci_entries ci)"

definition classpath_jars :: "module_index \<Rightarrow> classpath_id \<Rightarrow> str list" where
  "classpath_jars m cp = (case hget (mi_classpaths m) cp of None \<Rightarrow> [] | Some ci \<Rightarrow> ci_jars ci)"

definition classpath_summary :: "module_index \<Rightarrow> (classpath_id \<times> str list) list" where
  "classpath_summary m = map (\<lambda>(cp, ci). (cp, ci_jars ci)) (mi_classpaths m)"

definition classpath_jar_count :: "module_index \<Rightarrow> nat" where
  "classpath_jar_count m = sum_list (map (\<lambda>(_, ci). length (ci_jars ci)) (mi_classpaths m))"

text \<open>The closure \<open>push_matching\<close>: the roots of one classpath that were not pushed before.\<close>

definition push_matching ::
  "module_index \<Rightarrow> classpath_id \<Rightarrow> nat list \<times> source_root_id set \<Rightarrow> nat list \<times> source_root_id set" where
  "push_matching m requested acc =
     fold (\<lambda>(i, root) (ls, seen).
        if i \<in> seen \<or> sr_classpath root \<noteq> requested then (ls, seen)
        else (ls @ [sr_bucket root], insert i seen)) (mi_source_roots m) acc"

definition visible_source_layers ::
  "module_index \<Rightarrow> classpath_id \<Rightarrow> source_root_id option \<Rightarrow> nat list" where
  "visible_source_layers m cp preferred_root =
     (if mi_source_roots m = [] then [mi_source m]
      else (let start = (case preferred_root of
                           None \<Rightarrow> ([], {})
                         | Some i \<Rightarrow> (case hget (mi_source_roots m) i of
                                      None \<Rightarrow> ([], {}) | Some root \<Rightarrow> ([sr_bucket root], {i})));
                ls = fst (case cp of
                            Main \<Rightarrow> push_matching m Main start
                          | Test \<Rightarrow> push_matching m Main (push_matching m Test start))
            in if ls = [] then [mi_source m] else ls))"

text \<open>A \<open>BTreeSet\<close> of names is listed in increasing order.\<close>

definition visible_source_package_names ::
  "'c bucket_heap \<Rightarrow> module_index \<Rightarrow> classpath_id \<Rightarrow> source_root_id option \<Rightarrow> str list" where
  "visible_source_package_names h m cp preferred_root =
     sort (remdups (concat (map (\<lambda>b. bucket_package_names (hp_buckets h b))
       (visible_source_layers m cp preferred_root))))"

definition overlay_entries :: "classpath_entry list \<Rightarrow> nat list" where
  "overlay_entries es =
     List.map_filter (\<lambda>e. case e of EntryArtifact _ \<Rightarrow> None | EntryOverlay b \<Rightarrow> Some b) es"

definition all_overlay_bucket_refs :: "module_index \<Rightarrow> nat list" where
  "all_overlay_bucket_refs m =
     mi_source m # map (\<lambda>(_, root). sr_bucket root) (mi_source_roots m)
     @ concat (map (\<lambda>(_, ci). overlay_entries (ci_entries ci)) (mi_classpaths m))"

definition module_clear_query_caches ::
  "'c lru_ops \<Rightarrow> 'c bucket_heap \<Rightarrow> module_index \<Rightarrow> module_index \<times> 'c bucket_heap" where
  "module_clear_query_caches L h m =
     (query_cache_clear m,
      h\<lparr>hp_buckets := (\<lambda>b. if b \<in> set (all_overlay_bucket_refs m)
                           then bucket_clear_query_caches L (hp_buckets h b) else hp_buckets h b)\<rparr>)"

end
