(* ===== verification/Workspace_Index.thy ===== *)
theory Workspace_Index
  imports Module_Index Bucket_Laws
begin

text \<open>
  The index of a workspace (\<open>index/workspace_index.rs\<close>): its modules, the JDK, the shared jar and
  reader caches, the dependency graph, and a cache of scopes tagged with a version counter that
  every mutation advances (\<open>u64\<close>, wrapping).

  \<^item> The state is one record, and each method a function on it; the interleaving of methods is
    modelled in \<open>Scope_Cache\<close>.
  \<^item> \<open>disk_ops\<close> stands for the stores on disk and the jar reader (\<open>index/cache.rs\<close>, \<open>index_jar\<close>).
  \<^item> \<open>memory_stats\<close> only counts and is left out; \<open>preload_artifact_reader\<close> is for tests.
\<close>

subsection \<open>State\<close>

record archive_data =
  ad_classes :: "class_metadata list"
  ad_modules :: "indexed_java_module list"

record disk_ops =
  dk_load_cached :: "str \<Rightarrow> artifact_id option"
  dk_index_jar :: "str \<Rightarrow> archive_data option"
  dk_save_cached :: "str \<Rightarrow> archive_data \<Rightarrow> artifact_id option"
  dk_archive :: "artifact_id \<Rightarrow> stored_artifact_archive option"

record jdk_index_state =
  jd_overlay :: "nat option"
  jd_artifact_id :: "artifact_id option"

record index_scope =
  is_module :: module_id

record 'c workspace_index =
  ws_heap :: "'c bucket_heap"
  ws_modules :: "(module_id, module_index) hash_map"
  ws_jdk :: jdk_index_state
  ws_jar_cache :: "(str, classpath_entry) hash_map"
  ws_artifact_readers :: reader_cache
  ws_scope_cache :: "(analysis_context_key, 64 word \<times> scope_snapshot) hash_map"
  ws_graph :: module_graph
  ws_version :: "64 word"

definition workspace_new :: "'c lru_ops \<Rightarrow> 'c workspace_index" where
  "workspace_new L =
     (case module_new L \<lparr>hp_buckets = (\<lambda>_. bucket_new L), hp_next = 0\<rparr> ROOT ''root'' of (root, h) \<Rightarrow>
        \<lparr>ws_heap = h, ws_modules = [(ROOT, root)],
         ws_jdk = \<lparr>jd_overlay = None, jd_artifact_id = None\<rparr>, ws_jar_cache = [],
         ws_artifact_readers = [], ws_scope_cache = [], ws_graph = graph_new, ws_version = 0\<rparr>)"

definition increment_version :: "'c workspace_index \<Rightarrow> 'c workspace_index" where
  "increment_version w = w\<lparr>ws_version := ws_version w + 1\<rparr>"

definition invalidate_analysis_caches :: "'c workspace_index \<Rightarrow> 'c workspace_index" where
  "invalidate_analysis_caches w = increment_version (w\<lparr>ws_scope_cache := []\<rparr>)"

definition invalidate_dependency_caches :: "'c workspace_index \<Rightarrow> 'c workspace_index" where
  "invalidate_dependency_caches w =
     increment_version (w\<lparr>ws_scope_cache := [],
       ws_artifact_readers := reader_cache_clear (ws_artifact_readers w)\<rparr>)"

subsection \<open>Modules\<close>

fun decimal :: "nat \<Rightarrow> str" where
  "decimal n = (if n < 10 then [char_of (48 + n)] else decimal (n div 10) @ [char_of (48 + n mod 10)])"

declare decimal.simps [simp del]

definition default_module_name :: "module_id \<Rightarrow> str" where
  "default_module_name i = (if i = ROOT then ''root'' else ''module-'' @ decimal (unat i))"

definition ensure_module ::
  "'c lru_ops \<Rightarrow> 'c workspace_index \<Rightarrow> module_id \<Rightarrow> str \<Rightarrow> module_index \<times> 'c workspace_index" where
  "ensure_module L w i name =
     (case hget (ws_modules w) i of
        Some m \<Rightarrow> (m, w)
      | None \<Rightarrow>
          (case module_new L (ws_heap w) i name of (m, h) \<Rightarrow>
             (m, w\<lparr>ws_heap := h, ws_modules := hinsert i m (ws_modules w)\<rparr>)))"

abbreviation module_at ::
  "'c lru_ops \<Rightarrow> 'c workspace_index \<Rightarrow> module_id \<Rightarrow> module_index \<times> 'c workspace_index" where
  "module_at L w i \<equiv> ensure_module L w i (default_module_name i)"

text \<open>The module \<open>i\<close> is mutated in place.\<close>

definition put_module :: "'c workspace_index \<Rightarrow> module_id \<Rightarrow> module_index \<Rightarrow> 'c workspace_index" where
  "put_module w i m = w\<lparr>ws_modules := hinsert i m (ws_modules w)\<rparr>"

subsection \<open>Mutations\<close>

text \<open>A change of a bucket is followed by an invalidation when it reports a change.\<close>

definition commit_change ::
  "'c workspace_index \<Rightarrow> rust_panic + (bool \<times> 'c bucket_heap) \<Rightarrow> rust_panic + (bool \<times> 'c workspace_index)" where
  "commit_change w r =
     map_ok (\<lambda>(changed, h).
        (changed, if changed then invalidate_analysis_caches (w\<lparr>ws_heap := h\<rparr>) else w\<lparr>ws_heap := h\<rparr>)) r"

definition update_source_with_declarations ::
  "'c lru_ops \<Rightarrow> 'c workspace_index \<Rightarrow> index_scope \<Rightarrow> class_origin \<Rightarrow> class_metadata list
     \<Rightarrow> declaration_batch option \<Rightarrow> rust_panic + (bool \<times> 'c workspace_index)" where
  "update_source_with_declarations L w scope origin classes declarations =
     (case module_at L w (is_module scope) of (m, w') \<Rightarrow>
        commit_change w' (heap_update (ws_heap w') (mi_source m)
          (\<lambda>s. bucket_update_source_with_declarations L s origin classes declarations)))"

definition update_source ::
  "'c lru_ops \<Rightarrow> 'c workspace_index \<Rightarrow> index_scope \<Rightarrow> class_origin \<Rightarrow> class_metadata list
     \<Rightarrow> rust_panic + (bool \<times> 'c workspace_index)" where
  "update_source L w scope origin classes = update_source_with_declarations L w scope origin classes None"

definition update_source_in_context_with_declarations ::
  "'c lru_ops \<Rightarrow> 'c workspace_index \<Rightarrow> module_id \<Rightarrow> source_root_id option \<Rightarrow> class_origin
     \<Rightarrow> class_metadata list \<Rightarrow> declaration_batch option \<Rightarrow> rust_panic + (bool \<times> 'c workspace_index)" where
  "update_source_in_context_with_declarations L w i source_root origin classes declarations =
     (case module_at L w i of (m, w') \<Rightarrow>
        commit_change w' (update_source_in_root_with_declarations L (ws_heap w') m source_root origin
          classes declarations))"

definition update_source_in_context ::
  "'c lru_ops \<Rightarrow> 'c workspace_index \<Rightarrow> module_id \<Rightarrow> source_root_id option \<Rightarrow> class_origin
     \<Rightarrow> class_metadata list \<Rightarrow> rust_panic + (bool \<times> 'c workspace_index)" where
  "update_source_in_context L w i source_root origin classes =
     update_source_in_context_with_declarations L w i source_root origin classes None"

definition remove_source_origin ::
  "'c lru_ops \<Rightarrow> 'c workspace_index \<Rightarrow> index_scope \<Rightarrow> class_origin
     \<Rightarrow> rust_panic + (bool \<times> 'c workspace_index)" where
  "remove_source_origin L w scope origin =
     (case module_at L w (is_module scope) of (m, w') \<Rightarrow>
        commit_change w' (heap_update (ws_heap w') (mi_source m)
          (\<lambda>s. Inr (bucket_remove_by_origin L s origin))))"

definition remove_source_origin_in_context ::
  "'c lru_ops \<Rightarrow> 'c workspace_index \<Rightarrow> module_id \<Rightarrow> source_root_id option \<Rightarrow> class_origin
     \<Rightarrow> rust_panic + (bool \<times> 'c workspace_index)" where
  "remove_source_origin_in_context L w i source_root origin =
     (case module_at L w i of (m, w') \<Rightarrow>
        commit_change w' (remove_source_origin_in_root L (ws_heap w') m source_root origin))"

definition set_jdk_overlay :: "'c workspace_index \<Rightarrow> 'c bucket_state \<Rightarrow> 'c workspace_index" where
  "set_jdk_overlay w s =
     (case heap_new (ws_heap w) s of (b, h) \<Rightarrow>
        invalidate_dependency_caches
          (w\<lparr>ws_heap := h, ws_jdk := \<lparr>jd_overlay = Some b, jd_artifact_id = None\<rparr>\<rparr>))"

definition add_jdk_classes ::
  "'c lru_ops \<Rightarrow> 'c workspace_index \<Rightarrow> class_metadata list \<Rightarrow> rust_panic + 'c workspace_index" where
  "add_jdk_classes L w classes =
     map_ok (set_jdk_overlay w) (bucket_add_archive_classes L (bucket_new L) classes)"

definition bucket_from_archive_data :: "'c lru_ops \<Rightarrow> archive_data \<Rightarrow> rust_panic + 'c bucket_state" where
  "bucket_from_archive_data L data =
     map_ok (\<lambda>s. bucket_add_modules s (ad_modules data))
       (bucket_add_archive_classes L (bucket_new L) (ad_classes data))"

definition add_jdk_archive ::
  "'c lru_ops \<Rightarrow> 'c workspace_index \<Rightarrow> archive_data \<Rightarrow> rust_panic + 'c workspace_index" where
  "add_jdk_archive L w data =
     map_ok (\<lambda>s. set_jdk_overlay w (bucket_add_modules s (ad_modules data)))
       (bucket_add_archive_classes L (bucket_new L) (ad_classes data))"

definition set_jdk_artifact :: "'c workspace_index \<Rightarrow> artifact_id \<Rightarrow> 'c workspace_index" where
  "set_jdk_artifact w i =
     invalidate_dependency_caches (w\<lparr>ws_jdk := \<lparr>jd_overlay = None, jd_artifact_id = Some i\<rparr>\<rparr>)"

definition add_jar_classes ::
  "'c lru_ops \<Rightarrow> 'c workspace_index \<Rightarrow> index_scope \<Rightarrow> class_metadata list
     \<Rightarrow> rust_panic + 'c workspace_index" where
  "add_jar_classes L w scope classes =
     (case module_at L w (is_module scope) of (m, w') \<Rightarrow>
        map_ok (\<lambda>s. case heap_new (ws_heap w') s of (b, h) \<Rightarrow>
            invalidate_analysis_caches
              (put_module (w'\<lparr>ws_heap := h\<rparr>) (is_module scope) (add_classpath_bucket m Main b)))
          (bucket_add_archive_classes L (bucket_new L) classes))"

definition add_classes ::
  "'c lru_ops \<Rightarrow> 'c workspace_index \<Rightarrow> class_metadata list \<Rightarrow> rust_panic + 'c workspace_index" where
  "add_classes L w classes = add_jar_classes L w \<lparr>is_module = ROOT\<rparr> classes"

text \<open>The entry is cached; a jar that cannot be read becomes an empty bucket.\<close>

definition cache_jar :: "'c workspace_index \<Rightarrow> str \<Rightarrow> classpath_entry \<Rightarrow> classpath_entry \<times> 'c workspace_index" where
  "cache_jar w path e = (e, w\<lparr>ws_jar_cache := hinsert path e (ws_jar_cache w)\<rparr>)"

definition cache_jar_bucket ::
  "'c workspace_index \<Rightarrow> str \<Rightarrow> 'c bucket_state \<Rightarrow> classpath_entry \<times> 'c workspace_index" where
  "cache_jar_bucket w path s =
     (case heap_new (ws_heap w) s of (b, h) \<Rightarrow> cache_jar (w\<lparr>ws_heap := h\<rparr>) path (EntryOverlay b))"

definition get_or_index_jar ::
  "'c lru_ops \<Rightarrow> disk_ops \<Rightarrow> 'c workspace_index \<Rightarrow> str
     \<Rightarrow> rust_panic + (classpath_entry \<times> 'c workspace_index)" where
  "get_or_index_jar L D w path =
     (case hget (ws_jar_cache w) path of
        Some existing \<Rightarrow> Inr (existing, w)
      | None \<Rightarrow>
          (case dk_load_cached D path of
             Some i \<Rightarrow> Inr (cache_jar w path (EntryArtifact i))
           | None \<Rightarrow>
               (case dk_index_jar D path of
                  None \<Rightarrow> Inr (cache_jar_bucket w path (bucket_new L))
                | Some data \<Rightarrow>
                    (case dk_save_cached D path data of
                       Some i \<Rightarrow> Inr (cache_jar w path (EntryArtifact i))
                     | None \<Rightarrow> map_ok (cache_jar_bucket w path) (bucket_from_archive_data L data)))))"

fun index_jars ::
  "'c lru_ops \<Rightarrow> disk_ops \<Rightarrow> 'c workspace_index \<Rightarrow> str list
     \<Rightarrow> rust_panic + (classpath_entry list \<times> 'c workspace_index)" where
  "index_jars L D w [] = Inr ([], w)"
| "index_jars L D w (path # paths) =
     and_then (get_or_index_jar L D w path) (\<lambda>(e, w').
       map_ok (\<lambda>(es, w''). (e # es, w'')) (index_jars L D w' paths))"

definition set_module_classpath ::
  "'c lru_ops \<Rightarrow> disk_ops \<Rightarrow> 'c workspace_index \<Rightarrow> module_id \<Rightarrow> classpath_id \<Rightarrow> str list
     \<Rightarrow> rust_panic + 'c workspace_index" where
  "set_module_classpath L D w i cp jar_paths =
     map_ok (\<lambda>(entries, w1). case module_at L w1 i of (m, w2) \<Rightarrow>
        invalidate_dependency_caches (put_module w2 i (set_classpath m cp jar_paths entries)))
       (index_jars L D w jar_paths)"

definition set_module_dependencies ::
  "'c workspace_index \<Rightarrow> module_id \<Rightarrow> module_id list \<Rightarrow> 'c workspace_index" where
  "set_module_dependencies w i deps =
     invalidate_analysis_caches (w\<lparr>ws_graph := set_deps (ws_graph w) i deps\<rparr>)"

definition register_module_source_roots ::
  "'c lru_ops \<Rightarrow> 'c workspace_index \<Rightarrow> module_id \<Rightarrow> (source_root_id \<times> classpath_id) list
     \<Rightarrow> 'c workspace_index" where
  "register_module_source_roots L w i roots =
     (case module_at L w i of (m, w') \<Rightarrow>
        (case set_source_roots L (ws_heap w') m roots of (m', h) \<Rightarrow>
           invalidate_analysis_caches (put_module (w'\<lparr>ws_heap := h\<rparr>) i m')))"

definition set_module_active_classpath ::
  "'c lru_ops \<Rightarrow> 'c workspace_index \<Rightarrow> module_id \<Rightarrow> classpath_id \<Rightarrow> 'c workspace_index" where
  "set_module_active_classpath L w i cp =
     (case module_at L w i of (m, w') \<Rightarrow>
        invalidate_analysis_caches (put_module w' i (set_active_classpath m cp)))"

subsection \<open>Scopes\<close>

definition classpath_layers :: "classpath_entry list \<Rightarrow> scope_layer list" where
  "classpath_layers es =
     map (\<lambda>e. case e of EntryArtifact i \<Rightarrow> Artifact i | EntryOverlay b \<Rightarrow> Overlay b) es"

definition jdk_layer :: "jdk_index_state \<Rightarrow> scope_layer list" where
  "jdk_layer j =
     (case jd_artifact_id j of
        Some i \<Rightarrow> [Artifact i]
      | None \<Rightarrow> (case jd_overlay j of Some b \<Rightarrow> [Overlay b] | None \<Rightarrow> []))"

text \<open>The layers of one module: its visible source buckets, then its classpath.\<close>

definition module_layers ::
  "module_index \<Rightarrow> classpath_id \<Rightarrow> source_root_id option \<Rightarrow> scope_layer list" where
  "module_layers m cp source_root =
     map Overlay (visible_source_layers m cp source_root) @ classpath_layers (classpath_entries m cp)"

text \<open>The modules that some module depends on: the loop over the graph meets no other.\<close>

definition dep_universe :: "module_graph \<Rightarrow> module_id list" where
  "dep_universe g = concat (map snd (mg_deps g))"

definition dep_get :: "module_graph \<Rightarrow> module_id \<Rightarrow> module_id list option" where
  "dep_get g i = (if i \<in> set (dep_universe g) then Some (deps_of g i) else None)"

definition build_scope_layers ::
  "'c lru_ops \<Rightarrow> 'c workspace_index \<Rightarrow> module_id \<Rightarrow> classpath_id \<Rightarrow> source_root_id option
     \<Rightarrow> scope_layer list \<times> 'c workspace_index" where
  "build_scope_layers L w i cp source_root =
     (case module_at L w i of (m, w1) \<Rightarrow>
        (case bfs (dep_universe (ws_graph w1)) (dep_get (ws_graph w1)) (\<lambda>deps. deps)
                (\<lambda>dep _ (ls, w). case module_at L w dep of (dm, w') \<Rightarrow>
                   (ls @ module_layers dm Main None, w'))
                (deps_of (ws_graph w1) i) {i} (module_layers m cp source_root, w1)
         of (ls, w2) \<Rightarrow> (ls @ jdk_layer (ws_jdk w2), w2)))"

definition build_scope_snapshot ::
  "'c lru_ops \<Rightarrow> 'c workspace_index \<Rightarrow> analysis_context_key \<Rightarrow> scope_snapshot \<times> 'c workspace_index" where
  "build_scope_snapshot L w key =
     (case key of (i, cp, source_root) \<Rightarrow>
        (case module_at L w i of (m, w1) \<Rightarrow>
           (case build_scope_layers L w1 i cp source_root of (ls, w2) \<Rightarrow>
              (scope_new i cp source_root ls (classpath_jars m cp), w2))))"

definition scope_for_analysis_context ::
  "'c lru_ops \<Rightarrow> 'c workspace_index \<Rightarrow> analysis_context_key \<Rightarrow> scope_snapshot \<times> 'c workspace_index" where
  "scope_for_analysis_context L w key =
     (let started_version = ws_version w;
          build = (case build_scope_snapshot L w key of (snapshot, w') \<Rightarrow>
                     (snapshot,
                      if ws_version w' = started_version
                      then w'\<lparr>ws_scope_cache := hinsert key (started_version, snapshot) (ws_scope_cache w')\<rparr>
                      else w'))
      in case hget (ws_scope_cache w) key of
           Some (tag, snapshot) \<Rightarrow> if tag = started_version then (snapshot, w) else build
         | None \<Rightarrow> build)"

definition scope_for_classpath ::
  "'c lru_ops \<Rightarrow> 'c workspace_index \<Rightarrow> index_scope \<Rightarrow> classpath_id \<Rightarrow> scope_snapshot \<times> 'c workspace_index" where
  "scope_for_classpath L w scope cp = scope_for_analysis_context L w (is_module scope, cp, None)"

definition workspace_scope ::
  "'c lru_ops \<Rightarrow> 'c workspace_index \<Rightarrow> index_scope \<Rightarrow> scope_snapshot \<times> 'c workspace_index" where
  "workspace_scope L w scope = scope_for_classpath L w scope Main"

text \<open>
  The world that a view sees: the buckets of the heap, and the readers that the reader cache would
  return; that cache only memoises the store. A store that cannot be rebuilt makes the reader panic;
  the view then has no such reader.
\<close>

definition workspace_world :: "disk_ops \<Rightarrow> 'c workspace_index \<Rightarrow> 'c world" where
  "workspace_world D w =
     \<lparr>wd_buckets = hp_buckets (ws_heap w),
      wd_readers = (\<lambda>i. case reader_cache_get (dk_archive D) (ws_artifact_readers w) i of
                          Inl _ \<Rightarrow> None | Inr (r, _) \<Rightarrow> r)\<rparr>"

text \<open>\<open>ScopeSnapshot::artifact_reader\<close>, on the reader cache that all scopes of the workspace share.\<close>

definition scope_artifact_reader ::
  "disk_ops \<Rightarrow> 'c workspace_index \<Rightarrow> artifact_id
     \<Rightarrow> rust_panic + (artifact_scope_reader option \<times> 'c workspace_index)" where
  "scope_artifact_reader D w i =
     map_ok (\<lambda>(r, readers). (r, w\<lparr>ws_artifact_readers := readers\<rparr>))
       (reader_cache_get (dk_archive D) (ws_artifact_readers w) i)"

definition view_for_analysis_context ::
  "'c lru_ops \<Rightarrow> disk_ops \<Rightarrow> 'c workspace_index \<Rightarrow> analysis_context_key
     \<Rightarrow> 'c index_view \<times> 'c workspace_index" where
  "view_for_analysis_context L D w key =
     (case scope_for_analysis_context L w key of (snapshot, w') \<Rightarrow>
        (\<lparr>iv_world = workspace_world D w', iv_scope = snapshot\<rparr>, w'))"

definition view_for_classpath ::
  "'c lru_ops \<Rightarrow> disk_ops \<Rightarrow> 'c workspace_index \<Rightarrow> index_scope \<Rightarrow> classpath_id
     \<Rightarrow> 'c index_view \<times> 'c workspace_index" where
  "view_for_classpath L D w scope cp = view_for_analysis_context L D w (is_module scope, cp, None)"

definition workspace_view ::
  "'c lru_ops \<Rightarrow> disk_ops \<Rightarrow> 'c workspace_index \<Rightarrow> index_scope \<Rightarrow> 'c index_view \<times> 'c workspace_index" where
  "workspace_view L D w scope = view_for_classpath L D w scope Main"

definition build_name_table_for_analysis_context ::
  "'c lru_ops \<Rightarrow> disk_ops \<Rightarrow> 'c workspace_index \<Rightarrow> analysis_context_key \<Rightarrow> name_table \<times> 'c workspace_index" where
  "build_name_table_for_analysis_context L D w key =
     (case view_for_analysis_context L D w key of (v, w') \<Rightarrow> (scope_build_name_table v, w'))"

subsection \<open>Queries\<close>

definition module_classpath_jars ::
  "'c lru_ops \<Rightarrow> 'c workspace_index \<Rightarrow> module_id \<Rightarrow> classpath_id \<Rightarrow> str list \<times> 'c workspace_index" where
  "module_classpath_jars L w i cp = (case module_at L w i of (m, w') \<Rightarrow> (classpath_jars m cp, w'))"

definition module_classpath_summary ::
  "'c lru_ops \<Rightarrow> 'c workspace_index \<Rightarrow> module_id \<Rightarrow> (classpath_id \<times> str list) list \<times> 'c workspace_index" where
  "module_classpath_summary L w i = (case module_at L w i of (m, w') \<Rightarrow> (classpath_summary m, w'))"

definition module_source_package_names ::
  "'c lru_ops \<Rightarrow> 'c workspace_index \<Rightarrow> module_id \<Rightarrow> classpath_id \<Rightarrow> source_root_id option
     \<Rightarrow> str list \<times> 'c workspace_index" where
  "module_source_package_names L w i cp source_root =
     (case module_at L w i of (m, w') \<Rightarrow>
        (visible_source_package_names (ws_heap w') m cp source_root, w'))"

definition layer_module_names :: "'c index_view \<Rightarrow> scope_layer \<Rightarrow> str list" where
  "layer_module_names v layer =
     (case layer of
        Overlay b \<Rightarrow> bucket_module_names (bucket_at v b)
      | Artifact i \<Rightarrow> (case artifact_reader v i of None \<Rightarrow> [] | Some r \<Rightarrow> reader_module_names r))"

definition visible_bytecode_module_names_for_analysis_context ::
  "'c lru_ops \<Rightarrow> disk_ops \<Rightarrow> 'c workspace_index \<Rightarrow> analysis_context_key \<Rightarrow> str list \<times> 'c workspace_index" where
  "visible_bytecode_module_names_for_analysis_context L D w key =
     (case view_for_analysis_context L D w key of (v, w') \<Rightarrow>
        (sort (remdups (concat (map (layer_module_names v) (layers v)))), w'))"

definition find_visible_bytecode_module_for_analysis_context ::
  "'c lru_ops \<Rightarrow> disk_ops \<Rightarrow> 'c workspace_index \<Rightarrow> analysis_context_key \<Rightarrow> str
     \<Rightarrow> indexed_java_module option \<times> 'c workspace_index" where
  "find_visible_bytecode_module_for_analysis_context L D w key name =
     (case view_for_analysis_context L D w key of (v, w') \<Rightarrow>
        (find_map (\<lambda>layer. case layer of
             Overlay b \<Rightarrow> bucket_get_module (bucket_at v b) name
           | Artifact i \<Rightarrow> (case artifact_reader v i of None \<Rightarrow> None | Some r \<Rightarrow> reader_get_module r name))
           (layers v), w'))"

definition clear_analysis_caches :: "'c lru_ops \<Rightarrow> 'c workspace_index \<Rightarrow> 'c workspace_index" where
  "clear_analysis_caches L w =
     (let h = (case jd_overlay (ws_jdk w) of
                 None \<Rightarrow> ws_heap w
               | Some b \<Rightarrow> (ws_heap w)\<lparr>hp_buckets := (hp_buckets (ws_heap w))
                     (b := bucket_clear_query_caches L (hp_buckets (ws_heap w) b))\<rparr>)
      in case fold (\<lambda>(i, m) (ms, h). case module_clear_query_caches L h m of (m', h') \<Rightarrow> (ms @ [(i, m')], h'))
                (ws_modules w) ([], h)
         of (ms, h') \<Rightarrow> w\<lparr>ws_scope_cache := [], ws_artifact_readers := [], ws_heap := h', ws_modules := ms\<rparr>)"

definition graph_version :: "'c workspace_index \<Rightarrow> 64 word" where
  "graph_version w = mg_version (ws_graph w)"

end
