(* ===== verification/Workspace_Laws.thy ===== *)
theory Workspace_Laws
  imports Workspace_Index View_Properties
begin

text \<open>
  What the workspace index promises about scopes. \<open>scope_spec\<close> is the scope that the current
  modules, graph and JDK determine; building a scope creates absent modules and otherwise changes
  nothing, and the scope cache holds no other scope under the current version. The views that the
  workspace hands out satisfy the invariants that the theorems on views rely on.
\<close>

subsection \<open>Modules in scope\<close>

abbreviation dep_rel :: "module_graph \<Rightarrow> (module_id \<times> module_id) set" where
  "dep_rel g \<equiv> {(i, d). d \<in> set (deps_of g i)}"

definition scope_modules :: "module_graph \<Rightarrow> module_id \<Rightarrow> module_id list" where
  "scope_modules g i = visits (dep_universe g) (dep_get g) (\<lambda>deps. deps) (deps_of g i) {i}"

lemma deps_in_universe: "d \<in> set (deps_of g i) \<Longrightarrow> d \<in> set (dep_universe g)"
  by (cases "hget (mg_deps g) i")
     (auto simp: deps_of_def dep_universe_def dest!: map_of_SomeD intro!: rev_bexI)

lemma reaches_dep_get:
  assumes "Q \<subseteq> set (dep_universe g)"
  shows "reaches (dep_get g) (\<lambda>deps. deps) S Q x
    \<longleftrightarrow> reaches (\<lambda>i. Some (deps_of g i)) (\<lambda>deps. deps) S Q x"
proof
  show "reaches (\<lambda>i. Some (deps_of g i)) (\<lambda>deps. deps) S Q x" if "reaches (dep_get g) (\<lambda>deps. deps) S Q x"
    using that by induction (auto simp: dep_get_def split: if_splits intro: reaches.intros)
  have "reaches (dep_get g) (\<lambda>deps. deps) S Q x \<and> x \<in> set (dep_universe g)"
    if "reaches (\<lambda>i. Some (deps_of g i)) (\<lambda>deps. deps) S Q x"
    using that
  proof induction
    case (edge k v k')
    then show ?case
      by (auto simp: dep_get_def deps_in_universe intro: reaches.edge [where v = v])
  qed (use assms in \<open>auto intro: reaches.start\<close>)
  then show "reaches (\<lambda>i. Some (deps_of g i)) (\<lambda>deps. deps) S Q x \<Longrightarrow> reaches (dep_get g) (\<lambda>deps. deps) S Q x"
    by blast
qed

lemma scope_modules_set: "set (scope_modules g i) = {d. d \<noteq> i \<and> (i, d) \<in> (dep_rel g)\<^sup>*}"
proof -
  let ?get = "\<lambda>i. Some (deps_of g i)" and ?id = "\<lambda>deps :: module_id list. deps"
  have dom: "dom (dep_get g) = set (dep_universe g)" by (auto simp: dep_get_def split: if_splits)
  have "x \<in> set (dep_universe g)" if "reaches (dep_get g) ?id {i} (set (deps_of g i)) x" for x
    using that by induction (auto simp: dep_get_def deps_in_universe split: if_splits)
  then have "set (scope_modules g i) = {d. reaches ?get ?id {i} (set (deps_of g i)) d}"
    using reaches_dep_get [of "set (deps_of g i)" g "{i}"]
    by (auto simp: scope_modules_def set_visits dom deps_in_universe subset_iff)
  also have "\<dots> = {d. d \<noteq> i \<and> reaches ?get ?id {} {i} d}"
    using reaches_step [of i "{}" ?get "deps_of g i" ?id "{}"] reaches_not_in [of ?get ?id "{i}"]
    by auto
  also have "\<dots> = {d. d \<noteq> i \<and> (i, d) \<in> (dep_rel g)\<^sup>*}"
    by (simp add: reaches_rtrancl succ_rel_def)
  finally show ?thesis .
qed

subsection \<open>Building a scope\<close>

definition scope_present :: "'c workspace_index \<Rightarrow> analysis_context_key \<Rightarrow> bool" where
  "scope_present w key \<longleftrightarrow>
     list_all (\<lambda>d. hget (ws_modules w) d \<noteq> None) (fst key # scope_modules (ws_graph w) (fst key))"

definition scope_spec :: "'c workspace_index \<Rightarrow> analysis_context_key \<Rightarrow> scope_snapshot" where
  "scope_spec w key =
     (case key of (i, cp, root) \<Rightarrow>
        scope_new i cp root
          (module_layers (the (hget (ws_modules w) i)) cp root
           @ concat (map (\<lambda>d. module_layers (the (hget (ws_modules w) d)) Main None)
                       (scope_modules (ws_graph w) i))
           @ jdk_layer (ws_jdk w))
          (classpath_jars (the (hget (ws_modules w) i)) cp))"

text \<open>Creating absent modules: everything that was there stays, apart from new buckets.\<close>

definition extends :: "'c workspace_index \<Rightarrow> 'c workspace_index \<Rightarrow> bool" where
  "extends w w' \<longleftrightarrow>
     hget (ws_modules w) \<subseteq>\<^sub>m hget (ws_modules w') \<and> ws_jdk w' = ws_jdk w \<and> ws_graph w' = ws_graph w \<and>
     ws_jar_cache w' = ws_jar_cache w \<and> ws_artifact_readers w' = ws_artifact_readers w \<and>
     ws_scope_cache w' = ws_scope_cache w \<and> ws_version w' = ws_version w \<and>
     hp_next (ws_heap w) \<le> hp_next (ws_heap w') \<and>
     (\<forall>b<hp_next (ws_heap w). hp_buckets (ws_heap w') b = hp_buckets (ws_heap w) b)"

lemma extends_refl [simp]: "extends w w"
  by (simp add: extends_def)

lemma extends_trans: "extends w w' \<Longrightarrow> extends w' w'' \<Longrightarrow> extends w w''"
  unfolding extends_def by (auto intro: map_le_trans)

lemma extends_module:
  "extends w w' \<Longrightarrow> hget (ws_modules w) i = Some m \<Longrightarrow> hget (ws_modules w') i = Some m"
  unfolding extends_def map_le_def by (metis domI)

lemma ensure_module_ok:
  assumes "ensure_module L w i name = (m, w')"
  shows "extends w w'" "hget (ws_modules w') i = Some m"
  using assms
  by (auto simp: ensure_module_def extends_def module_new_def heap_new_def map_le_def
        split: option.splits)

lemma ensure_module_present: "hget (ws_modules w) i = Some m \<Longrightarrow> ensure_module L w i name = (m, w)"
  by (simp add: ensure_module_def)

lemma add_dep_layers:
  "\<exists>w'. fold (\<lambda>dep (ls, w). case module_at L w dep of (dm, w') \<Rightarrow> (ls @ module_layers dm Main None, w'))
       ds (ls, w)
     = (ls @ concat (map (\<lambda>d. module_layers (the (hget (ws_modules w') d)) Main None) ds), w')
   \<and> extends w w' \<and> (\<forall>d\<in>set ds. hget (ws_modules w') d \<noteq> None)"
proof (induction ds arbitrary: ls w)
  case (Cons d ds)
  obtain dm w1 where dm: "module_at L w d = (dm, w1)" by fastforce
  note e = ensure_module_ok [OF dm]
  from Cons.IH [of "ls @ module_layers dm Main None" w1] obtain w2 where
    w2: "fold (\<lambda>dep (ls, w). case module_at L w dep of (dm, w') \<Rightarrow> (ls @ module_layers dm Main None, w'))
        ds (ls @ module_layers dm Main None, w1)
      = (ls @ module_layers dm Main None
          @ concat (map (\<lambda>d. module_layers (the (hget (ws_modules w2) d)) Main None) ds), w2)"
    "extends w1 w2" "\<forall>d\<in>set ds. hget (ws_modules w2) d \<noteq> None" by auto
  with e dm extends_module [OF w2(2) e(2)] extends_trans [OF e(1) w2(2)] show ?case
    by (intro exI [of _ w2]) simp
qed simp

lemma build_scope_ok:
  assumes "build_scope_snapshot L w key = (snapshot, w')"
  shows "extends w w'" "scope_present w' key" "snapshot = scope_spec w' key"
proof -
  obtain i cp root where key: "key = (i, cp, root)" by (cases key)
  obtain m w1 where m: "module_at L w i = (m, w1)" by fastforce
  note e = ensure_module_ok [OF m]
  have again: "module_at L w1 i = (m, w1)" using e(2) by (rule ensure_module_present)
  let ?ds = "scope_modules (ws_graph w1) i"
  obtain w2 where w2: "fold (\<lambda>dep (ls, w). case module_at L w dep of (dm, w') \<Rightarrow>
        (ls @ module_layers dm Main None, w')) ?ds (module_layers m cp root, w1)
      = (module_layers m cp root
          @ concat (map (\<lambda>d. module_layers (the (hget (ws_modules w2) d)) Main None) ?ds), w2)"
    "extends w1 w2" "\<forall>d\<in>set ?ds. hget (ws_modules w2) d \<noteq> None"
    using add_dep_layers [of L ?ds "module_layers m cp root" w1] by blast
  have "build_scope_layers L w1 i cp root =
      (module_layers m cp root @ concat (map (\<lambda>d. module_layers (the (hget (ws_modules w2) d)) Main None) ?ds)
        @ jdk_layer (ws_jdk w2), w2)"
    using w2(1) by (simp add: build_scope_layers_def again bfs_eq_fold scope_modules_def)
  with assms m have res: "snapshot = scope_new i cp root (module_layers m cp root
      @ concat (map (\<lambda>d. module_layers (the (hget (ws_modules w2) d)) Main None) ?ds)
      @ jdk_layer (ws_jdk w2)) (classpath_jars m cp)" "w' = w2"
    by (auto simp: build_scope_snapshot_def key)
  have g: "ws_graph w2 = ws_graph w1" using w2(2) by (simp add: extends_def)
  note m2 = extends_module [OF w2(2) e(2)]
  show "extends w w'" using extends_trans [OF e(1) w2(2)] res(2) by simp
  show "scope_present w' key" using w2(3) m2 by (simp add: scope_present_def key res(2) g list_all_iff)
  show "snapshot = scope_spec w' key" using m2 by (simp add: scope_spec_def key res g)
qed

lemma scope_spec_extends:
  assumes "extends w w'" "scope_present w key"
  shows "scope_present w' key" "scope_spec w' key = scope_spec w key"
proof -
  obtain i cp root where key: "key = (i, cp, root)" by (cases key)
  have g: "ws_graph w' = ws_graph w" "ws_jdk w' = ws_jdk w" using assms(1) by (simp_all add: extends_def)
  have same: "hget (ws_modules w') d = hget (ws_modules w) d"
    if "d \<in> set (i # scope_modules (ws_graph w) i)" for d
    using that assms(2) extends_module [OF assms(1)] by (fastforce simp: scope_present_def key list_all_iff)
  show "scope_present w' key" using assms(2) same by (simp add: scope_present_def key g list_all_iff)
  show "scope_spec w' key = scope_spec w key"
    using same by (simp add: scope_spec_def key g cong: map_cong)
qed

subsection \<open>Invariant\<close>

text \<open>
  Every address that the workspace holds is allocated and every allocated bucket is well formed;
  the readers belong to their artifact. \<open>disk_ok\<close> is what the store on disk promises: an archive
  stored under an id carries that id and can be rebuilt.
\<close>

definition heap_ok :: "'c bucket_heap \<Rightarrow> bool" where
  "heap_ok h \<longleftrightarrow> (\<forall>b<hp_next h. bucket_inv (hp_buckets h b))"

definition disk_ok :: "disk_ops \<Rightarrow> bool" where
  "disk_ok D \<longleftrightarrow> (\<forall>i a. dk_archive D i = Some a \<longrightarrow> archive_ok a \<and> am_id (aa_metadata a) = i)"

definition readers_ok :: "reader_cache \<Rightarrow> bool" where
  "readers_ok rs \<longleftrightarrow> (\<forall>i r. hget rs i = Some r \<longrightarrow> reader_inv r \<and> reader_artifact_id r = i)"

definition ws_core :: "'c workspace_index \<Rightarrow> bool" where
  "ws_core w \<longleftrightarrow>
     heap_ok (ws_heap w) \<and> readers_ok (ws_artifact_readers w) \<and>
     (\<forall>i m. hget (ws_modules w) i = Some m \<longrightarrow> set (all_overlay_bucket_refs m) \<subseteq> {..<hp_next (ws_heap w)}) \<and>
     (\<forall>b. jd_overlay (ws_jdk w) = Some b \<longrightarrow> b < hp_next (ws_heap w)) \<and>
     (\<forall>p b. hget (ws_jar_cache w) p = Some (EntryOverlay b) \<longrightarrow> b < hp_next (ws_heap w))"

definition ws_cache_ok :: "'c workspace_index \<Rightarrow> bool" where
  "ws_cache_ok w \<longleftrightarrow>
     (\<forall>key tag snapshot. hget (ws_scope_cache w) key = Some (tag, snapshot) \<longrightarrow>
        tag = ws_version w \<and> scope_present w key \<and> snapshot = scope_spec w key)"

definition ws_inv :: "'c workspace_index \<Rightarrow> bool" where
  "ws_inv w \<longleftrightarrow> ws_core w \<and> ws_cache_ok w"

lemma set_hinsert: "set (hinsert k v m) \<subseteq> insert (k, v) (set m)"
  by (induction m) (auto simp: hinsert_def split: if_splits)

lemma heap_new_ok:
  assumes "heap_ok h" "bucket_inv s" "heap_new h s = (b, h')"
  shows "heap_ok h'" "b < hp_next h'" "hp_next h \<le> hp_next h'"
  using assms by (auto simp: heap_ok_def heap_new_def less_Suc_eq)

lemma heap_update_ok:
  assumes "heap_ok h" "heap_update h b f = Inr (x, h')" "\<And>s y s'. bucket_inv s \<Longrightarrow> f s = Inr (y, s') \<Longrightarrow> bucket_inv s'"
    "b < hp_next h"
  shows "heap_ok h'" "hp_next h' = hp_next h"
  using assms by (auto simp: heap_ok_def heap_update_def map_ok_Inr)

lemma invalidated [simp]:
  "ws_inv (invalidate_analysis_caches w) = ws_core w" "ws_inv (invalidate_dependency_caches w) = ws_core (w\<lparr>ws_artifact_readers := []\<rparr>)"
  by (simp_all add: ws_inv_def ws_core_def ws_cache_ok_def invalidate_analysis_caches_def
        invalidate_dependency_caches_def increment_version_def reader_cache_clear_def)

lemma readers_ok_Nil [simp]: "readers_ok []"
  by (simp add: readers_ok_def)

lemma ws_core_no_readers: "ws_core w \<Longrightarrow> ws_core (w\<lparr>ws_artifact_readers := []\<rparr>)"
  by (simp add: ws_core_def)

lemma module_new_ok:
  assumes "heap_ok h" "module_new L h i name = (m, h')"
  shows "heap_ok h'" "set (all_overlay_bucket_refs m) \<subseteq> {..<hp_next h'}" "hp_next h \<le> hp_next h'"
  using assms
  by (auto simp: module_new_def heap_new_def heap_ok_def all_overlay_bucket_refs_def bucket_new_inv less_Suc_eq)

lemma ensure_module_core:
  assumes "ws_core w" "ensure_module L w i name = (m, w')"
  shows "ws_core w'" "set (all_overlay_bucket_refs m) \<subseteq> {..<hp_next (ws_heap w')}"
proof -
  have "ws_core w' \<and> set (all_overlay_bucket_refs m) \<subseteq> {..<hp_next (ws_heap w')}"
  proof (cases "hget (ws_modules w) i")
    case None
    then obtain h where h: "module_new L (ws_heap w) i name = (m, h)"
      "w' = w\<lparr>ws_heap := h, ws_modules := hinsert i m (ws_modules w)\<rparr>"
      using assms(2) by (auto simp: ensure_module_def split: prod.splits)
    with module_new_ok [OF _ h(1)] assms(1) show ?thesis by (fastforce simp: ws_core_def)
  qed (use assms in \<open>auto simp: ensure_module_def ws_core_def\<close>)
  then show "ws_core w'" "set (all_overlay_bucket_refs m) \<subseteq> {..<hp_next (ws_heap w')}" by blast+
qed

lemma ensure_module_inv:
  assumes "ws_inv w" "ensure_module L w i name = (m, w')"
  shows "ws_inv w'"
proof -
  note e = ensure_module_ok(1) [OF assms(2)]
  have "ws_core w'" using ensure_module_core(1) [OF _ assms(2)] assms(1) by (simp add: ws_inv_def)
  moreover have "ws_cache_ok w'"
    using assms(1) scope_spec_extends [OF e] e by (auto simp: ws_inv_def ws_cache_ok_def extends_def)
  ultimately show ?thesis by (simp add: ws_inv_def)
qed

lemma put_module_core:
  assumes "ws_core w" "set (all_overlay_bucket_refs m) \<subseteq> {..<hp_next (ws_heap w)}"
  shows "ws_core (put_module w i m)"
  using assms by (auto simp: ws_core_def put_module_def split: if_splits)

lemma put_heap_core:
  assumes "ws_core w" "heap_ok h" "hp_next (ws_heap w) \<le> hp_next h"
  shows "ws_core (w\<lparr>ws_heap := h\<rparr>)"
  using assms unfolding ws_core_def by (fastforce simp: subset_iff)

lemma commit_change_inv:
  assumes "ws_inv w" "commit_change w r = Inr (b, w')" "\<And>x h. r = Inr (x, h) \<Longrightarrow> heap_ok h \<and> hp_next h = hp_next (ws_heap w)"
  shows "ws_inv w'"
proof -
  from assms(2) obtain h where h: "r = Inr (b, h)"
    "w' = (if b then invalidate_analysis_caches (w\<lparr>ws_heap := h\<rparr>) else w\<lparr>ws_heap := h\<rparr>)"
    by (auto simp: commit_change_def map_ok_Inr)
  have core: "ws_core (w\<lparr>ws_heap := h\<rparr>)"
    using assms(1) assms(3) [OF h(1)] by (intro put_heap_core) (simp_all add: ws_inv_def)
  moreover have "ws_cache_ok (w\<lparr>ws_heap := h\<rparr>)"
    using assms(1) by (simp add: ws_inv_def ws_cache_ok_def scope_present_def scope_spec_def)
  ultimately show ?thesis by (simp add: h(2)) (simp add: ws_inv_def)
qed

lemma root_bucket_ref: "root_bucket m root \<in> set (all_overlay_bucket_refs m)"
  by (auto simp: root_bucket_def all_overlay_bucket_refs_def dest: map_of_SomeD split: option.splits intro!: rev_image_eqI)


subsection \<open>Every operation keeps the invariant\<close>

lemma update_bucket_inv:
  "bucket_inv s \<Longrightarrow> bucket_update_source_with_declarations L s origin cs ds = Inr (y, s') \<Longrightarrow> bucket_inv s'"
  using update_source_ok [of s L origin cs ds] by auto

lemma remove_bucket_inv:
  "bucket_inv s \<Longrightarrow> Inr (bucket_remove_by_origin L s origin) = (Inr (y, s') :: rust_panic + _) \<Longrightarrow> bucket_inv s'"
  using remove_by_origin_ok [of s] by (metis Inr_inject snd_conv)

text \<open>Changing one bucket of a module.\<close>

lemma change_bucket_inv:
  assumes "ws_inv w" "ensure_module L w i name = (m, w1)" "b \<in> set (all_overlay_bucket_refs m)"
    and "commit_change w1 (heap_update (ws_heap w1) b f) = Inr (x, w')"
    and f: "\<And>s y s'. bucket_inv s \<Longrightarrow> f s = Inr (y, s') \<Longrightarrow> bucket_inv s'"
  shows "ws_inv w'"
proof (rule commit_change_inv [OF ensure_module_inv [OF assms(1,2)] assms(4)])
  fix y h assume h: "heap_update (ws_heap w1) b f = Inr (y, h)"
  note core = ensure_module_core [OF _ assms(2)]
  have "heap_ok (ws_heap w1)" "b < hp_next (ws_heap w1)"
    using core assms(1,3) by (auto simp: ws_inv_def ws_core_def)
  then show "heap_ok h \<and> hp_next h = hp_next (ws_heap w1)" using heap_update_ok [OF _ h] f by blast
qed

lemma source_ref: "mi_source m \<in> set (all_overlay_bucket_refs m)"
  by (simp add: all_overlay_bucket_refs_def)

lemma update_source_inv:
  assumes "ws_inv w" "update_source_with_declarations L w scope origin cs ds = Inr (b, w')"
  shows "ws_inv w'"
  using assms(2) change_bucket_inv [OF assms(1) _ source_ref _ update_bucket_inv]
  by (fastforce simp: update_source_with_declarations_def split: prod.splits)

lemma remove_source_inv:
  assumes "ws_inv w" "remove_source_origin L w scope origin = Inr (b, w')"
  shows "ws_inv w'"
  using assms(2) change_bucket_inv [OF assms(1) _ source_ref _ remove_bucket_inv]
  by (fastforce simp: remove_source_origin_def split: prod.splits)

lemma update_in_context_inv:
  assumes "ws_inv w" "update_source_in_context_with_declarations L w i root origin cs ds = Inr (b, w')"
  shows "ws_inv w'"
  using assms(2) change_bucket_inv [OF assms(1) _ root_bucket_ref _ update_bucket_inv]
  by (fastforce simp: update_source_in_context_with_declarations_def
        update_source_in_root_with_declarations_def split: prod.splits)

lemma remove_in_context_inv:
  assumes "ws_inv w" "remove_source_origin_in_context L w i root origin = Inr (b, w')"
  shows "ws_inv w'"
  using assms(2) change_bucket_inv [OF assms(1) _ root_bucket_ref _ remove_bucket_inv]
  by (fastforce simp: remove_source_origin_in_context_def remove_source_origin_in_root_def
        split: prod.splits)

lemma new_bucket_core:
  assumes "ws_core w" "bucket_inv s" "heap_new (ws_heap w) s = (b, h)"
  shows "ws_core (w\<lparr>ws_heap := h\<rparr>)" "b < hp_next h"
proof -
  have "heap_ok (ws_heap w)" using assms(1) by (simp add: ws_core_def)
  note h = heap_new_ok [OF this assms(2,3)]
  show "ws_core (w\<lparr>ws_heap := h\<rparr>)" using assms(1) h(1,3) by (rule put_heap_core)
  show "b < hp_next h" by (rule h(2))
qed

lemma archive_bucket_inv:
  "bucket_add_archive_classes L (bucket_new L) cs = Inr s \<Longrightarrow> bucket_inv s"
  using add_archive_classes_ok(1) [OF bucket_new_inv] .

lemma set_jdk_overlay_inv:
  assumes "ws_inv w" "bucket_inv s"
  shows "ws_inv (set_jdk_overlay w s)"
proof -
  obtain b h where h: "heap_new (ws_heap w) s = (b, h)" by fastforce
  have "ws_core (w\<lparr>ws_heap := h\<rparr>)" "b < hp_next h"
    using new_bucket_core [OF _ assms(2) h] assms(1) by (simp_all add: ws_inv_def)
  then have "ws_core (w\<lparr>ws_heap := h, ws_jdk := \<lparr>jd_overlay = Some b, jd_artifact_id = None\<rparr>\<rparr>)"
    by (simp add: ws_core_def)
  from ws_core_no_readers [OF this] show ?thesis by (simp add: set_jdk_overlay_def h)
qed

lemma add_jdk_inv:
  assumes "ws_inv w"
  shows "add_jdk_classes L w cs = Inr w' \<Longrightarrow> ws_inv w'" "add_jdk_archive L w data = Inr w' \<Longrightarrow> ws_inv w'"
    "ws_inv (set_jdk_artifact w i)"
proof -
  show "add_jdk_classes L w cs = Inr w' \<Longrightarrow> ws_inv w'"
    by (auto simp: add_jdk_classes_def map_ok_Inr set_jdk_overlay_inv [OF assms] archive_bucket_inv)
  show "add_jdk_archive L w data = Inr w' \<Longrightarrow> ws_inv w'"
    by (auto simp: add_jdk_archive_def map_ok_Inr set_jdk_overlay_inv [OF assms] archive_bucket_inv)
  have "ws_core (w\<lparr>ws_jdk := \<lparr>jd_overlay = None, jd_artifact_id = Some i\<rparr>\<rparr>)"
    using assms by (simp add: ws_inv_def ws_core_def)
  from ws_core_no_readers [OF this] show "ws_inv (set_jdk_artifact w i)" by (simp add: set_jdk_artifact_def)
qed

lemma overlay_entries_simps [simp]:
  "overlay_entries [] = []"
  "overlay_entries (EntryArtifact i # es) = overlay_entries es"
  "overlay_entries (EntryOverlay b # es) = b # overlay_entries es"
  "overlay_entries (es @ es') = overlay_entries es @ overlay_entries es'"
  by (simp_all add: overlay_entries_def map_filter_simps List.map_filter_def)

lemma set_classpath_refs:
  "set (all_overlay_bucket_refs (set_classpath m cp jars es))
     \<subseteq> set (all_overlay_bucket_refs m) \<union> set (overlay_entries es)"
  using set_hinsert [of cp "\<lparr>ci_jars = jars, ci_entries = es\<rparr>" "mi_classpaths m"]
  by (fastforce simp: all_overlay_bucket_refs_def set_classpath_def)

lemma add_classpath_bucket_refs:
  "set (all_overlay_bucket_refs (add_classpath_bucket m cp b)) \<subseteq> insert b (set (all_overlay_bucket_refs m))"
proof -
  define ci where "ci = (case hget (mi_classpaths m) cp of
      None \<Rightarrow> \<lparr>ci_jars = [], ci_entries = []\<rparr> | Some ci \<Rightarrow> ci)"
  have "set (overlay_entries (ci_entries ci)) \<subseteq> set (all_overlay_bucket_refs m)"
    by (auto simp: ci_def all_overlay_bucket_refs_def split: option.splits dest!: map_of_SomeD)
  moreover have "add_classpath_bucket m cp b = set_classpath m cp (ci_jars ci) (ci_entries ci @ [EntryOverlay b])"
    unfolding add_classpath_bucket_def set_classpath_def ci_def [symmetric] Let_def by (cases ci) simp
  ultimately show ?thesis
    using set_classpath_refs [of m cp "ci_jars ci" "ci_entries ci @ [EntryOverlay b]"] by auto
qed

lemma add_jar_classes_inv:
  assumes "ws_inv w" "add_jar_classes L w scope cs = Inr w'"
  shows "ws_inv w'"
proof -
  obtain m w1 where m: "module_at L w (is_module scope) = (m, w1)" by fastforce
  note core = ensure_module_core [OF _ m]
  from assms(2) m obtain s where s: "bucket_add_archive_classes L (bucket_new L) cs = Inr s"
    by (auto simp: add_jar_classes_def map_ok_Inr)
  obtain b h where h: "heap_new (ws_heap w1) s = (b, h)" by fastforce
  note b = new_bucket_core [OF _ archive_bucket_inv [OF s] h]
  have "hp_next (ws_heap w1) \<le> hp_next h" using h by (auto simp: heap_new_def)
  then have "set (all_overlay_bucket_refs (add_classpath_bucket m Main b)) \<subseteq> {..<hp_next h}"
    using add_classpath_bucket_refs [of m Main b] core(2) b(2) core(1) assms(1) by (force simp: ws_inv_def)
  then have "ws_core (put_module (w1\<lparr>ws_heap := h\<rparr>) (is_module scope) (add_classpath_bucket m Main b))"
    using b(1) core(1) assms(1) by (intro put_module_core) (simp_all add: ws_inv_def)
  with assms(2) m s h show ?thesis by (auto simp: add_jar_classes_def)
qed


text \<open>Indexing jars changes only the heap and the jar cache.\<close>

definition entry_ok :: "'c workspace_index \<Rightarrow> classpath_entry \<Rightarrow> bool" where
  "entry_ok w e \<longleftrightarrow> set (overlay_entries [e]) \<subseteq> {..<hp_next (ws_heap w)}"

lemma entries_ok_refs:
  "list_all (entry_ok w) es \<Longrightarrow> set (overlay_entries es) \<subseteq> {..<hp_next (ws_heap w)}"
proof (induction es)
  case (Cons e es)
  then show ?case by (cases e) (simp_all add: entry_ok_def)
qed simp

lemma cache_jar_ok:
  assumes "ws_core w" "entry_ok w e" "cache_jar w path e = (e', w')"
  shows "ws_core w'" "entry_ok w' e'" "hp_next (ws_heap w') = hp_next (ws_heap w)"
  using assms by (cases e; auto simp: cache_jar_def entry_ok_def ws_core_def split: if_splits)+

lemma cache_jar_bucket_ok:
  assumes "ws_core w" "bucket_inv s" "cache_jar_bucket w path s = (e', w')"
  shows "ws_core w'" "entry_ok w' e'" "hp_next (ws_heap w) \<le> hp_next (ws_heap w')"
proof -
  obtain b h where h: "heap_new (ws_heap w) s = (b, h)" by fastforce
  note core = new_bucket_core [OF assms(1,2) h]
  have e: "entry_ok (w\<lparr>ws_heap := h\<rparr>) (EntryOverlay b)" using core(2) by (simp add: entry_ok_def)
  have c: "cache_jar (w\<lparr>ws_heap := h\<rparr>) path (EntryOverlay b) = (e', w')"
    using assms(3) h by (simp add: cache_jar_bucket_def)
  show "ws_core w'" "entry_ok w' e'" using cache_jar_ok [OF core(1) e c] by simp_all
  show "hp_next (ws_heap w) \<le> hp_next (ws_heap w')"
    using cache_jar_ok(3) [OF core(1) e c] h by (auto simp: heap_new_def)
qed

lemma get_or_index_jar_ok:
  assumes "ws_core w" "get_or_index_jar L D w path = Inr (e, w')"
  shows "ws_core w' \<and> entry_ok w' e \<and> hp_next (ws_heap w) \<le> hp_next (ws_heap w')"
proof -
  have art: "entry_ok w (EntryArtifact i)" for i by (simp add: entry_ok_def)
  have data: "bucket_from_archive_data L data = Inr s \<Longrightarrow> bucket_inv s" for data s
    by (auto simp: bucket_from_archive_data_def map_ok_Inr archive_bucket_inv)
  note jar = cache_jar_ok [OF assms(1) art] and bk = cache_jar_bucket_ok [OF assms(1)]
  show ?thesis
  proof (cases "hget (ws_jar_cache w) path")
    case (Some existing)
    with assms show ?thesis by (cases existing) (auto simp: get_or_index_jar_def ws_core_def entry_ok_def)
  next
    case None
    with assms(2) consider i where "cache_jar w path (EntryArtifact i) = (e, w')"
      | s where "bucket_inv s" "cache_jar_bucket w path s = (e, w')"
      using bucket_new_inv [of L] data
      by (fastforce simp: get_or_index_jar_def map_ok_Inr split: option.splits)
    then show ?thesis using jar bk by cases (auto intro: eq_refl)
  qed
qed

lemma entry_ok_mono: "entry_ok w e \<Longrightarrow> hp_next (ws_heap w) \<le> hp_next (ws_heap w') \<Longrightarrow> entry_ok w' e"
  by (force simp: entry_ok_def)

lemma index_jars_ok:
  assumes "ws_core w" "index_jars L D w paths = Inr (es, w')"
  shows "ws_core w' \<and> list_all (entry_ok w') es \<and> hp_next (ws_heap w) \<le> hp_next (ws_heap w')"
  using assms
proof (induction paths arbitrary: w es)
  case (Cons path paths)
  then obtain e w1 es' where s: "get_or_index_jar L D w path = Inr (e, w1)"
    "index_jars L D w1 paths = Inr (es', w')" "es = e # es'"
    by (auto simp: and_then_Inr map_ok_Inr split: prod.splits)
  from get_or_index_jar_ok [OF Cons.prems(1) s(1)] have 1: "ws_core w1" "entry_ok w1 e"
    "hp_next (ws_heap w) \<le> hp_next (ws_heap w1)" by simp_all
  from Cons.IH [OF 1(1) s(2)] 1 s(3) entry_ok_mono [of w1 e w'] show ?case by auto
qed auto

lemma set_module_classpath_inv:
  assumes "ws_inv w" "set_module_classpath L D w i cp jars = Inr w'"
  shows "ws_inv w'"
proof -
  from assms(2) obtain es w1 where j: "index_jars L D w jars = Inr (es, w1)"
    by (auto simp: set_module_classpath_def map_ok_Inr)
  from index_jars_ok [OF _ j] assms(1) have 1: "ws_core w1" "list_all (entry_ok w1) es"
    by (simp_all add: ws_inv_def)
  obtain m w2 where m: "module_at L w1 i = (m, w2)" by fastforce
  note core = ensure_module_core [OF 1(1) m]
  have "hp_next (ws_heap w1) \<le> hp_next (ws_heap w2)"
    using ensure_module_ok(1) [OF m] by (simp add: extends_def)
  with entries_ok_refs [OF 1(2)] have "set (overlay_entries es) \<subseteq> {..<hp_next (ws_heap w2)}" by auto
  with set_classpath_refs [of m cp jars es] core(2)
  have "set (all_overlay_bucket_refs (set_classpath m cp jars es)) \<subseteq> {..<hp_next (ws_heap w2)}" by blast
  with core(1) have "ws_core (put_module w2 i (set_classpath m cp jars es))" by (rule put_module_core)
  from ws_core_no_readers [OF this] assms(2) j m show ?thesis
    by (auto simp: set_module_classpath_def)
qed

lemma set_module_dependencies_inv: "ws_inv w \<Longrightarrow> ws_inv (set_module_dependencies w i deps)"
  by (simp add: set_module_dependencies_def) (simp add: ws_inv_def ws_core_def)

lemma set_active_inv:
  assumes "ws_inv w"
  shows "ws_inv (set_module_active_classpath L w i cp)"
proof -
  obtain m w1 where m: "module_at L w i = (m, w1)" by fastforce
  from ensure_module_core [OF _ m] assms
  have "ws_core (put_module w1 i (set_active_classpath m cp))"
    by (intro put_module_core) (simp_all add: ws_inv_def set_active_classpath_def all_overlay_bucket_refs_def)
  with m show ?thesis by (simp add: set_module_active_classpath_def)
qed

lemma set_source_roots_ok:
  assumes "heap_ok h" "set (all_overlay_bucket_refs m) \<subseteq> {..<hp_next h}" "set_source_roots L h m roots = (m', h')"
  shows "heap_ok h'" "set (all_overlay_bucket_refs m') \<subseteq> {..<hp_next h'}" "hp_next h \<le> hp_next h'"
proof -
  let ?step = "\<lambda>(i, cp) (rs, h). case heap_new h (bucket_new L) of (b, h') \<Rightarrow>
                   (hinsert i \<lparr>sr_classpath = cp, sr_bucket = b\<rparr> rs, h')"
  have fold_ok: "heap_ok h2 \<and> hp_next h1 \<le> hp_next h2 \<and> (\<forall>(i, root)\<in>set rs2. sr_bucket root < hp_next h2)"
    if "heap_ok h1" "\<forall>(i, root)\<in>set rs1. sr_bucket root < hp_next h1"
      "fold ?step roots (rs1, h1) = (rs2, h2)" for rs1 rs2 h1 h2
    using that
  proof (induction roots arbitrary: rs1 h1)
    case (Cons r roots)
    obtain i cp where r: "r = (i, cp)" by (cases r)
    obtain b h3 where b: "heap_new h1 (bucket_new L) = (b, h3)" by fastforce
    note h3 = heap_new_ok [OF Cons.prems(1) bucket_new_inv b]
    have "\<forall>(i, root)\<in>set (hinsert i \<lparr>sr_classpath = cp, sr_bucket = b\<rparr> rs1). sr_bucket root < hp_next h3"
      using set_hinsert [of i "\<lparr>sr_classpath = cp, sr_bucket = b\<rparr>" rs1] Cons.prems(2) h3(2,3) by fastforce
    from Cons.IH [OF h3(1) this] Cons.prems(3) h3(3) show ?case by (auto simp: r b)
  qed auto
  obtain rs where rs: "fold ?step roots ([], h) = (rs, h')" "m' = m\<lparr>mi_source_roots := rs\<rparr>"
    using assms(3) by (auto simp: set_source_roots_def split: prod.splits)
  from fold_ok [OF assms(1) _ rs(1)] have h': "heap_ok h'" "hp_next h \<le> hp_next h'"
    "\<forall>(i, root)\<in>set rs. sr_bucket root < hp_next h'" by simp_all
  then show "heap_ok h'" "hp_next h \<le> hp_next h'" by simp_all
  show "set (all_overlay_bucket_refs m') \<subseteq> {..<hp_next h'}"
    using assms(2) h'(2,3) by (fastforce simp: rs(2) all_overlay_bucket_refs_def)
qed

lemma register_roots_inv:
  assumes "ws_inv w"
  shows "ws_inv (register_module_source_roots L w i roots)"
proof -
  obtain m w1 where m: "module_at L w i = (m, w1)" by fastforce
  note core = ensure_module_core [OF _ m]
  obtain m' h where h: "set_source_roots L (ws_heap w1) m roots = (m', h)" by fastforce
  have "heap_ok (ws_heap w1)" using core(1) assms by (simp add: ws_inv_def ws_core_def)
  from set_source_roots_ok [OF this _ h] core assms have ok: "heap_ok h"
    "set (all_overlay_bucket_refs m') \<subseteq> {..<hp_next h}" "hp_next (ws_heap w1) \<le> hp_next h"
    by (simp_all add: ws_inv_def)
  have "ws_core (w1\<lparr>ws_heap := h\<rparr>)"
    using core(1) ok assms by (intro put_heap_core) (simp_all add: ws_inv_def)
  from put_module_core [OF this] ok(2) show ?thesis by (simp add: register_module_source_roots_def m h)
qed

lemma build_scope_core:
  assumes "ws_core w" "build_scope_snapshot L w key = (snapshot, w')"
  shows "ws_core w'"
proof -
  obtain i cp root where key: "key = (i, cp, root)" by (cases key)
  obtain m w1 where m: "module_at L w i = (m, w1)" by fastforce
  note e = ensure_module_ok [OF m]
  have again: "module_at L w1 i = (m, w1)" using e(2) by (rule ensure_module_present)
  have fold_core: "ws_core (snd (fold (\<lambda>dep (ls, w). case module_at L w dep of (dm, w') \<Rightarrow>
      (ls @ module_layers dm Main None, w')) ds (ls, w)))" if "ws_core w" for ds ls and w :: "'a workspace_index"
    using that
  proof (induction ds arbitrary: ls w)
    case (Cons d ds)
    obtain dm w2 where dm: "module_at L w d = (dm, w2)" by fastforce
    from Cons.IH [OF ensure_module_core(1) [OF Cons.prems dm]] show ?case by (simp add: dm)
  qed simp
  obtain ls w2 where w2: "fold (\<lambda>dep (ls, w). case module_at L w dep of (dm, w') \<Rightarrow>
      (ls @ module_layers dm Main None, w')) (scope_modules (ws_graph w1) i) (module_layers m cp root, w1)
    = (ls, w2)" by fastforce
  then have "w' = w2"
    using assms(2) by (simp add: build_scope_snapshot_def build_scope_layers_def key m again bfs_eq_fold
        scope_modules_def)
  then show ?thesis
    using fold_core [OF ensure_module_core(1) [OF assms(1) m], of "scope_modules (ws_graph w1) i"
        "module_layers m cp root"] w2 by simp
qed

lemma scope_query_inv:
  assumes "ws_inv w" "scope_for_analysis_context L w key = (snapshot, w')"
  shows "ws_inv w'" "scope_present w' key" "snapshot = scope_spec w' key"
proof -
  obtain sn w1 where b: "build_scope_snapshot L w key = (sn, w1)" by fastforce
  note ok = build_scope_ok [OF b]
  have v: "ws_version w1 = ws_version w" "ws_scope_cache w1 = ws_scope_cache w"
    using ok(1) by (simp_all add: extends_def)
  define w2 where "w2 = w1\<lparr>ws_scope_cache := hinsert key (ws_version w, sn) (ws_scope_cache w1)\<rparr>"
  have frame: "scope_present w2 k = scope_present w1 k" "scope_spec w2 k = scope_spec w1 k" for k
    by (simp_all add: w2_def scope_present_def scope_spec_def split: prod.split)
  have core: "ws_core w2"
    using build_scope_core [OF _ b] assms(1) by (simp add: ws_inv_def ws_core_def w2_def)
  have cache: "ws_cache_ok w2"
    using assms(1) scope_spec_extends [OF ok(1)] ok(2,3) v
    unfolding ws_inv_def ws_cache_ok_def frame
    by (auto simp: w2_def split: if_splits)
  have hit: "ws_inv w' \<and> scope_present w' key \<and> snapshot = scope_spec w' key"
    if "hget (ws_scope_cache w) key = Some (tag, sn')" "tag = ws_version w" for tag sn'
  proof -
    from assms(2) that have "snapshot = sn'" "w' = w" by (simp_all add: scope_for_analysis_context_def Let_def)
    with assms(1) that show ?thesis unfolding ws_inv_def ws_cache_ok_def by blast
  qed
  have miss: "ws_inv w' \<and> scope_present w' key \<and> snapshot = scope_spec w' key"
    if "(snapshot, w') = (sn, w2)"
    using that core cache ok(2,3) frame by (simp add: ws_inv_def)
  have "ws_inv w' \<and> scope_present w' key \<and> snapshot = scope_spec w' key"
  proof (cases "hget (ws_scope_cache w) key")
    case None
    with assms(2) b v show ?thesis by (intro miss) (auto simp: scope_for_analysis_context_def Let_def w2_def)
  next
    case (Some ts)
    obtain tag sn' where ts: "ts = (tag, sn')" by (cases ts)
    show ?thesis
    proof (cases "tag = ws_version w")
      case False
      with assms(2) b v Some ts show ?thesis
        by (intro miss) (auto simp: scope_for_analysis_context_def Let_def w2_def)
    qed (use hit Some ts in blast)
  qed
  then show "ws_inv w'" "scope_present w' key" "snapshot = scope_spec w' key" by blast+
qed


lemma reader_cache_get_ok:
  assumes "disk_ok D" "readers_ok rs" "reader_cache_get (dk_archive D) rs i = Inr (r, rs')"
  shows "readers_ok rs'" "r = Some r' \<Longrightarrow> reader_inv r' \<and> reader_artifact_id r' = i"
proof -
  have new: "reader_inv x \<and> reader_artifact_id x = i"
    if a: "dk_archive D i = Some a" and x: "from_archive a = Inr x" for a x
  proof -
    from assms(1) a have ok: "archive_ok a" "am_id (aa_metadata a) = i" by (auto simp: disk_ok_def)
    obtain y where "from_archive a = Inr y" "reader_inv y" "rd_metadata y = aa_metadata a"
      by (rule from_archive_ok [OF ok(1)])
    with x ok(2) show ?thesis by (simp add: reader_artifact_id_def)
  qed
  show "readers_ok rs'" "r = Some r' \<Longrightarrow> reader_inv r' \<and> reader_artifact_id r' = i"
    using assms(2,3) new
    by (auto simp: reader_cache_get_def readers_ok_def map_ok_Inr split: option.splits if_splits)
qed

lemma load_reader_inv:
  assumes "ws_inv w" "disk_ok D" "scope_artifact_reader D w i = Inr (r, w')"
  shows "ws_inv w'"
proof -
  from assms(3) obtain rs where rs: "reader_cache_get (dk_archive D) (ws_artifact_readers w) i = Inr (r, rs)"
    "w' = w\<lparr>ws_artifact_readers := rs\<rparr>" by (auto simp: scope_artifact_reader_def map_ok_Inr)
  have "readers_ok rs"
    using reader_cache_get_ok(1) [OF assms(2) _ rs(1)] assms(1) by (simp add: ws_inv_def ws_core_def)
  with assms(1) show ?thesis
    by (simp add: rs(2) ws_inv_def ws_core_def ws_cache_ok_def scope_present_def scope_spec_def)
qed

lemma clear_query_caches_frame [simp]:
  "bucket_inv (bucket_clear_query_caches L s) = bucket_inv s"
  "bucket_get_class (bucket_clear_query_caches L s) = bucket_get_class s"
  by (simp_all add: bucket_clear_query_caches_def)

lemma query_cache_clear_refs [simp]:
  "all_overlay_bucket_refs (query_cache_clear m) = all_overlay_bucket_refs m"
  by (simp add: query_cache_clear_def all_overlay_bucket_refs_def)

lemma clear_caches_inv:
  assumes "ws_inv w"
  shows "ws_inv (clear_analysis_caches L w)"
proof -
  let ?step = "\<lambda>(i, m) (ms, h). case module_clear_query_caches L h m of (m', h') \<Rightarrow> (ms @ [(i, m')], h')"
  have fold_ok: "\<exists>h2. fold ?step ms (acc, h1) = (acc @ map (\<lambda>(i, m). (i, query_cache_clear m)) ms, h2)
      \<and> hp_next h2 = hp_next h1 \<and> heap_ok h2" if "heap_ok h1" for ms acc and h1 :: "'a bucket_heap"
    using that
  proof (induction ms arbitrary: acc h1)
    case (Cons im ms)
    obtain i m where im: "im = (i, m)" by (cases im)
    let ?h = "snd (module_clear_query_caches L h1 m)"
    have "heap_ok ?h" "hp_next ?h = hp_next h1"
      using Cons.prems by (simp_all add: module_clear_query_caches_def heap_ok_def)
    with Cons.IH [of ?h "acc @ [(i, query_cache_clear m)]"] show ?case
      by (auto simp: im module_clear_query_caches_def)
  qed simp
  define h where "h = (case jd_overlay (ws_jdk w) of None \<Rightarrow> ws_heap w
      | Some b \<Rightarrow> (ws_heap w)\<lparr>hp_buckets := (hp_buckets (ws_heap w))
          (b := bucket_clear_query_caches L (hp_buckets (ws_heap w) b))\<rparr>)"
  have "heap_ok h" "hp_next h = hp_next (ws_heap w)"
    using assms by (auto simp: h_def heap_ok_def ws_inv_def ws_core_def split: option.splits)
  with fold_ok [of h "ws_modules w" "[]"] obtain h2 where
    h2: "fold ?step (ws_modules w) ([], h) = (map (\<lambda>(i, m). (i, query_cache_clear m)) (ws_modules w), h2)"
    "hp_next h2 = hp_next (ws_heap w)" "heap_ok h2" by auto
  have "clear_analysis_caches L w = w\<lparr>ws_scope_cache := [], ws_artifact_readers := [], ws_heap := h2,
      ws_modules := map (\<lambda>(i, m). (i, query_cache_clear m)) (ws_modules w)\<rparr>"
    using h2(1) by (simp add: clear_analysis_caches_def h_def)
  then show ?thesis
    using assms h2(2,3)
    by (fastforce simp: ws_inv_def ws_core_def ws_cache_ok_def map_of_map)
qed

subsection \<open>Reachable states\<close>

inductive ws_step :: "'c lru_ops \<Rightarrow> disk_ops \<Rightarrow> 'c workspace_index \<Rightarrow> 'c workspace_index \<Rightarrow> bool" for L D where
  update: "update_source_with_declarations L w scope origin cs ds = Inr (b, w') \<Longrightarrow> ws_step L D w w'"
| update_context: "update_source_in_context_with_declarations L w i root origin cs ds = Inr (b, w')
    \<Longrightarrow> ws_step L D w w'"
| remove: "remove_source_origin L w scope origin = Inr (b, w') \<Longrightarrow> ws_step L D w w'"
| remove_context: "remove_source_origin_in_context L w i root origin = Inr (b, w') \<Longrightarrow> ws_step L D w w'"
| jdk_classes: "add_jdk_classes L w cs = Inr w' \<Longrightarrow> ws_step L D w w'"
| jdk_archive: "add_jdk_archive L w data = Inr w' \<Longrightarrow> ws_step L D w w'"
| jdk_artifact: "ws_step L D w (set_jdk_artifact w a)"
| jar_classes: "add_jar_classes L w scope cs = Inr w' \<Longrightarrow> ws_step L D w w'"
| classpath: "set_module_classpath L D w i cp jars = Inr w' \<Longrightarrow> ws_step L D w w'"
| dependencies: "ws_step L D w (set_module_dependencies w i deps)"
| source_roots: "ws_step L D w (register_module_source_roots L w i roots)"
| active_classpath: "ws_step L D w (set_module_active_classpath L w i cp)"
| ensure: "ws_step L D w (snd (ensure_module L w i name))"
| query: "ws_step L D w (snd (scope_for_analysis_context L w key))"
| reader: "scope_artifact_reader D w a = Inr (r, w') \<Longrightarrow> ws_step L D w w'"
| clear: "ws_step L D w (clear_analysis_caches L w)"

inductive ws_run :: "'c lru_ops \<Rightarrow> disk_ops \<Rightarrow> 'c workspace_index \<Rightarrow> bool" for L D where
  init: "ws_run L D (workspace_new L)"
| step: "ws_run L D w \<Longrightarrow> ws_step L D w w' \<Longrightarrow> ws_run L D w'"

lemma workspace_new_inv: "ws_inv (workspace_new L)"
  by (auto simp: workspace_new_def module_new_def heap_new_def ws_inv_def ws_core_def ws_cache_ok_def
        heap_ok_def bucket_new_inv all_overlay_bucket_refs_def readers_ok_def less_Suc_eq)

lemmas ws_inv_steps = update_source_inv update_in_context_inv remove_source_inv remove_in_context_inv
  add_jdk_inv add_jar_classes_inv set_module_classpath_inv set_module_dependencies_inv register_roots_inv
  set_active_inv load_reader_inv clear_caches_inv

lemma ws_step_inv:
  assumes "disk_ok D" "ws_step L D w w'" "ws_inv w"
  shows "ws_inv w'"
  using assms(2)
proof cases
  case (ensure i name)
  then show ?thesis using ensure_module_inv [OF assms(3)] by (metis prod.collapse)
next
  case (query key)
  then show ?thesis using scope_query_inv(1) [OF assms(3)] by (metis prod.collapse)
qed (use assms(1,3) in \<open>auto intro: ws_inv_steps\<close>)

lemma ws_run_inv: "ws_run L D w \<Longrightarrow> disk_ok D \<Longrightarrow> ws_inv w"
  by (induction rule: ws_run.induct) (auto intro: workspace_new_inv ws_step_inv)

subsection \<open>Views of the workspace\<close>

lemma visible_layers_refs:
  "set (visible_source_layers m cp root) \<subseteq> set (all_overlay_bucket_refs m)"
proof -
  have push: "set (fst (push_matching m requested acc)) \<subseteq> set (fst acc) \<union> set (all_overlay_bucket_refs m)"
    for requested acc
  proof -
    have "set (fst (fold (\<lambda>(i, root) (ls, seen).
        if i \<in> seen \<or> sr_classpath root \<noteq> requested then (ls, seen)
        else (ls @ [sr_bucket root], insert i seen)) rs acc)) \<subseteq> set (fst acc) \<union> sr_bucket ` snd ` set rs" for rs
    proof (induction rs arbitrary: acc)
      case (Cons r rs)
      show ?case
        using Cons.IH by (cases r; cases acc) (fastforce split: if_splits)
    qed simp
    from this [of "mi_source_roots m"] show ?thesis
      by (force simp: push_matching_def all_overlay_bucket_refs_def)
  qed
  define start where "start = (case root of None \<Rightarrow> ([], {}) | Some i \<Rightarrow>
      (case hget (mi_source_roots m) i of None \<Rightarrow> ([], {}) | Some r \<Rightarrow> ([sr_bucket r], {i})))"
  have "set (fst start) \<subseteq> set (all_overlay_bucket_refs m)"
    by (auto simp: start_def all_overlay_bucket_refs_def split: option.splits dest!: map_of_SomeD
          intro!: rev_image_eqI)
  then have "set (fst (case cp of Main \<Rightarrow> push_matching m Main start
        | Test \<Rightarrow> push_matching m Main (push_matching m Test start))) \<subseteq> set (all_overlay_bucket_refs m)"
    using push [of Main start] push [of Main "push_matching m Test start"] push [of Test start]
    by (cases cp) (simp_all, blast+)
  then show ?thesis
    using source_ref [of m] by (simp add: visible_source_layers_def Let_def flip: start_def)
qed


lemma module_layers_refs:
  assumes "Overlay b \<in> set (module_layers m cp root)"
  shows "b \<in> set (all_overlay_bucket_refs m)"
proof -
  consider "b \<in> set (visible_source_layers m cp root)"
    | "EntryOverlay b \<in> set (classpath_entries m cp)"
    using assms by (auto simp: module_layers_def classpath_layers_def split: classpath_entry.splits)
  then show ?thesis
  proof cases
    case 2
    then obtain ci where ci: "hget (mi_classpaths m) cp = Some ci" "EntryOverlay b \<in> set (ci_entries ci)"
      by (cases "hget (mi_classpaths m) cp") (auto simp: classpath_entries_def)
    from ci(2) have "b \<in> set (overlay_entries (ci_entries ci))" by (force simp: overlay_entries_def set_map_filter)
    with map_of_SomeD [OF ci(1)] show ?thesis by (auto simp: all_overlay_bucket_refs_def)
  qed (use visible_layers_refs in blast)
qed

lemma ws_core_refs:
  "ws_core w \<Longrightarrow> hget (ws_modules w) i = Some m \<Longrightarrow> b \<in> set (all_overlay_bucket_refs m)
     \<Longrightarrow> b < hp_next (ws_heap w)"
  unfolding ws_core_def by (meson lessThan_iff subsetD)

lemma scope_spec_layers_ok:
  assumes "ws_core w" "scope_present w key" "Overlay b \<in> set (ss_layers (scope_spec w key))"
  shows "bucket_inv (hp_buckets (ws_heap w) b)"
proof -
  obtain i cp root where key: "key = (i, cp, root)" by (cases key)
  have ref: "b < hp_next (ws_heap w)"
    if "hget (ws_modules w) d \<noteq> None" "Overlay b \<in> set (module_layers (the (hget (ws_modules w) d)) cp' r)"
    for d cp' r
    using module_layers_refs [OF that(2)] that(1) ws_core_refs [OF assms(1)] by auto
  have present: "hget (ws_modules w) d \<noteq> None" if "d \<in> set (i # scope_modules (ws_graph w) i)" for d
    using assms(2) that by (auto simp: scope_present_def key list_all_iff)
  have "b < hp_next (ws_heap w)"
  proof -
    from assms(3) consider "Overlay b \<in> set (module_layers (the (hget (ws_modules w) i)) cp root)"
      | d where "d \<in> set (scope_modules (ws_graph w) i)"
          "Overlay b \<in> set (module_layers (the (hget (ws_modules w) d)) Main None)"
      | "Overlay b \<in> set (jdk_layer (ws_jdk w))"
      by (auto simp: scope_spec_def scope_new_def key)
    then show ?thesis
    proof cases
      case 1
      with present [of i] show ?thesis by (intro ref) simp_all
    next
      case 2
      with present show ?thesis by (intro ref) simp_all
    next
      case 3
      then have "jd_overlay (ws_jdk w) = Some b" by (auto simp: jdk_layer_def split: option.splits)
      with assms(1) show ?thesis by (simp add: ws_core_def)
    qed
  qed
  with assms(1) show ?thesis by (simp add: ws_core_def heap_ok_def)
qed

lemma view_of_workspace_ok:
  assumes "ws_inv w" "disk_ok D" "view_for_analysis_context L D w key = (v, w')"
  shows "view_ok v" "ws_inv w'" "iv_scope v = scope_spec w' key" "scope_present w' key"
    "iv_world v = workspace_world D w'"
proof -
  from assms(3) obtain sn where sn: "scope_for_analysis_context L w key = (sn, w')"
    "v = \<lparr>iv_world = workspace_world D w', iv_scope = sn\<rparr>"
    by (auto simp: view_for_analysis_context_def split: prod.splits)
  note q = scope_query_inv [OF assms(1) sn(1)]
  have core: "ws_core w'" using q(1) by (simp add: ws_inv_def)
  have readers: "reader_inv r \<and> reader_artifact_id r = i" if "artifact_reader v i = Some r" for i r
    using that reader_cache_get_ok(2) [OF assms(2), of "ws_artifact_readers w'" i] core
    by (auto simp: sn(2) workspace_world_def ws_core_def split: sum.splits)
  have "layer_ok v l" if "l \<in> set (layers v)" for l
  proof (cases l)
    case (Overlay b)
    with that scope_spec_layers_ok [OF core q(2)] show ?thesis
      by (simp add: layer_ok_def sn(2) workspace_world_def layers_def q(3))
  qed (auto simp: layer_ok_def readers split: option.split)
  then show "view_ok v" by (simp add: view_ok_def list_all_iff)
  show "ws_inv w'" "iv_scope v = scope_spec w' key" "scope_present w' key"
    "iv_world v = workspace_world D w'" using q by (simp_all add: sn(2))
qed


subsection \<open>Properties\<close>

text \<open>
  C1. Scopes are current and complete: whatever operations ran before, the scope that the
  workspace returns for an analysis context, from its cache or newly built, consists of the
  module's own visible source buckets and classpath, then the layers of every module reachable over
  declared dependencies, then the JDK, all as they are now. Cyclic dependencies end, and no module
  contributes twice.
\<close>

theorem scope_is_current:
  assumes "disk_ok D" "ws_run L D w" "scope_for_analysis_context L w (i, cp, root) = (snapshot, w')"
  shows "ws_run L D w'
    \<and> (\<exists>ds. distinct ds \<and> set ds = {d. d \<noteq> i \<and> (i, d) \<in> (dep_rel (ws_graph w))\<^sup>*}
        \<and> list_all (\<lambda>d. hget (ws_modules w') d \<noteq> None) (i # ds)
        \<and> ss_layers snapshot = module_layers (the (hget (ws_modules w') i)) cp root
            @ concat (map (\<lambda>d. module_layers (the (hget (ws_modules w') d)) Main None) ds)
            @ jdk_layer (ws_jdk w))
    \<and> ss_jar_paths snapshot = classpath_jars (the (hget (ws_modules w') i)) cp"
proof -
  have "ws_step L D w w'" using ws_step.query [of L D w "(i, cp, root)"] assms(3) by simp
  with assms(2) have run: "ws_run L D w'" by (rule ws_run.step)
  note q = scope_query_inv [OF ws_run_inv [OF assms(2,1)] assms(3)]
  obtain sn w1 where b: "build_scope_snapshot L w (i, cp, root) = (sn, w1)" by fastforce
  have same: "ws_graph w' = ws_graph w" "ws_jdk w' = ws_jdk w"
    using assms(3) b build_scope_ok(1) [OF b]
    by (auto simp: scope_for_analysis_context_def extends_def Let_def split: option.splits if_splits)
  have "distinct (scope_modules (ws_graph w) i)" unfolding scope_modules_def by (rule visits_distinct)
  with run q(2,3) same scope_modules_set [of "ws_graph w" i] show ?thesis
    by (auto simp: scope_spec_def scope_new_def scope_present_def intro!: exI [of _ "scope_modules (ws_graph w) i"])
qed


text \<open>A store without artifacts, for the examples.\<close>

definition no_disk :: disk_ops where
  "no_disk = \<lparr>dk_load_cached = (\<lambda>_. None), dk_index_jar = (\<lambda>_. None), dk_save_cached = (\<lambda>_ _. None),
     dk_archive = (\<lambda>_. None)\<rparr>"

lemma no_disk_ok: "disk_ok no_disk"
  by (simp add: disk_ok_def no_disk_def)


theorem scope_is_current_witness:
  "\<exists>sn w'. scope_for_analysis_context map_cache
      (set_module_dependencies (set_module_dependencies (workspace_new map_cache) 0 [1]) 1 [0, 1]) (0, Main, None)
        = (sn, w')
     \<and> ss_layers sn = module_layers (the (hget (ws_modules w') 0)) Main None
        @ module_layers (the (hget (ws_modules w') 1)) Main None"
proof -
  let ?w = "set_module_dependencies (set_module_dependencies (workspace_new map_cache) 0 [1]) 1 [0, 1 :: module_id]"
  have run: "ws_run map_cache no_disk ?w" by (intro ws_run.step [OF _ ws_step.dependencies] ws_run.init)
  obtain sn w' where q: "scope_for_analysis_context map_cache ?w (0, Main, None) = (sn, w')" by fastforce
  have w: "deps_of (ws_graph ?w) 0 = [1]" "deps_of (ws_graph ?w) 1 = [0, 1]" "jdk_layer (ws_jdk ?w) = []"
    by (simp_all add: set_module_dependencies_def invalidate_analysis_caches_def increment_version_def
          workspace_new_def module_new_def heap_new_def graph_new_def set_deps_def deps_of_def jdk_layer_def)
  have "d \<in> {0, 1}" if "(0, d) \<in> (dep_rel (ws_graph ?w))\<^sup>*" for d
    using that by induction (use w in auto)
  moreover have "(0, 1) \<in> (dep_rel (ws_graph ?w))\<^sup>*" using w(1) by (intro r_into_rtrancl) simp
  ultimately have "{d. d \<noteq> 0 \<and> (0, d) \<in> (dep_rel (ws_graph ?w))\<^sup>*} = {1}" by auto
  with scope_is_current [OF no_disk_ok run q] obtain ds where
    ds: "distinct ds" "set ds = {1}" "ss_layers sn = module_layers (the (hget (ws_modules w') 0)) Main None
      @ concat (map (\<lambda>d. module_layers (the (hget (ws_modules w') d)) Main None) ds) @ jdk_layer (ws_jdk ?w)"
    by auto
  then have "ds = [1]" by (cases ds) (auto simp: subset_singleton_iff)
  with ds(3) q w(3) show ?thesis by simp
qed



end
