(* ===== verification/Scope_Cache.thy ===== *)
theory Scope_Cache
  imports Workspace_Laws
begin

text \<open>
  The scope cache under concurrent use (\<open>scope_for_analysis_context\<close> and the invalidations of
  \<open>index/workspace_index.rs\<close>), as interleavings of the separate accesses of its methods.

  \<^item> A writer changes the topology (modules, graph, JDK), then clears the cache, then increments the
    version; a reader reads the version, looks in the cache, builds a scope if there is none under
    that version, reads the version again, and stores the scope in a last step. Any number of
    writers and readers run at once, and building may overlap with writers: if a write fell into
    it, its result is arbitrary.
  \<^item> Building creates absent modules, which is no write: it does not change any complete scope.
  \<^item> The counter is a \<open>u64\<close>. The machine counts increments as a natural number and the code sees it
    modulo \<open>2 ^ 64\<close>; the theorem is about runs of fewer than \<open>2 ^ 64\<close> increments.
\<close>

subsection \<open>The interface to the topology\<close>

locale scope_topology =
  fixes build :: "'t \<Rightarrow> 'key \<Rightarrow> 'scope"
    and complete :: "'t \<Rightarrow> 'key \<Rightarrow> bool"
    and grow :: "'t \<Rightarrow> 't \<Rightarrow> bool"
  assumes grow_complete: "grow t t' \<Longrightarrow> complete t key \<Longrightarrow> complete t' key"
    and grow_build: "grow t t' \<Longrightarrow> complete t key \<Longrightarrow> build t' key = build t key"
begin

lemma grow_scope:
  "grow t t' \<Longrightarrow> complete t key \<and> sn = build t key \<Longrightarrow> complete t' key \<and> sn = build t' key"
  by (simp add: grow_complete grow_build)

end

subsection \<open>The machine\<close>

datatype writer_phase = WriterIdle | Written | Cleared

datatype ('key, 'scope) reader_phase =
    ReaderIdle
  | Started 'key "64 word" nat
  | Built 'key "64 word" 'scope
  | Checked 'key "64 word" 'scope
  | Answered 'key 'scope

record ('t, 'key, 'scope) scope_machine =
  sx_topology :: 't
  sx_increments :: nat
  sx_cache :: "'key \<rightharpoonup> 64 word \<times> 'scope"
  sx_writes :: nat
  sx_writers :: "nat \<Rightarrow> writer_phase"
  sx_readers :: "nat \<Rightarrow> ('key, 'scope) reader_phase"

abbreviation machine_version :: "('t, 'key, 'scope) scope_machine \<Rightarrow> 64 word" where
  "machine_version s \<equiv> word_of_nat (sx_increments s)"

definition set_writer ::
  "('t, 'key, 'scope) scope_machine \<Rightarrow> nat \<Rightarrow> writer_phase \<Rightarrow> ('t, 'key, 'scope) scope_machine" where
  "set_writer s p ph = s\<lparr>sx_writers := (sx_writers s)(p := ph)\<rparr>"

definition set_reader ::
  "('t, 'key, 'scope) scope_machine \<Rightarrow> nat \<Rightarrow> ('key, 'scope) reader_phase
     \<Rightarrow> ('t, 'key, 'scope) scope_machine" where
  "set_reader s p ph = s\<lparr>sx_readers := (sx_readers s)(p := ph)\<rparr>"

inductive scope_step ::
  "('t \<Rightarrow> 'key \<Rightarrow> 'scope) \<Rightarrow> ('t \<Rightarrow> 'key \<Rightarrow> bool) \<Rightarrow> ('t \<Rightarrow> 't \<Rightarrow> bool)
     \<Rightarrow> ('t, 'key, 'scope) scope_machine \<Rightarrow> ('t, 'key, 'scope) scope_machine \<Rightarrow> bool"
  for build complete grow where
  w_write: "sx_writers s p = WriterIdle \<Longrightarrow>
    scope_step build complete grow s
      (set_writer (s\<lparr>sx_topology := t, sx_writes := Suc (sx_writes s)\<rparr>) p Written)"
| w_clear: "sx_writers s p = Written \<Longrightarrow>
    scope_step build complete grow s (set_writer (s\<lparr>sx_cache := Map.empty\<rparr>) p Cleared)"
| w_increment: "sx_writers s p = Cleared \<Longrightarrow>
    scope_step build complete grow s
      (set_writer (s\<lparr>sx_increments := Suc (sx_increments s)\<rparr>) p WriterIdle)"
| w_create: "grow (sx_topology s) t \<Longrightarrow> scope_step build complete grow s (s\<lparr>sx_topology := t\<rparr>)"
| r_start: "sx_readers s p = ReaderIdle \<Longrightarrow>
    scope_step build complete grow s (set_reader s p (Started key (machine_version s) (sx_writes s)))"
| r_hit: "sx_readers s p = Started key v g \<Longrightarrow> sx_cache s key = Some (v, sn) \<Longrightarrow>
    scope_step build complete grow s (set_reader s p (Answered key sn))"
| r_build: "sx_readers s p = Started key v g \<Longrightarrow> grow (sx_topology s) t \<Longrightarrow>
    (sx_writes s = g \<longrightarrow> complete t key \<and> sn = build t key) \<Longrightarrow>
    scope_step build complete grow s (set_reader (s\<lparr>sx_topology := t\<rparr>) p (Built key v sn))"
| r_check: "sx_readers s p = Built key v sn \<Longrightarrow> machine_version s = v \<Longrightarrow>
    scope_step build complete grow s (set_reader s p (Checked key v sn))"
| r_outdated: "sx_readers s p = Built key v sn \<Longrightarrow> machine_version s \<noteq> v \<Longrightarrow>
    scope_step build complete grow s (set_reader s p (Answered key sn))"
| r_store: "sx_readers s p = Checked key v sn \<Longrightarrow>
    scope_step build complete grow s
      (set_reader (s\<lparr>sx_cache := (sx_cache s)(key \<mapsto> (v, sn))\<rparr>) p (Answered key sn))"
| r_leave: "sx_readers s p = Answered key sn \<Longrightarrow>
    scope_step build complete grow s (set_reader s p ReaderIdle)"

definition machine_start :: "'t \<Rightarrow> ('t, 'key, 'scope) scope_machine" where
  "machine_start t =
     \<lparr>sx_topology = t, sx_increments = 0, sx_cache = Map.empty, sx_writes = 0,
      sx_writers = (\<lambda>_. WriterIdle), sx_readers = (\<lambda>_. ReaderIdle)\<rparr>"

inductive scope_run ::
  "('t \<Rightarrow> 'key \<Rightarrow> 'scope) \<Rightarrow> ('t \<Rightarrow> 'key \<Rightarrow> bool) \<Rightarrow> ('t \<Rightarrow> 't \<Rightarrow> bool)
     \<Rightarrow> ('t, 'key, 'scope) scope_machine \<Rightarrow> bool" for build complete grow where
  init: "scope_run build complete grow (machine_start t)"
| step: "scope_run build complete grow s \<Longrightarrow> scope_step build complete grow s s'
    \<Longrightarrow> scope_run build complete grow s'"

inductive_cases scope_stepE: "scope_step build complete grow s s'"

text \<open>No writer is between its write and its increment.\<close>

definition quiet :: "('t, 'key, 'scope) scope_machine \<Rightarrow> bool" where
  "quiet s \<longleftrightarrow> (\<forall>p. sx_writers s p = WriterIdle)"

context scope_topology
begin

text \<open>A scope under the current version is the current scope when no writer is under way.\<close>

definition current :: "('t, 'key, 'scope) scope_machine \<Rightarrow> 'key \<Rightarrow> 64 word \<Rightarrow> 'scope \<Rightarrow> bool" where
  "current s key v sn \<longleftrightarrow> unat v \<le> sx_increments s \<and>
     (v = machine_version s \<and> quiet s \<longrightarrow> complete (sx_topology s) key \<and> sn = build (sx_topology s) key)"

definition reader_ok :: "('t, 'key, 'scope) scope_machine \<Rightarrow> ('key, 'scope) reader_phase \<Rightarrow> bool" where
  "reader_ok s ph \<longleftrightarrow>
     (case ph of
        Started key v g \<Rightarrow> unat v \<le> sx_increments s \<and> (v = machine_version s \<and> quiet s \<longrightarrow> g = sx_writes s)
      | Built key v sn \<Rightarrow> current s key v sn
      | Checked key v sn \<Rightarrow> current s key v sn
      | _ \<Rightarrow> True)"

definition machine_inv :: "('t, 'key, 'scope) scope_machine \<Rightarrow> bool" where
  "machine_inv s \<longleftrightarrow>
     (\<forall>key v sn. sx_cache s key = Some (v, sn) \<longrightarrow> current s key v sn) \<and>
     (\<forall>p. reader_ok s (sx_readers s p))"

lemmas machine_defs = machine_inv_def reader_ok_def current_def quiet_def set_writer_def set_reader_def

lemma start_inv: "machine_inv (machine_start t)"
  by (simp add: machine_defs machine_start_def)

text \<open>While a writer is under way nothing is claimed of scopes under the current version.\<close>

lemma busy_inv:
  assumes "machine_inv s" "\<not> quiet s'" "sx_increments s' = sx_increments s" "sx_readers s' = sx_readers s"
    "sx_cache s' \<subseteq>\<^sub>m sx_cache s"
  shows "machine_inv s'"
proof -
  have "current s' key v sn" if "current s key v sn" for key v sn
    using that assms(2,3) by (simp add: current_def)
  moreover have "reader_ok s' ph" if "reader_ok s ph" for ph
    using that assms(2,3) calculation by (simp add: reader_ok_def split: reader_phase.splits)
  moreover have "sx_cache s key = Some x" if "sx_cache s' key = Some x" for key x
    using that assms(5) by (metis domI map_le_def)
  ultimately show ?thesis using assms(1,4) by (auto simp: machine_inv_def)
qed

text \<open>After an increment no scope carries the current version.\<close>

lemma increment_inv:
  assumes "machine_inv s" "Suc (sx_increments s) < 2 ^ 64"
  shows "machine_inv (set_writer (s\<lparr>sx_increments := Suc (sx_increments s)\<rparr>) p WriterIdle)"
proof -
  let ?s = "set_writer (s\<lparr>sx_increments := Suc (sx_increments s)\<rparr>) p WriterIdle"
  have new: "v \<noteq> machine_version ?s" if "unat v \<le> sx_increments s" for v :: "64 word"
  proof
    assume "v = machine_version ?s"
    then have "unat v = Suc (sx_increments s)" using assms(2) by (simp add: set_writer_def unat_of_nat del: of_nat_Suc)
    with that show False by simp
  qed
  have "current ?s key v sn" if "current s key v sn" for key v sn
    using that new by (auto simp: current_def set_writer_def simp del: of_nat_Suc)
  moreover have "reader_ok ?s ph" if "reader_ok s ph" for ph
    using that new calculation
    by (auto simp: reader_ok_def set_writer_def simp del: of_nat_Suc split: reader_phase.splits)
  ultimately show ?thesis using assms(1) by (simp add: machine_inv_def set_writer_def)
qed

text \<open>Creating modules keeps what is current.\<close>

lemma grow_inv:
  assumes "machine_inv s" "grow (sx_topology s) t"
  shows "machine_inv (s\<lparr>sx_topology := t\<rparr>)"
proof -
  have "current (s\<lparr>sx_topology := t\<rparr>) key v sn" if "current s key v sn" for key v sn
    using that grow_scope [OF assms(2)] by (auto simp: current_def quiet_def)
  moreover have "reader_ok (s\<lparr>sx_topology := t\<rparr>) ph" if "reader_ok s ph" for ph
    using that calculation by (simp add: reader_ok_def quiet_def split: reader_phase.splits)
  ultimately show ?thesis using assms(1) by (simp add: machine_inv_def)
qed

lemma set_reader_inv:
  assumes "machine_inv s" "reader_ok s ph"
  shows "machine_inv (set_reader s p ph)"
proof -
  have "current (set_reader s p ph) = current s" "reader_ok (set_reader s p ph) = reader_ok s"
    by (simp_all add: fun_eq_iff current_def reader_ok_def quiet_def set_reader_def split: reader_phase.splits)
  with assms show ?thesis by (simp add: machine_inv_def) (simp add: set_reader_def)
qed

lemma step_inv:
  assumes "scope_step build complete grow s s'" "machine_inv s" "sx_increments s' < 2 ^ 64"
  shows "machine_inv s'"
  using assms(1)
proof cases
  case (w_write p t)
  then show ?thesis by (intro busy_inv [OF assms(2)]) (auto simp: quiet_def set_writer_def)
next
  case (w_clear p)
  then show ?thesis by (intro busy_inv [OF assms(2)]) (auto simp: quiet_def set_writer_def)
next
  case (w_increment p)
  then show ?thesis using increment_inv [OF assms(2)] assms(3) by (simp add: set_writer_def)
next
  case (w_create t)
  then show ?thesis using grow_inv [OF assms(2)] by simp
next
  case (r_start p key)
  have "unat (machine_version s) \<le> sx_increments s" by (simp add: unat_of_nat)
  with r_start show ?thesis by (auto intro!: set_reader_inv [OF assms(2)] simp: reader_ok_def)
next
  case (r_build p key v g t sn)
  have "reader_ok s (Started key v g)" using assms(2) r_build(2) by (metis machine_inv_def)
  then have "current (s\<lparr>sx_topology := t\<rparr>) key v sn"
    using r_build(4) by (auto simp: reader_ok_def current_def quiet_def)
  then have "reader_ok (s\<lparr>sx_topology := t\<rparr>) (Built key v sn)" by (simp add: reader_ok_def)
  with r_build(1) set_reader_inv [OF grow_inv [OF assms(2) r_build(3)]] show ?thesis by simp
next
  case (r_check p key v sn)
  have "reader_ok s (Built key v sn)" using assms(2) r_check(2) by (metis machine_inv_def)
  then have "reader_ok s (Checked key v sn)" by (simp add: reader_ok_def)
  with r_check(1) set_reader_inv [OF assms(2)] show ?thesis by simp
next
  case (r_store p key v sn)
  have "reader_ok s (Checked key v sn)" using assms(2) r_store(2) by (metis machine_inv_def)
  then have cur: "current s key v sn" by (simp add: reader_ok_def)
  let ?s = "s\<lparr>sx_cache := (sx_cache s)(key \<mapsto> (v, sn))\<rparr>"
  have "current ?s = current s" "reader_ok ?s = reader_ok s"
    by (simp_all add: fun_eq_iff current_def reader_ok_def quiet_def split: reader_phase.splits)
  with assms(2) cur have "machine_inv ?s" by (simp add: machine_inv_def)
  then show ?thesis unfolding r_store(1) by (rule set_reader_inv) (simp add: reader_ok_def)
qed (auto intro!: set_reader_inv [OF assms(2)] simp: reader_ok_def)

lemma increments_mono: "scope_step build complete grow s s' \<Longrightarrow> sx_increments s \<le> sx_increments s'"
  by (erule scope_step.cases) (simp_all add: set_writer_def set_reader_def)

lemma run_inv:
  "scope_run build complete grow s \<Longrightarrow> sx_increments s < 2 ^ 64 \<Longrightarrow> machine_inv s"
proof (induction rule: scope_run.induct)
  case (step s s')
  with increments_mono [OF step(2)] step_inv [OF step(2)] show ?case by simp
qed (rule start_inv)

text \<open>A cache entry under the current version is the current scope.\<close>

lemma cached_current:
  assumes "scope_run build complete grow s" "sx_increments s < 2 ^ 64" "quiet s"
    "sx_cache s key = Some (machine_version s, sn)"
  shows "complete (sx_topology s) key" "sn = build (sx_topology s) key"
  using run_inv [OF assms(1,2)] assms(3,4) by (auto simp: machine_inv_def current_def)

end

subsection \<open>The workspace\<close>

interpretation topology: scope_topology scope_spec scope_present extends
  by unfold_locales (simp_all add: scope_spec_extends)




end
