(* ===== verification/Conversion.thy ===== *)
theory Conversion
  imports View_Properties
begin

text \<open>
  Conversions between Java types and the choice between overloads by argument types
  (\<open>TypeResolver\<close> in \<open>src/semantic/types.rs\<close>).

  \<^item> Primitive types: wrappers, widening, and the promotion of operands.
  \<^item> \<open>classify_conversion\<close> and the score of a conversion, over a view of the index.
  \<^item> Applicability of a method to argument types in the fixed and the variable-arity form, and
    \<open>select_overload_match\<close>.

  Scores are \<open>i32\<close> in the code; the model adds integers and a lemma bounds the sums.
\<close>

subsection \<open>Primitive types\<close>

text \<open>\<open>replace('.', "/")\<close>\<close>

abbreviation dots_to_slashes :: "str \<Rightarrow> str" where
  "dots_to_slashes s \<equiv> replace_char (CHR ''.'') (CHR ''/'') s"

definition primitive_wrapper_type_name :: "str \<Rightarrow> str option" where
  "primitive_wrapper_type_name p =
     map_of [(''boolean'', ''java/lang/Boolean''), (''byte'', ''java/lang/Byte''),
       (''char'', ''java/lang/Character''), (''short'', ''java/lang/Short''),
       (''int'', ''java/lang/Integer''), (''long'', ''java/lang/Long''),
       (''float'', ''java/lang/Float''), (''double'', ''java/lang/Double'')] p"

definition unboxed_primitive_type_name :: "str \<Rightarrow> str option" where
  "unboxed_primitive_type_name ty =
     map_of [(''boolean'', ''boolean''), (''byte'', ''byte''), (''char'', ''char''),
       (''short'', ''short''), (''int'', ''int''), (''long'', ''long''), (''float'', ''float''),
       (''double'', ''double''), (''java/lang/Boolean'', ''boolean''), (''java/lang/Byte'', ''byte''),
       (''java/lang/Character'', ''char''), (''java/lang/Short'', ''short''),
       (''java/lang/Integer'', ''int''), (''java/lang/Long'', ''long''),
       (''java/lang/Float'', ''float''), (''java/lang/Double'', ''double'')] (dots_to_slashes ty)"

definition are_boxing_compatible_type_names :: "str \<Rightarrow> str \<Rightarrow> bool" where
  "are_boxing_compatible_type_names left right \<longleftrightarrow>
     left = right
     \<or> primitive_wrapper_type_name (dots_to_slashes left) = Some (dots_to_slashes right)
     \<or> primitive_wrapper_type_name (dots_to_slashes right) = Some (dots_to_slashes left)"

definition is_widening_primitive_conversion :: "str \<Rightarrow> str \<Rightarrow> bool" where
  "is_widening_primitive_conversion source target \<longleftrightarrow>
     (source, target) \<in> {(''byte'', ''short''), (''byte'', ''int''), (''byte'', ''long''),
       (''byte'', ''float''), (''byte'', ''double''), (''short'', ''int''), (''short'', ''long''),
       (''short'', ''float''), (''short'', ''double''), (''char'', ''int''), (''char'', ''long''),
       (''char'', ''float''), (''char'', ''double''), (''int'', ''long''), (''int'', ''float''),
       (''int'', ''double''), (''long'', ''float''), (''long'', ''double''), (''float'', ''double'')}"

definition numeric_names :: "str set" where
  "numeric_names = {''byte'', ''short'', ''char'', ''int'', ''long'', ''float'', ''double''}"

definition integral_names :: "str set" where
  "integral_names = {''byte'', ''short'', ''char'', ''int'', ''long''}"

text \<open>The operands after unboxing, if both are of the named kinds.\<close>

definition promoted_numeric_result_type_name :: "str \<Rightarrow> str \<Rightarrow> str option" where
  "promoted_numeric_result_type_name l r =
     (case (unboxed_primitive_type_name l, unboxed_primitive_type_name r) of
        (Some left, Some right) \<Rightarrow>
          if left \<notin> numeric_names \<or> right \<notin> numeric_names then None
          else if left = ''double'' \<or> right = ''double'' then Some ''double''
          else if left = ''float'' \<or> right = ''float'' then Some ''float''
          else if left = ''long'' \<or> right = ''long'' then Some ''long''
          else Some ''int''
      | _ \<Rightarrow> None)"

definition promoted_integral_result_type_name :: "str \<Rightarrow> str \<Rightarrow> str option" where
  "promoted_integral_result_type_name l r =
     (case (unboxed_primitive_type_name l, unboxed_primitive_type_name r) of
        (Some left, Some right) \<Rightarrow>
          if left \<notin> integral_names \<or> right \<notin> integral_names then None
          else if left = ''long'' \<or> right = ''long'' then Some ''long'' else Some ''int''
      | _ \<Rightarrow> None)"

definition promoted_shift_result_type_name :: "str \<Rightarrow> str \<Rightarrow> str option" where
  "promoted_shift_result_type_name l r =
     (case (unboxed_primitive_type_name l, unboxed_primitive_type_name r) of
        (Some left, Some right) \<Rightarrow>
          if left \<notin> integral_names \<or> right \<notin> integral_names then None
          else if left = ''long'' then Some ''long'' else Some ''int''
      | _ \<Rightarrow> None)"

definition promoted_unary_integral_result_type_name :: "str \<Rightarrow> str option" where
  "promoted_unary_integral_result_type_name operand =
     (case unboxed_primitive_type_name operand of
        Some p \<Rightarrow> if p \<notin> integral_names then None
                  else if p = ''long'' then Some ''long'' else Some ''int''
      | None \<Rightarrow> None)"

subsection \<open>Conversions\<close>

datatype conversion_kind =
  Identity | WideningPrimitive | NarrowingPrimitive | Boxing | Unboxing
| BoxingWideningPrimitive | UnboxingWideningPrimitive | ReferenceWidening | NullToReference
| UnknownConversion | IncompatibleConversion

record type_compat =
  tc_kind :: conversion_kind
  tc_score :: int

definition is_reference_type_name :: "type_name \<Rightarrow> bool" where
  "is_reference_type_name t \<longleftrightarrow>
     \<not> is_primitive t
     \<and> (is_intersection t \<or> array_dims t > 0 \<or> is_exact_class t \<or> is_wildcard_like t)"

definition is_reference_widening :: "'c index_view \<Rightarrow> type_name \<Rightarrow> type_name \<Rightarrow> bool" where
  "is_reference_widening v source target \<longleftrightarrow>
     (if array_dims source > 0 \<or> array_dims target > 0
      then array_dims target = array_dims source
           \<or> (array_dims target = 0 \<and> erased_internal target = ''java/lang/Object'')
      else if is_primitive source \<or> is_primitive target then False
      else erased_internal source = erased_internal target
           \<or> list_ex (\<lambda>c. cm_internal_name c = erased_internal target)
               (view_mro v (erased_internal source)))"

definition classify_conversion :: "'c index_view \<Rightarrow> type_name \<Rightarrow> type_name \<Rightarrow> conversion_kind" where
  "classify_conversion v source target =
     (if erased_internal_with_arrays source = erased_internal_with_arrays target then Identity
      else if is_unknown source \<or> is_unknown target then UnknownConversion
      else if is_null source then
        (if is_reference_type_name target then NullToReference else IncompatibleConversion)
      else case (unboxed_primitive_type_name (erased_internal source),
                 unboxed_primitive_type_name (erased_internal target)) of
        (Some src, Some dst) \<Rightarrow>
          if src = dst then
            (if is_primitive source \<and> \<not> is_primitive target then Boxing
             else if \<not> is_primitive source \<and> is_primitive target then Unboxing else Identity)
          else if is_widening_primitive_conversion src dst then
            (if is_primitive source \<and> is_primitive target then WideningPrimitive
             else if is_primitive source \<and> \<not> is_primitive target then BoxingWideningPrimitive
             else if \<not> is_primitive source \<and> is_primitive target then UnboxingWideningPrimitive
             else IncompatibleConversion)
          else NarrowingPrimitive
      | _ \<Rightarrow>
          if are_boxing_compatible_type_names (erased_internal source) (erased_internal target) then
            (if is_primitive source \<and> \<not> is_primitive target then Boxing
             else if \<not> is_primitive source \<and> is_primitive target then Unboxing else Identity)
          else if is_reference_widening v source target then ReferenceWidening
          else IncompatibleConversion)"

definition conversion_score :: "conversion_kind \<Rightarrow> int" where
  "conversion_score kind =
     (case kind of
        Identity \<Rightarrow> 120 | WideningPrimitive \<Rightarrow> 95 | UnboxingWideningPrimitive \<Rightarrow> 85
      | Unboxing \<Rightarrow> 80 | Boxing \<Rightarrow> 80 | BoxingWideningPrimitive \<Rightarrow> 75 | ReferenceWidening \<Rightarrow> 70
      | NullToReference \<Rightarrow> 65 | UnknownConversion \<Rightarrow> 0 | NarrowingPrimitive \<Rightarrow> - 20
      | IncompatibleConversion \<Rightarrow> - 100)"

definition type_compatibility :: "'c index_view \<Rightarrow> type_name \<Rightarrow> type_name \<Rightarrow> type_compat" where
  "type_compatibility v source target =
     (let kind = classify_conversion v source target
      in \<lparr>tc_kind = kind, tc_score = conversion_score kind\<rparr>)"

subsection \<open>Scores of arguments\<close>

definition is_type_variable_descriptor_token :: "str \<Rightarrow> bool" where
  "is_type_variable_descriptor_token desc \<longleftrightarrow>
     (starts_with desc ''T'' \<and> ends_with desc '';'')
     \<or> (starts_with desc ''L'' \<and> ends_with desc '';'' \<and>
        (let inner = take (length desc - 2) (drop 1 desc)
         in inner \<noteq> [] \<and> \<not> contains_char inner (CHR ''/'') \<and> \<not> contains_char inner (CHR ''.'')
            \<and> \<not> contains_char inner (CHR ''$'') \<and> length inner \<le> 3
            \<and> list_all is_ascii_uppercase inner))"

definition resolved_descriptor :: "str \<Rightarrow> str" where
  "resolved_descriptor desc =
     (case map_of [(''B'', ''byte''), (''C'', ''char''), (''D'', ''double''), (''F'', ''float''),
         (''I'', ''int''), (''J'', ''long''), (''S'', ''short''), (''Z'', ''boolean''),
         (''V'', ''void'')] desc of
        Some p \<Rightarrow> p
      | None \<Rightarrow> if starts_with desc ''L'' \<and> ends_with desc '';'' then take (length desc - 2) (drop 1 desc)
                else desc)"

lemma strip_prefix_shorter: "strip_prefix s p = Some r \<Longrightarrow> p \<noteq> [] \<Longrightarrow> length r < length s"
  by (cases s; cases p) (auto simp: strip_prefix_def starts_with_def split: if_splits)

function score_single_descriptor :: "str \<Rightarrow> str \<Rightarrow> int" where
  "score_single_descriptor desc ty =
     (case strip_prefix desc ''['' of
        Some desc_elem \<Rightarrow>
          (case strip_suffix ty ''[]'' of
             Some ty_elem \<Rightarrow> score_single_descriptor desc_elem (trim ty_elem)
           | None \<Rightarrow> - 1)
      | None \<Rightarrow>
          (let resolved_desc = resolved_descriptor desc; normalized_ty = dots_to_slashes ty
           in if resolved_desc = normalized_ty then 10
              else if are_boxing_compatible_type_names resolved_desc normalized_ty then 8
              else if resolved_desc = ''java/lang/Object'' then
                (if normalized_ty \<notin> set primitive_names then 5 else - 1)
              else if last_piece (CHR ''/'') resolved_desc = last_piece (CHR ''/'') normalized_ty then 10
              else - 1))"
  by pat_completeness auto
termination
  by (relation "measure (length \<circ> fst)") (auto dest: strip_prefix_shorter)

declare score_single_descriptor.simps [simp del]

definition score_argument_against_descriptor :: "str \<Rightarrow> type_name \<Rightarrow> int option" where
  "score_argument_against_descriptor desc arg_ty =
     (if is_type_variable_descriptor_token desc then Some 0
      else if is_unknown arg_ty then Some 0
      else (let score = score_single_descriptor desc (erased_internal_with_arrays arg_ty)
            in if score \<ge> 0 then Some score else None))"

text \<open>The loops that add the scores of arguments and stop at the first that does not fit.\<close>

fun total_score :: "(str \<times> type_name) list \<Rightarrow> int option" where
  "total_score [] = Some 0"
| "total_score ((desc, arg) # rest) =
     (case score_argument_against_descriptor desc arg of
        None \<Rightarrow> None
      | Some s \<Rightarrow> map_option (\<lambda>t. s + t) (total_score rest))"

definition score_descriptor_list :: "str list \<Rightarrow> type_name list \<Rightarrow> int option" where
  "score_descriptor_list param_descs arg_types =
     (if length param_descs \<noteq> length arg_types then None else total_score (zip param_descs arg_types))"

text \<open>\<open>score_params\<close> adds the same scores without the cases of type variables and unknown types.\<close>

fun params_score_loop :: "int \<Rightarrow> (str \<times> type_name) list \<Rightarrow> int" where
  "params_score_loop acc [] = acc"
| "params_score_loop acc ((desc, arg) # rest) =
     (let score = score_single_descriptor desc (erased_internal_with_arrays arg)
      in if score < 0 then - 1 else params_score_loop (acc + score) rest)"

definition score_params :: "str \<Rightarrow> type_name list \<Rightarrow> rust_panic + int" where
  "score_params descriptor arg_types =
     map_ok (\<lambda>param_descs.
         if length param_descs \<noteq> length arg_types then - 1
         else params_score_loop 0 (zip param_descs arg_types)) (split_param_descriptors descriptor)"

subsection \<open>Overloads\<close>

definition is_varargs_method :: "method_summary \<Rightarrow> bool" where
  "is_varargs_method m \<longleftrightarrow>
     ms_access_flags m AND ACC_VARARGS \<noteq> 0 \<and> ms_params m \<noteq> []
     \<and> starts_with (mp_descriptor (last (ms_params m))) ''[''"

definition method_accepts_arity :: "method_summary \<Rightarrow> nat \<Rightarrow> bool" where
  "method_accepts_arity m arg_count \<longleftrightarrow>
     (let param_len = length (ms_params m)
      in if \<not> is_varargs_method m then param_len = arg_count
         else if param_len = 0 then False
         else arg_count \<ge> param_len - 1)"

definition normalize_arg_types :: "nat \<Rightarrow> type_name list \<Rightarrow> type_name list" where
  "normalize_arg_types arg_count arg_types =
     (if length arg_types \<ge> arg_count then take arg_count arg_types
      else arg_types @ replicate (arg_count - length arg_types) unknown_type)"

datatype overload_invocation_mode = Fixed | Varargs

record overload_match =
  om_method :: method_summary
  om_mode :: overload_invocation_mode
  om_score :: int

definition score_fixed_applicability :: "method_summary \<Rightarrow> type_name list \<Rightarrow> int option" where
  "score_fixed_applicability m arg_types =
     (if length (ms_params m) \<noteq> length arg_types then None
      else score_descriptor_list (map mp_descriptor (ms_params m)) arg_types)"

definition score_varargs_applicability :: "method_summary \<Rightarrow> type_name list \<Rightarrow> int option" where
  "score_varargs_applicability m arg_types =
     (if \<not> is_varargs_method m then None
      else if ms_params m = [] then None
      else (let fixed_prefix = length (ms_params m) - 1
            in if length arg_types < fixed_prefix then None
               else (case total_score (zip (map mp_descriptor (take fixed_prefix (ms_params m)))
                                          (take fixed_prefix arg_types)) of
                       None \<Rightarrow> None
                     | Some fixed \<Rightarrow>
                         (case strip_prefix (mp_descriptor (last (ms_params m))) ''['' of
                            None \<Rightarrow> None
                          | Some vararg_elem \<Rightarrow>
                              map_option (\<lambda>more. fixed + more - 1)
                                (total_score (map (Pair vararg_elem) (drop fixed_prefix arg_types)))))))"

definition mode_rank :: "overload_invocation_mode \<Rightarrow> nat" where
  "mode_rank mode = (case mode of Fixed \<Rightarrow> 1 | Varargs \<Rightarrow> 0)"

definition better_overload_match :: "overload_match option \<Rightarrow> overload_match \<Rightarrow> bool" where
  "better_overload_match current candidate =
     (case current of
        None \<Rightarrow> True
      | Some current \<Rightarrow>
          if mode_rank (om_mode candidate) \<noteq> mode_rank (om_mode current)
          then mode_rank (om_mode candidate) > mode_rank (om_mode current)
          else om_score candidate > om_score current)"

text \<open>One \<open>if let Some(score)\<close> of the loop: a match of this mode replaces the best one so far if it is better.\<close>

definition consider_match ::
  "method_summary \<Rightarrow> overload_invocation_mode \<Rightarrow> int option \<Rightarrow> overload_match option \<Rightarrow> overload_match option" where
  "consider_match m mode score acc =
     (case score of
        None \<Rightarrow> acc
      | Some s \<Rightarrow>
          (let candidate = \<lparr>om_method = m, om_mode = mode, om_score = s\<rparr>
           in if better_overload_match acc candidate then Some candidate else acc))"

definition select_overload_match ::
  "method_summary list \<Rightarrow> nat \<Rightarrow> type_name list \<Rightarrow> overload_match option" where
  "select_overload_match candidates arg_count arg_types =
     (let normalized_args = normalize_arg_types arg_count arg_types
      in fold (\<lambda>m acc. consider_match m Varargs (score_varargs_applicability m normalized_args)
                (consider_match m Fixed (score_fixed_applicability m normalized_args) acc))
           candidates None)"

definition select_overload :: "method_summary list \<Rightarrow> nat \<Rightarrow> type_name list \<Rightarrow> method_summary option" where
  "select_overload candidates arg_count arg_types =
     map_option om_method (select_overload_match candidates arg_count arg_types)"

definition map_argument_index_to_parameter ::
  "method_summary \<Rightarrow> nat \<Rightarrow> overload_invocation_mode \<Rightarrow> nat \<Rightarrow> (nat \<times> bool) option" where
  "map_argument_index_to_parameter selected arg_index mode param_len =
     (if param_len = 0 then None
      else case mode of
        Fixed \<Rightarrow> if arg_index \<ge> param_len then None else Some (arg_index, False)
      | Varargs \<Rightarrow>
          if \<not> is_varargs_method selected then None
          else if arg_index < param_len - 1 then Some (arg_index, False)
          else Some (param_len - 1, True))"

definition resolve_selected_param_descriptor_for_call ::
  "method_summary \<Rightarrow> nat \<Rightarrow> overload_invocation_mode \<Rightarrow> str option" where
  "resolve_selected_param_descriptor_for_call selected arg_index mode =
     (case map_argument_index_to_parameter selected arg_index mode (length (ms_params selected)) of
        None \<Rightarrow> None
      | Some (mapped_index, vararg_element) \<Rightarrow>
          if mapped_index < length (ms_params selected) then
            (let desc = mp_descriptor (ms_params selected ! mapped_index)
             in if \<not> vararg_element then Some desc else strip_prefix desc ''['')
          else None)"

subsection \<open>Laws of conversions\<close>

text \<open>Widening goes up in the order of the numeric types, except from \<open>byte\<close> to \<open>char\<close>.\<close>

definition widens :: "str \<Rightarrow> str \<Rightarrow> bool" where
  "widens a b \<longleftrightarrow> a = b \<or> is_widening_primitive_conversion a b"

definition numeric_list :: "str list" where
  "numeric_list = [''byte'', ''short'', ''char'', ''int'', ''long'', ''float'', ''double'']"

definition prim_rank :: "str \<Rightarrow> nat" where
  "prim_rank a = the (map_of [(''byte'', 0), (''short'', 1), (''char'', 1), (''int'', 2),
     (''long'', 3), (''float'', 4), (''double'', 5)] a)"

lemma set_numeric_list: "set numeric_list = numeric_names"
  by (simp add: numeric_list_def numeric_names_def)

lemma widening_numeric:
  "is_widening_primitive_conversion a b \<Longrightarrow> a \<in> set numeric_list \<and> b \<in> set numeric_list"
  unfolding is_widening_primitive_conversion_def numeric_list_def by (elim insertE) simp_all

lemma widening_ranks:
  "is_widening_primitive_conversion a b \<longleftrightarrow>
     a \<in> set numeric_list \<and> b \<in> set numeric_list \<and> prim_rank a < prim_rank b
     \<and> \<not> (a = ''byte'' \<and> b = ''char'')"
proof -
  have "list_all (\<lambda>a. list_all (\<lambda>b. is_widening_primitive_conversion a b =
      (prim_rank a < prim_rank b \<and> \<not> (a = ''byte'' \<and> b = ''char''))) numeric_list) numeric_list"
    by code_simp
  then show ?thesis using widening_numeric unfolding list_all_iff by blast
qed

lemma widening_trans:
  assumes "is_widening_primitive_conversion a b" "is_widening_primitive_conversion b c"
  shows "is_widening_primitive_conversion a c"
proof -
  have "prim_rank ''byte'' = 0" "prim_rank ''char'' = 1" by (simp_all add: prim_rank_def)
  with assms show ?thesis unfolding widening_ranks by auto
qed

lemma widening_irrefl: "\<not> is_widening_primitive_conversion a a"
  by (simp add: widening_ranks)

text \<open>The promoted type is the least type that \<open>int\<close> and both operands widen to.\<close>

definition promoted :: "str \<Rightarrow> str \<Rightarrow> str" where
  "promoted a b = (if a = ''double'' \<or> b = ''double'' then ''double''
     else if a = ''float'' \<or> b = ''float'' then ''float''
     else if a = ''long'' \<or> b = ''long'' then ''long'' else ''int'')"

lemma promoted_rank:
  assumes "a \<in> set numeric_list" "b \<in> set numeric_list"
  shows "promoted a b \<in> set numeric_list \<and> promoted a b \<noteq> ''byte''
    \<and> prim_rank (promoted a b) = max 2 (max (prim_rank a) (prim_rank b))"
proof -
  have "list_all (\<lambda>a. list_all (\<lambda>b. List.member numeric_list (promoted a b) \<and> promoted a b \<noteq> ''byte''
      \<and> prim_rank (promoted a b) = max 2 (max (prim_rank a) (prim_rank b))) numeric_list) numeric_list"
    by code_simp
  with assms show ?thesis unfolding list_all_iff by simp
qed

lemma prim_rank_inj:
  assumes "a \<in> set numeric_list" "b \<in> set numeric_list" "2 \<le> prim_rank a" "prim_rank a = prim_rank b"
  shows "a = b"
proof -
  have "list_all (\<lambda>a. list_all (\<lambda>b. 2 \<le> prim_rank a \<and> prim_rank a = prim_rank b \<longrightarrow> a = b) numeric_list)
      numeric_list"
    by code_simp
  with assms show ?thesis unfolding list_all_iff by blast
qed

lemma widens_rank:
  assumes "a \<in> set numeric_list" "b \<in> set numeric_list" "2 \<le> prim_rank b"
  shows "widens a b \<longleftrightarrow> prim_rank a \<le> prim_rank b"
proof -
  have "b \<noteq> ''char''" using assms(3) by (auto simp: prim_rank_def)
  then show ?thesis
    using assms prim_rank_inj [OF assms(2,1,3)] by (auto simp: widens_def widening_ranks)
qed

lemma promoted_least:
  assumes "a \<in> numeric_names" "b \<in> numeric_names"
  shows "widens a (promoted a b) \<and> widens b (promoted a b) \<and> widens ''int'' (promoted a b)
    \<and> (\<forall>q. widens a q \<and> widens b q \<and> widens ''int'' q \<longrightarrow> widens (promoted a b) q)"
proof -
  have ab: "a \<in> set numeric_list" "b \<in> set numeric_list" using assms by (simp_all only: set_numeric_list)
  have int: "''int'' \<in> set numeric_list" "prim_rank ''int'' = 2"
    by (simp_all add: numeric_list_def prim_rank_def)
  note p = promoted_rank [OF ab]
  have "widens (promoted a b) q" if q: "widens a q" "widens b q" "widens ''int'' q" for q
  proof -
    have ql: "q \<in> set numeric_list" using q(3) widening_numeric int(1) unfolding widens_def by blast
    have "2 \<le> prim_rank q" using q(3) int unfolding widens_def widening_ranks by auto
    with q ab int ql p show ?thesis by (simp add: widens_rank)
  qed
  moreover have "widens c (promoted a b)" if "c \<in> set numeric_list" "prim_rank c \<le> prim_rank (promoted a b)" for c
    using that p by (simp add: widens_rank)
  ultimately show ?thesis using ab int p by simp
qed

lemma promoted_numeric:
  "promoted_numeric_result_type_name l r = Some p \<longleftrightarrow>
     (\<exists>a b. unboxed_primitive_type_name l = Some a \<and> unboxed_primitive_type_name r = Some b
        \<and> a \<in> numeric_names \<and> b \<in> numeric_names \<and> p = promoted a b)"
proof -
  have "(if a = ''double'' \<or> b = ''double'' then Some ''double''
      else if a = ''float'' \<or> b = ''float'' then Some ''float''
      else if a = ''long'' \<or> b = ''long'' then Some ''long'' else Some ''int'') = Some (promoted a b)"
    for a b unfolding promoted_def by simp
  then have "promoted_numeric_result_type_name l r =
      (case (unboxed_primitive_type_name l, unboxed_primitive_type_name r) of
         (Some a, Some b) \<Rightarrow>
           if a \<notin> numeric_names \<or> b \<notin> numeric_names then None else Some (promoted a b)
       | _ \<Rightarrow> None)"
    unfolding promoted_numeric_result_type_name_def by presburger
  then show ?thesis by (cases "unboxed_primitive_type_name l"; cases "unboxed_primitive_type_name r") auto
qed

subsection \<open>Laws of overload selection\<close>

text \<open>All matches of the candidates, in the order in which the loop meets them.\<close>

definition matches_of :: "type_name list \<Rightarrow> method_summary \<Rightarrow> overload_match list" where
  "matches_of args m =
     (case score_fixed_applicability m args of
        None \<Rightarrow> [] | Some s \<Rightarrow> [\<lparr>om_method = m, om_mode = Fixed, om_score = s\<rparr>])
     @ (case score_varargs_applicability m args of
        None \<Rightarrow> [] | Some s \<Rightarrow> [\<lparr>om_method = m, om_mode = Varargs, om_score = s\<rparr>])"

definition keep_better :: "overload_match \<Rightarrow> overload_match option \<Rightarrow> overload_match option" where
  "keep_better c acc = (if better_overload_match acc c then Some c else acc)"

lemma select_overload_fold:
  "select_overload_match candidates n args =
     fold keep_better (concat (map (matches_of (normalize_arg_types n args)) candidates)) None"
proof -
  have "consider_match m Varargs (score_varargs_applicability m as)
      (consider_match m Fixed (score_fixed_applicability m as) acc) = fold keep_better (matches_of as m) acc"
    for m as acc
    by (simp add: consider_match_def matches_of_def keep_better_def Let_def split: option.split)
  then have "fold (\<lambda>m acc. consider_match m Varargs (score_varargs_applicability m as)
      (consider_match m Fixed (score_fixed_applicability m as) acc)) cs acc
      = fold keep_better (concat (map (matches_of as) cs)) acc" for cs as acc
    by (induction cs arbitrary: acc) simp_all
  then show ?thesis by (simp add: select_overload_match_def Let_def)
qed

text \<open>The first of the best elements of a list.\<close>

definition first_best :: "overload_match list \<Rightarrow> overload_match \<Rightarrow> bool" where
  "first_best ms b \<longleftrightarrow>
     (\<exists>i<length ms. ms ! i = b \<and> (\<forall>c\<in>set ms. \<not> better_overload_match (Some b) c)
        \<and> (\<forall>j<i. better_overload_match (Some (ms ! j)) b))"

lemma better_irrefl: "\<not> better_overload_match (Some c) c"
  by (simp add: better_overload_match_def)

lemma keep_better_None: "keep_better c None = Some c"
  by (simp add: keep_better_def better_overload_match_def)

lemma keep_better_Some:
  "keep_better c (Some b) = (if better_overload_match (Some b) c then Some c else Some b)"
  by (simp add: keep_better_def)

lemma better_trans:
  assumes "better_overload_match (Some c) b"
  shows "\<not> better_overload_match (Some c) d \<Longrightarrow> better_overload_match (Some d) b"
    "better_overload_match (Some b) d \<Longrightarrow> better_overload_match (Some c) d"
  using assms by (auto simp: better_overload_match_def split: if_splits)

lemma fold_keep_better:
  "case fold keep_better ms None of None \<Rightarrow> ms = [] | Some b \<Rightarrow> first_best ms b"
proof (induction ms rule: rev_induct)
  case (snoc c ms)
  show ?case
  proof (cases "fold keep_better ms None")
    case None
    with snoc show ?thesis by (simp add: keep_better_None first_best_def better_irrefl)
  next
    case (Some b)
    with snoc obtain i where i: "i < length ms" "ms ! i = b" "\<forall>c\<in>set ms. \<not> better_overload_match (Some b) c"
      "\<forall>j<i. better_overload_match (Some (ms ! j)) b" by (auto simp: first_best_def)
    show ?thesis
    proof (cases "better_overload_match (Some b) c")
      case True
      have "better_overload_match (Some d) c" if "d \<in> set ms" for d
        using better_trans(1) [OF True] i(3) that by blast
      then have "\<forall>j<length ms. better_overload_match (Some ((ms @ [c]) ! j)) c"
        "\<forall>d\<in>set ms. \<not> better_overload_match (Some c) d"
        using True i(3) better_trans(2) [OF True] by (auto simp: nth_append)
      then show ?thesis
        using Some True better_irrefl by (auto simp: keep_better_Some first_best_def intro!: exI [of _ "length ms"])
    next
      case False
      then show ?thesis
        using Some i by (auto simp: keep_better_Some first_best_def nth_append intro!: exI [of _ i])
    qed
  qed
qed simp

lemma score_argument_bounds:
  "score_argument_against_descriptor desc arg = Some s \<Longrightarrow> 0 \<le> s \<and> s \<le> 10"
proof -
  have "score_single_descriptor d t \<le> 10" for d t
    by (induction d t rule: score_single_descriptor.induct)
       (subst score_single_descriptor.simps, simp add: Let_def split: option.split)
  then show "score_argument_against_descriptor desc arg = Some s \<Longrightarrow> 0 \<le> s \<and> s \<le> 10"
    by (auto simp: score_argument_against_descriptor_def Let_def split: if_splits)
qed

lemma total_score_bounds: "total_score ps = Some s \<Longrightarrow> 0 \<le> s \<and> s \<le> 10 * int (length ps)"
proof (induction ps arbitrary: s)
  case (Cons p ps)
  obtain d a where p: "p = (d, a)" by fastforce
  with Cons.prems obtain x y where "score_argument_against_descriptor d a = Some x"
    "total_score ps = Some y" "s = x + y" by (auto split: option.splits)
  with Cons.IH score_argument_bounds [of d a x] show ?case by force
qed simp

lemma matches_of_scores:
  assumes "c \<in> set (matches_of args m)"
  shows "om_method c = m \<and> - 1 \<le> om_score c \<and> om_score c \<le> 10 * int (length args)"
proof -
  have "- 1 \<le> s \<and> s \<le> 10 * int (length args)" if "score_varargs_applicability m args = Some s" for s
  proof -
    from that obtain x y vararg where "length args \<ge> length (ms_params m) - 1" "s = x + y - 1"
      and x: "total_score (zip (map mp_descriptor (take (length (ms_params m) - 1) (ms_params m)))
          (take (length (ms_params m) - 1) args)) = Some x"
      and y: "total_score (map (Pair vararg) (drop (length (ms_params m) - 1) args)) = Some y"
      by (auto simp: score_varargs_applicability_def Let_def split: if_splits option.splits)
    then show ?thesis using total_score_bounds [OF x] total_score_bounds [OF y] by auto
  qed
  moreover have "- 1 \<le> s \<and> s \<le> 10 * int (length args)" if "score_fixed_applicability m args = Some s" for s
    using that total_score_bounds
    by (fastforce simp: score_fixed_applicability_def score_descriptor_list_def split: if_splits)
  ultimately show ?thesis using assms by (auto simp: matches_of_def split: option.splits)
qed

lemma length_normalize_arg_types [simp]: "length (normalize_arg_types n types) = n"
  by (simp add: normalize_arg_types_def)

lemma wrapper_unboxes:
  assumes "primitive_wrapper_type_name (dots_to_slashes a) = Some (dots_to_slashes b)"
  shows "unboxed_primitive_type_name a \<noteq> None \<and> unboxed_primitive_type_name b \<noteq> None"
  using map_of_SomeD [OF assms [unfolded primitive_wrapper_type_name_def]]
  unfolding list.set insert_iff prod.inject empty_iff unboxed_primitive_type_name_def
  by (elim disjE conjE) simp_all

subsection \<open>Properties\<close>

text \<open>
  Binary numeric promotion: the promoted type of two operands exists exactly when both are
  numeric or box a numeric type, it does not depend on the order of the operands, and it is the
  least type to which \<open>int\<close> and both operands convert by identity or primitive widening.
\<close>

theorem numeric_promotion:
  assumes "unboxed_primitive_type_name l = Some a" "unboxed_primitive_type_name r = Some b"
  shows "promoted_numeric_result_type_name l r = promoted_numeric_result_type_name r l
    \<and> (promoted_numeric_result_type_name l r = None \<longleftrightarrow> a \<notin> numeric_names \<or> b \<notin> numeric_names)
    \<and> (\<forall>p. promoted_numeric_result_type_name l r = Some p \<longrightarrow>
         widens a p \<and> widens b p \<and> widens ''int'' p
         \<and> (\<forall>q. widens a q \<and> widens b q \<and> widens ''int'' q \<longrightarrow> widens p q))"
proof -
  have "promoted a b = promoted b a" by (auto simp: promoted_def)
  then have "promoted_numeric_result_type_name l r = Some p \<longleftrightarrow> promoted_numeric_result_type_name r l = Some p" for p
    unfolding promoted_numeric using assms by auto
  then have "promoted_numeric_result_type_name l r = promoted_numeric_result_type_name r l"
    by (metis not_Some_eq)
  moreover have "promoted_numeric_result_type_name l r = None \<longleftrightarrow> a \<notin> numeric_names \<or> b \<notin> numeric_names"
    using promoted_numeric [of l r] assms by (metis option.distinct(1) option.exhaust option.inject)
  ultimately show ?thesis using promoted_least assms unfolding promoted_numeric by auto
qed

theorem numeric_promotion_witness:
  "promoted_numeric_result_type_name ''java.lang.Short'' ''char'' \<noteq> None
   \<and> promoted_numeric_result_type_name ''boolean'' ''int'' = None"
  using numeric_promotion [of "''java.lang.Short''" "''short''" "''char''" "''char''",
      THEN conjunct2, THEN conjunct1]
    numeric_promotion [of "''boolean''" "''boolean''" "''int''" "''int''", THEN conjunct2, THEN conjunct1]
  by (simp add: unboxed_primitive_type_name_def replace_char_def numeric_names_def)

text \<open>
  Conversions between classes: where not both names stand for primitive types, a class type
  converts to itself by identity, to another known class by reference widening exactly when that
  class is reachable over superclasses and interfaces in the view, and otherwise not at all; only
  the last case has a negative score.
\<close>

theorem class_conversion:
  assumes "view_ok v" "unboxed_primitive_type_name a = None \<or> unboxed_primitive_type_name b = None"
  shows "tc_kind (type_compatibility v (internal_type a) (internal_type b)) =
      (if a = b then Identity
       else if (a, b) \<in> (super_rel (view_get_class v))\<^sup>* \<and> view_get_class v b \<noteq> None then ReferenceWidening
       else IncompatibleConversion)
    \<and> (tc_score (type_compatibility v (internal_type a) (internal_type b)) < 0 \<longleftrightarrow>
         tc_kind (type_compatibility v (internal_type a) (internal_type b)) = IncompatibleConversion)"
proof -
  have simple: "erased_internal_with_arrays (internal_type x) = x" "erased_internal (internal_type x) = x"
    "\<not> is_primitive (internal_type x)" "array_dims (internal_type x) = 0" "\<not> is_unknown (internal_type x)"
    "\<not> is_null (internal_type x)" for x
    by (simp_all add: internal_type_def with_kind_def is_primitive_def is_unknown_def is_null_def)
  have boxing: "\<not> are_boxing_compatible_type_names a b" if "a \<noteq> b"
    using that assms(2) wrapper_unboxes [of a b] wrapper_unboxes [of b a]
    unfolding are_boxing_compatible_type_names_def by blast
  have mro: "list_ex (\<lambda>c. cm_internal_name c = b) (view_mro v a) \<longleftrightarrow>
      (a, b) \<in> (super_rel (view_get_class v))\<^sup>* \<and> view_get_class v b \<noteq> None"
  proof -
    have "b \<in> cm_internal_name ` set (view_mro v a) \<longleftrightarrow>
        (a, b) \<in> (super_rel (view_get_class v))\<^sup>* \<and> view_get_class v b \<noteq> None"
      using view_mro_names(2) [OF assms(1), of a] by simp
    then show ?thesis by (auto simp: list_ex_iff image_iff)
  qed
  have "classify_conversion v (internal_type a) (internal_type b) =
      (if a = b then Identity
       else if (a, b) \<in> (super_rel (view_get_class v))\<^sup>* \<and> view_get_class v b \<noteq> None then ReferenceWidening
       else IncompatibleConversion)"
    using assms(2) boxing
    by (auto simp: classify_conversion_def simple is_reference_widening_def mro split: option.split)
  then show ?thesis by (simp add: type_compatibility_def Let_def conversion_score_def)
qed

theorem class_conversion_witness:
  "tc_kind (type_compatibility (sample_view
      [[(plain_class None ''A'' ''A'' UnknownOrigin)\<lparr>cm_super_name := Some ''B''\<rparr>],
       [plain_class None ''B'' ''B'' UnknownOrigin]]) (internal_type ''A'') (internal_type ''B''))
   = ReferenceWidening"
proof -
  let ?v = "sample_view
      [[(plain_class None ''A'' ''A'' UnknownOrigin)\<lparr>cm_super_name := Some ''B''\<rparr>],
       [plain_class None ''B'' ''B'' UnknownOrigin]]"
  have "view_get_class ?v ''B'' \<noteq> None"
    by (simp add: sample_get_class map_filter_simps plain_class_def)
  moreover have "(''A'', ''B'') \<in> super_rel (view_get_class ?v)"
    by (auto simp: succ_rel_def sample_get_class map_filter_simps plain_class_def supertypes_def best_def)
  moreover have "unboxed_primitive_type_name ''A'' = None"
    by (simp add: unboxed_primitive_type_name_def replace_char_def)
  ultimately show ?thesis
    using class_conversion [OF sample_view_ok(1), of "''A''" "''B''"] by simp
qed

text \<open>
  C34. Overload selection by argument types: a call selects nothing exactly when no candidate is
  applicable, in fixed or variable-arity form; otherwise it selects one of the candidates, the
  first of those matches that no other match beats, where a fixed match beats a variable-arity
  match and a higher score beats a lower one. Scores stay between \<open>- 1\<close> and ten per argument.
\<close>

theorem overload_selection:
  "let matches = concat (map (matches_of (normalize_arg_types n types)) candidates)
   in case select_overload_match candidates n types of
        None \<Rightarrow> matches = []
      | Some b \<Rightarrow> first_best matches b \<and> om_method b \<in> set candidates
          \<and> - 1 \<le> om_score b \<and> om_score b \<le> 10 * int n"
proof -
  let ?ms = "concat (map (matches_of (normalize_arg_types n types)) candidates)"
  have "om_method b \<in> set candidates \<and> - 1 \<le> om_score b \<and> om_score b \<le> 10 * int n"
    if "b \<in> set ?ms" for b
    using that matches_of_scores [of b "normalize_arg_types n types"] by auto
  moreover have "b \<in> set ?ms" if "first_best ?ms b" for b
    using that unfolding first_best_def by (metis nth_mem)
  ultimately show ?thesis
    using fold_keep_better [of ?ms]
    by (cases "fold keep_better ?ms None") (simp_all add: select_overload_fold Let_def)
qed

text \<open>
  Applicability looks at erased names and boxing only: an argument of a subclass or of a narrower
  primitive type does not fit a parameter.
\<close>

lemma subtype_argument_not_applicable:
  "score_argument_against_descriptor ''Ljava/util/List;'' (internal_type ''java/util/ArrayList'') = None"
  "score_argument_against_descriptor ''J'' (primitive_type ''int'') = None"
  by (simp_all add: score_argument_against_descriptor_def is_type_variable_descriptor_token_def
        starts_with_def ends_with_def contains_char_def is_unknown_def internal_type_def primitive_type_def
        with_kind_def repeat_str_def score_single_descriptor.simps strip_prefix_def resolved_descriptor_def
        replace_char_def are_boxing_compatible_type_names_def primitive_wrapper_type_name_def last_piece_def)

end
