(* ===== verification/Type_Bindings.thy ===== *)
theory Type_Bindings
  imports Conversion
begin

text \<open>
  The parts of type inference that need no view of the index (\<open>src/semantic/types.rs\<close>) and the
  splitting of an expression into a call chain (\<open>src/completion/parser.rs\<close>).

  \<^item> Type variables: \<open>bind_method_type_vars\<close> matches the type of a parameter against the type of
    its argument and records the bindings, and the variables bound twice in different ways.
  \<^item> Texts of functional arguments: lambdas and method references.
  \<^item> Call chains: \<open>parse_chain_from_expr\<close>. Its characters are the bytes of the text; a byte of a
    longer character is never one of the delimiters.
\<close>

subsection \<open>Searching in texts\<close>

fun find_str :: "str \<Rightarrow> str \<Rightarrow> nat option" where
  "find_str [] p = (if p = [] then Some 0 else None)"
| "find_str (c # s) p = (if starts_with (c # s) p then Some 0 else map_option Suc (find_str s p))"

definition contains_str :: "str \<Rightarrow> str \<Rightarrow> bool" where
  "contains_str s p \<longleftrightarrow> find_str s p \<noteq> None"

text \<open>\<open>matches(c).count()\<close>\<close>

definition count_char :: "str \<Rightarrow> char \<Rightarrow> nat" where
  "count_char s c = length (filter (\<lambda>x. x = c) s)"

subsection \<open>Type variables\<close>

fun collect_type_vars :: "jvm_type \<Rightarrow> str set \<Rightarrow> str set" where
  "collect_type_vars (TypeVar name) out = insert name out"
| "collect_type_vars (Object _ args) out = fold collect_type_vars args out"
| "collect_type_vars (Array inner) out = collect_type_vars inner out"
| "collect_type_vars (WildcardBound _ inner) out = collect_type_vars inner out"
| "collect_type_vars (Primitive _) out = out"
| "collect_type_vars Wildcard out = out"

type_synonym type_bindings = "(str, jvm_type) hash_map"

definition bind_type_var ::
  "str \<Rightarrow> jvm_type \<Rightarrow> type_bindings \<times> str set \<Rightarrow> type_bindings \<times> str set" where
  "bind_type_var name candidate = (\<lambda>(bindings, conflicted).
     if name \<in> conflicted then (bindings, conflicted)
     else case hget bindings name of
            Some existing \<Rightarrow>
              (bindings, if existing \<noteq> candidate then insert name conflicted else conflicted)
          | None \<Rightarrow> (hinsert name candidate bindings, conflicted))"

fun bind_method_type_vars ::
    "jvm_type \<Rightarrow> jvm_type \<Rightarrow> str set \<Rightarrow> type_bindings \<times> str set \<Rightarrow> type_bindings \<times> str set"
  and bind_type_args ::
    "jvm_type list \<Rightarrow> jvm_type list \<Rightarrow> str set \<Rightarrow> type_bindings \<times> str set \<Rightarrow> type_bindings \<times> str set" where
  "bind_method_type_vars (TypeVar name) actual ps st =
     (if name \<in> ps then bind_type_var name actual st else st)"
| "bind_method_type_vars (Array formal_inner) actual ps st =
     (case actual of
        Array actual_inner \<Rightarrow> bind_method_type_vars formal_inner actual_inner ps st
      | _ \<Rightarrow> st)"
| "bind_method_type_vars (WildcardBound _ formal_inner) actual ps st =
     bind_method_type_vars formal_inner actual ps st"
| "bind_method_type_vars (Object _ formal_args) actual ps st =
     (case actual of
        Object _ actual_args \<Rightarrow> bind_type_args formal_args actual_args ps st
      | _ \<Rightarrow> st)"
| "bind_method_type_vars (Primitive _) actual ps st = st"
| "bind_method_type_vars Wildcard actual ps st = st"
| "bind_type_args (f # fs) (a # as) ps st = bind_type_args fs as ps (bind_method_type_vars f a ps st)"
| "bind_type_args _ _ ps st = st"

text \<open>\<open>for key in conflicted \<lbrace> bindings.remove(&key); \<rbrace>\<close>\<close>

definition drop_conflicted :: "type_bindings \<times> str set \<Rightarrow> type_bindings" where
  "drop_conflicted = (\<lambda>(bindings, conflicted). filter (\<lambda>b. fst b \<notin> conflicted) bindings)"

definition extract_functional_input_type :: "jvm_type \<Rightarrow> jvm_type option" where
  "extract_functional_input_type param_ty =
     (case param_ty of
        Object _ (first # _) \<Rightarrow>
          (case first of
             WildcardBound c inner \<Rightarrow>
               if c = CHR ''-'' \<or> c = CHR ''+'' then Some inner else Some first
           | _ \<Rightarrow> Some first)
      | _ \<Rightarrow> None)"

fun normalize_lambda_param_jvm_type :: "jvm_type \<Rightarrow> jvm_type" where
  "normalize_lambda_param_jvm_type (WildcardBound _ inner) = normalize_lambda_param_jvm_type inner"
| "normalize_lambda_param_jvm_type other = other"

fun is_concrete_jvm_type :: "jvm_type \<Rightarrow> bool" where
  "is_concrete_jvm_type (TypeVar _) \<longleftrightarrow> False"
| "is_concrete_jvm_type Wildcard \<longleftrightarrow> False"
| "is_concrete_jvm_type (WildcardBound _ _) \<longleftrightarrow> False"
| "is_concrete_jvm_type (Primitive _) \<longleftrightarrow> True"
| "is_concrete_jvm_type (Array inner) \<longleftrightarrow> is_concrete_jvm_type inner"
| "is_concrete_jvm_type (Object _ args) \<longleftrightarrow> list_all is_concrete_jvm_type args"

definition type_name_to_jvm_type :: "type_name \<Rightarrow> jvm_type option" where
  "type_name_to_jvm_type ty =
     (if is_unknown ty \<or> is_null ty \<or> is_source_like ty then None
      else case parse (to_jvm_signature ty) of
             None \<Rightarrow> None | Some (parsed, rest) \<Rightarrow> if rest = [] then Some parsed else None)"

definition is_concrete_type_name :: "type_name \<Rightarrow> bool" where
  "is_concrete_type_name ty \<longleftrightarrow>
     (case type_name_to_jvm_type ty of None \<Rightarrow> False | Some parsed \<Rightarrow> is_concrete_jvm_type parsed)"

definition box_primitive_jvm_type :: "jvm_type \<Rightarrow> jvm_type" where
  "box_primitive_jvm_type ty =
     (case ty of
        Primitive c \<Rightarrow>
          (case map_of [(CHR ''B'', ''java/lang/Byte''), (CHR ''S'', ''java/lang/Short''),
              (CHR ''I'', ''java/lang/Integer''), (CHR ''J'', ''java/lang/Long''),
              (CHR ''F'', ''java/lang/Float''), (CHR ''D'', ''java/lang/Double''),
              (CHR ''C'', ''java/lang/Character''), (CHR ''Z'', ''java/lang/Boolean'')] c of
             Some name \<Rightarrow> Object name []
           | None \<Rightarrow> ty)
      | _ \<Rightarrow> ty)"

subsection \<open>Texts of functional arguments\<close>

text \<open>\<open>find("::")\<close> and \<open>find("->")\<close> return offsets of ASCII bytes, so the slices do not panic.\<close>

definition parse_method_reference_text :: "str \<Rightarrow> (str \<times> str \<times> bool) option" where
  "parse_method_reference_text text =
     (case find_str text ''::'' of
        None \<Rightarrow> None
      | Some idx \<Rightarrow>
          (let qualifier = trim (take idx text); member = trim (drop (idx + 2) text)
           in if qualifier = [] \<or> member = [] then None
              else Some (qualifier, member, member = ''new'')))"

definition method_reference_member_matches :: "str \<Rightarrow> str \<Rightarrow> bool" where
  "method_reference_member_matches candidate_name typed_member \<longleftrightarrow>
     candidate_name = typed_member \<or> starts_with candidate_name typed_member"

definition is_object_method :: "str \<Rightarrow> str \<Rightarrow> bool" where
  "is_object_method name desc \<longleftrightarrow>
     (name, desc) \<in> {(''equals'', ''(Ljava/lang/Object;)Z''), (''hashCode'', ''()I''),
       (''toString'', ''()Ljava/lang/String;'')}"

definition parse_lambda_expression_body :: "str \<Rightarrow> str option" where
  "parse_lambda_expression_body text =
     (case find_str text ''->'' of
        None \<Rightarrow> None
      | Some idx \<Rightarrow>
          (let body = trim (drop (idx + 2) text)
           in if body = [] \<or> starts_with body ''{'' then None else Some body))"

text \<open>
  \<open>block_return\<close> is \<open>parse_single_return_expression_from_lambda_block\<close>: the only returned expression
  of a block lambda, found in the syntax tree of the text.
\<close>

definition extract_lambda_return_expression_text :: "(str \<Rightarrow> str option) \<Rightarrow> str \<Rightarrow> str option" where
  "extract_lambda_return_expression_text block_return text =
     (case parse_lambda_expression_body text of
        Some body \<Rightarrow> Some body | None \<Rightarrow> block_return text)"

text \<open>\<open>split_whitespace().last()\<close> of a text that is trimmed and not empty.\<close>

definition last_word :: "str \<Rightarrow> str" where
  "last_word s = rev (takeWhile (\<lambda>c. \<not> is_ws c) (rev s))"

definition parse_lambda_text_parts :: "str \<Rightarrow> (str list \<times> str) option" where
  "parse_lambda_text_parts text =
     (case find_str text ''->'' of
        None \<Rightarrow> None
      | Some idx \<Rightarrow>
          (let params_text = trim (take idx text); body = trim (drop (idx + 2) text)
           in if body = [] then None
              else if params_text = [] then None
              else if params_text = ''()'' then Some ([], body)
              else if starts_with params_text ''('' \<and> ends_with params_text '')'' then
                (let inner = take (length params_text - 2) (drop 1 params_text)
                 in if trim inner = [] then Some ([], body)
                    else Some (List.map_filter (\<lambda>part.
                           let trimmed = trim part in if trimmed = [] then None else Some (last_word trimmed))
                         (split_char (CHR '','') inner), body))
              else Some ([params_text], body)))"

definition is_likely_type_qualifier :: "str \<Rightarrow> bool" where
  "is_likely_type_qualifier qualifier \<longleftrightarrow>
     (let q = trim qualifier
      in q \<noteq> [] \<and>
         (contains_char q (CHR ''.'') \<or> contains_char q (CHR ''/'') \<or> is_ascii_uppercase (hd q)))"

definition functional_argument_indexes :: "str list \<Rightarrow> nat list" where
  "functional_argument_indexes arg_texts =
     filter (\<lambda>i. let trimmed = trim (arg_texts ! i) in contains_str trimmed ''->'' \<or> contains_str trimmed ''::'')
       [0..<length arg_texts]"

subsection \<open>Call chains\<close>

record chain_segment =
  cs_name :: str
  cs_arg_count :: "nat option"
  cs_arg_types :: "type_name list"
  cs_arg_texts :: "str list"

definition chain_variable :: "str \<Rightarrow> chain_segment" where
  "chain_variable name = \<lparr>cs_name = name, cs_arg_count = None, cs_arg_types = [], cs_arg_texts = []\<rparr>"

definition chain_method_with_types :: "str \<Rightarrow> nat \<Rightarrow> type_name list \<Rightarrow> str list \<Rightarrow> chain_segment" where
  "chain_method_with_types name count types texts =
     \<lparr>cs_name = name, cs_arg_count = Some count, cs_arg_types = types, cs_arg_texts = texts\<rparr>"

definition chain_method :: "str \<Rightarrow> nat \<Rightarrow> chain_segment" where
  "chain_method name count = chain_method_with_types name count [] []"

text \<open>The loop of \<open>extract_method_name\<close> after an opening bracket, at depth \<open>d\<close>.\<close>

fun after_type_args :: "int \<Rightarrow> str \<Rightarrow> str option" where
  "after_type_args d [] = None"
| "after_type_args d (c # s) =
     (if c = CHR ''<'' then after_type_args (d + 1) s
      else if c = CHR ''>'' then
        (if d - 1 = 0 then Some (trim_start s) else after_type_args (d - 1) s)
      else after_type_args d s)"

definition extract_method_name :: "str \<Rightarrow> str" where
  "extract_method_name head =
     (let trimmed = trim head
      in if \<not> starts_with trimmed ''<'' then trimmed
         else (case after_type_args 0 trimmed of Some name \<Rightarrow> name | None \<Rightarrow> trimmed))"

record chain_state =
  ch_segments :: "chain_segment list"
  ch_current :: str
  ch_paren :: nat
  ch_angle :: nat
  ch_in_method :: bool
  ch_arg_start :: nat
  ch_arg_texts :: "str list"

definition chain_start :: chain_state where
  "chain_start = \<lparr>ch_segments = [], ch_current = [], ch_paren = 0, ch_angle = 0, ch_in_method = False,
     ch_arg_start = 0, ch_arg_texts = []\<rparr>"

text \<open>
  The arms of the \<open>match\<close>. The depths are \<open>i32\<close> counters that never become negative and stay below the
  length of the text. \<open>expr[arg_start..char_pos]\<close> begins after an opening bracket or a comma.
\<close>

definition chain_push :: "char \<Rightarrow> chain_state \<Rightarrow> chain_state" where
  "chain_push c st = (if ch_paren st = 0 then st\<lparr>ch_current := ch_current st @ [c]\<rparr> else st)"

definition chain_arg :: "str \<Rightarrow> nat \<Rightarrow> chain_state \<Rightarrow> str" where
  "chain_arg expr pos st = trim (take (pos - ch_arg_start st) (drop (ch_arg_start st) expr))"

definition chain_open :: "nat \<Rightarrow> chain_state \<Rightarrow> chain_state" where
  "chain_open pos st =
     (let st' = st\<lparr>ch_paren := ch_paren st + 1\<rparr>
      in if ch_paren st' = 1 then st'\<lparr>ch_in_method := True, ch_arg_start := pos + 1, ch_arg_texts := []\<rparr>
         else st')"

definition chain_close :: "str \<Rightarrow> nat \<Rightarrow> chain_state \<Rightarrow> chain_state" where
  "chain_close expr pos st =
     (let st' = st\<lparr>ch_paren := ch_paren st - 1\<rparr>
      in if ch_paren st' = 0 \<and> ch_in_method st' then
           (let arg = chain_arg expr pos st';
                texts = (if arg \<noteq> [] then ch_arg_texts st' @ [arg] else ch_arg_texts st')
            in st'\<lparr>ch_segments := ch_segments st' @
                     [chain_method_with_types (extract_method_name (ch_current st')) (length texts) [] texts],
                   ch_current := [], ch_arg_texts := [], ch_in_method := False\<rparr>)
         else st')"

definition chain_flush :: "str \<Rightarrow> chain_state \<Rightarrow> chain_state" where
  "chain_flush next st =
     (let trimmed = trim (ch_current st)
      in st\<lparr>ch_segments := (if trimmed \<noteq> [] \<and> \<not> ch_in_method st
                            then ch_segments st @ [chain_variable trimmed] else ch_segments st),
            ch_current := next\<rparr>)"

definition chain_step :: "str \<Rightarrow> nat \<times> char \<Rightarrow> chain_state \<Rightarrow> chain_state" where
  "chain_step expr = (\<lambda>(pos, c) st.
     if c = CHR ''<'' then chain_push c (st\<lparr>ch_angle := ch_angle st + 1\<rparr>)
     else if c = CHR ''>'' then chain_push c (st\<lparr>ch_angle := ch_angle st - 1\<rparr>)
     else if c = CHR ''('' then chain_open pos st
     else if c = CHR '')'' then chain_close expr pos st
     else if c = CHR '','' \<and> ch_paren st = 1 \<and> ch_in_method st \<and> ch_angle st = 0 then
       st\<lparr>ch_arg_texts := ch_arg_texts st @ [chain_arg expr pos st], ch_arg_start := pos + 1\<rparr>
     else if c = CHR ''.'' \<and> ch_paren st = 0 \<and> ch_angle st = 0 then chain_flush [] st
     else if c = CHR ''['' \<and> ch_paren st = 0 \<and> ch_angle st = 0 \<and> \<not> ch_in_method st then chain_flush ''['' st
     else if c = CHR '']'' \<and> ch_paren st = 0 \<and> ch_angle st = 0 \<and> \<not> ch_in_method st
             \<and> starts_with (ch_current st) ''['' then
       st\<lparr>ch_segments := ch_segments st @ [chain_variable (ch_current st @ '']'')], ch_current := []\<rparr>
     else chain_push c st)"

definition parse_chain_from_expr :: "str \<Rightarrow> chain_segment list" where
  "parse_chain_from_expr expr =
     (let st = fold (chain_step expr) (List.enumerate 0 expr) chain_start;
          trimmed = trim (ch_current st)
      in if trimmed \<noteq> [] \<and> ch_paren st = 0 \<and> \<not> ch_in_method st
         then ch_segments st @ [chain_variable trimmed] else ch_segments st)"

subsection \<open>Laws of bindings\<close>

text \<open>The variables that a match meets, with the types they stand against, in order.\<close>

fun occurrences :: "jvm_type \<Rightarrow> jvm_type \<Rightarrow> str set \<Rightarrow> (str \<times> jvm_type) list"
  and arg_occurrences :: "jvm_type list \<Rightarrow> jvm_type list \<Rightarrow> str set \<Rightarrow> (str \<times> jvm_type) list" where
  "occurrences (TypeVar name) actual ps = (if name \<in> ps then [(name, actual)] else [])"
| "occurrences (Array f) actual ps = (case actual of Array a \<Rightarrow> occurrences f a ps | _ \<Rightarrow> [])"
| "occurrences (WildcardBound _ f) actual ps = occurrences f actual ps"
| "occurrences (Object _ fs) actual ps = (case actual of Object _ as \<Rightarrow> arg_occurrences fs as ps | _ \<Rightarrow> [])"
| "occurrences (Primitive _) actual ps = []"
| "occurrences Wildcard actual ps = []"
| "arg_occurrences (f # fs) (a # as) ps = occurrences f a ps @ arg_occurrences fs as ps"
| "arg_occurrences _ _ ps = []"

abbreviation bind_all :: "(str \<times> jvm_type) list \<Rightarrow> type_bindings \<times> str set \<Rightarrow> type_bindings \<times> str set" where
  "bind_all occ st \<equiv> fold (\<lambda>(n, t). bind_type_var n t) occ st"

lemma bind_occurrences:
  "bind_method_type_vars f a ps st = bind_all (occurrences f a ps) st"
  "bind_type_args fs as ps st = bind_all (arg_occurrences fs as ps) st"
  by (induction f a ps st and fs as ps st rule: bind_method_type_vars_bind_type_args.induct)
     (auto split: jvm_type.split)

lemma bind_all_spec:
  "bind_all occ ([], {}) = (b, C) \<Longrightarrow>
     hget b n = hget occ n \<and> (n \<in> C \<longleftrightarrow> (\<exists>t\<in>set occ. fst t = n \<and> hget occ n \<noteq> Some (snd t)))"
proof (induction occ arbitrary: b C rule: rev_induct)
  case (snoc x occ)
  obtain m t where x: "x = (m, t)" by fastforce
  obtain b' C' where st: "bind_all occ ([], {}) = (b', C')" by fastforce
  note IH = snoc.IH [OF st]
  have step: "bind_type_var m t (b', C') = (b, C)" using snoc.prems st x by simp
  have other: "hget b n = hget b' n \<and> (n \<in> C \<longleftrightarrow> n \<in> C')" if "n \<noteq> m"
    using step that by (auto simp: bind_type_var_def split: if_splits option.splits)
  show ?case
  proof (cases "n = m")
    case False
    with other IH x show ?thesis by (auto simp: map_add_def split: option.splits)
  next
    case True
    have ex: "hget occ m = None \<Longrightarrow> m \<notin> fst ` set occ" by (simp add: map_of_eq_None_iff)
    show ?thesis
    proof (cases "hget occ m")
      case None
      with ex have "\<not> (\<exists>t\<in>set occ. fst t = m)" by force
      with None IH step x True show ?thesis
        by (auto simp: bind_type_var_def map_add_def split: if_splits)
    next
      case (Some s)
      with IH step x True show ?thesis
        by (auto simp: bind_type_var_def map_add_def split: if_splits)
    qed
  qed
qed simp

lemma hget_drop_conflicted:
  "hget (drop_conflicted (b, C)) n = (if n \<in> C then None else hget b n)"
  by (induction b) (auto simp: drop_conflicted_def)

lemma bound_occurrences:
  "hget (drop_conflicted (bind_all occ ([], {}))) n = Some t \<longleftrightarrow>
     n \<in> fst ` set occ \<and> (\<forall>s. (n, s) \<in> set occ \<longrightarrow> s = t)"
proof -
  obtain b C where st: "bind_all occ ([], {}) = (b, C)" by fastforce
  note spec = bind_all_spec [OF st, of n]
  have "hget occ n = Some s \<Longrightarrow> (n, s) \<in> set occ" for s by (rule map_of_SomeD)
  moreover have "n \<in> fst ` set occ \<longleftrightarrow> hget occ n \<noteq> None" by (simp add: map_of_eq_None_iff)
  ultimately show ?thesis
    unfolding st hget_drop_conflicted using spec by (auto split: if_splits) blast+
qed

text \<open>Bounds of wildcards are looked through by a match.\<close>

fun erase_bounds :: "jvm_type \<Rightarrow> jvm_type" where
  "erase_bounds (WildcardBound _ t) = erase_bounds t"
| "erase_bounds (Array t) = Array (erase_bounds t)"
| "erase_bounds (Object n ts) = Object n (map erase_bounds ts)"
| "erase_bounds t = t"

lemma option_eqI: "(\<And>t. x = Some t \<longleftrightarrow> y = Some t) \<Longrightarrow> x = y"
  by (cases x; cases y) auto

lemma occurrences_of_instance:
  "set (occurrences f (substitute_type_vars (erase_bounds f) \<sigma>) ps)
     = {(n, substitute_type_vars (TypeVar n) \<sigma>) | n. n \<in> type_vars f \<inter> ps}"
proof (induction f)
  case (Object name fs)
  then have "set (arg_occurrences fs (map (\<lambda>f. substitute_type_vars (erase_bounds f) \<sigma>) fs) ps)
      = (\<Union>f\<in>set fs. {(n, substitute_type_vars (TypeVar n) \<sigma>) | n. n \<in> type_vars f \<inter> ps})"
    by (induction fs) auto
  then show ?case by (auto simp: comp_def)
qed auto

lemma substitute_erase_cong:
  "(\<And>n. n \<in> type_vars f \<Longrightarrow> hget b n = hget \<sigma> n) \<Longrightarrow>
     substitute_type_vars (erase_bounds f) b = substitute_type_vars (erase_bounds f) \<sigma>"
  by (induction f) auto

text \<open>
  C33. Inference of type arguments: when the argument types of a call are instances of the
  parameter types, wildcard bounds aside, under one substitution of the method's type parameters,
  inference finds exactly this substitution on the variables that occur, none of them in conflict,
  and it turns every parameter type back into its argument type. For other calls a variable is
  bound to a type exactly when it occurs and every occurrence stands against that type.
\<close>

theorem inference_finds_substitution:
  assumes "as = map (\<lambda>f. substitute_type_vars (erase_bounds f) \<sigma>) fs"
    and "\<And>n. n \<notin> ps \<Longrightarrow> hget \<sigma> n = None" "\<And>n. n \<in> ps \<Longrightarrow> hget \<sigma> n \<noteq> None"
    and "b = drop_conflicted (bind_type_args fs as ps ([], {}))"
  shows "(\<forall>n. hget b n = (if \<exists>f\<in>set fs. n \<in> type_vars f then hget \<sigma> n else None))
    \<and> map (\<lambda>f. substitute_type_vars (erase_bounds f) b) fs = as
    \<and> (\<forall>as' n t. hget (drop_conflicted (bind_type_args fs as' ps ([], {}))) n = Some t \<longleftrightarrow>
         n \<in> fst ` set (arg_occurrences fs as' ps) \<and> (\<forall>s. (n, s) \<in> set (arg_occurrences fs as' ps) \<longrightarrow> s = t))"
proof -
  have occ: "set (arg_occurrences fs as ps)
      = (\<Union>f\<in>set fs. {(n, substitute_type_vars (TypeVar n) \<sigma>) | n. n \<in> type_vars f \<inter> ps})"
    unfolding assms(1) by (induction fs) (auto simp: occurrences_of_instance)
  have "hget b n = Some t \<longleftrightarrow> (\<exists>f\<in>set fs. n \<in> type_vars f) \<and> hget \<sigma> n = Some t" for n t
  proof -
    have pair: "(n, s) \<in> set (arg_occurrences fs as ps) \<longleftrightarrow>
        (\<exists>f\<in>set fs. n \<in> type_vars f) \<and> n \<in> ps \<and> s = substitute_type_vars (TypeVar n) \<sigma>" for s
      unfolding occ by blast
    then have "n \<in> fst ` set (arg_occurrences fs as ps) \<longleftrightarrow> (\<exists>f\<in>set fs. n \<in> type_vars f) \<and> n \<in> ps"
      by (simp add: image_iff Bex_def split_paired_Ex)
    with pair show ?thesis
      unfolding assms(4) bind_occurrences bound_occurrences
      using assms(2,3) [of n] by (cases "n \<in> ps") auto
  qed
  then have b: "hget b n = (if \<exists>f\<in>set fs. n \<in> type_vars f then hget \<sigma> n else None)" for n
    by (intro option_eqI) simp
  then have "substitute_type_vars (erase_bounds f) b = substitute_type_vars (erase_bounds f) \<sigma>"
    if "f \<in> set fs" for f using that by (intro substitute_erase_cong) auto
  with b assms(1) show ?thesis by (auto simp: bind_occurrences bound_occurrences)
qed

theorem inference_finds_substitution_witness:
  "hget (drop_conflicted (bind_type_args
      [Object ''java/util/Map'' [TypeVar ''K'', WildcardBound (CHR ''+'') (TypeVar ''V'')], TypeVar ''K'']
      [Object ''java/util/Map'' [Object ''A'' [], Primitive (CHR ''I'')], Object ''A'' []]
      {''K'', ''V''} ([], {}))) ''V'' = Some (Primitive (CHR ''I''))"
  by (subst inference_finds_substitution [where \<sigma> = "[(''K'', Object ''A'' []), (''V'', Primitive (CHR ''I''))]",
        OF _ _ _ refl, THEN conjunct1, THEN spec]) auto

subsection \<open>Laws of call chains\<close>

lemma length_trim: "length (trim s) \<le> length s"
  unfolding trim_def trim_start_def by (rule le_trans [OF length_trim_end length_dropWhile_le])

lemma chain_step_texts:
  assumes "pos < length expr"
    and "\<forall>s\<in>set (ch_segments st). \<forall>t\<in>set (cs_arg_texts s). length t < length expr"
    and "\<forall>t\<in>set (ch_arg_texts st). length t < length expr"
  shows "(\<forall>s\<in>set (ch_segments (chain_step expr (pos, c) st)). \<forall>t\<in>set (cs_arg_texts s). length t < length expr)
    \<and> (\<forall>t\<in>set (ch_arg_texts (chain_step expr (pos, c) st)). length t < length expr)"
proof -
  have "length (take (pos - i) (drop i expr)) < length expr" for i using assms(1) by simp
  then have "length (chain_arg expr pos st') < length expr" for st'
    unfolding chain_arg_def by (rule le_less_trans [OF length_trim])
  with assms(2,3) show ?thesis
    by (simp add: chain_step_def chain_push_def chain_open_def chain_close_def chain_flush_def Let_def
          chain_variable_def chain_method_with_types_def)
qed

lemma chain_texts_shorter:
  assumes "s \<in> set (parse_chain_from_expr expr)" "t \<in> set (cs_arg_texts s)"
  shows "length t < length expr"
proof -
  let ?ok = "\<lambda>st. (\<forall>s\<in>set (ch_segments st). \<forall>t\<in>set (cs_arg_texts s). length t < length expr)
    \<and> (\<forall>t\<in>set (ch_arg_texts st). length t < length expr)"
  have "?ok (fold (chain_step expr) ps st)" if "\<forall>p\<in>set ps. fst p < length expr" "?ok st" for ps st
    using that
  proof (induction ps arbitrary: st)
    case (Cons p ps)
    obtain i c where p: "p = (i, c)" by fastforce
    with Cons.prems have "?ok (chain_step expr p st)" using chain_step_texts [of i expr st c] by simp
    with Cons.IH [of "chain_step expr p st"] Cons.prems show ?case by simp
  qed simp
  from this [of "List.enumerate 0 expr" chain_start]
  have "?ok (fold (chain_step expr) (List.enumerate 0 expr) chain_start)"
    by (auto simp: in_set_enumerate_eq chain_start_def)
  with assms show ?thesis
    by (auto simp: parse_chain_from_expr_def Let_def chain_variable_def split: if_splits)
qed

end
