(* ===== verification/Type_Resolver.thy ===== *)
theory Type_Resolver
  imports Type_Bindings
begin

text \<open>
  \<open>TypeResolver\<close> of \<open>src/semantic/types.rs\<close>: the types of expressions, method calls and call chains
  over a view of the index.

  A method returns \<open>rust_panic + 'a option\<close>: the look-ups in the view may panic, and the source's
  \<open>?\<close> on an \<open>Option\<close> is \<open>and_some\<close>. The types of lambda bodies are found by resolving the call chain
  of the body, so \<open>resolve_chain\<close> calls itself through overload selection. The functions on the way
  take the recursive call as their argument \<open>chain\<close>, and \<open>resolve_chain_n\<close> ties the knot with a
  bound on the depth; the laws show that the bound does not matter once it exceeds the length of the
  longest argument text.
\<close>

subsection \<open>Data\<close>

definition and_some :: "'e + 'a option \<Rightarrow> ('a \<Rightarrow> 'e + 'b option) \<Rightarrow> 'e + 'b option" where
  "and_some r f = and_then r (\<lambda>x. case x of None \<Rightarrow> Inr None | Some y \<Rightarrow> f y)"

lemma and_some_simps [simp]:
  "and_some (Inl e) f = Inl e" "and_some (Inr None) f = Inr None" "and_some (Inr (Some x)) f = f x"
  by (simp_all add: and_some_def)

text \<open>\<open>slice.get(i)\<close>\<close>

definition nth_opt :: "'a list \<Rightarrow> nat \<Rightarrow> 'a option" where
  "nth_opt xs i = (if i < length xs then Some (xs ! i) else None)"

datatype local_var_decl_kind = Explicit | VarSyntax

record local_var =
  lv_name :: str
  lv_type_internal :: type_name
  lv_decl_kind :: local_var_decl_kind
  lv_init_expr :: "str option"

datatype functional_compat_status = CompatExact | CompatPartial | CompatIncompatible

record call_args =
  ca_count :: nat
  ca_types :: "type_name list"
  ca_texts :: "str list"

record eval_context =
  ec_locals :: "local_var list"
  ec_enclosing :: "str option"
  ec_qualifier_resolver :: "(str \<Rightarrow> type_name option) option"

type_synonym chain_resolver =
  "chain_segment list \<Rightarrow> local_var list \<Rightarrow> str option \<Rightarrow> rust_panic + type_name option"

definition ACC_ABSTRACT :: "16 word" where "ACC_ABSTRACT = 0x0400"
definition ACC_INTERFACE :: "16 word" where "ACC_INTERFACE = 0x0200"

text \<open>\<open>generic_signature.unwrap_or_else(|| desc())\<close>\<close>

definition method_signature :: "method_summary \<Rightarrow> str" where
  "method_signature m = (case ms_generic_signature m of Some s \<Rightarrow> s | None \<Rightarrow> method_desc m)"

subsection \<open>Simple expressions\<close>

definition digits_value :: "str \<Rightarrow> nat" where
  "digits_value ds = fold (\<lambda>c n. 10 * n + (of_char c - 48)) ds 0"

text \<open>\<open>parse::<i64>().is_ok()\<close>\<close>

definition parses_i64 :: "str \<Rightarrow> bool" where
  "parses_i64 s =
     (let negative = starts_with s ''-'';
          ds = (if negative \<or> starts_with s ''+'' then drop 1 s else s)
      in ds \<noteq> [] \<and> list_all is_ascii_digit ds
         \<and> (if negative then digits_value ds \<le> 2 ^ 63 else digits_value ds < 2 ^ 63))"

text \<open>A literal that ends in one of two letters, the rest of allowed characters.\<close>

definition suffixed_literal :: "char \<Rightarrow> char \<Rightarrow> (char \<Rightarrow> bool) \<Rightarrow> str \<Rightarrow> bool" where
  "suffixed_literal c c' allowed expr =
     (case (case strip_suffix expr [c] of Some p \<Rightarrow> Some p | None \<Rightarrow> strip_suffix expr [c']) of
        None \<Rightarrow> False | Some prefix \<Rightarrow> list_all allowed prefix \<and> prefix \<noteq> [])"

definition literal_type :: "str \<Rightarrow> type_name option" where
  "literal_type expr =
     (if parses_i64 expr then Some (type_name_new ''int'')
      else if suffixed_literal (CHR ''L'') (CHR ''l'') is_ascii_digit expr then Some (type_name_new ''long'')
      else if suffixed_literal (CHR ''f'') (CHR ''F'') (\<lambda>c. is_ascii_digit c \<or> c = CHR ''.'') expr
        then Some (type_name_new ''float'')
      else if suffixed_literal (CHR ''d'') (CHR ''D'') (\<lambda>c. is_ascii_digit c \<or> c = CHR ''.'') expr
        then Some (type_name_new ''double'')
      else if contains_char expr (CHR ''.'') \<and> list_all (\<lambda>c. is_ascii_digit c \<or> c = CHR ''.'') expr
              \<and> \<not> starts_with expr ''.'' \<and> \<not> ends_with expr ''.''
        then Some (type_name_new ''double'')
      else None)"

text \<open>The type after \<open>new\<close>, with the array dimensions that follow it.\<close>

definition new_base_type :: "'c index_view \<Rightarrow> str option \<Rightarrow> str \<Rightarrow> type_name" where
  "new_base_type v enclosing raw_ty =
     (if raw_ty \<in> {''byte'', ''short'', ''int'', ''long'', ''float'', ''double'', ''boolean'', ''char''}
      then type_name_new raw_ty
      else
        (let scoped = (\<lambda>name. case enclosing of
                         Some enc \<Rightarrow> map_option cm_internal_name (resolve_scoped_inner_class v enc name)
                       | None \<Rightarrow> None);
             resolve_head = (\<lambda>head.
               if contains_char head (CHR ''.'')
               then map_option cm_internal_name (view_get_class v (dots_to_slashes head))
               else scoped head);
             resolved = (if contains_char raw_ty (CHR ''.'')
                         then map_option cm_internal_name (resolve_qualified_type_path resolve_head v raw_ty)
                         else scoped raw_ty)
         in case resolved of Some internal \<Rightarrow> internal_type internal | None \<Rightarrow> type_name_new raw_ty))"

definition resolve_new :: "'c index_view \<Rightarrow> str option \<Rightarrow> str \<Rightarrow> type_name option" where
  "resolve_new v enclosing rest =
     (let boundary = length (takeWhile (\<lambda>c. c \<notin> {CHR ''('', CHR ''<'', CHR ''['', CHR ''{''}) rest);
          raw_ty = trim (take boundary rest)
      in if raw_ty = [] then None
         else
           (let base = new_base_type v enclosing raw_ty;
                after = trim_start (drop boundary rest)
            in if starts_with after ''['' \<or> starts_with after ''{'' then
                 (let dims = count_char (takeWhile (\<lambda>c. c \<noteq> CHR ''{'') after) (CHR ''['')
                  in Some ((wrap_array ^^ dims) base))
               else Some base))"

definition field_type :: "field_summary \<Rightarrow> type_name option" where
  "field_type f =
     (case singleton_descriptor_to_type (fs_descriptor f) of
        Some ty \<Rightarrow> Some (type_name_new ty)
      | None \<Rightarrow> parse_single_type_to_internal (fs_descriptor f))"

text \<open>The cases of \<open>resolve\<close> after \<open>new\<close> and array accesses.\<close>

definition resolve_name ::
  "'c index_view \<Rightarrow> local_var list \<Rightarrow> str option \<Rightarrow> str \<Rightarrow> rust_panic + type_name option" where
  "resolve_name v locals enclosing expr =
     (if expr = ''this'' then Inr (map_option internal_type enclosing)
      else if starts_with expr [CHR 0x22] then Inr (Some (type_name_new ''java/lang/String''))
      else if expr = ''true'' \<or> expr = ''false'' then Inr (Some (type_name_new ''boolean''))
      else case find (\<lambda>lv. lv_name lv = expr) locals of
        Some lv \<Rightarrow> Inr (Some (lv_type_internal lv))
      | None \<Rightarrow>
          and_then (case enclosing of None \<Rightarrow> Inr None | Some enc \<Rightarrow> lookup_field_in_hierarchy v enc expr)
            (\<lambda>field. Inr (case field of
                 Some f \<Rightarrow> field_type f
               | None \<Rightarrow>
                   if view_get_class v expr \<noteq> None then Some (type_name_new expr)
                   else literal_type expr)))"

lemma length_trim_take: "rfind_char s c = Some i \<Longrightarrow> length (trim (take i s)) < length s"
proof -
  assume "rfind_char s c = Some i"
  then have "i < length s" by (cases s) (auto simp: rfind_char_def dest!: find_char_Some)
  then show ?thesis by (intro le_less_trans [OF length_trim]) simp
qed

function resolve ::
  "'c index_view \<Rightarrow> local_var list \<Rightarrow> str option \<Rightarrow> str \<Rightarrow> rust_panic + type_name option" where
  "resolve v locals enclosing raw =
     (let expr = trim raw
      in case strip_prefix expr ''new '' of
           Some rest \<Rightarrow> Inr (resolve_new v enclosing (trim rest))
         | None \<Rightarrow>
             (case (if ends_with expr '']'' then rfind_char expr (CHR ''['') else None) of
                None \<Rightarrow> resolve_name v locals enclosing expr
              | Some bracket_idx \<Rightarrow>
                  (let array_expr = trim (take bracket_idx expr)
                   in if array_expr = [] then resolve_name v locals enclosing expr
                      else and_then (resolve v locals enclosing array_expr) (\<lambda>array_type.
                        case array_type of
                          Some t \<Rightarrow> Inr (element_type t)
                        | None \<Rightarrow> resolve_name v locals enclosing expr))))"
  by pat_completeness auto
termination
proof (relation "measure (\<lambda>(v, l, e, raw). length raw)", goal_cases)
  case (2 v locals enclosing raw expr bracket_idx array_expr)
  then have "rfind_char expr (CHR ''['') = Some bracket_idx" by (simp split: if_splits)
  from length_trim_take [OF this] 2 length_trim [of raw] show ?case by simp
qed simp

declare resolve.simps [simp del]

subsection \<open>Owners of methods\<close>

definition resolve_owner_from_text :: "'c index_view \<Rightarrow> str \<Rightarrow> str option" where
  "resolve_owner_from_text v raw =
     (let text = takeWhile (\<lambda>c. c \<noteq> CHR ''<'') (trim raw)
      in if text = [] then None
         else if contains_char text (CHR ''/'') then map_option (\<lambda>_. text) (view_get_class v text)
         else if contains_char text (CHR ''.'')
           then map_option (\<lambda>_. dots_to_slashes text) (view_get_class v (dots_to_slashes text))
         else if view_get_class v (''java/lang/'' @ text) \<noteq> None then Some (''java/lang/'' @ text)
         else map_option cm_internal_name (get_unique_class_by_simple_name v text))"

definition resolve_owner_from_text_with_context ::
  "'c index_view \<Rightarrow> str \<Rightarrow> (str \<Rightarrow> type_name option) option \<Rightarrow> str option" where
  "resolve_owner_from_text_with_context v raw qualifier_resolver =
     (case (case qualifier_resolver of None \<Rightarrow> None | Some f \<Rightarrow> f raw) of
        Some ty \<Rightarrow>
          if is_exact_class ty then Some (erased_internal ty)
          else (case resolve_owner_from_text v (erased_internal ty) of
                  Some found \<Rightarrow> Some found | None \<Rightarrow> resolve_owner_from_text v raw)
      | None \<Rightarrow> resolve_owner_from_text v raw)"

definition find_declaring_class_generic_signature ::
  "'c index_view \<Rightarrow> str \<Rightarrow> method_summary \<Rightarrow> rust_panic + str option" where
  "find_declaring_class_generic_signature v receiver_owner selected =
     map_ok (\<lambda>c. case c of None \<Rightarrow> None | Some c \<Rightarrow> cm_generic_signature c)
       (find_declaring_method_owner v receiver_owner (ms_name selected) (method_desc selected))"

text \<open>The class type parameters and receiver arguments that a member of the receiver is read with.\<close>

definition receiver_params ::
  "'c index_view \<Rightarrow> str \<Rightarrow> method_summary \<Rightarrow> rust_panic + str list \<times> jvm_type list" where
  "receiver_params v receiver_internal selected =
     and_then (split_internal_name receiver_internal) (\<lambda>(receiver_owner, receiver_args).
       map_ok (\<lambda>sig. case sig of
            Some sig \<Rightarrow> (parse_class_type_parameters sig, receiver_args) | None \<Rightarrow> ([], []))
         (find_declaring_class_generic_signature v receiver_owner selected))"

definition canonical_base :: "'c index_view \<Rightarrow> str \<Rightarrow> type_name \<Rightarrow> type_name" where
  "canonical_base v owner_internal ty =
     (let base = erased_internal ty;
          with_base = (\<lambda>b. TypeName b Internal (tn_args ty) (array_dims ty))
      in if is_primitive ty \<or> is_type_var ty \<or> is_unknown ty \<or> is_null ty \<or> is_wildcard_like ty then ty
         else if base = [] then ty
         else if view_get_class v base \<noteq> None then with_base (base_internal ty)
         else if list_all is_ascii_uppercase base then ty
         else if base = last_piece (CHR ''$'') (last_piece (CHR ''/'') owner_internal)
           then with_base owner_internal
         else
           (let outer = (case rfind_char owner_internal (CHR ''$'') of
                  None \<Rightarrow> None | Some i \<Rightarrow> Some (take i owner_internal @ ''$'' @ base));
                sibling = (case rfind_char owner_internal (CHR ''/'') of
                  None \<Rightarrow> None | Some i \<Rightarrow> Some (take i owner_internal @ ''/'' @ base));
                known = (\<lambda>c. case c of None \<Rightarrow> False | Some n \<Rightarrow> view_get_class v n \<noteq> None)
            in if known outer then with_base (the outer)
               else if known sibling then with_base (the sibling)
               else if view_get_class v (''java/lang/'' @ base) \<noteq> None then with_base (''java/lang/'' @ base)
               else (case view_get_classes_by_simple_name v base of
                       [c] \<Rightarrow> with_base (cm_internal_name c) | _ \<Rightarrow> ty)))"

fun canonicalize_type_in_owner_scope :: "'c index_view \<Rightarrow> str \<Rightarrow> type_name \<Rightarrow> type_name" where
  "canonicalize_type_in_owner_scope v owner_internal (TypeName b k as d) =
     canonical_base v owner_internal
       (TypeName b k (map (canonicalize_type_in_owner_scope v owner_internal) as) d)"

subsection \<open>Functional interfaces\<close>

definition fallback_missing_abstract_sam_method ::
  "str \<Rightarrow> class_metadata \<Rightarrow> method_summary list \<Rightarrow> method_summary option" where
  "fallback_missing_abstract_sam_method owner_name c candidates =
     (case candidates of
        [m] \<Rightarrow>
          if cm_access_flags c AND ACC_INTERFACE \<noteq> 0
             \<or> list_ex (\<lambda>a. an_internal_name a = ''java/lang/FunctionalInterface'') (cm_annotations c)
             \<or> starts_with owner_name ''java/util/function/''
             \<or> owner_name \<in> {''java/lang/Runnable'', ''java/util/concurrent/Callable'', ''java/util/Comparator''}
          then Some m else None
      | _ \<Rightarrow> None)"

text \<open>The single abstract method among the candidates, or the fallback when none is abstract.\<close>

definition select_sam :: "str \<Rightarrow> class_metadata \<Rightarrow> method_summary list \<Rightarrow> method_summary option" where
  "select_sam owner_name c candidates =
     (case filter (\<lambda>m. ms_access_flags m AND ACC_ABSTRACT \<noteq> 0) candidates of
        [] \<Rightarrow> fallback_missing_abstract_sam_method owner_name c candidates
      | [m] \<Rightarrow> Some m
      | _ \<Rightarrow> None)"

definition functional_candidates :: "method_summary list \<Rightarrow> method_summary list" where
  "functional_candidates methods =
     fst (fold (push_new (\<lambda>m. ms_name m @ ''#'' @ method_desc m))
       (filter (\<lambda>m. ms_access_flags m AND ACC_STATIC = 0 \<and> \<not> is_object_method (ms_name m) (method_desc m))
          methods) ([], {}))"

text \<open>\<open>collect::<Option<Vec<_>>>()\<close>\<close>

fun collect_options :: "'a option list \<Rightarrow> 'a list option" where
  "collect_options [] = Some []"
| "collect_options (x # xs) =
     (case x of None \<Rightarrow> None | Some y \<Rightarrow> map_option (\<lambda>ys. y # ys) (collect_options xs))"

definition extract_sam_signature_from_functional_jvm_type ::
  "'c index_view \<Rightarrow> jvm_type \<Rightarrow> rust_panic + (jvm_type list \<times> jvm_type) option" where
  "extract_sam_signature_from_functional_jvm_type v ty =
     (let ty_name = to_type_name ty; owner_name = erased_internal ty_name
      in case view_get_class v owner_name of
           None \<Rightarrow> Inr None
         | Some c \<Rightarrow>
             (let class_type_params = (case cm_generic_signature c of
                                         Some s \<Rightarrow> parse_class_type_parameters s | None \<Rightarrow> [])
              in case collect_options (map type_name_to_jvm_type (tn_args ty_name)) of
                   None \<Rightarrow> Inr None
                 | Some type_args \<Rightarrow>
                     map_ok (\<lambda>found.
                       case select_sam owner_name c (functional_candidates (fst found)) of
                         None \<Rightarrow> None
                       | Some m \<Rightarrow>
                           (case parse_method_signature_types (method_signature m) of
                              None \<Rightarrow> None
                            | Some (params, ret) \<Rightarrow>
                                if class_type_params \<noteq> [] \<and> length class_type_params = length type_args
                                then Some (map (\<lambda>p. substitute p class_type_params type_args) params,
                                           substitute ret class_type_params type_args)
                                else Some (params, ret)))
                       (view_collect_inherited_members v owner_name)))"

definition specialize_constructor_owner_return ::
  "'c index_view \<Rightarrow> str \<Rightarrow> jvm_type \<Rightarrow> jvm_type option" where
  "specialize_constructor_owner_return v owner_internal input_ty =
     (case view_get_class v owner_internal of
        None \<Rightarrow> None
      | Some c \<Rightarrow>
          (let type_params = (case cm_generic_signature c of
                                Some s \<Rightarrow> parse_class_type_parameters s | None \<Rightarrow> [])
           in if length type_params \<noteq> 1 then None else Some (Object owner_internal [input_ty])))"

text \<open>The type a constructor reference returns, specialised to the input of the target if that is concrete.\<close>

definition constructor_reference_return :: "'c index_view \<Rightarrow> str \<Rightarrow> jvm_type option \<Rightarrow> jvm_type" where
  "constructor_reference_return v owner_name target =
     (case (case (case target of None \<Rightarrow> None | Some t \<Rightarrow> extract_functional_input_type t) of
              Some input \<Rightarrow>
                if is_concrete_jvm_type input then specialize_constructor_owner_return v owner_name input
                else None
            | None \<Rightarrow> None) of
        Some t \<Rightarrow> t | None \<Rightarrow> Object owner_name [])"

text \<open>
  The loop of \<open>resolve_method_reference_return_on_owner\<close>, with the fallback found so far; a signature
  that does not parse ends it.
\<close>

fun reference_return_loop :: "jvm_type option \<Rightarrow> method_summary list \<Rightarrow> jvm_type option" where
  "reference_return_loop fallback [] = fallback"
| "reference_return_loop fallback (m # ms) =
     (case parse_method_signature_types (method_signature m) of
        None \<Rightarrow> None
      | Some (_, ret) \<Rightarrow>
          if ret = Primitive (CHR ''V'') then reference_return_loop fallback ms
          else if ms_params m = [] then Some ret
          else reference_return_loop (if fallback = None then Some ret else fallback) ms)"

definition resolve_method_reference_return_on_owner ::
  "'c index_view \<Rightarrow> str \<Rightarrow> str \<Rightarrow> rust_panic + jvm_type option" where
  "resolve_method_reference_return_on_owner v owner_internal member_name =
     map_ok (reference_return_loop None) (lookup_methods_in_hierarchy v owner_internal member_name)"

definition build_lambda_param_locals_from_target ::
  "'c index_view \<Rightarrow> str \<Rightarrow> jvm_type option \<Rightarrow> rust_panic + local_var list option" where
  "build_lambda_param_locals_from_target v lambda_text target_param_ty =
     (case (target_param_ty, parse_lambda_text_parts lambda_text) of
        (Some target, Some (names, _)) \<Rightarrow>
          and_some (extract_sam_signature_from_functional_jvm_type v target) (\<lambda>(sam_params, _).
            Inr (if length names \<noteq> length sam_params then None
                 else Some (map2 (\<lambda>name ty. \<lparr>lv_name = name,
                        lv_type_internal = to_type_name (normalize_lambda_param_jvm_type ty),
                        lv_decl_kind = Explicit, lv_init_expr = None\<rparr>) names sam_params)))
      | _ \<Rightarrow> Inr None)"

text \<open>The class that the qualifier of a method reference denotes when it is read as an expression.\<close>

definition expression_owner ::
  "'c index_view \<Rightarrow> local_var list \<Rightarrow> str option \<Rightarrow> str \<Rightarrow> rust_panic + str option" where
  "expression_owner v locals enclosing qualifier =
     and_some (resolve v locals enclosing qualifier) (\<lambda>owner_ty.
       Inr (if is_exact_class owner_ty then Some (erased_internal owner_ty)
            else resolve_owner_from_text v (erased_internal owner_ty)))"

definition infer_functional_arg_return_shallow ::
  "(str \<Rightarrow> str option) \<Rightarrow> chain_resolver \<Rightarrow> 'c index_view \<Rightarrow> str \<Rightarrow> eval_context \<Rightarrow> jvm_type option
     \<Rightarrow> rust_panic + jvm_type option" where
  "infer_functional_arg_return_shallow block_return chain v arg_text ctx target =
     (let text = trim arg_text
      in if text = [] then Inr None
         else case parse_method_reference_text text of
           Some (qualifier, member, is_constructor) \<Rightarrow>
             if is_constructor then
               Inr (map_option (\<lambda>found. constructor_reference_return v found target)
                      (resolve_owner_from_text_with_context v qualifier (ec_qualifier_resolver ctx)))
             else
               and_some (if is_likely_type_qualifier qualifier
                         then Inr (resolve_owner_from_text_with_context v qualifier (ec_qualifier_resolver ctx))
                         else expression_owner v (ec_locals ctx) (ec_enclosing ctx) qualifier)
                 (\<lambda>found. map_ok (map_option box_primitive_jvm_type)
                            (resolve_method_reference_return_on_owner v found member))
         | None \<Rightarrow>
             (case extract_lambda_return_expression_text block_return text of
                None \<Rightarrow> Inr None
              | Some body \<Rightarrow>
                  and_then (build_lambda_param_locals_from_target v text target) (\<lambda>lambda_locals.
                    (let merged = (case lambda_locals of None \<Rightarrow> [] | Some ls \<Rightarrow> ls) @ ec_locals ctx;
                         parsed = parse_chain_from_expr body
                     in and_some (and_then (resolve v merged (ec_enclosing ctx) body) (\<lambda>body_ty.
                            case body_ty of
                              Some t \<Rightarrow> Inr (Some t)
                            | None \<Rightarrow> if parsed = [] then Inr None else chain parsed merged (ec_enclosing ctx)))
                          (\<lambda>body_ty. Inr (map_option box_primitive_jvm_type
                             (type_name_to_jvm_type
                                (canonicalize_type_in_owner_scope v
                                   (case ec_enclosing ctx of None \<Rightarrow> [] | Some e \<Rightarrow> e) body_ty))))))))"

definition covariant_return_var :: "str set \<Rightarrow> jvm_type \<Rightarrow> str option" where
  "covariant_return_var return_type_vars arg =
     (case arg of
        WildcardBound c (TypeVar name) \<Rightarrow>
          if c = CHR ''+'' \<and> name \<in> return_type_vars then Some name else None
      | TypeVar name \<Rightarrow> if name \<in> return_type_vars then Some name else None
      | _ \<Rightarrow> None)"

definition bind_return_type_var_from_functional_param ::
  "(str \<Rightarrow> str option) \<Rightarrow> chain_resolver \<Rightarrow> 'c index_view \<Rightarrow> jvm_type \<Rightarrow> str option \<Rightarrow> type_name option
     \<Rightarrow> eval_context \<Rightarrow> str set \<Rightarrow> type_bindings \<times> str set \<Rightarrow> rust_panic + type_bindings \<times> str set" where
  "bind_return_type_var_from_functional_param block_return chain v param_ty arg_text arg_ty ctx
       return_type_vars st =
     (case param_ty of
        Object _ type_args \<Rightarrow>
          (case find_map (covariant_return_var return_type_vars) type_args of
             None \<Rightarrow> Inr st
           | Some ret_var \<Rightarrow>
               map_ok (\<lambda>inferred. case inferred of None \<Rightarrow> st | Some t \<Rightarrow> bind_type_var ret_var t st)
                 (case (case arg_ty of
                          Some ty \<Rightarrow> if is_unknown ty then None else type_name_to_jvm_type ty
                        | None \<Rightarrow> None) of
                    Some t \<Rightarrow> Inr (Some t)
                  | None \<Rightarrow>
                      (case arg_text of
                         None \<Rightarrow> Inr None
                       | Some txt \<Rightarrow>
                           infer_functional_arg_return_shallow block_return chain v txt ctx (Some param_ty))))
      | _ \<Rightarrow> Inr st)"

subsection \<open>Bindings of a call\<close>

text \<open>\<open>usize::MAX\<close>, the index that no argument has.\<close>

definition USIZE_MAX :: nat where "USIZE_MAX = 2 ^ 64 - 1"

text \<open>The parameter type an argument is matched with; the element type for a variable-arity argument.\<close>

definition mapped_formal ::
  "method_summary \<Rightarrow> nat \<Rightarrow> overload_invocation_mode \<Rightarrow> jvm_type list \<Rightarrow> jvm_type option" where
  "mapped_formal selected arg_index mode params =
     (case map_argument_index_to_parameter selected arg_index mode (length params) of
        None \<Rightarrow> None
      | Some (mapped_index, vararg_element) \<Rightarrow>
          (case nth_opt params mapped_index of
             None \<Rightarrow> None
           | Some formal \<Rightarrow>
               if vararg_element then (case formal of Array inner \<Rightarrow> Some inner | _ \<Rightarrow> None)
               else Some formal))"

definition substitute_receiver :: "str list \<Rightarrow> jvm_type list \<Rightarrow> jvm_type \<Rightarrow> jvm_type" where
  "substitute_receiver class_type_params receiver_args ty =
     (if class_type_params \<noteq> [] \<and> receiver_args \<noteq> [] then substitute ty class_type_params receiver_args
      else ty)"

definition substitute_bindings :: "type_bindings \<Rightarrow> jvm_type \<Rightarrow> jvm_type" where
  "substitute_bindings bindings ty = (if bindings \<noteq> [] then substitute_type_vars ty bindings else ty)"

definition bind_argument ::
  "str set \<Rightarrow> str list \<Rightarrow> jvm_type list \<Rightarrow> jvm_type list \<Rightarrow> method_summary \<Rightarrow> nat
     \<Rightarrow> overload_invocation_mode \<Rightarrow> call_args \<Rightarrow> nat \<Rightarrow> type_bindings \<times> str set \<Rightarrow> type_bindings \<times> str set" where
  "bind_argument method_type_params class_type_params receiver_args params selected skip mode args arg_idx st =
     (let arg_text = (case nth_opt (ca_texts args) arg_idx of Some t \<Rightarrow> trim t | None \<Rightarrow> [])
      in if arg_idx = skip \<or> contains_str arg_text ''->'' \<or> contains_str arg_text ''::'' then st
         else case nth_opt (ca_types args) arg_idx of
           None \<Rightarrow> st
         | Some arg_ty \<Rightarrow>
             if is_unknown arg_ty then st
             else (case (mapped_formal selected arg_idx mode params, type_name_to_jvm_type arg_ty) of
                     (Some formal, Some actual) \<Rightarrow>
                       bind_method_type_vars (substitute_receiver class_type_params receiver_args formal)
                         actual method_type_params st
                   | _ \<Rightarrow> st))"

definition infer_method_type_bindings_from_non_lambda_args ::
  "'c index_view \<Rightarrow> str \<Rightarrow> jvm_type list \<Rightarrow> str \<Rightarrow> method_summary \<Rightarrow> nat \<Rightarrow> overload_invocation_mode
     \<Rightarrow> call_args \<Rightarrow> rust_panic + type_bindings" where
  "infer_method_type_bindings_from_non_lambda_args v sig params receiver_internal selected skip mode args =
     (let method_type_params = parse_method_type_parameters sig
      in if method_type_params = [] then Inr []
         else map_ok (\<lambda>(class_type_params, receiver_args).
                drop_conflicted
                  (fold (bind_argument (set method_type_params) class_type_params receiver_args params
                           selected skip mode args) [0..<ca_count args] ([], {})))
              (receiver_params v receiver_internal selected))"

text \<open>One turn of the loop over the parameters in \<open>infer_method_type_bindings_shallow\<close>.\<close>

definition bind_shallow_param ::
  "(str \<Rightarrow> str option) \<Rightarrow> chain_resolver \<Rightarrow> 'c index_view \<Rightarrow> str list \<Rightarrow> jvm_type list \<Rightarrow> str set
     \<Rightarrow> call_args \<Rightarrow> eval_context \<Rightarrow> nat \<times> jvm_type \<Rightarrow> type_bindings \<times> str set
     \<Rightarrow> rust_panic + type_bindings \<times> str set" where
  "bind_shallow_param block_return chain v class_type_params receiver_args return_type_vars args ctx =
     (\<lambda>(idx, param_ty) st.
       (let formal = substitute_bindings (fst st) (substitute_receiver class_type_params receiver_args param_ty);
            arg_ty = nth_opt (ca_types args) idx;
            functional = bind_return_type_var_from_functional_param block_return chain v formal
              (nth_opt (ca_texts args) idx) arg_ty ctx return_type_vars st
        in case formal of
             TypeVar name \<Rightarrow>
               if name \<in> return_type_vars then
                 Inr (case arg_ty of
                        None \<Rightarrow> st
                      | Some t \<Rightarrow> (case type_name_to_jvm_type t of
                                   None \<Rightarrow> st | Some actual \<Rightarrow> bind_type_var name actual st))
               else functional
           | _ \<Rightarrow> functional))"

fun try_fold :: "('a \<Rightarrow> 's \<Rightarrow> 'e + 's) \<Rightarrow> 'a list \<Rightarrow> 's \<Rightarrow> 'e + 's" where
  "try_fold f [] st = Inr st"
| "try_fold f (x # xs) st = and_then (f x st) (try_fold f xs)"

definition infer_method_type_bindings_shallow ::
  "(str \<Rightarrow> str option) \<Rightarrow> chain_resolver \<Rightarrow> 'c index_view \<Rightarrow> method_summary \<Rightarrow> str \<Rightarrow> jvm_type list \<Rightarrow> jvm_type
     \<Rightarrow> str \<Rightarrow> str option \<Rightarrow> call_args \<Rightarrow> eval_context \<Rightarrow> rust_panic + type_bindings" where
  "infer_method_type_bindings_shallow block_return chain v selected sig params ret receiver_internal
       class_generic_signature args ctx =
     (let return_type_vars = collect_type_vars ret {}
      in if parse_method_type_parameters sig = [] \<or> return_type_vars = {} then Inr []
         else
           and_then (split_internal_name receiver_internal) (\<lambda>(_, receiver_type_args).
             and_then (infer_method_type_bindings_from_non_lambda_args v sig params receiver_internal selected
                         USIZE_MAX Fixed args) (\<lambda>bindings.
               map_ok drop_conflicted
                 (try_fold (bind_shallow_param block_return chain v
                    (case class_generic_signature of Some s \<Rightarrow> parse_class_type_parameters s | None \<Rightarrow> [])
                    receiver_type_args return_type_vars args ctx)
                    (List.enumerate 0 params) (bindings, {})))))"

subsection \<open>Overloads at a call site\<close>

definition unknown_or_non_functional_target_status :: "'c index_view \<Rightarrow> jvm_type \<Rightarrow> functional_compat_status" where
  "unknown_or_non_functional_target_status v target =
     (case target of
        Primitive _ \<Rightarrow> CompatIncompatible
      | Array _ \<Rightarrow> CompatIncompatible
      | TypeVar _ \<Rightarrow> CompatPartial
      | Wildcard \<Rightarrow> CompatPartial
      | WildcardBound _ _ \<Rightarrow> CompatPartial
      | Object n _ \<Rightarrow> if view_get_class v n \<noteq> None then CompatIncompatible else CompatPartial)"

definition functional_return_compatibility_status ::
  "'c index_view \<Rightarrow> jvm_type \<Rightarrow> jvm_type \<Rightarrow> functional_compat_status" where
  "functional_return_compatibility_status v actual_ret sam_ret =
     (let status = (case tc_kind (type_compatibility v (to_type_name actual_ret) (to_type_name sam_ret)) of
                      IncompatibleConversion \<Rightarrow> CompatIncompatible
                    | NarrowingPrimitive \<Rightarrow> CompatIncompatible
                    | UnknownConversion \<Rightarrow> CompatPartial
                    | _ \<Rightarrow> CompatExact)
      in if sam_ret = Primitive (CHR ''V'') then CompatPartial
         else case sam_ret of
                TypeVar _ \<Rightarrow> CompatPartial | Wildcard \<Rightarrow> CompatPartial | WildcardBound _ _ \<Rightarrow> CompatPartial
              | _ \<Rightarrow> status)"

definition method_return_jvm_type :: "method_summary \<Rightarrow> jvm_type option" where
  "method_return_jvm_type m =
     (case parse_method_signature_types (method_signature m) of
        None \<Rightarrow> None | Some (_, ret) \<Rightarrow> if ret \<noteq> Primitive (CHR ''V'') then Some ret else None)"

definition evaluate_lambda_arg_compatibility ::
  "(str \<Rightarrow> str option) \<Rightarrow> chain_resolver \<Rightarrow> 'c index_view \<Rightarrow> str \<Rightarrow> jvm_type \<Rightarrow> eval_context
     \<Rightarrow> rust_panic + functional_compat_status" where
  "evaluate_lambda_arg_compatibility block_return chain v text target ctx =
     (case parse_lambda_text_parts text of
        None \<Rightarrow> Inr CompatPartial
      | Some (names, _) \<Rightarrow>
          and_then (extract_sam_signature_from_functional_jvm_type v target) (\<lambda>sam.
            case sam of
              None \<Rightarrow> Inr (unknown_or_non_functional_target_status v target)
            | Some (sam_params, sam_ret) \<Rightarrow>
                if length names \<noteq> length sam_params then Inr CompatIncompatible
                else map_ok (\<lambda>actual. case actual of
                         None \<Rightarrow> CompatPartial
                       | Some actual_ret \<Rightarrow> functional_return_compatibility_status v actual_ret sam_ret)
                       (infer_functional_arg_return_shallow block_return chain v text ctx (Some target))))"

text \<open>
  The loops of \<open>evaluate_method_reference_arg_compatibility\<close>. A candidate gives a verdict, or \<open>None\<close>
  when it is passed over; an exact verdict ends the search, the others are remembered as
  (\<open>saw_candidate\<close>, \<open>saw_partial\<close>).
\<close>

fun scan_verdicts ::
  "functional_compat_status option list \<Rightarrow> bool \<times> bool \<Rightarrow> functional_compat_status + bool \<times> bool" where
  "scan_verdicts [] seen = Inr seen"
| "scan_verdicts (verdict # rest) (saw_candidate, saw_partial) =
     (case verdict of
        None \<Rightarrow> scan_verdicts rest (saw_candidate, saw_partial)
      | Some CompatExact \<Rightarrow> Inl CompatExact
      | Some CompatPartial \<Rightarrow> scan_verdicts rest (True, True)
      | Some CompatIncompatible \<Rightarrow> scan_verdicts rest (True, saw_partial))"

definition constructor_verdict ::
  "'c index_view \<Rightarrow> str \<Rightarrow> jvm_type \<Rightarrow> jvm_type list \<Rightarrow> jvm_type \<Rightarrow> method_summary
     \<Rightarrow> functional_compat_status option" where
  "constructor_verdict v owner_name target sam_params sam_ret ctor =
     (if ms_name ctor \<noteq> ''<init>'' \<or> \<not> method_accepts_arity ctor (length sam_params) then None
      else Some (functional_return_compatibility_status v
                   (constructor_reference_return v owner_name (Some target)) sam_ret))"

definition reference_return_verdict :: "'c index_view \<Rightarrow> jvm_type \<Rightarrow> method_summary \<Rightarrow> functional_compat_status" where
  "reference_return_verdict v sam_ret m =
     (case method_return_jvm_type m of
        None \<Rightarrow> CompatPartial
      | Some ret \<Rightarrow> functional_return_compatibility_status v (box_primitive_jvm_type ret) sam_ret)"

definition type_owner_verdict ::
  "'c index_view \<Rightarrow> str \<Rightarrow> str \<Rightarrow> jvm_type \<Rightarrow> jvm_type list \<Rightarrow> jvm_type \<Rightarrow> method_summary
     \<Rightarrow> functional_compat_status option" where
  "type_owner_verdict v owner_name member_name target sam_params sam_ret m =
     (let static = (ms_access_flags m AND ACC_STATIC \<noteq> 0);
          static_form = (static \<and> method_accepts_arity m (length sam_params));
          unbound_form = (\<not> static \<and> sam_params \<noteq> [] \<and> method_accepts_arity m (length sam_params - 1));
          specialized_input = (case extract_functional_input_type target of
                                 Some t \<Rightarrow> if is_concrete_jvm_type t then Some (to_type_name t) else None
                               | None \<Rightarrow> None)
      in if \<not> method_reference_member_matches (ms_name m) member_name then None
         else if \<not> static_form \<and> \<not> unbound_form then None
         else if unbound_form \<and>
                 (case specialized_input of
                    None \<Rightarrow> False
                  | Some input_ty \<Rightarrow>
                      tc_kind (type_compatibility v input_ty (type_name_new owner_name))
                        \<in> {IncompatibleConversion, NarrowingPrimitive}) then None
         else (let verdict = reference_return_verdict v sam_ret m
               in if verdict = CompatExact \<and> unbound_form \<and> specialized_input = None
                  then Some CompatPartial else Some verdict))"

definition expression_owner_verdict ::
  "'c index_view \<Rightarrow> str \<Rightarrow> jvm_type list \<Rightarrow> jvm_type \<Rightarrow> method_summary \<Rightarrow> functional_compat_status option" where
  "expression_owner_verdict v member_name sam_params sam_ret m =
     (if \<not> method_reference_member_matches (ms_name m) member_name then None
      else if ms_access_flags m AND ACC_STATIC \<noteq> 0 \<or> \<not> method_accepts_arity m (length sam_params) then None
      else Some (reference_return_verdict v sam_ret m))"

definition owner_verdicts ::
  "'c index_view \<Rightarrow> (str \<Rightarrow> method_summary \<Rightarrow> functional_compat_status option) \<Rightarrow> str option
     \<Rightarrow> rust_panic + functional_compat_status option list" where
  "owner_verdicts v verdict owner_opt =
     (case owner_opt of
        None \<Rightarrow> Inr []
      | Some found \<Rightarrow> map_ok (\<lambda>members. map (verdict found) (fst members)) (view_collect_inherited_members v found))"

definition verdict_status :: "bool \<Rightarrow> functional_compat_status + bool \<times> bool \<Rightarrow> functional_compat_status" where
  "verdict_status saw_resolved_owner outcome =
     (case outcome of
        Inl status \<Rightarrow> status
      | Inr (saw_candidate, saw_partial) \<Rightarrow>
          if saw_candidate then (if saw_partial then CompatPartial else CompatIncompatible)
          else if saw_resolved_owner then CompatIncompatible else CompatPartial)"

text \<open>The members of the second owner are read only when the first gives no exact verdict.\<close>

definition evaluate_method_reference_arg_compatibility ::
  "'c index_view \<Rightarrow> str \<Rightarrow> jvm_type \<Rightarrow> eval_context \<Rightarrow> rust_panic + functional_compat_status" where
  "evaluate_method_reference_arg_compatibility v text target ctx =
     and_then (extract_sam_signature_from_functional_jvm_type v target) (\<lambda>sam.
       case sam of
         None \<Rightarrow> Inr (unknown_or_non_functional_target_status v target)
       | Some (sam_params, sam_ret) \<Rightarrow>
           (case parse_method_reference_text text of
              None \<Rightarrow> Inr CompatPartial
            | Some (qualifier, member_name, is_constructor) \<Rightarrow>
                (let type_owner = resolve_owner_from_text_with_context v qualifier (ec_qualifier_resolver ctx)
                 in if is_constructor then
                      Inr (case type_owner of
                             None \<Rightarrow> CompatPartial
                           | Some found \<Rightarrow>
                               (case view_get_class v found of
                                  None \<Rightarrow> CompatPartial
                                | Some c \<Rightarrow>
                                    verdict_status True
                                      (scan_verdicts (map (constructor_verdict v found target sam_params sam_ret)
                                         (cm_methods c)) (False, False))))
                    else
                      and_then (expression_owner v (ec_locals ctx) (ec_enclosing ctx) qualifier) (\<lambda>expr_owner.
                        and_then (owner_verdicts v (\<lambda>found. type_owner_verdict v found member_name target sam_params sam_ret)
                                    type_owner) (\<lambda>first.
                          case scan_verdicts first (False, False) of
                            Inl status \<Rightarrow> Inr status
                          | Inr seen \<Rightarrow>
                              map_ok (\<lambda>second. verdict_status (type_owner \<noteq> None \<or> expr_owner \<noteq> None)
                                        (scan_verdicts second seen))
                                (owner_verdicts v (\<lambda>_. expression_owner_verdict v member_name sam_params sam_ret)
                                   expr_owner))))))"

definition evaluate_functional_arg_compatibility ::
  "(str \<Rightarrow> str option) \<Rightarrow> chain_resolver \<Rightarrow> 'c index_view \<Rightarrow> str \<Rightarrow> jvm_type \<Rightarrow> eval_context
     \<Rightarrow> rust_panic + functional_compat_status" where
  "evaluate_functional_arg_compatibility block_return chain v arg_text target ctx =
     (let text = trim arg_text
      in if contains_str text ''->'' then evaluate_lambda_arg_compatibility block_return chain v text target ctx
         else if contains_str text ''::'' then evaluate_method_reference_arg_compatibility v text target ctx
         else Inr CompatPartial)"

definition resolve_formal_param_jvm_for_argument ::
  "method_summary \<Rightarrow> jvm_type list \<Rightarrow> nat \<Rightarrow> overload_invocation_mode \<Rightarrow> type_bindings \<Rightarrow> str list
     \<Rightarrow> jvm_type list \<Rightarrow> jvm_type option" where
  "resolve_formal_param_jvm_for_argument m params arg_index mode bindings class_type_params receiver_args =
     map_option (\<lambda>formal. substitute_bindings bindings (substitute_receiver class_type_params receiver_args formal))
       (mapped_formal m arg_index mode params)"

record callsite_overload_rank =
  cr_exact_functional_args :: nat
  cr_partial_functional_args :: nat
  cr_binding_count :: nat

record callsite_overload_match =
  co_overload :: overload_match
  co_rank :: callsite_overload_rank

text \<open>
  The loop over the functional arguments in \<open>build_callsite_overload_match\<close>: the bindings and the
  numbers of exact and partial arguments. \<open>None\<close> is the early return.
\<close>

fun callsite_args_loop ::
  "(str \<Rightarrow> str option) \<Rightarrow> chain_resolver \<Rightarrow> 'c index_view \<Rightarrow> method_summary \<Rightarrow> jvm_type list
     \<Rightarrow> overload_invocation_mode \<Rightarrow> str list \<Rightarrow> jvm_type list \<Rightarrow> str set \<Rightarrow> call_args \<Rightarrow> type_name list
     \<Rightarrow> eval_context \<Rightarrow> nat list \<Rightarrow> type_bindings \<Rightarrow> nat \<Rightarrow> nat
     \<Rightarrow> rust_panic + (type_bindings \<times> nat \<times> nat) option" where
  "callsite_args_loop block_return chain v m params mode cps rargs return_vars args normalized ctx []
       bindings ex part = Inr (Some (bindings, ex, part))"
| "callsite_args_loop block_return chain v m params mode cps rargs return_vars args normalized ctx
       (arg_index # rest) bindings ex part =
     (let arg_text = (case nth_opt (ca_texts args) arg_index of Some t \<Rightarrow> t | None \<Rightarrow> [])
      in case resolve_formal_param_jvm_for_argument m params arg_index mode bindings cps rargs of
           None \<Rightarrow> Inr None
         | Some formal0 \<Rightarrow>
             (let formal = substitute_bindings bindings formal0
              in and_then (evaluate_functional_arg_compatibility block_return chain v arg_text formal ctx) (\<lambda>compat.
                   if compat = CompatIncompatible then Inr None
                   else
                     (let ex' = (if compat = CompatExact then ex + 1 else ex);
                          part' = (if compat = CompatPartial then part + 1 else part)
                      in and_then (if return_vars = {} then Inr (bindings, {})
                                   else bind_return_type_var_from_functional_param block_return chain v formal
                                          (Some arg_text) (nth_opt normalized arg_index) ctx return_vars
                                          (bindings, {}))
                           (\<lambda>(bindings', conflicted).
                              if conflicted \<noteq> {} then Inr None
                              else callsite_args_loop block_return chain v m params mode cps rargs return_vars args
                                     normalized ctx rest bindings' ex' part')))))"

definition build_callsite_overload_match ::
  "(str \<Rightarrow> str option) \<Rightarrow> chain_resolver \<Rightarrow> 'c index_view \<Rightarrow> str \<Rightarrow> method_summary \<Rightarrow> overload_invocation_mode
     \<Rightarrow> int \<Rightarrow> call_args \<Rightarrow> type_name list \<Rightarrow> nat list \<Rightarrow> eval_context
     \<Rightarrow> rust_panic + callsite_overload_match option" where
  "build_callsite_overload_match block_return chain v receiver_internal m mode score args normalized indexes ctx =
     (case parse_method_signature_types (method_signature m) of
        None \<Rightarrow> Inr None
      | Some (params, ret) \<Rightarrow>
          and_then (infer_method_type_bindings_from_non_lambda_args v (method_signature m) params
                      receiver_internal m USIZE_MAX mode (args\<lparr>ca_types := normalized\<rparr>)) (\<lambda>bindings.
            and_then (receiver_params v receiver_internal m) (\<lambda>(cps, rargs).
              map_ok (map_option (\<lambda>(bindings', ex, part).
                  \<lparr>co_overload = \<lparr>om_method = m, om_mode = mode, om_score = score\<rparr>,
                   co_rank = \<lparr>cr_exact_functional_args = ex, cr_partial_functional_args = part,
                              cr_binding_count = length bindings'\<rparr>\<rparr>))
                (callsite_args_loop block_return chain v m params mode cps rargs (collect_type_vars ret {}) args
                   normalized ctx indexes bindings 0 0))))"

definition callsite_overload_sort_key :: "callsite_overload_match \<Rightarrow> nat \<times> nat \<times> nat \<times> nat \<times> int" where
  "callsite_overload_sort_key c =
     (cr_exact_functional_args (co_rank c), cr_partial_functional_args (co_rank c),
      cr_binding_count (co_rank c), mode_rank (om_mode (co_overload c)), om_score (co_overload c))"

text \<open>\<open>left.cmp(right)\<close> of the keys: tuples are ordered from the left.\<close>

fun key_less :: "nat \<times> nat \<times> nat \<times> nat \<times> int \<Rightarrow> nat \<times> nat \<times> nat \<times> nat \<times> int \<Rightarrow> bool" where
  "key_less (a, b, c, d, e) (a', b', c', d', e') \<longleftrightarrow>
     a < a' \<or> a = a' \<and> (b < b' \<or> b = b' \<and> (c < c' \<or> c = c' \<and> (d < d' \<or> d = d' \<and> e < e')))"

definition callsite_less :: "callsite_overload_match \<Rightarrow> callsite_overload_match \<Rightarrow> bool" where
  "callsite_less l r \<longleftrightarrow> key_less (callsite_overload_sort_key l) (callsite_overload_sort_key r)"

text \<open>\<open>max_by\<close>: the last of the greatest elements.\<close>

fun max_by_callsite :: "callsite_overload_match list \<Rightarrow> callsite_overload_match option" where
  "max_by_callsite [] = None"
| "max_by_callsite (c # cs) = Some (fold (\<lambda>x acc. if callsite_less x acc then acc else x) cs c)"

definition same_invocation :: "callsite_overload_match \<Rightarrow> callsite_overload_match \<Rightarrow> bool" where
  "same_invocation l r \<longleftrightarrow>
     ms_name (om_method (co_overload l)) = ms_name (om_method (co_overload r))
     \<and> method_desc (om_method (co_overload l)) = method_desc (om_method (co_overload r))
     \<and> om_mode (co_overload l) = om_mode (co_overload r)"

definition pick_callsite_match :: "callsite_overload_match list \<Rightarrow> overload_match option" where
  "pick_callsite_match scored =
     (case max_by_callsite scored of
        None \<Rightarrow> None
      | Some winner \<Rightarrow>
          if list_ex (\<lambda>c. \<not> same_invocation c winner) scored
             \<and> length (filter (\<lambda>c. callsite_overload_sort_key c = callsite_overload_sort_key winner) scored) > 1
          then None else Some (co_overload winner))"

definition callsite_candidates ::
  "(str \<Rightarrow> str option) \<Rightarrow> chain_resolver \<Rightarrow> 'c index_view \<Rightarrow> str \<Rightarrow> call_args \<Rightarrow> type_name list \<Rightarrow> nat list
     \<Rightarrow> eval_context \<Rightarrow> method_summary \<Rightarrow> rust_panic + callsite_overload_match list" where
  "callsite_candidates block_return chain v receiver_internal args normalized indexes ctx m =
     (let build = (\<lambda>mode score. case score of
                     None \<Rightarrow> Inr []
                   | Some s \<Rightarrow>
                       map_ok (\<lambda>c. case c of None \<Rightarrow> [] | Some c \<Rightarrow> [c])
                         (build_callsite_overload_match block_return chain v receiver_internal m mode s args
                            normalized indexes ctx))
      in and_then (build Fixed (score_fixed_applicability m normalized)) (\<lambda>fixed.
           map_ok (\<lambda>var. fixed @ var) (build Varargs (score_varargs_applicability m normalized))))"

definition select_overload_match_with_callsite ::
  "(str \<Rightarrow> str option) \<Rightarrow> chain_resolver \<Rightarrow> 'c index_view \<Rightarrow> str \<Rightarrow> method_summary list \<Rightarrow> call_args
     \<Rightarrow> eval_context \<Rightarrow> rust_panic + overload_match option" where
  "select_overload_match_with_callsite block_return chain v receiver_internal candidates args ctx =
     (let indexes = functional_argument_indexes (ca_texts args)
      in if indexes = [] then Inr (select_overload_match candidates (ca_count args) (ca_types args))
         else
           (let normalized = fold (\<lambda>i ts. if i < length ts then ts[i := unknown_type] else ts) indexes
                               (normalize_arg_types (ca_count args) (ca_types args))
            in map_ok (pick_callsite_match \<circ> concat)
                 (try_map (callsite_candidates block_return chain v receiver_internal args normalized indexes ctx)
                    candidates)))"

subsection \<open>Types of method calls\<close>

definition resolve_selected_method_return_with_callsite_and_qualifier_resolver ::
  "(str \<Rightarrow> str option) \<Rightarrow> chain_resolver \<Rightarrow> 'c index_view \<Rightarrow> str \<Rightarrow> method_summary \<Rightarrow> str \<Rightarrow> str option
     \<Rightarrow> call_args \<Rightarrow> eval_context \<Rightarrow> rust_panic + type_name option" where
  "resolve_selected_method_return_with_callsite_and_qualifier_resolver block_return chain v receiver_internal
       m owner_internal class_generic_signature args ctx =
     (case parse_method_signature_types (method_signature m) of
        None \<Rightarrow> Inr None
      | Some (params, ret) \<Rightarrow>
          and_then (infer_method_type_bindings_shallow block_return chain v m (method_signature m) params ret
                      receiver_internal class_generic_signature args ctx) (\<lambda>bindings.
            (let resolved_ret = substitute_bindings bindings ret
             in map_ok (\<lambda>substituted.
                  case substituted of
                    Some t \<Rightarrow>
                      (let t' = canonicalize_type_in_owner_scope v owner_internal t
                       in if erased_internal t' = ''void'' then None else Some t')
                  | None \<Rightarrow>
                      if resolved_ret = Primitive (CHR ''V'') then None
                      else Some (canonicalize_type_in_owner_scope v owner_internal (to_type_name resolved_ret)))
                  (substitute_type receiver_internal class_generic_signature
                     (to_signature_string resolved_ret)))))"

definition get_class_type :: "str \<Rightarrow> jvm_type list \<Rightarrow> type_name" where
  "get_class_type base_receiver receiver_type_args =
     with_args ''java/lang/Class''
       [TypeName ''+'' WildcardExtends
          [if receiver_type_args = [] then type_name_new base_receiver
           else with_args base_receiver (map to_type_name receiver_type_args)] 0]"

definition resolve_method_return_with_callsite_and_qualifier_resolver ::
  "(str \<Rightarrow> str option) \<Rightarrow> chain_resolver \<Rightarrow> 'c index_view \<Rightarrow> str \<Rightarrow> str \<Rightarrow> call_args \<Rightarrow> eval_context
     \<Rightarrow> rust_panic + type_name option" where
  "resolve_method_return_with_callsite_and_qualifier_resolver block_return chain v receiver_internal
       method_name args ctx =
     and_then (split_internal_name receiver_internal) (\<lambda>(base_receiver, receiver_type_args).
       if method_name = ''getClass'' \<and> ca_count args = 0
       then Inr (Some (get_class_type base_receiver receiver_type_args))
       else and_then (lookup_methods_in_hierarchy v base_receiver method_name) (\<lambda>candidates.
         if candidates = [] then Inr None
         else and_some (select_overload_match_with_callsite block_return chain v receiver_internal candidates
                          args ctx) (\<lambda>selected.
           and_some (find_declaring_method_owner v base_receiver (ms_name (om_method selected))
                       (method_desc (om_method selected))) (\<lambda>found.
             resolve_selected_method_return_with_callsite_and_qualifier_resolver block_return chain v
               receiver_internal (om_method selected) (cm_internal_name found) (cm_generic_signature found)
               args ctx))))"

subsection \<open>Call chains\<close>

definition element_types :: "nat \<Rightarrow> type_name \<Rightarrow> type_name option" where
  "element_types n t = ((\<lambda>x. case x of None \<Rightarrow> None | Some t \<Rightarrow> element_type t) ^^ n) (Some t)"

definition segment_args :: "chain_segment \<Rightarrow> call_args" where
  "segment_args seg = \<lparr>ca_count = (case cs_arg_count seg of None \<Rightarrow> 0 | Some n \<Rightarrow> n),
     ca_types = cs_arg_types seg, ca_texts = cs_arg_texts seg\<rparr>"

definition chain_context :: "local_var list \<Rightarrow> str option \<Rightarrow> eval_context" where
  "chain_context locals enclosing =
     \<lparr>ec_locals = locals, ec_enclosing = enclosing, ec_qualifier_resolver = None\<rparr>"

definition resolve_first_segment ::
  "(str \<Rightarrow> str option) \<Rightarrow> chain_resolver \<Rightarrow> 'c index_view \<Rightarrow> local_var list \<Rightarrow> str option \<Rightarrow> chain_segment
     \<Rightarrow> rust_panic + type_name option" where
  "resolve_first_segment block_return chain v locals enclosing seg =
     (if cs_arg_count seg \<noteq> None then
        (case enclosing of
           None \<Rightarrow> Inr None
         | Some recv \<Rightarrow>
             resolve_method_return_with_callsite_and_qualifier_resolver block_return chain v recv (cs_name seg)
               (segment_args seg) (chain_context locals enclosing))
      else resolve v locals enclosing (cs_name seg))"

definition resolve_next_segment ::
  "(str \<Rightarrow> str option) \<Rightarrow> chain_resolver \<Rightarrow> 'c index_view \<Rightarrow> local_var list \<Rightarrow> str option \<Rightarrow> chain_segment
     \<Rightarrow> type_name \<Rightarrow> rust_panic + type_name option" where
  "resolve_next_segment block_return chain v locals enclosing seg receiver =
     (if cs_arg_count seg = None \<and> starts_with (cs_name seg) ''['' \<and> ends_with (cs_name seg) '']''
      then Inr (element_types (count_char (cs_name seg) (CHR ''['')) receiver)
      else
        (let actual_name = takeWhile (\<lambda>c. c \<noteq> CHR ''['') (cs_name seg);
             dimensions = count_char (dropWhile (\<lambda>c. c \<noteq> CHR ''['') (cs_name seg)) (CHR ''['')
         in and_some
              (if cs_arg_count seg \<noteq> None
               then resolve_method_return_with_callsite_and_qualifier_resolver block_return chain v
                      (to_internal_with_generics receiver) actual_name (segment_args seg)
                      (chain_context locals enclosing)
               else map_ok (\<lambda>f. case f of None \<Rightarrow> None | Some f \<Rightarrow> field_type f)
                      (lookup_field_in_hierarchy v (erased_internal receiver) actual_name))
              (\<lambda>t. Inr (element_types dimensions t))))"

fun resolve_segments ::
  "(str \<Rightarrow> str option) \<Rightarrow> chain_resolver \<Rightarrow> 'c index_view \<Rightarrow> local_var list \<Rightarrow> str option \<Rightarrow> chain_segment list
     \<Rightarrow> type_name option \<Rightarrow> rust_panic + type_name option" where
  "resolve_segments block_return chain v locals enclosing [] current = Inr current"
| "resolve_segments block_return chain v locals enclosing (seg # segs) current =
     (case current of
        None \<Rightarrow> Inr None
      | Some receiver \<Rightarrow>
          and_then (resolve_next_segment block_return chain v locals enclosing seg receiver)
            (resolve_segments block_return chain v locals enclosing segs))"

definition resolve_chain_with ::
  "(str \<Rightarrow> str option) \<Rightarrow> chain_resolver \<Rightarrow> 'c index_view \<Rightarrow> chain_resolver" where
  "resolve_chain_with block_return chain v segs locals enclosing =
     (case segs of
        [] \<Rightarrow> Inr None
      | seg # rest \<Rightarrow>
          and_then (resolve_first_segment block_return chain v locals enclosing seg)
            (resolve_segments block_return chain v locals enclosing rest))"

fun resolve_chain_n :: "nat \<Rightarrow> (str \<Rightarrow> str option) \<Rightarrow> 'c index_view \<Rightarrow> chain_resolver" where
  "resolve_chain_n 0 block_return v = (\<lambda>segs locals enclosing. Inr None)"
| "resolve_chain_n (Suc n) block_return v = resolve_chain_with block_return (resolve_chain_n n block_return v) v"

definition chain_depth :: "chain_segment list \<Rightarrow> nat" where
  "chain_depth segs = Suc (Max (insert 0 (length ` set (concat (map cs_arg_texts segs)))))"

definition resolve_chain :: "(str \<Rightarrow> str option) \<Rightarrow> 'c index_view \<Rightarrow> chain_resolver" where
  "resolve_chain block_return v segs locals enclosing =
     resolve_chain_n (chain_depth segs) block_return v segs locals enclosing"

definition resolve_method_return ::
  "(str \<Rightarrow> str option) \<Rightarrow> 'c index_view \<Rightarrow> str \<Rightarrow> str \<Rightarrow> nat \<Rightarrow> type_name list
     \<Rightarrow> rust_panic + type_name option" where
  "resolve_method_return block_return v receiver_internal method_name arg_count arg_types =
     resolve_method_return_with_callsite_and_qualifier_resolver block_return (resolve_chain block_return v) v
       receiver_internal method_name \<lparr>ca_count = arg_count, ca_types = arg_types, ca_texts = []\<rparr>
       \<lparr>ec_locals = [], ec_enclosing = None, ec_qualifier_resolver = None\<rparr>"

subsection \<open>Types of parameters\<close>

text \<open>The parameter type after substitution of the receiver's type arguments.\<close>

definition receiver_param ::
  "'c index_view \<Rightarrow> str \<Rightarrow> method_summary \<Rightarrow> jvm_type \<Rightarrow> rust_panic + jvm_type" where
  "receiver_param v receiver_internal selected param =
     and_then (split_internal_name receiver_internal) (\<lambda>(receiver_owner, receiver_args).
       if receiver_args = [] then Inr param
       else map_ok (\<lambda>sig. case sig of
                None \<Rightarrow> param
              | Some s \<Rightarrow> substitute_receiver (parse_class_type_parameters s) receiver_args param)
              (find_declaring_class_generic_signature v receiver_owner selected))"

definition exact_param_type :: "jvm_type \<Rightarrow> (type_name \<times> bool) option" where
  "exact_param_type param =
     (case param of TypeVar _ \<Rightarrow> None | _ \<Rightarrow> Some (to_type_name param, is_concrete_jvm_type param))"

definition resolve_selected_param_type_from_generic_signature ::
  "'c index_view \<Rightarrow> str \<Rightarrow> method_summary \<Rightarrow> nat \<Rightarrow> overload_invocation_mode
     \<Rightarrow> rust_panic + (type_name \<times> bool) option" where
  "resolve_selected_param_type_from_generic_signature v receiver_internal selected arg_index mode =
     (case ms_generic_signature selected of
        None \<Rightarrow> Inr None
      | Some sig \<Rightarrow>
          (case parse_method_signature_types sig of
             None \<Rightarrow> Inr None
           | Some (params, _) \<Rightarrow>
               (case mapped_formal selected arg_index mode params of
                  None \<Rightarrow> Inr None
                | Some param \<Rightarrow> map_ok exact_param_type (receiver_param v receiver_internal selected param))))"

definition resolve_selected_param_type_with_callsite_inference ::
  "'c index_view \<Rightarrow> str \<Rightarrow> method_summary \<Rightarrow> nat \<Rightarrow> overload_invocation_mode \<Rightarrow> call_args
     \<Rightarrow> rust_panic + (type_name \<times> bool) option" where
  "resolve_selected_param_type_with_callsite_inference v receiver_internal selected arg_index mode args =
     (case ms_generic_signature selected of
        None \<Rightarrow> Inr None
      | Some sig \<Rightarrow>
          (case parse_method_signature_types sig of
             None \<Rightarrow> Inr None
           | Some (params, _) \<Rightarrow>
               (case map_argument_index_to_parameter selected arg_index mode (length params) of
                  None \<Rightarrow> Inr None
                | Some _ \<Rightarrow>
                    and_then (infer_method_type_bindings_from_non_lambda_args v sig params receiver_internal
                                selected arg_index mode args) (\<lambda>bindings.
                      case mapped_formal selected arg_index mode params of
                        None \<Rightarrow> Inr None
                      | Some param \<Rightarrow>
                          map_ok (exact_param_type \<circ> substitute_bindings bindings)
                            (receiver_param v receiver_internal selected param)))))"

end
