(* ===== verification/Resolver_Laws.thy ===== *)
theory Resolver_Laws
  imports Type_Resolver
begin

text \<open>
  Laws of the type resolver: the recursion through lambda bodies ends, so the bound on its depth does
  not matter, and overload selection with functional arguments picks the one best candidate or none.
\<close>

subsection \<open>The recursion through lambda bodies ends\<close>

text \<open>The returned expression of a block lambda is a proper part of its text.\<close>

definition shrinks :: "(str \<Rightarrow> str option) \<Rightarrow> bool" where
  "shrinks block_return \<longleftrightarrow> (\<forall>text body. block_return text = Some body \<longrightarrow> length body < length text)"

definition agree :: "nat \<Rightarrow> chain_resolver \<Rightarrow> chain_resolver \<Rightarrow> bool" where
  "agree n f g \<longleftrightarrow> (\<forall>segs locals enclosing. chain_depth segs \<le> n \<longrightarrow> f segs locals enclosing = g segs locals enclosing)"

definition short_texts :: "nat \<Rightarrow> str list \<Rightarrow> bool" where
  "short_texts n texts \<longleftrightarrow> (\<forall>t\<in>set texts. length t \<le> n)"

lemma chain_depth_le:
  "chain_depth segs \<le> Suc n \<longleftrightarrow> (\<forall>s\<in>set segs. short_texts n (cs_arg_texts s))"
  by (auto simp: chain_depth_def short_texts_def)

lemma find_str_Some: "find_str s p = Some i \<Longrightarrow> i + length p \<le> length s"
proof (induction s p arbitrary: i rule: find_str.induct)
  case (2 c s p)
  then show ?case by (auto simp: starts_with_def split: if_splits) (metis length_Cons length_take min.bounded_iff nat_le_linear)
qed (auto split: if_splits)

lemma lambda_body_shorter:
  assumes "shrinks block_return" "extract_lambda_return_expression_text block_return text = Some body"
  shows "length body < length text"
proof (cases "parse_lambda_expression_body text")
  case None
  with assms show ?thesis by (auto simp: extract_lambda_return_expression_text_def shrinks_def)
next
  case (Some b)
  with assms obtain i where "find_str text ''->'' = Some i" "body = trim (drop (i + 2) text)"
    by (auto simp: extract_lambda_return_expression_text_def parse_lambda_expression_body_def Let_def
          split: option.splits if_splits)
  with find_str_Some [of "text" "''->''" i] length_trim [of "drop (i + 2) text"] show ?thesis by simp
qed

lemma body_chain_depth: "parse_chain_from_expr body \<noteq> [] \<Longrightarrow> chain_depth (parse_chain_from_expr body) \<le> length body"
proof -
  assume "parse_chain_from_expr body \<noteq> []"
  then have "body \<noteq> []" by (auto simp: parse_chain_from_expr_def chain_start_def trim_def trim_start_def trim_end_def)
  then obtain n where n: "length body = Suc n" by (cases body) auto
  then show ?thesis
    unfolding n chain_depth_le short_texts_def using chain_texts_shorter [of _ body] n by fastforce
qed

lemma infer_functional_cong:
  assumes "shrinks block_return" "agree n f g" "length text \<le> n"
  shows "infer_functional_arg_return_shallow block_return f v text ctx target
    = infer_functional_arg_return_shallow block_return g v text ctx target"
proof -
  have "f (parse_chain_from_expr body) ls e = g (parse_chain_from_expr body) ls e"
    if "extract_lambda_return_expression_text block_return (trim text) = Some body"
      "parse_chain_from_expr body \<noteq> []" for body ls e
  proof -
    have "length body < length (trim text)" by (rule lambda_body_shorter [OF assms(1) that(1)])
    then have "chain_depth (parse_chain_from_expr body) \<le> n"
      using body_chain_depth [OF that(2)] length_trim [of "text"] assms(3) by linarith
    then show ?thesis using assms(2) by (simp add: agree_def)
  qed
  then have eq: "(if parse_chain_from_expr body = [] then Inr None else f (parse_chain_from_expr body) ls e)
      = (if parse_chain_from_expr body = [] then Inr None else g (parse_chain_from_expr body) ls e)"
    if "extract_lambda_return_expression_text block_return (trim text) = Some body" for body ls e
    using that by simp
  show ?thesis
  proof (cases "extract_lambda_return_expression_text block_return (trim text)")
    case (Some body)
    show ?thesis unfolding infer_functional_arg_return_shallow_def Let_def Some option.case eq [OF Some] ..
  next
    case None
    show ?thesis unfolding infer_functional_arg_return_shallow_def Let_def None option.case ..
  qed
qed

lemma bind_return_cong:
  assumes "shrinks block_return" "agree n f g" "\<And>t. arg_text = Some t \<Longrightarrow> length t \<le> n"
  shows "bind_return_type_var_from_functional_param block_return f v param_ty arg_text arg_ty ctx vars st
    = bind_return_type_var_from_functional_param block_return g v param_ty arg_text arg_ty ctx vars st"
proof (cases arg_text)
  case (Some t)
  have "infer_functional_arg_return_shallow block_return f v t ctx target
      = infer_functional_arg_return_shallow block_return g v t ctx target" for target
    by (rule infer_functional_cong [OF assms(1,2) assms(3) [OF Some]])
  then show ?thesis unfolding bind_return_type_var_from_functional_param_def Some option.case by presburger
next
  case None
  show ?thesis unfolding bind_return_type_var_from_functional_param_def None option.case ..
qed

lemma nth_opt_short: "short_texts n texts \<Longrightarrow> nth_opt texts i = Some t \<Longrightarrow> length t \<le> n"
  by (auto simp: short_texts_def nth_opt_def split: if_splits)

lemma try_fold_cong:
  "(\<And>x st. x \<in> set xs \<Longrightarrow> f x st = g x st) \<Longrightarrow> try_fold f xs st = try_fold g xs st"
  by (induction xs arbitrary: st) (auto simp: and_then_def split: sum.split)

lemma infer_shallow_cong:
  assumes "shrinks block_return" "agree n f g" "short_texts n (ca_texts args)"
  shows "infer_method_type_bindings_shallow block_return f v m sig params ret recv cgs args ctx
    = infer_method_type_bindings_shallow block_return g v m sig params ret recv cgs args ctx"
proof -
  have "bind_return_type_var_from_functional_param block_return f v formal (nth_opt (ca_texts args) i) arg_ty ctx vars st
      = bind_return_type_var_from_functional_param block_return g v formal (nth_opt (ca_texts args) i) arg_ty ctx vars st"
    for formal i arg_ty vars st
    by (rule bind_return_cong [OF assms(1,2)]) (rule nth_opt_short [OF assms(3)])
  then have "bind_shallow_param block_return f v cps rargs vars args ctx
      = bind_shallow_param block_return g v cps rargs vars args ctx" for cps rargs vars
    unfolding bind_shallow_param_def by presburger
  then show ?thesis unfolding infer_method_type_bindings_shallow_def by presburger
qed

lemma evaluate_functional_cong:
  assumes "shrinks block_return" "agree n f g" "length arg_text \<le> n"
  shows "evaluate_functional_arg_compatibility block_return f v arg_text target ctx
    = evaluate_functional_arg_compatibility block_return g v arg_text target ctx"
proof -
  have "length (trim arg_text) \<le> n" using length_trim [of arg_text] assms(3) by linarith
  note eq = infer_functional_cong [OF assms(1,2) this]
  show ?thesis
    unfolding evaluate_functional_arg_compatibility_def evaluate_lambda_arg_compatibility_def Let_def eq ..
qed

lemma callsite_loop_cong:
  assumes "shrinks block_return" "agree n f g" "short_texts n (ca_texts args)"
  shows "callsite_args_loop block_return f v m params mode cps rargs vars args normalized ctx indexes bindings ex part
    = callsite_args_loop block_return g v m params mode cps rargs vars args normalized ctx indexes bindings ex part"
proof (induction indexes arbitrary: bindings ex part)
  case (Cons i indexes)
  let ?arg = "case nth_opt (ca_texts args) i of Some t \<Rightarrow> t | None \<Rightarrow> []"
  have len: "length ?arg \<le> n" using nth_opt_short [OF assms(3), of i] by (simp split: option.split)
  have bind: "bind_return_type_var_from_functional_param block_return f v formal (Some ?arg) arg_ty ctx vars st
      = bind_return_type_var_from_functional_param block_return g v formal (Some ?arg) arg_ty ctx vars st"
    for formal arg_ty st by (rule bind_return_cong [OF assms(1,2)]) (use len in simp)
  show ?case
    unfolding callsite_args_loop.simps Let_def evaluate_functional_cong [OF assms(1,2) len] bind Cons.IH ..
qed simp

lemma select_callsite_cong:
  assumes "shrinks block_return" "agree n f g" "short_texts n (ca_texts args)"
  shows "select_overload_match_with_callsite block_return f v recv candidates args ctx
    = select_overload_match_with_callsite block_return g v recv candidates args ctx"
proof -
  have "build_callsite_overload_match block_return f v recv m mode score args normalized indexes ctx
      = build_callsite_overload_match block_return g v recv m mode score args normalized indexes ctx"
    for m mode score normalized indexes
    unfolding build_callsite_overload_match_def callsite_loop_cong [OF assms] ..
  then have "callsite_candidates block_return f v recv args normalized indexes ctx
      = callsite_candidates block_return g v recv args normalized indexes ctx" for normalized indexes
    unfolding callsite_candidates_def by presburger
  then show ?thesis unfolding select_overload_match_with_callsite_def by presburger
qed

lemma resolve_method_return_cong:
  assumes "shrinks block_return" "agree n f g" "short_texts n (ca_texts args)"
  shows "resolve_method_return_with_callsite_and_qualifier_resolver block_return f v recv name args ctx
    = resolve_method_return_with_callsite_and_qualifier_resolver block_return g v recv name args ctx"
proof -
  have "resolve_selected_method_return_with_callsite_and_qualifier_resolver block_return f v recv m own cgs args ctx
      = resolve_selected_method_return_with_callsite_and_qualifier_resolver block_return g v recv m own cgs args ctx"
    for m own cgs
    unfolding resolve_selected_method_return_with_callsite_and_qualifier_resolver_def infer_shallow_cong [OF assms] ..
  then show ?thesis
    unfolding resolve_method_return_with_callsite_and_qualifier_resolver_def select_callsite_cong [OF assms]
    by presburger
qed

lemma resolve_chain_with_cong:
  assumes "shrinks block_return" "agree n f g" "chain_depth segs \<le> Suc n"
  shows "resolve_chain_with block_return f v segs locals enclosing
    = resolve_chain_with block_return g v segs locals enclosing"
proof -
  have short: "short_texts n (ca_texts (segment_args s))" if "s \<in> set segs" for s
    using assms(3) that by (simp add: chain_depth_le segment_args_def)
  note call = resolve_method_return_cong [OF assms(1,2) short]
  have next_segment: "resolve_next_segment block_return f v locals enclosing s t
      = resolve_next_segment block_return g v locals enclosing s t" if "s \<in> set segs" for s t
    unfolding resolve_next_segment_def call [OF that] ..
  have "set rest \<subseteq> set segs \<Longrightarrow> resolve_segments block_return f v locals enclosing rest current
      = resolve_segments block_return g v locals enclosing rest current" for rest current
  proof (induction rest arbitrary: current)
    case (Cons s rest)
    then have "resolve_segments block_return f v locals enclosing rest = resolve_segments block_return g v locals enclosing rest"
      by (intro ext) simp
    with Cons.prems next_segment [of s] show ?case by (simp split: option.split)
  qed simp
  then have "resolve_segments block_return f v locals enclosing rest = resolve_segments block_return g v locals enclosing rest"
    if "set rest \<subseteq> set segs" for rest using that by (intro ext)
  note rest = this
  show ?thesis
  proof (cases segs)
    case (Cons s rest')
    then have s: "s \<in> set segs" "set rest' \<subseteq> set segs" by auto
    show ?thesis
      unfolding resolve_chain_with_def resolve_first_segment_def Cons list.case call [OF s(1)] rest [OF s(2)] ..
  qed (simp add: resolve_chain_with_def)
qed

lemma resolve_chain_n_agree:
  assumes "shrinks block_return"
  shows "n \<le> k \<Longrightarrow> n \<le> l \<Longrightarrow> agree n (resolve_chain_n k block_return v) (resolve_chain_n l block_return v)"
proof (induction n arbitrary: k l)
  case 0
  then show ?case by (simp add: agree_def chain_depth_def)
next
  case (Suc n)
  from Suc.prems obtain k' l' where "k = Suc k'" "l = Suc l'" "n \<le> k'" "n \<le> l'" by (cases k; cases l) auto
  with Suc.IH [of k' l'] show ?case
    using resolve_chain_with_cong [OF assms] unfolding agree_def resolve_chain_n.simps by auto
qed

subsection \<open>Selection among scored candidates\<close>

lemma key_less_order:
  "\<not> key_less x x" "key_less x y \<Longrightarrow> key_less y z \<Longrightarrow> key_less x z" "x \<noteq> y \<Longrightarrow> key_less x y \<or> key_less y x"
  by (cases x; cases y; cases z; auto)+

lemma callsite_less_order:
  "\<not> callsite_less x x" "callsite_less x y \<Longrightarrow> callsite_less y z \<Longrightarrow> callsite_less x z"
  "\<not> callsite_less x y \<Longrightarrow> \<not> callsite_less y z \<Longrightarrow> \<not> callsite_less x z"
  unfolding callsite_less_def by (metis key_less_order)+

lemma fold_best:
  fixes cs :: "callsite_overload_match list"
  defines "pick \<equiv> \<lambda>x acc. if callsite_less x acc then acc else x"
  shows "fold pick cs c \<in> insert c (set cs) \<and> (\<forall>d\<in>insert c (set cs). \<not> callsite_less (fold pick cs c) d)"
proof (induction cs arbitrary: c)
  case Nil
  then show ?case by (simp add: callsite_less_order)
next
  case (Cons x cs)
  let ?b = "pick x c"
  have fold: "fold pick (x # cs) c = fold pick cs ?b" by simp
  have b: "?b = c \<or> ?b = x" by (simp add: pick_def)
  have "\<not> callsite_less (fold pick cs ?b) ?b" using Cons [of ?b] by blast
  moreover have "\<not> callsite_less ?b c" "\<not> callsite_less ?b x"
    unfolding pick_def using callsite_less_order(1,2) by (metis (full_types))+
  ultimately have "\<not> callsite_less (fold pick cs ?b) c" "\<not> callsite_less (fold pick cs ?b) x"
    using callsite_less_order(3) by blast+
  with Cons [of ?b] b show ?case unfolding fold by (metis insert_iff list.simps(15))
qed

lemma max_by_callsite_spec:
  assumes "max_by_callsite scored = Some w"
  shows "w \<in> set scored \<and> (\<forall>c\<in>set scored. \<not> callsite_less w c)"
proof (cases scored)
  case (Cons c cs)
  with assms fold_best [of cs c] show ?thesis unfolding Cons list.simps(15) by simp
qed (use assms in simp)

lemma unique_max:
  assumes "distinct xs" "w \<in> set xs" "length (filter (\<lambda>c. key c = key w) xs) \<le> 1" "d \<in> set xs" "d \<noteq> w"
  shows "key d \<noteq> key w"
proof
  assume k: "key d = key w"
  have "card {w, d} \<le> card (set (filter (\<lambda>c. key c = key w) xs))"
    using assms k by (intro card_mono) auto
  also have "\<dots> \<le> 1" using assms(3) card_length le_trans by blast
  finally show False using assms(5) by simp
qed

lemma pick_callsite_match_unique:
  assumes "distinct scored" "\<And>c d. c \<in> set scored \<Longrightarrow> d \<in> set scored \<Longrightarrow> same_invocation c d \<Longrightarrow> c = d"
  shows "pick_callsite_match scored = Some m \<longleftrightarrow>
    (\<exists>c\<in>set scored. co_overload c = m \<and> (\<forall>d\<in>set scored. d \<noteq> c \<longrightarrow> callsite_less d c))"
proof (cases "max_by_callsite scored")
  case None
  then show ?thesis by (cases scored) (auto simp: pick_callsite_match_def)
next
  case (Some w)
  note w = max_by_callsite_spec [OF Some]
  let ?ties = "filter (\<lambda>c. callsite_overload_sort_key c = callsite_overload_sort_key w) scored"
  have best: "d = w" if "d \<in> set scored" "\<forall>c\<in>set scored. c \<noteq> d \<longrightarrow> callsite_less c d" for d
    using that conjunct1 [OF w] conjunct2 [OF w] by metis
  show ?thesis
  proof (cases "length ?ties > 1")
    case True
    then obtain d where d: "d \<in> set scored" "d \<noteq> w" "callsite_overload_sort_key d = callsite_overload_sort_key w"
    proof -
      have "distinct ?ties" using assms(1) by simp
      then have "card (set ?ties) > 1" using True by (simp only: distinct_card)
      then have "\<not> set ?ties \<subseteq> {w}" using card_mono [of "{w}" "set ?ties"] by (auto simp del: set_filter)
      then show ?thesis using that by auto
    qed
    have "list_ex (\<lambda>c. \<not> same_invocation c w) scored" using d assms(2) w by (auto simp: list_ex_iff)
    then have "pick_callsite_match scored = None" using Some True by (simp add: pick_callsite_match_def)
    moreover have "\<not> callsite_less d w" using d(3) key_less_order(1) by (simp add: callsite_less_def)
    ultimately show ?thesis using best d by auto
  next
    case False
    then have "pick_callsite_match scored = Some (co_overload w)" using Some by (simp add: pick_callsite_match_def)
    moreover have "callsite_less d w" if "d \<in> set scored" "d \<noteq> w" for d
    proof -
      have "callsite_overload_sort_key d \<noteq> callsite_overload_sort_key w"
        using unique_max [OF assms(1) conjunct1 [OF w], of callsite_overload_sort_key d] that False by simp
      then show ?thesis using w that key_less_order(3) unfolding callsite_less_def by blast
    qed
    ultimately show ?thesis using best w by auto
  qed
qed

lemma callsite_candidates_keys:
  assumes "callsite_candidates block_return chain v recv args normalized indexes ctx m = Inr cs"
  shows "distinct (map (\<lambda>c. om_mode (co_overload c)) cs)" "\<forall>c\<in>set cs. om_method (co_overload c) = m"
  using assms
  by (auto simp: callsite_candidates_def build_callsite_overload_match_def Let_def and_then_def map_ok_def
        split: option.splits sum.splits prod.splits)

definition unique_best :: "callsite_overload_match list \<Rightarrow> overload_match option" where
  "unique_best scored =
     (case filter (\<lambda>c. list_all (\<lambda>d. d = c \<or> callsite_less d c) scored) scored of
        [] \<Rightarrow> None | c # _ \<Rightarrow> Some (co_overload c))"

lemma unique_best_Some:
  "unique_best scored = Some m \<longleftrightarrow>
    (\<exists>c\<in>set scored. co_overload c = m \<and> (\<forall>d\<in>set scored. d \<noteq> c \<longrightarrow> callsite_less d c))"
proof -
  let ?top = "filter (\<lambda>c. list_all (\<lambda>d. d = c \<or> callsite_less d c) scored) scored"
  have mem: "c \<in> set ?top \<longleftrightarrow> c \<in> set scored \<and> (\<forall>d\<in>set scored. d \<noteq> c \<longrightarrow> callsite_less d c)" for c
    by (auto simp: list_all_iff)
  have same: "c = d" if "c \<in> set ?top" "d \<in> set ?top" for c d
    using that callsite_less_order(1,2) unfolding mem by metis
  show ?thesis
  proof (cases ?top)
    case Nil
    then have "c \<notin> set ?top" for c by simp
    then have "\<not> (c \<in> set scored \<and> (\<forall>d\<in>set scored. d \<noteq> c \<longrightarrow> callsite_less d c))" for c unfolding mem by blast
    then show ?thesis unfolding unique_best_def Nil by auto
  next
    case (Cons c cs)
    then have c: "c \<in> set ?top" by simp
    then have "unique_best scored = Some m \<longleftrightarrow> (\<exists>d\<in>set ?top. co_overload d = m)"
      unfolding unique_best_def Cons using same Cons by fastforce
    then show ?thesis using mem by blast
  qed
qed

lemma scored_keys:
  assumes "try_map (callsite_candidates block_return chain v recv args normalized indexes ctx) candidates = Inr css"
    and "distinct (map method_key candidates)"
  shows "distinct (map (\<lambda>c. (method_key (om_method (co_overload c)), om_mode (co_overload c))) (concat css))
    \<and> (\<forall>c\<in>set (concat css). om_method (co_overload c) \<in> set candidates)"
  using assms
proof (induction candidates arbitrary: css)
  case (Cons m candidates)
  then obtain cs css' where css: "css = cs # css'"
    and m: "callsite_candidates block_return chain v recv args normalized indexes ctx m = Inr cs"
    and rest: "try_map (callsite_candidates block_return chain v recv args normalized indexes ctx) candidates = Inr css'"
    by (auto simp: and_then_Inr map_ok_Inr)
  note IH = Cons.IH [OF rest]
  note keys = callsite_candidates_keys [OF m]
  have "distinct (map (\<lambda>c. (method_key (om_method (co_overload c)), om_mode (co_overload c))) cs)"
    using keys by (auto simp: distinct_map inj_on_def)
  moreover have "method_key m \<notin> method_key ` set candidates" using Cons.prems(2) by simp
  ultimately show ?case using IH keys(2) Cons.prems(2) unfolding css by (auto 0 4)
qed simp

lemma pick_is_unique_best:
  assumes "distinct (map (\<lambda>c. (method_key (om_method (co_overload c)), om_mode (co_overload c))) scored)"
  shows "pick_callsite_match scored = unique_best scored"
proof (rule option_eqI)
  fix m
  have "c = d" if "c \<in> set scored" "d \<in> set scored" "same_invocation c d" for c d
    using that assms by (auto simp: same_invocation_def method_key_def distinct_map inj_on_def)
  moreover have "distinct scored" using assms by (simp add: distinct_map)
  ultimately show "pick_callsite_match scored = Some m \<longleftrightarrow> unique_best scored = Some m"
    unfolding unique_best_Some by (intro pick_callsite_match_unique)
qed

subsection \<open>Properties\<close>

text \<open>
  C31. Types of call chains are found in finitely many steps: a chain may contain a lambda whose body is
  a chain of its own, but the nesting is bounded by the longest argument text. Every bound of at
  least that depth gives the same result, and the bounded function satisfies the recursion the code
  writes, with itself as the resolver of nested chains.
\<close>

theorem resolve_chain_terminates:
  assumes "shrinks block_return"
  shows "(chain_depth segs \<le> n \<longrightarrow>
      resolve_chain_n n block_return v segs locals enclosing = resolve_chain block_return v segs locals enclosing)
    \<and> resolve_chain block_return v segs locals enclosing
      = resolve_chain_with block_return (resolve_chain block_return v) v segs locals enclosing"
proof -
  note agree = resolve_chain_n_agree [OF assms, unfolded agree_def, rule_format]
  have limit: "resolve_chain_n k block_return v ss ls e = resolve_chain block_return v ss ls e"
    if "chain_depth ss \<le> k" for k ss ls e
    unfolding resolve_chain_def by (rule agree [of "chain_depth ss"]) (use that in auto)
  obtain k where k: "chain_depth segs = Suc k" by (simp add: chain_depth_def)
  have "resolve_chain block_return v segs locals enclosing
      = resolve_chain_with block_return (resolve_chain_n k block_return v) v segs locals enclosing"
    by (simp add: resolve_chain_def k)
  also have "\<dots> = resolve_chain_with block_return (resolve_chain block_return v) v segs locals enclosing"
    using limit by (intro resolve_chain_with_cong [OF assms, of k]) (auto simp: agree_def k)
  finally show ?thesis using limit by blast
qed

theorem resolve_chain_terminates_witness:
  "resolve_chain_n 5 (\<lambda>_. None) (sample_view []) (parse_chain_from_expr ''f(x)'') [] None
    = resolve_chain (\<lambda>_. None) (sample_view []) (parse_chain_from_expr ''f(x)'') [] None"
proof -
  have "chain_depth (parse_chain_from_expr ''f(x)'') \<le> 5" by code_simp
  moreover have "shrinks (\<lambda>_. None)" by (simp add: shrinks_def)
  ultimately show ?thesis using resolve_chain_terminates by blast
qed

lemma unknown_receiver: "receiver_params (sample_view []) ''A'' m = Inr ([], [])"
proof -
  have "view_hierarchy (sample_view []) ''A'' = []" by (simp add: sample_hierarchy)
  with hierarchy_order_found [OF sample_view_ok(1), of "[]" "''A''"]
  have "hierarchy_order (sample_view []) ''A'' = []" by simp
  moreover have "split_internal_name ''A'' = Inr (''A'', [])" by code_simp
  ultimately show ?thesis
    by (simp add: receiver_params_def find_declaring_class_generic_signature_def find_declaring_method_owner_def
          find_declaring_method_owner_ref_def)
qed

lemma lambda_needs_interface:
  "evaluate_functional_arg_compatibility block_return chain (sample_view []) ''x -> x'' target ctx
    = Inr (unknown_or_non_functional_target_status (sample_view []) target)"
proof -
  have "contains_str (trim ''x -> x'') ''->''" "parse_lambda_text_parts (trim ''x -> x'') = Some ([''x''], ''x'')"
    by code_simp+
  then show ?thesis
    by (simp add: evaluate_functional_arg_compatibility_def evaluate_lambda_arg_compatibility_def
          extract_sam_signature_from_functional_jvm_type_def sample_get_class)
qed

lemma sample_candidate:
  assumes "parse_method_signature_types (method_signature m) = Some ([target], Primitive (CHR ''V''))"
    "parse_method_type_parameters (method_signature m) = []"
    "score_fixed_applicability m [unknown_type] = Some 0" "score_varargs_applicability m [unknown_type] = None"
    "mapped_formal m 0 Fixed [target] = Some target"
  shows "callsite_candidates (\<lambda>_. None) chain (sample_view []) ''A''
      \<lparr>ca_count = 1, ca_types = [], ca_texts = [''x -> x'']\<rparr> [unknown_type] [0] ctx m
    = Inr (if unknown_or_non_functional_target_status (sample_view []) target = CompatPartial
           then [\<lparr>co_overload = \<lparr>om_method = m, om_mode = Fixed, om_score = 0\<rparr>,
                   co_rank = \<lparr>cr_exact_functional_args = 0, cr_partial_functional_args = 1,
                              cr_binding_count = 0\<rparr>\<rparr>]
           else [])"
proof -
  have "unknown_or_non_functional_target_status (sample_view []) target \<noteq> CompatExact"
    by (simp add: unknown_or_non_functional_target_status_def split: jvm_type.split)
  with assms show ?thesis
    by (cases "unknown_or_non_functional_target_status (sample_view []) target")
       (simp_all add: callsite_candidates_def build_callsite_overload_match_def unknown_receiver nth_opt_def
          infer_method_type_bindings_from_non_lambda_args_def resolve_formal_param_jvm_for_argument_def
          substitute_bindings_def substitute_receiver_def lambda_needs_interface)
qed

text \<open>
  C32. Overload selection with lambda and method-reference arguments: every candidate is scored in fixed and
  variable-arity form, and the one scored candidate that is better than all others is selected. When
  two are tied at the top the call is ambiguous and nothing is selected.
\<close>

theorem callsite_selection:
  assumes "distinct (map method_key candidates)" "functional_argument_indexes (ca_texts args) \<noteq> []"
    and "normalized = fold (\<lambda>i ts. if i < length ts then ts[i := unknown_type] else ts)
           (functional_argument_indexes (ca_texts args)) (normalize_arg_types (ca_count args) (ca_types args))"
  shows "select_overload_match_with_callsite block_return chain v recv candidates args ctx
    = map_ok (\<lambda>css. unique_best (concat css))
        (try_map (callsite_candidates block_return chain v recv args normalized
             (functional_argument_indexes (ca_texts args)) ctx) candidates)"
proof (cases "try_map (callsite_candidates block_return chain v recv args normalized
    (functional_argument_indexes (ca_texts args)) ctx) candidates")
  case (Inl e)
  with assms show ?thesis by (simp add: select_overload_match_with_callsite_def)
next
  case (Inr css)
  from scored_keys [OF Inr assms(1)] have "pick_callsite_match (concat css) = unique_best (concat css)"
    by (intro pick_is_unique_best) blast
  with Inr assms show ?thesis by (simp add: select_overload_match_with_callsite_def)
qed

theorem callsite_selection_witness:
  "map_ok (map_option (\<lambda>m. ms_params (om_method m))) (select_overload_match_with_callsite (\<lambda>_. None) (\<lambda>_ _ _. Inr None)
     (sample_view []) ''A'' [plain_method ''f'' [(''I'', ''n'')] None, plain_method ''f'' [(''Lp/Q;'', ''g'')] None]
     \<lparr>ca_count = 1, ca_types = [], ca_texts = [''x -> x'']\<rparr>
     \<lparr>ec_locals = [], ec_enclosing = None, ec_qualifier_resolver = None\<rparr>)
   = Inr (Some (ms_params (plain_method ''f'' [(''Lp/Q;'', ''g'')] None)))"
proof -
  let ?i = "plain_method ''f'' [(''I'', ''n'')] None" and ?q = "plain_method ''f'' [(''Lp/Q;'', ''g'')] None"
  let ?args = "\<lparr>ca_count = 1, ca_types = [], ca_texts = [''x -> x'']\<rparr> :: call_args"
  let ?ctx = "\<lparr>ec_locals = [], ec_enclosing = None, ec_qualifier_resolver = None\<rparr> :: eval_context"
  have i: "callsite_candidates (\<lambda>_. None) (\<lambda>_ _ _. Inr None) (sample_view []) ''A'' ?args [unknown_type] [0] ?ctx ?i = Inr []"
    by (subst sample_candidate [where target = "Primitive (CHR ''I'')"])
       (code_simp | simp add: unknown_or_non_functional_target_status_def)+
  have q: "callsite_candidates (\<lambda>_. None) (\<lambda>_ _ _. Inr None) (sample_view []) ''A'' ?args [unknown_type] [0] ?ctx ?q
      = Inr [\<lparr>co_overload = \<lparr>om_method = ?q, om_mode = Fixed, om_score = 0\<rparr>,
              co_rank = \<lparr>cr_exact_functional_args = 0, cr_partial_functional_args = 1, cr_binding_count = 0\<rparr>\<rparr>]"
    by (subst sample_candidate [where target = "Object ''p/Q'' []"])
       (code_simp | simp add: unknown_or_non_functional_target_status_def sample_get_class)+
  have indexes: "functional_argument_indexes (ca_texts ?args) = [0]" by code_simp
  have "select_overload_match_with_callsite (\<lambda>_. None) (\<lambda>_ _ _. Inr None) (sample_view []) ''A'' [?i, ?q] ?args ?ctx
      = map_ok (\<lambda>css. unique_best (concat css)) (try_map (callsite_candidates (\<lambda>_. None) (\<lambda>_ _ _. Inr None)
          (sample_view []) ''A'' ?args [unknown_type] (functional_argument_indexes (ca_texts ?args)) ?ctx) [?i, ?q])"
    by (rule callsite_selection) code_simp+
  also have "\<dots> = map_ok (\<lambda>css. unique_best (concat css))
      (Inr [[], [\<lparr>co_overload = \<lparr>om_method = ?q, om_mode = Fixed, om_score = 0\<rparr>,
        co_rank = \<lparr>cr_exact_functional_args = 0, cr_partial_functional_args = 1, cr_binding_count = 0\<rparr>\<rparr>]])"
    unfolding indexes by (simp only: try_map.simps i q and_then_simps map_ok_simps)
  finally show ?thesis by (simp add: unique_best_def)
qed

end
