(* ===== verification/Request_Cancellation.thy ===== *)
theory Request_Cancellation
  imports Prelude "HOL-Library.Word"
begin

text \<open>
  Cancellation of requests (\<open>lsp/request_cancellation.rs\<close>): tokens that are cancelled at most once,
  the manager that keeps the newest request per family and document, and the guard that a request
  holds while it runs. Requests run on several threads; the step relation \<open>rc_step\<close> interleaves the
  atomic accesses of the code. A second relation, \<open>wait_step\<close>, interleaves one waiter of a token with
  the cancellation of the token.
\<close>

subsection \<open>Tokens\<close>

datatype cancelled = Client | Superseded

fun as_u8 :: "cancelled \<Rightarrow> 8 word" where
  "as_u8 Client = 1"
| "as_u8 Superseded = 2"

definition from_u8 :: "8 word \<Rightarrow> cancelled option" where
  "from_u8 n = (if n = 1 then Some Client else if n = 2 then Some Superseded else None)"

fun as_str :: "cancelled \<Rightarrow> str" where
  "as_str Client = ''client''"
| "as_str Superseded = ''superseded''"

text \<open>
  The notification primitive of the runtime: a new one, the creation of a wait handle, the wake-up
  of all handles, and whether a handle has been woken. \<open>notify_laws\<close> is its documented contract: waking
  all completes the handles that exist and stores nothing for later ones.
\<close>

record 'n notify_ops =
  nt_new :: 'n
  nt_notified :: "'n \<Rightarrow> nat \<times> 'n"
  nt_notify_waiters :: "'n \<Rightarrow> 'n"
  nt_ready :: "'n \<Rightarrow> nat \<Rightarrow> bool"

definition notify_laws :: "'n notify_ops \<Rightarrow> bool" where
  "notify_laws N \<longleftrightarrow>
     (\<forall>n h n'. nt_notified N n = (h, n') \<longrightarrow> \<not> nt_ready N n' h \<and> nt_ready N (nt_notify_waiters N n') h)"

record 'n cancellation_state =
  tk_reason :: "8 word"
  tk_notify :: 'n

definition state_new :: "'n notify_ops \<Rightarrow> 'n cancellation_state" where
  "state_new N = \<lparr>tk_reason = 0, tk_notify = nt_new N\<rparr>"

definition state_cancel :: "'n notify_ops \<Rightarrow> cancelled \<Rightarrow> 'n cancellation_state \<Rightarrow> bool \<times> 'n cancellation_state" where
  "state_cancel N r s =
     (if tk_reason s = 0
      then (True, \<lparr>tk_reason = as_u8 r, tk_notify = nt_notify_waiters N (tk_notify s)\<rparr>)
      else (False, s))"

definition state_reason :: "'n cancellation_state \<Rightarrow> cancelled option" where
  "state_reason s = from_u8 (tk_reason s)"

definition is_cancelled :: "'n cancellation_state \<Rightarrow> bool" where
  "is_cancelled s \<longleftrightarrow> state_reason s \<noteq> None"

definition check_token :: "'n cancellation_state \<Rightarrow> cancelled + unit" where
  "check_token s = (case state_reason s of Some r \<Rightarrow> Inl r | None \<Rightarrow> Inr ())"

subsection \<open>The manager\<close>

datatype request_family =
  Completion | GotoDefinition | InlayHints | SemanticTokensFull | SemanticTokensRange | DocumentSymbol

record request_key =
  rk_family :: request_family
  rk_uri :: str

record active_request =
  ar_generation :: "64 word"
  ar_token :: nat

record request_guard =
  rg_key :: request_key
  rg_generation :: "64 word"
  rg_token :: nat
  rg_completed :: bool

text \<open>The shared state. A token is an address in \<open>rm_tokens\<close>, because the manager and the guard share it.\<close>

record 'n request_manager =
  rm_next_generation :: "64 word"
  rm_active :: "request_key \<rightharpoonup> active_request"
  rm_tokens :: "nat \<Rightarrow> 'n cancellation_state"
  rm_next_token :: nat

definition manager_new :: "'n notify_ops \<Rightarrow> 'n request_manager" where
  "manager_new N = \<lparr>rm_next_generation = 1, rm_active = Map.empty, rm_tokens = (\<lambda>_. state_new N), rm_next_token = 0\<rparr>"

definition token_cancel :: "'n notify_ops \<Rightarrow> nat \<Rightarrow> cancelled \<Rightarrow> 'n request_manager \<Rightarrow> bool \<times> 'n request_manager" where
  "token_cancel N t r m =
     (let (updated, s) = state_cancel N r (rm_tokens m t)
      in (updated, m\<lparr>rm_tokens := (rm_tokens m)(t := s)\<rparr>))"

definition token_reason :: "'n request_manager \<Rightarrow> nat \<Rightarrow> cancelled option" where
  "token_reason m t = state_reason (rm_tokens m t)"

text \<open>The atomic accesses of \<open>begin\<close>: the generation, the entry of the map, the older token.\<close>

definition fetch_generation :: "'n request_manager \<Rightarrow> 64 word \<times> 'n request_manager" where
  "fetch_generation m = (rm_next_generation m, m\<lparr>rm_next_generation := rm_next_generation m + 1\<rparr>)"

definition insert_active ::
  "'n notify_ops \<Rightarrow> request_key \<Rightarrow> 64 word \<Rightarrow> 'n request_manager \<Rightarrow> request_guard \<times> active_request option \<times> 'n request_manager" where
  "insert_active N key generation m =
     (let t = rm_next_token m
      in (\<lparr>rg_key = key, rg_generation = generation, rg_token = t, rg_completed = False\<rparr>,
          rm_active m key,
          m\<lparr>rm_active := (rm_active m)(key \<mapsto> \<lparr>ar_generation = generation, ar_token = t\<rparr>),
            rm_tokens := (rm_tokens m)(t := state_new N), rm_next_token := t + 1\<rparr>))"

definition supersede :: "'n notify_ops \<Rightarrow> active_request option \<Rightarrow> 'n request_manager \<Rightarrow> 'n request_manager" where
  "supersede N previous m =
     (case previous of None \<Rightarrow> m | Some a \<Rightarrow> snd (token_cancel N (ar_token a) Superseded m))"

definition begin_request ::
  "'n notify_ops \<Rightarrow> request_family \<Rightarrow> str \<Rightarrow> 'n request_manager \<Rightarrow> request_guard \<times> 'n request_manager" where
  "begin_request N family uri m =
     (let (generation, m1) = fetch_generation m;
          (guard, previous, m2) = insert_active N \<lparr>rk_family = family, rk_uri = uri\<rparr> generation m1
      in (guard, supersede N previous m2))"

text \<open>Dropping a guard: the token of an unfinished request is cancelled, then its entry is removed.\<close>

definition cancel_unfinished :: "'n notify_ops \<Rightarrow> request_guard \<Rightarrow> 'n request_manager \<Rightarrow> 'n request_manager" where
  "cancel_unfinished N g m = (if rg_completed g then m else snd (token_cancel N (rg_token g) Client m))"

definition remove_guard :: "request_guard \<Rightarrow> 'n request_manager \<Rightarrow> 'n request_manager" where
  "remove_guard g m =
     (case rm_active m (rg_key g) of
        Some a \<Rightarrow> if ar_generation a = rg_generation g then m\<lparr>rm_active := (rm_active m)(rg_key g := None)\<rparr> else m
      | None \<Rightarrow> m)"

definition drop_guard :: "'n notify_ops \<Rightarrow> request_guard \<Rightarrow> 'n request_manager \<Rightarrow> 'n request_manager" where
  "drop_guard N g m = remove_guard g (cancel_unfinished N g m)"

definition finish :: "'n notify_ops \<Rightarrow> request_guard \<Rightarrow> 'n request_manager \<Rightarrow> 'n request_manager" where
  "finish N g m = drop_guard N (g\<lparr>rg_completed := True\<rparr>) m"

subsection \<open>What a token promises\<close>

locale cancellable =
  fixes ok :: "'s \<Rightarrow> bool"
    and cancel :: "cancelled \<Rightarrow> 's \<Rightarrow> bool \<times> 's"
    and reason :: "'s \<Rightarrow> cancelled option"
  assumes cancel_ok: "ok s \<Longrightarrow> ok (snd (cancel r s))"
    and cancel_reason: "ok s \<Longrightarrow> reason (snd (cancel r s)) = (case reason s of None \<Rightarrow> Some r | Some r' \<Rightarrow> Some r')"
    and cancel_updates: "ok s \<Longrightarrow> fst (cancel r s) \<longleftrightarrow> reason s = None"
begin

lemma reason_kept: "ok s \<Longrightarrow> reason s = Some r \<Longrightarrow> reason (snd (cancel r' s)) = Some r"
  by (simp add: cancel_reason)

lemma first_reason_wins:
  "ok s \<Longrightarrow> reason (fold (\<lambda>r s. snd (cancel r s)) rs s)
    = (case reason s of Some r \<Rightarrow> Some r | None \<Rightarrow> (case rs of [] \<Rightarrow> None | r # _ \<Rightarrow> Some r))"
proof (induction rs arbitrary: s)
  case (Cons r rs)
  then show ?case by (simp add: cancel_ok cancel_reason split: option.split list.split)
qed (simp split: option.split)

end

definition cell_ok :: "'n cancellation_state \<Rightarrow> bool" where
  "cell_ok s \<longleftrightarrow> tk_reason s = 0 \<or> tk_reason s = 1 \<or> tk_reason s = 2"

interpretation token: cancellable cell_ok "state_cancel N" state_reason for N :: "'n notify_ops"
proof
  fix s :: "'n cancellation_state" and r
  show "cell_ok s \<Longrightarrow> cell_ok (snd (state_cancel N r s))"
    by (cases r) (auto simp: state_cancel_def cell_ok_def)
  show "cell_ok s \<Longrightarrow> state_reason (snd (state_cancel N r s))
      = (case state_reason s of None \<Rightarrow> Some r | Some r' \<Rightarrow> Some r')"
    by (cases r) (auto simp: state_cancel_def state_reason_def from_u8_def cell_ok_def)
  show "cell_ok s \<Longrightarrow> fst (state_cancel N r s) \<longleftrightarrow> state_reason s = None"
    by (auto simp: state_cancel_def state_reason_def from_u8_def cell_ok_def)
qed

lemma state_new_ok [simp]: "cell_ok (state_new N)" "state_reason (state_new N) = None"
  by (simp_all add: state_new_def state_reason_def from_u8_def cell_ok_def)

subsection \<open>Requests on several threads\<close>

text \<open>
  Where a thread stands: before a request, in \<open>begin\<close> after the generation was drawn and after the
  entry was inserted, in the body of the request, and in \<open>drop\<close> before the entry is removed.
  \<open>rc_issued\<close> counts the generations drawn; the program does not have it.
\<close>

datatype request_thread =
  Ready
| Generated request_key "64 word"
| Superseding request_guard "active_request option"
| Running request_guard
| Leaving request_guard

record 'n rc_state =
  rc_manager :: "'n request_manager"
  rc_threads :: "nat \<Rightarrow> request_thread"
  rc_issued :: nat

definition rc_init :: "'n notify_ops \<Rightarrow> 'n rc_state" where
  "rc_init N = \<lparr>rc_manager = manager_new N, rc_threads = (\<lambda>_. Ready), rc_issued = 0\<rparr>"

abbreviation advance :: "'n rc_state \<Rightarrow> nat \<Rightarrow> request_thread \<Rightarrow> 'n request_manager \<Rightarrow> 'n rc_state" where
  "advance s p t m \<equiv> s\<lparr>rc_manager := m, rc_threads := (rc_threads s)(p := t)\<rparr>"

inductive rc_step :: "'n notify_ops \<Rightarrow> 'n rc_state \<Rightarrow> 'n rc_state \<Rightarrow> bool" for N where
  generate: "rc_threads s p = Ready \<Longrightarrow> fetch_generation (rc_manager s) = (generation, m) \<Longrightarrow>
     rc_step N s ((advance s p (Generated key generation) m)\<lparr>rc_issued := Suc (rc_issued s)\<rparr>)"
| insert: "rc_threads s p = Generated key generation \<Longrightarrow>
     insert_active N key generation (rc_manager s) = (g, previous, m) \<Longrightarrow>
     rc_step N s (advance s p (Superseding g previous) m)"
| supersede: "rc_threads s p = Superseding g previous \<Longrightarrow>
     rc_step N s (advance s p (Running g) (supersede N previous (rc_manager s)))"
| finish: "rc_threads s p = Running g \<Longrightarrow>
     rc_step N s (advance s p (Leaving (g\<lparr>rg_completed := True\<rparr>)) (rc_manager s))"
| abandon: "rc_threads s p = Running g \<Longrightarrow>
     rc_step N s (advance s p (Leaving g) (cancel_unfinished N g (rc_manager s)))"
| remove: "rc_threads s p = Leaving g \<Longrightarrow>
     rc_step N s (advance s p Ready (remove_guard g (rc_manager s)))"

text \<open>
  The guard a thread holds, the generation it has drawn, the guard of a request that has not ended,
  and the token a thread is about to cancel.
\<close>

fun held :: "request_thread \<Rightarrow> request_guard option" where
  "held (Superseding g _) = Some g"
| "held (Running g) = Some g"
| "held (Leaving g) = Some g"
| "held _ = None"

fun drawn :: "request_thread \<Rightarrow> 64 word option" where
  "drawn (Generated _ generation) = Some generation"
| "drawn t = map_option rg_generation (held t)"

fun live :: "request_thread \<Rightarrow> request_guard option" where
  "live (Superseding g _) = Some g"
| "live (Running g) = Some g"
| "live _ = None"

fun target :: "request_thread \<Rightarrow> nat option" where
  "target (Superseding _ previous) = map_option ar_token previous"
| "target _ = None"

abbreviation guard_entry :: "request_guard \<Rightarrow> active_request" where
  "guard_entry g \<equiv> \<lparr>ar_generation = rg_generation g, ar_token = rg_token g\<rparr>"

definition generations_ok :: "'n rc_state \<Rightarrow> bool" where
  "generations_ok s \<longleftrightarrow>
     rm_next_generation (rc_manager s) = word_of_nat (Suc (rc_issued s))
     \<and> (\<forall>p g. drawn (rc_threads s p) = Some g \<longrightarrow> (\<exists>k. 1 \<le> k \<and> k \<le> rc_issued s \<and> g = word_of_nat k))
     \<and> (\<forall>p q. p \<noteq> q \<longrightarrow> drawn (rc_threads s p) \<noteq> None \<longrightarrow> drawn (rc_threads s p) \<noteq> drawn (rc_threads s q))"

definition tokens_ok :: "'n rc_state \<Rightarrow> bool" where
  "tokens_ok s \<longleftrightarrow>
     (\<forall>t. cell_ok (rm_tokens (rc_manager s) t))
     \<and> (\<forall>p t. target (rc_threads s p) = Some t \<longrightarrow> t < rm_next_token (rc_manager s))
     \<and> (\<forall>p g. held (rc_threads s p) = Some g \<longrightarrow> rg_token g < rm_next_token (rc_manager s))
     \<and> (\<forall>p q g h. held (rc_threads s p) = Some g \<longrightarrow> held (rc_threads s q) = Some h \<longrightarrow>
          rg_token g = rg_token h \<longrightarrow> p = q)"

definition entries_ok :: "'n rc_state \<Rightarrow> bool" where
  "entries_ok s \<longleftrightarrow>
     (\<forall>key a. rm_active (rc_manager s) key = Some a \<longrightarrow>
        (\<exists>p g. held (rc_threads s p) = Some g \<and> rg_key g = key \<and> guard_entry g = a))
     \<and> (\<forall>p g. held (rc_threads s p) = Some g \<longrightarrow>
          token_reason (rc_manager s) (rg_token g) \<noteq> None
          \<or> rm_active (rc_manager s) (rg_key g) = Some (guard_entry g)
          \<or> (\<exists>q. target (rc_threads s q) = Some (rg_token g)))"

definition reasons_ok :: "'n rc_state \<Rightarrow> bool" where
  "reasons_ok s \<longleftrightarrow>
     (\<forall>p g. live (rc_threads s p) = Some g \<longrightarrow>
        token_reason (rc_manager s) (rg_token g) \<noteq> Some Client)"

definition rc_inv :: "'n rc_state \<Rightarrow> bool" where
  "rc_inv s \<longleftrightarrow> generations_ok s \<and> tokens_ok s \<and> entries_ok s \<and> reasons_ok s"

lemma token_cancel_frame [simp]:
  "rm_active (snd (token_cancel N t r m)) = rm_active m"
  "rm_next_generation (snd (token_cancel N t r m)) = rm_next_generation m"
  "rm_next_token (snd (token_cancel N t r m)) = rm_next_token m"
  "rm_tokens (snd (token_cancel N t r m)) = (rm_tokens m)(t := snd (state_cancel N r (rm_tokens m t)))"
  by (simp_all add: token_cancel_def split: prod.split)

lemma token_cancel_reason:
  "cell_ok (rm_tokens m t) \<Longrightarrow> token_reason (snd (token_cancel N t r m)) u
    = (if u = t \<and> token_reason m t = None then Some r else token_reason m u)"
  by (auto simp: token_reason_def token.cancel_reason split: option.split)

lemma word_of_nat_eq:
  assumes "j < 2 ^ 64" "k < 2 ^ 64"
  shows "(word_of_nat j :: 64 word) = word_of_nat k \<longleftrightarrow> j = k"
proof -
  have "unat (word_of_nat n :: 64 word) = n" if "n < 2 ^ 64" for n using that by (simp add: unat_of_nat)
  then show ?thesis using assms by metis
qed

lemma advance_simps:
  "rc_manager (advance s p t m) = m" "rc_threads (advance s p t m) = (rc_threads s)(p := t)"
  by simp_all

lemma generations_frame:
  assumes "generations_ok s" "rm_next_generation m = rm_next_generation (rc_manager s)"
    and "drawn t = None \<or> drawn t = drawn (rc_threads s p)"
  shows "generations_ok (advance s p t m)"
proof -
  have same: "drawn (((rc_threads s)(p := t)) q) = None \<or> drawn (((rc_threads s)(p := t)) q) = drawn (rc_threads s q)" for q
    using assms(3) by auto
  have "\<exists>k. 1 \<le> k \<and> k \<le> rc_issued s \<and> g = word_of_nat k" if "drawn (((rc_threads s)(p := t)) q) = Some g" for q g
    using same [of q] that assms(1) unfolding generations_ok_def by (metis option.distinct(1))
  moreover have "drawn (((rc_threads s)(p := t)) q) \<noteq> drawn (((rc_threads s)(p := t)) r)"
    if "q \<noteq> r" "drawn (((rc_threads s)(p := t)) q) \<noteq> None" for q r
    using same [of q] same [of r] that assms(1) unfolding generations_ok_def by metis
  ultimately show ?thesis
    using assms(1,2) unfolding generations_ok_def advance_simps by simp
qed

lemma generations_step:
  assumes "rc_step N s s'" "generations_ok s" "rc_issued s' < 2 ^ 64"
  shows "generations_ok s'"
  using assms
proof (cases rule: rc_step.cases)
  case (generate p g m key)
  have old: "\<exists>k. 1 \<le> k \<and> k \<le> rc_issued s \<and> h = word_of_nat k" if "drawn (rc_threads s q) = Some h" for q h
    using assms(2) that by (simp add: generations_ok_def)
  have g: "g = word_of_nat (Suc (rc_issued s))" "m = (rc_manager s)\<lparr>rm_next_generation := g + 1\<rparr>"
    using assms(2) generate by (auto simp: fetch_generation_def generations_ok_def)
  have bound: "Suc (rc_issued s) < 2 ^ 64" using assms(3) generate by simp
  have fresh: "drawn (rc_threads s q) \<noteq> Some g" for q
  proof
    assume "drawn (rc_threads s q) = Some g"
    from old [OF this] obtain k where "k \<le> rc_issued s" "g = word_of_nat k" by blast
    with g(1) bound show False using word_of_nat_eq [of k "Suc (rc_issued s)"] by simp
  qed
  have threads: "rc_threads s' = (rc_threads s)(p := Generated key g)" "rc_issued s' = Suc (rc_issued s)"
    "rm_next_generation (rc_manager s') = word_of_nat (Suc (Suc (rc_issued s)))"
    using generate g by simp_all
  show ?thesis unfolding generations_ok_def threads
  proof (intro conjI allI impI refl)
    show "\<exists>k. 1 \<le> k \<and> k \<le> Suc (rc_issued s) \<and> h = word_of_nat k"
      if "drawn (((rc_threads s)(p := Generated key g)) q) = Some h" for q h
    proof (cases "q = p")
      case False
      with that old [of q h] show ?thesis by (auto intro: le_SucI)
    qed (use that g(1) in auto)
    show "drawn (((rc_threads s)(p := Generated key g)) q) \<noteq> drawn (((rc_threads s)(p := Generated key g)) r)"
      if "q \<noteq> r" "drawn (((rc_threads s)(p := Generated key g)) q) \<noteq> None" for q r
    proof (cases "q = p \<or> r = p")
      case True
      with that(1) fresh [of q] fresh [of r] show ?thesis by auto
    next
      case False
      with that assms(2) show ?thesis unfolding generations_ok_def by simp
    qed
  qed
next
  case (insert p key generation g previous m)
  then have "rg_generation g = generation" "rm_next_generation m = rm_next_generation (rc_manager s)"
    by (auto simp: insert_active_def Let_def)
  with insert show ?thesis unfolding insert(1) by (intro generations_frame [OF assms(2)]) auto
next
  case (supersede p g previous)
  then show ?thesis
    unfolding supersede(1)
    by (intro generations_frame [OF assms(2)]) (auto simp: Request_Cancellation.supersede_def split: option.split)
next
  case (finish p g)
  then show ?thesis unfolding finish(1) by (intro generations_frame [OF assms(2)]) auto
next
  case (abandon p g)
  then show ?thesis
    unfolding abandon(1) by (intro generations_frame [OF assms(2)]) (auto simp: cancel_unfinished_def)
next
  case (remove p g)
  then show ?thesis
    unfolding remove(1) by (intro generations_frame [OF assms(2)]) (auto simp: remove_guard_def split: option.split)
qed

lemma issued_irrelevant [simp]:
  "tokens_ok (s\<lparr>rc_issued := n\<rparr>) = tokens_ok s" "entries_ok (s\<lparr>rc_issued := n\<rparr>) = entries_ok s"
  by (simp_all add: tokens_ok_def entries_ok_def)

lemma tokens_frame:
  assumes "tokens_ok s" "rm_next_token m = rm_next_token (rc_manager s)" "\<And>u. cell_ok (rm_tokens m u)"
    and "held t = None \<or> map_option rg_token (held t) = map_option rg_token (held (rc_threads s p))" "target t = None"
  shows "tokens_ok (advance s p t m)"
proof -
  have same: "\<exists>h'. held (rc_threads s q) = Some h' \<and> rg_token h' = rg_token h"
    if "held (((rc_threads s)(p := t)) q) = Some h" for q h
    using that assms(4) by (cases "q = p"; cases "held (rc_threads s p)") auto
  have "target (((rc_threads s)(p := t)) q) = Some u \<Longrightarrow> u < rm_next_token m" for q u
    using assms(1,2,5) by (auto simp: tokens_ok_def split: if_splits)
  moreover have "held (((rc_threads s)(p := t)) q) = Some h \<Longrightarrow> rg_token h < rm_next_token m" for q h
    using same [of q h] assms(1,2) unfolding tokens_ok_def by metis
  moreover have "q = r" if "held (((rc_threads s)(p := t)) q) = Some h" "held (((rc_threads s)(p := t)) r) = Some h'"
    "rg_token h = rg_token h'" for q r h h'
    using same [OF that(1)] same [OF that(2)] that(3) assms(1) unfolding tokens_ok_def by metis
  ultimately show ?thesis unfolding tokens_ok_def advance_simps using assms(3) by blast
qed

lemma tokens_step:
  assumes "rc_step N s s'" "tokens_ok s" "entries_ok s"
  shows "tokens_ok s'"
  using assms(1)
proof (cases rule: rc_step.cases)
  case (insert p key generation g previous m)
  then have g: "rg_token g = rm_next_token (rc_manager s)" "previous = rm_active (rc_manager s) key"
    and m: "rm_next_token m = Suc (rm_next_token (rc_manager s))"
      "rm_tokens m = (rm_tokens (rc_manager s))(rg_token g := state_new N)"
    by (auto simp: insert_active_def Let_def)
  have old: "rg_token h < rm_next_token (rc_manager s)" if "held (rc_threads s q) = Some h" for q h
    using assms(2) that by (simp add: tokens_ok_def)
  have fresh: "rg_token h \<noteq> rm_next_token (rc_manager s)" if "held (rc_threads s q) = Some h" for q h
    using old [OF that] by simp
  have prev: "ar_token a < rm_next_token (rc_manager s)" if "previous = Some a" for a
    using assms(3) old that g(2) unfolding entries_ok_def by (metis active_request.select_convs(2))
  show ?thesis
    using assms(2) prev old unfolding tokens_ok_def insert
    by (auto simp: m g(1) less_Suc_eq split: if_splits dest: fresh)
next
  case (generate p generation m key)
  then have "rm_next_token m = rm_next_token (rc_manager s)" "rm_tokens m = rm_tokens (rc_manager s)"
    by (auto simp: fetch_generation_def)
  moreover have "cell_ok (rm_tokens (rc_manager s) u)" for u using assms(2) by (simp add: tokens_ok_def)
  ultimately have "tokens_ok (advance s p (Generated key generation) m)"
    by (intro tokens_frame [OF assms(2)]) auto
  then show ?thesis unfolding generate(1) by simp
next
  case (supersede p g previous)
  have "cell_ok (rm_tokens (supersede N previous (rc_manager s)) u)" for u
    using assms(2) by (auto simp: tokens_ok_def supersede_def token.cancel_ok split: option.split)
  with supersede show ?thesis
    unfolding supersede(1) by (intro tokens_frame [OF assms(2)]) (auto simp: supersede_def split: option.split)
next
  case (finish p g)
  with assms(2) show ?thesis
    unfolding finish(1) by (intro tokens_frame [OF assms(2)]) (auto simp: tokens_ok_def)
next
  case (abandon p g)
  have "cell_ok (rm_tokens (cancel_unfinished N g (rc_manager s)) u)" for u
    using assms(2) by (auto simp: tokens_ok_def cancel_unfinished_def token.cancel_ok)
  with abandon show ?thesis
    unfolding abandon(1) by (intro tokens_frame [OF assms(2)]) (auto simp: cancel_unfinished_def)
next
  case (remove p g)
  with assms(2) show ?thesis
    unfolding remove(1)
    by (intro tokens_frame [OF assms(2)]) (auto simp: remove_guard_def tokens_ok_def split: option.split)
qed

lemma reasons_step:
  assumes "rc_step N s s'" "tokens_ok s" "reasons_ok s"
  shows "reasons_ok s'"
  using assms(1)
proof (cases rule: rc_step.cases)
  case (generate p generation m key)
  with assms(3) show ?thesis by (auto simp: reasons_ok_def fetch_generation_def token_reason_def)
next
  case (insert p key generation g previous m)
  then have "rg_token g = rm_next_token (rc_manager s)" "rm_tokens m = (rm_tokens (rc_manager s))(rg_token g := state_new N)"
    by (auto simp: insert_active_def Let_def)
  with insert assms(3) show ?thesis by (auto simp: reasons_ok_def token_reason_def)
next
  case (supersede p g previous)
  have "token_reason (rc_manager s) (rg_token g) \<noteq> Some Client"
    using assms(3) supersede(2) unfolding reasons_ok_def by (metis live.simps(1))
  with supersede assms(2,3) show ?thesis
    by (auto simp: reasons_ok_def supersede_def token_cancel_reason tokens_ok_def split: option.split)
next
  case (finish p g)
  with assms(3) show ?thesis by (auto simp: reasons_ok_def)
next
  case (abandon p g)
  have "rg_token h \<noteq> rg_token g" if "live (rc_threads s q) = Some h" "q \<noteq> p" for q h
  proof -
    have "held (rc_threads s q) = Some h" "held (rc_threads s p) = Some g"
      using that(1) abandon(2) by (cases "rc_threads s q"; simp)+
    with assms(2) that(2) show ?thesis unfolding tokens_ok_def by blast
  qed
  with abandon assms(2,3) show ?thesis
    by (auto simp: reasons_ok_def cancel_unfinished_def token_cancel_reason tokens_ok_def)
next
  case (remove p g)
  with assms(3) show ?thesis
    by (auto simp: reasons_ok_def remove_guard_def token_reason_def split: option.split)
qed

text \<open>A thread that holds a guard and steps without touching the map keeps the entries in order.\<close>

lemma entries_frame:
  assumes "entries_ok s" "rm_active m = rm_active (rc_manager s)"
    and "\<And>u. token_reason (rc_manager s) u \<noteq> None \<Longrightarrow> token_reason m u \<noteq> None"
    and "\<And>u. target (rc_threads s p) = Some u \<Longrightarrow> target t = Some u \<or> token_reason m u \<noteq> None"
    and "map_option (\<lambda>g. (rg_key g, guard_entry g)) (held t)
      = map_option (\<lambda>g. (rg_key g, guard_entry g)) (held (rc_threads s p))"
  shows "entries_ok (advance s p t m)"
  unfolding entries_ok_def advance_simps
proof (intro conjI allI impI)
  have same: "\<exists>h'. held (rc_threads s q) = Some h' \<and> rg_key h' = rg_key h \<and> guard_entry h' = guard_entry h"
    if "held (((rc_threads s)(p := t)) q) = Some h" for q h
    using that assms(5) by (cases "q = p"; cases "held (rc_threads s p)"; cases "held t") auto
  have kept: "\<exists>h'. held (((rc_threads s)(p := t)) q) = Some h' \<and> rg_key h' = rg_key h \<and> guard_entry h' = guard_entry h"
    if "held (rc_threads s q) = Some h" for q h
    using that assms(5) by (cases "q = p"; cases "held (rc_threads s p)"; cases "held t") auto
  show "\<exists>q g. held (((rc_threads s)(p := t)) q) = Some g \<and> rg_key g = key \<and> guard_entry g = a"
    if a: "rm_active m key = Some a" for key a
  proof -
    obtain q h where "held (rc_threads s q) = Some h" "rg_key h = key" "guard_entry h = a"
      using assms(1,2) a unfolding entries_ok_def by metis
    with kept show ?thesis by metis
  qed
  show "token_reason m (rg_token g) \<noteq> None \<or> rm_active m (rg_key g) = Some (guard_entry g)
      \<or> (\<exists>r. target (((rc_threads s)(p := t)) r) = Some (rg_token g))"
    if h: "held (((rc_threads s)(p := t)) q) = Some g" for q g
  proof -
    from same [OF h] obtain h' where h': "held (rc_threads s q) = Some h'" "rg_key h' = rg_key g"
      "guard_entry h' = guard_entry g" by blast
    have "rg_token h' = rg_token g" using h'(3) by simp
    with assms(1) h' consider "token_reason (rc_manager s) (rg_token g) \<noteq> None"
      | "rm_active (rc_manager s) (rg_key g) = Some (guard_entry g)"
      | r where "target (rc_threads s r) = Some (rg_token g)" unfolding entries_ok_def by metis
    then show ?thesis
    proof cases
      case 3
      then show ?thesis using assms(4) by (cases "r = p") (metis fun_upd_same, metis fun_upd_other)
    qed (use assms(2,3) in auto)
  qed
qed

lemma entries_insert:
  assumes "tokens_ok s" "entries_ok s" "held (rc_threads s p) = None" "target (rc_threads s p) = None"
    and "insert_active N key generation (rc_manager s) = (g, previous, m)"
  shows "entries_ok (advance s p (Superseding g previous) m)"
proof -
  from assms(5) have g: "rg_key g = key" "rg_token g = rm_next_token (rc_manager s)"
    and prev: "previous = rm_active (rc_manager s) key"
    and m: "rm_active m = (rm_active (rc_manager s))(key \<mapsto> guard_entry g)"
      "rm_tokens m = (rm_tokens (rc_manager s))(rg_token g := state_new N)"
    by (auto simp: insert_active_def Let_def)
  let ?th = "(rc_threads s)(p := Superseding g previous)"
  show ?thesis unfolding entries_ok_def advance_simps
  proof (intro conjI allI impI)
    fix k a
    assume a: "rm_active m k = Some a"
    show "\<exists>q h. held (?th q) = Some h \<and> rg_key h = k \<and> guard_entry h = a"
    proof (cases "k = key")
      case True
      with a m(1) g(1) show ?thesis by (intro exI [of _ p] exI [of _ g]) simp
    next
      case False
      with a m(1) obtain q h where h: "held (rc_threads s q) = Some h" "rg_key h = k" "guard_entry h = a"
        using assms(2) unfolding entries_ok_def by (metis fun_upd_other)
      with assms(3) have "q \<noteq> p" by auto
      with h show ?thesis by (intro exI [of _ q] exI [of _ h]) simp
    qed
  next
    fix q h
    assume h: "held (?th q) = Some h"
    show "token_reason m (rg_token h) \<noteq> None \<or> rm_active m (rg_key h) = Some (guard_entry h)
      \<or> (\<exists>r. target (?th r) = Some (rg_token h))"
    proof (cases "q = p")
      case True
      with h have "h = g" by simp
      with m(1) g(1) show ?thesis by simp
    next
      case False
      with h have h': "held (rc_threads s q) = Some h" by simp
      then have old: "rg_token h \<noteq> rg_token g" using assms(1) g(2) unfolding tokens_ok_def by (metis less_irrefl)
      from assms(2) h' consider "token_reason (rc_manager s) (rg_token h) \<noteq> None"
        | "rm_active (rc_manager s) (rg_key h) = Some (guard_entry h)"
        | r where "target (rc_threads s r) = Some (rg_token h)" unfolding entries_ok_def by metis
      then show ?thesis
      proof cases
        case 1
        with old m(2) show ?thesis by (simp add: token_reason_def)
      next
        case 2
        show ?thesis
        proof (cases "rg_key h = key")
          case True
          with 2 prev have "target (?th p) = Some (rg_token h)" by simp
          then show ?thesis by blast
        qed (use 2 m(1) in simp)
      next
        case 3
        with assms(4) have "target (?th r) = Some (rg_token h)" by auto
        then show ?thesis by blast
      qed
    qed
  qed
qed

lemma entries_remove:
  assumes "generations_ok s" "entries_ok s" "rc_threads s p = Leaving g"
  shows "entries_ok (advance s p Ready (remove_guard g (rc_manager s)))"
proof -
  let ?m = "remove_guard g (rc_manager s)" and ?th = "(rc_threads s)(p := Ready)"
  have other: "rg_generation h \<noteq> rg_generation g" if "held (rc_threads s q) = Some h" "q \<noteq> p" for q h
  proof -
    have "drawn (rc_threads s q) = Some (rg_generation h)" using that(1) by (cases "rc_threads s q") auto
    moreover have "drawn (rc_threads s p) = Some (rg_generation g)" using assms(3) by simp
    ultimately show ?thesis using assms(1) that(2) unfolding generations_ok_def by (metis option.distinct(1))
  qed
  have active: "rm_active ?m k = Some a \<longleftrightarrow>
      rm_active (rc_manager s) k = Some a \<and> (k = rg_key g \<longrightarrow> ar_generation a \<noteq> rg_generation g)" for k a
    by (auto simp: remove_guard_def split: option.split)
  have tokens: "token_reason ?m = token_reason (rc_manager s)"
    by (auto simp: remove_guard_def token_reason_def fun_eq_iff split: option.split)
  show ?thesis unfolding entries_ok_def advance_simps tokens
  proof (intro conjI allI impI)
    fix k a
    assume a: "rm_active ?m k = Some a"
    then obtain q h where h: "held (rc_threads s q) = Some h" "rg_key h = k" "guard_entry h = a"
      using assms(2) unfolding entries_ok_def active by metis
    have "q \<noteq> p" using a h assms(3) unfolding active by auto
    with h show "\<exists>q h. held (?th q) = Some h \<and> rg_key h = k \<and> guard_entry h = a"
      by (intro exI [of _ q] exI [of _ h]) simp
  next
    fix q h
    assume "held (?th q) = Some h"
    then have h: "held (rc_threads s q) = Some h" "q \<noteq> p" by (auto split: if_splits)
    from assms(2) h(1) consider "token_reason (rc_manager s) (rg_token h) \<noteq> None"
      | "rm_active (rc_manager s) (rg_key h) = Some (guard_entry h)"
      | r where "target (rc_threads s r) = Some (rg_token h)" unfolding entries_ok_def by metis
    then show "token_reason (rc_manager s) (rg_token h) \<noteq> None \<or> rm_active ?m (rg_key h) = Some (guard_entry h)
      \<or> (\<exists>r. target (?th r) = Some (rg_token h))"
    proof cases
      case 2
      with other [OF h] show ?thesis by (simp add: active)
    next
      case 3
      with assms(3) have "target (?th r) = Some (rg_token h)" by auto
      then show ?thesis by blast
    qed blast
  qed
qed

lemma entries_step:
  assumes "rc_step N s s'" "generations_ok s" "tokens_ok s" "entries_ok s"
  shows "entries_ok s'"
  using assms(1)
proof (cases rule: rc_step.cases)
  case (generate p generation m key)
  then have "rm_active m = rm_active (rc_manager s)" "rm_tokens m = rm_tokens (rc_manager s)"
    by (auto simp: fetch_generation_def)
  then have "entries_ok (advance s p (Generated key generation) m)"
    using generate(2) by (intro entries_frame [OF assms(4)]) (auto simp: token_reason_def)
  then show ?thesis unfolding generate(1) by simp
next
  case (insert p key generation g previous m)
  then show ?thesis unfolding insert(1) by (intro entries_insert [OF assms(3,4)]) auto
next
  case (supersede p g previous)
  with assms(3) show ?thesis
    unfolding supersede(1)
    by (intro entries_frame [OF assms(4)])
       (auto simp: supersede_def token_cancel_reason tokens_ok_def split: option.split)
next
  case (finish p g)
  then show ?thesis unfolding finish(1) by (intro entries_frame [OF assms(4)]) auto
next
  case (abandon p g)
  with assms(3) show ?thesis
    unfolding abandon(1)
    by (intro entries_frame [OF assms(4)]) (auto simp: cancel_unfinished_def token_cancel_reason tokens_ok_def)
next
  case (remove p g)
  then show ?thesis unfolding remove(1) by (intro entries_remove [OF assms(2,4)])
qed

lemma issued_mono: "rc_step N s s' \<Longrightarrow> rc_issued s \<le> rc_issued s'"
  by (auto elim: rc_step.cases)

lemma rc_inv_init: "rc_inv (rc_init N)"
  by (simp add: rc_inv_def rc_init_def manager_new_def generations_ok_def tokens_ok_def entries_ok_def reasons_ok_def)

lemma rc_inv_reachable: "(rc_step N)\<^sup>*\<^sup>* (rc_init N) s \<Longrightarrow> rc_issued s < 2 ^ 64 \<Longrightarrow> rc_inv s"
proof (induction rule: rtranclp_induct)
  case base
  show ?case by (rule rc_inv_init)
next
  case (step s s')
  then have "rc_inv s" using issued_mono [OF step.hyps(2)] by simp
  with step show ?case
    unfolding rc_inv_def using generations_step tokens_step entries_step reasons_step by blast
qed

lemma reason_step:
  assumes "rc_step N s s'" "tokens_ok s" "t < rm_next_token (rc_manager s)"
    "token_reason (rc_manager s) t = Some r"
  shows "token_reason (rc_manager s') t = Some r \<and> t < rm_next_token (rc_manager s')"
  using assms
  by (cases rule: rc_step.cases)
     (auto simp: fetch_generation_def insert_active_def supersede_def cancel_unfinished_def remove_guard_def
        token.reason_kept tokens_ok_def Let_def token_reason_def split: option.splits if_splits)

subsection \<open>Properties\<close>

text \<open>
  C35. One current request per family and document: whatever the interleaving of fewer than \<open>2 ^ 64\<close>
  requests, when no thread is about to cancel an older request, a request that runs and is not
  cancelled is the one that is registered for its key, so that two uncancelled requests never run
  with the same key. A running request can only have been cancelled by a newer one, and a registered
  request belongs to a thread that has not left it, so nothing stays registered when all are done.
\<close>

theorem one_current_request:
  assumes "(rc_step N)\<^sup>*\<^sup>* (rc_init N) s" "rc_issued s < 2 ^ 64"
  shows "((\<forall>q. target (rc_threads s q) = None) \<longrightarrow> rc_threads s p = Running g
        \<longrightarrow> token_reason (rc_manager s) (rg_token g) = None \<longrightarrow>
        rm_active (rc_manager s) (rg_key g) = Some (guard_entry g)
        \<and> (\<forall>q h. rc_threads s q = Running h \<longrightarrow> rg_key h = rg_key g \<longrightarrow> q \<noteq> p \<longrightarrow>
             token_reason (rc_manager s) (rg_token h) = Some Superseded))
    \<and> (rc_threads s p = Running g \<longrightarrow> token_reason (rc_manager s) (rg_token g) \<in> {None, Some Superseded})
    \<and> ((\<forall>q. rc_threads s q = Ready) \<longrightarrow> rm_active (rc_manager s) = Map.empty)"
proof -
  have inv: "generations_ok s" "tokens_ok s" "entries_ok s" "reasons_ok s"
    using rc_inv_reachable [OF assms] by (simp_all add: rc_inv_def)
  have reason: "token_reason (rc_manager s) (rg_token h) \<in> {None, Some Superseded}" if "rc_threads s q = Running h" for q h
  proof -
    have "token_reason (rc_manager s) (rg_token h) \<noteq> Some Client"
      using inv(4) that unfolding reasons_ok_def by (metis live.simps(2))
    then show ?thesis using cancelled.exhaust by (cases "token_reason (rc_manager s) (rg_token h)") auto
  qed
  have registered: "rm_active (rc_manager s) (rg_key h) = Some (guard_entry h)"
    if "\<forall>q. target (rc_threads s q) = None" "rc_threads s q = Running h"
      "token_reason (rc_manager s) (rg_token h) = None" for q h
    using inv(3) that unfolding entries_ok_def by (metis held.simps(2) option.distinct(1))
  have "token_reason (rc_manager s) (rg_token h) = Some Superseded"
    if "\<forall>q. target (rc_threads s q) = None" "rc_threads s p = Running g"
      "token_reason (rc_manager s) (rg_token g) = None" "rc_threads s q = Running h" "rg_key h = rg_key g" "q \<noteq> p" for q h
  proof -
    have "rg_token h \<noteq> rg_token g"
      using inv(2) that(2,4,6) unfolding tokens_ok_def by (metis held.simps(2))
    then have "rm_active (rc_manager s) (rg_key h) \<noteq> Some (guard_entry h)"
      using registered [OF that(1,2,3)] that(5) by simp
    then show ?thesis using registered [OF that(1,4)] reason [OF that(4)] by auto
  qed
  moreover have "rm_active (rc_manager s) = Map.empty" if "\<forall>q. rc_threads s q = Ready"
    using inv(3) that unfolding entries_ok_def by (intro ext) (metis held.simps(4) not_Some_eq)
  ultimately show ?thesis using registered reason by blast
qed

text \<open>A notification primitive that satisfies the contract: it counts the wake-ups, and a handle is the count it was created at.\<close>

definition counting_notify :: "(nat \<times> nat list) notify_ops" where
  "counting_notify = \<lparr>nt_new = (0, []),
     nt_notified = (\<lambda>(calls, handles). (length handles, (calls, handles @ [calls]))),
     nt_notify_waiters = (\<lambda>(calls, handles). (Suc calls, handles)),
     nt_ready = (\<lambda>(calls, handles) h. h < length handles \<and> handles ! h < calls)\<rparr>"

lemma counting_notify_laws: "notify_laws counting_notify"
  by (auto simp: notify_laws_def counting_notify_def)

text \<open>The first two threads begin a request each for the same document, one after the other.\<close>

definition two_requests :: "(nat \<times> nat list) rc_state" where
  "two_requests =
     (let N = counting_notify;
          (g, m1) = begin_request N Completion ''A.java'' (manager_new N);
          (h, m2) = begin_request N Completion ''A.java'' m1
      in \<lparr>rc_manager = m2, rc_threads = (\<lambda>_. Ready)(0 := Running g, 1 := Running h), rc_issued = 2\<rparr>)"

lemma begin_request_steps:
  assumes "rc_threads s p = Ready" "begin_request N family uri (rc_manager s) = (g, m)"
  shows "(rc_step N)\<^sup>*\<^sup>* s ((advance s p (Running g) m)\<lparr>rc_issued := Suc (rc_issued s)\<rparr>)"
proof -
  let ?key = "\<lparr>rk_family = family, rk_uri = uri\<rparr>"
  obtain generation m1 where f: "fetch_generation (rc_manager s) = (generation, m1)" by fastforce
  obtain previous m2 where i: "insert_active N ?key generation m1 = (g, previous, m2)" "m = supersede N previous m2"
    using assms(2) f by (auto simp: begin_request_def split: prod.splits)
  let ?s1 = "(advance s p (Generated ?key generation) m1)\<lparr>rc_issued := Suc (rc_issued s)\<rparr>"
  let ?s2 = "advance ?s1 p (Superseding g previous) m2"
  have "rc_step N s ?s1" by (rule rc_step.generate [OF assms(1) f])
  moreover have "rc_step N ?s1 ?s2" by (rule rc_step.insert) (use i in auto)
  moreover have "rc_step N ?s2 (advance ?s2 p (Running g) (supersede N previous (rc_manager ?s2)))"
    by (rule rc_step.supersede) simp
  ultimately have steps: "(rc_step N)\<^sup>*\<^sup>* s (advance ?s2 p (Running g) m)"
    using i(2) by (simp add: rtranclp.rtrancl_into_rtrancl)
  have eq: "advance ?s2 p (Running g) m = (advance s p (Running g) m)\<lparr>rc_issued := Suc (rc_issued s)\<rparr>"
    by (cases s) simp
  show ?thesis using steps unfolding eq .
qed

lemma two_requests_reachable: "(rc_step counting_notify)\<^sup>*\<^sup>* (rc_init counting_notify) two_requests"
proof -
  let ?N = counting_notify
  obtain g m1 where g: "begin_request ?N Completion ''A.java'' (manager_new ?N) = (g, m1)" by fastforce
  obtain h m2 where h: "begin_request ?N Completion ''A.java'' m1 = (h, m2)" by fastforce
  let ?s1 = "(advance (rc_init ?N) 0 (Running g) m1)\<lparr>rc_issued := Suc (rc_issued (rc_init ?N))\<rparr>"
  have first: "(rc_step ?N)\<^sup>*\<^sup>* (rc_init ?N) ?s1" by (rule begin_request_steps) (use g in \<open>auto simp: rc_init_def\<close>)
  have second: "(rc_step ?N)\<^sup>*\<^sup>* ?s1 ((advance ?s1 1 (Running h) m2)\<lparr>rc_issued := Suc (rc_issued ?s1)\<rparr>)"
    by (rule begin_request_steps) (use h in \<open>auto simp: rc_init_def\<close>)
  have "two_requests = (advance ?s1 1 (Running h) m2)\<lparr>rc_issued := Suc (rc_issued ?s1)\<rparr>"
    using g h by (simp add: two_requests_def rc_init_def)
  with rtranclp_trans [OF first second] show ?thesis by simp
qed

theorem one_current_request_witness:
  "token_reason (rc_manager two_requests) 0 = Some Superseded \<and> token_reason (rc_manager two_requests) 1 = None"
proof -
  let ?k = "\<lparr>rk_family = Completion, rk_uri = ''A.java''\<rparr>"
  let ?g = "\<lparr>rg_key = ?k, rg_generation = 1, rg_token = 0, rg_completed = False\<rparr>"
  let ?h = "\<lparr>rg_key = ?k, rg_generation = 2, rg_token = 1, rg_completed = False\<rparr>"
  have run: "rc_threads two_requests = (\<lambda>_. Ready)(0 := Running ?g, 1 := Running ?h)" "rc_issued two_requests = 2"
    "token_reason (rc_manager two_requests) 1 = None"
    by (simp_all add: two_requests_def begin_request_def fetch_generation_def insert_active_def supersede_def
          manager_new_def token_reason_def)
  have "token_reason (rc_manager two_requests) (rg_token ?g) = Some Superseded"
    by (rule one_current_request [OF two_requests_reachable, of 1 ?h, THEN conjunct1, rule_format,
          THEN conjunct2, rule_format, of 0]) (simp_all add: run run(3) [simplified])
  with run(3) show ?thesis by simp
qed

lemma reasons_are_final:
  assumes "(rc_step N)\<^sup>*\<^sup>* s s'" "rc_inv s" "rc_issued s' < 2 ^ 64" "t < rm_next_token (rc_manager s)"
    "token_reason (rc_manager s) t = Some r"
  shows "token_reason (rc_manager s') t = Some r"
proof -
  have "rc_issued s' < 2 ^ 64 \<Longrightarrow> rc_inv s' \<and> t < rm_next_token (rc_manager s') \<and> token_reason (rc_manager s') t = Some r"
    using assms(1)
  proof (induction rule: rtranclp_induct)
    case base
    with assms show ?case by blast
  next
    case (step u v)
    then have u: "rc_inv u" "t < rm_next_token (rc_manager u)" "token_reason (rc_manager u) t = Some r"
      using issued_mono [OF step.hyps(2)] by auto
    with step show ?case
      unfolding rc_inv_def using generations_step tokens_step entries_step reasons_step reason_step by blast
  qed
  with assms(3) show ?thesis by blast
qed

subsection \<open>Waiting for a token\<close>

text \<open>
  \<open>cancelled\<close> loops: it reads the reason and, when there is none, creates a wait handle and awaits it.
  \<open>cancel\<close> on another thread swaps the reason and then wakes the handles. The steps are the atomic
  accesses of the two.
\<close>

datatype waiter = Checking | Unregistered | Awaiting nat | Returned cancelled

datatype canceller = Idle | Swapped | Notified

record 'n wait_state =
  wt_token :: "'n cancellation_state"
  wt_waiter :: waiter
  wt_canceller :: canceller

definition wait_init :: "'n notify_ops \<Rightarrow> 'n wait_state" where
  "wait_init N = \<lparr>wt_token = state_new N, wt_waiter = Checking, wt_canceller = Idle\<rparr>"

inductive wait_step :: "'n notify_ops \<Rightarrow> 'n wait_state \<Rightarrow> 'n wait_state \<Rightarrow> bool" for N where
  observe: "wt_waiter s = Checking \<Longrightarrow> state_reason (wt_token s) = Some r \<Longrightarrow>
     wait_step N s (s\<lparr>wt_waiter := Returned r\<rparr>)"
| unset: "wt_waiter s = Checking \<Longrightarrow> state_reason (wt_token s) = None \<Longrightarrow>
     wait_step N s (s\<lparr>wt_waiter := Unregistered\<rparr>)"
| register: "wt_waiter s = Unregistered \<Longrightarrow> nt_notified N (tk_notify (wt_token s)) = (h, n) \<Longrightarrow>
     wait_step N s (s\<lparr>wt_token := (wt_token s)\<lparr>tk_notify := n\<rparr>, wt_waiter := Awaiting h\<rparr>)"
| wake: "wt_waiter s = Awaiting h \<Longrightarrow> nt_ready N (tk_notify (wt_token s)) h \<Longrightarrow>
     wait_step N s (s\<lparr>wt_waiter := Checking\<rparr>)"
| swap: "wt_canceller s = Idle \<Longrightarrow> tk_reason (wt_token s) = 0 \<Longrightarrow>
     wait_step N s (s\<lparr>wt_token := (wt_token s)\<lparr>tk_reason := as_u8 r\<rparr>, wt_canceller := Swapped\<rparr>)"
| notify: "wt_canceller s = Swapped \<Longrightarrow>
     wait_step N s (s\<lparr>wt_token := (wt_token s)\<lparr>tk_notify := nt_notify_waiters N (tk_notify (wt_token s))\<rparr>,
        wt_canceller := Notified\<rparr>)"

inductive_cases wait_stepE: "wait_step N s s'"

text \<open>
  C36. Lost wake-ups: a waiter that has read no reason and has not yet created its handle misses the
  cancellation that happens in between. There is a run after which the token is cancelled, the
  cancelling thread is done, and the waiter awaits a handle that nothing will wake: no step is left.
\<close>

theorem cancelled_may_sleep:
  assumes "notify_laws N"
  shows "\<exists>s. (wait_step N)\<^sup>*\<^sup>* (wait_init N) s \<and> state_reason (wt_token s) = Some Superseded
    \<and> (\<exists>h. wt_waiter s = Awaiting h) \<and> (\<forall>s'. \<not> wait_step N s s')"
proof -
  let ?n = "nt_notify_waiters N (nt_new N)"
  obtain h n where h: "nt_notified N ?n = (h, n)" by fastforce
  let ?s = "\<lambda>reason notify waiter canceller.
    \<lparr>wt_token = \<lparr>tk_reason = reason, tk_notify = notify\<rparr>, wt_waiter = waiter, wt_canceller = canceller\<rparr>"
  have "wait_step N (?s 0 (nt_new N) Checking Idle) (?s 0 (nt_new N) Unregistered Idle)"
    using wait_step.unset [of "?s 0 (nt_new N) Checking Idle"] by (simp add: state_reason_def from_u8_def)
  moreover have "wait_step N (?s 0 (nt_new N) Unregistered Idle) (?s 2 (nt_new N) Unregistered Swapped)"
    using wait_step.swap [of "?s 0 (nt_new N) Unregistered Idle" N Superseded] by simp
  moreover have "wait_step N (?s 2 (nt_new N) Unregistered Swapped) (?s 2 ?n Unregistered Notified)"
    using wait_step.notify [of "?s 2 (nt_new N) Unregistered Swapped" N] by simp
  moreover have "wait_step N (?s 2 ?n Unregistered Notified) (?s 2 n (Awaiting h) Notified)"
    using wait_step.register [of "?s 2 ?n Unregistered Notified" N h n] h by simp
  ultimately have "(wait_step N)\<^sup>*\<^sup>* (wait_init N) (?s 2 n (Awaiting h) Notified)"
    unfolding wait_init_def state_new_def by (meson rtranclp.rtrancl_into_rtrancl rtranclp.rtrancl_refl)
  moreover have "\<not> wait_step N (?s 2 n (Awaiting h) Notified) s'" for s'
    using assms h by (auto simp: notify_laws_def elim!: wait_stepE)
  ultimately show ?thesis
    by (intro exI [of _ "?s 2 n (Awaiting h) Notified"]) (auto simp: state_reason_def from_u8_def)
qed

theorem cancelled_may_sleep_witness:
  "\<exists>s. (wait_step counting_notify)\<^sup>*\<^sup>* (wait_init counting_notify) s \<and> (\<exists>h. wt_waiter s = Awaiting h)
    \<and> (\<forall>s'. \<not> wait_step counting_notify s s')"
  using cancelled_may_sleep [OF counting_notify_laws] by blast

end
