(* ===== verification/Build_Model.thy ===== *)
theory Build_Model
  imports Type_Resolver "HOL-Library.List_Lexorder" "HOL-Library.Char_ord"
begin

text \<open>
  The workspace model that a build tool exports (\<open>build_integration/model.rs\<close>, \<open>gradle.rs\<close>,
  \<open>maven.rs\<close>, \<open>detection.rs\<close>, \<open>tool.rs\<close>): modules with their source roots and classpaths, the
  normalisation of an exported workspace, and the look-ups from a path to a source root, a package
  and an analysis context (\<open>workspace.rs\<close>).

  A path is the list of its components, which is how the standard library compares, orders and
  prefixes paths. Whether a path exists is the parameter \<open>exists\<close>. Identifiers are 32-bit words whose
  arithmetic wraps as in a release build.
\<close>

subsection \<open>Paths\<close>

datatype component = RootDir | CurDir | ParentDir | Normal str

fun component_rank :: "component \<Rightarrow> nat" where
  "component_rank RootDir = 0"
| "component_rank CurDir = 1"
| "component_rank ParentDir = 2"
| "component_rank (Normal _) = 3"

fun component_str :: "component \<Rightarrow> str" where
  "component_str RootDir = ''/''"
| "component_str CurDir = ''.''"
| "component_str ParentDir = ''..''"
| "component_str (Normal s) = s"

lemma component_eqI: "component_rank c = component_rank d \<Longrightarrow> component_str c = component_str d \<Longrightarrow> c = d"
  by (cases c; cases d) auto

instantiation component :: linorder
begin

definition less_eq_component :: "component \<Rightarrow> component \<Rightarrow> bool" where
  "less_eq_component c d \<longleftrightarrow>
     component_rank c < component_rank d \<or> component_rank c = component_rank d \<and> component_str c \<le> component_str d"

definition less_component :: "component \<Rightarrow> component \<Rightarrow> bool" where
  "less_component c d \<longleftrightarrow>
     component_rank c < component_rank d \<or> component_rank c = component_rank d \<and> component_str c < component_str d"

instance
  by standard (auto simp: less_eq_component_def less_component_def intro: component_eqI)

end

type_synonym path = "component list"

text \<open>\<open>PathBuf::from\<close>: empty pieces and inner \<open>.\<close> pieces are dropped.\<close>

definition path_component :: "str \<Rightarrow> component" where
  "path_component s = (if s = ''..'' then ParentDir else Normal s)"

definition path_from :: "str \<Rightarrow> path" where
  "path_from raw =
     (let pieces = split_char (CHR ''/'') raw;
          kept = map path_component (filter (\<lambda>p. p \<noteq> [] \<and> p \<noteq> ''.'') pieces)
      in if starts_with raw ''/'' then RootDir # kept
         else if hd pieces = ''.'' then CurDir # kept
         else kept)"

definition is_absolute :: "path \<Rightarrow> bool" where
  "is_absolute p \<longleftrightarrow> (case p of RootDir # _ \<Rightarrow> True | _ \<Rightarrow> False)"

definition path_join :: "path \<Rightarrow> path \<Rightarrow> path" where
  "path_join base p = (if is_absolute p then p else base @ p)"

definition path_starts_with :: "path \<Rightarrow> path \<Rightarrow> bool" where
  "path_starts_with p base \<longleftrightarrow> take (length base) p = base"

definition path_strip_prefix :: "path \<Rightarrow> path \<Rightarrow> path option" where
  "path_strip_prefix p base = (if path_starts_with p base then Some (drop (length base) p) else None)"

definition path_parent :: "path \<Rightarrow> path option" where
  "path_parent p = (if p = [] \<or> last p = RootDir then None else Some (butlast p))"

definition path_file_name :: "path \<Rightarrow> str option" where
  "path_file_name p = (if p = [] then None else (case last p of Normal s \<Rightarrow> Some s | _ \<Rightarrow> None))"

subsection \<open>The model\<close>

datatype build_tool_kind = Gradle | Maven
datatype model_freshness = ModelFresh | ModelStale
datatype model_fidelity = FidelityFull | FidelityPartial
datatype root_kind = Sources | Tests | Resources | GeneratedRoot

record model_provenance =
  mp_tool :: build_tool_kind
  mp_tool_version :: "str option"
  mp_imported_at :: nat

record workspace_source_root =
  wr_id :: source_root_id
  wr_path :: path
  wr_kind :: root_kind
  wr_classpath :: classpath_id

record workspace_module =
  wm_id :: module_id
  wm_name :: str
  wm_directory :: path
  wm_roots :: "workspace_source_root list"
  wm_compile_classpath :: "path list"
  wm_test_classpath :: "path list"
  wm_dependency_modules :: "module_id list"
  wm_language_version :: "str option"

record workspace_model_snapshot =
  sn_generation :: "64 word"
  sn_root :: path
  sn_name :: str
  sn_modules :: "workspace_module list"
  sn_provenance :: model_provenance
  sn_freshness :: model_freshness
  sn_fidelity :: model_fidelity

text \<open>\<open>max_by_key\<close>: the last of the greatest elements.\<close>

fun max_by_key :: "('a \<Rightarrow> nat) \<Rightarrow> 'a list \<Rightarrow> 'a option" where
  "max_by_key key [] = None"
| "max_by_key key (x # xs) = Some (fold (\<lambda>y m. if key y < key m then m else y) xs x)"

definition module_contains :: "workspace_module \<Rightarrow> path \<Rightarrow> bool" where
  "module_contains m p \<longleftrightarrow>
     wm_directory m = p \<or> path_starts_with p (wm_directory m)
     \<or> list_ex (\<lambda>r. path_starts_with p (wr_path r)) (wm_roots m)"

definition module_for_path :: "workspace_model_snapshot \<Rightarrow> path \<Rightarrow> workspace_module option" where
  "module_for_path model p = find (\<lambda>m. module_contains m p) (sn_modules model)"

abbreviation deepest :: "path \<Rightarrow> workspace_source_root list \<Rightarrow> workspace_source_root option" where
  "deepest p rs \<equiv> max_by_key (\<lambda>r. length (wr_path r)) (filter (\<lambda>r. path_starts_with p (wr_path r)) rs)"

definition source_root_for_path ::
  "workspace_model_snapshot \<Rightarrow> path \<Rightarrow> source_root_id option \<Rightarrow> workspace_source_root option" where
  "source_root_for_path model p preferred =
     (let roots = concat (map wm_roots (sn_modules model));
          wanted = (case preferred of
                      None \<Rightarrow> None
                    | Some i \<Rightarrow> find (\<lambda>r. wr_id r = i \<and> path_starts_with p (wr_path r)) roots)
      in case wanted of Some r \<Rightarrow> Some r | None \<Rightarrow> deepest p roots)"

record package_inference =
  pi_source_root_id :: source_root_id
  pi_source_root_path :: path
  pi_relative_dir :: path
  pi_package :: str

definition package_name_from_relative_dir :: "path \<Rightarrow> str" where
  "package_name_from_relative_dir dir = join ''.'' (map component_str dir)"

definition infer_java_package_for_file ::
  "workspace_model_snapshot \<Rightarrow> path \<Rightarrow> source_root_id option \<Rightarrow> package_inference option" where
  "infer_java_package_for_file model p preferred =
     (case source_root_for_path model p preferred of
        None \<Rightarrow> None
      | Some root \<Rightarrow>
          (case path_parent p of
             None \<Rightarrow> None
           | Some dir \<Rightarrow>
               map_option (\<lambda>rel. \<lparr>pi_source_root_id = wr_id root, pi_source_root_path = wr_path root,
                   pi_relative_dir = rel, pi_package = package_name_from_relative_dir rel\<rparr>)
                 (path_strip_prefix dir (wr_path root))))"

definition scope_of_module ::
  "path \<Rightarrow> workspace_module \<Rightarrow> (module_id \<times> classpath_id \<times> source_root_id option) option" where
  "scope_of_module p m =
     (case deepest p (wm_roots m) of
        Some root \<Rightarrow> Some (wm_id m, wr_classpath root, Some (wr_id root))
      | None \<Rightarrow>
          if wm_directory m = p \<or> path_starts_with p (wm_directory m) then Some (wm_id m, Main, None) else None)"

definition scope_for_path ::
  "workspace_model_snapshot \<Rightarrow> path \<Rightarrow> (module_id \<times> classpath_id \<times> source_root_id option) option" where
  "scope_for_path model p = find_map (scope_of_module p) (sn_modules model)"

subsection \<open>Analysis contexts\<close>

record analysis_context =
  ac_module :: module_id
  ac_classpath :: classpath_id
  ac_source_root :: "source_root_id option"
  ac_root_kind :: "root_kind option"

definition resolve_analysis_context_for_snapshot ::
  "workspace_model_snapshot option \<Rightarrow> path option \<Rightarrow> analysis_context" where
  "resolve_analysis_context_for_snapshot model path_opt =
     (let fallback = \<lparr>ac_module = ROOT, ac_classpath = Main, ac_source_root = None, ac_root_kind = None\<rparr>
      in case (path_opt, model) of
           (Some p, Some model) \<Rightarrow>
             (case max_by_key (\<lambda>(_, r). length (wr_path r))
                (filter (\<lambda>(_, r). path_starts_with p (wr_path r))
                   (concat (map (\<lambda>m. map (\<lambda>r. (wm_id m, r)) (wm_roots m)) (sn_modules model)))) of
                Some (i, r) \<Rightarrow> \<lparr>ac_module = i, ac_classpath = wr_classpath r, ac_source_root = Some (wr_id r),
                                ac_root_kind = Some (wr_kind r)\<rparr>
              | None \<Rightarrow>
                  (case module_for_path model p of
                     Some m \<Rightarrow> fallback\<lparr>ac_module := wm_id m\<rparr>
                   | None \<Rightarrow> fallback))
         | _ \<Rightarrow> fallback)"

subsection \<open>Detection\<close>

record watch_interest =
  wi_file_names :: "str list"

definition matches_path :: "watch_interest \<Rightarrow> path \<Rightarrow> bool" where
  "matches_path interest p =
     (case path_file_name p of None \<Rightarrow> False | Some name \<Rightarrow> name \<in> set (wi_file_names interest))"

record detected_build_tool =
  db_kind :: build_tool_kind
  db_root :: path
  db_watch_interest :: watch_interest

definition gradle_watch_interest :: watch_interest where
  "gradle_watch_interest = \<lparr>wi_file_names =
     [''build.gradle'', ''build.gradle.kts'', ''settings.gradle'', ''settings.gradle.kts'',
      ''gradle.properties'', ''libs.versions.toml'']\<rparr>"

definition maven_watch_interest :: watch_interest where
  "maven_watch_interest = \<lparr>wi_file_names =
     [''pom.xml'', ''settings.xml'', ''.mvn/maven.config'', ''.mvn/jvm.config'', ''.mvn/extensions.xml'',
      ''maven.config'']\<rparr>"

definition gradle_detect :: "(path \<Rightarrow> bool) \<Rightarrow> path \<Rightarrow> detected_build_tool option" where
  "gradle_detect exists root =
     (if list_ex (\<lambda>marker. exists (path_join root (path_from marker)))
           [''settings.gradle'', ''settings.gradle.kts'', ''build.gradle'', ''build.gradle.kts'']
      then Some \<lparr>db_kind = Gradle, db_root = root, db_watch_interest = gradle_watch_interest\<rparr> else None)"

definition maven_detect :: "(path \<Rightarrow> bool) \<Rightarrow> path \<Rightarrow> detected_build_tool option" where
  "maven_detect exists root =
     (if exists (path_join root (path_from ''pom.xml''))
      then Some \<lparr>db_kind = Maven, db_root = root, db_watch_interest = maven_watch_interest\<rparr> else None)"

text \<open>The registry of the service: Gradle first, then Maven, and the names either of them watches.\<close>

definition registry_detect :: "(path \<Rightarrow> bool) \<Rightarrow> path \<Rightarrow> detected_build_tool option" where
  "registry_detect exists root = find_map (\<lambda>detect. detect exists root) [gradle_detect, maven_detect]"

definition push_name :: "str \<Rightarrow> str list \<Rightarrow> str list" where
  "push_name name names = (if name \<in> set names then names else names @ [name])"

definition fallback_watch_interest :: watch_interest where
  "fallback_watch_interest = \<lparr>wi_file_names =
     fold push_name (wi_file_names gradle_watch_interest @ wi_file_names maven_watch_interest) []\<rparr>"

subsection \<open>Versions and scripts\<close>

record tool_version =
  tv_raw :: str
  tv_major :: "32 word option"
  tv_minor :: "32 word option"
  tv_patch :: "32 word option"

text \<open>\<open>parse::<u32>().ok()\<close> on a piece of digits.\<close>

definition parse_u32 :: "str \<Rightarrow> 32 word option" where
  "parse_u32 s =
     (if s \<noteq> [] \<and> list_all is_ascii_digit s \<and> digits_value s < 2 ^ 32 then Some (word_of_nat (digits_value s))
      else None)"

text \<open>\<open>split\<close> on the characters that are neither digits nor dots.\<close>

fun split_version :: "str \<Rightarrow> str list" where
  "split_version [] = [[]]"
| "split_version (c # cs) =
     (if is_ascii_digit c \<or> c = CHR ''.'' then (case split_version cs of [] \<Rightarrow> [[c]] | p # ps \<Rightarrow> (c # p) # ps)
      else [] # split_version cs)"

definition version_parse :: "str \<Rightarrow> tool_version" where
  "version_parse raw =
     (let part = (case find (list_ex is_ascii_digit) (split_version raw) of Some p \<Rightarrow> p | None \<Rightarrow> []);
          parts = List.map_filter parse_u32 (split_char (CHR ''.'') part)
      in \<lparr>tv_raw = raw, tv_major = nth_opt parts 0, tv_minor = nth_opt parts 1, tv_patch = nth_opt parts 2\<rparr>)"

definition number_or :: "32 word \<Rightarrow> 32 word option \<Rightarrow> 32 word" where
  "number_or d n = (case n of Some k \<Rightarrow> k | None \<Rightarrow> d)"

datatype export_strategy = Legacy | Modern

definition gradle_strategy :: "tool_version \<Rightarrow> export_strategy option" where
  "gradle_strategy v =
     (let major = number_or 0 (tv_major v)
      in if 4 \<le> major \<and> major < 7 then Some Legacy else if major \<ge> 7 then Some Modern else None)"

definition supports_modern_export :: "tool_version \<Rightarrow> bool" where
  "supports_modern_export v \<longleftrightarrow> number_or 0 (tv_major v) \<ge> 3 \<and> number_or 0 (tv_minor v) \<ge> 6"

definition maven_strategy :: "tool_version \<Rightarrow> export_strategy option" where
  "maven_strategy v =
     (if supports_modern_export v then Some Modern
      else if number_or 0 (tv_major v) \<ge> 3 then Some Legacy else None)"

definition MODEL_BEGIN :: str where "MODEL_BEGIN = ''JAVA_ANALYZER_MODEL_BEGIN''"
definition MODEL_END :: str where "MODEL_END = ''JAVA_ANALYZER_MODEL_END''"

datatype marker_error = NoBeginMarker | NoEndMarker | MarkersOutOfOrder

text \<open>The text between the markers; the slice is the one place where it could panic.\<close>

definition extract_model_json :: "str \<Rightarrow> rust_panic + marker_error + str" where
  "extract_model_json stdout =
     (case find_str stdout MODEL_BEGIN of
        None \<Rightarrow> Inr (Inl NoBeginMarker)
      | Some b \<Rightarrow>
          (case find_str stdout MODEL_END of
             None \<Rightarrow> Inr (Inl NoEndMarker)
           | Some e \<Rightarrow>
               if e \<le> b then Inr (Inl MarkersOutOfOrder)
               else map_ok (\<lambda>json. Inr (trim json)) (slice stdout (b + length MODEL_BEGIN) e)))"

subsection \<open>Normalisation\<close>

record project_export =
  pe_path :: str
  pe_name :: str
  pe_project_dir :: str
  pe_source_roots :: "str list"
  pe_test_roots :: "str list"
  pe_resource_roots :: "str list"
  pe_generated_roots :: "str list"
  pe_compile_classpath :: "str list"
  pe_test_classpath :: "str list"
  pe_module_dependencies :: "str list"
  pe_java_language_version :: "str option"

record imported_workspace =
  iw_root :: path
  iw_version :: tool_version
  iw_workspace_name :: str
  iw_projects :: "project_export list"
  iw_generated_at :: nat

definition module_number :: "nat \<Rightarrow> module_id" where
  "module_number i = word_of_nat i + 1"

definition module_ids :: "project_export list \<Rightarrow> str \<rightharpoonup> module_id" where
  "module_ids projects =
     fold (\<lambda>(i, p) m. m(pe_path p \<mapsto> module_number i)) (List.enumerate 0 projects) Map.empty"

definition normalize_path :: "path \<Rightarrow> str \<Rightarrow> path" where
  "normalize_path root raw =
     (let p = path_from raw in if is_absolute p then p else path_join root p)"

definition dedupe_paths :: "(path \<Rightarrow> bool) \<Rightarrow> path list \<Rightarrow> path list" where
  "dedupe_paths exists ps = fold (\<lambda>p kept. if exists p \<and> p \<notin> set kept then insort p kept else kept) ps []"

definition dedupe_workspace_roots :: "(path \<Rightarrow> bool) \<Rightarrow> workspace_source_root list \<Rightarrow> workspace_source_root list" where
  "dedupe_workspace_roots exists rs =
     fold (\<lambda>r kept. if exists (wr_path r) \<and> \<not> list_ex (\<lambda>k. wr_path k = wr_path r) kept
                    then insort_key wr_path r kept else kept) rs []"

definition raw_roots :: "project_export \<Rightarrow> (str \<times> root_kind \<times> classpath_id) list" where
  "raw_roots p =
     map (\<lambda>r. (r, Sources, Main)) (pe_source_roots p)
     @ map (\<lambda>r. (r, Tests, Test)) (pe_test_roots p)
     @ map (\<lambda>r. (r, Resources, Main)) (pe_resource_roots p)
     @ map (\<lambda>r. (r, GeneratedRoot, Main)) (pe_generated_roots p)"

definition gradle_module ::
  "(path \<Rightarrow> bool) \<Rightarrow> path \<Rightarrow> (str \<rightharpoonup> module_id) \<Rightarrow> nat \<times> project_export \<Rightarrow> str + workspace_module" where
  "gradle_module exists root ids = (\<lambda>(module_idx, p).
     case ids (pe_path p) of
       None \<Rightarrow> Inl (''missing normalized module id for '' @ pe_path p)
     | Some i \<Rightarrow> Inr \<lparr>wm_id = i, wm_name = pe_name p, wm_directory = normalize_path root (pe_project_dir p),
         wm_roots = dedupe_workspace_roots exists
           (map (\<lambda>(root_idx, raw, kind, cp).
                   \<lparr>wr_id = (word_of_nat module_idx + 1) * 10000 + word_of_nat root_idx + 1,
                    wr_path = normalize_path root raw, wr_kind = kind, wr_classpath = cp\<rparr>)
              (List.enumerate 0 (raw_roots p))),
         wm_compile_classpath = dedupe_paths exists (map (normalize_path root) (pe_compile_classpath p)),
         wm_test_classpath = dedupe_paths exists (map (normalize_path root) (pe_test_classpath p)),
         wm_dependency_modules = List.map_filter ids (pe_module_dependencies p),
         wm_language_version = pe_java_language_version p\<rparr>)"

definition export_fidelity :: "project_export list \<Rightarrow> model_fidelity" where
  "export_fidelity projects =
     (if list_ex (\<lambda>p. pe_compile_classpath p = []) projects then FidelityPartial else FidelityFull)"

definition gradle_normalize ::
  "(path \<Rightarrow> bool) \<Rightarrow> imported_workspace \<Rightarrow> 64 word \<Rightarrow> str + workspace_model_snapshot" where
  "gradle_normalize exists imported generation =
     map_ok (\<lambda>modules. \<lparr>sn_generation = generation, sn_root = iw_root imported, sn_name = iw_workspace_name imported,
         sn_modules = modules,
         sn_provenance = \<lparr>mp_tool = Gradle, mp_tool_version = Some (tv_raw (iw_version imported)),
                          mp_imported_at = iw_generated_at imported\<rparr>,
         sn_freshness = ModelFresh, sn_fidelity = export_fidelity (iw_projects imported)\<rparr>)
       (try_map (gradle_module exists (iw_root imported) (module_ids (iw_projects imported)))
          (List.enumerate 0 (iw_projects imported)))"

definition maven_module :: "(str \<rightharpoonup> module_id) \<Rightarrow> nat \<times> project_export \<Rightarrow> workspace_module" where
  "maven_module ids = (\<lambda>(module_idx, p).
     \<lparr>wm_id = module_number module_idx, wm_name = pe_name p, wm_directory = path_from (pe_project_dir p),
      wm_roots = map (\<lambda>(root_idx, raw, kind, cp).
           \<lparr>wr_id = word_of_nat module_idx * 1000 + word_of_nat root_idx + 1, wr_path = path_from raw,
            wr_kind = kind, wr_classpath = cp\<rparr>) (List.enumerate 0 (raw_roots p)),
      wm_compile_classpath = map path_from (pe_compile_classpath p),
      wm_test_classpath = map path_from (pe_test_classpath p),
      wm_dependency_modules = List.map_filter ids (pe_module_dependencies p),
      wm_language_version = pe_java_language_version p\<rparr>)"

definition maven_normalize :: "imported_workspace \<Rightarrow> 64 word \<Rightarrow> workspace_model_snapshot" where
  "maven_normalize imported generation =
     \<lparr>sn_generation = generation, sn_root = iw_root imported, sn_name = iw_workspace_name imported,
      sn_modules = map (maven_module (module_ids (iw_projects imported))) (List.enumerate 0 (iw_projects imported)),
      sn_provenance = \<lparr>mp_tool = Maven, mp_tool_version = Some (tv_raw (iw_version imported)),
                       mp_imported_at = iw_generated_at imported\<rparr>,
      sn_freshness = ModelFresh, sn_fidelity = export_fidelity (iw_projects imported)\<rparr>"

subsection \<open>Look-ups by path\<close>

lemma max_by_key_Some:
  "max_by_key key xs = Some m \<Longrightarrow> m \<in> set xs \<and> (\<forall>x\<in>set xs. key x \<le> key m)"
proof -
  have fold: "fold (\<lambda>y m. if key y < key m then m else y) ys x \<in> insert x (set ys)
      \<and> (\<forall>z\<in>insert x (set ys). key z \<le> key (fold (\<lambda>y m. if key y < key m then m else y) ys x))" for x ys
  proof (induction ys arbitrary: x)
    case (Cons y ys)
    from Cons.IH [of "if key y < key x then x else y"] show ?case by (auto split: if_splits)
  qed simp
  show "max_by_key key xs = Some m \<Longrightarrow> m \<in> set xs \<and> (\<forall>x\<in>set xs. key x \<le> key m)"
    using fold by (cases xs) auto
qed

lemma max_by_key_None: "max_by_key key xs = None \<longleftrightarrow> xs = []"
  by (cases xs) auto

lemma path_starts_with_append: "path_starts_with p base \<longleftrightarrow> (\<exists>rel. p = base @ rel)"
  unfolding path_starts_with_def by (metis append_eq_conv_conj append_take_drop_id)

lemma infer_relative:
  assumes "source_root_for_path model (wr_path root @ rel @ [f]) preferred = Some root" "f \<noteq> RootDir"
  shows "infer_java_package_for_file model (wr_path root @ rel @ [f]) preferred
    = Some \<lparr>pi_source_root_id = wr_id root, pi_source_root_path = wr_path root, pi_relative_dir = rel,
            pi_package = join ''.'' (map component_str rel)\<rparr>"
  using assms
  by (simp add: infer_java_package_for_file_def path_parent_def path_strip_prefix_def path_starts_with_def
        package_name_from_relative_dir_def butlast_append)

definition model_roots :: "workspace_model_snapshot \<Rightarrow> workspace_source_root list" where
  "model_roots model = concat (map wm_roots (sn_modules model))"

text \<open>
  Source roots by path: the analysis context of a file that lies under some source root names the
  deepest such root, with the module, classpath and kind of that root, and the package inferred with
  this root as the preferred one is the relative directory of the file in dotted form.
\<close>

theorem context_and_package:
  assumes "distinct (map wr_id (model_roots model))" "f \<noteq> RootDir"
    and "ctx = resolve_analysis_context_for_snapshot (Some model) (Some (dir @ [f]))"
    and "r \<in> set (model_roots model)" "path_starts_with dir (wr_path r)"
  shows "\<exists>m root. m \<in> set (sn_modules model) \<and> root \<in> set (wm_roots m)
    \<and> ctx = \<lparr>ac_module = wm_id m, ac_classpath = wr_classpath root, ac_source_root = Some (wr_id root),
             ac_root_kind = Some (wr_kind root)\<rparr>
    \<and> path_starts_with (dir @ [f]) (wr_path root)
    \<and> (\<forall>s\<in>set (model_roots model). path_starts_with (dir @ [f]) (wr_path s) \<longrightarrow> length (wr_path s) \<le> length (wr_path root))
    \<and> (length (wr_path root) \<le> length dir \<longrightarrow>
        (\<exists>rel. dir = wr_path root @ rel
         \<and> map_option pi_package (infer_java_package_for_file model (dir @ [f]) (ac_source_root ctx))
           = Some (join ''.'' (map component_str rel))))"
proof -
  let ?p = "dir @ [f]"
  let ?pairs = "filter (\<lambda>(_, r). path_starts_with ?p (wr_path r))
      (concat (map (\<lambda>m. map (\<lambda>r. (wm_id m, r)) (wm_roots m)) (sn_modules model)))"
  have r: "path_starts_with ?p (wr_path r)" using assms(5) by (auto simp: path_starts_with_append)
  then have "?pairs \<noteq> []" using assms(4) by (auto simp: filter_empty_conv model_roots_def)
  then have "max_by_key (\<lambda>(_, r). length (wr_path r)) ?pairs \<noteq> None" unfolding max_by_key_None .
  then obtain i root where root: "max_by_key (\<lambda>(_, r). length (wr_path r)) ?pairs = Some (i, root)" by fast
  note max = max_by_key_Some [OF root]
  from max obtain m where m: "m \<in> set (sn_modules model)" "root \<in> set (wm_roots m)" "i = wm_id m"
    "path_starts_with ?p (wr_path root)" by auto
  have deepest: "length (wr_path s) \<le> length (wr_path root)"
    if "s \<in> set (model_roots model)" "path_starts_with ?p (wr_path s)" for s
    using max that unfolding model_roots_def by fastforce
  have ctx: "ctx = \<lparr>ac_module = wm_id m, ac_classpath = wr_classpath root, ac_source_root = Some (wr_id root),
      ac_root_kind = Some (wr_kind root)\<rparr>"
    unfolding assms(3) resolve_analysis_context_for_snapshot_def Let_def prod.case option.case root using m(3) by simp
  have "\<exists>rel. dir = wr_path root @ rel
      \<and> map_option pi_package (infer_java_package_for_file model ?p (ac_source_root ctx)) = Some (join ''.'' (map component_str rel))"
    if len: "length (wr_path root) \<le> length dir"
  proof -
    have "take (length (wr_path root)) dir = wr_path root" using m(4) len by (simp add: path_starts_with_def)
    then obtain rel where rel: "dir = wr_path root @ rel" by (metis append_take_drop_id)
    have in_roots: "root \<in> set (model_roots model)" using m by (auto simp: model_roots_def)
    have "find (\<lambda>s. wr_id s = wr_id root \<and> path_starts_with ?p (wr_path s)) (model_roots model) = Some root"
    proof -
      have "find (\<lambda>s. wr_id s = wr_id root \<and> path_starts_with ?p (wr_path s)) (model_roots model) \<noteq> None"
        using in_roots m(4) by (auto simp: find_None_iff)
      then obtain s where s: "find (\<lambda>s. wr_id s = wr_id root \<and> path_starts_with ?p (wr_path s)) (model_roots model) = Some s"
        by fast
      with find_SomeD [OF s] in_roots assms(1) show ?thesis by (auto simp: distinct_map inj_on_def)
    qed
    then have "source_root_for_path model (wr_path root @ rel @ [f]) (ac_source_root ctx) = Some root"
      by (simp add: source_root_for_path_def ctx model_roots_def rel)
    from infer_relative [OF this assms(2)] rel show ?thesis by auto
  qed
  with m ctx deepest show ?thesis by blast
qed

definition sample_root :: "source_root_id \<Rightarrow> str \<Rightarrow> root_kind \<Rightarrow> classpath_id \<Rightarrow> workspace_source_root" where
  "sample_root i raw kind cp = \<lparr>wr_id = i, wr_path = path_from raw, wr_kind = kind, wr_classpath = cp\<rparr>"

definition sample_module :: "module_id \<Rightarrow> str \<Rightarrow> workspace_source_root list \<Rightarrow> workspace_module" where
  "sample_module i dir roots = \<lparr>wm_id = i, wm_name = [], wm_directory = path_from dir, wm_roots = roots,
     wm_compile_classpath = [], wm_test_classpath = [], wm_dependency_modules = [], wm_language_version = None\<rparr>"

definition sample_model :: "workspace_module list \<Rightarrow> workspace_model_snapshot" where
  "sample_model modules = \<lparr>sn_generation = 1, sn_root = [RootDir], sn_name = [], sn_modules = modules,
     sn_provenance = \<lparr>mp_tool = Gradle, mp_tool_version = None, mp_imported_at = 0\<rparr>,
     sn_freshness = ModelFresh, sn_fidelity = FidelityFull\<rparr>"

text \<open>A root project whose directory contains the module \<open>app\<close>, and a file of \<open>app\<close>.\<close>

definition nested_model :: workspace_model_snapshot where
  "nested_model = sample_model
     [sample_module 1 ''/w'' [], sample_module 2 ''/w/app'' [sample_root 20001 ''/w/app/src'' Sources Main]]"

theorem context_and_package_witness:
  "ac_module (resolve_analysis_context_for_snapshot (Some nested_model) (Some (path_from ''/w/app/src/org/x/A.java''))) = 2
   \<and> map_option pi_package (infer_java_package_for_file nested_model (path_from ''/w/app/src/org/x/A.java'') (Some 20001))
     = Some ''org.x''"
proof -
  let ?dir = "path_from ''/w/app/src/org/x''" and ?root = "sample_root 20001 ''/w/app/src'' Sources Main"
  have p: "path_from ''/w/app/src/org/x/A.java'' = ?dir @ [Normal ''A.java'']" by code_simp
  have roots: "model_roots nested_model = [?root]"
    by (simp add: model_roots_def nested_model_def sample_model_def sample_module_def)
  have dir: "?dir = wr_path ?root @ [Normal ''org'', Normal ''x'']" by code_simp
  from context_and_package [OF _ _ refl, of nested_model "Normal ''A.java''" ?root ?dir] obtain m root where
    m: "m \<in> set (sn_modules nested_model)" "root \<in> set (wm_roots m)"
    and ctx: "resolve_analysis_context_for_snapshot (Some nested_model) (Some (?dir @ [Normal ''A.java'']))
      = \<lparr>ac_module = wm_id m, ac_classpath = wr_classpath root, ac_source_root = Some (wr_id root),
         ac_root_kind = Some (wr_kind root)\<rparr>"
    and rel: "length (wr_path root) \<le> length ?dir \<longrightarrow> (\<exists>rel. ?dir = wr_path root @ rel
      \<and> map_option pi_package (infer_java_package_for_file nested_model (?dir @ [Normal ''A.java'']) (Some (wr_id root)))
        = Some (join ''.'' (map component_str rel)))"
    using roots dir by (auto simp: path_starts_with_append)
  from m have root: "root = ?root" "wm_id m = 2"
    by (auto simp: nested_model_def sample_model_def sample_module_def)
  with rel dir have "map_option pi_package (infer_java_package_for_file nested_model (?dir @ [Normal ''A.java'']) (Some 20001))
      = Some (join ''.'' (map component_str [Normal ''org'', Normal ''x'']))" by (auto simp: sample_root_def)
  with ctx root show ?thesis unfolding p by simp
qed

text \<open>
  \<open>scope_for_path\<close> takes the first module whose directory contains the path, before the source roots of
  later modules are looked at: for the same file it answers with the root project.
\<close>

lemma scope_for_path_stops_at_root_project:
  "scope_for_path nested_model (path_from ''/w/app/src/org/x/A.java'') = Some (1, Main, None)"
  by code_simp

subsection \<open>Markers\<close>

lemma find_str_skip:
  assumes "find_str s (j # ms) = None" "j \<notin> set ms" "t = [] \<or> hd t = j"
  shows "find_str (s @ t) (j # ms) = map_option ((+) (length s)) (find_str t (j # ms))"
  using assms(1)
proof (induction s)
  case Nil
  then show ?case by (cases "find_str t (j # ms)") auto
next
  case (Cons c s)
  then have none: "\<not> starts_with (c # s) (j # ms)" "find_str s (j # ms) = None" by (auto split: if_splits)
  have "\<not> starts_with (c # s @ t) (j # ms)"
  proof
    assume a: "starts_with (c # s @ t) (j # ms)"
    show False
    proof (cases "length ms \<le> length s")
      case True
      with a none(1) show False by (simp add: starts_with_def)
    next
      case False
      with a have "take (length ms) (s @ t) = ms" by (simp add: starts_with_def)
      with False have "ms ! length s = (s @ t) ! length s" by (metis not_le_imp_less nth_take)
      moreover have "t \<noteq> []" using False \<open>take (length ms) (s @ t) = ms\<close> by (cases t) auto
      ultimately have "ms ! length s = j" using assms(3) by (simp add: nth_append hd_conv_nth)
      with False assms(2) show False by (metis not_le_imp_less nth_mem)
    qed
  qed
  with Cons.IH [OF none(2)] show ?case by (cases "find_str t (j # ms)") auto
qed

lemma find_str_no_head: "j \<notin> set s \<Longrightarrow> find_str (s @ t) (j # ms) = map_option ((+) (length s)) (find_str t (j # ms))"
  by (induction s; cases "find_str t (j # ms)") (auto simp: starts_with_def)

lemma find_marker_skip:
  "find_str s m = None \<Longrightarrow> m \<noteq> [] \<Longrightarrow> hd m \<notin> set (tl m) \<Longrightarrow> t = [] \<or> hd t = hd m \<Longrightarrow>
    find_str (s @ t) m = map_option ((+) (length s)) (find_str t m)"
  using find_str_skip [of s "hd m" "tl m" t] by simp

lemma markers:
  "MODEL_END \<noteq> []" "hd MODEL_END \<notin> set (tl MODEL_END)" "MODEL_BEGIN \<noteq> []" "hd MODEL_BEGIN \<notin> set (tl MODEL_BEGIN)"
  "hd MODEL_END = hd MODEL_BEGIN" "length MODEL_BEGIN = 25"
  "hd MODEL_BEGIN # tl MODEL_END = MODEL_END"
  by (simp_all add: MODEL_END_def MODEL_BEGIN_def)

lemma find_str_self: "p \<noteq> [] \<Longrightarrow> find_str (p @ t) p = Some 0"
  by (cases p) (auto simp: starts_with_def)

lemma find_str_starts: "find_str s p = Some i \<Longrightarrow> \<exists>pre post. s = pre @ p @ post \<and> length pre = i"
proof (induction s p arbitrary: i rule: find_str.induct)
  case (2 c s p)
  show ?case
  proof (cases "starts_with (c # s) p")
    case True
    with 2(2) have "i = 0" by simp
    moreover have "c # s = p @ drop (length p) (c # s)" using True unfolding starts_with_def by (metis append_take_drop_id)
    ultimately show ?thesis by (intro exI [of _ "[]"] exI [of _ "drop (length p) (c # s)"]) simp
  next
    case False
    with 2(2) obtain k where "find_str s p = Some k" "i = Suc k" by auto
    with 2(1) [OF False] obtain pre post where "s = pre @ p @ post" "length pre = k" by blast
    with \<open>i = Suc k\<close> show ?thesis by (intro exI [of _ "c # pre"] exI [of _ post]) simp
  qed
qed (auto split: if_splits)

text \<open>In a text, an ASCII byte is never followed by a continuation byte.\<close>

definition ascii_bounded :: "str \<Rightarrow> bool" where
  "ascii_bounded s \<longleftrightarrow> (\<forall>i<length s. (of_char (s ! i) :: nat) < 128 \<longrightarrow> char_boundary s (Suc i))"

lemma markers_apart:
  assumes "find_str s MODEL_BEGIN = Some b" "find_str s MODEL_END = Some e" "b < e"
  shows "b + length MODEL_BEGIN \<le> e \<and> e < length s \<and> s ! e = CHR ''J'' \<and> s ! (b + 24) = CHR ''N''"
proof -
  obtain pre post where b: "s = pre @ MODEL_BEGIN @ post" "length pre = b" using find_str_starts [OF assms(1)] by blast
  obtain pre' post' where e: "s = pre' @ MODEL_END @ post'" "length pre' = e" using find_str_starts [OF assms(2)] by blast
  have j: "s ! e = CHR ''J''" "e < length s" using e by (auto simp: nth_append MODEL_END_def)
  have "s ! (b + k) = MODEL_BEGIN ! k" if "k < length MODEL_BEGIN" for k
    using b that by (simp add: nth_append)
  note at = this
  have "b + length MODEL_BEGIN \<le> e"
  proof (rule ccontr)
    assume "\<not> b + length MODEL_BEGIN \<le> e"
    with assms(3) obtain k where k: "e = b + Suc k" "Suc k < length MODEL_BEGIN"
      by (metis add_Suc_right less_imp_Suc_add nat_add_left_cancel_less not_le)
    then have "tl MODEL_BEGIN ! k = CHR ''J''" using at [of "Suc k"] j(1) by (simp add: nth_tl MODEL_BEGIN_def)
    then have "CHR ''J'' \<in> set (tl MODEL_BEGIN)" using k(2) by (metis Suc_lessE diff_Suc_1 length_tl nth_mem)
    then show False by (simp add: MODEL_BEGIN_def)
  qed
  moreover have "s ! (b + 24) = CHR ''N''" using at [of 24] by (simp add: MODEL_BEGIN_def)
  ultimately show ?thesis using j by blast
qed

lemma find_end_marker:
  assumes "find_str body MODEL_END = None"
  shows "find_str (MODEL_BEGIN @ body @ MODEL_END @ post) MODEL_END = Some (length (MODEL_BEGIN @ body))"
proof -
  have "find_str (tl MODEL_BEGIN @ body) MODEL_END = None"
    using assms find_str_no_head [of "hd MODEL_END" "tl MODEL_BEGIN" body "tl MODEL_END"] markers by simp
  moreover have "MODEL_BEGIN @ body = hd MODEL_BEGIN # tl MODEL_BEGIN @ body" "\<not> starts_with (MODEL_BEGIN @ body) MODEL_END"
    by (simp_all add: MODEL_BEGIN_def MODEL_END_def starts_with_def)
  ultimately have "find_str (MODEL_BEGIN @ body) MODEL_END = None" by (metis find_str.simps(2) option.simps(8))
  from find_marker_skip [OF this markers(1,2), of "MODEL_END @ post"]
  show ?thesis by (simp add: markers find_str_self)
qed

text \<open>
  C40. The exported model is read back: whatever the build tool prints around it, the text between the
  two markers is returned without its surrounding blanks, when the markers do not occur elsewhere
  before or in it. On any output the extraction returns a text or an error and never panics.
\<close>

theorem model_json_extracted:
  assumes "ascii_bounded stdout"
  shows "(\<exists>r. extract_model_json stdout = Inr r)
    \<and> (stdout = noise @ MODEL_BEGIN @ body @ MODEL_END @ rest \<longrightarrow> find_str noise MODEL_BEGIN = None \<longrightarrow>
        find_str noise MODEL_END = None \<longrightarrow> find_str body MODEL_END = None \<longrightarrow>
        extract_model_json stdout = Inr (Inr (trim body)))"
proof -
  have sliced: "\<exists>json. slice stdout (b + length MODEL_BEGIN) e = Inr json \<and> json = take (e - (b + length MODEL_BEGIN)) (drop (b + length MODEL_BEGIN) stdout)"
    if "find_str stdout MODEL_BEGIN = Some b" "find_str stdout MODEL_END = Some e" "b < e" for b e
  proof -
    note apart = markers_apart [OF that]
    have "b + 24 < length stdout \<and> (of_char (stdout ! (b + 24)) :: nat) < 128" using apart markers(6) by simp
    then have "char_boundary stdout (Suc (b + 24))" using assms unfolding ascii_bounded_def by blast
    moreover have "Suc (b + 24) = b + length MODEL_BEGIN" by (simp add: markers)
    ultimately have "char_boundary stdout (b + length MODEL_BEGIN)" by metis
    moreover have "char_boundary stdout e" using apart by (simp add: char_boundary_def)
    ultimately show ?thesis using apart by (simp add: slice_def)
  qed
  then have "\<exists>r. extract_model_json stdout = Inr r"
    by (fastforce simp: extract_model_json_def split: option.split)
  moreover have "extract_model_json stdout = Inr (Inr (trim body))"
    if s: "stdout = noise @ MODEL_BEGIN @ body @ MODEL_END @ rest" "find_str noise MODEL_BEGIN = None"
      "find_str noise MODEL_END = None" "find_str body MODEL_END = None"
  proof -
    have "find_str stdout MODEL_BEGIN = Some (length noise)"
      using find_marker_skip [OF s(2) markers(3,4), of "MODEL_BEGIN @ body @ MODEL_END @ rest"]
      by (simp add: s(1) markers find_str_self)
    moreover have "find_str stdout MODEL_END = Some (length noise + length (MODEL_BEGIN @ body))"
      using find_marker_skip [OF s(3) markers(1,2), of "MODEL_BEGIN @ body @ MODEL_END @ rest"]
        find_end_marker [OF s(4)] by (simp add: s(1) markers)
    ultimately show ?thesis using sliced [of "length noise" "length noise + length (MODEL_BEGIN @ body)"]
      by (auto simp: extract_model_json_def s(1) markers)
  qed
  ultimately show ?thesis by blast
qed

theorem model_json_extracted_witness:
  "extract_model_json (''> Task '' @ MODEL_BEGIN @ '' {} '' @ MODEL_END @ ''done'') = Inr (Inr ''{}'')"
proof -
  let ?s = "''> Task '' @ MODEL_BEGIN @ '' {} '' @ MODEL_END @ ''done''"
  have "list_all (\<lambda>c. (of_char c :: nat) < 128) ?s" by code_simp
  then have "ascii_bounded ?s" unfolding ascii_bounded_def char_boundary_def list_all_length
    by (meson Suc_leI le_neq_implies_less not_le)
  moreover have "find_str ''> Task '' MODEL_BEGIN = None" "find_str ''> Task '' MODEL_END = None"
    "find_str '' {} '' MODEL_END = None" "trim '' {} '' = ''{}''" by code_simp+
  ultimately show ?thesis using model_json_extracted [of ?s] by metis
qed

subsection \<open>Normalised models\<close>

lemma unat_word32: "n < 2 ^ 32 \<Longrightarrow> unat (word_of_nat n :: 32 word) = n"
  by (simp add: unat_of_nat)

lemma distinct_concat_tagged:
  "(\<And>i. i < length xss \<Longrightarrow> distinct (xss ! i)) \<Longrightarrow> (\<And>i x. i < length xss \<Longrightarrow> x \<in> set (xss ! i) \<Longrightarrow> tag x = i) \<Longrightarrow>
    distinct (concat xss)"
proof (induction xss rule: rev_induct)
  case (snoc xs xss)
  have tags: "tag x = i" if "i < length xss" "x \<in> set (xss ! i)" for i x
    using snoc.prems(2) [of i x] that by (simp add: nth_append)
  have "distinct (xss ! i)" if "i < length xss" for i using snoc.prems(1) [of i] that by (simp add: nth_append)
  with tags snoc.IH have "distinct (concat xss)" by blast
  moreover have "distinct xs" using snoc.prems(1) [of "length xss"] by simp
  moreover have "x \<notin> set (concat xss)" if "x \<in> set xs" for x
  proof
    assume "x \<in> set (concat xss)"
    then obtain i where "i < length xss" "x \<in> set (xss ! i)" by (metis UN_iff in_set_conv_nth set_concat)
    with tags snoc.prems(2) [of "length xss" x] that show False by auto
  qed
  ultimately show ?case by auto
qed simp

lemma module_ids_spec:
  "distinct (map pe_path projects) \<Longrightarrow> i < length projects \<Longrightarrow> module_ids projects (pe_path (projects ! i)) = Some (module_number i)"
  "ran (module_ids projects) \<subseteq> module_number ` {..<length projects}"
proof (induction projects rule: rev_induct)
  case (snoc p projects)
  have step: "module_ids (projects @ [p]) = (module_ids projects)(pe_path p \<mapsto> module_number (length projects))"
    by (simp add: module_ids_def enumerate_append_eq)
  { case 1
    show ?case
    proof (cases "i < length projects")
      case True
      then have "pe_path (projects ! i) \<noteq> pe_path p" using 1(1) by (metis distinct_append distinct_map image_eqI
          list.set_intros(1) list.simps(9) map_append nth_mem set_map append_Nil disjoint_iff list.set_map)
      with True snoc.IH(1) 1(1) show ?thesis by (simp add: step nth_append)
    next
      case False
      with 1(2) have "i = length projects" by simp
      then show ?thesis by (simp add: step)
    qed
  next
    case 2
    show ?case using snoc.IH(2) unfolding step by (auto simp: ran_def split: if_splits) }
qed (auto simp: module_ids_def)

lemma dedupe_paths_spec:
  "sorted (dedupe_paths exists ps) \<and> distinct (dedupe_paths exists ps) \<and> set (dedupe_paths exists ps) = {p \<in> set ps. exists p}"
proof (induction ps rule: rev_induct)
  case (snoc p ps)
  then show ?case by (auto simp: dedupe_paths_def sorted_insort distinct_insort set_insort_key)
qed (simp add: dedupe_paths_def)

lemma dedupe_roots_spec:
  "sorted (map wr_path (dedupe_workspace_roots exists rs)) \<and> distinct (map wr_path (dedupe_workspace_roots exists rs))
   \<and> set (dedupe_workspace_roots exists rs) \<subseteq> {r \<in> set rs. exists (wr_path r)}
   \<and> wr_path ` set (dedupe_workspace_roots exists rs) = {p \<in> wr_path ` set rs. exists p}"
proof (induction rs rule: rev_induct)
  case (snoc r rs)
  let ?k = "dedupe_workspace_roots exists rs"
  have step: "dedupe_workspace_roots exists (rs @ [r]) =
      (if exists (wr_path r) \<and> wr_path r \<notin> wr_path ` set ?k then insort_key wr_path r ?k else ?k)"
  proof -
    have "list_ex (\<lambda>k. wr_path k = wr_path r) ?k \<longleftrightarrow> wr_path r \<in> wr_path ` set ?k"
      unfolding list_ex_iff image_iff by metis
    then show ?thesis by (simp add: dedupe_workspace_roots_def)
  qed
  have "distinct (map wr_path (insort_key wr_path r ?k))" if "wr_path r \<notin> wr_path ` set ?k"
    using snoc that by (simp add: distinct_insort_key)
  with snoc show ?case unfolding step by (auto simp: sorted_insort_key set_insort_key)
qed (simp add: dedupe_workspace_roots_def)

text \<open>The identifier of the \<open>j\<close>th root of the \<open>i\<close>th module, when the modules start at \<open>base\<close> and take \<open>width\<close> each.\<close>

lemma root_number:
  assumes "j < width" "base + width * Suc i < 2 ^ 32"
  shows "unat (word_of_nat (base + width * i + j + 1) :: 32 word) = base + width * i + j + 1"
    "(unat (word_of_nat (base + width * i + j + 1) :: 32 word) - (base + 1)) div width = i"
proof -
  have "base + width * i + j + 1 < 2 ^ 32" using assms by simp
  then show eq: "unat (word_of_nat (base + width * i + j + 1) :: 32 word) = base + width * i + j + 1"
    by (rule unat_word32)
  show "(unat (word_of_nat (base + width * i + j + 1) :: 32 word) - (base + 1)) div width = i"
    unfolding eq using assms(1) by simp
qed

lemma module_numbers: "n < 2 ^ 32 - 1 \<Longrightarrow> inj_on module_number {..n}"
proof (rule inj_onI)
  fix i j
  assume n: "n < 2 ^ 32 - 1" and ij: "i \<in> {..n}" "j \<in> {..n}" "module_number i = module_number j"
  from ij(3) have "unat (word_of_nat (Suc i) :: 32 word) = unat (word_of_nat (Suc j) :: 32 word)"
    by (simp add: module_number_def add.commute)
  moreover have "Suc i < 2 ^ 32" "Suc j < 2 ^ 32" using n ij by auto
  ultimately have "Suc i = Suc j" using unat_word32 by metis
  then show "i = j" by simp
qed

definition model_ok :: "workspace_model_snapshot \<Rightarrow> bool" where
  "model_ok model \<longleftrightarrow> distinct (map wm_id (sn_modules model)) \<and> distinct (map wr_id (model_roots model))
     \<and> (\<forall>m\<in>set (sn_modules model). set (wm_dependency_modules m) \<subseteq> wm_id ` set (sn_modules model))"

definition root_ids_ok :: "nat \<Rightarrow> nat \<Rightarrow> nat \<Rightarrow> workspace_source_root list \<Rightarrow> bool" where
  "root_ids_ok base width i rs \<longleftrightarrow> distinct (map wr_id rs)
     \<and> (\<forall>r\<in>set rs. \<exists>j<width. wr_id r = word_of_nat (base + width * i + j + 1))"

lemma model_okI:
  assumes "length (sn_modules model) = n" "0 < width" "base + width * n < 2 ^ 32"
    and ids: "\<And>i. i < n \<Longrightarrow> wm_id (sn_modules model ! i) = module_number i"
    and roots: "\<And>i. i < n \<Longrightarrow> root_ids_ok base width i (wm_roots (sn_modules model ! i))"
    and deps: "\<And>i. i < n \<Longrightarrow> set (wm_dependency_modules (sn_modules model ! i)) \<subseteq> module_number ` {..<n}"
  shows "model_ok model"
proof -
  have "1 * n \<le> width * n" using assms(2) by (intro mult_le_mono1) simp
  then have "n < 2 ^ 32" using assms(3) by linarith
  then have "inj_on module_number {..<n}"
    using module_numbers [of "n - 1"] by (cases n) (auto simp: lessThan_Suc_atMost)
  moreover have mids: "map wm_id (sn_modules model) = map module_number [0..<n]"
    using assms(1) ids by (intro nth_equalityI) auto
  ultimately have "distinct (map wm_id (sn_modules model))" by (simp add: distinct_map atLeast0LessThan)
  moreover have "distinct (concat (map (\<lambda>m. map wr_id (wm_roots m)) (sn_modules model)))"
  proof (rule distinct_concat_tagged [where tag = "\<lambda>w. (unat w - (base + 1)) div width"])
    fix i x
    assume i: "i < length (map (\<lambda>m. map wr_id (wm_roots m)) (sn_modules model))"
      and x: "x \<in> set (map (\<lambda>m. map wr_id (wm_roots m)) (sn_modules model) ! i)"
    then obtain j where j: "j < width" "x = word_of_nat (base + width * i + j + 1)"
      using roots [of i] assms(1) by (auto simp: root_ids_ok_def)
    have "width * Suc i \<le> width * n" using i assms(1) by (intro mult_le_mono2) simp
    with assms(3) have "base + width * Suc i < 2 ^ 32" by linarith
    from root_number(2) [OF j(1) this] j(2) show "(unat x - (base + 1)) div width = i" by simp
  qed (use roots assms(1) in \<open>simp add: root_ids_ok_def\<close>)
  then have "distinct (map wr_id (model_roots model))" by (simp add: model_roots_def map_concat o_def)
  moreover have "wm_id ` set (sn_modules model) = module_number ` {..<n}"
    using arg_cong [OF mids, of set] by (simp add: atLeast0LessThan)
  ultimately show ?thesis using deps assms(1) unfolding model_ok_def by (metis in_set_conv_nth)
qed

lemma numbered_roots_ok:
  assumes "length rs \<le> width" "base + width * Suc i < 2 ^ 32"
    and "\<And>j. j < length rs \<Longrightarrow> wr_id (rs ! j) = word_of_nat (base + width * i + j + 1)"
  shows "root_ids_ok base width i rs"
proof -
  have "map wr_id rs = map (\<lambda>j. word_of_nat (base + width * i + j + 1)) [0..<length rs]"
    using assms(3) by (intro nth_equalityI) auto
  moreover have "inj_on (\<lambda>j. word_of_nat (base + width * i + j + 1) :: 32 word) {0..<length rs}"
  proof (rule inj_onI)
    fix j k
    assume "j \<in> {0..<length rs}" "k \<in> {0..<length rs}"
      "(word_of_nat (base + width * i + j + 1) :: 32 word) = word_of_nat (base + width * i + k + 1)"
    with assms(1) root_number(1) [OF _ assms(2), of j] root_number(1) [OF _ assms(2), of k] show "j = k"
      by (metis add_left_cancel add_right_cancel atLeastLessThan_iff less_le_trans)
  qed
  ultimately have "distinct (map wr_id rs)" by (simp add: distinct_map)
  moreover have "\<exists>j<width. wr_id r = word_of_nat (base + width * i + j + 1)" if "r \<in> set rs" for r
    using that assms(1,3) by (metis in_set_conv_nth less_le_trans)
  ultimately show ?thesis by (simp add: root_ids_ok_def)
qed

lemma dedupe_keeps_ids:
  assumes "root_ids_ok base width i rs"
  shows "root_ids_ok base width i (dedupe_workspace_roots exists rs)"
proof -
  note spec = dedupe_roots_spec [of exists rs]
  have "inj_on wr_id (set rs)" using assms by (simp add: root_ids_ok_def distinct_map)
  then have "distinct (map wr_id (dedupe_workspace_roots exists rs))"
    using spec by (auto simp: distinct_map intro: inj_on_subset)
  with spec assms show ?thesis by (auto simp: root_ids_ok_def)
qed

lemma map_filter_ids: "set (List.map_filter (module_ids projects) names) \<subseteq> module_number ` {..<length projects}"
  using module_ids_spec(2) [of projects] by (auto simp: set_map_filter ran_def)

text \<open>
  C39. Identifiers of a Gradle workspace: for up to 400,000 projects with distinct paths and at most
  10,000 roots each, normalisation succeeds, no two modules and no two source roots share an
  identifier, every dependency names a module of the model, and the roots of a module are existing
  directories, listed in the order of their paths and each once.
\<close>

theorem gradle_model_ok:
  assumes "distinct (map pe_path (iw_projects w))" "length (iw_projects w) \<le> 400000"
    and "\<forall>p\<in>set (iw_projects w). length (raw_roots p) \<le> 10000"
  shows "\<exists>model. gradle_normalize exists w generation = Inr model \<and> model_ok model
    \<and> length (sn_modules model) = length (iw_projects w) \<and> sn_generation model = generation
    \<and> (\<forall>m\<in>set (sn_modules model). sorted (map wr_path (wm_roots m)) \<and> distinct (map wr_path (wm_roots m))
        \<and> (\<forall>r\<in>set (wm_roots m). exists (wr_path r)))"
proof -
  let ?ps = "iw_projects w" and ?ids = "module_ids (iw_projects w)"
  let ?mod = "gradle_module exists (iw_root w) ?ids"
  let ?roots = "\<lambda>i p. map (\<lambda>(root_idx, raw, kind, cp).
      \<lparr>wr_id = (word_of_nat i + 1) * 10000 + word_of_nat root_idx + 1, wr_path = normalize_path (iw_root w) raw,
       wr_kind = kind, wr_classpath = cp\<rparr>) (List.enumerate 0 (raw_roots p))"
  define ms where "ms = map (\<lambda>ip. case ?mod ip of Inr m \<Rightarrow> m) (List.enumerate 0 ?ps)"
  have at: "?mod (i, ?ps ! i) = Inr (ms ! i) \<and> wm_id (ms ! i) = module_number i
      \<and> wm_roots (ms ! i) = dedupe_workspace_roots exists (?roots i (?ps ! i))
      \<and> wm_dependency_modules (ms ! i) = List.map_filter ?ids (pe_module_dependencies (?ps ! i))"
    if "i < length ?ps" for i
    using that module_ids_spec(1) [OF assms(1) that] by (simp add: ms_def nth_enumerate_eq gradle_module_def)
  have len: "length ms = length ?ps" by (simp add: ms_def)
  have "try_map ?mod (List.enumerate 0 ?ps) = Inr ms"
    unfolding ms_def
  proof (rule try_map_Inr)
    fix ip
    assume "ip \<in> set (List.enumerate 0 ?ps)"
    then obtain i where "i < length ?ps" "ip = (i, ?ps ! i)"
      by (metis add.right_neutral diff_zero in_set_enumerate_eq prod.collapse)
    with at [of i] show "?mod ip = Inr (case ?mod ip of Inr m \<Rightarrow> m)" by simp
  qed
  then obtain model where model: "gradle_normalize exists w generation = Inr model" "sn_modules model = ms"
    "sn_generation model = generation" by (simp add: gradle_normalize_def)
  have "model_ok model"
  proof (rule model_okI [where base = 10000 and width = 10000 and n = "length ?ps"])
    show "10000 + 10000 * length ?ps < 2 ^ 32" using assms(2) by simp
    fix i
    assume i: "i < length ?ps"
    have "root_ids_ok 10000 10000 i (?roots i (?ps ! i))"
    proof (rule numbered_roots_ok)
      show "length (?roots i (?ps ! i)) \<le> 10000" using assms(3) i by simp
      show "10000 + 10000 * Suc i < 2 ^ 32" using i assms(2) by simp
      fix j
      assume "j < length (?roots i (?ps ! i))"
      then show "wr_id (?roots i (?ps ! i) ! j) = word_of_nat (10000 + 10000 * i + j + 1)"
        by (simp add: nth_enumerate_eq split: prod.split)
    qed
    then show "root_ids_ok 10000 10000 i (wm_roots (sn_modules model ! i))"
      using at [OF i] model(2) by (simp add: dedupe_keeps_ids)
    show "set (wm_dependency_modules (sn_modules model ! i)) \<subseteq> module_number ` {..<length ?ps}"
      using at [OF i] model(2) map_filter_ids by simp
    show "wm_id (sn_modules model ! i) = module_number i" using at [OF i] model(2) by simp
  qed (use model len in simp_all)
  moreover have "sorted (map wr_path (wm_roots m)) \<and> distinct (map wr_path (wm_roots m)) \<and> (\<forall>r\<in>set (wm_roots m). exists (wr_path r))"
    if m: "m \<in> set (sn_modules model)" for m
  proof -
    from m model(2) len obtain i where "i < length ?ps" "m = ms ! i" by (metis in_set_conv_nth)
    with at [of i] dedupe_roots_spec [of exists "?roots i (?ps ! i)"] show ?thesis by auto
  qed
  ultimately show ?thesis using model len by blast
qed

definition sample_project :: "str \<Rightarrow> str list \<Rightarrow> str list \<Rightarrow> project_export" where
  "sample_project name roots deps = \<lparr>pe_path = name, pe_name = name, pe_project_dir = name, pe_source_roots = roots,
     pe_test_roots = [], pe_resource_roots = [], pe_generated_roots = [], pe_compile_classpath = [],
     pe_test_classpath = [], pe_module_dependencies = deps, pe_java_language_version = None\<rparr>"

definition sample_export :: imported_workspace where
  "sample_export = \<lparr>iw_root = path_from ''/w'', iw_version = version_parse ''8.10'', iw_workspace_name = ''w'',
     iw_projects = [sample_project ''a'' [''a/src'', ''a/src''] [''b''], sample_project ''b'' [''b/src''] []],
     iw_generated_at = 0\<rparr>"

theorem gradle_model_ok_witness:
  "\<exists>model. gradle_normalize (\<lambda>_. True) sample_export 1 = Inr model \<and> model_ok model \<and> length (sn_modules model) = 2"
proof -
  have "distinct (map pe_path (iw_projects sample_export))" "length (iw_projects sample_export) = 2"
    "\<forall>p\<in>set (iw_projects sample_export). length (raw_roots p) \<le> 10000"
    by (simp_all add: sample_export_def sample_project_def raw_roots_def)
  with gradle_model_ok [of sample_export "\<lambda>_. True" 1] show ?thesis by auto
qed

text \<open>
  Identifiers of a Maven workspace: the same holds for up to four million projects with at most
  1000 roots each.
\<close>

theorem maven_model_ok:
  assumes "length (iw_projects w) \<le> 4000000" "\<forall>p\<in>set (iw_projects w). length (raw_roots p) \<le> 1000"
  shows "model_ok (maven_normalize w generation)"
proof (rule model_okI [where base = 0 and width = 1000 and n = "length (iw_projects w)"])
  let ?ps = "iw_projects w"
  show "0 + 1000 * length ?ps < 2 ^ 32" using assms(1) by simp
  fix i
  assume i: "i < length ?ps"
  then have m: "sn_modules (maven_normalize w generation) ! i = maven_module (module_ids ?ps) (i, ?ps ! i)"
    by (simp add: maven_normalize_def nth_enumerate_eq)
  show "root_ids_ok 0 1000 i (wm_roots (sn_modules (maven_normalize w generation) ! i))"
  proof (rule numbered_roots_ok)
    show "length (wm_roots (sn_modules (maven_normalize w generation) ! i)) \<le> 1000"
      using assms(2) i by (simp add: m maven_module_def)
    show "0 + 1000 * Suc i < 2 ^ 32" using i assms(1) by simp
    show "wr_id (wm_roots (sn_modules (maven_normalize w generation) ! i) ! j) = word_of_nat (0 + 1000 * i + j + 1)"
      if "j < length (wm_roots (sn_modules (maven_normalize w generation) ! i))" for j
      using that by (simp add: m maven_module_def nth_enumerate_eq split: prod.split)
  qed
  show "set (wm_dependency_modules (sn_modules (maven_normalize w generation) ! i)) \<subseteq> module_number ` {..<length ?ps}"
    using map_filter_ids by (simp add: m maven_module_def)
  show "wm_id (sn_modules (maven_normalize w generation) ! i) = module_number i" by (simp add: m maven_module_def)
qed (simp_all add: maven_normalize_def)

theorem maven_model_ok_witness: "model_ok (maven_normalize sample_export 1)"
  by (rule maven_model_ok) (simp_all add: sample_export_def sample_project_def raw_roots_def)

text \<open>With more than 1000 roots the first module runs into the identifiers of the second.\<close>

lemma maven_root_ids_collide:
  assumes "length (pe_source_roots p) = 1001" "pe_source_roots q \<noteq> []"
  shows "wr_id (wm_roots (maven_module ids (0, p)) ! 1000) = wr_id (wm_roots (maven_module ids (1, q)) ! 0)"
  using assms by (cases "pe_source_roots q") (simp_all add: maven_module_def raw_roots_def nth_enumerate_eq nth_append)

text \<open>
  Files under \<open>.mvn\<close> are listed with their directory, but only file names are compared, so a change of
  such a file is never relevant; and Maven 4.0 falls under the legacy script.
\<close>

lemma path_from_names: "Normal s \<in> set (path_from raw) \<Longrightarrow> CHR ''/'' \<notin> set s"
proof -
  have "CHR ''/'' \<notin> set x" if "x \<in> set (split_char (CHR ''/'') raw)" for x
    using that by (induction raw arbitrary: x) (auto split: if_splits list.splits)
  then show "Normal s \<in> set (path_from raw) \<Longrightarrow> CHR ''/'' \<notin> set s"
    by (auto simp: path_from_def path_component_def Let_def split: if_splits)
qed

lemma nested_names_never_match:
  assumes "CHR ''/'' \<in> set name"
  shows "\<not> matches_path \<lparr>wi_file_names = [name]\<rparr> (path_from raw)"
proof
  assume "matches_path \<lparr>wi_file_names = [name]\<rparr> (path_from raw)"
  then have "path_from raw \<noteq> []" "last (path_from raw) = Normal name"
    by (auto simp: matches_path_def path_file_name_def split: option.splits if_splits component.splits)
  then have "Normal name \<in> set (path_from raw)" by (metis last_in_set)
  with path_from_names assms show False by blast
qed

lemma maven_4_is_legacy: "maven_strategy (version_parse ''4.0.0'') = Some Legacy"
proof -
  have "find (list_ex is_ascii_digit) (split_version ''4.0.0'') = Some ''4.0.0''" by code_simp
  moreover have "split_char (CHR ''.'') ''4.0.0'' = [''4'', ''0'', ''0'']" by code_simp
  moreover have "list_all is_ascii_digit ''4''" "list_all is_ascii_digit ''0''" "digits_value ''4'' = 4" "digits_value ''0'' = 0"
    by code_simp+
  ultimately show ?thesis
    by (simp add: maven_strategy_def supports_modern_export_def version_parse_def number_or_def parse_u32_def
          map_filter_simps nth_opt_def)
qed

end
