(* ===== verification/Build_Reload.thy ===== *)
theory Build_Reload
  imports Build_Model
begin

text \<open>
  The service that keeps the workspace model current (\<open>build_integration/reload.rs\<close>, \<open>status.rs\<close>) and the
  handle that publishes an index together with its model (\<open>index/handle.rs\<close>). The loop of the service
  waits for three events: a queued trigger, the end of the debounce delay, the end of the running
  import. Each handler is one definition; \<open>reload_step\<close> is the loop with its environment: callers that
  schedule reloads and the passing of time in milliseconds. What the outside decides is an argument
  of the handler: the detected tool, the result of an import, the index built from a model.
\<close>

subsection \<open>The handle\<close>

record 'i workspace_handle =
  wh_index :: 'i
  wh_model :: "workspace_model_snapshot option"

definition handle_new :: "'i \<Rightarrow> 'i workspace_handle" where
  "handle_new i = \<lparr>wh_index = i, wh_model = None\<rparr>"

definition handle_snapshot :: "'i workspace_handle \<Rightarrow> 'i \<times> workspace_model_snapshot option" where
  "handle_snapshot h = (wh_index h, wh_model h)"

definition handle_replace :: "'i \<Rightarrow> workspace_model_snapshot option \<Rightarrow> 'i workspace_handle \<Rightarrow> 'i workspace_handle" where
  "handle_replace i model h = \<lparr>wh_index = i, wh_model = model\<rparr>"

definition handle_update_model ::
  "(workspace_model_snapshot option \<Rightarrow> workspace_model_snapshot option) \<Rightarrow> 'i workspace_handle \<Rightarrow> 'i workspace_handle" where
  "handle_update_model f h = h\<lparr>wh_model := f (wh_model h)\<rparr>"

definition mark_model_stale :: "'i workspace_handle \<Rightarrow> 'i workspace_handle" where
  "mark_model_stale = handle_update_model (map_option (\<lambda>m. m\<lparr>sn_freshness := ModelStale\<rparr>))"

subsection \<open>Status\<close>

datatype build_capability = Unsupported | Supported
datatype build_reload_state = Unmanaged | Idle | Debouncing | Importing | Stale | Failed

record build_status =
  bs_detected_tool :: "build_tool_kind option"
  bs_tool_version :: "str option"
  bs_capability :: build_capability
  bs_reload_state :: build_reload_state
  bs_generation :: "64 word"
  bs_freshness :: "model_freshness option"
  bs_fidelity :: "model_fidelity option"
  bs_last_error :: "str option"

definition status_default :: build_status where
  "status_default = \<lparr>bs_detected_tool = None, bs_tool_version = None, bs_capability = Unsupported,
     bs_reload_state = Unmanaged, bs_generation = 0, bs_freshness = None, bs_fidelity = None, bs_last_error = None\<rparr>"

subsection \<open>The loop\<close>

definition DEFAULT_RELOAD_DEBOUNCE :: nat where "DEFAULT_RELOAD_DEBOUNCE = 900"

datatype reload_reason = Initialize | FileChanged path | Manual

record 'i reload_loop =
  rl_now :: nat
  rl_queue :: "reload_reason list"
  rl_generation :: "64 word"
  rl_dirty :: bool
  rl_debounce :: "nat option"
  rl_in_flight :: "64 word option"
  rl_status :: build_status
  rl_watch_interest :: "watch_interest option"
  rl_handle :: "'i workspace_handle"

definition service_new :: "'i \<Rightarrow> 'i reload_loop" where
  "service_new i = \<lparr>rl_now = 0, rl_queue = [], rl_generation = 0, rl_dirty = False, rl_debounce = None,
     rl_in_flight = None, rl_status = status_default, rl_watch_interest = None, rl_handle = handle_new i\<rparr>"

definition schedule_reload :: "reload_reason \<Rightarrow> 'i reload_loop \<Rightarrow> 'i reload_loop" where
  "schedule_reload reason s = s\<lparr>rl_queue := rl_queue s @ [reason]\<rparr>"

definition path_is_relevant :: "'i reload_loop \<Rightarrow> path \<Rightarrow> bool" where
  "path_is_relevant s p =
     matches_path (case rl_watch_interest s of Some interest \<Rightarrow> interest | None \<Rightarrow> fallback_watch_interest) p"

definition notify_paths_changed :: "path list \<Rightarrow> 'i reload_loop \<Rightarrow> 'i reload_loop" where
  "notify_paths_changed ps s =
     fold (\<lambda>p t. if path_is_relevant s p then schedule_reload (FileChanged p) t else t) ps s"

abbreviation set_status :: "(build_status \<Rightarrow> build_status) \<Rightarrow> 'i reload_loop \<Rightarrow> 'i reload_loop" where
  "set_status f s \<equiv> s\<lparr>rl_status := f (rl_status s)\<rparr>"

definition arm_debounce :: "'i reload_loop \<Rightarrow> 'i reload_loop" where
  "arm_debounce s = s\<lparr>rl_debounce := Some (rl_now s + DEFAULT_RELOAD_DEBOUNCE)\<rparr>"

definition on_trigger :: "'i reload_loop \<Rightarrow> 'i reload_loop" where
  "on_trigger s =
     set_status (\<lambda>st. st\<lparr>bs_reload_state := if rl_in_flight s \<noteq> None then Importing else Debouncing\<rparr>)
       (arm_debounce (s\<lparr>rl_dirty := True\<rparr>))"

definition publish_detection_status :: "detected_build_tool option \<Rightarrow> 'i reload_loop \<Rightarrow> 'i reload_loop" where
  "publish_detection_status detection s =
     set_status (\<lambda>st. st\<lparr>bs_detected_tool := map_option db_kind detection,
                       bs_tool_version := (if detection = None then None else bs_tool_version st),
                       bs_capability := (if detection = None then Unsupported else Supported)\<rparr>)
       (s\<lparr>rl_watch_interest := map_option db_watch_interest detection\<rparr>)"

text \<open>
  The debounce delay has passed. \<open>detect\<close> is what the registry finds now, \<open>fallback\<close> the index of the
  unmanaged root or the error of building it.
\<close>

definition on_debounce :: "detected_build_tool option \<Rightarrow> str + 'i \<Rightarrow> 'i reload_loop \<Rightarrow> 'i reload_loop" where
  "on_debounce detect fallback s =
     (if \<not> rl_dirty s then s\<lparr>rl_debounce := None\<rparr>
      else
        (let s1 = publish_detection_status detect
                    (s\<lparr>rl_dirty := False, rl_debounce := None, rl_generation := rl_generation s + 1\<rparr>)
         in case detect of
              None \<Rightarrow>
                (let s2 = set_status (\<lambda>st. st\<lparr>bs_capability := Unsupported, bs_reload_state := Unmanaged,
                                                bs_detected_tool := None, bs_last_error := None\<rparr>) s1
                 in case fallback of
                      Inl err \<Rightarrow> set_status (\<lambda>st. st\<lparr>bs_reload_state := Failed, bs_last_error := Some err\<rparr>) s2
                    | Inr index \<Rightarrow> s2\<lparr>rl_handle := handle_replace index None (rl_handle s2)\<rparr>)
            | Some detected \<Rightarrow>
                set_status (\<lambda>st. st\<lparr>bs_capability := Supported, bs_detected_tool := Some (db_kind detected),
                                  bs_tool_version := None, bs_reload_state := Importing, bs_last_error := None\<rparr>)
                  (s1\<lparr>rl_in_flight := Some (rl_generation s1)\<rparr>)))"

text \<open>How the import ended: a model with the index built from it or the error of that, an error, a panic.\<close>

datatype 'i import_outcome =
  Imported workspace_model_snapshot "str + 'i"
| ImportError str
| ImportPanicked str

definition import_failed :: "str \<Rightarrow> 'i reload_loop \<Rightarrow> 'i reload_loop" where
  "import_failed err s =
     set_status (\<lambda>st. st\<lparr>bs_reload_state := Failed, bs_last_error := Some err\<rparr>)
       (s\<lparr>rl_handle := mark_model_stale (rl_handle s)\<rparr>)"

definition model_applied :: "workspace_model_snapshot \<Rightarrow> 'i \<Rightarrow> 'i reload_loop \<Rightarrow> 'i reload_loop" where
  "model_applied snapshot index s =
     set_status (\<lambda>st. st\<lparr>bs_capability := Supported, bs_detected_tool := Some (mp_tool (sn_provenance snapshot)),
                       bs_tool_version := mp_tool_version (sn_provenance snapshot),
                       bs_reload_state := (if rl_dirty s then Debouncing else Idle),
                       bs_generation := sn_generation snapshot,
                       bs_freshness := Some (sn_freshness snapshot), bs_fidelity := Some (sn_fidelity snapshot),
                       bs_last_error := None\<rparr>)
       (s\<lparr>rl_handle := handle_replace index (Some snapshot) (rl_handle s)\<rparr>)"

definition on_import_done :: "'i import_outcome \<Rightarrow> 'i reload_loop \<Rightarrow> 'i reload_loop" where
  "on_import_done outcome s =
     (let s1 = s\<lparr>rl_in_flight := None\<rparr>;
          s2 = (case outcome of
                  Imported snapshot (Inr index) \<Rightarrow> model_applied snapshot index s1
                | Imported snapshot (Inl err) \<Rightarrow> import_failed err s1
                | ImportError err \<Rightarrow> import_failed err s1
                | ImportPanicked err \<Rightarrow> import_failed err s1)
      in if rl_dirty s2
         then set_status (\<lambda>st. st\<lparr>bs_reload_state := Debouncing\<rparr>) (arm_debounce s2)
         else s2)"

text \<open>
  The steps of the loop, and those of its environment. \<open>build\<close> is the index that a model describes; an
  import returns a model of the generation it was started with.
\<close>

inductive loop_step :: "(workspace_model_snapshot \<Rightarrow> 'i \<Rightarrow> bool) \<Rightarrow> 'i reload_loop \<Rightarrow> 'i reload_loop \<Rightarrow> bool" for build where
  trigger: "rl_queue s = reason # rest \<Longrightarrow> loop_step build s (on_trigger (s\<lparr>rl_queue := rest\<rparr>))"
| debounced: "rl_debounce s = Some deadline \<Longrightarrow> deadline \<le> rl_now s \<Longrightarrow> rl_in_flight s = None \<Longrightarrow>
     loop_step build s (on_debounce detect fallback s)"
| imported: "rl_in_flight s = Some g \<Longrightarrow> sn_generation snapshot = g \<Longrightarrow> build snapshot index \<Longrightarrow>
     loop_step build s (on_import_done (Imported snapshot (Inr index)) s)"
| not_imported: "rl_in_flight s = Some g \<Longrightarrow>
     outcome \<in> {Imported snapshot (Inl err), ImportError err, ImportPanicked err} \<Longrightarrow>
     loop_step build s (on_import_done outcome s)"

inductive reload_step :: "(workspace_model_snapshot \<Rightarrow> 'i \<Rightarrow> bool) \<Rightarrow> 'i reload_loop \<Rightarrow> 'i reload_loop \<Rightarrow> bool" for build where
  loop: "loop_step build s s' \<Longrightarrow> reload_step build s s'"
| schedule: "reload_step build s (schedule_reload reason s)"
| notify: "reload_step build s (notify_paths_changed ps s)"
| tick: "reload_step build s (s\<lparr>rl_now := rl_now s + d\<rparr>)"

subsection \<open>Invariant\<close>

text \<open>The published model differs from the one its index was built from at most in its freshness.\<close>

definition published :: "(workspace_model_snapshot \<Rightarrow> 'i \<Rightarrow> bool) \<Rightarrow> 'i workspace_handle \<Rightarrow> bool" where
  "published build h \<longleftrightarrow>
     (\<forall>m. wh_model h = Some m \<longrightarrow> (\<exists>freshness. build (m\<lparr>sn_freshness := freshness\<rparr>) (wh_index h)))"

definition reload_inv :: "(workspace_model_snapshot \<Rightarrow> 'i \<Rightarrow> bool) \<Rightarrow> 'i reload_loop \<Rightarrow> bool" where
  "reload_inv build s \<longleftrightarrow>
     (rl_dirty s \<longleftrightarrow> rl_debounce s \<noteq> None)
     \<and> (\<forall>d. rl_debounce s = Some d \<longrightarrow> d \<le> rl_now s + DEFAULT_RELOAD_DEBOUNCE)
     \<and> (case rl_in_flight s of
          Some g \<Rightarrow> g = rl_generation s \<and> bs_reload_state (rl_status s) = Importing
        | None \<Rightarrow> if rl_dirty s then bs_reload_state (rl_status s) = Debouncing
                  else bs_reload_state (rl_status s) \<in> {Unmanaged, Idle, Failed})
     \<and> (\<forall>m. wh_model (rl_handle s) = Some m \<longrightarrow> bs_generation (rl_status s) = sn_generation m)
     \<and> published build (rl_handle s)"

lemma reload_invI:
  assumes "rl_dirty s \<longleftrightarrow> rl_debounce s \<noteq> None" "\<And>d. rl_debounce s = Some d \<Longrightarrow> d \<le> rl_now s + DEFAULT_RELOAD_DEBOUNCE"
    and "\<And>g. rl_in_flight s = Some g \<Longrightarrow> g = rl_generation s \<and> bs_reload_state (rl_status s) = Importing"
    and "rl_in_flight s = None \<Longrightarrow> rl_dirty s \<Longrightarrow> bs_reload_state (rl_status s) = Debouncing"
    and "rl_in_flight s = None \<Longrightarrow> \<not> rl_dirty s \<Longrightarrow> bs_reload_state (rl_status s) \<in> {Unmanaged, Idle, Failed}"
    and "\<And>m. wh_model (rl_handle s) = Some m \<Longrightarrow> bs_generation (rl_status s) = sn_generation m"
    and "published build (rl_handle s)"
  shows "reload_inv build s"
  using assms by (simp add: reload_inv_def split: option.split)

lemma stale_published: "published build h \<Longrightarrow> published build (mark_model_stale h)"
  by (auto simp: published_def mark_model_stale_def handle_update_model_def)

lemma trigger_inv: "reload_inv build s \<Longrightarrow> reload_inv build (on_trigger s)"
  by (intro reload_invI) (auto simp: reload_inv_def on_trigger_def arm_debounce_def)

lemma debounce_inv:
  assumes "reload_inv build s" "rl_in_flight s = None"
  shows "reload_inv build (on_debounce detect fallback s)"
  using assms
  by (intro reload_invI)
     (auto simp: reload_inv_def on_debounce_def publish_detection_status_def handle_replace_def published_def Let_def
        split: option.splits sum.splits if_splits)

lemma failed_inv:
  assumes "reload_inv build s" "rl_in_flight s \<noteq> None"
    "outcome = ImportError err \<or> outcome = ImportPanicked err \<or> outcome = Imported snapshot (Inl err)"
  shows "reload_inv build (on_import_done outcome s)"
proof -
  have "on_import_done outcome s = on_import_done (ImportError err) s" using assms(3) by (auto simp: on_import_done_def)
  moreover have "published build (mark_model_stale (rl_handle s))" using assms(1) by (simp add: reload_inv_def stale_published)
  ultimately show ?thesis using assms(1,2)
    by (intro reload_invI)
       (auto simp: reload_inv_def on_import_done_def import_failed_def arm_debounce_def mark_model_stale_def
          handle_update_model_def split: option.splits)
qed

lemma applied_inv:
  assumes "reload_inv build s" "rl_in_flight s = Some g" "build snapshot index"
  shows "reload_inv build (on_import_done (Imported snapshot (Inr index)) s)"
proof -
  have "published build (handle_replace index (Some snapshot) h)" for h
    using assms(3) by (auto simp: published_def handle_replace_def intro: exI [of _ "sn_freshness snapshot"])
  with assms show ?thesis
    by (intro reload_invI)
       (auto simp: reload_inv_def on_import_done_def model_applied_def arm_debounce_def handle_replace_def
          split: option.splits)
qed

lemma queue_irrelevant [simp]: "reload_inv build (s\<lparr>rl_queue := q\<rparr>) = reload_inv build s"
  by (cases "rl_in_flight s") (simp_all add: reload_inv_def)

lemma notify_is_schedule: "\<exists>q. notify_paths_changed ps s = s\<lparr>rl_queue := rl_queue s @ q\<rparr>"
proof -
  have "\<exists>q. fold (\<lambda>p t. if path_is_relevant s p then schedule_reload (FileChanged p) t else t) ps t
      = t\<lparr>rl_queue := rl_queue t @ q\<rparr>" for t
  proof (induction ps arbitrary: t)
    case (Cons p ps)
    show ?case
    proof (cases "path_is_relevant s p")
      case True
      obtain q where "fold (\<lambda>p t. if path_is_relevant s p then schedule_reload (FileChanged p) t else t) ps
          (schedule_reload (FileChanged p) t) = schedule_reload (FileChanged p) t\<lparr>rl_queue := rl_queue (schedule_reload (FileChanged p) t) @ q\<rparr>"
        using Cons.IH by blast
      with True show ?thesis by (intro exI [of _ "FileChanged p # q"]) (simp add: schedule_reload_def)
    next
      case False
      with Cons.IH [of t] show ?thesis by simp
    qed
  qed (auto intro: exI [of _ "[]"])
  then show ?thesis by (simp add: notify_paths_changed_def)
qed

lemma loop_step_inv: "loop_step build s s' \<Longrightarrow> reload_inv build s \<Longrightarrow> reload_inv build s'"
proof (induction rule: loop_step.induct)
  case (not_imported s g outcome snapshot err)
  then show ?case by (intro failed_inv) auto
qed (auto intro: trigger_inv debounce_inv applied_inv)

lemma reload_step_inv:
  assumes "reload_step build s s'" "reload_inv build s"
  shows "reload_inv build s'"
  using assms(1)
proof (cases rule: reload_step.cases)
  case loop
  with loop_step_inv assms(2) show ?thesis by blast
next
  case (schedule reason)
  with assms(2) show ?thesis by (simp add: schedule_reload_def)
next
  case (notify ps)
  with assms(2) notify_is_schedule [of ps s] show ?thesis by auto
next
  case (tick d)
  then show ?thesis using assms(2) by (cases "rl_in_flight s") (auto simp: reload_inv_def)
qed

lemma reload_reachable_inv: "(reload_step build)\<^sup>*\<^sup>* (service_new i) s \<Longrightarrow> reload_inv build s"
proof (induction rule: rtranclp_induct)
  case base
  show ?case by (simp add: reload_inv_def service_new_def status_default_def published_def handle_new_def)
qed (rule reload_step_inv)

text \<open>
  C38. The reload loop: in every reachable state a pending request and a running debounce delay are the
  same thing, the delay ends within 900 ms, the state shown to the client is importing exactly while
  an import runs, debouncing while a request waits, otherwise unmanaged, idle or failed (never
  stale), and the published index is the one built from the published model, whose generation the
  status names.
\<close>

theorem reload_loop_invariant:
  assumes "(reload_step build)\<^sup>*\<^sup>* (service_new i) s"
  shows "(rl_dirty s \<longleftrightarrow> rl_debounce s \<noteq> None)
    \<and> (\<forall>d. rl_debounce s = Some d \<longrightarrow> d \<le> rl_now s + DEFAULT_RELOAD_DEBOUNCE)
    \<and> (bs_reload_state (rl_status s) = Importing \<longleftrightarrow> rl_in_flight s \<noteq> None)
    \<and> (bs_reload_state (rl_status s) = Debouncing \<longleftrightarrow> rl_in_flight s = None \<and> rl_dirty s)
    \<and> bs_reload_state (rl_status s) \<noteq> Stale
    \<and> (\<forall>m. wh_model (rl_handle s) = Some m \<longrightarrow> bs_generation (rl_status s) = sn_generation m
         \<and> (\<exists>freshness. build (m\<lparr>sn_freshness := freshness\<rparr>) (wh_index (rl_handle s))))"
  using reload_reachable_inv [OF assms]
  by (cases "rl_in_flight s"; cases "rl_dirty s") (auto simp: reload_inv_def published_def)

text \<open>Two triggers, the delay, and an import that is running while a third trigger arrives.\<close>

definition busy_service :: "unit reload_loop" where
  "busy_service =
     (let detect = Some \<lparr>db_kind = Maven, db_root = [RootDir], db_watch_interest = maven_watch_interest\<rparr>;
          s1 = schedule_reload (FileChanged (path_from ''/w/pom.xml'')) (schedule_reload Initialize (service_new ()));
          s2 = on_trigger (s1\<lparr>rl_queue := [FileChanged (path_from ''/w/pom.xml'')]\<rparr>);
          s3 = on_trigger (s2\<lparr>rl_queue := []\<rparr>);
          s4 = on_debounce detect (Inl []) (s3\<lparr>rl_now := rl_now s3 + 900\<rparr>);
          s5 = schedule_reload Manual s4
      in on_trigger (s5\<lparr>rl_queue := []\<rparr>))"

lemma busy_service_reachable: "(reload_step build)\<^sup>*\<^sup>* (service_new ()) busy_service"
proof -
  let ?detect = "Some \<lparr>db_kind = Maven, db_root = [RootDir], db_watch_interest = maven_watch_interest\<rparr>"
  let ?pom = "FileChanged (path_from ''/w/pom.xml'')"
  let ?s0 = "service_new ()"
  let ?s1 = "schedule_reload Initialize ?s0" and ?s2 = "schedule_reload ?pom (schedule_reload Initialize ?s0)"
  let ?s3 = "on_trigger (?s2\<lparr>rl_queue := [?pom]\<rparr>)"
  let ?s4 = "on_trigger (?s3\<lparr>rl_queue := []\<rparr>)"
  let ?s5 = "?s4\<lparr>rl_now := rl_now ?s4 + 900\<rparr>"
  let ?s6 = "on_debounce ?detect (Inl []) ?s5"
  let ?s7 = "schedule_reload Manual ?s6"
  note defs = schedule_reload_def service_new_def on_trigger_def arm_debounce_def DEFAULT_RELOAD_DEBOUNCE_def
  have "reload_step build ?s0 ?s1" "reload_step build ?s1 ?s2" "reload_step build ?s4 ?s5" "reload_step build ?s6 ?s7"
    by (rule reload_step.schedule reload_step.tick)+
  moreover have "reload_step build ?s2 ?s3"
    by (rule reload_step.loop, rule loop_step.trigger) (simp add: defs)
  moreover have "reload_step build ?s3 ?s4"
    by (rule reload_step.loop, rule loop_step.trigger) (simp add: defs)
  moreover have "reload_step build ?s5 ?s6"
    by (rule reload_step.loop, rule loop_step.debounced [of _ 900]) (simp_all add: defs)
  moreover have "reload_step build ?s7 (on_trigger (?s7\<lparr>rl_queue := []\<rparr>))"
    by (rule reload_step.loop, rule loop_step.trigger) (simp add: defs on_debounce_def publish_detection_status_def)
  ultimately show ?thesis
    unfolding busy_service_def Let_def by (meson rtranclp.rtrancl_into_rtrancl rtranclp.rtrancl_refl)
qed

theorem reload_loop_invariant_witness:
  "rl_dirty busy_service \<and> bs_reload_state (rl_status busy_service) = Importing \<and> rl_in_flight busy_service = Some 1"
proof -
  have "rl_dirty busy_service" "rl_in_flight busy_service = Some 1"
    by (simp_all add: busy_service_def Let_def schedule_reload_def service_new_def on_trigger_def arm_debounce_def
          on_debounce_def publish_detection_status_def)
  with reload_loop_invariant [OF busy_service_reachable [of "\<lambda>_ _. False"]] show ?thesis by simp
qed

subsection \<open>Progress\<close>

definition pending :: "'i reload_loop \<Rightarrow> bool" where
  "pending s \<longleftrightarrow> rl_queue s \<noteq> [] \<or> rl_dirty s"

definition reload_started :: "'i reload_loop \<Rightarrow> 'i reload_loop \<Rightarrow> bool" where
  "reload_started s s' \<longleftrightarrow> rl_generation s' = rl_generation s + 1 \<and> \<not> rl_dirty s' \<and> rl_queue s' = rl_queue s"

definition work :: "'i reload_loop \<Rightarrow> nat" where
  "work s = length (rl_queue s) + (if rl_in_flight s = None then 0 else 1)"

lemma on_debounce_starts: "rl_dirty s \<Longrightarrow> reload_started s (on_debounce detect fallback s)"
  by (auto simp: reload_started_def on_debounce_def publish_detection_status_def Let_def split: option.split sum.split)

lemma import_done_frame:
  "rl_queue (on_import_done outcome s) = rl_queue s" "rl_dirty (on_import_done outcome s) = rl_dirty s"
  "rl_in_flight (on_import_done outcome s) = None"
  by (auto simp: on_import_done_def import_failed_def model_applied_def arm_debounce_def Let_def
        split: import_outcome.split sum.split)

lemma trigger_frame:
  "rl_queue (on_trigger s) = rl_queue s" "rl_dirty (on_trigger s)" "rl_in_flight (on_trigger s) = rl_in_flight s"
  by (simp_all add: on_trigger_def arm_debounce_def)

text \<open>
  C37. No request is lost: while a request is queued or pending, every step of the loop either starts a
  reload or keeps the request and leaves less work. When the loop has no step left, the debounce
  delay ends within 900 ms, and at its end the loop has a step, and every step it has starts a
  reload.
\<close>

theorem reload_progress:
  assumes "(reload_step build)\<^sup>*\<^sup>* (service_new i) s" "pending s"
  shows "(\<forall>s'. loop_step build s s' \<longrightarrow> reload_started s s' \<or> pending s' \<and> work s' < work s)
    \<and> ((\<forall>s'. \<not> loop_step build s s') \<longrightarrow>
        (\<exists>d. rl_debounce s = Some d \<and> rl_now s < d \<and> d \<le> rl_now s + DEFAULT_RELOAD_DEBOUNCE
           \<and> (\<exists>s'. loop_step build (s\<lparr>rl_now := d\<rparr>) s')
           \<and> (\<forall>s'. loop_step build (s\<lparr>rl_now := d\<rparr>) s' \<longrightarrow> reload_started s s')))"
proof -
  have inv: "reload_inv build s" by (rule reload_reachable_inv [OF assms(1)])
  have step: "reload_started s s' \<or> pending s' \<and> work s' < work s" if "loop_step build s s'" for s'
    using that
  proof (cases rule: loop_step.cases)
    case (debounced deadline detect fallback)
    with inv have "rl_dirty s" by (simp add: reload_inv_def)
    then show ?thesis using debounced on_debounce_starts by blast
  qed (use assms(2) in \<open>auto simp: pending_def work_def trigger_frame import_done_frame\<close>)
  have "\<exists>d. rl_debounce s = Some d \<and> rl_now s < d \<and> d \<le> rl_now s + DEFAULT_RELOAD_DEBOUNCE
      \<and> (\<exists>s'. loop_step build (s\<lparr>rl_now := d\<rparr>) s') \<and> (\<forall>s'. loop_step build (s\<lparr>rl_now := d\<rparr>) s' \<longrightarrow> reload_started s s')"
    if stuck: "\<forall>s'. \<not> loop_step build s s'"
  proof -
    have queue: "rl_queue s = []" using stuck loop_step.trigger by (cases "rl_queue s") blast+
    have idle: "rl_in_flight s = None"
      using stuck loop_step.not_imported [of s _ "ImportError []"] by (cases "rl_in_flight s") blast+
    from assms(2) queue have dirty: "rl_dirty s" by (simp add: pending_def)
    with inv obtain d where d: "rl_debounce s = Some d" "d \<le> rl_now s + DEFAULT_RELOAD_DEBOUNCE"
      by (auto simp: reload_inv_def)
    have "rl_now s < d" using stuck loop_step.debounced [OF d(1) _ idle] by (metis not_le)
    moreover have "loop_step build (s\<lparr>rl_now := d\<rparr>) (on_debounce None fallback (s\<lparr>rl_now := d\<rparr>))" for fallback
      by (rule loop_step.debounced [of _ d]) (use d idle in simp_all)
    moreover have "reload_started s s'" if "loop_step build (s\<lparr>rl_now := d\<rparr>) s'" for s'
      using that
    proof (cases rule: loop_step.cases)
      case (debounced deadline detect fallback)
      have "reload_started (s\<lparr>rl_now := d\<rparr>) s'"
        unfolding debounced(1) using dirty by (intro on_debounce_starts) simp
      then show ?thesis by (simp add: reload_started_def)
    qed (use queue idle in simp_all)
    ultimately show ?thesis using d by blast
  qed
  with step show ?thesis by blast
qed

theorem reload_progress_witness:
  "{s'. loop_step (\<lambda>_ _. False) busy_service s'}
     \<subseteq> {s'. reload_started busy_service s'} \<union> {s'. pending s' \<and> work s' < 1}"
proof -
  have "pending busy_service" "work busy_service = 1"
    by (simp_all add: pending_def work_def busy_service_def Let_def schedule_reload_def service_new_def on_trigger_def
          arm_debounce_def on_debounce_def publish_detection_status_def)
  with reload_progress [OF busy_service_reachable [of "\<lambda>_ _. False"]] show ?thesis by auto
qed

text \<open>A failed import marks the published model stale; the status keeps the freshness of the last success.\<close>

lemma status_freshness_kept:
  "bs_freshness (rl_status (on_import_done (ImportError err) s)) = bs_freshness (rl_status s)"
  "wh_model (rl_handle s) = Some m \<Longrightarrow>
    wh_model (rl_handle (on_import_done (ImportError err) s)) = Some (m\<lparr>sn_freshness := ModelStale\<rparr>)"
  by (auto simp: on_import_done_def import_failed_def arm_debounce_def mark_model_stale_def handle_update_model_def
        Let_def)

end
