(* ===== verification/Source_Types.thy ===== *)
theory Source_Types
  imports View_Properties Type_Bindings
begin

text \<open>
  Source types (\<open>src/language/java/type_ctx.rs\<close> and the text functions of
  \<open>src/language/java/utils.rs\<close>): \<open>SourceTypeCtx\<close> turns the type texts of a Java source into internal
  names, descriptors, signatures and type names, by the package and the imports of the file.

  The state is the context itself: its two caches and its counters are fields of \<open>source_type_ctx\<close>,
  and \<open>class_exists\<close> and \<open>resolve_simple_cached\<close> return the context updated. The lemmas show that
  the caches are transparent and the counters add up; the resolvers of whole types then use the
  results of the look-ups and leave the updates out. Log messages are not modelled.
\<close>

subsection \<open>Type texts\<close>

lemma length_trim_start: "length (trim_start s) \<le> length s"
  by (simp add: trim_start_def length_dropWhile_le)

lemma trimmed_shorter:
  assumes "strip_prefix (trim_start s) p = Some r" "p \<noteq> []"
  shows "length r < length s"
proof -
  have "length r + length p = length (trim_start s)"
    using assms by (auto simp: strip_prefix_def starts_with_def split: if_splits dest: arg_cong [where f = length])
  then show ?thesis using assms(2) length_trim_start [of s] by (cases p) auto
qed

function strip_leading_java_type_modifiers :: "str \<Rightarrow> str" where
  "strip_leading_java_type_modifiers s0 =
     (let s = trim_start s0
      in case strip_prefix s ''final '' of
           Some rest \<Rightarrow> strip_leading_java_type_modifiers rest
         | None \<Rightarrow>
             if starts_with s ''@''
             then (case find_char s (CHR '' '') of
                     Some space \<Rightarrow> strip_leading_java_type_modifiers (drop (space + 1) s)
                   | None \<Rightarrow> trim s)
             else trim s)"
  by pat_completeness auto
termination
  by (relation "measure length")
     (auto dest!: trimmed_shorter find_char_Some intro: less_le_trans [OF _ length_trim_start])

declare strip_leading_java_type_modifiers.simps [simp del]

text \<open>
  The pieces of a text between the separators outside angle brackets. Every loop of the source that
  splits a text at depth 0 keeps the start of the current piece; here the piece is built instead.
\<close>

definition angle_depth :: "char \<Rightarrow> int \<Rightarrow> int" where
  "angle_depth c d = (if c = CHR ''<'' then d + 1 else if c = CHR ''>'' then d - 1 else d)"

fun top_pieces :: "char \<Rightarrow> int \<Rightarrow> str \<Rightarrow> str list" where
  "top_pieces sep d [] = [[]]"
| "top_pieces sep d (c # s) =
     (if c = sep \<and> d = 0 then [] # top_pieces sep d s
      else (case top_pieces sep (angle_depth c d) s of [] \<Rightarrow> [[c]] | p # ps \<Rightarrow> (c # p) # ps))"

text \<open>\<open>if start < s.len()\<close>: an empty last piece is not pushed.\<close>

definition drop_empty_tail :: "str list \<Rightarrow> str list" where
  "drop_empty_tail ps = (if ps \<noteq> [] \<and> last ps = [] then butlast ps else ps)"

definition split_params :: "str \<Rightarrow> str list" where
  "split_params s = drop_empty_tail (top_pieces (CHR '','') 0 s)"

definition split_java_generic_args :: "str \<Rightarrow> str list" where
  "split_java_generic_args s = filter (\<lambda>x. x \<noteq> []) (map trim (drop_empty_tail (top_pieces (CHR '','') 0 s)))"

definition split_top_level_java_intersection_bounds :: "str \<Rightarrow> str list" where
  "split_top_level_java_intersection_bounds s =
     filter (\<lambda>x. x \<noteq> []) (map trim (top_pieces (CHR ''&'') 0 s))"

text \<open>
  \<open>char_indices().skip(start)\<close> skips \<open>start\<close> characters, where \<open>start\<close> counts bytes. Where the
  loop finds the closing bracket, it lies behind \<open>start\<close>, so the slices do not panic.
\<close>

definition char_starts :: "str \<Rightarrow> nat list" where
  "char_starts s = filter (char_boundary s) [0..<length s]"

fun angle_end :: "str \<Rightarrow> int \<Rightarrow> nat list \<Rightarrow> nat option" where
  "angle_end ty d [] = None"
| "angle_end ty d (i # is) =
     (if ty ! i = CHR ''<'' then angle_end ty (d + 1) is
      else if ty ! i = CHR ''>'' then (if d - 1 = 0 then Some i else angle_end ty (d - 1) is)
      else angle_end ty d is)"

definition split_java_generic_base :: "str \<Rightarrow> (str \<times> str option) option" where
  "split_java_generic_base ty =
     (case find_char ty (CHR ''<'') of
        Some start \<Rightarrow>
          (case angle_end ty 0 (drop start (char_starts ty)) of
             Some i \<Rightarrow> Some (trim (take start ty), Some (trim (drop (start + 1) (take i ty))))
           | None \<Rightarrow> None)
      | None \<Rightarrow> Some (trim ty, None))"

fun sep_from_end :: "int \<Rightarrow> str \<Rightarrow> nat option" where
  "sep_from_end d [] = None"
| "sep_from_end d (b # bs) =
     (if b = CHR ''>'' then map_option Suc (sep_from_end (d + 1) bs)
      else if b = CHR ''<'' then map_option Suc (sep_from_end (d - 1) bs)
      else if (b = CHR '' '' \<or> b = CHR 0x09) \<and> d = 0 then Some 0
      else map_option Suc (sep_from_end d bs))"

definition extract_param_type :: "str \<Rightarrow> str" where
  "extract_param_type param =
     (case sep_from_end 0 (rev param) of
        Some k \<Rightarrow> trim (take (length param - 1 - k) param)
      | None \<Rightarrow> param)"

text \<open>The loops that strip \<open>[]\<close> suffixes and count them.\<close>

function strip_dims :: "str \<Rightarrow> nat \<Rightarrow> str \<times> nat" where
  "strip_dims base dims =
     (case strip_suffix base ''[]'' of
        Some stripped \<Rightarrow> strip_dims (trim stripped) (dims + 1)
      | None \<Rightarrow> (base, dims))"
  by pat_completeness auto
termination
proof (relation "measure (\<lambda>(b, d). length b)", goal_cases)
  case (2 base dims stripped)
  then have "length stripped < length base" by (simp add: strip_suffix_shorter)
  then show ?case by (simp add: le_less_trans [OF length_trim])
qed simp

declare strip_dims.simps [simp del]

subsection \<open>The context of a file\<close>

record ctx_caches =
  rs_cache :: "(str, str option) hash_map"
  ce_cache :: "(str, bool) hash_map"

record ctx_stats =
  rs_calls :: "64 word"
  rs_hits :: "64 word"
  rs_misses :: "64 word"
  ce_calls :: "64 word"
  ce_hits :: "64 word"
  ce_misses :: "64 word"
  ce_found :: "64 word"
  ce_missing :: "64 word"

record 'c source_type_ctx =
  tc_package :: "str option"
  tc_imports :: "str list"
  tc_name_table :: "name_table option"
  tc_view :: "'c index_view option"
  tc_current_class_methods :: "(str, method_summary) hash_map"
  tc_current_class_super_name :: "str option"
  tc_caches :: ctx_caches
  tc_stats :: ctx_stats

definition caches_default :: ctx_caches where
  "caches_default = \<lparr>rs_cache = [], ce_cache = []\<rparr>"

definition stats_default :: ctx_stats where
  "stats_default = \<lparr>rs_calls = 0, rs_hits = 0, rs_misses = 0, ce_calls = 0, ce_hits = 0, ce_misses = 0,
     ce_found = 0, ce_missing = 0\<rparr>"

definition from_overview :: "str option \<Rightarrow> str list \<Rightarrow> name_table option \<Rightarrow> 'c source_type_ctx" where
  "from_overview package imports name_table =
     \<lparr>tc_package = package, tc_imports = imports, tc_name_table = name_table, tc_view = None,
      tc_current_class_methods = [], tc_current_class_super_name = None,
      tc_caches = caches_default, tc_stats = stats_default\<rparr>"

definition from_view :: "str option \<Rightarrow> str list \<Rightarrow> 'c index_view \<Rightarrow> 'c source_type_ctx" where
  "from_view package imports view =
     \<lparr>tc_package = package, tc_imports = imports, tc_name_table = None, tc_view = Some view,
      tc_current_class_methods = [], tc_current_class_super_name = None,
      tc_caches = caches_default, tc_stats = stats_default\<rparr>"

definition with_view :: "'c index_view \<Rightarrow> 'c source_type_ctx \<Rightarrow> 'c source_type_ctx" where
  "with_view view ctx = ctx\<lparr>tc_view := Some view\<rparr>"

definition with_current_class_methods ::
  "(str, method_summary) hash_map \<Rightarrow> 'c source_type_ctx \<Rightarrow> 'c source_type_ctx" where
  "with_current_class_methods methods ctx = ctx\<lparr>tc_current_class_methods := methods\<rparr>"

definition current_class_method :: "'c source_type_ctx \<Rightarrow> str \<Rightarrow> method_summary option" where
  "current_class_method ctx name = hget (tc_current_class_methods ctx) name"

definition with_current_class_super_name :: "str option \<Rightarrow> 'c source_type_ctx \<Rightarrow> 'c source_type_ctx" where
  "with_current_class_super_name super_name ctx = ctx\<lparr>tc_current_class_super_name := super_name\<rparr>"

definition count_stats :: "(ctx_stats \<Rightarrow> ctx_stats) \<Rightarrow> 'c source_type_ctx \<Rightarrow> 'c source_type_ctx" where
  "count_stats f ctx = ctx\<lparr>tc_stats := f (tc_stats ctx)\<rparr>"

subsection \<open>Look-ups\<close>

text \<open>What the view and the name table know, without the cache.\<close>

definition class_known :: "'c source_type_ctx \<Rightarrow> str \<Rightarrow> bool" where
  "class_known ctx internal \<longleftrightarrow>
     (case tc_view ctx of Some view \<Rightarrow> view_get_class view internal \<noteq> None | None \<Rightarrow> False)
     \<or> (case tc_name_table ctx of Some nt \<Rightarrow> name_table_exists nt internal | None \<Rightarrow> False)"

definition count_existence :: "bool \<Rightarrow> 'c source_type_ctx \<Rightarrow> 'c source_type_ctx" where
  "count_existence exists =
     count_stats (if exists then ce_found_update (\<lambda>n. n + 1) else ce_missing_update (\<lambda>n. n + 1))"

definition class_exists :: "str \<Rightarrow> 'c source_type_ctx \<Rightarrow> bool \<times> 'c source_type_ctx" where
  "class_exists internal ctx0 =
     (let ctx = count_stats (ce_calls_update (\<lambda>n. n + 1)) ctx0
      in case hget (ce_cache (tc_caches ctx)) internal of
           Some exists \<Rightarrow> (exists, count_existence exists (count_stats (ce_hits_update (\<lambda>n. n + 1)) ctx))
         | None \<Rightarrow>
             (let ctx1 = count_stats (ce_misses_update (\<lambda>n. n + 1)) ctx;
                  exists = class_known ctx1 internal;
                  ctx2 = ctx1\<lparr>tc_caches := (tc_caches ctx1)\<lparr>ce_cache :=
                    hinsert internal exists (ce_cache (tc_caches ctx1))\<rparr>\<rparr>
              in (exists, count_existence exists ctx2)))"

text \<open>A loop that keeps the candidates that exist.\<close>

fun existing :: "str list \<Rightarrow> 'c source_type_ctx \<Rightarrow> str list \<times> 'c source_type_ctx" where
  "existing [] ctx = ([], ctx)"
| "existing (c # cs) ctx =
     (let (e, ctx1) = class_exists c ctx; (es, ctx2) = existing cs ctx1
      in (if e then c # es else es, ctx2))"

text \<open>\<open>trim_end_matches(".*")\<close>\<close>

function trim_star :: "str \<Rightarrow> str" where
  "trim_star s = (case strip_suffix s ''.*'' of Some r \<Rightarrow> trim_star r | None \<Rightarrow> s)"
  by pat_completeness auto
termination by (relation "measure length") (simp_all add: strip_suffix_shorter)

declare trim_star.simps [simp del]

definition single_import_candidates :: "str list \<Rightarrow> str \<Rightarrow> str list" where
  "single_import_candidates imports simple =
     map dots_to_slashes (filter (\<lambda>s. \<not> ends_with s ''.*'' \<and> (s = simple \<or> ends_with s (''.'' @ simple))) imports)"

definition wildcard_import_candidates :: "str list \<Rightarrow> str \<Rightarrow> str list" where
  "wildcard_import_candidates imports simple =
     map (\<lambda>s. dots_to_slashes (trim_star s) @ ''/'' @ simple) (filter (\<lambda>s. ends_with s ''.*'') imports)"

definition package_candidate :: "str option \<Rightarrow> str \<Rightarrow> str" where
  "package_candidate package simple = (case package of Some pkg \<Rightarrow> pkg @ ''/'' @ simple | None \<Rightarrow> simple)"

definition resolve_simple_inner_strict_uncached ::
  "str \<Rightarrow> 'c source_type_ctx \<Rightarrow> str option \<times> 'c source_type_ctx" where
  "resolve_simple_inner_strict_uncached simple ctx =
     (if contains_char simple (CHR ''/'')
      then (let (e, ctx) = class_exists simple ctx in (if e then Some simple else None, ctx))
      else
        (let (exact, ctx) = existing (single_import_candidates (tc_imports ctx) simple) ctx
         in if length exact > 1 then (None, ctx)
            else if exact \<noteq> [] then (Some (last exact), ctx)
            else
              (let candidate = package_candidate (tc_package ctx) simple; (e, ctx) = class_exists candidate ctx
               in if e then (Some candidate, ctx)
                  else
                    (let java_lang = ''java/lang/'' @ simple; (e, ctx) = class_exists java_lang ctx
                     in if e then (Some java_lang, ctx)
                        else
                          (let (wild, ctx) = existing (wildcard_import_candidates (tc_imports ctx) simple) ctx
                           in if length wild > 1 then (None, ctx)
                              else if wild \<noteq> [] then (Some (last wild), ctx)
                              else (None, ctx))))))"

definition resolve_simple_cached :: "str \<Rightarrow> 'c source_type_ctx \<Rightarrow> str option \<times> 'c source_type_ctx" where
  "resolve_simple_cached simple ctx0 =
     (let ctx = count_stats (rs_calls_update (\<lambda>n. n + 1)) ctx0
      in case hget (rs_cache (tc_caches ctx)) simple of
           Some cached \<Rightarrow> (cached, count_stats (rs_hits_update (\<lambda>n. n + 1)) ctx)
         | None \<Rightarrow>
             (let (resolved, ctx1) = resolve_simple_inner_strict_uncached simple
                    (count_stats (rs_misses_update (\<lambda>n. n + 1)) ctx)
              in (resolved, ctx1\<lparr>tc_caches := (tc_caches ctx1)\<lparr>rs_cache :=
                    hinsert simple resolved (rs_cache (tc_caches ctx1))\<rparr>\<rparr>)))"

definition profile_snapshot :: "'c source_type_ctx \<Rightarrow> ctx_stats \<times> nat \<times> nat" where
  "profile_snapshot ctx =
     (tc_stats ctx, length (rs_cache (tc_caches ctx)), length (ce_cache (tc_caches ctx)))"

text \<open>The results of the look-ups, with the updates of caches and counters left out.\<close>

definition exists_in :: "'c source_type_ctx \<Rightarrow> str \<Rightarrow> bool" where
  "exists_in ctx internal = fst (class_exists internal ctx)"

definition resolve_simple_strict :: "'c source_type_ctx \<Rightarrow> str \<Rightarrow> str option" where
  "resolve_simple_strict ctx simple = fst (resolve_simple_cached simple ctx)"

definition resolve_simple :: "'c source_type_ctx \<Rightarrow> str \<Rightarrow> str" where
  "resolve_simple ctx simple =
     (case resolve_simple_strict ctx simple of Some result \<Rightarrow> result | None \<Rightarrow> simple)"

subsection \<open>Descriptors and signatures\<close>

definition descriptor_base :: "str \<Rightarrow> str" where
  "descriptor_base base0 =
     (let base = (case split_top_level_java_intersection_bounds base0 of b # _ \<Rightarrow> b | [] \<Rightarrow> base0)
      in trim (case split_java_generic_base base of Some (head, _) \<Rightarrow> head | None \<Rightarrow> base))"

definition to_descriptor :: "'c source_type_ctx \<Rightarrow> str \<Rightarrow> str" where
  "to_descriptor ctx ty0 =
     (let ty = strip_leading_java_type_modifiers (trim ty0);
          (ty, extra_dim) = (case strip_suffix ty ''...'' of Some stripped \<Rightarrow> (stripped, 1) | None \<Rightarrow> (ty, 0));
          (base, dims) = strip_dims (trim ty) extra_dim;
          base = descriptor_base base
      in repeat_str dims ''['' @
         (case map_of [(''void'', ''V''), (''boolean'', ''Z''), (''byte'', ''B''), (''char'', ''C''),
             (''short'', ''S''), (''int'', ''I''), (''long'', ''J''), (''float'', ''F''), (''double'', ''D'')] base of
            Some code \<Rightarrow> code
          | None \<Rightarrow> ''L'' @ resolve_simple ctx base @ '';''))"

text \<open>\<open>trim_start_matches('(')\<close> and \<open>trim_end_matches(')')\<close>\<close>

definition build_java_descriptor :: "str \<Rightarrow> str \<Rightarrow> 'c source_type_ctx \<Rightarrow> str" where
  "build_java_descriptor ptext ret_type ctx =
     (let inner = rev (dropWhile (\<lambda>c. c = CHR '')'') (rev (dropWhile (\<lambda>c. c = CHR ''('') (trim ptext))))
      in ''('' @
         (if trim inner = [] then []
          else concat (map (\<lambda>param. to_descriptor ctx (extract_param_type (trim param))) (split_params inner)))
         @ '')'' @ to_descriptor ctx (trim ret_type))"

text \<open>Lengths of pieces, for the recursions over types.\<close>

lemma top_pieces_nonempty [simp]: "top_pieces sep d s \<noteq> []"
  by (cases s) (simp_all split: list.split)

lemma length_top_pieces:
  "p \<in> set (top_pieces sep d s) \<Longrightarrow> length p + length (top_pieces sep d s) \<le> Suc (length s)"
proof (induction s arbitrary: p d)
  case (Cons c s)
  obtain q qs where q: "top_pieces sep (angle_depth c d) s = q # qs"
    by (meson neq_Nil_conv top_pieces_nonempty)
  obtain r where r: "r \<in> set (top_pieces sep d s)" by (meson last_in_set top_pieces_nonempty)
  show ?case
  proof (cases "c = sep \<and> d = 0")
    case True
    then have eq: "top_pieces sep d (c # s) = [] # top_pieces sep d s" by simp
    show ?thesis using Cons.prems Cons.IH [of p d] Cons.IH [OF r] unfolding eq by auto
  next
    case False
    then have eq: "top_pieces sep d (c # s) = (c # q) # qs" by (simp add: q)
    show ?thesis using Cons.prems Cons.IH [of _ "angle_depth c d"] unfolding eq q by (auto intro: le_SucI)
  qed
qed simp

lemma length_bound:
  assumes "b \<in> set (split_top_level_java_intersection_bounds s)"
  shows "length b \<le> length s"
    "length (split_top_level_java_intersection_bounds s) > 1 \<Longrightarrow> length b < length s"
proof -
  let ?ps = "top_pieces (CHR ''&'') 0 s"
  obtain p where p: "p \<in> set ?ps" "b = trim p"
    using assms by (auto simp: split_top_level_java_intersection_bounds_def)
  note l = length_top_pieces [OF p(1)] length_trim [of p]
  have "length ?ps > 0" by simp
  with l show "length b \<le> length s" unfolding p(2) by linarith
  assume "length (split_top_level_java_intersection_bounds s) > 1"
  also have "length (split_top_level_java_intersection_bounds s) \<le> length ?ps"
    using length_filter_le [of "\<lambda>x. x \<noteq> []" "map trim ?ps"]
    by (simp only: split_top_level_java_intersection_bounds_def length_map)
  finally have "length ?ps > 1" .
  with l show "length b < length s" unfolding p(2) by linarith
qed

lemma length_arg: "a \<in> set (split_java_generic_args s) \<Longrightarrow> length a \<le> length s"
proof -
  assume "a \<in> set (split_java_generic_args s)"
  then obtain p where p: "p \<in> set (top_pieces (CHR '','') 0 s)" "a = trim p"
    by (auto simp: split_java_generic_args_def drop_empty_tail_def split: if_splits dest: in_set_butlastD)
  have "length (top_pieces (CHR '','') 0 s) > 0" by simp
  with length_top_pieces [OF p(1)] length_trim [of p] show ?thesis unfolding p(2) by linarith
qed

lemma length_generic_args:
  assumes "split_java_generic_base ty = Some (b, Some args)"
  shows "length args < length ty"
proof -
  obtain start i where si: "find_char ty (CHR ''<'') = Some start" "args = trim (drop (start + 1) (take i ty))"
    using assms by (auto simp: split_java_generic_base_def split: option.splits)
  then have "start < length ty" using find_char_Some by blast
  then have "length (drop (start + 1) (take i ty)) < length ty" by simp
  with si(2) show ?thesis using length_trim by (metis le_less_trans)
qed

lemma strip_dims_length: "strip_dims base dims = (b, d) \<Longrightarrow> length b \<le> length base"
proof (induction base dims rule: strip_dims.induct)
  case (1 base dims)
  show ?case
  proof (cases "strip_suffix base ''[]''")
    case None
    with 1(2) show ?thesis by (simp add: strip_dims.simps [of base])
  next
    case (Some r)
    with 1 have "length b \<le> length (trim r)" by (simp add: strip_dims.simps [of base])
    also have "length (trim r) \<le> length r" by (rule length_trim)
    also have "length r \<le> length base" using strip_suffix_shorter [OF Some] by simp
    finally show ?thesis .
  qed
qed

lemma strip_modifiers_length: "length (strip_leading_java_type_modifiers s) \<le> length s"
proof (induction s rule: strip_leading_java_type_modifiers.induct)
  case (1 s)
  have t: "length (trim (trim_start s)) \<le> length s"
    by (rule order_trans [OF length_trim length_trim_start])
  show ?case
  proof (cases "strip_prefix (trim_start s) ''final ''")
    case (Some r)
    then have "length r < length s" by (rule trimmed_shorter) simp
    with 1(2) [OF refl Some] Some show ?thesis by (simp add: strip_leading_java_type_modifiers.simps [of s])
  next
    case None
    have d: "length (drop n (trim_start s)) \<le> length s" for n using length_trim_start [of s] by simp
    have r: "length (strip_leading_java_type_modifiers (drop (n + 1) (trim_start s))) \<le> length s"
      if "starts_with (trim_start s) ''@''" "find_char (trim_start s) (CHR '' '') = Some n" for n
      by (rule order_trans [OF 1(1) [OF refl None that] d])
    from None t r show ?thesis
      by (subst strip_leading_java_type_modifiers.simps) (auto simp: Let_def split: option.splits)
  qed
qed

lemma signature_text_length:
  assumes "s = strip_leading_java_type_modifiers (trim ty)"
    "(case strip_suffix s ''...'' of Some stripped \<Rightarrow> (trim stripped, 1) | None \<Rightarrow> (s, 0)) = (s1, d1)"
    "strip_dims s1 d1 = (s2, d2)"
  shows "length s2 \<le> length ty"
proof -
  have "length s \<le> length ty"
    unfolding assms(1) by (rule order_trans [OF strip_modifiers_length length_trim])
  moreover have "length s1 \<le> length s"
    using assms(2) length_trim strip_suffix_shorter
    by (auto split: option.splits) (metis less_imp_le list.distinct(1) order_trans)
  ultimately show ?thesis using strip_dims_length [OF assms(3)] by simp
qed

function source_type_to_signature :: "'c source_type_ctx \<Rightarrow> str \<Rightarrow> str" where
  "source_type_to_signature ctx ty =
     (let s = strip_leading_java_type_modifiers (trim ty)
      in if s = ''?'' then ''*''
         else case strip_prefix s ''? extends '' of
           Some bound \<Rightarrow> ''+'' @ source_type_to_signature ctx bound
         | None \<Rightarrow>
         case strip_prefix s ''? super '' of
           Some bound \<Rightarrow> ''-'' @ source_type_to_signature ctx bound
         | None \<Rightarrow>
           (let (s, dims) = (case strip_suffix s ''...'' of Some stripped \<Rightarrow> (trim stripped, 1) | None \<Rightarrow> (s, 0));
                (s, dims) = strip_dims s dims;
                bounds = split_top_level_java_intersection_bounds s
            in if length bounds > 1 then source_type_to_signature ctx (bounds ! 0)
               else
                 (let (base, args) = (case split_java_generic_base s of Some r \<Rightarrow> r | None \<Rightarrow> (s, None))
                  in repeat_str dims ''['' @
                     (case map_of [(''void'', ''V''), (''boolean'', ''Z''), (''byte'', ''B''), (''char'', ''C''),
                         (''short'', ''S''), (''int'', ''I''), (''long'', ''J''), (''float'', ''F''), (''double'', ''D'')] base of
                        Some code \<Rightarrow> code
                      | None \<Rightarrow>
                          (let internal = dots_to_slashes (resolve_simple ctx base);
                               is_type_var = \<not> contains_char internal (CHR ''/'') \<and> list_all is_ascii_uppercase internal
                           in if is_type_var then ''T'' @ internal @ '';''
                              else case args of
                                Some args_text \<Rightarrow>
                                  ''L'' @ internal @ ''<'' @
                                  concat (map (source_type_to_signature ctx) (split_java_generic_args args_text)) @ ''>;''
                              | None \<Rightarrow> ''L'' @ internal @ '';'')))))"
  by pat_completeness auto

termination
proof (relation "measure (\<lambda>(ctx, ty). length ty)", goal_cases)
  case 1
  then show ?case by simp
next
  case (2 ctx ty s p s1 d1 q s2 d2 bounds)
  have "length s2 \<le> length ty" by (rule signature_text_length [OF 2(1) trans [OF 2(5) [symmetric] 2(6) [symmetric]] trans [OF 2(7) [symmetric] 2(8) [symmetric]]])
  moreover have "bounds ! 0 \<in> set bounds" using 2(10) by (intro nth_mem) auto
  ultimately show ?case using length_bound(2) [of "bounds ! 0" s2] 2(9,10) by fastforce
next
  case (3 ctx ty s p s1 d1 q s2 d2 bounds r base args internal is_type_var args_text a)
  have "length s2 \<le> length ty" by (rule signature_text_length [OF 3(1) trans [OF 3(5) [symmetric] 3(6) [symmetric]] trans [OF 3(7) [symmetric] 3(8) [symmetric]]])
  moreover have "length args_text < length s2"
    using 3(11,12,17) by (auto split: option.splits dest: length_generic_args)
  ultimately show ?case using length_arg [OF 3(18)] by simp
next
  case (4 ctx ty s bound)
  have "length s \<le> length ty" unfolding 4(1) by (rule order_trans [OF strip_modifiers_length length_trim])
  with strip_prefix_shorter [OF 4(4)] show ?case by simp
next
  case (5 ctx ty s bound)
  have "length s \<le> length ty" unfolding 5(1) by (rule order_trans [OF strip_modifiers_length length_trim])
  with strip_prefix_shorter [OF 5(3)] show ?case by simp
qed

declare source_type_to_signature.simps [simp del]

subsection \<open>Whole types\<close>

datatype type_resolve_quality = Exact | Partial

definition resolve_head :: "'c source_type_ctx \<Rightarrow> str \<Rightarrow> str option" where
  "resolve_head ctx head =
     (if contains_char head (CHR ''/'') then (if exists_in ctx head then Some head else None)
      else if contains_char head (CHR ''.'') then
        (let internal = dots_to_slashes head in if exists_in ctx internal then Some internal else None)
      else resolve_simple_strict ctx head)"

definition resolve_dotted_parts :: "'c source_type_ctx \<Rightarrow> str list \<Rightarrow> str option" where
  "resolve_dotted_parts ctx parts =
     find_map (\<lambda>split.
       let owner = (if split = 1 then resolve_simple_strict ctx (parts ! 0)
                    else (let head = join ''/'' (take split parts) in if exists_in ctx head then Some head else None))
       in case owner of
            None \<Rightarrow> None
          | Some owner_internal \<Rightarrow>
              (let candidate = owner_internal @ ''$'' @ join ''$'' (drop split parts)
               in if exists_in ctx candidate then Some candidate else None))
       (rev [1..<length parts])"

definition resolve_base_internal :: "'c source_type_ctx \<Rightarrow> str \<Rightarrow> str option" where
  "resolve_base_internal ctx base_name =
     (if contains_char base_name (CHR ''/'') then (if exists_in ctx base_name then Some base_name else None)
      else if contains_char base_name (CHR ''.'') then
        (case (case tc_view ctx of
                 Some view \<Rightarrow> resolve_qualified_type_path (resolve_head ctx) view base_name | None \<Rightarrow> None) of
           Some resolved \<Rightarrow> Some (cm_internal_name resolved)
         | None \<Rightarrow>
             (let parts = filter (\<lambda>segment. segment \<noteq> []) (split_char (CHR ''.'') base_name)
              in if parts = [] then None
                 else (let direct = dots_to_slashes base_name
                       in if exists_in ctx direct then Some direct else resolve_dotted_parts ctx parts)))
      else resolve_simple_strict ctx base_name)"

text \<open>The first lines of both resolvers: modifiers and array suffixes are stripped.\<close>

definition type_parts :: "str \<Rightarrow> (str \<times> nat) option" where
  "type_parts ty0 =
     (let ty = strip_leading_java_type_modifiers (trim ty0)
      in if ty = [] then None
         else (let (base, dims) = strip_dims ty 0
               in Some (strip_leading_java_type_modifiers base, dims)))"

definition add_dims :: "nat \<Rightarrow> type_name \<Rightarrow> type_name" where
  "add_dims dims ty = (if dims > 0 then with_array_dims ty dims else ty)"

definition with_resolved_args :: "str \<Rightarrow> type_name list \<Rightarrow> type_name" where
  "with_resolved_args internal arg_types =
     (if arg_types = [] then internal_type internal else internal_with_args internal arg_types)"

lemma type_parts_length: "type_parts ty = Some (base, dims) \<Longrightarrow> length base \<le> length ty"
proof -
  assume "type_parts ty = Some (base, dims)"
  then obtain b where b: "strip_dims (strip_leading_java_type_modifiers (trim ty)) 0 = (b, dims)"
    "base = strip_leading_java_type_modifiers b"
    by (auto simp: type_parts_def Let_def split: if_splits prod.splits)
  have "length base \<le> length b" unfolding b(2) by (rule strip_modifiers_length)
  also note strip_dims_length [OF b(1)]
  also have "length (strip_leading_java_type_modifiers (trim ty)) \<le> length ty"
    by (rule order_trans [OF strip_modifiers_length length_trim])
  finally show ?thesis .
qed

lemma trim_prefix_shorter:
  assumes "strip_prefix (trim s) p = Some r" "p \<noteq> []"
  shows "length r < length s"
  using strip_prefix_shorter [OF assms] length_trim [of s] by linarith

function resolve_type_name_strict_inner :: "'c source_type_ctx \<Rightarrow> str \<Rightarrow> type_name option"
  and resolve_type_arg_type :: "'c source_type_ctx \<Rightarrow> str \<Rightarrow> type_name option"
where
  "resolve_type_name_strict_inner ctx ty =
     (case type_parts ty of
        None \<Rightarrow> None
      | Some (base, dims) \<Rightarrow>
          (let bounds = split_top_level_java_intersection_bounds base
           in if length bounds > 1 then
                (case those (map (resolve_type_name_strict_inner ctx) bounds) of
                   None \<Rightarrow> None | Some bound_types \<Rightarrow> Some (add_dims dims (intersection bound_types)))
              else
                (case split_java_generic_base base of
                   None \<Rightarrow> None
                 | Some (base_name, args_str) \<Rightarrow>
                     (case resolve_base_internal ctx base_name of
                        None \<Rightarrow> None
                      | Some internal \<Rightarrow>
                          (case args_str of
                             None \<Rightarrow> Some (add_dims dims (internal_type internal))
                           | Some args \<Rightarrow>
                               (case those (map (resolve_type_arg_type ctx) (split_java_generic_args args)) of
                                  None \<Rightarrow> None
                                | Some arg_types \<Rightarrow> Some (add_dims dims (with_resolved_args internal arg_types))))))))"
| "resolve_type_arg_type ctx arg0 =
     (let arg = trim arg0
      in if arg = [] then None
         else if arg = ''?'' then Some wildcard_type
         else case strip_prefix arg ''? extends '' of
           Some bound \<Rightarrow> map_option wildcard_extends (resolve_type_arg_type ctx bound)
         | None \<Rightarrow>
         case strip_prefix arg ''? super '' of
           Some bound \<Rightarrow> map_option wildcard_super (resolve_type_arg_type ctx bound)
         | None \<Rightarrow>
         case resolve_type_name_strict_inner ctx arg of
           None \<Rightarrow> None
         | Some resolved \<Rightarrow>
             (let base = erased_internal resolved
              in if is_array resolved \<or> is_intersection resolved then None
                 else if base \<in> set primitive_names then None
                 else if contains_char base (CHR ''/'') then Some resolved else None))"
  by pat_completeness auto

termination
proof (relation "measure (case_sum (\<lambda>(ctx, ty). 2 * length ty) (\<lambda>(ctx, arg). 2 * length arg + 1))", goal_cases)
  case (2 ctx ty p base dims bounds b)
  then show ?case using type_parts_length [of ty base dims] length_bound(2) [of b base] by simp
next
  case (3 ctx ty p base dims bounds q base_name args_str internal args a)
  then show ?case
    using type_parts_length [of ty base dims] length_generic_args [of base base_name args] length_arg [of a args] by simp
next
  case (4 ctx arg0 arg)
  then show ?case using length_trim [of arg0] by simp
next
  case (5 ctx arg0 arg bound)
  then show ?case using trim_prefix_shorter [of arg0 "''? extends ''" bound] trim_prefix_shorter [of arg0 "''? super ''" bound] by simp
next
  case (6 ctx arg0 arg bound)
  then show ?case using trim_prefix_shorter [of arg0 "''? extends ''" bound] trim_prefix_shorter [of arg0 "''? super ''" bound] by simp
qed simp

declare resolve_type_name_strict_inner.simps [simp del] resolve_type_arg_type.simps [simp del]

text \<open>The loops of the relaxed resolvers: parts that fail are left out and make the result partial.\<close>

definition collect_relaxed ::
  "(type_name \<times> type_resolve_quality) option list \<Rightarrow> type_name list \<times> type_resolve_quality" where
  "collect_relaxed rs =
     (map fst (List.map_filter id rs),
      if list_ex (\<lambda>r. case r of None \<Rightarrow> True | Some (_, q) \<Rightarrow> q = Partial) rs then Partial else Exact)"

function resolve_type_name_relaxed_inner ::
    "'c source_type_ctx \<Rightarrow> str \<Rightarrow> (type_name \<times> type_resolve_quality) option"
  and resolve_type_arg_type_relaxed ::
    "'c source_type_ctx \<Rightarrow> str \<Rightarrow> (type_name \<times> type_resolve_quality) option"
where
  "resolve_type_name_relaxed_inner ctx ty =
     (case type_parts ty of
        None \<Rightarrow> None
      | Some (base, dims) \<Rightarrow>
          (let bounds = split_top_level_java_intersection_bounds base
           in if length bounds > 1 then
                (let (resolved_bounds, quality) =
                       collect_relaxed (map (resolve_type_name_relaxed_inner ctx) bounds)
                 in if resolved_bounds = [] then None
                    else Some (add_dims dims (intersection resolved_bounds), quality))
              else
                (case split_java_generic_base base of
                   None \<Rightarrow> None
                 | Some (base_name, args_str) \<Rightarrow>
                     (case resolve_base_internal ctx base_name of
                        None \<Rightarrow> None
                      | Some internal \<Rightarrow>
                          (case args_str of
                             None \<Rightarrow> Some (add_dims dims (internal_type internal), Exact)
                           | Some args \<Rightarrow>
                               (let (resolved_args, quality) =
                                      collect_relaxed (map (resolve_type_arg_type_relaxed ctx) (split_java_generic_args args))
                                in Some (add_dims dims (with_resolved_args internal resolved_args), quality)))))))"
| "resolve_type_arg_type_relaxed ctx arg0 =
     (let arg = trim arg0
      in if arg = [] then None
         else if arg = ''?'' then Some (wildcard_type, Exact)
         else case strip_prefix arg ''? extends '' of
           Some bound \<Rightarrow>
             map_option (\<lambda>(inner, q). (wildcard_extends inner, q))
               (case resolve_type_arg_type_relaxed ctx bound of
                  Some r \<Rightarrow> Some r | None \<Rightarrow> resolve_type_name_relaxed_inner ctx bound)
         | None \<Rightarrow>
         case strip_prefix arg ''? super '' of
           Some bound \<Rightarrow>
             map_option (\<lambda>(inner, q). (wildcard_super inner, q))
               (case resolve_type_arg_type_relaxed ctx bound of
                  Some r \<Rightarrow> Some r | None \<Rightarrow> resolve_type_name_relaxed_inner ctx bound)
         | None \<Rightarrow>
         case resolve_type_name_relaxed_inner ctx arg of
           None \<Rightarrow> None
         | Some (resolved, quality) \<Rightarrow> if is_intersection resolved then None else Some (resolved, quality))"
  by pat_completeness auto

termination
proof (relation "measure (case_sum (\<lambda>(ctx, ty). 2 * length ty) (\<lambda>(ctx, arg). 2 * length arg + 1))", goal_cases)
  case (2 ctx ty p base dims bounds b)
  then show ?case using type_parts_length [of ty base dims] length_bound(2) [of b base] by simp
next
  case (3 ctx ty p base dims bounds q base_name args_str base_internal args a)
  then show ?case
    using type_parts_length [of ty base dims] length_generic_args [of base base_name args] length_arg [of a args] by simp
next
  case (4 ctx arg0 arg)
  then show ?case using length_trim [of arg0] by simp
next
  case (5 ctx arg0 arg bound)
  then show ?case using trim_prefix_shorter [of arg0 "''? extends ''" bound] trim_prefix_shorter [of arg0 "''? super ''" bound] by simp
next
  case (6 ctx arg0 arg bound)
  then show ?case using trim_prefix_shorter [of arg0 "''? extends ''" bound] trim_prefix_shorter [of arg0 "''? super ''" bound] by simp
next
  case (7 ctx arg0 arg bound)
  then show ?case using trim_prefix_shorter [of arg0 "''? extends ''" bound] trim_prefix_shorter [of arg0 "''? super ''" bound] by simp
next
  case (8 ctx arg0 arg bound)
  then show ?case using trim_prefix_shorter [of arg0 "''? extends ''" bound] trim_prefix_shorter [of arg0 "''? super ''" bound] by simp
qed simp

declare resolve_type_name_relaxed_inner.simps [simp del] resolve_type_arg_type_relaxed.simps [simp del]

definition resolve_type_name_strict :: "'c source_type_ctx \<Rightarrow> str \<Rightarrow> type_name option" where
  "resolve_type_name_strict ctx ty = resolve_type_name_strict_inner ctx ty"

record relaxed_type_resolution =
  rtr_ty :: type_name
  rtr_quality :: type_resolve_quality

definition resolve_type_name_relaxed :: "'c source_type_ctx \<Rightarrow> str \<Rightarrow> relaxed_type_resolution option" where
  "resolve_type_name_relaxed ctx ty =
     (case resolve_type_name_relaxed_inner ctx ty of
        None \<Rightarrow> None | Some (t, quality) \<Rightarrow> Some \<lparr>rtr_ty = t, rtr_quality = quality\<rparr>)"

end
