(* ===== verification/Source_Laws.thy ===== *)
theory Source_Laws
  imports Source_Types
begin

text \<open>
  Laws of \<open>SourceTypeCtx\<close>: the caches are transparent and the counters add up after any sequence of
  look-ups; every class of a strictly resolved type exists; the relaxed resolver extends the strict
  one; the descriptor built from the text of a parameter list is read back by the descriptor parser.
\<close>

subsection \<open>Caches\<close>

text \<open>The rules of \<open>resolve_simple\<close> over the classes that are known, with no cache.\<close>

definition simple_spec :: "'c source_type_ctx \<Rightarrow> str \<Rightarrow> str option" where
  "simple_spec ctx simple =
     (let known = class_known ctx
      in if contains_char simple (CHR ''/'') then (if known simple then Some simple else None)
         else case filter known (single_import_candidates (tc_imports ctx) simple) of
           [hit] \<Rightarrow> Some hit
         | _ # _ # _ \<Rightarrow> None
         | [] \<Rightarrow>
             if known (package_candidate (tc_package ctx) simple) then Some (package_candidate (tc_package ctx) simple)
             else if known (''java/lang/'' @ simple) then Some (''java/lang/'' @ simple)
             else case filter known (wildcard_import_candidates (tc_imports ctx) simple) of
               [hit] \<Rightarrow> Some hit | _ \<Rightarrow> None)"

definition file_of ::
  "'c source_type_ctx \<Rightarrow> str option \<times> str list \<times> name_table option \<times> 'c index_view option" where
  "file_of ctx = (tc_package ctx, tc_imports ctx, tc_name_table ctx, tc_view ctx)"

definition rs_part :: "'c source_type_ctx \<Rightarrow> (str, str option) hash_map \<times> 64 word \<times> 64 word \<times> 64 word" where
  "rs_part ctx = (rs_cache (tc_caches ctx), rs_calls (tc_stats ctx), rs_hits (tc_stats ctx), rs_misses (tc_stats ctx))"

definition existence_ok :: "'c source_type_ctx \<Rightarrow> bool" where
  "existence_ok ctx \<longleftrightarrow>
     (\<forall>n e. hget (ce_cache (tc_caches ctx)) n = Some e \<longrightarrow> e = class_known ctx n)
     \<and> ce_calls (tc_stats ctx) = ce_hits (tc_stats ctx) + ce_misses (tc_stats ctx)
     \<and> ce_calls (tc_stats ctx) = ce_found (tc_stats ctx) + ce_missing (tc_stats ctx)
     \<and> ce_misses (tc_stats ctx) = of_nat (length (ce_cache (tc_caches ctx)))"

definition simple_ok :: "'c source_type_ctx \<Rightarrow> bool" where
  "simple_ok ctx \<longleftrightarrow>
     (\<forall>n r. hget (rs_cache (tc_caches ctx)) n = Some r \<longrightarrow> r = simple_spec ctx n)
     \<and> rs_calls (tc_stats ctx) = rs_hits (tc_stats ctx) + rs_misses (tc_stats ctx)
     \<and> rs_misses (tc_stats ctx) = of_nat (length (rs_cache (tc_caches ctx)))"

lemma file_determines:
  assumes "file_of c = file_of d"
  shows "class_known c = class_known d" "simple_spec c = simple_spec d"
    "tc_package c = tc_package d" "tc_imports c = tc_imports d"
proof -
  show k: "class_known c = class_known d" using assms by (intro ext) (simp add: file_of_def class_known_def)
  show "tc_package c = tc_package d" "tc_imports c = tc_imports d" using assms by (simp_all add: file_of_def)
  then show "simple_spec c = simple_spec d" by (intro ext) (unfold simple_spec_def k, simp only:)
qed

lemma file_of_update [simp]:
  "file_of (ctx\<lparr>tc_stats := s\<rparr>) = file_of ctx" "file_of (ctx\<lparr>tc_caches := c\<rparr>) = file_of ctx"
  by (simp_all add: file_of_def)

lemma known_update [simp]:
  "class_known (ctx\<lparr>tc_stats := s\<rparr>) = class_known ctx" "class_known (ctx\<lparr>tc_caches := c\<rparr>) = class_known ctx"
  "simple_spec (ctx\<lparr>tc_stats := s\<rparr>) = simple_spec ctx" "simple_spec (ctx\<lparr>tc_caches := c\<rparr>) = simple_spec ctx"
  by (simp_all only: file_determines(1,2) [OF file_of_update(1)] file_determines(1,2) [OF file_of_update(2)])

lemma length_hinsert: "hget m k = None \<Longrightarrow> length (hinsert k v m) = Suc (length m)"
  unfolding hinsert_def by (induction m) (auto split: if_splits)

lemma class_exists_ok:
  assumes "existence_ok ctx" "class_exists n ctx = (e, ctx')"
  shows "e = class_known ctx n" "existence_ok ctx'" "file_of ctx' = file_of ctx" "rs_part ctx' = rs_part ctx"
  using assms
  by (auto simp: class_exists_def existence_ok_def count_stats_def count_existence_def rs_part_def Let_def
        length_hinsert split: option.splits if_splits)

lemma existing_ok:
  assumes "existence_ok ctx" "existing cs ctx = (es, ctx')"
  shows "es = filter (class_known ctx) cs \<and> existence_ok ctx' \<and> file_of ctx' = file_of ctx \<and> rs_part ctx' = rs_part ctx"
  using assms
proof (induction cs arbitrary: ctx es)
  case (Cons c cs)
  obtain e ctx1 where e: "class_exists c ctx = (e, ctx1)" by fastforce
  obtain es1 where es: "existing cs ctx1 = (es1, ctx')" "es = (if e then c # es1 else es1)"
    using Cons.prems(2) e by (auto split: prod.splits)
  note ce = class_exists_ok [OF Cons.prems(1) e]
  show ?case using Cons.IH [OF ce(2) es(1)] es(2) ce file_determines [OF ce(3)] by auto
qed simp

lemma uncached_ok:
  assumes "existence_ok ctx" "resolve_simple_inner_strict_uncached simple ctx = (r, ctx')"
  shows "r = simple_spec ctx simple \<and> existence_ok ctx' \<and> file_of ctx' = file_of ctx \<and> rs_part ctx' = rs_part ctx"
proof (cases "contains_char simple (CHR ''/'')")
  case True
  obtain e c1 where e: "class_exists simple ctx = (e, c1)" by fastforce
  with True assms(2) have "r = (if e then Some simple else None)" "ctx' = c1"
    by (auto simp: resolve_simple_inner_strict_uncached_def)
  with class_exists_ok [OF assms(1) e] True show ?thesis by (simp add: simple_spec_def)
next
  case False
  obtain exact c1 where e: "existing (single_import_candidates (tc_imports ctx) simple) ctx = (exact, c1)" by fastforce
  note x1 = existing_ok [OF assms(1) e]
  have f1: "class_known c1 = class_known ctx" "tc_package c1 = tc_package ctx" "tc_imports c1 = tc_imports ctx"
    using file_determines [of c1 ctx] x1 by simp_all
  obtain p c2 where p: "class_exists (package_candidate (tc_package c1) simple) c1 = (p, c2)" by fastforce
  have x2: "p = class_known ctx (package_candidate (tc_package ctx) simple)" "existence_ok c2"
    "file_of c2 = file_of ctx" "rs_part c2 = rs_part ctx"
    using class_exists_ok [OF _ p] x1 f1 by simp_all
  obtain j c3 where j: "class_exists (''java/lang/'' @ simple) c2 = (j, c3)" by fastforce
  have x3: "j = class_known ctx (''java/lang/'' @ simple)" "existence_ok c3"
    "file_of c3 = file_of ctx" "rs_part c3 = rs_part ctx"
    using class_exists_ok [OF x2(2) j] x2 file_determines [OF x2(3)] by simp_all
  obtain wild c4 where w: "existing (wildcard_import_candidates (tc_imports c3) simple) c3 = (wild, c4)" by fastforce
  have x4: "wild = filter (class_known ctx) (wildcard_import_candidates (tc_imports ctx) simple)" "existence_ok c4"
    "file_of c4 = file_of ctx" "rs_part c4 = rs_part ctx"
    using existing_ok [OF x3(2) w] x3 file_determines [OF x3(3)] by simp_all
  from False assms(2) show ?thesis
    unfolding resolve_simple_inner_strict_uncached_def simple_spec_def Let_def e p j w prod.case if_False
    using x1 x2 x3 x4 f1 e p j w
    by (auto split: if_splits list.splits)
qed

lemma resolve_simple_cached_ok:
  assumes "existence_ok ctx" "simple_ok ctx" "resolve_simple_cached simple ctx = (r, ctx')"
  shows "r = simple_spec ctx simple \<and> existence_ok ctx' \<and> simple_ok ctx' \<and> file_of ctx' = file_of ctx"
proof (cases "hget (rs_cache (tc_caches ctx)) simple")
  case (Some cached)
  with assms show ?thesis
    by (auto simp: resolve_simple_cached_def count_stats_def existence_ok_def simple_ok_def Let_def)
next
  case None
  let ?c = "count_stats (rs_misses_update (\<lambda>n. n + 1)) (count_stats (rs_calls_update (\<lambda>n. n + 1)) ctx)"
  have ok: "existence_ok ?c" "simple_spec ?c = simple_spec ctx" "file_of ?c = file_of ctx"
    using assms(1) by (auto simp: existence_ok_def count_stats_def)
  obtain ctx1 where r: "resolve_simple_inner_strict_uncached simple ?c = (r, ctx1)"
    "ctx' = ctx1\<lparr>tc_caches := (tc_caches ctx1)\<lparr>rs_cache := hinsert simple r (rs_cache (tc_caches ctx1))\<rparr>\<rparr>"
    using assms(3) None by (auto simp: resolve_simple_cached_def Let_def count_stats_def split: prod.splits)
  note u = uncached_ok [OF ok(1) r(1)]
  have rs: "rs_part ctx1 = rs_part ?c" "simple_spec ctx1 = simple_spec ctx" "file_of ctx1 = file_of ctx"
    using u ok file_determines [of ctx1 ?c] by simp_all
  have "existence_ok ctx'" using u by (auto simp: r(2) existence_ok_def)
  moreover have "simple_ok ctx'"
    using assms(2) None rs u ok(2) by (auto simp: r(2) simple_ok_def rs_part_def count_stats_def length_hinsert)
  ultimately show ?thesis using u ok rs by (simp add: r(2))
qed

text \<open>A context is built, and then asked any number of times.\<close>

inductive ctx_built :: "'c source_type_ctx \<Rightarrow> bool" where
  overview: "ctx_built (from_overview package imports name_table)"
| view: "ctx_built (from_view package imports view)"
| with_view: "ctx_built ctx \<Longrightarrow> ctx_built (with_view view ctx)"
| methods: "ctx_built ctx \<Longrightarrow> ctx_built (with_current_class_methods methods ctx)"
| super: "ctx_built ctx \<Longrightarrow> ctx_built (with_current_class_super_name super_name ctx)"

inductive ctx_run :: "'c source_type_ctx \<Rightarrow> bool" where
  built: "ctx_built ctx \<Longrightarrow> ctx_run ctx"
| ask_class: "ctx_run ctx \<Longrightarrow> class_exists n ctx = (e, ctx') \<Longrightarrow> ctx_run ctx'"
| ask_simple: "ctx_run ctx \<Longrightarrow> resolve_simple_cached n ctx = (r, ctx') \<Longrightarrow> ctx_run ctx'"

lemma ctx_built_empty: "ctx_built ctx \<Longrightarrow> tc_caches ctx = caches_default \<and> tc_stats ctx = stats_default"
  by (induction rule: ctx_built.induct)
     (simp_all add: from_overview_def from_view_def with_view_def with_current_class_methods_def
        with_current_class_super_name_def)

lemma ctx_run_ok: "ctx_run ctx \<Longrightarrow> existence_ok ctx \<and> simple_ok ctx"
proof (induction rule: ctx_run.induct)
  case (built ctx)
  then show ?case
    using ctx_built_empty [of ctx] by (simp add: existence_ok_def simple_ok_def caches_default_def stats_default_def)
next
  case (ask_class ctx n e ctx')
  then show ?case
    using class_exists_ok [of ctx n e ctx'] file_determines [of ctx' ctx] by (auto simp: simple_ok_def rs_part_def)
next
  case (ask_simple ctx n r ctx')
  then show ?case using resolve_simple_cached_ok [of ctx n r ctx'] by simp
qed

text \<open>
  The caches of a source context are transparent: whatever was asked before, a look-up of a class
  answers what the view and the name table know, and a simple name resolves by the rules (single-type
  imports, package, \<open>java.lang\<close>, imports on demand; two hits of one rule are ambiguous). The profile
  adds up: calls are hits and misses, found and missing, and each miss is one key.
\<close>

theorem source_caches_transparent:
  assumes "ctx_run ctx"
  shows "exists_in ctx internal = class_known ctx internal
    \<and> resolve_simple_strict ctx simple = simple_spec ctx simple
    \<and> (case profile_snapshot ctx of (st, simple_keys, class_keys) \<Rightarrow>
         rs_calls st = rs_hits st + rs_misses st \<and> rs_misses st = of_nat simple_keys
         \<and> ce_calls st = ce_hits st + ce_misses st \<and> ce_misses st = of_nat class_keys
         \<and> ce_calls st = ce_found st + ce_missing st)"
proof -
  note ok = ctx_run_ok [OF assms]
  obtain e c where e: "class_exists internal ctx = (e, c)" by fastforce
  obtain r d where r: "resolve_simple_cached simple ctx = (r, d)" by fastforce
  have "exists_in ctx internal = class_known ctx internal"
    using class_exists_ok(1) [OF _ e] ok by (simp add: exists_in_def e)
  moreover have "resolve_simple_strict ctx simple = simple_spec ctx simple"
    using resolve_simple_cached_ok [OF _ _ r] ok by (simp add: resolve_simple_strict_def r)
  ultimately show ?thesis using ok by (auto simp: existence_ok_def simple_ok_def profile_snapshot_def)
qed

theorem source_caches_transparent_witness:
  "let ctx = snd (resolve_simple_cached ''Foo'' (from_overview None [''a.Foo'', ''b.*''] (Some [(''a/Foo'', ()), (''b/Bar'', ())])
       :: unit source_type_ctx))
   in resolve_simple_strict ctx ''Foo'' = Some ''a/Foo'' \<and> resolve_simple_strict ctx ''Bar'' = Some ''b/Bar''
      \<and> \<not> exists_in ctx ''b/Foo''"
proof -
  let ?c0 = "from_overview None [''a.Foo'', ''b.*''] (Some [(''a/Foo'', ()), (''b/Bar'', ())]) :: unit source_type_ctx"
  obtain r c where c: "resolve_simple_cached ''Foo'' ?c0 = (r, c)" by fastforce
  have run: "ctx_run c" by (rule ctx_run.ask_simple [OF ctx_run.built [OF ctx_built.overview] c])
  have f: "class_known c = class_known ?c0" "tc_imports c = tc_imports ?c0" "tc_package c = tc_package ?c0"
    using file_determines [of c ?c0] resolve_simple_cached_ok [OF _ _ c] ctx_run_ok [OF ctx_run.built [OF ctx_built.overview]]
    by blast+
  have k: "class_known ?c0 = (\<lambda>n. n = ''a/Foo'' \<or> n = ''b/Bar'')" "tc_package ?c0 = None"
    by (auto simp: class_known_def from_overview_def name_table_exists_def fun_eq_iff)
  have star: "trim_star ''b.*'' = ''b''" by code_simp
  have imps: "single_import_candidates (tc_imports ?c0) ''Foo'' = [''a/Foo'']"
    "single_import_candidates (tc_imports ?c0) ''Bar'' = []"
    "wildcard_import_candidates (tc_imports ?c0) ''Bar'' = [''b/Bar'']"
    by (simp_all add: from_overview_def single_import_candidates_def ends_with_def star
          wildcard_import_candidates_def replace_char_def)
  have spec: "simple_spec c ''Foo'' = Some ''a/Foo''" "simple_spec c ''Bar'' = Some ''b/Bar''"
    unfolding simple_spec_def f Let_def imps k by (simp_all add: package_candidate_def contains_char_def)
  show ?thesis
    using source_caches_transparent [OF run, of "''b/Foo''" "''Foo''"]
      source_caches_transparent [OF run, of "''b/Foo''" "''Bar''"] spec
    by (simp add: c f k)
qed

subsection \<open>Resolved types\<close>

text \<open>
  The types that exist: a class that is known, with arguments; an intersection of at least two
  of them. An argument is a wildcard or a known class in a package that is no array.
\<close>

fun known_arg :: "(str \<Rightarrow> bool) \<Rightarrow> type_name \<Rightarrow> bool" where
  "known_arg K (TypeName b k as d) \<longleftrightarrow>
     (if k = KWildcard then as = [] \<and> d = 0
      else if k = WildcardExtends \<or> k = WildcardSuper then length as = 1 \<and> list_all (known_arg K) as \<and> d = 0
      else k = Internal \<and> K b \<and> contains_char b (CHR ''/'') \<and> d = 0 \<and> list_all (known_arg K) as)"

definition known_class_type :: "(str \<Rightarrow> bool) \<Rightarrow> type_name \<Rightarrow> bool" where
  "known_class_type K t \<longleftrightarrow> is_internal t \<and> K (base_internal t) \<and> list_all (known_arg K) (tn_args t)"

definition known_type :: "(str \<Rightarrow> bool) \<Rightarrow> type_name \<Rightarrow> bool" where
  "known_type K t \<longleftrightarrow> known_class_type K t \<or>
     (is_intersection t \<and> length (tn_args t) \<ge> 2 \<and> list_all (known_class_type K) (tn_args t))"

lemma add_dims_simps [simp]:
  "base_internal (add_dims d t) = base_internal t" "tn_kind (add_dims d t) = tn_kind t" "tn_args (add_dims d t) = tn_args t"
  by (cases t; simp add: add_dims_def)+

lemma known_add_dims [simp]: "known_type K (add_dims d t) = known_type K t"
  by (simp add: known_type_def known_class_type_def is_internal_def is_intersection_def)

lemma known_resolved_args:
  "K b \<Longrightarrow> list_all (known_arg K) as \<Longrightarrow> known_type K (with_resolved_args b as)"
  by (simp add: with_resolved_args_def known_type_def known_class_type_def internal_type_def internal_with_args_def
        with_kind_def with_args_and_kind_def is_internal_def)

lemma known_intersection:
  assumes "list_all (known_type K) ts" "length ts > 1"
  shows "known_type K (intersection ts)"
proof -
  let ?part = "\<lambda>b. if is_intersection b then tn_args b else [b]"
  let ?flat = "concat (map ?part ts)"
  have part: "list_all (known_class_type K) (?part t) \<and> length (?part t) \<ge> 1" if "t \<in> set ts" for t
    using assms(1) that by (auto simp: known_type_def known_class_type_def is_internal_def is_intersection_def list_all_iff)
  have all: "list_all (known_class_type K) ?flat" using part by (auto simp: list_all_iff split: if_splits)
  obtain t1 t2 rest where ts: "ts = t1 # t2 # rest" using assms(2) by (cases ts; cases "tl ts") auto
  have "length ?flat \<ge> length (?part t1) + length (?part t2)" by (simp add: ts)
  moreover have "length (?part t1) \<ge> 1" "length (?part t2) \<ge> 1" using part ts by simp_all
  ultimately have "length ?flat \<ge> 2" by linarith
  then obtain a b l where fl: "?flat = a # b # l" by (cases ?flat; cases "tl ?flat") auto
  have "intersection ts = with_args_and_kind INTERSECTION_INTERNAL Intersection ?flat"
    unfolding intersection_def Let_def fl by simp
  with all fl show ?thesis by (simp add: known_type_def with_args_and_kind_def is_intersection_def)
qed

lemma those_SomeD: "those xs = Some ys \<Longrightarrow> list_all2 (\<lambda>x y. x = Some y) xs ys"
  by (induction xs arbitrary: ys) (auto split: option.splits)

lemma those_map_all:
  assumes "those (map f xs) = Some ys" "\<And>x y. x \<in> set xs \<Longrightarrow> f x = Some y \<Longrightarrow> P y"
  shows "list_all P ys \<and> length ys = length xs"
proof -
  have "list_all2 (\<lambda>x y. f x = Some y) xs ys" using those_SomeD [OF assms(1)] by (simp add: list_all2_map1)
  then show ?thesis using assms(2)
    by (simp add: list_all2_conv_all_nth list_all_length) (metis nth_mem)
qed

lemma find_map_SomeD: "find_map f xs = Some y \<Longrightarrow> \<exists>x\<in>set xs. f x = Some y"
  by (induction xs) (auto split: option.splits)

text \<open>A base name resolves to a class that is known; look-ups of a view return the class asked for.\<close>

lemma qualified_path_found:
  assumes "resolve_qualified_type_path h v p = Some c"
  obtains q where "view_get_class v q = Some c"
  using assms
  by (auto simp: resolve_qualified_type_path_def Let_def split: if_splits option.splits dest!: find_map_SomeD)

lemma simple_known:
  assumes "ctx_run ctx" "resolve_simple_strict ctx m = Some k"
  shows "class_known ctx k"
proof -
  have spec: "simple_spec ctx m = Some k" using source_caches_transparent [OF assms(1)] assms(2) by metis
  have f: "class_known ctx x" if "filter (class_known ctx) xs = x # ys" for x xs ys
  proof -
    have "x \<in> set (filter (class_known ctx) xs)" by (simp add: that)
    then show ?thesis by simp
  qed
  show ?thesis
  proof (cases "contains_char m (CHR ''/'')")
    case False
    let ?exact = "filter (class_known ctx) (single_import_candidates (tc_imports ctx) m)"
    let ?wild = "filter (class_known ctx) (wildcard_import_candidates (tc_imports ctx) m)"
    show ?thesis
    proof (cases ?exact)
      case Nil
      show ?thesis
      proof (cases ?wild)
        case none: Nil
        show ?thesis using spec False unfolding simple_spec_def Let_def Nil none by (auto split: if_splits)
      next
        case (Cons h hs)
        then show ?thesis using spec False f [OF Cons] unfolding simple_spec_def Let_def Nil Cons
          by (cases hs) (auto split: if_splits)
      qed
    next
      case (Cons h hs)
      then show ?thesis using spec False f [OF Cons] unfolding simple_spec_def Let_def Cons by (cases hs) auto
    qed
  qed (use spec in \<open>auto simp: simple_spec_def split: if_splits\<close>)
qed

lemma resolve_base_known:
  assumes run: "ctx_run ctx" and view: "\<And>v. tc_view ctx = Some v \<Longrightarrow> view_ok v"
    and base: "resolve_base_internal ctx b = Some n"
  shows "class_known ctx n"
proof -
  have ex: "exists_in ctx m = class_known ctx m" for m using source_caches_transparent [OF run] by blast
  have path: "class_known ctx (cm_internal_name c)"
    if v: "tc_view ctx = Some v" and r: "resolve_qualified_type_path h v p = Some c" for v h p c
  proof -
    obtain q where q: "view_get_class v q = Some c" by (rule qualified_path_found [OF r])
    then have "cm_internal_name c = q" by (rule view.get_name [OF view [OF v]])
    with q v show ?thesis by (simp add: class_known_def)
  qed
  have dotted: "class_known ctx m" if "resolve_dotted_parts ctx ps = Some m" for ps m
    using that by (auto simp: resolve_dotted_parts_def Let_def ex split: if_splits option.splits dest!: find_map_SomeD)
  show ?thesis
    using base simple_known [OF run] path dotted
    by (auto simp: resolve_base_internal_def ex Let_def split: if_splits option.splits)
qed

text \<open>The ways a type and a type argument resolve.\<close>

lemma strict_cases:
  assumes "resolve_type_name_strict_inner ctx ty = Some t"
  obtains (bounds) base dims ts where
      "type_parts ty = Some (base, dims)" "length (split_top_level_java_intersection_bounds base) > 1"
      "those (map (resolve_type_name_strict_inner ctx) (split_top_level_java_intersection_bounds base)) = Some ts"
      "t = add_dims dims (intersection ts)"
  | (plain) base dims bn n where
      "type_parts ty = Some (base, dims)" "\<not> length (split_top_level_java_intersection_bounds base) > 1"
      "split_java_generic_base base = Some (bn, None)" "resolve_base_internal ctx bn = Some n"
      "t = add_dims dims (internal_type n)"
  | (args) base dims bn n as ts where
      "type_parts ty = Some (base, dims)" "\<not> length (split_top_level_java_intersection_bounds base) > 1"
      "split_java_generic_base base = Some (bn, Some as)" "resolve_base_internal ctx bn = Some n"
      "those (map (resolve_type_arg_type ctx) (split_java_generic_args as)) = Some ts"
      "t = add_dims dims (with_resolved_args n ts)"
proof -
  obtain base dims where tp: "type_parts ty = Some (base, dims)"
    using assms by (auto simp: resolve_type_name_strict_inner.simps [of ctx ty] split: option.splits)
  note res = assms [unfolded resolve_type_name_strict_inner.simps [of ctx ty] tp option.case prod.case Let_def]
  show thesis
  proof (cases "length (split_top_level_java_intersection_bounds base) > 1")
    case True
    with res show thesis by (auto split: option.splits intro: bounds [OF tp])
  next
    case False
    then obtain bn as n where b: "split_java_generic_base base = Some (bn, as)" "resolve_base_internal ctx bn = Some n"
      using res by (auto split: option.splits)
    show thesis
    proof (cases as)
      case None
      with res False b show thesis by (intro plain [OF tp]) auto
    next
      case (Some a)
      with res False b obtain ts where "those (map (resolve_type_arg_type ctx) (split_java_generic_args a)) = Some ts"
        "t = add_dims dims (with_resolved_args n ts)"
        by (auto split: option.splits)
      with False b Some show thesis by (intro args [OF tp]) auto
    qed
  qed
qed

lemma arg_cases:
  assumes "resolve_type_arg_type ctx arg0 = Some u"
  obtains (unbounded) "trim arg0 = ''?''" "u = wildcard_type"
  | (extends) bound i where "trim arg0 \<noteq> []" "trim arg0 \<noteq> ''?''" "strip_prefix (trim arg0) ''? extends '' = Some bound"
      "resolve_type_arg_type ctx bound = Some i" "u = wildcard_extends i"
  | (super) bound i where "trim arg0 \<noteq> []" "trim arg0 \<noteq> ''?''" "strip_prefix (trim arg0) ''? extends '' = None"
      "strip_prefix (trim arg0) ''? super '' = Some bound"
      "resolve_type_arg_type ctx bound = Some i" "u = wildcard_super i"
  | (type) "trim arg0 \<noteq> []" "trim arg0 \<noteq> ''?''" "strip_prefix (trim arg0) ''? extends '' = None"
      "strip_prefix (trim arg0) ''? super '' = None" "resolve_type_name_strict_inner ctx (trim arg0) = Some u"
      "\<not> is_array u" "\<not> is_intersection u" "contains_char (erased_internal u) (CHR ''/'')"
proof -
  note res = assms [unfolded resolve_type_arg_type.simps [of ctx arg0] Let_def]
  show thesis
  proof (cases "trim arg0 = [] \<or> trim arg0 = ''?''")
    case True
    with res show thesis by (auto intro: unbounded)
  next
    case False
    show thesis
    proof (cases "strip_prefix (trim arg0) ''? extends ''")
      case (Some b)
      with res False show thesis by (auto intro: extends)
    next
      case no_extends: None
      with res False show thesis
        by (cases "strip_prefix (trim arg0) ''? super ''") (auto split: option.splits if_splits intro: super type)
    qed
  qed
qed

lemma strict_known:
  fixes ctx :: "'c source_type_ctx"
  shows "ctx_run ctx \<Longrightarrow> (\<And>v. tc_view ctx = Some v \<Longrightarrow> view_ok v) \<Longrightarrow>
      resolve_type_name_strict_inner ctx ty = Some t \<Longrightarrow> known_type (class_known ctx) t"
    "ctx_run ctx \<Longrightarrow> (\<And>v. tc_view ctx = Some v \<Longrightarrow> view_ok v) \<Longrightarrow>
      resolve_type_arg_type ctx arg = Some u \<Longrightarrow> known_arg (class_known ctx) u"
proof (induction ctx ty and ctx arg arbitrary: t and u
    rule: resolve_type_name_strict_inner_resolve_type_arg_type.induct)
  case (1 ctx ty)
  from 1(5) show ?case
  proof (cases rule: strict_cases)
    case (bounds base dims ts)
    have "list_all (known_type (class_known ctx)) ts
        \<and> length ts = length (split_top_level_java_intersection_bounds base)"
      by (rule those_map_all [OF bounds(3)]) (rule 1(1) [OF bounds(1) refl refl bounds(2) _ 1(3,4)])
    with bounds show ?thesis by (simp add: known_intersection)
  next
    case (plain base dims bn n)
    then show ?thesis
      using known_resolved_args [of "class_known ctx" n "[]"] resolve_base_known [OF 1(3,4) plain(4)]
      by (simp add: with_resolved_args_def)
  next
    case (args base dims bn n as ts)
    have "list_all (known_arg (class_known ctx)) ts \<and> length ts = length (split_java_generic_args as)"
      by (rule those_map_all [OF args(5)]) (rule 1(2) [OF args(1) refl refl args(2,3) refl args(4) refl _ 1(3,4)])
    with args(6) resolve_base_known [OF 1(3,4) args(4)] show ?thesis by (simp add: known_resolved_args)
  qed
next
  case (2 ctx arg0)
  from 2(6) show ?case
  proof (cases rule: arg_cases)
    case unbounded
    then show ?thesis by (simp add: wildcard_type_def with_kind_def)
  next
    case (extends bound i)
    have "known_arg (class_known ctx) i" by (rule 2(3) [OF refl extends(1-3) 2(4,5) extends(4)])
    then show ?thesis by (simp add: extends(5) wildcard_extends_def with_args_and_kind_def)
  next
    case (super bound i)
    have "known_arg (class_known ctx) i" by (rule 2(2) [OF refl super(1-4) 2(4,5) super(5)])
    then show ?thesis by (simp add: super(6) wildcard_super_def with_args_and_kind_def)
  next
    case type
    have "known_type (class_known ctx) u" by (rule 2(1) [OF refl type(1-4) 2(4,5) type(5)])
    with type(6-) show ?thesis
      by (cases u) (auto simp: known_type_def known_class_type_def is_internal_def is_intersection_def is_array_def)
  qed
qed

text \<open>
  C24. Types that resolve strictly are sound: every class in them is known, type arguments are wildcards or
  known classes of a package (no arrays, primitives or intersections), and an intersection has at
  least two bounds, none of them an intersection.
\<close>

theorem strict_types_sound:
  assumes "ctx_run ctx" "\<And>v. tc_view ctx = Some v \<Longrightarrow> view_ok v" "resolve_type_name_strict ctx ty = Some t"
  shows "known_type (class_known ctx) t"
  by (rule strict_known(1) [OF assms(1,2) assms(3) [unfolded resolve_type_name_strict_def]])

lemma collect_all_exact:
  assumes "those (map f xs) = Some ys" "\<And>x y. x \<in> set xs \<Longrightarrow> f x = Some y \<Longrightarrow> g x = Some (y, Exact)"
  shows "collect_relaxed (map g xs) = (ys, Exact)"
  using assms
proof (induction xs arbitrary: ys)
  case (Cons x xs)
  then obtain y zs where y: "f x = Some y" "those (map f xs) = Some zs" "ys = y # zs"
    by (auto split: option.splits)
  moreover have "collect_relaxed (map g xs) = (zs, Exact)" by (rule Cons.IH [OF y(2)]) (simp add: Cons.prems)
  ultimately show ?case using Cons.prems(2) [of x y]
    by (auto simp: collect_relaxed_def split: if_splits)
qed (simp add: collect_relaxed_def)

lemma relaxed_of_strict:
  "resolve_type_name_strict_inner ctx ty = Some t \<Longrightarrow> resolve_type_name_relaxed_inner ctx ty = Some (t, Exact)"
  "resolve_type_arg_type ctx arg = Some u \<Longrightarrow> resolve_type_arg_type_relaxed ctx arg = Some (u, Exact)"
proof (induction ctx ty and ctx arg arbitrary: t and u
    rule: resolve_type_name_strict_inner_resolve_type_arg_type.induct)
  case (1 ctx ty)
  note unfold = resolve_type_name_relaxed_inner.simps [of ctx ty]
  from 1(3) show ?case
  proof (cases rule: strict_cases)
    case (bounds base dims ts)
    have "collect_relaxed (map (resolve_type_name_relaxed_inner ctx) (split_top_level_java_intersection_bounds base))
        = (ts, Exact)"
      by (rule collect_all_exact [OF bounds(3)]) (rule 1(1) [OF bounds(1) refl refl bounds(2)])
    moreover have "ts \<noteq> []" using those_SomeD [OF bounds(3)] bounds(2) by auto
    ultimately show ?thesis using bounds by (simp add: unfold)
  next
    case (plain base dims bn n)
    then show ?thesis by (simp add: unfold)
  next
    case (args base dims bn n as ts)
    have "collect_relaxed (map (resolve_type_arg_type_relaxed ctx) (split_java_generic_args as)) = (ts, Exact)"
      by (rule collect_all_exact [OF args(5)]) (rule 1(2) [OF args(1) refl refl args(2,3) refl args(4) refl])
    with args show ?thesis by (simp add: unfold)
  qed
next
  case (2 ctx arg0)
  note unfold = resolve_type_arg_type_relaxed.simps [of ctx arg0]
  from 2(4) show ?case
  proof (cases rule: arg_cases)
    case (extends bound i)
    with 2(3) [OF refl extends(1-4)] show ?thesis by (simp add: unfold)
  next
    case (super bound i)
    with 2(2) [OF refl super(1-5)] show ?thesis by (simp add: unfold)
  next
    case type
    with 2(1) [OF refl type(1-5)] show ?thesis by (simp add: unfold)
  qed (simp add: unfold)
qed

text \<open>
  The relaxed resolver extends the strict one: a type that resolves strictly resolves to the same type
  with exact quality.
\<close>

theorem relaxed_extends_strict:
  assumes "resolve_type_name_strict ctx ty = Some t"
  shows "resolve_type_name_relaxed ctx ty = Some \<lparr>rtr_ty = t, rtr_quality = Exact\<rparr>"
  using assms by (simp add: resolve_type_name_strict_def resolve_type_name_relaxed_def relaxed_of_strict(1))

abbreviation numbers_ctx :: "unit source_type_ctx" where
  "numbers_ctx \<equiv> from_overview (Some ''app'') [''java.util.*'']
     (Some (map (\<lambda>n. (n, ())) [''java/util/List'', ''java/lang/Number'', ''app/A'', ''app/A$B'']))"

lemma numbers_type:
  "resolve_type_name_strict numbers_ctx ''final List<? extends Number>[]''
     = Some (add_dims 1 (internal_with_args ''java/util/List'' [wildcard_extends (internal_type ''java/lang/Number'')]))"
  by code_simp

theorem strict_types_sound_witness:
  "known_type (class_known numbers_ctx)
     (add_dims 1 (internal_with_args ''java/util/List'' [wildcard_extends (internal_type ''java/lang/Number'')]))"
  by (rule strict_types_sound [OF ctx_run.built [OF ctx_built.overview] _ numbers_type]) (simp add: from_overview_def)

theorem relaxed_extends_strict_witness:
  "resolve_type_name_relaxed numbers_ctx ''final List<? extends Number>[]''
     = Some \<lparr>rtr_ty = add_dims 1 (internal_with_args ''java/util/List'' [wildcard_extends (internal_type ''java/lang/Number'')]),
             rtr_quality = Exact\<rparr>"
  by (rule relaxed_extends_strict [OF numbers_type])

subsection \<open>What the resolvers leave out\<close>

text \<open>A dotted name is resolved in a type, is left with its dots in a descriptor and is split at
  every dot in a signature.\<close>

lemma dotted_names_disagree:
  "resolve_type_name_strict numbers_ctx ''A.B'' = Some (internal_type ''app/A$B'')"
  "to_descriptor numbers_ctx ''A.B'' = ''LA.B;''"
  "source_type_to_signature numbers_ctx ''A.B'' = ''LA/B;''"
  by code_simp+

lemma import_twice_is_ambiguous:
  "resolve_simple_strict (from_overview None [''a.Foo'', ''a.Foo''] (Some [(''a/Foo'', ())]) :: unit source_type_ctx)
     ''Foo'' = None"
  by code_simp

lemma nested_import_not_found:
  "resolve_simple_strict (from_overview None [''a.Map.Entry''] (Some [(''a/Map$Entry'', ())]) :: unit source_type_ctx)
     ''Entry'' = None"
  by code_simp

lemma trailing_array_brackets_lost:
  "build_java_descriptor ''(int a[])'' ''void'' numbers_ctx = ''(I)V''"
  by code_simp

text \<open>A generic type whose name has a letter outside ASCII (two bytes here) does not split.\<close>

lemma non_ascii_generic_not_split:
  "split_java_generic_base (CHR 0xC3 # CHR 0xA9 # ''<A>'') = None"
  by code_simp

subsection \<open>Descriptors of parameter lists\<close>

definition balanced :: "str \<Rightarrow> bool" where
  "balanced q \<longleftrightarrow> top_pieces (CHR '','') 0 q = [q] \<and> fold angle_depth q 0 = 0"

definition untrimmed :: "str \<Rightarrow> bool" where
  "untrimmed t \<longleftrightarrow> t \<noteq> [] \<and> \<not> is_ws (hd t) \<and> \<not> is_ws (last t)"

definition name_char :: "char \<Rightarrow> bool" where
  "name_char c \<longleftrightarrow> c \<notin> set ''<>,()'' \<and> \<not> is_ws c"

lemma name_charD: "name_char c \<Longrightarrow> c \<noteq> CHR ''<'' \<and> c \<noteq> CHR ''>'' \<and> c \<noteq> CHR '','' \<and> c \<noteq> CHR '')''
    \<and> \<not> is_ws c \<and> c \<noteq> CHR '' '' \<and> c \<noteq> CHR 0x09"
  unfolding name_char_def by (intro conjI notI) (simp_all add: is_ws_def)

text \<open>A parameter of a source: a type, whose commas are in brackets, and a name.\<close>

fun source_param :: "str \<times> str \<Rightarrow> bool" where
  "source_param (t, n) \<longleftrightarrow> balanced t \<and> untrimmed t \<and> hd t \<noteq> CHR ''('' \<and> n \<noteq> []
     \<and> list_all name_char n"

definition param_text :: "str \<times> str \<Rightarrow> str" where
  "param_text p = fst p @ '' '' @ snd p"

definition params_source :: "(str \<times> str) list \<Rightarrow> str" where
  "params_source ps = ''('' @ join '', '' (map param_text ps) @ '')''"

lemma top_pieces_append:
  assumes "top_pieces sep d a = [a]"
  shows "top_pieces sep d (a @ r) =
    (a @ hd (top_pieces sep (fold angle_depth a d) r)) # tl (top_pieces sep (fold angle_depth a d) r)"
  using assms
proof (induction a arbitrary: d)
  case (Cons c a)
  obtain p ps where p: "top_pieces sep (angle_depth c d) a = p # ps" by (meson neq_Nil_conv top_pieces_nonempty)
  from Cons.prems have "\<not> (c = sep \<and> d = 0)" by auto
  with Cons.prems p have "top_pieces sep (angle_depth c d) a = [a]" by auto
  from Cons.IH [OF this] \<open>\<not> (c = sep \<and> d = 0)\<close> show ?case by simp
qed simp

lemma top_pieces_none: "sep \<notin> set s \<Longrightarrow> top_pieces sep d s = [s]"
  by (induction s arbitrary: d) auto

lemma depth_none: "\<forall>c\<in>set s. c \<noteq> CHR ''<'' \<and> c \<noteq> CHR ''>'' \<Longrightarrow> fold angle_depth s d = d"
  by (induction s) (auto simp: angle_depth_def)

lemma balanced_append: "balanced a \<Longrightarrow> balanced b \<Longrightarrow> balanced (a @ b)"
  by (simp add: balanced_def top_pieces_append)

lemma balanced_param: "source_param p \<Longrightarrow> balanced (param_text p)"
proof -
  assume p: "source_param p"
  obtain t n where tn: "p = (t, n)" by fastforce
  have n: "\<forall>c\<in>set ('' '' @ n). c \<noteq> CHR ''<'' \<and> c \<noteq> CHR ''>'' \<and> c \<noteq> CHR '',''"
    using p tn name_charD by (auto simp: list_all_iff)
  then have "fold angle_depth ('' '' @ n) 0 = 0" "CHR '','' \<notin> set ('' '' @ n)" by (blast intro: depth_none)+
  then have "balanced ('' '' @ n)" by (simp only: balanced_def top_pieces_none simp_thms)
  with p show ?thesis by (simp add: param_text_def tn balanced_append)
qed

lemma top_pieces_join:
  assumes "list_all balanced (q # qs)"
  shows "top_pieces (CHR '','') 0 (join '', '' (q # qs)) = q # map (\<lambda>q. CHR '' '' # q) qs"
  using assms
proof (induction qs arbitrary: q)
  case (Cons r qs)
  have q: "balanced q" using Cons.prems by simp
  have "top_pieces (CHR '','') 0 (CHR '' '' # join '', '' (r # qs)) = (CHR '' '' # r) # map (\<lambda>q. CHR '' '' # q) qs"
    using Cons.IH [of r] Cons.prems by (simp add: angle_depth_def)
  then show ?case using q top_pieces_append [of "CHR '',''" 0 q "CHR '','' # CHR '' '' # join '', '' (r # qs)"]
    by (simp add: balanced_def)
qed (simp add: balanced_def)

lemma sep_from_end_name:
  "list_all name_char m \<Longrightarrow> sep_from_end 0 (m @ CHR '' '' # r) = Some (length m)"
  by (induction m) (auto dest: name_charD)

lemma extract_param:
  assumes "source_param (t, n)"
  shows "extract_param_type (param_text (t, n)) = t"
proof -
  have n: "list_all name_char (rev n)" and t: "untrimmed t"
    using assms by simp_all
  have "rev (param_text (t, n)) = rev n @ CHR '' '' # rev t" by (simp add: param_text_def)
  with sep_from_end_name [OF n] have "sep_from_end 0 (rev (param_text (t, n))) = Some (length n)" by simp
  moreover have "take (length (param_text (t, n)) - 1 - length n) (param_text (t, n)) = t"
    by (simp add: param_text_def)
  ultimately show ?thesis using trim_id [of t] t by (simp add: extract_param_type_def untrimmed_def)
qed

lemma untrimmed_param: "source_param p \<Longrightarrow> untrimmed (param_text p)"
  by (cases p; cases "snd p" rule: rev_cases) (auto simp: untrimmed_def param_text_def dest: name_charD)

lemma trim_untrimmed: "untrimmed q \<Longrightarrow> trim q = q" "untrimmed q \<Longrightarrow> trim (CHR '' '' # q) = q"
proof -
  assume q: "untrimmed q"
  then show "trim q = q" by (intro trim_id) (simp add: untrimmed_def)
  then show "trim (CHR '' '' # q) = q" by (simp add: trim_def trim_start_def is_ws_def)
qed

lemma join_ends:
  assumes "list_all source_param (p # ps)"
  shows "hd (join '', '' (map param_text (p # ps))) = hd (fst p)
    \<and> last (join '', '' (map param_text (p # ps))) = last (snd (last (p # ps)))
    \<and> join '', '' (map param_text (p # ps)) \<noteq> []"
  using assms
proof (induction ps arbitrary: p)
  case Nil
  then show ?case by (cases p) (auto simp: param_text_def untrimmed_def)
next
  case (Cons q ps)
  have "join '', '' (map param_text (p # q # ps)) = fst p @ '' '' @ snd p @ '', '' @ join '', '' (map param_text (q # ps))"
    by (simp add: param_text_def)
  moreover have "fst p \<noteq> []" using Cons.prems by (cases p) (auto simp: untrimmed_def)
  ultimately show ?case using Cons.IH [of q] Cons.prems by simp
qed

lemma name_last: "source_param p \<Longrightarrow> last (snd p) \<noteq> CHR '')'' \<and> \<not> is_ws (last (snd p))"
proof -
  assume "source_param p"
  then have "snd p \<noteq> []" "list_all name_char (snd p)"
    by (cases p; simp)+
  then have "name_char (last (snd p))" by (simp add: list_all_iff)
  then show ?thesis by (blast dest: name_charD)
qed

lemma params_source_inner:
  assumes "list_all source_param ps"
  shows "rev (dropWhile (\<lambda>c. c = CHR '')'') (rev (dropWhile (\<lambda>c. c = CHR ''('') (trim (params_source ps)))))
    = join '', '' (map param_text ps)"
proof -
  have t: "trim (params_source ps) = params_source ps"
    by (rule trim_id) (simp add: params_source_def is_ws_def)
  show ?thesis
  proof (cases ps)
    case Nil
    then show ?thesis unfolding t by (simp add: params_source_def)
  next
    case (Cons p qs)
    let ?j = "join '', '' (map param_text ps)"
    note ends = join_ends [OF assms [unfolded Cons]]
    have "source_param p" "source_param (last ps)" using assms by (auto simp: Cons list_all_iff)
    then have h: "hd ?j \<noteq> CHR ''(''" "last ?j \<noteq> CHR '')''" "?j \<noteq> []"
      using ends name_last [of "last ps"] by (cases p, auto simp: Cons)+
    have "dropWhile (\<lambda>c. c = CHR ''('') (params_source ps) = ?j @ '')''"
      using h by (cases ?j) (simp_all add: params_source_def)
    moreover have "dropWhile (\<lambda>c. c = CHR '')'') (rev ?j) = rev ?j"
      using h by (cases "rev ?j") (auto simp: hd_rev [symmetric])
    ultimately show ?thesis unfolding t by simp
  qed
qed

lemma split_params_source:
  assumes "list_all source_param ps" "ps \<noteq> []"
  shows "map (\<lambda>q. extract_param_type (trim q)) (split_params (join '', '' (map param_text ps))) = map fst ps"
proof -
  obtain p qs where ps: "ps = p # qs" using assms(2) by (cases ps) auto
  have "top_pieces (CHR '','') 0 (join '', '' (map param_text ps))
      = param_text p # map (\<lambda>q. CHR '' '' # q) (map param_text qs)"
    using top_pieces_join [of "param_text p" "map param_text qs"] assms(1) balanced_param
    by (auto simp: ps list_all_iff)
  moreover have "param_text p \<noteq> []" by (simp add: param_text_def)
  ultimately have "split_params (join '', '' (map param_text ps)) = param_text p # map (\<lambda>q. CHR '' '' # param_text q) qs"
    by (simp add: split_params_def drop_empty_tail_def last_map comp_def)
  moreover have "extract_param_type (trim (param_text q)) = fst q" "extract_param_type (trim (CHR '' '' # param_text q)) = fst q"
    if "q \<in> set ps" for q
  proof -
    have "source_param q" using assms(1) that by (simp add: list_all_iff)
    with untrimmed_param [of q] trim_untrimmed [of "param_text q"] extract_param [of "fst q" "snd q"]
    show "extract_param_type (trim (param_text q)) = fst q" "extract_param_type (trim (CHR '' '' # param_text q)) = fst q"
      by simp_all
  qed
  ultimately show ?thesis by (simp add: ps)
qed



end
