(* ===== verification/Semantic_Context.thy ===== *)
theory Semantic_Context
  imports Source_Laws Type_Resolver
begin

text \<open>
  The semantic context of a request (\<open>src/semantic/context.rs\<close>): where the cursor is, the locals,
  labels and members in sight, the enclosing classes, the imports and what later passes learn about
  types. The operations are its constructor, its builders and its queries. The name classification of
  \<open>src/semantic/names.rs\<close>, the search for an enclosing owner (\<open>src/semantic/enclosing.rs\<close>) and the
  direct superclass (\<open>src/language/java/super_support.rs\<close>) work on it.
\<close>

subsection \<open>Members of the current class\<close>

datatype current_class_member = MethodMember method_summary | FieldMember field_summary

fun member_name :: "current_class_member \<Rightarrow> str" where
  "member_name (MethodMember m) = ms_name m"
| "member_name (FieldMember f) = fs_name f"

fun member_descriptor :: "current_class_member \<Rightarrow> str" where
  "member_descriptor (MethodMember m) = method_desc m"
| "member_descriptor (FieldMember f) = fs_descriptor f"

fun member_access_flags :: "current_class_member \<Rightarrow> 16 word" where
  "member_access_flags (MethodMember m) = ms_access_flags m"
| "member_access_flags (FieldMember f) = fs_access_flags f"

definition ACC_PRIVATE :: "16 word" where "ACC_PRIVATE = 0x0002"

definition member_is_static :: "current_class_member \<Rightarrow> bool" where
  "member_is_static m \<longleftrightarrow> member_access_flags m AND ACC_STATIC \<noteq> 0"

definition member_is_private :: "current_class_member \<Rightarrow> bool" where
  "member_is_private m \<longleftrightarrow> member_access_flags m AND ACC_PRIVATE \<noteq> 0"

fun member_is_method :: "current_class_member \<Rightarrow> bool" where
  "member_is_method (MethodMember _) = True"
| "member_is_method (FieldMember _) = False"

fun member_is_field :: "current_class_member \<Rightarrow> bool" where
  "member_is_field (MethodMember _) = False"
| "member_is_field (FieldMember _) = True"

definition is_constructor_like :: "current_class_member \<Rightarrow> bool" where
  "is_constructor_like m \<longleftrightarrow> member_name m = ''<init>'' \<or> member_name m = ''<clinit>''"

subsection \<open>The place of the cursor\<close>

datatype access_receiver_kind = ReceiverUnknown | ReceiverExpression | ReceiverType str

datatype statement_label_completion_kind = LabelBreak | LabelContinue

datatype cursor_location =
  LImport str
| LImportStatic str
| LMemberAccess access_receiver_kind "type_name option" "str option" str str "str option"
| LConstructorCall str "str option" "str option" "str option"
| LTypeAnnotation str
| LMethodReference str str bool
| LMethodArgument str
| LExpression str
| LAnnotation str "str option"
| LAnnotationParam str "str option" "str list" bool
| LVariableName str
| LStringLiteral str
| LStatementLabel statement_label_completion_kind str
| LUnknown

fun member_access_receiver_semantic_type :: "cursor_location \<Rightarrow> type_name option" where
  "member_access_receiver_semantic_type (LMemberAccess _ semantic _ _ _ _) = semantic"
| "member_access_receiver_semantic_type _ = None"

fun member_access_receiver_kind :: "cursor_location \<Rightarrow> access_receiver_kind option" where
  "member_access_receiver_kind (LMemberAccess kind _ _ _ _ _) = Some kind"
| "member_access_receiver_kind _ = None"

fun member_access_receiver_class_internal :: "cursor_location \<Rightarrow> str option" where
  "member_access_receiver_class_internal (LMemberAccess (ReceiverType c) _ _ _ _ _) = Some c"
| "member_access_receiver_class_internal _ = None"

fun member_access_receiver_owner_internal :: "cursor_location \<Rightarrow> str option" where
  "member_access_receiver_owner_internal (LMemberAccess _ semantic receiver_type _ _ _) =
     (case semantic of Some ty \<Rightarrow> Some (erased_internal ty) | None \<Rightarrow> receiver_type)"
| "member_access_receiver_owner_internal _ = None"

fun member_access_prefix :: "cursor_location \<Rightarrow> str option" where
  "member_access_prefix (LMemberAccess _ _ _ prefix _ _) = Some prefix"
| "member_access_prefix _ = None"

fun member_access_expr :: "cursor_location \<Rightarrow> str option" where
  "member_access_expr (LMemberAccess _ _ _ _ expr _) = Some expr"
| "member_access_expr _ = None"

fun member_access_arguments :: "cursor_location \<Rightarrow> str option" where
  "member_access_arguments (LMemberAccess _ _ _ _ _ arguments) = arguments"
| "member_access_arguments _ = None"

fun constructor_prefix :: "cursor_location \<Rightarrow> str option" where
  "constructor_prefix (LConstructorCall prefix _ _ _) = Some prefix"
| "constructor_prefix _ = None"

fun constructor_qualifier_expr :: "cursor_location \<Rightarrow> str option" where
  "constructor_qualifier_expr (LConstructorCall _ _ qualifier _) = qualifier"
| "constructor_qualifier_expr _ = None"

fun constructor_qualifier_owner_internal :: "cursor_location \<Rightarrow> str option" where
  "constructor_qualifier_owner_internal (LConstructorCall _ _ _ owner) = owner"
| "constructor_qualifier_owner_internal _ = None"

subsection \<open>Statement labels\<close>

datatype statement_label_target_kind = LBlock | LWhile | LDoWhile | LFor | LEnhancedFor | LSwitch | LOther

definition is_break_target :: "statement_label_target_kind \<Rightarrow> bool" where
  "is_break_target k \<longleftrightarrow> k \<in> {LBlock, LWhile, LDoWhile, LFor, LEnhancedFor, LSwitch}"

definition is_continue_target :: "statement_label_target_kind \<Rightarrow> bool" where
  "is_continue_target k \<longleftrightarrow> k \<in> {LWhile, LDoWhile, LFor, LEnhancedFor}"

record statement_label =
  sl_name :: str
  sl_target_kind :: statement_label_target_kind

subsection \<open>Expected types\<close>

datatype expected_type_source = VariableInitializer | AssignmentRhs | ReturnExpr | ArgumentSource nat

datatype expected_type_confidence = ExpectedExact | ExpectedPartial

record expected_type =
  et_ty :: type_name
  et_source :: expected_type_source
  et_confidence :: expected_type_confidence

record functional_method_call_hint =
  mh_receiver_expr :: str
  mh_method_name :: str
  mh_arg_index :: nat
  mh_arg_texts :: "str list"

datatype method_ref_qualifier_kind = QualifierType | QualifierExpr | QualifierUnknown

datatype functional_expr_shape =
  ShapeMethodReference str str bool method_ref_qualifier_kind
| ShapeLambda nat "str option"

record functional_target_hint =
  th_expected_type_source :: "str option"
  th_expected_type_context :: "expected_type_source option"
  th_assignment_lhs_expr :: "str option"
  th_method_call :: "functional_method_call_hint option"
  th_expr_shape :: "functional_expr_shape option"

record sam_signature =
  sam_method_name :: str
  sam_param_types :: "type_name list"
  sam_return_type :: "type_name option"

record functional_compat =
  fc_status :: functional_compat_status
  fc_resolved_owner :: "type_name option"
  fc_resolved_return :: "type_name option"

record typed_expression_context =
  te_expected_type :: "expected_type option"
  te_receiver_type :: "type_name option"
  te_functional_compat :: "functional_compat option"

datatype typed_chain_confidence = ChainExact | ChainPartial

datatype typed_chain_receiver_mode = Concrete | WildcardUpperBound

record typed_chain_receiver =
  tr_receiver_ty :: type_name
  tr_confidence :: typed_chain_confidence
  tr_receiver_mode :: typed_chain_receiver_mode

datatype java_intrinsic_access_kind = ClassLiteral | ArrayLength | ObjectGetClass

datatype java_access_receiver_kind = AccessType | AccessExpression

datatype java_module_context_kind =
  DirectiveKeyword | RequiresModifier | RequiresModule | ExportsPackage | OpensPackage | TargetModule
| UsesType | ProvidesService | ProvidesImplementation

record java_intrinsic_access =
  ia_kind :: java_intrinsic_access_kind
  ia_receiver_kind :: java_access_receiver_kind

subsection \<open>The context\<close>

text \<open>
  An extension is a value of any type; the program reads it back as a \<open>SourceTypeCtx\<close> only, so every
  other value is one case. A language is its identifier.
\<close>

datatype 'c extension_value = SourceTypeExtension "'c source_type_ctx" | OtherExtension

record 'c semantic_context =
  sc_location :: cursor_location
  sc_local_variables :: "local_var list"
  sc_statement_labels :: "statement_label list"
  sc_active_lambda_param_names :: "str list"
  sc_enclosing_class :: "str option"
  sc_enclosing_internal_name :: "str option"
  sc_enclosing_class_chain :: "str list"
  sc_enclosing_package :: "str option"
  sc_existing_imports :: "str list"
  sc_static_imports :: "str list"
  sc_query :: str
  sc_current_class_members :: "(str, current_class_member) hash_map"
  sc_current_class_member_list :: "current_class_member list"
  sc_enclosing_class_member :: "current_class_member option"
  sc_char_after_cursor :: "char option"
  sc_file_uri :: "str option"
  sc_inferred_package :: "str option"
  sc_language_id :: str
  sc_is_class_member_position :: bool
  sc_functional_target_hint :: "functional_target_hint option"
  sc_typed_expr_ctx :: "typed_expression_context option"
  sc_typed_chain_receiver :: "typed_chain_receiver option"
  sc_java_intrinsic_access :: "java_intrinsic_access option"
  sc_java_module_context :: "java_module_context_kind option"
  sc_current_java_module_name :: "str option"
  sc_java_module_packages :: "str list"
  sc_java_module_names :: "str list"
  sc_expected_functional_interface :: "type_name option"
  sc_expected_sam :: "sam_signature option"
  sc_flow_type_overrides :: "(str, type_name) hash_map"
  sc_ext :: "'c extension_value option"

definition semantic_context_new ::
  "cursor_location \<Rightarrow> str \<Rightarrow> local_var list \<Rightarrow> str option \<Rightarrow> str option \<Rightarrow> str option \<Rightarrow> str list \<Rightarrow> 'c semantic_context" where
  "semantic_context_new location query locals enclosing_class enclosing_internal enclosing_package imports =
     \<lparr>sc_location = location, sc_local_variables = locals, sc_statement_labels = [],
      sc_active_lambda_param_names = [], sc_enclosing_class = enclosing_class,
      sc_enclosing_internal_name = enclosing_internal, sc_enclosing_class_chain = [],
      sc_enclosing_package = enclosing_package, sc_existing_imports = imports, sc_static_imports = [],
      sc_query = query, sc_current_class_members = [], sc_current_class_member_list = [],
      sc_enclosing_class_member = None, sc_char_after_cursor = None, sc_file_uri = None,
      sc_inferred_package = None, sc_language_id = ''unknown'', sc_is_class_member_position = False,
      sc_functional_target_hint = None, sc_typed_expr_ctx = None, sc_typed_chain_receiver = None,
      sc_java_intrinsic_access = None, sc_java_module_context = None, sc_current_java_module_name = None,
      sc_java_module_packages = [], sc_java_module_names = [], sc_expected_functional_interface = None,
      sc_expected_sam = None, sc_flow_type_overrides = [], sc_ext = None\<rparr>"

definition with_static_imports :: "str list \<Rightarrow> 'c semantic_context \<Rightarrow> 'c semantic_context" where
  "with_static_imports imports ctx = ctx\<lparr>sc_static_imports := imports\<rparr>"

definition with_active_lambda_param_names :: "str list \<Rightarrow> 'c semantic_context \<Rightarrow> 'c semantic_context" where
  "with_active_lambda_param_names names ctx = ctx\<lparr>sc_active_lambda_param_names := names\<rparr>"

definition with_statement_labels :: "statement_label list \<Rightarrow> 'c semantic_context \<Rightarrow> 'c semantic_context" where
  "with_statement_labels labels ctx = ctx\<lparr>sc_statement_labels := labels\<rparr>"

definition with_enclosing_class_chain :: "str list \<Rightarrow> 'c semantic_context \<Rightarrow> 'c semantic_context" where
  "with_enclosing_class_chain chain ctx = ctx\<lparr>sc_enclosing_class_chain := chain\<rparr>"

definition with_file_uri :: "str \<Rightarrow> 'c semantic_context \<Rightarrow> 'c semantic_context" where
  "with_file_uri uri ctx = ctx\<lparr>sc_file_uri := Some uri\<rparr>"

definition with_language_id :: "str \<Rightarrow> 'c semantic_context \<Rightarrow> 'c semantic_context" where
  "with_language_id language_id ctx = ctx\<lparr>sc_language_id := language_id\<rparr>"

definition with_class_member_position :: "bool \<Rightarrow> 'c semantic_context \<Rightarrow> 'c semantic_context" where
  "with_class_member_position p ctx = ctx\<lparr>sc_is_class_member_position := p\<rparr>"

definition with_functional_target_hint :: "functional_target_hint option \<Rightarrow> 'c semantic_context \<Rightarrow> 'c semantic_context" where
  "with_functional_target_hint hint ctx = ctx\<lparr>sc_functional_target_hint := hint\<rparr>"

definition with_typed_expression_context ::
  "typed_expression_context option \<Rightarrow> 'c semantic_context \<Rightarrow> 'c semantic_context" where
  "with_typed_expression_context typed ctx = ctx\<lparr>sc_typed_expr_ctx := typed\<rparr>"

definition with_java_module_context ::
  "java_module_context_kind option \<Rightarrow> 'c semantic_context \<Rightarrow> 'c semantic_context" where
  "with_java_module_context kind ctx = ctx\<lparr>sc_java_module_context := kind\<rparr>"

definition with_current_java_module_name :: "str option \<Rightarrow> 'c semantic_context \<Rightarrow> 'c semantic_context" where
  "with_current_java_module_name name ctx = ctx\<lparr>sc_current_java_module_name := name\<rparr>"

definition with_java_module_packages :: "str list \<Rightarrow> 'c semantic_context \<Rightarrow> 'c semantic_context" where
  "with_java_module_packages packages ctx = ctx\<lparr>sc_java_module_packages := packages\<rparr>"

definition with_java_module_names :: "str list \<Rightarrow> 'c semantic_context \<Rightarrow> 'c semantic_context" where
  "with_java_module_names names ctx = ctx\<lparr>sc_java_module_names := names\<rparr>"

definition with_extension :: "'c extension_value \<Rightarrow> 'c semantic_context \<Rightarrow> 'c semantic_context" where
  "with_extension ext ctx = ctx\<lparr>sc_ext := Some ext\<rparr>"

definition source_extension :: "'c semantic_context \<Rightarrow> 'c source_type_ctx option" where
  "source_extension ctx =
     (case sc_ext ctx of Some (SourceTypeExtension type_ctx) \<Rightarrow> Some type_ctx | _ \<Rightarrow> None)"

definition with_inferred_package :: "str \<Rightarrow> 'c semantic_context \<Rightarrow> 'c semantic_context" where
  "with_inferred_package pkg ctx = ctx\<lparr>sc_inferred_package := Some pkg\<rparr>"

definition effective_package :: "'c semantic_context \<Rightarrow> str option" where
  "effective_package ctx =
     (case sc_enclosing_package ctx of Some p \<Rightarrow> Some p | None \<Rightarrow> sc_inferred_package ctx)"

definition with_class_members :: "current_class_member list \<Rightarrow> 'c semantic_context \<Rightarrow> 'c semantic_context" where
  "with_class_members ms ctx =
     (let members = filter (\<lambda>m. \<not> is_constructor_like m) ms
      in ctx\<lparr>sc_current_class_members := fold (\<lambda>m. hinsert (member_name m) m) members [],
             sc_current_class_member_list := members\<rparr>)"

definition with_enclosing_member :: "current_class_member option \<Rightarrow> 'c semantic_context \<Rightarrow> 'c semantic_context" where
  "with_enclosing_member member ctx = ctx\<lparr>sc_enclosing_class_member := member\<rparr>"

definition is_in_static_context :: "'c semantic_context \<Rightarrow> bool" where
  "is_in_static_context ctx \<longleftrightarrow>
     (case sc_enclosing_class_member ctx of Some m \<Rightarrow> member_is_static m | None \<Rightarrow> False)"

definition with_char_after_cursor :: "char option \<Rightarrow> 'c semantic_context \<Rightarrow> 'c semantic_context" where
  "with_char_after_cursor c ctx = ctx\<lparr>sc_char_after_cursor := c\<rparr>"

definition with_flow_type_overrides :: "(str, type_name) hash_map \<Rightarrow> 'c semantic_context \<Rightarrow> 'c semantic_context" where
  "with_flow_type_overrides overrides ctx = ctx\<lparr>sc_flow_type_overrides := overrides\<rparr>"

definition flow_override_for_local :: "'c semantic_context \<Rightarrow> str \<Rightarrow> type_name option" where
  "flow_override_for_local ctx name = hget (sc_flow_type_overrides ctx) name"

definition visible_statement_labels :: "'c semantic_context \<Rightarrow> statement_label list" where
  "visible_statement_labels ctx = sc_statement_labels ctx"

definition is_followed_by_opener :: "'c semantic_context \<Rightarrow> bool" where
  "is_followed_by_opener ctx \<longleftrightarrow>
     (case sc_char_after_cursor ctx of Some c \<Rightarrow> c \<in> set ''(<{['' | None \<Rightarrow> False)"

text \<open>\<open>rsplit('/').next()\<close> and \<open>split('.').next()\<close>; both yield a piece for every text.\<close>

definition file_stem :: "'c semantic_context \<Rightarrow> str option" where
  "file_stem ctx = map_option (\<lambda>uri. takeWhile (\<lambda>c. c \<noteq> CHR ''.'') (last_piece (CHR ''/'') uri)) (sc_file_uri ctx)"

subsection \<open>Classified names\<close>

datatype expression_name_base = BaseLocal str | BaseField str str bool | BaseThis | BaseSuper | BaseValue

datatype name_classification =
  NPackage str | NType str type_name | NExpression type_name expression_name_base

fun type_internal :: "name_classification \<Rightarrow> str option" where
  "type_internal (NType n _) = Some n"
| "type_internal _ = None"

fun expression_type :: "name_classification \<Rightarrow> type_name option" where
  "expression_type (NExpression ty _) = Some ty"
| "expression_type _ = None"

fun into_qualifier_type :: "name_classification \<Rightarrow> type_name option" where
  "into_qualifier_type (NType _ ty) = Some ty"
| "into_qualifier_type (NExpression ty _) = Some ty"
| "into_qualifier_type (NPackage _) = None"

subsection \<open>Enclosing owners\<close>

text \<open>The chain lists the enclosing classes from the outermost inwards; the innermost hit wins.\<close>

definition resolve_owner_from_chain :: "str option \<Rightarrow> str list \<Rightarrow> str \<Rightarrow> str option" where
  "resolve_owner_from_chain package chain simple_name =
     (case position (\<lambda>n. n = simple_name) (rev chain) of
        None \<Rightarrow> None
      | Some k \<Rightarrow>
          Some ((case package of Some pkg \<Rightarrow> if pkg \<noteq> [] then pkg @ ''/'' else [] | None \<Rightarrow> [])
                @ join ''$'' (take (length chain - k) chain)))"

text \<open>
  The loop over the owners of a class has no bound: \<open>None\<close> is a loop that does not end,
  \<open>Some None\<close> is an end without a hit.
\<close>

partial_function (option) owner_loop :: "'c index_view \<Rightarrow> str \<Rightarrow> class_metadata \<Rightarrow> str option option" where
  "owner_loop v simple_name current =
     (if matches_simple_name current simple_name then Some (Some (cm_internal_name current))
      else case resolve_owner_class v (cm_internal_name current) of
        None \<Rightarrow> Some None
      | Some owner \<Rightarrow> owner_loop v simple_name owner)"

declare owner_loop.simps [code]

definition resolve_owner_from_index :: "'c index_view option \<Rightarrow> str option \<Rightarrow> str \<Rightarrow> str option option" where
  "resolve_owner_from_index view enclosing simple_name =
     (case view of None \<Rightarrow> Some None
      | Some v \<Rightarrow> (case enclosing of None \<Rightarrow> Some None
      | Some enc \<Rightarrow> (case view_get_class v enc of None \<Rightarrow> Some None
      | Some current \<Rightarrow> owner_loop v simple_name current)))"

definition resolve_enclosing_owner_internal ::
  "'c index_view option \<Rightarrow> str option \<Rightarrow> str option \<Rightarrow> str list \<Rightarrow> str \<Rightarrow> str option option" where
  "resolve_enclosing_owner_internal view enclosing package chain name =
     (let simple_name = trim name
      in if simple_name = [] then Some None
         else case resolve_owner_from_chain package chain simple_name of
           Some owner \<Rightarrow> Some (Some owner)
         | None \<Rightarrow> resolve_owner_from_index view enclosing simple_name)"

subsection \<open>The direct superclass\<close>

definition JAVA_LANG_OBJECT_INTERNAL :: str where
  "JAVA_LANG_OBJECT_INTERNAL = ''java/lang/Object''"

definition is_super_receiver_expr :: "str \<Rightarrow> bool" where
  "is_super_receiver_expr expr \<longleftrightarrow> trim expr = ''super''"

definition resolve_super_name :: "str \<Rightarrow> 'c source_type_ctx \<Rightarrow> str option" where
  "resolve_super_name raw0 type_ctx =
     (let raw = trim raw0
      in if raw = [] then None
         else if contains_char raw (CHR ''/'') then Some raw
         else case resolve_type_name_strict type_ctx raw of
           Some resolved \<Rightarrow> Some (erased_internal resolved)
         | None \<Rightarrow> resolve_simple_strict type_ctx raw)"

definition resolve_direct_super_owner_with_type_ctx ::
  "str option \<Rightarrow> 'c source_type_ctx option \<Rightarrow> 'c index_view \<Rightarrow> str option" where
  "resolve_direct_super_owner_with_type_ctx enclosing_internal type_ctx v =
     (case enclosing_internal of
        None \<Rightarrow> None
      | Some enclosing \<Rightarrow>
          (let resolve_raw = (\<lambda>raw. case type_ctx of None \<Rightarrow> None | Some tc \<Rightarrow> resolve_super_name raw tc);
               fallback = (if enclosing = JAVA_LANG_OBJECT_INTERNAL then None else Some JAVA_LANG_OBJECT_INTERNAL)
           in case (case type_ctx of None \<Rightarrow> None
                    | Some tc \<Rightarrow> (case tc_current_class_super_name tc of None \<Rightarrow> None | Some raw \<Rightarrow> resolve_raw raw)) of
                Some owner \<Rightarrow> Some owner
              | None \<Rightarrow>
                  (case view_get_class v enclosing of
                     None \<Rightarrow> fallback
                   | Some class_meta \<Rightarrow>
                       (case cm_super_name class_meta of
                          Some raw \<Rightarrow>
                            (case resolve_raw raw of
                               Some owner \<Rightarrow> Some owner
                             | None \<Rightarrow>
                                 if contains_char raw (CHR ''/'') \<or> view_get_class v raw \<noteq> None then Some raw else fallback)
                        | None \<Rightarrow> fallback))))"

definition resolve_direct_super_owner :: "'c semantic_context \<Rightarrow> 'c index_view \<Rightarrow> str option" where
  "resolve_direct_super_owner ctx v =
     resolve_direct_super_owner_with_type_ctx (sc_enclosing_internal_name ctx) (source_extension ctx) v"

definition resolve_direct_super_type_with_type_ctx ::
  "str option \<Rightarrow> 'c source_type_ctx option \<Rightarrow> 'c index_view \<Rightarrow> type_name option" where
  "resolve_direct_super_type_with_type_ctx enclosing_internal type_ctx v =
     map_option type_name_new (resolve_direct_super_owner_with_type_ctx enclosing_internal type_ctx v)"

definition resolve_direct_super_type :: "'c semantic_context \<Rightarrow> 'c index_view \<Rightarrow> type_name option" where
  "resolve_direct_super_type ctx v =
     resolve_direct_super_type_with_type_ctx (sc_enclosing_internal_name ctx) (source_extension ctx) v"

end
