(* ===== verification/Symbol_Resolver.thy ===== *)
theory Symbol_Resolver
  imports Semantic_Context
begin

text \<open>
  The symbol resolver (\<open>src/semantic/types/symbol_resolver.rs\<close>): the symbol at the cursor. Names are
  classified as packages, types or expressions, members are found over the hierarchy of a receiver, and
  type names are resolved through a cache.

  The state is the resolver: its view and its cache of type names. \<open>resolve_type_name_cached\<close> returns
  the resolver updated; the other operations use its result. A look-up over a hierarchy can panic on
  an archive whose indexes do not fit, hence \<open>rust_panic +\<close>. Where the search for an enclosing owner
  does not return, the model reads no owner; \<open>owner_search\<close> in \<open>Symbol_Laws\<close> says when that is.
\<close>

datatype resolved_symbol = SClass type_ref | SMethod method_ref | SField field_ref

type_synonym type_name_cache_key = "str \<times> str option \<times> str option"

record 'c symbol_resolver =
  sy_view :: "'c index_view"
  sy_type_names :: "(type_name_cache_key, str option) hash_map"

definition symbol_resolver_new :: "'c index_view \<Rightarrow> 'c symbol_resolver" where
  "symbol_resolver_new view = \<lparr>sy_view = view, sy_type_names = []\<rparr>"

subsection \<open>Identifiers and arguments\<close>

definition java_keywords :: "str list" where
  "java_keywords = [''public'', ''private'', ''protected'', ''static'', ''final'', ''abstract'', ''synchronized'',
     ''volatile'', ''transient'', ''native'', ''strictfp'', ''void'', ''int'', ''long'', ''double'', ''float'',
     ''boolean'', ''byte'', ''short'', ''char'', ''class'', ''interface'', ''enum'', ''extends'', ''implements'',
     ''return'', ''new'', ''this'', ''super'', ''null'', ''true'', ''false'', ''if'', ''else'', ''for'', ''while'',
     ''do'', ''switch'', ''case'', ''break'', ''continue'', ''default'', ''try'', ''catch'', ''finally'', ''throw'',
     ''throws'', ''import'', ''package'', ''instanceof'', ''assert'']"

definition is_java_keyword :: "str \<Rightarrow> bool" where
  "is_java_keyword name \<longleftrightarrow> name \<in> set java_keywords"

definition is_java_identifier_segment :: "str \<Rightarrow> bool" where
  "is_java_identifier_segment segment \<longleftrightarrow> segment \<noteq> [] \<and> \<not> is_java_keyword segment
     \<and> list_all (\<lambda>c. is_ascii_alphanumeric c \<or> c = CHR ''_'' \<or> c = CHR ''$'') segment"

definition is_name_head_segment :: "str \<Rightarrow> bool" where
  "is_name_head_segment segment \<longleftrightarrow>
     segment = ''this'' \<or> is_super_receiver_expr segment \<or> is_java_identifier_segment segment"

fun arg_pieces :: "int \<Rightarrow> str \<Rightarrow> str list" where
  "arg_pieces d [] = [[]]"
| "arg_pieces d (c # s) =
     (if c = CHR '','' \<and> d = 0 then [] # arg_pieces d s
      else (let d' = (if c \<in> set ''(<[{'' then d + 1 else if c \<in> set '')>]}'' then d - 1 else d)
            in case arg_pieces d' s of [] \<Rightarrow> [[c]] | p # ps \<Rightarrow> (c # p) # ps))"

definition split_args :: "str \<Rightarrow> str list" where
  "split_args s = filter (\<lambda>x. x \<noteq> []) (map trim (drop_empty_tail (arg_pieces 0 s)))"

definition field_type_name :: "field_ref \<Rightarrow> type_name option" where
  "field_type_name field =
     (case singleton_descriptor_to_type (fr_descriptor field) of
        Some ty \<Rightarrow> Some (type_name_new ty)
      | None \<Rightarrow> parse_single_type_to_internal (fr_descriptor field))"

subsection \<open>Members of a receiver\<close>

definition lookup_method_candidates :: "'c index_view \<Rightarrow> type_name \<Rightarrow> str \<Rightarrow> rust_panic + method_ref list" where
  "lookup_method_candidates v receiver name =
     map_ok (\<lambda>parts. map snd (fst (fold (push_new (\<lambda>(owner, m). (owner, mr_descriptor m))) (concat parts) ([], {}))))
       (try_map (\<lambda>bound. let owner = erased_internal bound
                         in map_ok (map (\<lambda>m. (owner, m))) (lookup_methods_in_hierarchy_refs v owner name))
         (bounds_for_lookup receiver))"

definition lookup_field_candidate :: "'c index_view \<Rightarrow> type_name \<Rightarrow> str \<Rightarrow> rust_panic + field_ref option" where
  "lookup_field_candidate v receiver name =
     try_find_map (\<lambda>bound. lookup_field_in_hierarchy_ref v (erased_internal bound) name) (bounds_for_lookup receiver)"

definition lookup_static_field_candidate :: "'c index_view \<Rightarrow> type_name \<Rightarrow> str \<Rightarrow> rust_panic + field_ref option" where
  "lookup_static_field_candidate v receiver name =
     map_ok (\<lambda>found. case found of
         None \<Rightarrow> None | Some f \<Rightarrow> if fr_access_flags f AND ACC_STATIC \<noteq> 0 then Some f else None)
       (lookup_field_candidate v receiver name)"

definition static_import_field ::
  "'c index_view \<Rightarrow> str \<Rightarrow> str \<Rightarrow> rust_panic + field_ref option" where
  "static_import_field v name imp =
     (case rsplit_once (CHR ''.'') imp of
        None \<Rightarrow> Inr None
      | Some (owner_dot, mem) \<Rightarrow>
          if mem \<noteq> ''*'' \<and> mem \<noteq> name then Inr None
          else lookup_static_field_candidate v (internal_type (dots_to_slashes owner_dot)) name)"

definition lookup_static_import_field ::
  "'c index_view \<Rightarrow> 'c semantic_context \<Rightarrow> str \<Rightarrow> rust_panic + field_ref option" where
  "lookup_static_import_field v ctx name =
     map_ok (\<lambda>found.
         let matches = fst (fold (push_new (\<lambda>f. (type_ref_internal_name (fr_owner f), fr_descriptor f)))
               (List.map_filter id found) ([], {}))
         in if length matches = 1 then Some (hd matches) else None)
       (try_map (static_import_field v name) (sc_static_imports ctx))"

definition resolve_member ::
  "'c index_view \<Rightarrow> 'c semantic_context \<Rightarrow> type_name \<Rightarrow> str \<Rightarrow> str option \<Rightarrow> rust_panic + resolved_symbol option" where
  "resolve_member v ctx receiver name arguments =
     (if name = [] then Inr None
      else and_then (lookup_method_candidates v receiver name) (\<lambda>candidates.
        case arguments of
          Some args \<Rightarrow>
            (let arg_text = rev (dropWhile (\<lambda>c. c = CHR '')'') (rev (dropWhile (\<lambda>c. c = CHR ''('') (trim args))));
                 arg_texts = split_args arg_text;
                 arg_count = (if trim arg_text = [] then 0 else length arg_texts)
             in and_then (try_map (\<lambda>arg. map_ok (\<lambda>t. case t of Some ty \<Rightarrow> ty | None \<Rightarrow> unknown_type)
                    (resolve v (sc_local_variables ctx) (sc_enclosing_internal_name ctx) (trim arg))) arg_texts)
                  (\<lambda>arg_types.
                    if candidates = [] then Inr None
                    else and_then (try_map (\<lambda>c. map_ok (map_option (Pair c)) (materialize_method v c)) candidates)
                      (\<lambda>made.
                        let materialized = List.map_filter id made
                        in Inr (case select_overload_match (map snd materialized) arg_count arg_types of
                             None \<Rightarrow> None
                           | Some chosen \<Rightarrow>
                               map_option (\<lambda>(c, _). SMethod c)
                                 (find (\<lambda>(_, summary). method_desc summary = method_desc (om_method chosen)) materialized)))))
        | None \<Rightarrow>
            and_then (lookup_field_candidate v receiver name) (\<lambda>field.
              Inr (case field of
                   Some f \<Rightarrow> Some (SField f)
                 | None \<Rightarrow> (case candidates of m # _ \<Rightarrow> Some (SMethod m) | [] \<Rightarrow> None)))))"

subsection \<open>Type names\<close>

definition resolve_enclosing_owner_type :: "'c index_view \<Rightarrow> 'c semantic_context \<Rightarrow> str \<Rightarrow> str option" where
  "resolve_enclosing_owner_type v ctx simple_name =
     (case resolve_enclosing_owner_internal (Some v) (sc_enclosing_internal_name ctx) (sc_enclosing_package ctx)
         (sc_enclosing_class_chain ctx) simple_name of
        Some owner \<Rightarrow> owner | None \<Rightarrow> None)"

definition resolve_in_type_ctx :: "'c source_type_ctx \<Rightarrow> str \<Rightarrow> str option" where
  "resolve_in_type_ctx type_ctx head =
     (case resolve_simple_strict type_ctx head of
        Some resolved \<Rightarrow> Some resolved
      | None \<Rightarrow> map_option erased_internal (resolve_type_name_strict type_ctx head))"

definition resolve_type_head :: "'c index_view \<Rightarrow> 'c semantic_context \<Rightarrow> str \<Rightarrow> str option" where
  "resolve_type_head v ctx head =
     (if contains_char head (CHR ''/'') then map_option cm_internal_name (view_get_class v head)
      else case (if contains_char head (CHR ''.'') then view_get_class v (dots_to_slashes head) else None) of
        Some cls \<Rightarrow> Some (cm_internal_name cls)
      | None \<Rightarrow>
      case resolve_enclosing_owner_type v ctx head of
        Some resolved \<Rightarrow> Some resolved
      | None \<Rightarrow>
      case (case source_extension ctx of Some type_ctx \<Rightarrow> resolve_in_type_ctx type_ctx head | None \<Rightarrow> None) of
        Some resolved \<Rightarrow> Some resolved
      | None \<Rightarrow>
      (case sc_enclosing_internal_name ctx of
         None \<Rightarrow> None
       | Some enclosing \<Rightarrow> map_option cm_internal_name (resolve_scoped_inner_class v enclosing head)))"

definition type_name_cache_key :: "'c semantic_context \<Rightarrow> str \<Rightarrow> type_name_cache_key" where
  "type_name_cache_key ctx name = (name, sc_enclosing_internal_name ctx, effective_package ctx)"

definition resolve_type_name_uncached :: "'c index_view \<Rightarrow> 'c semantic_context \<Rightarrow> str \<Rightarrow> str option" where
  "resolve_type_name_uncached v ctx name =
     (case resolve_qualified_type_path (resolve_type_head v ctx) v name of
        Some c \<Rightarrow> Some (cm_internal_name c)
      | None \<Rightarrow>
          if \<not> contains_char name (CHR ''.'') \<and> \<not> contains_char name (CHR ''/'') then resolve_type_head v ctx name
          else None)"

definition resolve_type_name_cached ::
  "'c semantic_context \<Rightarrow> str \<Rightarrow> 'c symbol_resolver \<Rightarrow> str option \<times> 'c symbol_resolver" where
  "resolve_type_name_cached ctx name r =
     (let key = type_name_cache_key ctx name
      in case hget (sy_type_names r) key of
           Some cached \<Rightarrow> (cached, r)
         | None \<Rightarrow>
             (let resolved = resolve_type_name_uncached (sy_view r) ctx name
              in (resolved, r\<lparr>sy_type_names := hinsert key resolved (sy_type_names r)\<rparr>)))"

definition resolve_type_name :: "'c symbol_resolver \<Rightarrow> 'c semantic_context \<Rightarrow> str \<Rightarrow> str option" where
  "resolve_type_name r ctx name = fst (resolve_type_name_cached ctx name r)"

subsection \<open>Classification of names\<close>

definition field_expression :: "field_ref \<Rightarrow> type_name \<Rightarrow> bool \<Rightarrow> name_classification" where
  "field_expression field ty static =
     NExpression ty (BaseField (type_ref_internal_name (fr_owner field)) (fr_name field) static)"

definition is_static_field :: "field_ref \<Rightarrow> bool" where
  "is_static_field field \<longleftrightarrow> fr_access_flags field AND ACC_STATIC \<noteq> 0"

text \<open>A field that was found and whose type is read from its descriptor.\<close>

definition typed_field :: "field_ref option \<Rightarrow> (field_ref \<times> type_name) option" where
  "typed_field found =
     (case found of None \<Rightarrow> None | Some f \<Rightarrow> map_option (Pair f) (field_type_name f))"

definition last_local :: "'c semantic_context \<Rightarrow> str \<Rightarrow> local_var option" where
  "last_local ctx name = find (\<lambda>l. lv_name l = name) (rev (sc_local_variables ctx))"

definition type_classification :: "str \<Rightarrow> name_classification" where
  "type_classification internal = NType internal (internal_type internal)"

definition package_classification :: "'c index_view \<Rightarrow> str \<Rightarrow> name_classification option" where
  "package_classification v package = (if view_has_package v package then Some (NPackage package) else None)"

definition classify_simple_name ::
  "'c symbol_resolver \<Rightarrow> 'c semantic_context \<Rightarrow> str \<Rightarrow> rust_panic + name_classification option" where
  "classify_simple_name r ctx name =
     (let v = sy_view r
      in if name = ''this'' then
           Inr (map_option (\<lambda>enc. NExpression (internal_type enc) BaseThis) (sc_enclosing_internal_name ctx))
         else if is_super_receiver_expr name then
           Inr (map_option (\<lambda>owner. NExpression (internal_type owner) BaseSuper) (resolve_direct_super_owner ctx v))
         else case last_local ctx name of
           Some local \<Rightarrow>
             Inr (Some (NExpression
               (case flow_override_for_local ctx name of Some ty \<Rightarrow> ty | None \<Rightarrow> lv_type_internal local)
               (BaseLocal (lv_name local))))
         | None \<Rightarrow>
           and_then (case sc_enclosing_internal_name ctx of
               None \<Rightarrow> Inr None
             | Some enclosing \<Rightarrow> map_ok typed_field (lookup_field_candidate v (internal_type enclosing) name))
           (\<lambda>own. case own of
              Some (field, ty) \<Rightarrow> Inr (Some (field_expression field ty (is_static_field field)))
            | None \<Rightarrow>
              and_then (lookup_static_import_field v ctx name) (\<lambda>imported.
                Inr (case typed_field imported of
                  Some (field, ty) \<Rightarrow> Some (field_expression field ty True)
                | None \<Rightarrow>
                  (case resolve_type_name r ctx name of
                     Some internal \<Rightarrow> Some (type_classification internal)
                   | None \<Rightarrow> package_classification v (dots_to_slashes name))))))"

definition advance_name_classification ::
  "'c index_view \<Rightarrow> name_classification \<Rightarrow> str \<Rightarrow> rust_panic + name_classification option" where
  "advance_name_classification v current segment =
     (if \<not> is_java_identifier_segment segment then Inr None
      else case current of
        NPackage package \<Rightarrow>
          (let next = package @ ''/'' @ segment
           in Inr (if view_has_package v next then Some (NPackage next)
                   else map_option (\<lambda>class. type_classification (cm_internal_name class)) (view_get_class v next)))
      | NType internal ty \<Rightarrow>
          and_then (map_ok typed_field (lookup_static_field_candidate v ty segment)) (\<lambda>found.
            Inr (case found of
                 Some (field, field_ty) \<Rightarrow> Some (field_expression field field_ty True)
               | None \<Rightarrow>
                   map_option (\<lambda>inner. type_classification (type_ref_internal_name inner))
                     (lookup_member_type_ref_in_hierarchy v internal segment)))
      | NExpression ty _ \<Rightarrow>
          if is_array ty \<and> segment = ''length'' then Inr (Some (NExpression (type_name_new ''int'') BaseValue))
          else map_ok (\<lambda>found. map_option (\<lambda>(field, field_ty). field_expression field field_ty (is_static_field field))
                 (typed_field found)) (lookup_field_candidate v ty segment))"

fun advance_all ::
  "'c index_view \<Rightarrow> name_classification \<Rightarrow> str list \<Rightarrow> rust_panic + name_classification option" where
  "advance_all v current [] = Inr (Some current)"
| "advance_all v current (segment # segments) =
     and_then (advance_name_classification v current segment) (\<lambda>step.
       case step of None \<Rightarrow> Inr None | Some next \<Rightarrow> advance_all v next segments)"

text \<open>The answer when the segments of a name cannot be followed.\<close>

definition whole_name_fallback ::
  "'c symbol_resolver \<Rightarrow> 'c semantic_context \<Rightarrow> str \<Rightarrow> name_classification option" where
  "whole_name_fallback r ctx name =
     (case resolve_type_name r ctx name of
        Some internal \<Rightarrow> Some (type_classification internal)
      | None \<Rightarrow> package_classification (sy_view r) (dots_to_slashes name))"

definition classify_name ::
  "'c symbol_resolver \<Rightarrow> 'c semantic_context \<Rightarrow> str \<Rightarrow> rust_panic + name_classification option" where
  "classify_name r ctx name0 =
     (let name = trim name0; v = sy_view r
      in if name = [] then Inr None
         else if contains_char name (CHR ''/'') then
           Inr (case view_get_class v name of
                Some class \<Rightarrow> Some (type_classification (cm_internal_name class))
              | None \<Rightarrow> package_classification v name)
         else case filter (\<lambda>segment. segment \<noteq> []) (split_char (CHR ''.'') name) of
           [] \<Rightarrow> Inr None
         | head # parts \<Rightarrow>
             if \<not> is_name_head_segment head \<or> \<not> list_all is_java_identifier_segment parts
             then Inr (whole_name_fallback r ctx name)
             else and_then (classify_simple_name r ctx head) (\<lambda>first.
               case first of
                 None \<Rightarrow> Inr (whole_name_fallback r ctx name)
               | Some current \<Rightarrow>
                   map_ok (\<lambda>res. case res of Some c \<Rightarrow> Some c | None \<Rightarrow> whole_name_fallback r ctx name)
                     (advance_all v current parts)))"

subsection \<open>The symbol at the cursor\<close>

definition resolve_bare_id ::
  "'c symbol_resolver \<Rightarrow> 'c semantic_context \<Rightarrow> str \<Rightarrow> rust_panic + resolved_symbol option" where
  "resolve_bare_id r ctx ident =
     and_then (classify_name r ctx ident) (\<lambda>classified.
       case classified of
         None \<Rightarrow> Inr None
       | Some (NPackage _) \<Rightarrow> Inr None
       | Some (NType internal _) \<Rightarrow> Inr (Some (SClass (TypeSource internal)))
       | Some (NExpression ty (BaseField owner name _)) \<Rightarrow>
           map_ok (map_option SField) (lookup_field_in_hierarchy_ref (sy_view r) owner name)
       | Some (NExpression ty _) \<Rightarrow>
           (let base = erased_internal ty
            in Inr (Some (SClass (TypeSource
                 (case resolve_type_name r ctx base of Some resolved \<Rightarrow> resolved | None \<Rightarrow> base))))))"

definition constructor_type :: "str \<Rightarrow> str option" where
  "constructor_type expr =
     (case strip_prefix expr ''new '' of
        None \<Rightarrow> None
      | Some rest \<Rightarrow>
          (let ty = trim (takeWhile (\<lambda>c. c \<notin> set ''(<[{'') rest) in if ty = [] then None else Some ty))"

definition infer_receiver_type ::
  "'c symbol_resolver \<Rightarrow> 'c semantic_context \<Rightarrow> str \<Rightarrow> rust_panic + type_name option" where
  "infer_receiver_type r ctx expr =
     (case (case constructor_type expr of None \<Rightarrow> None | Some ty \<Rightarrow> resolve_type_name r ctx ty) of
        Some internal \<Rightarrow> Inr (Some (internal_type internal))
      | None \<Rightarrow>
          if expr = [] then Inr (map_option internal_type (sc_enclosing_internal_name ctx))
          else and_then (classify_name r ctx expr) (\<lambda>classified.
            Inr (case classified of
                 Some c \<Rightarrow> into_qualifier_type c
               | None \<Rightarrow>
                   (let as_internal = dots_to_slashes expr
                    in map_option (\<lambda>_. internal_type as_internal) (view_get_class (sy_view r) as_internal)))))"

definition resolve_class_symbol ::
  "'c symbol_resolver \<Rightarrow> 'c semantic_context \<Rightarrow> str \<Rightarrow> resolved_symbol option" where
  "resolve_class_symbol r ctx prefix =
     map_option (\<lambda>n. SClass (TypeSource n)) (resolve_type_name r ctx prefix)"

definition resolve_symbol ::
  "'c symbol_resolver \<Rightarrow> 'c semantic_context \<Rightarrow> rust_panic + resolved_symbol option" where
  "resolve_symbol r ctx =
     (let v = sy_view r
      in case sc_location ctx of
        LMemberAccess kind semantic receiver_type member_prefix receiver_expr arguments \<Rightarrow>
          (case member_access_receiver_class_internal (sc_location ctx) of
             Some class_internal \<Rightarrow>
               and_then (resolve_member v ctx (internal_type class_internal) member_prefix arguments) (\<lambda>found.
                 Inr (case found of
                      Some resolved_member \<Rightarrow> Some resolved_member
                    | None \<Rightarrow>
                        if arguments = None
                        then map_option SClass (lookup_member_type_ref_in_hierarchy v class_internal member_prefix)
                        else None))
           | None \<Rightarrow>
               and_then (case semantic of
                   Some ty \<Rightarrow> Inr (Some ty)
                 | None \<Rightarrow> (case receiver_type of
                     Some t \<Rightarrow> Inr (Some (type_name_new t))
                   | None \<Rightarrow> infer_receiver_type r ctx receiver_expr))
                 (\<lambda>receiver. case receiver of
                    None \<Rightarrow> Inr None | Some ty \<Rightarrow> resolve_member v ctx ty member_prefix arguments))
      | LExpression prefix \<Rightarrow> if prefix = [] then Inr None else resolve_bare_id r ctx prefix
      | LConstructorCall class_prefix _ _ qualifier_owner \<Rightarrow>
          Inr (if class_prefix = [] then None
               else case (case qualifier_owner of None \<Rightarrow> None
                          | Some owner \<Rightarrow> lookup_member_type_ref_in_hierarchy v owner class_prefix) of
                 Some inner \<Rightarrow> Some (SClass inner)
               | None \<Rightarrow> resolve_class_symbol r ctx class_prefix)
      | LTypeAnnotation prefix \<Rightarrow> Inr (if prefix = [] then None else resolve_class_symbol r ctx prefix)
      | LAnnotation prefix _ \<Rightarrow> Inr (if prefix = [] then None else resolve_class_symbol r ctx prefix)
      | _ \<Rightarrow> Inr None)"

end
