(* ===== verification/Symbol_Laws.thy ===== *)
theory Symbol_Laws
  imports Symbol_Resolver
begin

text \<open>
  Laws of the symbol resolver: when the search for an enclosing owner returns and what it finds; a
  field that a name denotes is found again from its owner, so that a field name always resolves to a
  field symbol; the cache of type names is transparent for one context.
\<close>

subsection \<open>Enclosing owners\<close>

text \<open>The owners of a class, each the one that the view names for the class before.\<close>

fun owner_path :: "'c index_view \<Rightarrow> class_metadata \<Rightarrow> class_metadata list \<Rightarrow> bool" where
  "owner_path v c [] = True"
| "owner_path v c (p # ps) \<longleftrightarrow> resolve_owner_class v (cm_internal_name c) = Some p \<and> owner_path v p ps"

text \<open>A path that ends at the first class of the name, and one that ends at a class with no owner.\<close>

definition finds_owner :: "'c index_view \<Rightarrow> str \<Rightarrow> class_metadata \<Rightarrow> class_metadata list \<Rightarrow> bool" where
  "finds_owner v s c ps \<longleftrightarrow> owner_path v c ps \<and> matches_simple_name (last (c # ps)) s
     \<and> (\<forall>x\<in>set (butlast (c # ps)). \<not> matches_simple_name x s)"

definition runs_out :: "'c index_view \<Rightarrow> str \<Rightarrow> class_metadata \<Rightarrow> class_metadata list \<Rightarrow> bool" where
  "runs_out v s c ps \<longleftrightarrow> owner_path v c ps \<and> resolve_owner_class v (cm_internal_name (last (c # ps))) = None
     \<and> (\<forall>x\<in>set (c # ps). \<not> matches_simple_name x s)"

lemma path_ends_Cons:
  assumes "\<not> matches_simple_name c s" "resolve_owner_class v (cm_internal_name c) = Some p"
  shows "finds_owner v s p ps \<Longrightarrow> finds_owner v s c (p # ps)" "runs_out v s p ps \<Longrightarrow> runs_out v s c (p # ps)"
  using assms by (auto simp: finds_owner_def runs_out_def)

lemma owner_loop_finds: "finds_owner v s c ps \<Longrightarrow> owner_loop v s c = Some (Some (cm_internal_name (last (c # ps))))"
proof (induction ps arbitrary: c)
  case Nil
  then show ?case by (subst owner_loop.simps) (simp add: finds_owner_def)
next
  case (Cons p ps)
  then have "finds_owner v s p ps" by (auto simp: finds_owner_def)
  with Cons show ?case by (subst owner_loop.simps) (auto simp: finds_owner_def)
qed

lemma owner_loop_runs_out: "runs_out v s c ps \<Longrightarrow> owner_loop v s c = Some None"
proof (induction ps arbitrary: c)
  case Nil
  then show ?case by (subst owner_loop.simps) (simp add: runs_out_def)
next
  case (Cons p ps)
  then have "runs_out v s p ps" by (auto simp: runs_out_def)
  with Cons show ?case by (subst owner_loop.simps) (auto simp: runs_out_def)
qed

lemma owner_loop_returns:
  assumes "owner_loop v s c = Some r"
  shows "\<exists>ps. r = Some (cm_internal_name (last (c # ps))) \<and> finds_owner v s c ps \<or> r = None \<and> runs_out v s c ps"
proof (rule owner_loop.raw_induct [where P = "\<lambda>v s c r. \<exists>ps. r = Some (cm_internal_name (last (c # ps)))
    \<and> finds_owner v s c ps \<or> r = None \<and> runs_out v s c ps", OF _ assms])
  fix loop v s c r
  assume ih: "\<And>v s c r. loop v s c = Some r \<Longrightarrow>
      \<exists>ps. r = Some (cm_internal_name (last (c # ps))) \<and> finds_owner v s c ps \<or> r = None \<and> runs_out v s c ps"
    and res: "(if matches_simple_name c s then Some (Some (cm_internal_name c))
      else case resolve_owner_class v (cm_internal_name c) of None \<Rightarrow> Some None | Some owner \<Rightarrow> loop v s owner) = Some r"
  show "\<exists>ps. r = Some (cm_internal_name (last (c # ps))) \<and> finds_owner v s c ps \<or> r = None \<and> runs_out v s c ps"
  proof (cases "matches_simple_name c s")
    case True
    with res show ?thesis by (intro exI [of _ "[]"]) (simp add: finds_owner_def)
  next
    case no: False
    show ?thesis
    proof (cases "resolve_owner_class v (cm_internal_name c)")
      case None
      with no res show ?thesis by (intro exI [of _ "[]"]) (auto simp: runs_out_def)
    next
      case (Some p)
      with no res have "loop v s p = Some r" by simp
      from ih [OF this] obtain ps where "r = Some (cm_internal_name (last (p # ps))) \<and> finds_owner v s p ps
          \<or> r = None \<and> runs_out v s p ps" by blast
      with path_ends_Cons [OF no Some] show ?thesis by (intro exI [of _ "p # ps"]) auto
    qed
  qed
qed

lemma first_match:
  assumes "owner_path v c ps" "x \<in> set (c # ps)" "matches_simple_name x s"
  shows "\<exists>qs. finds_owner v s c qs"
  using assms
proof (induction ps arbitrary: c)
  case Nil
  then show ?case by (intro exI [of _ "[]"]) (simp add: finds_owner_def)
next
  case (Cons p ps)
  show ?case
  proof (cases "matches_simple_name c s")
    case True
    then show ?thesis by (intro exI [of _ "[]"]) (simp add: finds_owner_def)
  next
    case False
    with Cons.prems have "x \<in> set (p # ps)" by auto
    with Cons obtain qs where "finds_owner v s p qs" by auto
    from path_ends_Cons(1) [OF False _ this] Cons.prems(1) show ?thesis by auto
  qed
qed

text \<open>
  C27. The search of the index for an enclosing owner returns a name exactly when the chain of owners reaches
  a class of that name, and it is that of the first such class; it returns nothing exactly when the chain
  ends before; and it does not return exactly when every part of the chain goes on without a class of
  the name, as with two classes that own each other.
\<close>

theorem owner_search:
  assumes "view_get_class v enclosing = Some c"
  shows "(resolve_owner_from_index (Some v) (Some enclosing) s = Some (Some n)
        \<longleftrightarrow> (\<exists>ps. finds_owner v s c ps \<and> n = cm_internal_name (last (c # ps))))
    \<and> (resolve_owner_from_index (Some v) (Some enclosing) s = Some None \<longleftrightarrow> (\<exists>ps. runs_out v s c ps))
    \<and> (resolve_owner_from_index (Some v) (Some enclosing) s = None
        \<longleftrightarrow> (\<forall>ps. owner_path v c ps \<longrightarrow> (\<forall>x\<in>set (c # ps). \<not> matches_simple_name x s)
              \<and> resolve_owner_class v (cm_internal_name (last (c # ps))) \<noteq> None))"
proof -
  have loop: "resolve_owner_from_index (Some v) (Some enclosing) s = owner_loop v s c"
    by (simp add: resolve_owner_from_index_def assms)
  have found: "owner_loop v s c = Some (Some n) \<longleftrightarrow> (\<exists>ps. finds_owner v s c ps \<and> n = cm_internal_name (last (c # ps)))"
  proof
    assume "owner_loop v s c = Some (Some n)"
    from owner_loop_returns [OF this] show "\<exists>ps. finds_owner v s c ps \<and> n = cm_internal_name (last (c # ps))"
      by (elim ex_forward) simp
  qed (elim exE conjE, simp only: owner_loop_finds)
  have ended: "owner_loop v s c = Some None \<longleftrightarrow> (\<exists>ps. runs_out v s c ps)"
  proof
    assume "owner_loop v s c = Some None"
    from owner_loop_returns [OF this] show "\<exists>ps. runs_out v s c ps" by (elim ex_forward) simp
  qed (elim exE, simp only: owner_loop_runs_out)
  have "owner_loop v s c = None \<longleftrightarrow> (\<nexists>ps. finds_owner v s c ps) \<and> (\<nexists>ps. runs_out v s c ps)"
    (is "?none \<longleftrightarrow> ?never")
  proof
    show "?never" if "?none" using that owner_loop_finds [of v s c] owner_loop_runs_out [of v s c]
      by (simp, metis option.distinct(1))
    show "?none" if "?never" using that owner_loop_returns [of v s c]
      by (cases "owner_loop v s c") metis+
  qed
  also have "\<dots> \<longleftrightarrow> (\<forall>ps. owner_path v c ps \<longrightarrow> (\<forall>x\<in>set (c # ps). \<not> matches_simple_name x s)
              \<and> resolve_owner_class v (cm_internal_name (last (c # ps))) \<noteq> None)"
    (is "_ \<longleftrightarrow> ?on")
  proof
    assume no: "(\<nexists>ps. finds_owner v s c ps) \<and> (\<nexists>ps. runs_out v s c ps)"
    show ?on
    proof (intro allI impI conjI)
      fix ps assume path: "owner_path v c ps"
      from first_match [OF path] no show unmatched: "\<forall>x\<in>set (c # ps). \<not> matches_simple_name x s" by blast
      from no path unmatched show "resolve_owner_class v (cm_internal_name (last (c # ps))) \<noteq> None"
        unfolding runs_out_def by (metis (no_types, lifting))
    qed
  next
    assume on: ?on
    have "\<not> finds_owner v s c ps" for ps
      using on [rule_format, of ps, THEN conjunct1, rule_format, of "last (c # ps)"] last_in_set [of "c # ps"]
      by (auto simp: finds_owner_def)
    moreover have "\<not> runs_out v s c ps" for ps
      using on [rule_format, of ps, THEN conjunct2] by (auto simp: runs_out_def)
    ultimately show "(\<nexists>ps. finds_owner v s c ps) \<and> (\<nexists>ps. runs_out v s c ps)" by simp
  qed
  finally show ?thesis using found ended unfolding loop by blast
qed

text \<open>Two classes that own each other.\<close>

definition owned_class :: "str \<Rightarrow> str \<Rightarrow> class_metadata" where
  "owned_class n owner = (plain_class None n n UnknownOrigin)\<lparr>cm_inner_class_of := Some owner\<rparr>"

lemma owned_class_simps [simp]:
  "cm_internal_name (owned_class n q) = n" "cm_inner_class_of (owned_class n q) = Some q"
  "matches_simple_name (owned_class n q) s \<longleftrightarrow> n = s"
  by (simp_all add: owned_class_def plain_class_def matches_simple_name_def direct_name_def)

abbreviation loop_view :: "(str, members) hash_map index_view" where
  "loop_view \<equiv> sample_view [[owned_class ''A'' ''B'', owned_class ''B'' ''A'']]"

lemma loop_view_classes:
  "view_get_class loop_view ''A'' = Some (owned_class ''A'' ''B'')"
  "view_get_class loop_view ''B'' = Some (owned_class ''B'' ''A'')"
  by (simp_all add: sample_get_class map_filter_simps best_def)

lemma loop_view_owners:
  "resolve_owner_class loop_view ''A'' = Some (owned_class ''B'' ''A'')"
  "resolve_owner_class loop_view ''B'' = Some (owned_class ''A'' ''B'')"
  by (simp_all add: resolve_owner_class_def loop_view_classes)

theorem owner_search_witness:
  "resolve_owner_from_index (Some loop_view) (Some ''A'') ''C'' = None
   \<and> resolve_owner_from_index (Some loop_view) (Some ''A'') ''B'' = Some (Some ''B'')"
proof -
  let ?loop = "{owned_class ''A'' ''B'', owned_class ''B'' ''A''}"
  have in_loop: "set (c # ps) \<subseteq> ?loop" if "owner_path loop_view c ps" "c \<in> ?loop" for c ps
    using that
  proof (induction ps arbitrary: c)
    case (Cons p ps)
    then have "p \<in> ?loop" using loop_view_owners by auto
    with Cons show ?case by auto
  qed simp
  have "(\<forall>x\<in>set (c # ps). \<not> matches_simple_name x ''C'')
      \<and> resolve_owner_class loop_view (cm_internal_name (last (c # ps))) \<noteq> None"
    if "owner_path loop_view c ps" "c \<in> ?loop" for c ps
  proof -
    have "last (c # ps) \<in> ?loop" using in_loop [OF that] last_in_set [of "c # ps"] by blast
    with in_loop [OF that] loop_view_owners show ?thesis by auto
  qed
  then have "resolve_owner_from_index (Some loop_view) (Some ''A'') ''C'' = None"
    by (intro owner_search [OF loop_view_classes(1), of "''C''", THEN conjunct2, THEN conjunct2, THEN iffD2]) simp
  moreover have "finds_owner loop_view ''B'' (owned_class ''A'' ''B'') [owned_class ''B'' ''A'']"
    using loop_view_owners by (simp add: finds_owner_def)
  then have "\<exists>ps. finds_owner loop_view ''B'' (owned_class ''A'' ''B'') ps
      \<and> ''B'' = cm_internal_name (last (owned_class ''A'' ''B'' # ps))"
    by (intro exI [of _ "[owned_class ''B'' ''A'']"]) simp
  with owner_search [OF loop_view_classes(1), of "''B''" "''B''", THEN conjunct1]
  have "resolve_owner_from_index (Some loop_view) (Some ''A'') ''B'' = Some (Some ''B'')" by (rule iffD2)
  ultimately show ?thesis by (rule conjI)
qed

subsection \<open>Fields\<close>

text \<open>What a reference to a field says of the field.\<close>

definition field_ref_of :: "class_metadata \<Rightarrow> field_ref \<Rightarrow> field_summary \<Rightarrow> bool" where
  "field_ref_of c f s \<longleftrightarrow> type_ref_internal_name (fr_owner f) = cm_internal_name c \<and> fr_name f = fs_name s
     \<and> fr_descriptor f = fs_descriptor s \<and> fr_access_flags f = fs_access_flags s"

abbreviation field_named :: "str \<Rightarrow> class_metadata \<Rightarrow> field_summary option" where
  "field_named name c \<equiv> find (\<lambda>f. fs_name f = name) (cm_fields c)"

lemma field_step:
  assumes "view_ok v" "found_ref v ref c" "field_ref_at v name ref = Inr found"
  shows "rel_option (field_ref_of c) found (field_named name c)"
proof -
  obtain t where t: "type_ref_from_class_ref v ref = Some t" "type_ref_internal_name t = cm_internal_name c"
    by (rule found_type_ref [OF assms(2)])
  show ?thesis
  proof (cases ref)
    case (OverlayRef b n)
    have "resolve_class_ref v ref = Some c" using assms(2) by (auto simp: found_ref_def dest: ref_ofD(1))
    with OverlayRef assms(3) t show ?thesis
      by (auto simp: field_ref_at_def field_ref_source_def field_ref_of_def option.rel_map option.rel_refl)
  next
    case (ArtifactRef h)
    with assms(1,2) obtain r rec where r: "artifact_reader v (ch_artifact_id h) = Some r" "reader_inv r"
      "reader_record r h = Some rec" "c = cr_materialized rec" using artifact_found by blast
    let ?fields = "sc_fields (cr_stub rec)"
    have "materialize (cr_stub rec) = Inr c"
      using r by (auto simp: reader_inv_def reader_record_def split: if_splits)
    from materialize_members(2) [OF this] have fields: "cm_fields c = map materialize_field_stub ?fields" by simp
    show ?thesis
    proof (cases "position (\<lambda>f. sf_name f = name) ?fields")
      case None
      with fields have "field_named name c = None" by (auto simp: find_None_iff position_None materialize_field_stub_def)
      with None r t ArtifactRef assms(3) show ?thesis
        by (auto simp: field_ref_at_def field_handle_by_name_def reader_stub_def)
    next
      case (Some i)
      note i = position_Some [OF Some]
      with assms(3) Some r t ArtifactRef have "i < 2 ^ 32"
        by (auto simp: field_ref_at_def field_handle_by_name_def reader_stub_def slot_of_def split: if_splits)
      then have there: "unat (word_of_nat i :: 32 word) = i" by (simp add: unat_of_nat)
      from i position_first [OF Some] have "find (\<lambda>f. fs_name f = name) (map materialize_field_stub ?fields)
          = Some (materialize_field_stub (?fields ! i))"
        by (auto simp: find_Some_iff materialize_field_stub_def intro!: exI [of _ i])
      with fields Some i there \<open>i < 2 ^ 32\<close> r t ArtifactRef assms(3) show ?thesis
        by (auto simp: field_ref_at_def field_handle_by_name_def reader_stub_def slot_of_def project_field_stub_def
              reader_field_stub_def field_ref_artifact_def field_ref_of_def materialize_field_stub_def)
    qed
  qed
qed

lemma field_search:
  assumes "view_ok v" "list_all2 (found_ref v) refs cs" "try_find_map (field_ref_at v name) refs = Inr found"
  shows "case found of
      None \<Rightarrow> \<forall>c\<in>set cs. field_named name c = None
    | Some f \<Rightarrow> \<exists>ref c s. ref \<in> set refs \<and> found_ref v ref c \<and> field_ref_at v name ref = Inr (Some f)
        \<and> find_map (\<lambda>c. map_option (Pair c) (field_named name c)) cs = Some (c, s) \<and> field_ref_of c f s"
  using assms(2,3)
proof (induction refs cs rule: list_all2_induct)
  case (Cons ref refs c cs)
  then obtain here where here: "field_ref_at v name ref = Inr here" by (auto simp: and_then_Inr)
  note rel = field_step [OF assms(1) Cons.hyps(1) here]
  show ?case
  proof (cases here)
    case None
    with here rel Cons show ?thesis by (auto split: option.splits)
  next
    case (Some f)
    with rel obtain s where "field_named name c = Some s" "field_ref_of c f s" by (auto simp: option_rel_Some1)
    with Some here Cons.hyps(1) Cons.prems show ?thesis by auto
  qed
qed auto

lemma hierarchy_order_head:
  assumes "view_ok v" "found_ref v ref c"
  shows "\<exists>refs. hierarchy_order v (cm_internal_name c) = ref # refs"
proof -
  have get: "get_class_ref_by_internal v (cm_internal_name c) = Some ref" using assms(2) by (simp add: found_ref_def)
  with get_class_ref_none [OF assms(1), of "cm_internal_name c"]
  have "view_get_class v (cm_internal_name c) \<noteq> None" by auto
  then have "cm_internal_name c \<in> set (view_exact_match_keys v)" by (simp add: view.keys_dom [OF assms(1)] domIff)
  with get show ?thesis by (simp add: hierarchy_order_def bfs_eq_fold fold_snoc visits_simps)
qed

text \<open>A field that a look-up found is found again from the class that declares it.\<close>

lemma field_found_again:
  assumes "view_ok v" "lookup_field_in_hierarchy_ref v n name = Inr (Some f)"
  shows "fr_name f = name" "lookup_field_in_hierarchy_ref v (type_ref_internal_name (fr_owner f)) name = Inr (Some f)"
proof -
  from field_search [OF assms(1) hierarchy_order_found [OF assms(1)] assms(2) [unfolded lookup_field_in_hierarchy_ref_def]]
  obtain ref c s where at: "found_ref v ref c" "field_ref_at v name ref = Inr (Some f)" and f: "field_ref_of c f s"
    and s: "find_map (\<lambda>c. map_option (Pair c) (field_named name c)) (view_hierarchy v n) = Some (c, s)" by auto
  have "find_map (\<lambda>c. map_option (Pair c) (field_named name c)) cs = Some (c, s) \<Longrightarrow> fs_name s = name" for cs
    by (induction cs) (auto simp: find_Some_iff split: option.splits)
  from this [OF s] f show "fr_name f = name" by (simp add: field_ref_of_def)
  from hierarchy_order_head [OF assms(1) at(1)] at(2) f
  show "lookup_field_in_hierarchy_ref v (type_ref_internal_name (fr_owner f)) name = Inr (Some f)"
    by (auto simp: lookup_field_in_hierarchy_ref_def field_ref_of_def)
qed

text \<open>
  A classification of a name as a field stands for a field that its owner declares or inherits: looking
  up the name on the owner finds it, and the type of the expression is that of its descriptor.
\<close>

definition field_found :: "'c index_view \<Rightarrow> field_ref \<Rightarrow> bool" where
  "field_found v f \<longleftrightarrow> lookup_field_in_hierarchy_ref v (type_ref_internal_name (fr_owner f)) (fr_name f) = Inr (Some f)"

definition field_of_expression :: "'c index_view \<Rightarrow> name_classification \<Rightarrow> field_ref \<Rightarrow> type_name \<Rightarrow> bool" where
  "field_of_expression v c f ty \<longleftrightarrow>
     field_found v f \<and> field_type_name f = Some ty \<and> c = field_expression f ty (is_static_field f)"

fun names_field :: "name_classification \<Rightarrow> bool" where
  "names_field (NExpression _ (BaseField _ _ _)) = True"
| "names_field _ = False"

definition sound_class :: "'c index_view \<Rightarrow> name_classification option \<Rightarrow> bool" where
  "sound_class v found \<longleftrightarrow> (\<forall>c. found = Some c \<and> names_field c \<longrightarrow> (\<exists>f ty. field_of_expression v c f ty))"

lemma sound_class_simps [simp]:
  "sound_class v None" "\<not> names_field c \<Longrightarrow> sound_class v (Some c)"
  "field_found v f \<Longrightarrow> field_type_name f = Some ty \<Longrightarrow> s = is_static_field f \<Longrightarrow> sound_class v (Some (field_expression f ty s))"
  by (auto simp: sound_class_def field_of_expression_def)

lemma names_field_simps [simp]:
  "\<not> names_field (type_classification n)" "\<not> names_field (NPackage p)" "sound_class v (package_classification v' p)"
  "names_field (field_expression f ty s)"
  by (simp_all add: type_classification_def package_classification_def field_expression_def)

lemma typed_field_Some:
  "typed_field found = Some (f, ty) \<longleftrightarrow> found = Some f \<and> field_type_name f = Some ty"
  "Some (f, ty) = typed_field found \<longleftrightarrow> found = Some f \<and> field_type_name f = Some ty"
  by (cases found; auto simp: typed_field_def dest: sym)+

lemma sound_no_field [simp]:
  "sound_class v (map_option (\<lambda>x. NExpression (g x) BaseThis) y)" "sound_class v (map_option (\<lambda>x. NExpression (g x) BaseSuper) y)"
  by (cases y; simp)+

lemma sound_typed:
  "(\<And>f. found = Some f \<Longrightarrow> field_found v f)
     \<Longrightarrow> sound_class v (map_option (\<lambda>(f, ty). field_expression f ty (is_static_field f)) (typed_field found))"
  by (cases "typed_field found") (auto simp: typed_field_Some)

lemma candidate_found:
  assumes "view_ok v"
  shows "lookup_field_candidate v receiver name = Inr (Some f) \<Longrightarrow> field_found v f"
    "lookup_static_field_candidate v receiver name = Inr (Some f) \<Longrightarrow> field_found v f \<and> is_static_field f"
proof -
  have "try_find_map (\<lambda>bound. lookup_field_in_hierarchy_ref v (erased_internal bound) name) bounds = Inr (Some f)
      \<Longrightarrow> field_found v f" for bounds f
    using field_found_again [OF assms]
    by (induction bounds) (fastforce simp: and_then_Inr field_found_def split: option.splits)+
  then show one: "lookup_field_candidate v receiver name = Inr (Some f) \<Longrightarrow> field_found v f" for f
    by (simp add: lookup_field_candidate_def)
  show "lookup_static_field_candidate v receiver name = Inr (Some f) \<Longrightarrow> field_found v f \<and> is_static_field f"
    by (auto simp: lookup_static_field_candidate_def map_ok_Inr is_static_field_def intro: one split: option.splits if_splits)
qed

lemma first_by_Cons_set: "first_by key S xs = [x] \<Longrightarrow> x \<in> set xs"
  using first_by_find [of x key S xs] by (auto dest: find_SomeD)

lemma static_import_found:
  assumes "view_ok v" "lookup_static_import_field v ctx name = Inr (Some f)"
  shows "field_found v f \<and> is_static_field f"
proof -
  from assms(2) obtain fs where fs: "try_map (static_import_field v name) (sc_static_imports ctx) = Inr fs"
    and f: "f \<in> set (List.map_filter id fs)"
    by (auto simp: lookup_static_import_field_def map_ok_Inr fold_push_new Let_def length_Suc_conv first_by_Cons_set
      split: if_splits)
  from f have "Some f \<in> set fs" by (auto simp: set_map_filter)
  with try_map_InrD [OF fs] obtain imp where "static_import_field v name imp = Inr (Some f)"
    by (auto simp: list_all2_conv_all_nth in_set_conv_nth)
  then show ?thesis using candidate_found(2) [OF assms(1)]
    by (auto simp: static_import_field_def split: option.splits if_splits)
qed

lemma simple_name_sound:
  assumes "view_ok (sy_view r)" "classify_simple_name r ctx name = Inr found"
  shows "sound_class (sy_view r) found"
  using assms(2) candidate_found(1) [OF assms(1)] static_import_found [OF assms(1)]
  unfolding classify_simple_name_def Let_def
  by (auto simp: and_then_Inr map_ok_Inr typed_field_Some sound_class_simps split: if_splits option.splits)

lemma advance_sound:
  assumes "view_ok v" "advance_name_classification v c segment = Inr found"
  shows "sound_class v found"
proof (cases c)
  case (NPackage p)
  with assms(2) show ?thesis
    by (cases "view_get_class v (p @ ''/'' @ segment)")
       (auto simp: advance_name_classification_def Let_def split: if_splits)
next
  case (NType internal ty)
  then obtain x where x: "is_java_identifier_segment segment \<Longrightarrow> lookup_static_field_candidate v ty segment = Inr x"
    "found = None \<or> found = (case typed_field x of Some (field, field_ty) \<Rightarrow> Some (field_expression field field_ty True)
       | None \<Rightarrow> map_option (\<lambda>inner. type_classification (type_ref_internal_name inner))
             (lookup_member_type_ref_in_hierarchy v internal segment))" "is_java_identifier_segment segment \<or> found = None"
    using assms(2) by (auto simp: advance_name_classification_def and_then_Inr map_ok_Inr split: if_splits)
  show ?thesis
  proof (cases "typed_field x")
    case None
    with x(2) show ?thesis by (cases "lookup_member_type_ref_in_hierarchy v internal segment") auto
  next
    case (Some fty)
    with x candidate_found(2) [OF assms(1), of ty segment] show ?thesis
      by (cases fty) (auto simp: typed_field_Some)
  qed
next
  case (NExpression ty b)
  with assms(2) candidate_found(1) [OF assms(1), of ty segment] show ?thesis
    by (auto simp: advance_name_classification_def map_ok_Inr intro!: sound_typed split: if_splits)
qed

lemma advance_all_sound:
  assumes "view_ok v"
  shows "sound_class v (Some c) \<Longrightarrow> advance_all v c segments = Inr found \<Longrightarrow> sound_class v found"
proof (induction segments arbitrary: c)
  case (Cons segment segments)
  from Cons.prems(2) obtain step where step: "advance_name_classification v c segment = Inr step"
    by (auto simp: and_then_Inr)
  with advance_sound [OF assms step] Cons show ?case by (cases step) auto
qed simp

lemma fallback_sound: "sound_class v (whole_name_fallback r ctx name)"
  by (simp add: whole_name_fallback_def split: option.splits)

lemma classify_sound:
  assumes "view_ok (sy_view r)" "classify_name r ctx name = Inr found"
  shows "sound_class (sy_view r) found"
proof -
  have "sound_class (sy_view r) found" if "classify_simple_name r ctx head = Inr (Some c)"
    "advance_all (sy_view r) c parts = Inr found" for head c parts found
    using advance_all_sound [OF assms(1) simple_name_sound [OF assms(1) that(1)] that(2)] .
  with assms(2) show ?thesis unfolding classify_name_def Let_def
    by (auto simp: and_then_Inr map_ok_Inr fallback_sound split: if_splits option.splits list.splits)
qed

text \<open>
  C26. A name that is classified as a field resolves to a field symbol, never to nothing: the field that is
  found on the owner of the classification, whose descriptor gives the type of the expression.
\<close>

theorem field_names_resolve:
  assumes "view_ok (sy_view r)" "classify_name r ctx ident = Inr (Some c)" "names_field c"
  shows "\<exists>f ty. resolve_bare_id r ctx ident = Inr (Some (SField f)) \<and> field_type_name f = Some ty
    \<and> c = field_expression f ty (is_static_field f)"
proof -
  from classify_sound [OF assms(1,2)] assms(3) obtain f ty where "field_of_expression (sy_view r) c f ty"
    by (auto simp: sound_class_def)
  with assms(2) show ?thesis
    by (intro exI [of _ f] exI [of _ ty])
       (simp add: field_of_expression_def field_found_def resolve_bare_id_def field_expression_def)
qed

lemma sample_field_lookup:
  "lookup_field_in_hierarchy_ref (sample_view css) n name
     = Inr (map_option (\<lambda>(c, s). field_ref_source (TypeSource (cm_internal_name c)) (fs_name s) (fs_descriptor s) (fs_access_flags s))
         (find_map (\<lambda>c. map_option (Pair c) (field_named name c)) (view_hierarchy (sample_view css) n)))"
proof -
  let ?v = "sample_view css"
  have at: "field_ref_at ?v name ref = Inr (map_option (\<lambda>s. field_ref_source (TypeSource (cm_internal_name c)) (fs_name s)
      (fs_descriptor s) (fs_access_flags s)) (field_named name c))" if "found_ref ?v ref c" for ref c
  proof (cases ref)
    case (OverlayRef b n)
    with that ref_ofD(1,2) [of ?v ref c] show ?thesis
      by (simp add: found_ref_def field_ref_at_def type_ref_from_class_ref_def class_ref_internal_name_def)
  next
    case (ArtifactRef h)
    with that ref_ofD(1) [of ?v ref c] show ?thesis by (simp add: found_ref_def class_ref_defs sample_view_def)
  qed
  have "try_find_map (field_ref_at ?v name) refs
      = Inr (map_option (\<lambda>(c, s). field_ref_source (TypeSource (cm_internal_name c)) (fs_name s) (fs_descriptor s)
          (fs_access_flags s)) (find_map (\<lambda>c. map_option (Pair c) (field_named name c)) cs))"
    if "list_all2 (found_ref ?v) refs cs" for refs cs
    using that
  proof (induction refs cs rule: list_all2_induct)
    case (Cons ref refs c cs)
    with at [OF Cons.hyps(1)] show ?case by (cases "field_named name c") auto
  qed simp
  from this [OF hierarchy_order_found [OF sample_view_ok(1)]] show ?thesis
    by (simp add: lookup_field_in_hierarchy_ref_def)
qed

definition plain_field :: "str \<Rightarrow> str \<Rightarrow> field_summary" where
  "plain_field n desc = \<lparr>fs_name = n, fs_descriptor = desc, fs_access_flags = 0, fs_annotations = [],
     fs_is_synthetic = False, fs_generic_signature = None\<rparr>"

theorem field_names_resolve_witness:
  "\<exists>f. resolve_bare_id (symbol_resolver_new (sample_view
       [[(plain_class None ''A'' ''A'' UnknownOrigin)\<lparr>cm_super_name := Some ''B''\<rparr>],
        [(plain_class None ''B'' ''B'' UnknownOrigin)\<lparr>cm_fields := [plain_field ''x'' ''I'']\<rparr>]]))
      (semantic_context_new (LExpression ''x'') ''x'' [] None (Some ''A'') None []) ''x'' = Inr (Some (SField f))
    \<and> type_ref_internal_name (fr_owner f) = ''B''"
proof -
  let ?v = "sample_view [[(plain_class None ''A'' ''A'' UnknownOrigin)\<lparr>cm_super_name := Some ''B''\<rparr>],
        [(plain_class None ''B'' ''B'' UnknownOrigin)\<lparr>cm_fields := [plain_field ''x'' ''I'']\<rparr>]]"
  let ?r = "symbol_resolver_new ?v"
  let ?ctx = "semantic_context_new (LExpression ''x'') ''x'' [] None (Some ''A'') None [] :: (str, members) hash_map semantic_context"
  have look: "lookup_field_in_hierarchy_ref ?v ''A'' ''x''
      = Inr (Some (field_ref_source (TypeSource ''B'') ''x'' ''I'' 0))"
    unfolding sample_field_lookup by (simp add: sample_hierarchy plain_class_def plain_field_def)
  have "lookup_field_candidate ?v (internal_type ''A'') ''x'' = Inr (Some (field_ref_source (TypeSource ''B'') ''x'' ''I'' 0))"
    using look by (simp add: lookup_field_candidate_def internal_type_def bounds_for_lookup_def is_intersection_def with_kind_def)
  moreover have "last_local ?ctx ''x'' = None" "sc_enclosing_internal_name ?ctx = Some ''A''"
    by (simp_all add: last_local_def semantic_context_new_def)
  moreover have "\<not> is_super_receiver_expr ''x''" by code_simp
  ultimately have "classify_simple_name ?r ?ctx ''x''
      = Inr (Some (NExpression (type_name_new ''int'') (BaseField ''B'' ''x'' False)))"
    by (simp add: classify_simple_name_def Let_def symbol_resolver_new_def typed_field_def
        field_type_name_def field_ref_source_def singleton_descriptor_to_type_def field_expression_def is_static_field_def)
  moreover have "trim ''x'' = ''x''" "\<not> contains_char ''x'' (CHR ''/'')" "is_name_head_segment ''x''"
    "filter (\<lambda>segment. segment \<noteq> []) (split_char (CHR ''.'') ''x'') = [''x'']" by code_simp+
  ultimately have "classify_name ?r ?ctx ''x''
      = Inr (Some (NExpression (type_name_new ''int'') (BaseField ''B'' ''x'' False)))"
    by (simp add: classify_name_def Let_def)
  from field_names_resolve [OF _ this] sample_view_ok(1) show ?thesis
    by (auto simp: symbol_resolver_new_def field_expression_def)
qed

subsection \<open>The cache of type names\<close>

text \<open>
  The cache of a resolver that is used for the contexts of a request: for contexts whose keys tell apart
  the answers, every look-up answers as the look-up without the cache, and keeps it so.
\<close>

definition key_determines :: "'c index_view \<Rightarrow> 'c semantic_context set \<Rightarrow> bool" where
  "key_determines v ctxs \<longleftrightarrow> (\<forall>ctx\<in>ctxs. \<forall>ctx'\<in>ctxs. \<forall>name. type_name_cache_key ctx name = type_name_cache_key ctx' name
     \<longrightarrow> resolve_type_name_uncached v ctx name = resolve_type_name_uncached v ctx' name)"

definition type_names_ok :: "'c semantic_context set \<Rightarrow> 'c symbol_resolver \<Rightarrow> bool" where
  "type_names_ok ctxs r \<longleftrightarrow> (\<forall>ctx\<in>ctxs. \<forall>name cached. hget (sy_type_names r) (type_name_cache_key ctx name) = Some cached
     \<longrightarrow> cached = resolve_type_name_uncached (sy_view r) ctx name)"

lemma type_names_new: "type_names_ok ctxs (symbol_resolver_new v)"
  by (simp add: type_names_ok_def symbol_resolver_new_def)

lemma key_determines_one: "key_determines v {ctx}"
  by (simp add: key_determines_def)

lemma type_name_cache_transparent:
  assumes "key_determines (sy_view r) ctxs" "type_names_ok ctxs r" "ctx \<in> ctxs"
  shows "resolve_type_name r ctx name = resolve_type_name_uncached (sy_view r) ctx name"
    and "type_names_ok ctxs (snd (resolve_type_name_cached ctx name r))"
    and "sy_view (snd (resolve_type_name_cached ctx name r)) = sy_view r"
proof -
  show "resolve_type_name r ctx name = resolve_type_name_uncached (sy_view r) ctx name"
    "sy_view (snd (resolve_type_name_cached ctx name r)) = sy_view r"
    using assms(2,3) by (auto simp: resolve_type_name_def resolve_type_name_cached_def type_names_ok_def Let_def
        split: option.splits)
  show "type_names_ok ctxs (snd (resolve_type_name_cached ctx name r))"
  proof (cases "hget (sy_type_names r) (type_name_cache_key ctx name)")
    case (Some cached)
    with assms(2) show ?thesis by (simp add: resolve_type_name_cached_def Let_def)
  next
    case None
    have "cached = resolve_type_name_uncached (sy_view r) c n"
      if "c \<in> ctxs" "((hget (sy_type_names r))(type_name_cache_key ctx name \<mapsto> resolve_type_name_uncached (sy_view r) ctx name))
        (type_name_cache_key c n) = Some cached" for c n cached
    proof (cases "type_name_cache_key c n = type_name_cache_key ctx name")
      case True
      then have "n = name" by (simp add: type_name_cache_key_def)
      from assms(1,3) that(1) True have "resolve_type_name_uncached (sy_view r) c name
          = resolve_type_name_uncached (sy_view r) ctx name"
        unfolding key_determines_def \<open>n = name\<close> by blast
      with \<open>n = name\<close> that(2) True show ?thesis by simp
    next
      case False
      with that(2) have "hget (sy_type_names r) (type_name_cache_key c n) = Some cached" by simp
      with assms(2) that(1) show ?thesis unfolding type_names_ok_def by blast
    qed
    with None show ?thesis by (simp add: resolve_type_name_cached_def Let_def type_names_ok_def)
  qed
qed

end
