(* ===== verification/Lombok_Support.thy ===== *)
theory Lombok_Support
  imports Semantic_Context
begin

text \<open>
  What the Lombok rules share (\<open>src/language/java/lombok\<close>): the configuration of \<open>lombok.config\<close> files
  (\<open>config.rs\<close>), access levels, annotation names and configuration keys (\<open>types.rs\<close>), and the queries
  of annotations and names (\<open>utils.rs\<close>).

  The directories of \<open>load_from_directory\<close> are a parameter: \<open>read\<close> gives the text of the
  \<open>lombok.config\<close> of a directory, None where there is none or it cannot be read; a directory is the
  list of its components. \<open>capitalize_first\<close> changes letters of ASCII; \<open>char::to_uppercase\<close> also
  changes other letters, so the model speaks of names that start with a character of ASCII.
\<close>

subsection \<open>Configuration\<close>

record lombok_config =
  lc_settings :: "(str, str) hash_map"

definition lombok_config_new :: lombok_config where
  "lombok_config_new = \<lparr>lc_settings = []\<rparr>"

text \<open>\<open>str::lines\<close>: the pieces between line feeds, without the carriage return before each.\<close>

fun line_pieces :: "str list \<Rightarrow> str list" where
  "line_pieces [] = []"
| "line_pieces [p] = (if p = [] then [] else [p])"
| "line_pieces (p # q # ps) =
     (case strip_suffix p [CHR 0x0D] of Some l \<Rightarrow> l | None \<Rightarrow> p) # line_pieces (q # ps)"

definition text_lines :: "str \<Rightarrow> str list" where
  "text_lines s = line_pieces (split_char (CHR 0x0A) s)"

definition parse_config_line :: "str \<Rightarrow> (str \<times> str) option" where
  "parse_config_line line =
     (case find_char line (CHR ''='') of
        Some pos \<Rightarrow> Some (trim (take pos line), trim (drop (pos + 1) line))
      | None \<Rightarrow>
          (case find_char line (CHR '':'') of
             Some pos \<Rightarrow> Some (trim (take pos line), trim (drop (pos + 1) line))
           | None \<Rightarrow> None))"

definition merge_config_line :: "str \<Rightarrow> lombok_config \<Rightarrow> lombok_config" where
  "merge_config_line raw config =
     (let line = trim raw
      in if line = [] \<or> starts_with line ''#'' \<or> starts_with line ''//'' then config
         else case parse_config_line line of
           Some (key, val) \<Rightarrow> config\<lparr>lc_settings := hinsert key val (lc_settings config)\<rparr>
         | None \<Rightarrow> config)"

definition merge_from_content :: "str \<Rightarrow> lombok_config \<Rightarrow> lombok_config" where
  "merge_from_content content config = fold merge_config_line (text_lines content) config"

definition has_stop_directive :: "lombok_config \<Rightarrow> bool" where
  "has_stop_directive config \<longleftrightarrow> hget (lc_settings config) ''config.stopBubbling'' = Some ''true''"

text \<open>The loop of \<open>load_from_directory\<close>; the components of the directory are reversed.\<close>

definition merge_directory :: "(str list \<Rightarrow> str option) \<Rightarrow> str list \<Rightarrow> lombok_config \<Rightarrow> lombok_config" where
  "merge_directory read dir config =
     (case read (rev dir) of Some content \<Rightarrow> merge_from_content content config | None \<Rightarrow> config)"

fun load_upwards :: "(str list \<Rightarrow> str option) \<Rightarrow> str list \<Rightarrow> lombok_config \<Rightarrow> lombok_config" where
  "load_upwards read [] config = merge_directory read [] config"
| "load_upwards read (d # parent) config =
     (let merged = merge_directory read (d # parent) config
      in if has_stop_directive merged then merged else load_upwards read parent merged)"

definition load_from_directory :: "(str list \<Rightarrow> str option) \<Rightarrow> str list \<Rightarrow> lombok_config" where
  "load_from_directory read start_path = load_upwards read (rev start_path) lombok_config_new"

definition config_get :: "lombok_config \<Rightarrow> str \<Rightarrow> str option" where
  "config_get config key = hget (lc_settings config) key"

definition config_bool :: "lombok_config \<Rightarrow> str \<Rightarrow> bool option" where
  "config_bool config key =
     (case config_get config key of
        None \<Rightarrow> None
      | Some v \<Rightarrow> if v = ''true'' then Some True else if v = ''false'' then Some False else None)"

definition or_default :: "'a option \<Rightarrow> 'a \<Rightarrow> 'a" where
  "or_default found def = (case found of Some x \<Rightarrow> x | None \<Rightarrow> def)"

definition accessors_chain :: "lombok_config \<Rightarrow> bool" where
  "accessors_chain config = or_default (config_bool config ''lombok.accessors.chain'') False"

definition accessors_fluent :: "lombok_config \<Rightarrow> bool" where
  "accessors_fluent config = or_default (config_bool config ''lombok.accessors.fluent'') False"

definition split_setting :: "str option \<Rightarrow> str list" where
  "split_setting setting =
     (case setting of None \<Rightarrow> [] | Some s \<Rightarrow> filter (\<lambda>p. p \<noteq> []) (map trim (split_char (CHR '';'') s)))"

definition accessors_prefix :: "lombok_config \<Rightarrow> str list" where
  "accessors_prefix config = split_setting (config_get config ''lombok.accessors.prefix'')"

definition log_field_name :: "lombok_config \<Rightarrow> str" where
  "log_field_name config = or_default (config_get config ''lombok.log.fieldName'') ''log''"

definition log_field_is_static :: "lombok_config \<Rightarrow> bool" where
  "log_field_is_static config = or_default (config_bool config ''lombok.log.fieldIsStatic'') True"

definition copyable_annotations :: "lombok_config \<Rightarrow> str list" where
  "copyable_annotations config = split_setting (config_get config ''lombok.copyableAnnotations'')"

definition to_string_include_field_names :: "lombok_config \<Rightarrow> bool" where
  "to_string_include_field_names config =
     or_default (config_bool config ''lombok.toString.includeFieldNames'') True"

definition to_string_do_not_use_getters :: "lombok_config \<Rightarrow> bool" where
  "to_string_do_not_use_getters config =
     or_default (config_bool config ''lombok.toString.doNotUseGetters'') False"

definition equals_and_hash_code_do_not_use_getters :: "lombok_config \<Rightarrow> bool" where
  "equals_and_hash_code_do_not_use_getters config =
     or_default (config_bool config ''lombok.equalsAndHashCode.doNotUseGetters'') False"

subsection \<open>Access levels and annotations\<close>

datatype access_level = LPublic | LProtected | LPackage | LPrivate | LModule | LNone

definition ACC_PUBLIC :: "16 word" where "ACC_PUBLIC = 0x0001"
definition ACC_PROTECTED :: "16 word" where "ACC_PROTECTED = 0x0004"
definition ACC_FINAL :: "16 word" where "ACC_FINAL = 0x0010"
definition ACC_TRANSIENT :: "16 word" where "ACC_TRANSIENT = 0x0080"

fun to_access_flags :: "access_level \<Rightarrow> 16 word" where
  "to_access_flags LPublic = ACC_PUBLIC"
| "to_access_flags LProtected = ACC_PROTECTED"
| "to_access_flags LPackage = 0"
| "to_access_flags LPrivate = ACC_PRIVATE"
| "to_access_flags LModule = 0"
| "to_access_flags LNone = 0"

definition from_annotation_value :: "annotation_value \<Rightarrow> access_level option" where
  "from_annotation_value v =
     (case v of
        AEnum _ const_name \<Rightarrow>
          (if const_name = ''PUBLIC'' then Some LPublic
           else if const_name = ''PROTECTED'' then Some LProtected
           else if const_name = ''PACKAGE'' then Some LPackage
           else if const_name = ''PRIVATE'' then Some LPrivate
           else if const_name = ''MODULE'' then Some LModule
           else if const_name = ''NONE'' then Some LNone
           else None)
      | _ \<Rightarrow> None)"

datatype lombok_constructor_type = NoArgs | RequiredArgs | AllArgs

datatype lombok_builder_method = BuilderStart | BuilderMethod | BuilderSetter str

definition is_annotation_named :: "str \<Rightarrow> annotation_summary \<Rightarrow> bool" where
  "is_annotation_named internal anno \<longleftrightarrow>
     an_internal_name anno = internal \<or> an_internal_name anno = last_piece (CHR ''/'') internal"

definition has_lombok_annotation :: "annotation_summary list \<Rightarrow> str \<Rightarrow> bool" where
  "has_lombok_annotation annos internal \<longleftrightarrow> list_ex (is_annotation_named internal) annos"

definition find_lombok_annotation :: "annotation_summary list \<Rightarrow> str \<Rightarrow> annotation_summary option" where
  "find_lombok_annotation annos internal = find (is_annotation_named internal) annos"

definition get_annotation_value :: "annotation_summary \<Rightarrow> str \<Rightarrow> annotation_value option" where
  "get_annotation_value anno key = hget (an_elements anno) key"

definition parse_access_level :: "annotation_summary \<Rightarrow> access_level" where
  "parse_access_level anno =
     (case get_annotation_value anno ''value'' of
        None \<Rightarrow> LPublic | Some v \<Rightarrow> or_default (from_annotation_value v) LPublic)"

definition matches_field_in_array :: "str \<Rightarrow> annotation_value \<Rightarrow> bool" where
  "matches_field_in_array field_name v =
     (case v of AString s \<Rightarrow> s = field_name | AArray items \<Rightarrow> list_ex (\<lambda>x. x = AString field_name) items | _ \<Rightarrow> False)"

definition is_field_excluded :: "str \<Rightarrow> annotation_summary \<Rightarrow> bool" where
  "is_field_excluded field_name anno \<longleftrightarrow>
     (case get_annotation_value anno ''exclude'' of Some v \<Rightarrow> matches_field_in_array field_name v | None \<Rightarrow> False)
     \<or> (case get_annotation_value anno ''of'' of Some v \<Rightarrow> \<not> matches_field_in_array field_name v | None \<Rightarrow> False)"

definition should_generate_for_field ::
  "field_summary \<Rightarrow> annotation_summary option \<Rightarrow> annotation_summary option \<Rightarrow> bool" where
  "should_generate_for_field field class_level_anno field_level_anno =
     (case field_level_anno of
        Some anno \<Rightarrow> parse_access_level anno \<noteq> LNone
      | None \<Rightarrow>
          if fs_access_flags field AND ACC_STATIC \<noteq> 0 then False
          else case class_level_anno of
            Some anno \<Rightarrow> \<not> is_field_excluded (fs_name field) anno \<and> parse_access_level anno \<noteq> LNone
          | None \<Rightarrow> False)"

definition get_bool_param :: "annotation_summary \<Rightarrow> str \<Rightarrow> bool \<Rightarrow> bool" where
  "get_bool_param anno key def = (case get_annotation_value anno key of Some (ABoolean b) \<Rightarrow> b | _ \<Rightarrow> def)"

definition get_string_param :: "annotation_summary \<Rightarrow> str \<Rightarrow> str option" where
  "get_string_param anno key = (case get_annotation_value anno key of Some (AString s) \<Rightarrow> Some s | _ \<Rightarrow> None)"

definition string_item :: "annotation_value \<Rightarrow> str option" where
  "string_item v = (case v of AString s \<Rightarrow> Some s | _ \<Rightarrow> None)"

definition get_string_array_param :: "annotation_summary \<Rightarrow> str \<Rightarrow> str list" where
  "get_string_array_param anno key =
     (case get_annotation_value anno key of
        Some (AString s) \<Rightarrow> [s] | Some (AArray items) \<Rightarrow> List.map_filter string_item items | _ \<Rightarrow> [])"

subsection \<open>Names\<close>

definition to_uppercase_char :: "char \<Rightarrow> char" where
  "to_uppercase_char c = (if is_ascii_lowercase c then char_of ((of_char c :: nat) - 32) else c)"

definition capitalize_first :: "str \<Rightarrow> str" where
  "capitalize_first s = (case s of [] \<Rightarrow> [] | c # cs \<Rightarrow> to_uppercase_char c # cs)"

definition strip_field_prefix :: "str \<Rightarrow> lombok_config \<Rightarrow> str" where
  "strip_field_prefix field_name config =
     or_default (find_map (\<lambda>prefix.
        case strip_prefix field_name prefix of
          Some stripped \<Rightarrow> if stripped \<noteq> [] then Some stripped else None
        | None \<Rightarrow> None) (accessors_prefix config)) field_name"

definition compute_getter_name :: "str \<Rightarrow> str \<Rightarrow> lombok_config \<Rightarrow> str" where
  "compute_getter_name field_name desc config =
     (let base_name = strip_field_prefix field_name config
      in if accessors_fluent config then base_name
         else (if desc = ''Z'' then ''is'' else ''get'') @ capitalize_first base_name)"

definition compute_setter_name :: "str \<Rightarrow> lombok_config \<Rightarrow> str" where
  "compute_setter_name field_name config =
     (let base_name = strip_field_prefix field_name config
      in if accessors_fluent config then base_name else ''set'' @ capitalize_first base_name)"

definition is_field_static :: "field_summary \<Rightarrow> bool" where
  "is_field_static field \<longleftrightarrow> fs_access_flags field AND ACC_STATIC \<noteq> 0"

definition is_field_final :: "field_summary \<Rightarrow> bool" where
  "is_field_final field \<longleftrightarrow> fs_access_flags field AND ACC_FINAL \<noteq> 0"

definition is_field_non_null :: "field_summary \<Rightarrow> bool" where
  "is_field_non_null field \<longleftrightarrow> has_lombok_annotation (fs_annotations field) ''lombok/NonNull''"

subsection \<open>Patterns of annotations\<close>

text \<open>The loop over the parts of a pattern with more than one star; \<open>text\<close> is the text from \<open>text_pos\<close>.\<close>

fun match_parts :: "bool \<Rightarrow> str list \<Rightarrow> str \<Rightarrow> bool" where
  "match_parts is_first [] rest = True"
| "match_parts is_first (part # parts) rest =
     (if part = [] then match_parts False parts rest
      else if is_first then starts_with rest part \<and> match_parts False parts (drop (length part) rest)
      else if parts = [] then ends_with rest part
      else case find_str rest part of
        Some pos \<Rightarrow> match_parts False parts (drop (pos + length part) rest)
      | None \<Rightarrow> False)"

definition matches_pattern :: "str \<Rightarrow> str \<Rightarrow> bool" where
  "matches_pattern s pattern =
     (if \<not> contains_char pattern (CHR ''*'') then s = pattern
      else case split_char (CHR ''*'') pattern of
        [prefix, suffix] \<Rightarrow> starts_with s prefix \<and> ends_with s suffix
      | parts \<Rightarrow> match_parts True parts s)"

definition copy_annotations :: "annotation_summary list \<Rightarrow> lombok_config \<Rightarrow> annotation_summary list" where
  "copy_annotations annos config =
     (let patterns = copyable_annotations config
      in if patterns = [] then []
         else filter (\<lambda>anno. list_ex (\<lambda>pattern.
                if contains_char pattern (CHR ''*'')
                then matches_pattern (an_internal_name anno) (dots_to_slashes pattern)
                else an_internal_name anno = dots_to_slashes pattern) patterns) annos)"

end
