(* ===== verification/Synthetic_Members.thy ===== *)
theory Synthetic_Members
  imports Lombok_Support
begin

text \<open>
  Members that a Java type has without declaring them (\<open>src/language/java/synthetic\<close> and
  \<open>src/language/java/lombok/rules\<close>): accessors of records, constants of enums, and what the annotations of
  Lombok generate.

  The state is the set of members collected so far (\<open>synthetic_members\<close>): each of the twelve rules adds
  to it, in the order of \<open>SYNTHETIC_RULES\<close>. The syntax tree is data of the input: \<open>type_decl\<close> holds what the
  rules read of the declaration's node (its kind, its name, the annotations that
  \<open>parse_annotations_in_node\<close> reads from its modifiers, the children of its body with their names, its
  parameters, the children of its parent), and \<open>node_ref\<close> is the position of a node in it. A look-up of
  inherited members can panic on an archive, hence \<open>rust_panic +\<close>. The configuration is the default one,
  as in the code; calls whose results the code drops (\<open>_call_super\<close> and others) are not modelled.
\<close>

subsection \<open>Declarations\<close>

record body_child =
  bc_kind :: str
  bc_name :: "str option"
  bc_identifier :: "str option"
  bc_identifier_child :: "str option"
  bc_declarators :: "(str \<times> str option) list"
  bc_members :: "current_class_member list option"

record formal_param =
  fp_kind :: str
  fp_name :: "str option"
  fp_type_text :: "str option"

record type_body =
  tb_children :: "body_child list"
  tb_members :: "current_class_member list"

record type_decl =
  td_kind :: str
  td_name :: "str option"
  td_modifiers :: "annotation_summary list option"
  td_body :: "type_body option"
  td_parameters_field :: "formal_param list option"
  td_formal_parameters :: "formal_param list option"
  td_siblings :: "body_child list option"

datatype node_ref = NameNode | ParametersNode | ParameterName nat | ChildName nat | DeclaratorName nat nat

record 'c synthetic_input =
  si_decl :: type_decl
  si_owner_internal :: "str option"
  si_type_ctx :: "'c source_type_ctx"

datatype synthetic_origin =
    RecordComponentAccessor str | RecordCanonicalConstructor | EnumConstant str
  | LombokGetter str | LombokSetter str | LombokToString | LombokEquals | LombokHashCode
  | LombokConstructor lombok_constructor_type | LombokBuilder lombok_builder_method
  | LombokWith str | LombokDelegate str | LombokLog

datatype synthetic_definition_kind = SynMethod | SynField

record synthetic_definition =
  sd_kind :: synthetic_definition_kind
  sd_name :: str
  sd_descriptor :: "str option"
  sd_origin :: synthetic_origin

record synthetic_members =
  so_methods :: "method_summary list"
  so_fields :: "field_summary list"
  so_definitions :: "synthetic_definition list"
  so_nested_classes :: "class_metadata list"

definition synthetic_default :: synthetic_members where
  "synthetic_default = \<lparr>so_methods = [], so_fields = [], so_definitions = [], so_nested_classes = []\<rparr>"

text \<open>The two pushes that every rule makes: the member and its definition.\<close>

definition push_method :: "method_summary \<Rightarrow> str \<Rightarrow> synthetic_origin \<Rightarrow> synthetic_members \<Rightarrow> synthetic_members" where
  "push_method m desc origin out =
     out\<lparr>so_methods := so_methods out @ [m],
         so_definitions := so_definitions out
           @ [\<lparr>sd_kind = SynMethod, sd_name = ms_name m, sd_descriptor = Some desc, sd_origin = origin\<rparr>]\<rparr>"

definition push_field ::
  "field_summary \<Rightarrow> str option \<Rightarrow> synthetic_origin \<Rightarrow> synthetic_members \<Rightarrow> synthetic_members" where
  "push_field f desc origin out =
     out\<lparr>so_fields := so_fields out @ [f],
         so_definitions := so_definitions out
           @ [\<lparr>sd_kind = SynField, sd_name = fs_name f, sd_descriptor = desc, sd_origin = origin\<rparr>]\<rparr>"

definition made_method :: "str \<Rightarrow> method_params \<Rightarrow> 16 word \<Rightarrow> str option \<Rightarrow> method_summary" where
  "made_method name params flags ret =
     \<lparr>ms_name = name, ms_params = params, ms_annotations = [], ms_access_flags = flags, ms_is_synthetic = False,
      ms_generic_signature = None, ms_return_type = ret\<rparr>"

definition made_field :: "str \<Rightarrow> str \<Rightarrow> 16 word \<Rightarrow> field_summary" where
  "made_field name desc flags =
     \<lparr>fs_name = name, fs_descriptor = desc, fs_access_flags = flags, fs_annotations = [], fs_is_synthetic = False,
      fs_generic_signature = None\<rparr>"

definition made_param :: "str \<Rightarrow> str \<Rightarrow> annotation_summary list \<Rightarrow> method_param" where
  "made_param desc name annos = \<lparr>mp_descriptor = desc, mp_name = name, mp_annotations = annos\<rparr>"

definition has_method :: "method_summary list \<Rightarrow> str \<Rightarrow> str \<Rightarrow> bool" where
  "has_method methods name desc \<longleftrightarrow> list_ex (\<lambda>m. ms_name m = name \<and> method_desc m = desc) methods"

definition decl_annotations :: "'c synthetic_input \<Rightarrow> annotation_summary list" where
  "decl_annotations input = or_default (td_modifiers (si_decl input)) []"

definition kind_in :: "'c synthetic_input \<Rightarrow> str list \<Rightarrow> bool" where
  "kind_in input kinds \<longleftrightarrow> td_kind (si_decl input) \<in> set kinds"

subsection \<open>Records\<close>

record record_component =
  rc_name :: str
  rc_source_type :: str
  rc_descriptor :: str

definition record_parameter_node :: "type_decl \<Rightarrow> formal_param list option" where
  "record_parameter_node decl =
     (case td_parameters_field decl of Some ps \<Rightarrow> Some ps | None \<Rightarrow> td_formal_parameters decl)"

definition is_component_node :: "formal_param \<Rightarrow> bool" where
  "is_component_node p \<longleftrightarrow> fp_kind p = ''formal_parameter'' \<or> fp_kind p = ''spread_parameter''"

definition record_component_of :: "'c source_type_ctx \<Rightarrow> formal_param \<Rightarrow> record_component option" where
  "record_component_of type_ctx p =
     (if \<not> is_component_node p then None
      else case fp_name p of
        None \<Rightarrow> None
      | Some name \<Rightarrow>
          (let type_text = (case map_option trim (fp_type_text p) of
               Some s \<Rightarrow> if s = [] then ''java.lang.Object'' else s
             | None \<Rightarrow> ''java.lang.Object'')
           in Some \<lparr>rc_name = name, rc_source_type = type_text, rc_descriptor = to_descriptor type_ctx type_text\<rparr>))"

definition record_components :: "type_decl \<Rightarrow> 'c source_type_ctx \<Rightarrow> record_component list" where
  "record_components decl type_ctx =
     (if td_kind decl \<noteq> ''record_declaration'' then []
      else case record_parameter_node decl of
        None \<Rightarrow> [] | Some ps \<Rightarrow> List.map_filter (record_component_of type_ctx) ps)"

definition record_accessor :: "method_summary list \<Rightarrow> record_component \<Rightarrow> synthetic_members \<Rightarrow> synthetic_members" where
  "record_accessor explicit_methods c out =
     (let desc = ''()'' @ rc_descriptor c
      in if has_method explicit_methods (rc_name c) desc then out
         else push_method (made_method (rc_name c) [] ACC_PUBLIC (Some (rc_descriptor c))) desc
                (RecordComponentAccessor (rc_name c)) out)"

definition record_rule ::
  "'c synthetic_input \<Rightarrow> method_summary list \<Rightarrow> field_summary list \<Rightarrow> synthetic_members \<Rightarrow> synthetic_members" where
  "record_rule input explicit_methods explicit_fields out =
     (if \<not> kind_in input [''record_declaration''] then out
      else (let components = record_components (si_decl input) (si_type_ctx input)
            in if components = [] then out
               else (let ctor_desc = ''('' @ concat (map rc_descriptor components) @ '')V'';
                         out1 = (if has_method explicit_methods ''<init>'' ctor_desc then out
                                 else push_method (made_method ''<init>''
                                        (map (\<lambda>c. made_param (rc_descriptor c) (rc_name c) []) components) ACC_PUBLIC None)
                                        ctor_desc RecordCanonicalConstructor out)
                     in fold (record_accessor explicit_methods) components out1)))"

definition find_record_component_node :: "type_decl \<Rightarrow> str \<Rightarrow> node_ref option" where
  "find_record_component_node decl component_name =
     (case record_parameter_node decl of
        None \<Rightarrow> None
      | Some ps \<Rightarrow> map_option ParameterName
          (position (\<lambda>p. is_component_node p \<and> fp_name p = Some component_name) ps))"

subsection \<open>Enums\<close>

definition enum_constant_name_node :: "body_child \<Rightarrow> str option" where
  "enum_constant_name_node node =
     (case bc_name node of Some n \<Rightarrow> Some n
      | None \<Rightarrow> (case bc_identifier node of Some n \<Rightarrow> Some n | None \<Rightarrow> bc_identifier_child node))"

definition enum_constant_of :: "body_child \<Rightarrow> str option" where
  "enum_constant_of child =
     (if bc_kind child = ''enum_constant'' \<or> bc_kind child = ''enum_constant_declaration''
      then enum_constant_name_node child else None)"

definition enum_constant_names :: "type_decl \<Rightarrow> str list" where
  "enum_constant_names decl =
     (if td_kind decl \<noteq> ''enum_declaration'' then []
      else case td_body decl of None \<Rightarrow> [] | Some body \<Rightarrow> List.map_filter enum_constant_of (tb_children body))"

definition enum_rule ::
  "'c synthetic_input \<Rightarrow> method_summary list \<Rightarrow> field_summary list \<Rightarrow> synthetic_members \<Rightarrow> synthetic_members" where
  "enum_rule input explicit_methods explicit_fields out =
     (if \<not> kind_in input [''enum_declaration''] then out
      else case si_owner_internal input of
        None \<Rightarrow> out
      | Some owner \<Rightarrow>
          fold (\<lambda>const_name out.
              if list_ex (\<lambda>f. fs_name f = const_name) explicit_fields then out
              else push_field (made_field const_name (''L'' @ owner @ '';'') (ACC_PUBLIC OR ACC_STATIC OR ACC_FINAL))
                     None (EnumConstant const_name) out)
            (enum_constant_names (si_decl input)) out)"

definition find_enum_constant_node :: "type_decl \<Rightarrow> str \<Rightarrow> node_ref option" where
  "find_enum_constant_node decl constant_name =
     (case td_body decl of
        None \<Rightarrow> None
      | Some body \<Rightarrow> map_option ChildName
          (position (\<lambda>child. enum_constant_of child = Some constant_name) (tb_children body)))"

subsection \<open>Getters and setters\<close>

definition accessor_flags :: "access_level \<Rightarrow> field_summary \<Rightarrow> 16 word" where
  "accessor_flags access field =
     (if is_field_static field then to_access_flags access OR ACC_STATIC else to_access_flags access)"

definition access_of :: "annotation_summary option \<Rightarrow> access_level" where
  "access_of anno = (case anno of None \<Rightarrow> LPublic | Some a \<Rightarrow> parse_access_level a)"

definition generate_getter ::
  "field_summary \<Rightarrow> annotation_summary option \<Rightarrow> lombok_config \<Rightarrow> method_summary list
     \<Rightarrow> synthetic_members \<Rightarrow> synthetic_members" where
  "generate_getter field anno config explicit_methods out =
     (let access = access_of anno
      in if access = LNone then out
         else (let getter_name = compute_getter_name (fs_name field) (fs_descriptor field) config;
                   desc = ''()'' @ fs_descriptor field
               in if has_method explicit_methods getter_name desc then out
                  else if (case anno of None \<Rightarrow> False | Some a \<Rightarrow> get_bool_param a ''lazy'' False)
                    \<and> \<not> is_field_final field then out
                  else push_method (made_method getter_name [] (accessor_flags access field) (Some (fs_descriptor field)))
                         desc (LombokGetter (fs_name field)) out))"

definition generate_setter ::
  "field_summary \<Rightarrow> annotation_summary option \<Rightarrow> lombok_config \<Rightarrow> method_summary list
     \<Rightarrow> synthetic_members \<Rightarrow> synthetic_members" where
  "generate_setter field anno config explicit_methods out =
     (let access = access_of anno
      in if access = LNone then out
         else (let setter_name = compute_setter_name (fs_name field) config;
                   desc = ''('' @ fs_descriptor field @ '')V''
               in if has_method explicit_methods setter_name desc then out
                  else push_method (made_method setter_name [made_param (fs_descriptor field) (fs_name field) []]
                           (accessor_flags access field) None)
                         desc (LombokSetter (fs_name field)) out))"

definition first_some :: "'a option \<Rightarrow> 'a option \<Rightarrow> 'a option" where
  "first_some a b = (case a of Some x \<Rightarrow> Some x | None \<Rightarrow> b)"

text \<open>One turn of the loop over the fields of \<open>GetterSetterRule\<close>.\<close>

definition accessors_for_field ::
  "annotation_summary list \<Rightarrow> method_summary list \<Rightarrow> field_summary \<Rightarrow> synthetic_members \<Rightarrow> synthetic_members" where
  "accessors_for_field class_annotations explicit_methods field out =
     (let class_getter = find_lombok_annotation class_annotations ''lombok/Getter'';
          class_setter = find_lombok_annotation class_annotations ''lombok/Setter'';
          field_getter = find_lombok_annotation (fs_annotations field) ''lombok/Getter'';
          out1 = (if should_generate_for_field field class_getter field_getter
                  then generate_getter field (first_some field_getter class_getter) lombok_config_new explicit_methods out
                  else out);
          field_setter = find_lombok_annotation (fs_annotations field) ''lombok/Setter''
      in if \<not> is_field_final field \<and> should_generate_for_field field class_setter field_setter
         then generate_setter field (first_some field_setter class_setter) lombok_config_new explicit_methods out1
         else out1)"

definition getter_setter_rule ::
  "'c synthetic_input \<Rightarrow> method_summary list \<Rightarrow> field_summary list \<Rightarrow> synthetic_members \<Rightarrow> synthetic_members" where
  "getter_setter_rule input explicit_methods explicit_fields out =
     (if \<not> kind_in input [''class_declaration'', ''enum_declaration'', ''record_declaration'', ''interface_declaration'']
      then out
      else fold (accessors_for_field (decl_annotations input) explicit_methods) explicit_fields out)"

subsection \<open>Constructors\<close>

definition constructor_exists :: "method_summary list \<Rightarrow> str \<Rightarrow> bool" where
  "constructor_exists explicit_methods desc \<longleftrightarrow>
     list_ex (\<lambda>m. ms_name m = ''<init>'' \<and> method_desc m = desc) explicit_methods"

definition has_nonnull_annotation :: "field_summary \<Rightarrow> bool" where
  "has_nonnull_annotation field \<longleftrightarrow>
     list_ex (\<lambda>a. let name = an_internal_name a
        in name = ''lombok/NonNull'' \<or> name = ''NonNull'' \<or> ends_with name ''/NonNull'' \<or> ends_with name ''/NotNull''
           \<or> name = ''NotNull'' \<or> ends_with name ''/Nonnull'' \<or> name = ''Nonnull'') (fs_annotations field)"

definition get_required_fields :: "field_summary list \<Rightarrow> field_summary list" where
  "get_required_fields fs =
     filter (\<lambda>f. if is_field_static f then False else is_field_final f \<or> has_nonnull_annotation f) fs"

definition get_all_non_static_fields :: "field_summary list \<Rightarrow> field_summary list" where
  "get_all_non_static_fields fs = filter (\<lambda>f. \<not> is_field_static f) fs"

definition has_uninitialized_final_fields :: "field_summary list \<Rightarrow> bool" where
  "has_uninitialized_final_fields fs \<longleftrightarrow> list_ex (\<lambda>f. is_field_final f \<and> \<not> is_field_static f) fs"

definition is_copyable_annotation :: "annotation_summary \<Rightarrow> bool" where
  "is_copyable_annotation anno \<longleftrightarrow>
     (let name = an_internal_name anno
      in contains_str name ''NonNull'' \<or> contains_str name ''NotNull'' \<or> contains_str name ''Nonnull''
         \<or> contains_str name ''Nullable'')"

definition build_constructor_params :: "field_summary list \<Rightarrow> method_params" where
  "build_constructor_params fs =
     map (\<lambda>f. made_param (fs_descriptor f) (fs_name f) (filter is_copyable_annotation (fs_annotations f))) fs"

definition build_constructor_descriptor :: "method_params \<Rightarrow> str" where
  "build_constructor_descriptor params = ''('' @ concat (map mp_descriptor params) @ '')V''"

definition parse_constructor_access_level :: "annotation_summary \<Rightarrow> access_level" where
  "parse_constructor_access_level anno =
     (case (case get_annotation_value anno ''access'' of None \<Rightarrow> None | Some v \<Rightarrow> from_annotation_value v) of
        Some level \<Rightarrow> level
      | None \<Rightarrow>
          (case (case get_annotation_value anno ''value'' of None \<Rightarrow> None | Some v \<Rightarrow> from_annotation_value v) of
             Some level \<Rightarrow> level | None \<Rightarrow> LPublic))"

definition generate_static_factory_method ::
  "str \<Rightarrow> method_params \<Rightarrow> method_summary list \<Rightarrow> lombok_constructor_type \<Rightarrow> synthetic_members \<Rightarrow> synthetic_members" where
  "generate_static_factory_method static_name params explicit_methods constructor_type out =
     (let desc = ''('' @ concat (map mp_descriptor params) @ '')Ljava/lang/Object;''
      in if list_ex (\<lambda>m. ms_name m = static_name \<and> length (ms_params m) = length params) explicit_methods then out
         else push_method (made_method static_name params (ACC_PUBLIC OR ACC_STATIC) (Some ''java/lang/Object''))
                desc (LombokConstructor constructor_type) out)"

definition generate_factory_if_named ::
  "str option \<Rightarrow> method_params \<Rightarrow> method_summary list \<Rightarrow> lombok_constructor_type \<Rightarrow> synthetic_members \<Rightarrow> synthetic_members" where
  "generate_factory_if_named static_name params explicit_methods constructor_type out =
     (case static_name of
        Some name \<Rightarrow> if name \<noteq> [] then generate_static_factory_method name params explicit_methods constructor_type out else out
      | None \<Rightarrow> out)"

definition generate_no_args_constructor ::
  "annotation_summary \<Rightarrow> method_summary list \<Rightarrow> field_summary list \<Rightarrow> bool \<Rightarrow> synthetic_members \<Rightarrow> synthetic_members" where
  "generate_no_args_constructor anno explicit_methods explicit_fields is_enum out =
     (let force = get_bool_param anno ''force'' False;
          access = (if is_enum then LPrivate else parse_constructor_access_level anno)
      in if constructor_exists explicit_methods ''()V'' then out
         else if \<not> force \<and> has_uninitialized_final_fields explicit_fields then out
         else generate_factory_if_named (get_string_param anno ''staticName'') [] explicit_methods NoArgs
                (push_method (made_method ''<init>'' [] (to_access_flags access) None) ''()V''
                  (LombokConstructor NoArgs) out))"

definition generate_required_args_constructor ::
  "annotation_summary \<Rightarrow> method_summary list \<Rightarrow> field_summary list \<Rightarrow> bool \<Rightarrow> synthetic_members \<Rightarrow> synthetic_members" where
  "generate_required_args_constructor anno explicit_methods explicit_fields is_enum out =
     (let access = (if is_enum then LPrivate else parse_constructor_access_level anno);
          params = build_constructor_params (get_required_fields explicit_fields);
          desc = build_constructor_descriptor params
      in if constructor_exists explicit_methods desc then out
         else generate_factory_if_named (get_string_param anno ''staticName'') params explicit_methods RequiredArgs
                (push_method (made_method ''<init>'' params (to_access_flags access) None) desc
                  (LombokConstructor RequiredArgs) out))"

definition generate_all_args_constructor ::
  "annotation_summary \<Rightarrow> method_summary list \<Rightarrow> field_summary list \<Rightarrow> bool \<Rightarrow> synthetic_members \<Rightarrow> synthetic_members" where
  "generate_all_args_constructor anno explicit_methods explicit_fields is_enum out =
     (let access = (if is_enum then LPrivate else parse_constructor_access_level anno);
          params = build_constructor_params (get_all_non_static_fields explicit_fields);
          desc = build_constructor_descriptor params
      in if constructor_exists explicit_methods desc then out
         else generate_factory_if_named (get_string_param anno ''staticName'') params explicit_methods AllArgs
                (push_method (made_method ''<init>'' params (to_access_flags access) None) desc
                  (LombokConstructor AllArgs) out))"

definition class_kinds :: "str list" where
  "class_kinds = [''class_declaration'', ''enum_declaration'', ''record_declaration'']"

definition when_annotated ::
  "annotation_summary list \<Rightarrow> str \<Rightarrow> (annotation_summary \<Rightarrow> synthetic_members \<Rightarrow> synthetic_members)
     \<Rightarrow> synthetic_members \<Rightarrow> synthetic_members" where
  "when_annotated annos internal gen out =
     (case find_lombok_annotation annos internal of None \<Rightarrow> out | Some anno \<Rightarrow> gen anno out)"

definition constructor_rule ::
  "'c synthetic_input \<Rightarrow> method_summary list \<Rightarrow> field_summary list \<Rightarrow> synthetic_members \<Rightarrow> synthetic_members" where
  "constructor_rule input explicit_methods explicit_fields out =
     (if \<not> kind_in input class_kinds then out
      else (let is_enum = (td_kind (si_decl input) = ''enum_declaration'');
                annos = decl_annotations input;
                out1 = when_annotated annos ''lombok/NoArgsConstructor''
                  (\<lambda>a. generate_no_args_constructor a explicit_methods explicit_fields is_enum) out;
                out2 = when_annotated annos ''lombok/RequiredArgsConstructor''
                  (\<lambda>a. generate_required_args_constructor a explicit_methods explicit_fields is_enum) out1
            in when_annotated annos ''lombok/AllArgsConstructor''
                 (\<lambda>a. generate_all_args_constructor a explicit_methods explicit_fields is_enum) out2))"

subsection \<open>Data classes\<close>

definition is_annotated :: "annotation_summary list \<Rightarrow> str \<Rightarrow> bool" where
  "is_annotated annos internal \<longleftrightarrow> find_lombok_annotation annos internal \<noteq> None"

definition has_any_explicit_constructor :: "annotation_summary list \<Rightarrow> bool" where
  "has_any_explicit_constructor annos \<longleftrightarrow>
     is_annotated annos ''lombok/NoArgsConstructor'' \<or> is_annotated annos ''lombok/RequiredArgsConstructor''
     \<or> is_annotated annos ''lombok/AllArgsConstructor''"

definition has_any_constructor_in_source :: "method_summary list \<Rightarrow> bool" where
  "has_any_constructor_in_source explicit_methods \<longleftrightarrow> list_ex (\<lambda>m. ms_name m = ''<init>'') explicit_methods"

definition data_generate_getter ::
  "field_summary \<Rightarrow> annotation_summary option \<Rightarrow> lombok_config \<Rightarrow> method_summary list
     \<Rightarrow> synthetic_members \<Rightarrow> synthetic_members" where
  "data_generate_getter field anno config explicit_methods out =
     (let access = access_of anno
      in if access = LNone then out
         else (let getter_name = compute_getter_name (fs_name field) (fs_descriptor field) config;
                   desc = ''()'' @ fs_descriptor field
               in if has_method explicit_methods getter_name desc then out
                  else push_method (made_method getter_name [] (accessor_flags access field) (Some (fs_descriptor field)))
                         desc (LombokGetter (fs_name field)) out))"

definition data_generate_setter ::
  "field_summary \<Rightarrow> annotation_summary option \<Rightarrow> lombok_config \<Rightarrow> method_summary list
     \<Rightarrow> synthetic_members \<Rightarrow> synthetic_members" where
  "data_generate_setter field anno config explicit_methods out =
     (let access = access_of anno
      in if access = LNone then out
         else (let setter_name = compute_setter_name (fs_name field) config;
                   desc = ''('' @ fs_descriptor field @ '')V''
               in if has_method explicit_methods setter_name desc then out
                  else push_method (made_method setter_name [made_param (fs_descriptor field) (fs_name field) []]
                           (accessor_flags access field) None)
                         desc (LombokSetter (fs_name field)) out))"

text \<open>A field annotation overrides the class annotation; with the level \<open>NONE\<close> it switches the accessor off.\<close>

definition unless_none ::
  "annotation_summary option \<Rightarrow> (annotation_summary option \<Rightarrow> synthetic_members \<Rightarrow> synthetic_members)
     \<Rightarrow> synthetic_members \<Rightarrow> synthetic_members" where
  "unless_none field_anno gen out =
     (case field_anno of
        Some a \<Rightarrow> if parse_access_level a \<noteq> LNone then gen (Some a) out else out
      | None \<Rightarrow> gen None out)"

definition data_accessors_for_field ::
  "lombok_config \<Rightarrow> method_summary list \<Rightarrow> bool \<Rightarrow> bool \<Rightarrow> field_summary \<Rightarrow> synthetic_members \<Rightarrow> synthetic_members" where
  "data_accessors_for_field config explicit_methods has_explicit_getter has_explicit_setter field out =
     (if is_field_static field then out
      else (let out1 = (if \<not> has_explicit_getter
                  then unless_none (find_lombok_annotation (fs_annotations field) ''lombok/Getter'')
                         (\<lambda>a. data_generate_getter field a config explicit_methods) out
                  else out)
            in if \<not> has_explicit_setter \<and> \<not> is_field_final field
               then unless_none (find_lombok_annotation (fs_annotations field) ''lombok/Setter'')
                      (\<lambda>a. data_generate_setter field a config explicit_methods) out1
               else out1))"

definition generate_getters_and_setters ::
  "field_summary list \<Rightarrow> method_summary list \<Rightarrow> lombok_config \<Rightarrow> bool \<Rightarrow> bool \<Rightarrow> synthetic_members \<Rightarrow> synthetic_members" where
  "generate_getters_and_setters explicit_fields explicit_methods config has_explicit_getter has_explicit_setter out =
     fold (data_accessors_for_field config explicit_methods has_explicit_getter has_explicit_setter) explicit_fields out"

definition generate_to_string_for_data :: "method_summary list \<Rightarrow> synthetic_members \<Rightarrow> synthetic_members" where
  "generate_to_string_for_data explicit_methods out =
     (if list_ex (\<lambda>m. ms_name m = ''toString'' \<and> ms_params m = []) explicit_methods then out
      else push_method (made_method ''toString'' [] ACC_PUBLIC (Some ''Ljava/lang/String;''))
             ''()Ljava/lang/String;'' LombokToString out)"

text \<open>The three methods that \<open>equals\<close> rules push.\<close>

definition other_param :: method_param where
  "other_param = made_param ''Ljava/lang/Object;'' ''other'' []"

definition push_equals :: "synthetic_members \<Rightarrow> synthetic_members" where
  "push_equals = push_method (made_method ''equals'' [other_param] ACC_PUBLIC (Some ''Z'')) ''(Ljava/lang/Object;)Z'' LombokEquals"

definition push_hash_code :: "synthetic_members \<Rightarrow> synthetic_members" where
  "push_hash_code = push_method (made_method ''hashCode'' [] ACC_PUBLIC (Some ''I'')) ''()I'' LombokHashCode"

definition push_can_equal :: "synthetic_members \<Rightarrow> synthetic_members" where
  "push_can_equal =
     push_method (made_method ''canEqual'' [other_param] ACC_PROTECTED (Some ''Z'')) ''(Ljava/lang/Object;)Z'' LombokEquals"

definition generate_equals_and_hash_code_for_data :: "method_summary list \<Rightarrow> synthetic_members \<Rightarrow> synthetic_members" where
  "generate_equals_and_hash_code_for_data explicit_methods out =
     (if has_method explicit_methods ''equals'' ''(Ljava/lang/Object;)Z'' \<or> has_method explicit_methods ''hashCode'' ''()I''
      then out
      else push_can_equal (push_hash_code (push_equals out)))"

definition generate_required_args_constructor_for_data ::
  "annotation_summary \<Rightarrow> field_summary list \<Rightarrow> method_summary list \<Rightarrow> synthetic_members \<Rightarrow> synthetic_members" where
  "generate_required_args_constructor_for_data anno explicit_fields explicit_methods out =
     (let params = build_constructor_params (get_required_fields explicit_fields);
          desc = build_constructor_descriptor params
      in if constructor_exists explicit_methods desc then out
         else generate_factory_if_named (get_string_param anno ''staticConstructor'') params explicit_methods RequiredArgs
                (push_method (made_method ''<init>'' params ACC_PUBLIC None) desc (LombokConstructor RequiredArgs) out))"

definition data_rule ::
  "'c synthetic_input \<Rightarrow> method_summary list \<Rightarrow> field_summary list \<Rightarrow> synthetic_members \<Rightarrow> synthetic_members" where
  "data_rule input explicit_methods explicit_fields out =
     (if \<not> kind_in input class_kinds then out
      else (let annos = decl_annotations input
            in when_annotated annos ''lombok/Data'' (\<lambda>data_anno out.
                 let has_explicit_getter = is_annotated annos ''lombok/Getter'';
                     has_explicit_setter = is_annotated annos ''lombok/Setter'';
                     has_explicit_constructor = (has_any_explicit_constructor annos
                       \<or> has_any_constructor_in_source explicit_methods);
                     out1 = (if \<not> has_explicit_getter \<or> \<not> has_explicit_setter
                       then generate_getters_and_setters explicit_fields explicit_methods lombok_config_new
                              has_explicit_getter has_explicit_setter out else out);
                     out2 = (if \<not> is_annotated annos ''lombok/ToString''
                       then generate_to_string_for_data explicit_methods out1 else out1);
                     out3 = (if \<not> is_annotated annos ''lombok/EqualsAndHashCode''
                       then generate_equals_and_hash_code_for_data explicit_methods out2 else out2)
                 in if \<not> has_explicit_constructor
                    then generate_required_args_constructor_for_data data_anno explicit_fields explicit_methods out3
                    else out3) out))"

subsection \<open>Values\<close>

text \<open>\<open>value_rule.rs\<close> repeats the functions of \<open>data_rule.rs\<close> that it needs.\<close>

definition value_generate_getter ::
  "field_summary \<Rightarrow> annotation_summary option \<Rightarrow> lombok_config \<Rightarrow> method_summary list
     \<Rightarrow> synthetic_members \<Rightarrow> synthetic_members" where
  "value_generate_getter = data_generate_getter"

definition generate_getters_for_value ::
  "field_summary list \<Rightarrow> method_summary list \<Rightarrow> lombok_config \<Rightarrow> synthetic_members \<Rightarrow> synthetic_members" where
  "generate_getters_for_value explicit_fields explicit_methods config out =
     fold (\<lambda>field out. if is_field_static field then out
        else unless_none (find_lombok_annotation (fs_annotations field) ''lombok/Getter'')
               (\<lambda>a. value_generate_getter field a config explicit_methods) out) explicit_fields out"

definition generate_to_string_for_value :: "method_summary list \<Rightarrow> synthetic_members \<Rightarrow> synthetic_members" where
  "generate_to_string_for_value = generate_to_string_for_data"

definition generate_equals_and_hash_code_for_value :: "method_summary list \<Rightarrow> synthetic_members \<Rightarrow> synthetic_members" where
  "generate_equals_and_hash_code_for_value = generate_equals_and_hash_code_for_data"

definition generate_all_args_constructor_for_value ::
  "annotation_summary \<Rightarrow> field_summary list \<Rightarrow> method_summary list \<Rightarrow> synthetic_members \<Rightarrow> synthetic_members" where
  "generate_all_args_constructor_for_value anno explicit_fields explicit_methods out =
     (let params = build_constructor_params (get_all_non_static_fields explicit_fields);
          desc = build_constructor_descriptor params
      in if constructor_exists explicit_methods desc then out
         else generate_factory_if_named (get_string_param anno ''staticConstructor'') params explicit_methods AllArgs
                (push_method (made_method ''<init>'' params ACC_PUBLIC None) desc (LombokConstructor AllArgs) out))"

definition value_rule ::
  "'c synthetic_input \<Rightarrow> method_summary list \<Rightarrow> field_summary list \<Rightarrow> synthetic_members \<Rightarrow> synthetic_members" where
  "value_rule input explicit_methods explicit_fields out =
     (if \<not> kind_in input class_kinds then out
      else (let annos = decl_annotations input
            in when_annotated annos ''lombok/Value'' (\<lambda>value_anno out.
                 let has_explicit_constructor = (has_any_explicit_constructor annos
                       \<or> has_any_constructor_in_source explicit_methods);
                     out1 = (if \<not> is_annotated annos ''lombok/Getter''
                       then generate_getters_for_value explicit_fields explicit_methods lombok_config_new out else out);
                     out2 = (if \<not> is_annotated annos ''lombok/ToString''
                       then generate_to_string_for_value explicit_methods out1 else out1);
                     out3 = (if \<not> is_annotated annos ''lombok/EqualsAndHashCode''
                       then generate_equals_and_hash_code_for_value explicit_methods out2 else out2)
                 in if \<not> has_explicit_constructor
                    then generate_all_args_constructor_for_value value_anno explicit_fields explicit_methods out3
                    else out3) out))"

subsection \<open>\<open>toString\<close> and \<open>equals\<close>\<close>

definition field_listed :: "str \<Rightarrow> str list \<Rightarrow> bool" where
  "field_listed field_name names \<longleftrightarrow> list_ex (\<lambda>f. f = field_name) names"

definition has_annotation_in :: "str list \<Rightarrow> field_summary \<Rightarrow> bool" where
  "has_annotation_in names field \<longleftrightarrow> list_ex (\<lambda>a. an_internal_name a \<in> set names) (fs_annotations field)"

text \<open>The end of both loops: lists of names, then the annotations of the field.\<close>

definition field_selected :: "str \<Rightarrow> str list \<Rightarrow> str list \<Rightarrow> bool \<Rightarrow> field_summary \<Rightarrow> bool" where
  "field_selected anno exclude_fields of_fields only_explicitly_included field \<longleftrightarrow>
     (if of_fields \<noteq> [] then field_listed (fs_name field) of_fields
      else if field_listed (fs_name field) exclude_fields then False
      else if has_annotation_in [''lombok/'' @ anno @ ''$Exclude'', anno @ ''$Exclude''] field then False
      else if only_explicitly_included then has_annotation_in [''lombok/'' @ anno @ ''$Include'', anno @ ''$Include''] field
      else True)"

definition determine_fields_to_include ::
  "field_summary list \<Rightarrow> str list \<Rightarrow> str list \<Rightarrow> bool \<Rightarrow> str list" where
  "determine_fields_to_include explicit_fields exclude_fields of_fields only_explicitly_included =
     map fs_name (filter (\<lambda>field. if is_field_static field then False
        else field_selected ''ToString'' exclude_fields of_fields only_explicitly_included field) explicit_fields)"

definition generate_to_string_method :: "annotation_summary \<Rightarrow> method_summary list \<Rightarrow> synthetic_members \<Rightarrow> synthetic_members" where
  "generate_to_string_method anno explicit_methods out =
     (if list_ex (\<lambda>m. ms_name m = ''toString'' \<and> ms_params m = []) explicit_methods then out
      else push_method (made_method ''toString'' [] ACC_PUBLIC (Some ''java/lang/String''))
             ''()Ljava/lang/String;'' LombokToString out)"

definition to_string_rule ::
  "'c synthetic_input \<Rightarrow> method_summary list \<Rightarrow> field_summary list \<Rightarrow> synthetic_members \<Rightarrow> synthetic_members" where
  "to_string_rule input explicit_methods explicit_fields out =
     (if \<not> kind_in input class_kinds then out
      else when_annotated (decl_annotations input) ''lombok/ToString''
             (\<lambda>anno. generate_to_string_method anno explicit_methods) out)"

definition is_field_transient :: "field_summary \<Rightarrow> bool" where
  "is_field_transient field \<longleftrightarrow> fs_access_flags field AND ACC_TRANSIENT \<noteq> 0"

definition determine_fields_for_equals_hash_code ::
  "field_summary list \<Rightarrow> str list \<Rightarrow> str list \<Rightarrow> bool \<Rightarrow> str list" where
  "determine_fields_for_equals_hash_code explicit_fields exclude_fields of_fields only_explicitly_included =
     map fs_name (filter (\<lambda>field. if is_field_static field \<or> is_field_transient field then False
        else if starts_with (fs_name field) ''$'' \<and> of_fields = [] \<and> \<not> only_explicitly_included then False
        else field_selected ''EqualsAndHashCode'' exclude_fields of_fields only_explicitly_included field) explicit_fields)"

definition has_equals_method :: "method_summary list \<Rightarrow> str \<Rightarrow> str \<Rightarrow> bool" where
  "has_equals_method methods name desc =
     (if name = ''equals''
      then list_ex (\<lambda>m. ms_name m = ''equals'' \<and>
             (case ms_params m of [p] \<Rightarrow> mp_descriptor p = ''Ljava/lang/Object;'' \<or> mp_descriptor p = ''LObject;'' | _ \<Rightarrow> False)) methods
      else if name = ''hashCode'' then list_ex (\<lambda>m. ms_name m = ''hashCode'' \<and> ms_params m = []) methods
      else list_ex (\<lambda>m. ms_name m = name \<and> method_desc m = desc) methods)"

definition generate_equals_and_hash_code_methods :: "method_summary list \<Rightarrow> synthetic_members \<Rightarrow> synthetic_members" where
  "generate_equals_and_hash_code_methods explicit_methods out =
     (if has_equals_method explicit_methods ''equals'' ''(Ljava/lang/Object;)Z''
        \<or> has_equals_method explicit_methods ''hashCode'' ''()I''
      then out
      else push_can_equal (push_hash_code (push_equals out)))"

definition equals_and_hash_code_rule ::
  "'c synthetic_input \<Rightarrow> method_summary list \<Rightarrow> field_summary list \<Rightarrow> synthetic_members \<Rightarrow> synthetic_members" where
  "equals_and_hash_code_rule input explicit_methods explicit_fields out =
     (if \<not> kind_in input class_kinds then out
      else when_annotated (decl_annotations input) ''lombok/EqualsAndHashCode''
             (\<lambda>anno. generate_equals_and_hash_code_methods explicit_methods) out)"

subsection \<open>Builders\<close>

definition method_exists :: "method_summary list \<Rightarrow> str \<Rightarrow> str \<Rightarrow> bool" where
  "method_exists methods name descriptor_prefix \<longleftrightarrow>
     list_ex (\<lambda>m. ms_name m = name \<and> starts_with (method_desc m) descriptor_prefix) methods"

definition generate_builder_method :: "str \<Rightarrow> str \<Rightarrow> access_level \<Rightarrow> synthetic_members \<Rightarrow> synthetic_members" where
  "generate_builder_method name builder_class_name access out =
     push_method (made_method name [] (to_access_flags access OR ACC_STATIC) (Some (''L'' @ builder_class_name @ '';'')))
       (''()L'' @ builder_class_name @ '';'') (LombokBuilder BuilderStart) out"

definition generate_to_builder_method :: "str \<Rightarrow> synthetic_members \<Rightarrow> synthetic_members" where
  "generate_to_builder_method builder_class_name out =
     push_method (made_method ''toBuilder'' [] ACC_PUBLIC (Some (''L'' @ builder_class_name @ '';'')))
       (''()L'' @ builder_class_name @ '';'') (LombokBuilder BuilderStart) out"

definition generate_builder_class ::
  "str option \<Rightarrow> str \<Rightarrow> str \<Rightarrow> str \<Rightarrow> field_summary list \<Rightarrow> access_level \<Rightarrow> synthetic_members \<Rightarrow> synthetic_members" where
  "generate_builder_class owner builder_class_name owner_class_name build_method_name builder_fields access out =
     (let owner_internal = or_default owner owner_class_name;
          setters = map (\<lambda>f. made_method (fs_name f) [made_param (fs_descriptor f) (fs_name f) []] ACC_PUBLIC
            (Some (''L'' @ builder_class_name @ '';''))) builder_fields
      in out\<lparr>so_nested_classes := so_nested_classes out @
           [\<lparr>cm_package = Some [], cm_name = builder_class_name,
             cm_internal_name = owner_internal @ ''$'' @ builder_class_name,
             cm_super_name = Some ''java/lang/Object'', cm_interfaces = [], cm_annotations = [],
             cm_methods = setters @ [made_method build_method_name [] ACC_PUBLIC (Some (''L'' @ owner_internal @ '';'')),
               made_method ''toString'' [] ACC_PUBLIC (Some ''Ljava/lang/String;'')],
             cm_fields = map (\<lambda>f. made_field (fs_name f) (fs_descriptor f) 0) builder_fields,
             cm_access_flags = to_access_flags access OR ACC_STATIC, cm_generic_signature = None,
             cm_inner_class_of = Some owner_internal, cm_origin = UnknownOrigin\<rparr>]\<rparr>)"

definition generate_builder_for_class ::
  "'c synthetic_input \<Rightarrow> annotation_summary \<Rightarrow> field_summary list \<Rightarrow> method_summary list \<Rightarrow> synthetic_members \<Rightarrow> synthetic_members" where
  "generate_builder_for_class input anno explicit_fields explicit_methods out =
     (let class_name = or_default (td_name (si_decl input)) []
      in if class_name = [] then out
         else (let builder_method_name = or_default (get_string_param anno ''builderMethodName'') ''builder'';
                   build_method_name = or_default (get_string_param anno ''buildMethodName'') ''build'';
                   builder_class_name = or_default (get_string_param anno ''builderClassName'') (class_name @ ''Builder'');
                   access = parse_access_level anno;
                   builder_fields = filter (\<lambda>f. \<not> is_field_static f) explicit_fields;
                   out1 = (if \<not> method_exists explicit_methods builder_method_name ''()''
                     then generate_builder_method builder_method_name builder_class_name access out else out);
                   out2 = (if get_bool_param anno ''toBuilder'' False \<and> \<not> method_exists explicit_methods ''toBuilder'' ''()''
                     then generate_to_builder_method builder_class_name out1 else out1)
               in generate_builder_class (si_owner_internal input) builder_class_name class_name build_method_name
                    builder_fields access out2))"

definition builder_rule ::
  "'c synthetic_input \<Rightarrow> method_summary list \<Rightarrow> field_summary list \<Rightarrow> synthetic_members \<Rightarrow> synthetic_members" where
  "builder_rule input explicit_methods explicit_fields out =
     (if \<not> kind_in input [''class_declaration''] then out
      else when_annotated (decl_annotations input) ''lombok/Builder''
             (\<lambda>anno. generate_builder_for_class input anno explicit_fields explicit_methods) out)"

subsection \<open>Copies with one field changed\<close>

definition should_generate_with_for_field ::
  "field_summary \<Rightarrow> annotation_summary option \<Rightarrow> annotation_summary option \<Rightarrow> bool" where
  "should_generate_with_for_field field class_level_anno field_level_anno =
     (if is_field_static field then False
      else case field_level_anno of
        Some anno \<Rightarrow> parse_access_level anno \<noteq> LNone
      | None \<Rightarrow> (case class_level_anno of Some anno \<Rightarrow> parse_access_level anno \<noteq> LNone | None \<Rightarrow> False))"

definition compute_with_name :: "str \<Rightarrow> lombok_config \<Rightarrow> str" where
  "compute_with_name field_name config = ''with'' @ capitalize_first (strip_field_prefix field_name config)"

definition generate_with_method ::
  "field_summary \<Rightarrow> annotation_summary option \<Rightarrow> lombok_config \<Rightarrow> method_summary list \<Rightarrow> str option
     \<Rightarrow> synthetic_members \<Rightarrow> synthetic_members" where
  "generate_with_method field anno config explicit_methods owner out =
     (let access = access_of anno
      in if access = LNone then out
         else (let with_name = compute_with_name (fs_name field) config;
                   ret = (case owner of Some n \<Rightarrow> ''L'' @ n @ '';'' | None \<Rightarrow> ''Ljava/lang/Object;'');
                   desc = ''('' @ fs_descriptor field @ '')'' @ ret
               in if has_method explicit_methods with_name desc then out
                  else push_method (made_method with_name
                           [made_param (fs_descriptor field) (fs_name field)
                              (if is_field_non_null field then [AnnotationSummary ''lombok/NonNull'' True []] else [])]
                           (to_access_flags access) (Some ret))
                         desc (LombokWith (fs_name field)) out))"

definition with_rule ::
  "'c synthetic_input \<Rightarrow> method_summary list \<Rightarrow> field_summary list \<Rightarrow> synthetic_members \<Rightarrow> synthetic_members" where
  "with_rule input explicit_methods explicit_fields out =
     (if \<not> kind_in input [''class_declaration'', ''record_declaration'', ''interface_declaration''] then out
      else (let annos = decl_annotations input;
                class_anno = first_some (find_lombok_annotation annos ''lombok/With'')
                  (find_lombok_annotation annos ''lombok/experimental/Wither'')
            in fold (\<lambda>field out.
                 let field_anno = first_some (find_lombok_annotation (fs_annotations field) ''lombok/With'')
                       (find_lombok_annotation (fs_annotations field) ''lombok/experimental/Wither'')
                 in if should_generate_with_for_field field class_anno field_anno
                    then generate_with_method field (first_some field_anno class_anno) lombok_config_new explicit_methods
                           (si_owner_internal input) out
                    else out) explicit_fields out))"

subsection \<open>Loggers\<close>

text \<open>The annotation of each framework and the type of its logger; the factory methods are not read.\<close>

definition log_frameworks :: "(str \<times> str) list" where
  "log_frameworks =
     [(''lombok/extern/slf4j/Slf4j'', ''Lorg/slf4j/Logger;''),
      (''lombok/extern/java/Log'', ''Ljava/util/logging/Logger;''),
      (''lombok/extern/log4j/Log4j'', ''Lorg/apache/log4j/Logger;''),
      (''lombok/extern/log4j/Log4j2'', ''Lorg/apache/logging/log4j/Logger;''),
      (''lombok/extern/apachecommons/CommonsLog'', ''Lorg/apache/commons/logging/Log;''),
      (''lombok/extern/jbosslog/JBossLog'', ''Lorg/jboss/logging/Logger;''),
      (''lombok/extern/flogger/Flogger'', ''Lcom/google/common/flogger/FluentLogger;''),
      (''lombok/extern/slf4j/XSlf4j'', ''Lorg/slf4j/ext/XLogger;'')]"

definition find_log_annotation :: "annotation_summary list \<Rightarrow> (annotation_summary \<times> str) option" where
  "find_log_annotation annos =
     find_map (\<lambda>(anno, logger_type). map_option (\<lambda>a. (a, logger_type)) (find_lombok_annotation annos anno)) log_frameworks"

definition generate_log_field :: "str \<Rightarrow> str \<Rightarrow> lombok_config \<Rightarrow> synthetic_members \<Rightarrow> synthetic_members" where
  "generate_log_field logger_type field_name config out =
     (let is_static = or_default (config_bool config ''lombok.log.fieldIsStatic'') True;
          flags = (if is_static then ACC_PRIVATE OR ACC_FINAL OR ACC_STATIC else ACC_PRIVATE OR ACC_FINAL)
      in push_field (made_field field_name logger_type flags) (Some logger_type) LombokLog out)"

definition log_rule ::
  "'c synthetic_input \<Rightarrow> method_summary list \<Rightarrow> field_summary list \<Rightarrow> synthetic_members \<Rightarrow> synthetic_members" where
  "log_rule input explicit_methods explicit_fields out =
     (if \<not> kind_in input class_kinds then out
      else (let config = lombok_config_new;
                field_name = or_default (config_get config ''lombok.log.fieldName'') ''log''
            in if list_ex (\<lambda>f. fs_name f = field_name) explicit_fields then out
               else case find_log_annotation (decl_annotations input) of
                 Some (_, logger_type) \<Rightarrow> generate_log_field logger_type field_name config out
               | None \<Rightarrow> out))"

subsection \<open>Delegates\<close>

definition class_item :: "annotation_value \<Rightarrow> str option" where
  "class_item v = (case v of AClass n \<Rightarrow> Some n | _ \<Rightarrow> None)"

definition get_types_parameter :: "annotation_summary \<Rightarrow> str list" where
  "get_types_parameter anno =
     (case get_annotation_value anno ''types'' of
        Some (AArray items) \<Rightarrow> List.map_filter class_item items | Some (AClass n) \<Rightarrow> [n] | _ \<Rightarrow> [])"

definition find_delegate_annotation :: "annotation_summary list \<Rightarrow> annotation_summary option" where
  "find_delegate_annotation annos =
     (case find_lombok_annotation annos ''lombok/experimental/Delegate'' of
        Some a \<Rightarrow> Some a | None \<Rightarrow> find (\<lambda>a. an_internal_name a = ''lombok/Delegate'') annos)"

definition delegate_simple_name :: "str \<Rightarrow> str" where
  "delegate_simple_name ty =
     last_piece (CHR ''/'') (rev (dropWhile (\<lambda>c. c = CHR '';'') (rev (dropWhile (\<lambda>c. c = CHR ''L'') ty))))"

fun member_method :: "current_class_member \<Rightarrow> method_summary option" where
  "member_method (MethodMember m) = Some m"
| "member_method (FieldMember f) = None"

fun member_field :: "current_class_member \<Rightarrow> field_summary option" where
  "member_field (MethodMember m) = None"
| "member_field (FieldMember f) = Some f"

definition extract_methods_from_type :: "body_child \<Rightarrow> method_summary list option" where
  "extract_methods_from_type node = map_option (List.map_filter member_method) (bc_members node)"

definition is_type_named :: "str \<Rightarrow> body_child \<Rightarrow> bool" where
  "is_type_named simple_name child \<longleftrightarrow>
     (bc_kind child = ''interface_declaration'' \<or> bc_kind child = ''class_declaration'') \<and> bc_name child = Some simple_name"

definition find_type_methods_in_source :: "type_decl \<Rightarrow> str \<Rightarrow> method_summary list option" where
  "find_type_methods_in_source decl ty =
     (let simple_name = delegate_simple_name ty
      in case (case td_body decl of None \<Rightarrow> None | Some body \<Rightarrow> find (is_type_named simple_name) (tb_children body)) of
           Some child \<Rightarrow> extract_methods_from_type child
         | None \<Rightarrow>
             (case td_siblings decl of
                None \<Rightarrow> None
              | Some siblings \<Rightarrow>
                  (case find (is_type_named simple_name) siblings of
                     Some child \<Rightarrow> extract_methods_from_type child | None \<Rightarrow> None)))"

definition resolve_delegate_type_internal :: "'c source_type_ctx \<Rightarrow> str \<Rightarrow> str option" where
  "resolve_delegate_type_internal type_ctx ty =
     (case parse_single_type_to_internal ty of
        Some t \<Rightarrow> Some (erased_internal t)
      | None \<Rightarrow>
          (let trimmed = trim ty
           in if contains_char trimmed (CHR ''/'') then Some trimmed
              else map_option erased_internal (resolve_type_name_strict type_ctx trimmed)))"

definition find_type_methods_in_index :: "'c source_type_ctx \<Rightarrow> str \<Rightarrow> rust_panic + method_summary list option" where
  "find_type_methods_in_index type_ctx ty =
     (case tc_view type_ctx of
        None \<Rightarrow> Inr None
      | Some v \<Rightarrow>
          (case resolve_delegate_type_internal type_ctx ty of
             None \<Rightarrow> Inr None
           | Some internal \<Rightarrow>
               map_ok (\<lambda>found. if fst found = [] then None else Some (fst found))
                 (view_collect_inherited_members v internal)))"

definition find_type_methods :: "'c synthetic_input \<Rightarrow> str \<Rightarrow> rust_panic + method_summary list option" where
  "find_type_methods input ty =
     (case find_type_methods_in_source (si_decl input) ty of
        Some methods \<Rightarrow> Inr (Some methods)
      | None \<Rightarrow> find_type_methods_in_index (si_type_ctx input) ty)"

definition is_object_method_name :: "str \<Rightarrow> bool" where
  "is_object_method_name name \<longleftrightarrow>
     name \<in> set [''equals'', ''hashCode'', ''toString'', ''clone'', ''finalize'', ''getClass'', ''notify'', ''notifyAll'', ''wait'']"

definition generate_delegate_method ::
  "field_summary \<Rightarrow> method_summary list \<Rightarrow> method_summary \<Rightarrow> synthetic_members \<Rightarrow> synthetic_members" where
  "generate_delegate_method field explicit_methods source_method out =
     (let name = ms_name source_method; desc = method_desc source_method
      in if has_method explicit_methods name desc \<or> has_method (so_methods out) name desc then out
         else if is_object_method_name name then out
         else push_method ((made_method name (ms_params source_method) ACC_PUBLIC (ms_return_type source_method))
                  \<lparr>ms_generic_signature := ms_generic_signature source_method\<rparr>)
                desc (LombokDelegate (fs_name field)) out)"

definition generate_delegate_methods ::
  "'c synthetic_input \<Rightarrow> method_summary list \<Rightarrow> field_summary \<Rightarrow> annotation_summary \<Rightarrow> synthetic_members
     \<Rightarrow> rust_panic + synthetic_members" where
  "generate_delegate_methods input explicit_methods field anno out =
     (let types_to_delegate = get_types_parameter anno;
          targets = (if types_to_delegate = [] then [fs_descriptor field] else types_to_delegate)
      in map_ok (\<lambda>found.
           let added = fold (\<lambda>methods. fold (generate_delegate_method field explicit_methods) methods)
                 (List.map_filter id found) out
           in added\<lparr>so_definitions := so_definitions added @
                [\<lparr>sd_kind = SynMethod, sd_name = ''$delegate$'' @ fs_name field, sd_descriptor = None,
                  sd_origin = LombokDelegate (fs_name field)\<rparr>]\<rparr>)
         (try_map (find_type_methods input) targets))"

fun delegate_fields ::
  "'c synthetic_input \<Rightarrow> method_summary list \<Rightarrow> field_summary list \<Rightarrow> synthetic_members \<Rightarrow> rust_panic + synthetic_members" where
  "delegate_fields input explicit_methods [] out = Inr out"
| "delegate_fields input explicit_methods (field # fs) out =
     and_then (case find_delegate_annotation (fs_annotations field) of
         None \<Rightarrow> Inr out
       | Some anno \<Rightarrow> if is_field_static field then Inr out
                      else generate_delegate_methods input explicit_methods field anno out)
       (delegate_fields input explicit_methods fs)"

definition delegate_rule ::
  "'c synthetic_input \<Rightarrow> method_summary list \<Rightarrow> field_summary list \<Rightarrow> synthetic_members \<Rightarrow> rust_panic + synthetic_members" where
  "delegate_rule input explicit_methods explicit_fields out =
     (if \<not> kind_in input [''class_declaration'', ''interface_declaration''] then Inr out
      else delegate_fields input explicit_methods explicit_fields out)"

subsection \<open>All rules\<close>

definition synthesize_for_type ::
  "'c synthetic_input \<Rightarrow> method_summary list \<Rightarrow> field_summary list \<Rightarrow> rust_panic + synthetic_members" where
  "synthesize_for_type input explicit_methods explicit_fields =
     delegate_rule input explicit_methods explicit_fields
       (fold (\<lambda>rule. rule input explicit_methods explicit_fields)
          [record_rule, enum_rule, data_rule, value_rule, getter_setter_rule, to_string_rule, equals_and_hash_code_rule,
           constructor_rule, builder_rule, with_rule, log_rule] synthetic_default)"

definition decl_members :: "type_decl \<Rightarrow> current_class_member list" where
  "decl_members decl = (case td_body decl of None \<Rightarrow> [] | Some body \<Rightarrow> tb_members body)"

definition decl_methods :: "type_decl \<Rightarrow> method_summary list" where
  "decl_methods decl = List.map_filter member_method (decl_members decl)"

definition decl_fields :: "type_decl \<Rightarrow> field_summary list" where
  "decl_fields decl = List.map_filter member_field (decl_members decl)"

definition extract_type_members_with_synthetics :: "'c synthetic_input \<Rightarrow> rust_panic + current_class_member list" where
  "extract_type_members_with_synthetics input =
     (if kind_in input [''ERROR''] then Inr []
      else map_ok (\<lambda>synthetic. map MethodMember (so_methods synthetic) @ map FieldMember (so_fields synthetic)
                  @ decl_members (si_decl input))
             (synthesize_for_type input (decl_methods (si_decl input)) (decl_fields (si_decl input))))"

definition find_declarator :: "str \<Rightarrow> body_child \<Rightarrow> nat option" where
  "find_declarator field_name child =
     (if bc_kind child \<noteq> ''field_declaration'' then None
      else position (\<lambda>(kind, name). kind = ''variable_declarator'' \<and> name = Some field_name) (bc_declarators child))"

definition find_field_node :: "type_decl \<Rightarrow> str \<Rightarrow> node_ref option" where
  "find_field_node decl field_name =
     (case td_body decl of
        None \<Rightarrow> None
      | Some body \<Rightarrow>
          find_map (\<lambda>(i, child). map_option (DeclaratorName i) (find_declarator field_name child))
            (List.enumerate 0 (tb_children body)))"

definition name_node :: "type_decl \<Rightarrow> node_ref option" where
  "name_node decl = map_option (\<lambda>_. NameNode) (td_name decl)"

fun origin_node :: "type_decl \<Rightarrow> synthetic_origin \<Rightarrow> node_ref option" where
  "origin_node decl (RecordComponentAccessor n) = find_record_component_node decl n"
| "origin_node decl RecordCanonicalConstructor =
     (case record_parameter_node decl of Some _ \<Rightarrow> Some ParametersNode | None \<Rightarrow> name_node decl)"
| "origin_node decl (EnumConstant n) = find_enum_constant_node decl n"
| "origin_node decl (LombokGetter n) = find_field_node decl n"
| "origin_node decl (LombokSetter n) = find_field_node decl n"
| "origin_node decl (LombokWith n) = find_field_node decl n"
| "origin_node decl (LombokDelegate n) = find_field_node decl n"
| "origin_node decl LombokToString = name_node decl"
| "origin_node decl LombokEquals = name_node decl"
| "origin_node decl LombokHashCode = name_node decl"
| "origin_node decl (LombokConstructor _) = name_node decl"
| "origin_node decl (LombokBuilder _) = name_node decl"
| "origin_node decl LombokLog = name_node decl"

definition definition_matches ::
  "synthetic_definition_kind \<Rightarrow> str \<Rightarrow> str option \<Rightarrow> synthetic_definition \<Rightarrow> bool" where
  "definition_matches kind name desc d \<longleftrightarrow>
     sd_kind d = kind \<and> sd_name d = name \<and> (desc \<noteq> None \<longrightarrow> sd_descriptor d = desc)"

definition resolve_synthetic_definition ::
  "'c synthetic_input \<Rightarrow> synthetic_definition_kind \<Rightarrow> str \<Rightarrow> str option \<Rightarrow> rust_panic + node_ref option" where
  "resolve_synthetic_definition input kind name desc =
     map_ok (\<lambda>synthetic.
         find_map (\<lambda>d. if definition_matches kind name desc d then origin_node (si_decl input) (sd_origin d) else None)
           (so_definitions synthetic))
       (synthesize_for_type input (decl_methods (si_decl input)) (decl_fields (si_decl input)))"

end
