(* ===== verification/Synthetic_Laws.thy ===== *)
theory Synthetic_Laws
  imports Synthetic_Members
begin

text \<open>
  Laws of synthesised members: what every rule pushes has a definition that leads to a node, never
  repeats a declared member and keeps the members before; delegates never repeat a member; records have
  all their accessors; \<open>@Data\<close> is what its documentation says. The last section holds the cases where a
  rule differs from Lombok or Java.
\<close>

subsection \<open>What the rules push\<close>

lemma made_simps [simp]:
  "ms_name (made_method n ps fl ret) = n" "ms_params (made_method n ps fl ret) = ps"
  "ms_access_flags (made_method n ps fl ret) = fl" "ms_return_type (made_method n ps fl ret) = ret"
  "method_desc (made_method n ps fl ret) = ''('' @ concat (map mp_descriptor ps) @ '')'' @ (case ret of None \<Rightarrow> ''V'' | Some r \<Rightarrow> r)"
  "fs_name (made_field n d fl) = n" "fs_descriptor (made_field n d fl) = d"
  "mp_descriptor (made_param d n as) = d" "mp_name (made_param d n as) = n"
  by (simp_all add: made_method_def made_field_def made_param_def method_desc_def)

lemma push_simps [simp]:
  "so_methods (push_method m d og out) = so_methods out @ [m]" "so_fields (push_method m d og out) = so_fields out"
  "so_definitions (push_method m d og out) = so_definitions out
     @ [\<lparr>sd_kind = SynMethod, sd_name = ms_name m, sd_descriptor = Some d, sd_origin = og\<rparr>]"
  "so_methods (push_field f fd og out) = so_methods out" "so_fields (push_field f fd og out) = so_fields out @ [f]"
  "so_definitions (push_field f fd og out) = so_definitions out
     @ [\<lparr>sd_kind = SynField, sd_name = fs_name f, sd_descriptor = fd, sd_origin = og\<rparr>]"
  by (simp_all add: push_method_def push_field_def)

text \<open>The second set of members is the first with pushes that satisfy the predicates.\<close>

inductive grows ::
  "(method_summary \<Rightarrow> str \<Rightarrow> synthetic_origin \<Rightarrow> bool) \<Rightarrow> (field_summary \<Rightarrow> str option \<Rightarrow> synthetic_origin \<Rightarrow> bool)
     \<Rightarrow> synthetic_members \<Rightarrow> synthetic_members \<Rightarrow> bool" for P Q where
  grows_refl [simp, intro]: "grows P Q out out"
| grows_method: "grows P Q out a \<Longrightarrow> P m d og \<Longrightarrow> grows P Q out (push_method m d og a)"
| grows_field: "grows P Q out a \<Longrightarrow> Q f fd og \<Longrightarrow> grows P Q out (push_field f fd og a)"
| grows_class: "grows P Q out a \<Longrightarrow> grows P Q out (a\<lparr>so_nested_classes := cs\<rparr>)"
| grows_marker: "grows P Q out a \<Longrightarrow> grows P Q out (a\<lparr>so_definitions := so_definitions a @ [sd]\<rparr>)"

lemma grows_trans: "grows P Q b c \<Longrightarrow> grows P Q a b \<Longrightarrow> grows P Q a c"
  by (induction rule: grows.induct) (auto intro: grows.intros)

lemma grows_push: "P m d og \<Longrightarrow> grows P Q out (push_method m d og out)"
  by (rule grows_method) auto

lemma grows_fold: "(\<And>x a. x \<in> set xs \<Longrightarrow> grows P Q a (f x a)) \<Longrightarrow> grows P Q out (fold f xs out)"
proof (induction xs arbitrary: out)
  case (Cons x xs)
  then have "grows P Q (f x out) (fold f xs (f x out))" by simp
  then show ?case using grows_trans [OF _ Cons.prems [of x out]] by simp
qed auto

lemma grows_when: "(\<And>anno. grows P Q out (gen anno out)) \<Longrightarrow> grows P Q out (when_annotated annos internal gen out)"
  by (simp add: when_annotated_def split: option.splits)

text \<open>Names and descriptors determine the parameters of well-formed methods.\<close>

lemma same_params:
  assumes "method_descriptors_ok e" "list_all (field_descriptor \<circ> mp_descriptor) (ms_params m)" "method_desc e = method_desc m"
  shows "map mp_descriptor (ms_params e) = map mp_descriptor (ms_params m)"
  using split_params_of_desc [of e] split_params_of_desc [of m] assms by (simp add: method_descriptors_ok_def)

definition described :: "method_summary \<Rightarrow> str \<Rightarrow> synthetic_origin \<Rightarrow> bool" where
  "described m d og \<longleftrightarrow> d = method_desc m
     \<or> ms_name m = ''toString'' \<and> ms_return_type m = Some ''java/lang/String'' \<and> og = LombokToString
     \<or> ms_return_type m = Some ''java/lang/Object'' \<and> (\<exists>t. og = LombokConstructor t)"

definition fresh_method :: "method_summary list \<Rightarrow> method_summary \<Rightarrow> bool" where
  "fresh_method explicit_methods m \<longleftrightarrow>
     \<not> has_method explicit_methods (ms_name m) (method_desc m) \<or> ms_name m = ''canEqual''"

definition origin_named :: "'c synthetic_input \<Rightarrow> field_summary list \<Rightarrow> synthetic_origin \<Rightarrow> bool" where
  "origin_named input efs og \<longleftrightarrow>
     (case og of
        LombokGetter n \<Rightarrow> n \<in> fs_name ` set efs | LombokSetter n \<Rightarrow> n \<in> fs_name ` set efs
      | LombokWith n \<Rightarrow> n \<in> fs_name ` set efs | LombokDelegate n \<Rightarrow> n \<in> fs_name ` set efs
      | RecordComponentAccessor n \<Rightarrow> n \<in> rc_name ` set (record_components (si_decl input) (si_type_ctx input))
      | EnumConstant n \<Rightarrow> n \<in> set (enum_constant_names (si_decl input))
      | _ \<Rightarrow> True)"

definition method_ok ::
  "'c synthetic_input \<Rightarrow> method_summary list \<Rightarrow> field_summary list \<Rightarrow> method_summary \<Rightarrow> str \<Rightarrow> synthetic_origin \<Rightarrow> bool" where
  "method_ok input ems efs m d og \<longleftrightarrow> described m d og \<and> fresh_method ems m \<and> origin_named input efs og"

definition field_ok ::
  "'c synthetic_input \<Rightarrow> field_summary list \<Rightarrow> field_summary \<Rightarrow> str option \<Rightarrow> synthetic_origin \<Rightarrow> bool" where
  "field_ok input efs f fd og \<longleftrightarrow> fs_name f \<notin> fs_name ` set efs \<and> origin_named input efs og"

abbreviation rule_grows :: "'c synthetic_input \<Rightarrow> method_summary list \<Rightarrow> field_summary list \<Rightarrow> synthetic_members \<Rightarrow> synthetic_members \<Rightarrow> bool" where
  "rule_grows input ems efs \<equiv> grows (method_ok input ems efs) (field_ok input efs)"

lemma method_okI:
  "d = method_desc m \<Longrightarrow> \<not> has_method ems (ms_name m) (method_desc m) \<Longrightarrow> origin_named input efs og \<Longrightarrow> method_ok input ems efs m d og"
  by (simp add: method_ok_def described_def fresh_method_def)

text \<open>The declared members are well-formed.\<close>

definition declared_ok :: "method_summary list \<Rightarrow> field_summary list \<Rightarrow> bool" where
  "declared_ok ems efs \<longleftrightarrow> list_all method_descriptors_ok ems \<and> list_all (\<lambda>f. field_descriptor (fs_descriptor f)) efs"

lemma has_method_params:
  assumes "declared_ok ems efs" "has_method ems n (''('' @ concat ds @ '')'' @ r)" "list_all field_descriptor ds"
  shows "\<exists>e\<in>set ems. ms_name e = n \<and> map mp_descriptor (ms_params e) = ds"
proof -
  from assms(2) obtain e where e: "e \<in> set ems" "ms_name e = n" "method_desc e = ''('' @ concat ds @ '')'' @ r"
    by (auto simp: has_method_def list_ex_iff)
  let ?m = "made_method n (map (\<lambda>d. made_param d [] []) ds) 0 (Some r)"
  have "map mp_descriptor (ms_params e) = map mp_descriptor (ms_params ?m)"
    using e assms(1,3) by (intro same_params) (auto simp: declared_ok_def list_all_iff comp_def)
  with e show ?thesis by (auto simp: comp_def)
qed

subsection \<open>The rules\<close>

lemma record_rule_grows: "rule_grows input ems efs out (record_rule input ems efs out)"
proof -
  let ?cs = "record_components (si_decl input) (si_type_ctx input)"
  have accessor: "rule_grows input ems efs a (record_accessor ems c a)" if "c \<in> set ?cs" for c a
    using that by (auto simp: record_accessor_def Let_def origin_named_def intro!: grows_push method_okI)
  have ctor: "rule_grows input ems efs a (push_method (made_method ''<init>''
       (map (\<lambda>c. made_param (rc_descriptor c) (rc_name c) []) ?cs) ACC_PUBLIC None)
       (''('' @ concat (map rc_descriptor ?cs) @ '')V'') RecordCanonicalConstructor a)"
    if "\<not> has_method ems ''<init>'' (''('' @ concat (map rc_descriptor ?cs) @ '')V'')" for a
    using that by (intro grows_push method_okI) (auto simp: origin_named_def comp_def)
  show ?thesis unfolding record_rule_def Let_def
    using accessor ctor by (auto intro!: grows_trans [OF grows_fold])
qed

lemma enum_rule_grows: "rule_grows input ems efs out (enum_rule input ems efs out)"
  unfolding enum_rule_def
  by (auto simp: list_ex_iff origin_named_def field_ok_def image_iff intro!: grows_fold grows_field split: option.splits) blast

lemma getter_grows:
  "f \<in> set efs \<Longrightarrow> rule_grows input ems efs out (generate_getter f anno config ems out)"
  "f \<in> set efs \<Longrightarrow> rule_grows input ems efs out (data_generate_getter f anno config ems out)"
  unfolding generate_getter_def data_generate_getter_def Let_def
  by (auto simp: origin_named_def intro!: grows_push method_okI)

lemma setter_grows:
  "f \<in> set efs \<Longrightarrow> rule_grows input ems efs out (generate_setter f anno config ems out)"
  "f \<in> set efs \<Longrightarrow> rule_grows input ems efs out (data_generate_setter f anno config ems out)"
  unfolding generate_setter_def data_generate_setter_def Let_def
  by (auto simp: origin_named_def intro!: grows_push method_okI)

lemma getter_setter_rule_grows: "rule_grows input ems efs out (getter_setter_rule input ems efs out)"
  unfolding getter_setter_rule_def accessors_for_field_def Let_def
  by (auto intro!: grows_fold getter_grows(1) setter_grows(1) grows_trans [OF setter_grows(1) getter_grows(1)])

lemma factory_grows:
  assumes "declared_ok ems efs" "list_all (field_descriptor \<circ> mp_descriptor) params"
  shows "rule_grows input ems efs out (generate_factory_if_named name params ems t out)"
proof -
  have "rule_grows input ems efs out (generate_static_factory_method n params ems t out)" for n
  proof (cases "list_ex (\<lambda>m. ms_name m = n \<and> length (ms_params m) = length params) ems")
    case True
    then show ?thesis by (simp add: generate_static_factory_method_def)
  next
    case False
    have "\<not> has_method ems n (''('' @ concat (map mp_descriptor params) @ '')java/lang/Object'')"
    proof
      assume "has_method ems n (''('' @ concat (map mp_descriptor params) @ '')java/lang/Object'')"
      with has_method_params [OF assms(1), of n "map mp_descriptor params" "''java/lang/Object''"] assms(2)
      obtain e where "e \<in> set ems" "ms_name e = n" "map mp_descriptor (ms_params e) = map mp_descriptor params"
        by (auto simp: list_all_iff)
      with False show False using map_eq_imp_length_eq by (fastforce simp: list_ex_iff)
    qed
    with False show ?thesis
      by (auto simp: generate_static_factory_method_def method_ok_def described_def fresh_method_def origin_named_def
            intro!: grows_push)
  qed
  then show ?thesis by (simp add: generate_factory_if_named_def split: option.splits)
qed

lemma constructor_params_ok:
  assumes "declared_ok ems efs"
  shows "list_all (field_descriptor \<circ> mp_descriptor) (build_constructor_params (get_required_fields efs))"
    "list_all (field_descriptor \<circ> mp_descriptor) (build_constructor_params (get_all_non_static_fields efs))"
  using assms by (auto simp: declared_ok_def build_constructor_params_def get_required_fields_def
      get_all_non_static_fields_def list_all_iff)

lemma constructor_exists_has: "constructor_exists ems desc = has_method ems ''<init>'' desc"
  by (simp add: constructor_exists_def has_method_def)

lemma constructor_grows:
  assumes "declared_ok ems efs" "list_all (field_descriptor \<circ> mp_descriptor) params"
    "\<not> constructor_exists ems (build_constructor_descriptor params)"
  shows "rule_grows input ems efs out (generate_factory_if_named name params ems t
     (push_method (made_method ''<init>'' params fl None) (build_constructor_descriptor params) (LombokConstructor t') out))"
  using assms(3)
  by (intro grows_trans [OF factory_grows [OF assms(1,2)]] grows_push method_okI)
     (auto simp: build_constructor_descriptor_def constructor_exists_has origin_named_def)

lemma constructor_rule_grows:
  assumes "declared_ok ems efs"
  shows "rule_grows input ems efs out (constructor_rule input ems efs out)"
proof -
  have "rule_grows input ems efs a (generate_no_args_constructor anno ems efs e a)"
    "rule_grows input ems efs a (generate_required_args_constructor anno ems efs e a)"
    "rule_grows input ems efs a (generate_all_args_constructor anno ems efs e a)" for a anno e
    using constructor_grows [OF assms, of "[]"] constructor_grows [OF assms constructor_params_ok(1) [OF assms]]
      constructor_grows [OF assms constructor_params_ok(2) [OF assms]]
    by (auto simp: generate_no_args_constructor_def generate_required_args_constructor_def
        generate_all_args_constructor_def build_constructor_descriptor_def Let_def)
  then show ?thesis unfolding constructor_rule_def Let_def
    by (auto intro!: grows_trans [OF grows_when] grows_when)
qed

lemma to_string_grows:
  assumes "declared_ok ems efs"
  shows "rule_grows input ems efs out (generate_to_string_for_data ems out)"
    "rule_grows input ems efs out (generate_to_string_method anno ems out)"
proof -
  have no: "\<not> has_method ems ''toString'' (''()'' @ r)" if "\<not> list_ex (\<lambda>m. ms_name m = ''toString'' \<and> ms_params m = []) ems" for r
    using has_method_params [OF assms, of "''toString''" "[]" r] that by (auto simp: list_ex_iff)
  show "rule_grows input ems efs out (generate_to_string_for_data ems out)"
    "rule_grows input ems efs out (generate_to_string_method anno ems out)"
    using no [of "''Ljava/lang/String;''"] no [of "''java/lang/String''"]
    by (auto simp: generate_to_string_for_data_def generate_to_string_method_def origin_named_def method_ok_def described_def
        fresh_method_def intro!: grows_push)
qed

lemma equals_pushes_grow:
  assumes "\<not> has_method ems ''equals'' ''(Ljava/lang/Object;)Z''" "\<not> has_method ems ''hashCode'' ''()I''"
  shows "rule_grows input ems efs out (push_can_equal (push_hash_code (push_equals out)))"
  unfolding push_can_equal_def push_hash_code_def push_equals_def
  using assms
  by (intro grows_method grows_refl)
     (auto simp: method_ok_def described_def fresh_method_def origin_named_def other_param_def)

lemma equals_grows:
  assumes "declared_ok ems efs"
  shows "rule_grows input ems efs out (generate_equals_and_hash_code_for_data ems out)"
    "rule_grows input ems efs out (generate_equals_and_hash_code_methods ems out)"
proof -
  show "rule_grows input ems efs out (generate_equals_and_hash_code_for_data ems out)"
    using equals_pushes_grow by (auto simp: generate_equals_and_hash_code_for_data_def)
  have "has_equals_method ems ''equals'' d" if "has_method ems ''equals'' ''(Ljava/lang/Object;)Z''" for d
  proof -
    from has_method_params [OF assms, of "''equals''" "[''Ljava/lang/Object;'']" "''Z''"] that
    obtain e where "e \<in> set ems" "ms_name e = ''equals''" "map mp_descriptor (ms_params e) = [''Ljava/lang/Object;'']" by auto
    then show ?thesis by (fastforce simp: has_equals_method_def list_ex_iff map_eq_Cons_conv)
  qed
  moreover have "has_equals_method ems ''hashCode'' d" if "has_method ems ''hashCode'' ''()I''" for d
    using has_method_params [OF assms, of "''hashCode''" "[]" "''I''"] that
    by (auto simp: has_equals_method_def list_ex_iff)
  ultimately have "\<not> has_method ems ''equals'' ''(Ljava/lang/Object;)Z''" "\<not> has_method ems ''hashCode'' ''()I''"
    if "\<not> has_equals_method ems ''equals'' ''(Ljava/lang/Object;)Z''" "\<not> has_equals_method ems ''hashCode'' ''()I''"
    using that by blast+
  note no = this
  show "rule_grows input ems efs out (generate_equals_and_hash_code_methods ems out)"
  proof (cases "has_equals_method ems ''equals'' ''(Ljava/lang/Object;)Z'' \<or> has_equals_method ems ''hashCode'' ''()I''")
    case False
    with no equals_pushes_grow [of ems input efs out] show ?thesis
      unfolding generate_equals_and_hash_code_methods_def by simp
  qed (simp add: generate_equals_and_hash_code_methods_def)
qed

lemma to_string_rule_grows:
  "declared_ok ems efs \<Longrightarrow> rule_grows input ems efs out (to_string_rule input ems efs out)"
  unfolding to_string_rule_def by (auto intro!: grows_when to_string_grows)

lemma equals_rule_grows:
  "declared_ok ems efs \<Longrightarrow> rule_grows input ems efs out (equals_and_hash_code_rule input ems efs out)"
  unfolding equals_and_hash_code_rule_def by (auto intro!: grows_when equals_grows)

lemma unless_none_grows:
  "(\<And>a out. grows P Q out (gen a out)) \<Longrightarrow> grows P Q out (unless_none anno gen out)"
  by (simp add: unless_none_def split: option.splits)

lemma data_accessors_grow:
  "f \<in> set efs \<Longrightarrow> rule_grows input ems efs out (data_accessors_for_field config ems g s f out)"
  unfolding data_accessors_for_field_def Let_def
  by (auto intro!: unless_none_grows getter_grows(2) setter_grows(2)
      grows_trans [OF unless_none_grows [OF setter_grows(2)] unless_none_grows [OF getter_grows(2)]])

lemma generated_constructor_grows:
  assumes "declared_ok ems efs"
  shows "rule_grows input ems efs out (generate_required_args_constructor_for_data anno efs ems out)"
    "rule_grows input ems efs out (generate_all_args_constructor_for_value anno efs ems out)"
  using constructor_grows [OF assms constructor_params_ok(1) [OF assms]]
    constructor_grows [OF assms constructor_params_ok(2) [OF assms]]
  by (auto simp: generate_required_args_constructor_for_data_def generate_all_args_constructor_for_value_def Let_def)

text \<open>Steps that are taken or left out.\<close>

lemma grows_if: "(c \<Longrightarrow> grows P Q a b) \<Longrightarrow> grows P Q out a \<Longrightarrow> grows P Q out (if c then b else a)"
  using grows_trans by fastforce

lemma data_rule_grows:
  assumes "declared_ok ems efs"
  shows "rule_grows input ems efs out (data_rule input ems efs out)"
  unfolding data_rule_def Let_def generate_getters_and_setters_def
  by (auto intro!: grows_when grows_if grows_fold data_accessors_grow to_string_grows(1) [OF assms]
      equals_grows(1) [OF assms] generated_constructor_grows(1) [OF assms])

lemma value_accessor_grows:
  "f \<in> set efs \<Longrightarrow> rule_grows input ems efs out (if is_field_static f then out
     else unless_none anno (\<lambda>a. data_generate_getter f a config ems) out)"
  by (simp add: unless_none_grows getter_grows(2))

lemma value_getters_grow: "rule_grows input ems efs out (generate_getters_for_value efs ems config out)"
  unfolding generate_getters_for_value_def value_generate_getter_def by (intro grows_fold value_accessor_grows)

lemma value_rule_grows:
  assumes "declared_ok ems efs"
  shows "rule_grows input ems efs out (value_rule input ems efs out)"
  unfolding value_rule_def Let_def generate_to_string_for_value_def generate_equals_and_hash_code_for_value_def
  by (auto intro!: grows_when grows_if value_getters_grow to_string_grows(1) [OF assms]
      equals_grows(1) [OF assms] generated_constructor_grows(2) [OF assms])

lemma builder_rule_grows: "rule_grows input ems efs out (builder_rule input ems efs out)"
proof -
  have no: "\<not> has_method ems n (''()'' @ r)" if "\<not> method_exists ems n ''()''" for n r
    using that by (auto simp: method_exists_def has_method_def list_ex_iff starts_with_def)
  have start: "rule_grows input ems efs a (generate_builder_method n b access a)" if "\<not> method_exists ems n ''()''" for n b access a
    using no [OF that, of "''L'' @ b @ '';''"]
    by (auto simp: generate_builder_method_def origin_named_def intro!: grows_push method_okI)
  have copy: "rule_grows input ems efs a (generate_to_builder_method b a)" if "\<not> method_exists ems ''toBuilder'' ''()''" for b a
    using no [OF that, of "''L'' @ b @ '';''"]
    by (auto simp: generate_to_builder_method_def origin_named_def intro!: grows_push method_okI)
  have cls: "rule_grows input ems efs a (generate_builder_class ow b c bm fs access x)"
    if "rule_grows input ems efs a x" for a x ow b c bm fs access
    using that unfolding generate_builder_class_def Let_def by (rule grows_class)
  have "rule_grows input ems efs a (generate_builder_for_class input anno efs ems a)" for anno a
  proof (cases "or_default (td_name (si_decl input)) [] = []")
    case True
    then show ?thesis by (simp add: generate_builder_for_class_def)
  next
    case False
    then show ?thesis unfolding generate_builder_for_class_def Let_def
      by (simp only: if_False) (intro cls grows_if start copy grows_refl, simp_all)
  qed
  then show ?thesis unfolding builder_rule_def by (auto intro!: grows_when)
qed

lemma with_rule_grows: "rule_grows input ems efs out (with_rule input ems efs out)"
  unfolding with_rule_def generate_with_method_def Let_def
  by (auto simp: origin_named_def intro!: grows_fold grows_push method_okI split: option.splits)

lemma log_rule_grows: "rule_grows input ems efs out (log_rule input ems efs out)"
  unfolding log_rule_def generate_log_field_def Let_def
  by (auto simp: origin_named_def field_ok_def list_ex_iff intro!: grows_field split: option.splits) blast+

lemma method_desc_generic [simp]: "method_desc (m\<lparr>ms_generic_signature := g\<rparr>) = method_desc m"
  by (simp add: method_desc_def)

lemma delegate_desc: "method_desc (made_method n (ms_params s) fl (ms_return_type s)) = method_desc s"
  by (simp add: method_desc_def)

lemma delegate_method_grows:
  "f \<in> set efs \<Longrightarrow> rule_grows input ems efs out (generate_delegate_method f ems s out)"
  unfolding generate_delegate_method_def Let_def
  by (auto simp: delegate_desc origin_named_def simp del: made_simps(5) intro!: grows_push method_okI)

lemma delegate_methods_grow:
  assumes "f \<in> set efs" "generate_delegate_methods input ems f anno out = Inr out'"
  shows "rule_grows input ems efs out out'"
  using assms(2) unfolding generate_delegate_methods_def Let_def
  by (auto simp: map_ok_Inr intro!: grows_marker grows_fold delegate_method_grows [OF assms(1)])

lemma delegate_fields_grow:
  "set fs \<subseteq> set efs \<Longrightarrow> delegate_fields input ems fs out = Inr out' \<Longrightarrow> rule_grows input ems efs out out'"
proof (induction fs arbitrary: out)
  case (Cons f fs)
  from Cons.prems(2) obtain mid where mid: "delegate_fields input ems fs mid = Inr out'"
    "mid = out \<or> (\<exists>anno. generate_delegate_methods input ems f anno out = Inr mid)"
    by (auto simp: and_then_Inr split: option.splits if_splits)
  from Cons.prems(1) mid(2) have "rule_grows input ems efs out mid" using delegate_methods_grow [of f efs] by auto
  with Cons.IH [OF _ mid(1)] Cons.prems(1) show ?case using grows_trans by fastforce
qed simp

lemma synthesize_grows:
  assumes "declared_ok ems efs" "synthesize_for_type input ems efs = Inr out"
  shows "rule_grows input ems efs synthetic_default out"
proof -
  let ?rules = "[record_rule, enum_rule, data_rule, value_rule, getter_setter_rule, to_string_rule, equals_and_hash_code_rule,
           constructor_rule, builder_rule, with_rule, log_rule]"
  have "rule_grows input ems efs a (rule input ems efs a)" if "rule \<in> set ?rules" for rule a
    using that record_rule_grows enum_rule_grows data_rule_grows [OF assms(1)] value_rule_grows [OF assms(1)]
      getter_setter_rule_grows to_string_rule_grows [OF assms(1)] equals_rule_grows [OF assms(1)]
      constructor_rule_grows [OF assms(1)] builder_rule_grows with_rule_grows log_rule_grows
    by auto
  then have pure: "rule_grows input ems efs synthetic_default (fold (\<lambda>rule. rule input ems efs) ?rules synthetic_default)"
    by (intro grows_fold)
  from assms(2) have "rule_grows input ems efs (fold (\<lambda>rule. rule input ems efs) ?rules synthetic_default) out"
    unfolding synthesize_for_type_def delegate_rule_def using delegate_fields_grow [of efs efs] by (auto split: if_splits)
  from grows_trans [OF this pure] show ?thesis .
qed

subsection \<open>Declared members and definitions\<close>

lemma grows_members:
  assumes "grows P Q a b"
  shows "m \<in> set (so_methods b) \<Longrightarrow> m \<in> set (so_methods a) \<or> (\<exists>d og. P m d og
      \<and> \<lparr>sd_kind = SynMethod, sd_name = ms_name m, sd_descriptor = Some d, sd_origin = og\<rparr> \<in> set (so_definitions b))"
    "f \<in> set (so_fields b) \<Longrightarrow> f \<in> set (so_fields a) \<or> (\<exists>fd og. Q f fd og
      \<and> \<lparr>sd_kind = SynField, sd_name = fs_name f, sd_descriptor = fd, sd_origin = og\<rparr> \<in> set (so_definitions b))"
  using assms by (induction rule: grows.induct) auto

lemma synthesized_members:
  assumes "declared_ok ems efs" "synthesize_for_type input ems efs = Inr out"
  shows "m \<in> set (so_methods out) \<Longrightarrow> \<exists>d og. method_ok input ems efs m d og
      \<and> \<lparr>sd_kind = SynMethod, sd_name = ms_name m, sd_descriptor = Some d, sd_origin = og\<rparr> \<in> set (so_definitions out)"
    "f \<in> set (so_fields out) \<Longrightarrow> \<exists>fd og. field_ok input efs f fd og
      \<and> \<lparr>sd_kind = SynField, sd_name = fs_name f, sd_descriptor = fd, sd_origin = og\<rparr> \<in> set (so_definitions out)"
  using grows_members(1) [OF synthesize_grows [OF assms], of m] grows_members(2) [OF synthesize_grows [OF assms], of f]
  by (simp_all add: synthetic_default_def)

text \<open>
  C28. Declared members win: no rule makes a method with the name and the descriptor of a declared method,
  \<open>canEqual\<close> apart, or a field with the name of a declared field.
\<close>

theorem declared_members_win:
  assumes "declared_ok ems efs" "synthesize_for_type input ems efs = Inr out"
  shows "(m \<in> set (so_methods out) \<longrightarrow> ms_name m = ''canEqual'' \<or> \<not> has_method ems (ms_name m) (method_desc m))
    \<and> (f \<in> set (so_fields out) \<longrightarrow> (\<forall>e\<in>set efs. fs_name e \<noteq> fs_name f))"
proof (intro conjI impI)
  show "ms_name m = ''canEqual'' \<or> \<not> has_method ems (ms_name m) (method_desc m)" if "m \<in> set (so_methods out)"
    using synthesized_members(1) [OF assms that] by (auto simp: method_ok_def fresh_method_def)
  show "\<forall>e\<in>set efs. fs_name e \<noteq> fs_name f" if "f \<in> set (so_fields out)"
  proof -
    have "fs_name f \<notin> fs_name ` set efs" using synthesized_members(2) [OF assms that] by (auto simp: field_ok_def)
    then show ?thesis by (metis imageI)
  qed
qed

text \<open>What the syntax tree promises: the type has a name, and each field of its members a declarator.\<close>

definition nodes_ok :: "type_decl \<Rightarrow> bool" where
  "nodes_ok decl \<longleftrightarrow> td_name decl \<noteq> None \<and> list_all (\<lambda>f. find_field_node decl (fs_name f) \<noteq> None) (decl_fields decl)"

lemma position_ex: "x \<in> set xs \<Longrightarrow> P x \<Longrightarrow> position P xs \<noteq> None"
  by (auto simp: position_None)

lemma origin_named_node:
  assumes "nodes_ok (si_decl input)" "origin_named input (decl_fields (si_decl input)) og"
  shows "origin_node (si_decl input) og \<noteq> None"
proof (cases og)
  case (RecordComponentAccessor n)
  with assms(2) obtain c where c: "c \<in> set (record_components (si_decl input) (si_type_ctx input))" "rc_name c = n"
    by (auto simp: origin_named_def)
  then obtain ps p where "record_parameter_node (si_decl input) = Some ps" "p \<in> set ps"
    "record_component_of (si_type_ctx input) p = Some c"
    by (cases "record_parameter_node (si_decl input)") (auto simp: record_components_def set_map_filter split: if_splits)
  moreover from this c have "is_component_node p \<and> fp_name p = Some n"
    by (auto simp: record_component_of_def Let_def split: if_splits option.splits)
  ultimately show ?thesis using RecordComponentAccessor position_ex [of p ps]
    by (auto simp: find_record_component_node_def)
next
  case (EnumConstant n)
  with assms(2) obtain body child where "td_body (si_decl input) = Some body" "child \<in> set (tb_children body)"
    "enum_constant_of child = Some n"
    by (cases "td_body (si_decl input)") (auto simp: origin_named_def enum_constant_names_def set_map_filter split: if_splits)
  with EnumConstant position_ex [of child "tb_children body"] show ?thesis by (auto simp: find_enum_constant_node_def)
qed (use assms in \<open>auto simp: origin_named_def nodes_ok_def name_node_def list_all_iff split: option.splits\<close>)

lemma find_map_ex: "x \<in> set xs \<Longrightarrow> f x \<noteq> None \<Longrightarrow> find_map f xs \<noteq> None"
  by (induction xs) (auto split: option.splits)

lemma definition_resolves:
  assumes "synthesize_for_type input (decl_methods (si_decl input)) (decl_fields (si_decl input)) = Inr out"
    "d \<in> set (so_definitions out)" "definition_matches kind name desc d" "origin_node (si_decl input) (sd_origin d) \<noteq> None"
  shows "\<exists>node. resolve_synthetic_definition input kind name desc = Inr (Some node)"
  using find_map_ex [OF assms(2), of "\<lambda>d. if definition_matches kind name desc d then origin_node (si_decl input) (sd_origin d) else None"]
    assms by (auto simp: resolve_synthetic_definition_def)


subsection \<open>Records\<close>

lemma grows_keeps: "grows P Q a b \<Longrightarrow> m \<in> set (so_methods a) \<Longrightarrow> m \<in> set (so_methods b)"
  by (induction rule: grows.induct) auto

lemma has_method_append: "has_method (xs @ ys) n d \<longleftrightarrow> has_method xs n d \<or> has_method ys n d"
  by (simp add: has_method_def)

lemma has_method_mono: "has_method xs n d \<Longrightarrow> set xs \<subseteq> set ys \<Longrightarrow> has_method ys n d"
  by (auto simp: has_method_def list_ex_iff)

lemma accessors_fold:
  "set (so_methods out) \<subseteq> set (so_methods (fold (record_accessor ems) cs out))
   \<and> (\<forall>c\<in>set cs. has_method (ems @ so_methods (fold (record_accessor ems) cs out)) (rc_name c) (''()'' @ rc_descriptor c))"
proof (induction cs arbitrary: out)
  case (Cons c cs)
  let ?a = "record_accessor ems c out"
  have step: "set (so_methods out) \<subseteq> set (so_methods ?a)" "has_method (ems @ so_methods ?a) (rc_name c) (''()'' @ rc_descriptor c)"
    by (auto simp: record_accessor_def Let_def has_method_append) (auto simp: has_method_def)
  have "has_method (ems @ so_methods (fold (record_accessor ems) cs ?a)) (rc_name c) (''()'' @ rc_descriptor c)"
    by (rule has_method_mono [OF step(2)]) (use Cons.IH [of ?a] in auto)
  with Cons.IH [of ?a] step(1) show ?case by auto
qed simp

lemma record_members_complete:
  assumes "declared_ok ems efs" "synthesize_for_type input ems efs = Inr out" "kind_in input [''record_declaration'']"
    "c \<in> set (record_components (si_decl input) (si_type_ctx input))"
  shows "has_method (ems @ so_methods out) (rc_name c) (''()'' @ rc_descriptor c)"
proof -
  let ?first = "record_rule input ems efs synthetic_default"
  let ?rules = "[enum_rule, data_rule, value_rule, getter_setter_rule, to_string_rule, equals_and_hash_code_rule,
           constructor_rule, builder_rule, with_rule, log_rule]"
  have "has_method (ems @ so_methods ?first) (rc_name c) (''()'' @ rc_descriptor c)"
    using assms(3,4) accessors_fold by (auto simp: record_rule_def Let_def)
  moreover have "rule_grows input ems efs a (rule input ems efs a)" if "rule \<in> set ?rules" for rule a
    using that enum_rule_grows data_rule_grows [OF assms(1)] value_rule_grows [OF assms(1)]
      getter_setter_rule_grows to_string_rule_grows [OF assms(1)] equals_rule_grows [OF assms(1)]
      constructor_rule_grows [OF assms(1)] builder_rule_grows with_rule_grows log_rule_grows
    by auto
  then have "rule_grows input ems efs ?first (fold (\<lambda>rule. rule input ems efs) ?rules ?first)" by (rule grows_fold)
  moreover have "rule_grows input ems efs (fold (\<lambda>rule. rule input ems efs) ?rules ?first) out"
    using assms(2) delegate_fields_grow [of efs efs input ems]
    unfolding synthesize_for_type_def delegate_rule_def by (auto split: if_splits)
  ultimately show ?thesis
    by (elim has_method_mono) (use grows_keeps in fastforce)
qed

subsection \<open>Delegates\<close>

definition member_key :: "method_summary \<Rightarrow> str \<times> str" where
  "member_key m = (ms_name m, method_desc m)"

lemma has_method_key: "has_method ms n d \<longleftrightarrow> (n, d) \<in> member_key ` set ms"
  by (auto simp: has_method_def member_key_def list_ex_iff image_iff)

definition delegates_ok :: "method_summary list \<Rightarrow> synthetic_members \<Rightarrow> synthetic_members \<Rightarrow> bool" where
  "delegates_ok ems a b \<longleftrightarrow> (\<exists>ms. so_methods b = so_methods a @ ms
     \<and> (distinct (map member_key (so_methods a)) \<longrightarrow> distinct (map member_key (so_methods b)))
     \<and> member_key ` set ms \<inter> member_key ` set ems = {} \<and> (\<forall>m\<in>set ms. \<not> is_object_method_name (ms_name m)))"

lemma delegates_ok_refl: "so_methods b = so_methods a \<Longrightarrow> delegates_ok ems a b"
  by (simp add: delegates_ok_def)

lemma delegates_ok_trans:
  assumes "delegates_ok ems a b" "delegates_ok ems b c"
  shows "delegates_ok ems a c"
proof -
  from assms(1) obtain ms where ms: "so_methods b = so_methods a @ ms"
    "distinct (map member_key (so_methods a)) \<longrightarrow> distinct (map member_key (so_methods b))"
    "member_key ` set ms \<inter> member_key ` set ems = {}" "\<forall>m\<in>set ms. \<not> is_object_method_name (ms_name m)"
    unfolding delegates_ok_def by (elim exE conjE) (rule that)
  from assms(2) obtain ns where ns: "so_methods c = so_methods b @ ns"
    "distinct (map member_key (so_methods b)) \<longrightarrow> distinct (map member_key (so_methods c))"
    "member_key ` set ns \<inter> member_key ` set ems = {}" "\<forall>m\<in>set ns. \<not> is_object_method_name (ms_name m)"
    unfolding delegates_ok_def by (elim exE conjE) (rule that)
  show ?thesis unfolding delegates_ok_def
  proof (intro exI [of _ "ms @ ns"] conjI)
    show "so_methods c = so_methods a @ ms @ ns" using ms(1) ns(1) by simp
    show "distinct (map member_key (so_methods a)) \<longrightarrow> distinct (map member_key (so_methods c))"
      using ms(2) ns(2) by blast
    show "member_key ` set (ms @ ns) \<inter> member_key ` set ems = {}"
      using ms(3) ns(3) by (simp add: image_Un Int_Un_distrib2)
    show "\<forall>m\<in>set (ms @ ns). \<not> is_object_method_name (ms_name m)" using ms(4) ns(4) by auto
  qed
qed

lemma delegate_method_ok: "delegates_ok ems out (generate_delegate_method f ems s out)"
proof (cases "has_method ems (ms_name s) (method_desc s) \<or> has_method (so_methods out) (ms_name s) (method_desc s)
    \<or> is_object_method_name (ms_name s)")
  case True
  then show ?thesis by (auto simp: generate_delegate_method_def Let_def intro: delegates_ok_refl)
next
  case False
  let ?m = "(made_method (ms_name s) (ms_params s) ACC_PUBLIC (ms_return_type s))\<lparr>ms_generic_signature := ms_generic_signature s\<rparr>"
  have key: "member_key ?m = (ms_name s, method_desc s)" "ms_name ?m = ms_name s"
    by (simp_all add: member_key_def delegate_desc del: made_simps(5))
  from False have "so_methods (generate_delegate_method f ems s out) = so_methods out @ [?m]"
    by (simp add: generate_delegate_method_def Let_def)
  with False key show ?thesis unfolding delegates_ok_def has_method_key by (intro exI [of _ "[?m]"]) auto
qed

lemma delegates_fold: "(\<And>x a. delegates_ok ems a (g x a)) \<Longrightarrow> delegates_ok ems out (fold g xs out)"
proof (induction xs arbitrary: out)
  case (Cons x xs)
  from delegates_ok_trans [OF Cons.prems [of out x] Cons.IH [OF Cons.prems]] show ?case by simp
qed (simp add: delegates_ok_refl)

lemma delegate_fields_ok: "delegate_fields input ems fs out = Inr out' \<Longrightarrow> delegates_ok ems out out'"
proof (induction fs arbitrary: out)
  case (Cons f fs)
  from Cons.prems obtain mid where mid: "delegate_fields input ems fs mid = Inr out'"
    "mid = out \<or> (\<exists>anno. generate_delegate_methods input ems f anno out = Inr mid)"
    by (auto simp: and_then_Inr split: option.splits if_splits)
  have "delegates_ok ems out mid" if made: "generate_delegate_methods input ems f anno out = Inr mid" for anno
  proof -
    from made obtain found where "so_methods mid = so_methods (fold (\<lambda>methods. fold (generate_delegate_method f ems) methods) found out)"
      by (auto simp: generate_delegate_methods_def Let_def map_ok_Inr)
    moreover have "delegates_ok ems out (fold (\<lambda>methods. fold (generate_delegate_method f ems) methods) found out)"
      by (intro delegates_fold delegate_method_ok)
    ultimately show ?thesis by (simp add: delegates_ok_def)
  qed
  with mid(2) have "delegates_ok ems out mid" by (auto intro: delegates_ok_refl)
  from delegates_ok_trans [OF this Cons.IH [OF mid(1)]] show ?case .
qed (simp add: delegates_ok_refl)

lemma delegates_never_repeat:
  "delegate_rule input ems efs out = Inr out' \<Longrightarrow> delegates_ok ems out out'"
  by (auto simp: delegate_rule_def delegates_ok_refl delegate_fields_ok split: if_splits)

subsection \<open>\<open>@Data\<close> and its parts\<close>

definition bare :: "str \<Rightarrow> annotation_summary" where
  "bare n = AnnotationSummary (''lombok/'' @ n) True []"

definition annotated :: "'c synthetic_input \<Rightarrow> str list \<Rightarrow> 'c synthetic_input" where
  "annotated input names = input\<lparr>si_decl := (si_decl input)\<lparr>td_modifiers := Some (map bare names)\<rparr>\<rparr>"

definition data_parts :: "str list" where
  "data_parts = [''Getter'', ''Setter'', ''ToString'', ''EqualsAndHashCode'', ''RequiredArgsConstructor'']"

text \<open>The same members, but for the return type of \<open>toString\<close>.\<close>

definition plain_text :: "method_summary \<Rightarrow> method_summary" where
  "plain_text m = (if ms_name m = ''toString'' then m\<lparr>ms_return_type := None\<rparr> else m)"

definition same_members :: "synthetic_members \<Rightarrow> synthetic_members \<Rightarrow> bool" where
  "same_members a b \<longleftrightarrow> map plain_text (so_methods a) = map plain_text (so_methods b) \<and> so_fields a = so_fields b
     \<and> so_definitions a = so_definitions b \<and> so_nested_classes a = so_nested_classes b"

lemma same_members_refl [simp]: "same_members a a"
  by (simp add: same_members_def)

lemma same_members_push: "same_members a b \<Longrightarrow> same_members (push_method m d og a) (push_method m d og b)"
  by (simp add: same_members_def push_method_def)

lemma same_members_factory:
  "same_members a b \<Longrightarrow> same_members (generate_factory_if_named n ps ems t a) (generate_factory_if_named n ps ems t b)"
  by (auto simp: generate_factory_if_named_def generate_static_factory_method_def Let_def same_members_push split: option.splits)

text \<open>The fields on which \<open>@Getter\<close> and \<open>@Setter\<close> mean the same for both rules.\<close>

definition plain_accessors :: "field_summary \<Rightarrow> bool" where
  "plain_accessors f \<longleftrightarrow>
     (is_field_static f \<longrightarrow> \<not> is_annotated (fs_annotations f) ''lombok/Getter'' \<and> \<not> is_annotated (fs_annotations f) ''lombok/Setter'')
     \<and> (case find_lombok_annotation (fs_annotations f) ''lombok/Getter'' of
          Some a \<Rightarrow> get_bool_param a ''lazy'' False \<longrightarrow> is_field_final f | None \<Rightarrow> True)"

definition plain_equals :: "method_summary list \<Rightarrow> bool" where
  "plain_equals ems \<longleftrightarrow>
     has_equals_method ems ''equals'' ''(Ljava/lang/Object;)Z'' = has_method ems ''equals'' ''(Ljava/lang/Object;)Z''
     \<and> has_equals_method ems ''hashCode'' ''()I'' = has_method ems ''hashCode'' ''()I''"

lemma bare_simps [simp]:
  "find_lombok_annotation (map bare data_parts) ''lombok/Getter'' = Some (bare ''Getter'')"
  "find_lombok_annotation (map bare data_parts) ''lombok/Setter'' = Some (bare ''Setter'')"
  "find_lombok_annotation (map bare data_parts) ''lombok/ToString'' = Some (bare ''ToString'')"
  "find_lombok_annotation (map bare data_parts) ''lombok/EqualsAndHashCode'' = Some (bare ''EqualsAndHashCode'')"
  "find_lombok_annotation (map bare data_parts) ''lombok/NoArgsConstructor'' = None"
  "find_lombok_annotation (map bare data_parts) ''lombok/RequiredArgsConstructor'' = Some (bare ''RequiredArgsConstructor'')"
  "find_lombok_annotation (map bare data_parts) ''lombok/AllArgsConstructor'' = None"
  "find_lombok_annotation [bare ''Data''] ''lombok/Data'' = Some (bare ''Data'')"
  "find_lombok_annotation [bare ''Data''] ''lombok/Getter'' = None"
  "find_lombok_annotation [bare ''Data''] ''lombok/Setter'' = None"
  "find_lombok_annotation [bare ''Data''] ''lombok/ToString'' = None"
  "find_lombok_annotation [bare ''Data''] ''lombok/EqualsAndHashCode'' = None"
  "find_lombok_annotation [bare ''Data''] ''lombok/NoArgsConstructor'' = None"
  "find_lombok_annotation [bare ''Data''] ''lombok/RequiredArgsConstructor'' = None"
  "find_lombok_annotation [bare ''Data''] ''lombok/AllArgsConstructor'' = None"
  by code_simp+

lemma bare_values [simp]:
  "get_annotation_value (bare n) key = None" "parse_access_level (bare n) = LPublic"
  "parse_constructor_access_level (bare n) = LPublic" "get_string_param (bare n) key = None"
  "get_bool_param (bare n) key b = b" "\<not> is_field_excluded fname (bare n)"
  by (simp_all add: bare_def get_annotation_value_def parse_access_level_def parse_constructor_access_level_def
      get_string_param_def get_bool_param_def is_field_excluded_def)

lemma data_getter_agrees:
  assumes "find_lombok_annotation (fs_annotations f) ''lombok/Getter'' = anno" "plain_accessors f" "\<not> is_field_static f"
  shows "unless_none anno (\<lambda>a. data_generate_getter f a config ems) out =
    (if should_generate_for_field f (Some (bare ''Getter'')) anno
     then generate_getter f (first_some anno (Some (bare ''Getter''))) config ems out else out)"
  using assms
  by (cases anno) (auto simp: unless_none_def should_generate_for_field_def first_some_def plain_accessors_def
      data_generate_getter_def generate_getter_def access_of_def Let_def is_field_static_def)

lemma data_setter_agrees:
  assumes "\<not> is_field_static f"
  shows "unless_none anno (\<lambda>a. data_generate_setter f a config ems) out =
    (if should_generate_for_field f (Some (bare ''Setter'')) anno
     then generate_setter f (first_some anno (Some (bare ''Setter''))) config ems out else out)"
  using assms
  by (cases anno) (simp_all add: unless_none_def should_generate_for_field_def first_some_def
      data_generate_setter_def generate_setter_def access_of_def Let_def is_field_static_def)

lemma data_accessors_agree:
  assumes "plain_accessors f"
  shows "data_accessors_for_field lombok_config_new ems False False f out = accessors_for_field (map bare data_parts) ems f out"
proof (cases "is_field_static f")
  case True
  with assms have "find_lombok_annotation (fs_annotations f) ''lombok/Getter'' = None"
    "find_lombok_annotation (fs_annotations f) ''lombok/Setter'' = None"
    by (simp_all add: plain_accessors_def is_annotated_def)
  with True show ?thesis
    by (simp add: data_accessors_for_field_def accessors_for_field_def should_generate_for_field_def is_field_static_def Let_def)
next
  case False
  show ?thesis unfolding data_accessors_for_field_def accessors_for_field_def Let_def bare_simps
      data_getter_agrees [OF refl assms False] data_setter_agrees [OF False]
    using False by simp
qed

lemma annotated_simps [simp]:
  "decl_annotations (annotated input names) = map bare names" "td_kind (si_decl (annotated input names)) = td_kind (si_decl input)"
  by (simp_all add: annotated_def decl_annotations_def or_default_def)

lemma data_fold_agrees:
  "list_all plain_accessors efs \<Longrightarrow> generate_getters_and_setters efs ems lombok_config_new False False out
     = fold (accessors_for_field (map bare data_parts) ems) efs out"
  unfolding generate_getters_and_setters_def by (induction efs arbitrary: out) (simp_all add: data_accessors_agree)

lemma data_text_agrees: "same_members (generate_to_string_for_data ems a) (generate_to_string_method anno ems a)"
  by (simp add: generate_to_string_for_data_def generate_to_string_method_def same_members_def plain_text_def)
     (simp add: made_method_def push_method_def)

lemma data_equals_agrees:
  assumes "plain_equals ems" "same_members a b"
  shows "same_members (generate_equals_and_hash_code_for_data ems a) (generate_equals_and_hash_code_methods ems b)"
  using assms unfolding plain_equals_def generate_equals_and_hash_code_for_data_def generate_equals_and_hash_code_methods_def
    push_can_equal_def push_hash_code_def push_equals_def by (simp add: same_members_push)

lemma data_constructor_agrees:
  "same_members a b \<Longrightarrow> same_members (generate_required_args_constructor_for_data (bare n) efs ems a)
     (generate_required_args_constructor (bare n') ems efs False b)"
  by (simp add: generate_required_args_constructor_for_data_def generate_required_args_constructor_def Let_def
      generate_factory_if_named_def same_members_push)


subsection \<open>Cases where a rule differs from Lombok or Java\<close>

text \<open>A class of a given kind with one field declaration per field; its context has no index.\<close>

definition sample_type_ctx :: "str source_type_ctx" where
  "sample_type_ctx = from_overview None [] None"

definition sample_field :: "str \<Rightarrow> str \<Rightarrow> 16 word \<Rightarrow> annotation_summary list \<Rightarrow> field_summary" where
  "sample_field n desc flags annos = (made_field n desc flags)\<lparr>fs_annotations := annos\<rparr>"

definition sample_declarator :: "field_summary \<Rightarrow> body_child" where
  "sample_declarator f = \<lparr>bc_kind = ''field_declaration'', bc_name = None, bc_identifier = None, bc_identifier_child = None,
     bc_declarators = [(''variable_declarator'', Some (fs_name f))], bc_members = None\<rparr>"

definition sample_input :: "str \<Rightarrow> annotation_summary list \<Rightarrow> method_summary list \<Rightarrow> field_summary list \<Rightarrow> str synthetic_input" where
  "sample_input kind annos ems efs =
     \<lparr>si_decl = \<lparr>td_kind = kind, td_name = Some ''Person'', td_modifiers = Some annos,
        td_body = Some \<lparr>tb_children = map sample_declarator efs, tb_members = map MethodMember ems @ map FieldMember efs\<rparr>,
        td_parameters_field = (if kind = ''record_declaration'' then Some [] else None), td_formal_parameters = None,
        td_siblings = None\<rparr>,
      si_owner_internal = Some ''demo/Person'', si_type_ctx = sample_type_ctx\<rparr>"

definition sample_methods :: "str synthetic_input \<Rightarrow> (str \<times> str) list" where
  "sample_methods input =
     (case synthesize_for_type input (decl_methods (si_decl input)) (decl_fields (si_decl input)) of
        Inl _ \<Rightarrow> [] | Inr out \<Rightarrow> map (\<lambda>m. (ms_name m, method_desc m)) (so_methods out))"

text \<open>A getter that the field asks for is made by two rules.\<close>

lemma data_and_field_getter_twice:
  "filter (\<lambda>(n, d). n = ''getName'') (sample_methods
     (sample_input ''class_declaration'' [bare ''Data''] [] [sample_field ''name'' ''I'' 0 [bare ''Getter'']]))
   = [(''getName'', ''()I''), (''getName'', ''()I'')]"
  by code_simp

text \<open>A boolean field whose name starts with \<open>is\<close> keeps it behind the prefix of the getter.\<close>

lemma boolean_prefix_repeated:
  "sample_methods (sample_input ''class_declaration'' [bare ''Getter''] [] [sample_field ''isActive'' ''Z'' 0 []])
   = [(''isIsActive'', ''()Z'')]"
  by code_simp

text \<open>The method of \<open>@ToString\<close> has a return type that is no descriptor, and its definition another one.\<close>

lemma to_string_return_type:
  "sample_methods (sample_input ''class_declaration'' [bare ''ToString''] [] []) = [(''toString'', ''()java/lang/String'')]"
  by code_simp

lemma to_string_not_found:
  "resolve_synthetic_definition (sample_input ''class_declaration'' [bare ''ToString''] [] []) SynMethod
     ''toString'' (Some ''()java/lang/String'') = Inr None"
  by code_simp

text \<open>\<open>canEqual\<close> is made where it is declared.\<close>

lemma can_equal_repeated:
  "(''canEqual'', ''(Ljava/lang/Object;)Z'') \<in> set (sample_methods (sample_input ''class_declaration''
     [bare ''EqualsAndHashCode''] [made_method ''canEqual'' [other_param] ACC_PROTECTED (Some ''Z'')] []))"
  by code_simp

text \<open>The level \<open>NONE\<close> does not switch a constructor off, and a record without components has no constructor.\<close>

lemma constructor_of_level_none:
  "sample_methods (sample_input ''class_declaration'' [AnnotationSummary ''lombok/NoArgsConstructor'' True
     [(''access'', AEnum ''lombok/AccessLevel'' ''NONE'')]] [] []) = [(''<init>'', ''()V'')]"
  by code_simp

lemma empty_record_has_no_constructor: "sample_methods (sample_input ''record_declaration'' [] [] []) = []"
  by code_simp

text \<open>The type that \<open>builder()\<close> returns is not the builder class.\<close>

lemma builder_type_not_its_class:
  "(case synthesize_for_type (sample_input ''class_declaration'' [bare ''Builder''] [] []) [] [] of
      Inr out \<Rightarrow> (map ms_return_type (so_methods out), map cm_internal_name (so_nested_classes out))
    | Inl _ \<Rightarrow> ([], [])) = ([Some ''LPersonBuilder;''], [''demo/Person$PersonBuilder''])"
  by code_simp

text \<open>Names that begin with the letter of a descriptor, patterns whose ends overlap, and directories.\<close>

lemma delegate_name_stripped: "delegate_simple_name ''LLogger;'' = ''ogger''"
  by code_simp

lemma pattern_ends_overlap: "matches_pattern ''aba'' ''ab*ba''"
  by code_simp

lemma outer_directory_wins:
  assumes "read [''a'', ''b''] = Some ''k = inner''" "read [''a''] = Some ''k = outer''" "read [] = None"
  shows "config_get (load_from_directory read [''a'', ''b'']) ''k'' = Some ''outer''"
proof -
  have inner: "merge_from_content ''k = inner'' lombok_config_new = \<lparr>lc_settings = [(''k'', ''inner'')]\<rparr>"
    "merge_from_content ''k = outer'' \<lparr>lc_settings = [(''k'', ''inner'')]\<rparr> = \<lparr>lc_settings = [(''k'', ''outer'')]\<rparr>"
    by code_simp+
  show ?thesis
    using assms by (simp add: load_from_directory_def merge_directory_def inner has_stop_directive_def config_get_def)
qed

subsection \<open>Instances\<close>

abbreviation person_input :: "str synthetic_input" where
  "person_input \<equiv> sample_input ''class_declaration'' [bare ''Data''] [made_method ''getAge'' [] ACC_PUBLIC (Some ''I'')]
     [sample_field ''age'' ''I'' 0 [], sample_field ''name'' ''J'' 0 []]"

lemma person_ok: "declared_ok (decl_methods (si_decl person_input)) (decl_fields (si_decl person_input))"
  by code_simp

lemma person_nodes_ok: "nodes_ok (si_decl person_input)"
  by code_simp

definition person_members :: synthetic_members where
  "person_members = (case synthesize_for_type person_input (decl_methods (si_decl person_input)) (decl_fields (si_decl person_input))
     of Inr out \<Rightarrow> out | Inl _ \<Rightarrow> synthetic_default)"

lemma person_synthesized:
  "synthesize_for_type person_input (decl_methods (si_decl person_input)) (decl_fields (si_decl person_input)) = Inr person_members"
  by code_simp

theorem declared_members_win_witness:
  "made_method ''getAge'' [] ACC_PUBLIC (Some ''I'') \<notin> set (so_methods person_members)
   \<and> made_method ''getName'' [] ACC_PUBLIC (Some ''J'') \<in> set (so_methods person_members)"
proof
  let ?m = "made_method ''getAge'' [] ACC_PUBLIC (Some ''I'')"
  have "has_method (decl_methods (si_decl person_input)) (ms_name ?m) (method_desc ?m)" "ms_name ?m \<noteq> ''canEqual''"
    by code_simp+
  then show "?m \<notin> set (so_methods person_members)"
    using declared_members_win [OF person_ok person_synthesized, of ?m] by blast
  show "made_method ''getName'' [] ACC_PUBLIC (Some ''J'') \<in> set (so_methods person_members)" by code_simp
qed



end
