(* ===== verification/Text_Positions.thy ===== *)
theory Text_Positions
  imports Prelude
begin

text \<open>
  Positions in a text (\<open>language/rope_utils.rs\<close>): the protocol counts lines and UTF-16 units, the server
  bytes of UTF-8 and characters.

  A text is the list of its characters, each by its scalar value. The rope is a type of a library: its
  operations are the parameter \<open>rope_ops\<close>, and \<open>rope_laws\<close> states their documented contract. The lines of
  a rope are what its library takes for lines: they make up the text, and only the last one may be empty.
  Which characters are letters or digits is the parameter \<open>alnum\<close> (\<open>char::is_alphanumeric\<close>).
\<close>

type_synonym rune = nat
type_synonym unicode = "rune list"

definition len_utf8 :: "rune \<Rightarrow> nat" where
  "len_utf8 c = (if c < 0x80 then 1 else if c < 0x800 then 2 else if c < 0x10000 then 3 else 4)"

definition len_utf16 :: "rune \<Rightarrow> nat" where
  "len_utf16 c = (if c < 0x10000 then 1 else 2)"

definition utf8_len :: "unicode \<Rightarrow> nat" where
  "utf8_len t = sum_list (map len_utf8 t)"

definition utf16_len :: "unicode \<Rightarrow> nat" where
  "utf16_len t = sum_list (map len_utf16 t)"

definition as_u32 :: "nat \<Rightarrow> nat" where
  "as_u32 n = n mod 2 ^ 32"

text \<open>The number of characters that end within the first bytes, and the offsets between characters.\<close>

fun char_of_byte :: "unicode \<Rightarrow> nat \<Rightarrow> nat" where
  "char_of_byte [] b = 0"
| "char_of_byte (c # cs) b = (if b < len_utf8 c then 0 else Suc (char_of_byte cs (b - len_utf8 c)))"

definition is_char_boundary :: "unicode \<Rightarrow> nat \<Rightarrow> bool" where
  "is_char_boundary t b \<longleftrightarrow> utf8_len (take (char_of_byte t b) t) = b"

text \<open>\<open>String::replace_range\<close>: it panics unless both ends are boundaries in order.\<close>

definition replace_range :: "unicode \<Rightarrow> nat \<Rightarrow> nat \<Rightarrow> unicode \<Rightarrow> rust_panic + unicode" where
  "replace_range t a b s =
     (if a \<le> b \<and> is_char_boundary t a \<and> is_char_boundary t b
      then Inr (take (char_of_byte t a) t @ s @ drop (char_of_byte t b) t) else Inl SliceRange)"

fun line_of_char :: "unicode list \<Rightarrow> nat \<Rightarrow> nat" where
  "line_of_char (l # m # ls) k = (if k < length l then 0 else Suc (line_of_char (m # ls) (k - length l)))"
| "line_of_char ls k = 0"

subsection \<open>Ropes\<close>

record 'r rope_ops =
  rp_from_str :: "unicode \<Rightarrow> 'r"
  rp_chars :: "'r \<Rightarrow> unicode"
  rp_lines :: "'r \<Rightarrow> unicode list"
  rp_len_bytes :: "'r \<Rightarrow> nat"
  rp_len_lines :: "'r \<Rightarrow> nat"
  rp_line :: "'r \<Rightarrow> nat \<Rightarrow> unicode"
  rp_line_to_byte :: "'r \<Rightarrow> nat \<Rightarrow> nat"
  rp_line_to_char :: "'r \<Rightarrow> nat \<Rightarrow> nat"
  rp_byte_to_char :: "'r \<Rightarrow> nat \<Rightarrow> nat"
  rp_char_to_line :: "'r \<Rightarrow> nat \<Rightarrow> nat"
  rp_slice :: "'r \<Rightarrow> nat \<Rightarrow> nat \<Rightarrow> unicode"
  rp_remove :: "'r \<Rightarrow> nat \<Rightarrow> nat \<Rightarrow> 'r"
  rp_insert :: "'r \<Rightarrow> nat \<Rightarrow> unicode \<Rightarrow> 'r"

definition lines_ok :: "unicode list \<Rightarrow> bool" where
  "lines_ok ls \<longleftrightarrow> ls \<noteq> [] \<and> [] \<notin> set (butlast ls)"

definition rope_laws :: "'r rope_ops \<Rightarrow> bool" where
  "rope_laws R \<longleftrightarrow>
     (\<forall>t. rp_chars R (rp_from_str R t) = t)
     \<and> (\<forall>r r'. rp_chars R r = rp_chars R r' \<longrightarrow> rp_lines R r = rp_lines R r')
     \<and> (\<forall>r. concat (rp_lines R r) = rp_chars R r \<and> lines_ok (rp_lines R r)
         \<and> rp_len_bytes R r = utf8_len (rp_chars R r) \<and> rp_len_lines R r = length (rp_lines R r))
     \<and> (\<forall>r i. i < length (rp_lines R r) \<longrightarrow> rp_line R r i = rp_lines R r ! i
         \<and> rp_line_to_byte R r i = utf8_len (concat (take i (rp_lines R r)))
         \<and> rp_line_to_char R r i = length (concat (take i (rp_lines R r))))
     \<and> (\<forall>r b. b \<le> utf8_len (rp_chars R r) \<longrightarrow> rp_byte_to_char R r b = char_of_byte (rp_chars R r) b)
     \<and> (\<forall>r k. k \<le> length (rp_chars R r) \<longrightarrow> rp_char_to_line R r k = line_of_char (rp_lines R r) k)
     \<and> (\<forall>r a b. a \<le> b \<and> b \<le> length (rp_chars R r) \<longrightarrow> rp_slice R r a b = take (b - a) (drop a (rp_chars R r))
         \<and> rp_chars R (rp_remove R r a b) = take a (rp_chars R r) @ drop b (rp_chars R r))
     \<and> (\<forall>r a s. a \<le> length (rp_chars R r) \<longrightarrow>
         rp_chars R (rp_insert R r a s) = take a (rp_chars R r) @ s @ drop a (rp_chars R r))"

subsection \<open>Positions\<close>

record lsp_position =
  ps_line :: nat
  ps_character :: nat

record lsp_range =
  rg_start :: lsp_position
  rg_end :: lsp_position

text \<open>The loop over the characters of a line: the bytes of those that begin before the unit.\<close>

fun bytes_before_unit :: "nat \<Rightarrow> nat \<Rightarrow> unicode \<Rightarrow> nat" where
  "bytes_before_unit character units [] = 0"
| "bytes_before_unit character units (c # cs) =
     (if units \<ge> character then 0 else len_utf8 c + bytes_before_unit character (units + len_utf16 c) cs)"

definition rope_line_col_to_offset :: "'r rope_ops \<Rightarrow> 'r \<Rightarrow> nat \<Rightarrow> nat \<Rightarrow> nat option" where
  "rope_line_col_to_offset R rope line character =
     (if line \<ge> rp_len_lines R rope then None
      else Some (rp_line_to_byte R rope line + bytes_before_unit character 0 (rp_line R rope line)))"

definition line_col_to_offset :: "'r rope_ops \<Rightarrow> unicode \<Rightarrow> nat \<Rightarrow> nat \<Rightarrow> nat option" where
  "line_col_to_offset R source = rope_line_col_to_offset R (rp_from_str R source)"

definition rope_byte_offset_to_line_col :: "'r rope_ops \<Rightarrow> 'r \<Rightarrow> nat \<Rightarrow> nat \<times> nat" where
  "rope_byte_offset_to_line_col R rope offset =
     (let char_idx = rp_byte_to_char R rope (min offset (rp_len_bytes R rope));
          line_idx = rp_char_to_line R rope char_idx;
          line_char_start = rp_line_to_char R rope line_idx
      in (as_u32 line_idx, as_u32 (utf16_len (rp_slice R rope line_char_start char_idx))))"

definition byte_offset_to_line_col :: "'r rope_ops \<Rightarrow> unicode \<Rightarrow> nat \<Rightarrow> nat \<times> nat" where
  "byte_offset_to_line_col R source = rope_byte_offset_to_line_col R (rp_from_str R source)"

definition rope_byte_offset_to_position :: "'r rope_ops \<Rightarrow> 'r \<Rightarrow> nat \<Rightarrow> lsp_position" where
  "rope_byte_offset_to_position R rope offset =
     (case rope_byte_offset_to_line_col R rope offset of (line, character) \<Rightarrow> \<lparr>ps_line = line, ps_character = character\<rparr>)"

definition rope_byte_range_to_range :: "'r rope_ops \<Rightarrow> 'r \<Rightarrow> nat \<Rightarrow> nat \<Rightarrow> lsp_range" where
  "rope_byte_range_to_range R rope a b =
     \<lparr>rg_start = rope_byte_offset_to_position R rope a, rg_end = rope_byte_offset_to_position R rope b\<rparr>"

definition identifier_char :: "(rune \<Rightarrow> bool) \<Rightarrow> rune \<Rightarrow> bool" where
  "identifier_char alnum c \<longleftrightarrow> alnum c \<or> c = 0x5F"

definition rope_identifier_end_position ::
  "(rune \<Rightarrow> bool) \<Rightarrow> 'r rope_ops \<Rightarrow> 'r \<Rightarrow> nat \<Rightarrow> nat \<Rightarrow> lsp_position option" where
  "rope_identifier_end_position alnum R rope line character =
     (case rope_line_col_to_offset R rope line character of
        None \<Rightarrow> None
      | Some start_offset \<Rightarrow>
          (let start_char = rp_byte_to_char R rope start_offset;
               word = takeWhile (identifier_char alnum) (drop start_char (rp_chars R rope))
           in if word = [] then Some \<lparr>ps_line = line, ps_character = character\<rparr>
              else Some (rope_byte_offset_to_position R rope (start_offset + utf8_len word))))"

subsection \<open>Bytes and characters\<close>

lemma len_utf_pos [simp]: "0 < len_utf8 c" "0 < len_utf16 c" "len_utf8 c \<noteq> 0" "len_utf16 c \<noteq> 0"
  by (simp_all add: len_utf8_def len_utf16_def)

lemma utf_len_simps [simp]:
  "utf8_len [] = 0" "utf8_len (c # cs) = len_utf8 c + utf8_len cs" "utf8_len (xs @ ys) = utf8_len xs + utf8_len ys"
  "utf16_len [] = 0" "utf16_len (c # cs) = len_utf16 c + utf16_len cs" "utf16_len (xs @ ys) = utf16_len xs + utf16_len ys"
  by (simp_all add: utf8_len_def utf16_len_def)

lemma char_of_byte_take [simp]: "k \<le> length t \<Longrightarrow> char_of_byte t (utf8_len (take k t)) = k"
proof (induction t arbitrary: k)
  case (Cons c cs)
  then show ?case by (cases k) auto
qed simp

lemma char_of_byte_le: "char_of_byte t b \<le> length t"
  by (induction t b rule: char_of_byte.induct) auto

lemma boundary_take [simp]: "is_char_boundary t (utf8_len (take k t))"
  by (cases "k \<le> length t") (simp_all add: is_char_boundary_def, metis char_of_byte_take order_refl take_all)

lemma boundaryE:
  assumes "is_char_boundary t b"
  obtains k where "k \<le> length t" "b = utf8_len (take k t)" "char_of_byte t b = k"
  using assms char_of_byte_le [of t b] unfolding is_char_boundary_def by metis

lemma utf8_len_take_mono: "j \<le> k \<Longrightarrow> utf8_len (take j t) \<le> utf8_len (take k t)"
  by (metis le_add1 le_add_diff_inverse take_add utf_len_simps(3))

lemma utf8_len_take_le: "utf8_len (take k t) \<le> utf8_len t"
  by (metis append_take_drop_id le_add1 utf_len_simps(3))

lemma bytes_before_take:
  "m \<le> length l \<Longrightarrow> bytes_before_unit (u + utf16_len (take m l)) u l = utf8_len (take m l)"
proof (induction l arbitrary: m u)
  case (Cons c cs)
  show ?case
  proof (cases m)
    case (Suc n)
    with Cons show ?thesis by (simp add: add.assoc [symmetric])
  qed simp
qed simp

lemma bytes_before_some: "\<exists>m\<le>length l. bytes_before_unit character u l = utf8_len (take m l)"
proof (induction l arbitrary: u)
  case (Cons c cs)
  obtain m where "m \<le> length cs" "bytes_before_unit character (u + len_utf16 c) cs = utf8_len (take m cs)"
    using Cons by blast
  then show ?case by (cases "u \<ge> character") (auto intro: exI [of _ 0] exI [of _ "Suc m"])
qed simp

lemma bytes_before_past: "u + utf16_len l \<le> character \<Longrightarrow> bytes_before_unit character u l = utf8_len l"
proof (induction l arbitrary: u)
  case (Cons c cs)
  then have "u < character" using len_utf_pos(2) [of c] by (simp del: len_utf_pos)
  with Cons show ?case by simp
qed simp

lemma bytes_before_mono: "c \<le> c' \<Longrightarrow> bytes_before_unit c u l \<le> bytes_before_unit c' u l"
  by (induction l arbitrary: u) auto

subsection \<open>Lines\<close>

lemma lines_ok_cons: "lines_ok (l # m # ls) \<longleftrightarrow> l \<noteq> [] \<and> lines_ok (m # ls)"
  by (auto simp: lines_ok_def)

lemma line_of_char_bounds:
  assumes "lines_ok ls" "k \<le> length (concat ls)"
  shows "line_of_char ls k < length ls \<and> length (concat (take (line_of_char ls k) ls)) \<le> k
    \<and> k - length (concat (take (line_of_char ls k) ls)) \<le> length (ls ! line_of_char ls k)"
  using assms
proof (induction ls k rule: line_of_char.induct)
  case (1 l m ls k)
  show ?case
  proof (cases "k < length l")
    case False
    with 1 have "line_of_char (m # ls) (k - length l) < length (m # ls)
      \<and> length (concat (take (line_of_char (m # ls) (k - length l)) (m # ls))) \<le> k - length l
      \<and> k - length l - length (concat (take (line_of_char (m # ls) (k - length l)) (m # ls)))
        \<le> length ((m # ls) ! line_of_char (m # ls) (k - length l))"
      by (auto simp: lines_ok_cons)
    with False show ?thesis by auto
  qed simp
qed (simp_all add: lines_ok_def)

lemma line_of_char_at:
  "lines_ok ls \<Longrightarrow> i < length ls \<Longrightarrow> m < length (ls ! i) \<or> m = length (ls ! i) \<and> Suc i = length ls
    \<Longrightarrow> line_of_char ls (length (concat (take i ls)) + m) = i"
proof (induction ls arbitrary: i)
  case (Cons l ls)
  show ?case
  proof (cases ls)
    case Nil
    with Cons.prems show ?thesis by simp
  next
    case rest: (Cons n ns)
    show ?thesis
    proof (cases i)
      case 0
      with Cons.prems rest show ?thesis by simp
    next
      case (Suc j)
      with Cons.prems rest have "line_of_char ls (length (concat (take j ls)) + m) = j"
        by (intro Cons.IH) (auto simp: lines_ok_cons)
      with Suc rest show ?thesis by simp
    qed
  qed
qed simp

lemma concat_take_nth: "i < length ls \<Longrightarrow> concat (take (Suc i) ls) = concat (take i ls) @ ls ! i"
  by (simp add: take_Suc_conv_app_nth)

lemma concat_split: "i < length ls \<Longrightarrow> concat ls = concat (take i ls) @ ls ! i @ concat (drop (Suc i) ls)"
  by (metis append.assoc concat_append concat_take_nth append_take_drop_id)

lemma take_at_line:
  assumes "i < length ls" "m \<le> length (ls ! i)"
  shows "take (length (concat (take i ls)) + m) (concat ls) = concat (take i ls) @ take m (ls ! i)"
  using concat_split [OF assms(1)] assms(2) by (simp add: take_add)

lemma drop_at_line:
  assumes "i < length ls"
  shows "drop (length (concat (take i ls))) (concat ls) = ls ! i @ concat (drop (Suc i) ls)"
  using concat_split [OF assms] by (metis append_eq_conv_conj)

subsection \<open>Positions on ropes\<close>

text \<open>What the operations of a rope give, from the contract.\<close>

locale rope_text =
  fixes R :: "'r rope_ops"
  assumes laws: "rope_laws R"
begin

lemmas law =
  laws [unfolded rope_laws_def, THEN conjunct1, THEN spec]
  laws [unfolded rope_laws_def, THEN conjunct2, THEN conjunct1, THEN spec, THEN spec, THEN mp]
  laws [unfolded rope_laws_def, THEN conjunct2, THEN conjunct2, THEN conjunct1, THEN spec]
  laws [unfolded rope_laws_def, THEN conjunct2, THEN conjunct2, THEN conjunct2, THEN conjunct1, THEN spec, THEN spec, THEN mp]
  laws [unfolded rope_laws_def, THEN conjunct2, THEN conjunct2, THEN conjunct2, THEN conjunct2, THEN conjunct1, THEN spec, THEN spec, THEN mp]
  laws [unfolded rope_laws_def, THEN conjunct2, THEN conjunct2, THEN conjunct2, THEN conjunct2, THEN conjunct2, THEN conjunct1, THEN spec, THEN spec, THEN mp]
  laws [unfolded rope_laws_def, THEN conjunct2, THEN conjunct2, THEN conjunct2, THEN conjunct2, THEN conjunct2, THEN conjunct2, THEN conjunct1, THEN spec, THEN spec, THEN spec, THEN mp, OF conjI]
  laws [unfolded rope_laws_def, THEN conjunct2, THEN conjunct2, THEN conjunct2, THEN conjunct2, THEN conjunct2, THEN conjunct2, THEN conjunct2, THEN spec, THEN spec, THEN spec, THEN mp]

lemmas from_str [simp] = law(1)
lemmas lines_of_chars = law(2)
lemmas to_char = law(5)
lemmas to_line = law(6)
lemmas insert_at = law(8)

lemma lines: "concat (rp_lines R r) = rp_chars R r" "lines_ok (rp_lines R r)"
  "rp_len_bytes R r = utf8_len (rp_chars R r)" "rp_len_lines R r = length (rp_lines R r)"
  using law(3) [of r] by simp_all

lemma at_line:
  assumes "i < length (rp_lines R r)"
  shows "rp_line R r i = rp_lines R r ! i" "rp_line_to_byte R r i = utf8_len (concat (take i (rp_lines R r)))"
    "rp_line_to_char R r i = length (concat (take i (rp_lines R r)))"
  using law(4) [OF assms] by simp_all

lemma slice: "a \<le> b \<Longrightarrow> b \<le> length (rp_chars R r) \<Longrightarrow> rp_slice R r a b = take (b - a) (drop a (rp_chars R r))"
  using law(7) [of a b r] by simp

lemma remove: "a \<le> b \<Longrightarrow> b \<le> length (rp_chars R r)
    \<Longrightarrow> rp_chars R (rp_remove R r a b) = take a (rp_chars R r) @ drop b (rp_chars R r)"
  using law(7) [of a b r] by simp

text \<open>A character of the text, by its line and the place in the line, has its offset and its position.\<close>

lemma offset_of:
  assumes "i < length (rp_lines R r)"
  shows "rope_line_col_to_offset R r i character
    = Some (utf8_len (concat (take i (rp_lines R r))) + bytes_before_unit character 0 (rp_lines R r ! i))"
  using assms by (simp add: rope_line_col_to_offset_def lines at_line)

lemma offset_of_char:
  assumes "i < length (rp_lines R r)" "m \<le> length (rp_lines R r ! i)"
  shows "rope_line_col_to_offset R r i (utf16_len (take m (rp_lines R r ! i)))
    = Some (utf8_len (take (length (concat (take i (rp_lines R r))) + m) (rp_chars R r)))"
  using offset_of [OF assms(1), of "utf16_len (take m (rp_lines R r ! i))"]
    bytes_before_take [OF assms(2), of 0] take_at_line [OF assms] by (simp add: lines)

lemma char_at_line:
  assumes "k \<le> length (rp_chars R r)"
  obtains i m where "i < length (rp_lines R r)" "m \<le> length (rp_lines R r ! i)"
    "k = length (concat (take i (rp_lines R r))) + m" "line_of_char (rp_lines R r) k = i"
proof -
  from assms have "k \<le> length (concat (rp_lines R r))" by (simp add: lines)
  from line_of_char_bounds [OF lines(2) this] show thesis
    using that [of "line_of_char (rp_lines R r) k" "k - length (concat (take (line_of_char (rp_lines R r) k) (rp_lines R r)))"]
    by auto
qed

lemma line_col_of_char:
  assumes "k \<le> length (rp_chars R r)" "i < length (rp_lines R r)" "m \<le> length (rp_lines R r ! i)"
    "k = length (concat (take i (rp_lines R r))) + m" "line_of_char (rp_lines R r) k = i"
  shows "rope_byte_offset_to_line_col R r (utf8_len (take k (rp_chars R r)))
    = (as_u32 i, as_u32 (utf16_len (take m (rp_lines R r ! i))))"
proof -
  have "drop (length (concat (take i (rp_lines R r)))) (rp_chars R r) = rp_lines R r ! i @ concat (drop (Suc i) (rp_lines R r))"
    using drop_at_line [OF assms(2)] by (simp add: lines)
  then have "rp_slice R r (length (concat (take i (rp_lines R r)))) k = take m (rp_lines R r ! i)"
    using assms(1,3,4) by (simp add: slice)
  with assms show ?thesis
    by (simp add: rope_byte_offset_to_line_col_def Let_def lines(3) utf8_len_take_le min.absorb1 to_char to_line at_line)
qed

lemma offset_roundtrip:
  assumes "is_char_boundary (rp_chars R r) b" "utf16_len (rp_chars R r) < 2 ^ 32" "length (rp_lines R r) < 2 ^ 32"
  shows "(case rope_byte_offset_to_line_col R r b of (line, character) \<Rightarrow> rope_line_col_to_offset R r line character) = Some b"
proof -
  from assms(1) obtain k where k: "k \<le> length (rp_chars R r)" "b = utf8_len (take k (rp_chars R r))" by (elim boundaryE)
  from char_at_line [OF k(1)] obtain i m where im: "i < length (rp_lines R r)" "m \<le> length (rp_lines R r ! i)"
    "k = length (concat (take i (rp_lines R r))) + m" "line_of_char (rp_lines R r) k = i" .
  have "utf16_len (take m (rp_lines R r ! i)) \<le> utf16_len (rp_lines R r ! i)"
    by (metis append_take_drop_id le_add1 utf_len_simps(6))
  also have "\<dots> \<le> utf16_len (rp_chars R r)" using concat_split [OF im(1)] lines(1) [of r] by (metis le_add1 le_add2 order_trans utf_len_simps(6))
  finally have "as_u32 (utf16_len (take m (rp_lines R r ! i))) = utf16_len (take m (rp_lines R r ! i))" "as_u32 i = i"
    using assms(2,3) im(1) by (simp_all add: as_u32_def)
  with line_col_of_char [OF k(1) im] offset_of_char [OF im(1,2)] k(2) im(3) show ?thesis by simp
qed

lemma position_roundtrip:
  assumes "i < length (rp_lines R r)" "m < length (rp_lines R r ! i) \<or> m = length (rp_lines R r ! i) \<and> Suc i = length (rp_lines R r)"
  shows "rope_line_col_to_offset R r i (utf16_len (take m (rp_lines R r ! i)))
      = Some (utf8_len (take (length (concat (take i (rp_lines R r))) + m) (rp_chars R r)))"
    "rope_byte_offset_to_line_col R r (utf8_len (take (length (concat (take i (rp_lines R r))) + m) (rp_chars R r)))
      = (as_u32 i, as_u32 (utf16_len (take m (rp_lines R r ! i))))"
proof -
  from assms(2) have m: "m \<le> length (rp_lines R r ! i)" by auto
  show "rope_line_col_to_offset R r i (utf16_len (take m (rp_lines R r ! i)))
      = Some (utf8_len (take (length (concat (take i (rp_lines R r))) + m) (rp_chars R r)))"
    using offset_of_char [OF assms(1) m] .
  have "length (concat (take i (rp_lines R r))) + m \<le> length (rp_chars R r)"
    using arg_cong [OF concat_split [OF assms(1)], of length] m by (simp add: lines)
  from line_col_of_char [OF this assms(1) m refl line_of_char_at [OF lines(2) assms]]
  show "rope_byte_offset_to_line_col R r (utf8_len (take (length (concat (take i (rp_lines R r))) + m) (rp_chars R r)))
      = (as_u32 i, as_u32 (utf16_len (take m (rp_lines R r ! i))))" .
qed

lemma offset_is_boundary:
  assumes "rope_line_col_to_offset R r line character = Some b"
  shows "is_char_boundary (rp_chars R r) b \<and> b \<le> utf8_len (rp_chars R r)"
proof -
  from assms have i: "line < length (rp_lines R r)" by (simp add: rope_line_col_to_offset_def lines split: if_splits)
  obtain m where m: "m \<le> length (rp_lines R r ! line)" "bytes_before_unit character 0 (rp_lines R r ! line) = utf8_len (take m (rp_lines R r ! line))"
    using bytes_before_some by blast
  from assms offset_of [OF i] m take_at_line [OF i m(1)] lines(1) [of r]
  have "b = utf8_len (take (length (concat (take line (rp_lines R r))) + m) (rp_chars R r))" by simp
  then show ?thesis by (simp add: utf8_len_take_le)
qed

text \<open>Positions in order have offsets in order.\<close>

lemma offset_mono:
  assumes "rope_line_col_to_offset R r l c = Some a" "rope_line_col_to_offset R r l' c' = Some b" "l < l' \<or> l = l' \<and> c \<le> c'"
  shows "a \<le> b"
proof -
  have i: "l < length (rp_lines R r)" "l' < length (rp_lines R r)"
    using assms(1,2) by (simp_all add: rope_line_col_to_offset_def lines split: if_splits)
  show ?thesis
  proof (cases "l = l'")
    case True
    with assms i bytes_before_mono [of c c'] show ?thesis by (auto simp: offset_of)
  next
    case False
    with assms(3) have "Suc l \<le> l'" by simp
    then have "concat (take l' (rp_lines R r)) = concat (take (Suc l) (rp_lines R r)) @ concat (take (l' - Suc l) (drop (Suc l) (rp_lines R r)))"
      by (metis concat_append le_add_diff_inverse take_add)
    moreover have "bytes_before_unit c 0 (rp_lines R r ! l) \<le> utf8_len (rp_lines R r ! l)"
      using bytes_before_some [of "rp_lines R r ! l" c 0] utf8_len_take_le by metis
    ultimately show ?thesis using assms(1,2) i by (simp add: offset_of concat_take_nth)
  qed
qed

lemma column_past_end:
  assumes "i < length (rp_lines R r)" "utf16_len (rp_lines R r ! i) \<le> character"
  shows "rope_line_col_to_offset R r i character = Some (utf8_len (concat (take (Suc i) (rp_lines R r))))"
  using offset_of [OF assms(1)] bytes_before_past [of 0 "rp_lines R r ! i" character] assms
  by (simp add: concat_take_nth)

end

subsection \<open>A rope\<close>

text \<open>A text as its own rope, with lines that end at line feeds.\<close>

fun lf_lines :: "unicode \<Rightarrow> unicode list" where
  "lf_lines [] = [[]]"
| "lf_lines (c # cs) =
     (if c = 0x0A then [c] # lf_lines cs else (c # hd (lf_lines cs)) # tl (lf_lines cs))"

definition text_rope :: "unicode rope_ops" where
  "text_rope =
     \<lparr>rp_from_str = (\<lambda>t. t), rp_chars = (\<lambda>t. t), rp_lines = lf_lines, rp_len_bytes = utf8_len,
      rp_len_lines = (\<lambda>t. length (lf_lines t)), rp_line = (\<lambda>t i. lf_lines t ! i),
      rp_line_to_byte = (\<lambda>t i. utf8_len (concat (take i (lf_lines t)))),
      rp_line_to_char = (\<lambda>t i. length (concat (take i (lf_lines t)))), rp_byte_to_char = char_of_byte,
      rp_char_to_line = (\<lambda>t. line_of_char (lf_lines t)), rp_slice = (\<lambda>t a b. take (b - a) (drop a t)),
      rp_remove = (\<lambda>t a b. take a t @ drop b t), rp_insert = (\<lambda>t a s. take a t @ s @ drop a t)\<rparr>"

lemma lf_lines_nonempty [simp]: "lf_lines t \<noteq> []"
  by (cases t) simp_all

lemma concat_lf_lines [simp]: "concat (lf_lines t) = t"
proof (induction t)
  case (Cons c cs)
  then show ?case by (cases "lf_lines cs") auto
qed simp

lemma lf_lines_ok [simp]: "lines_ok (lf_lines t)"
proof (induction t)
  case (Cons c cs)
  then show ?case by (cases "lf_lines cs") (auto simp: lines_ok_def split: if_splits)
qed (simp add: lines_ok_def)

lemma text_rope_laws: "rope_laws text_rope"
  by (simp add: rope_laws_def text_rope_def)

interpretation lf_rope: rope_text text_rope
  by unfold_locales (rule text_rope_laws)

text \<open>
  C9. The position of an offset leads back to the offset, in every text of fewer than \<open>2 ^ 32\<close> lines and
  UTF-16 units.
\<close>

theorem position_offset_roundtrip:
  assumes "rope_laws R" "is_char_boundary (rp_chars R r) b" "utf16_len (rp_chars R r) < 2 ^ 32" "length (rp_lines R r) < 2 ^ 32"
  shows "(case rope_byte_offset_to_line_col R r b of (line, character) \<Rightarrow> rope_line_col_to_offset R r line character) = Some b"
  by (rule rope_text.offset_roundtrip [OF rope_text.intro, OF assms])

theorem position_offset_roundtrip_witness:
  "(case rope_byte_offset_to_line_col text_rope [0x61, 0x1F600, 0x0A, 0x4E2D, 0x62] 9
    of (line, character) \<Rightarrow> rope_line_col_to_offset text_rope [0x61, 0x1F600, 0x0A, 0x4E2D, 0x62] line character) = Some 9"
  by (rule position_offset_roundtrip [OF text_rope_laws])
     (simp_all add: text_rope_def is_char_boundary_def len_utf8_def len_utf16_def)

text \<open>A column behind the end of a line is taken to be the start of the next line, not the end of the line.\<close>

lemma column_runs_into_next_line:
  "rope_line_col_to_offset text_rope [0x61, 0x0A, 0x62] 0 9 = Some 2"
  "rope_byte_offset_to_line_col text_rope [0x61, 0x0A, 0x62] 2 = (1, 0)"
  by (simp_all add: rope_line_col_to_offset_def rope_byte_offset_to_line_col_def text_rope_def len_utf8_def len_utf16_def
      as_u32_def numeral_2_eq_2)

end
