(* ===== verification/Document_Sync.thy ===== *)
theory Document_Sync
  imports Text_Positions "HOL-Library.Word"
begin

text \<open>
  Open documents: their snapshots (\<open>workspace/source_file.rs\<close>), the store with its caches
  (\<open>workspace/document.rs\<close>, \<open>ensure_tree\<close> of \<open>workspace.rs\<close>), and the notifications that open, change, save
  and close them (\<open>lsp/server.rs\<close>, the languages of \<open>language.rs\<close>).

  Parameters: the rope library (\<open>rope_ops\<close>), the parsers (\<open>parser_ops\<close>: parsing a text, with an old tree
  where there is one, and moving the nodes of a tree behind an edit), and a cache of limited size
  (\<open>context_cache_ops\<close>). What a handler starts outside the store is in its result as \<open>sync_effect\<close>s; a panic of a
  string operation is a value of \<open>rust_panic +\<close>.
\<close>

subsection \<open>Languages\<close>

datatype language = JavaLanguage | KotlinLanguage

fun language_id :: "language \<Rightarrow> str" where
  "language_id JavaLanguage = ''java''"
| "language_id KotlinLanguage = ''kotlin''"

definition supports :: "language \<Rightarrow> str \<Rightarrow> bool" where
  "supports l lang_id \<longleftrightarrow> lang_id = language_id l"

fun file_extensions :: "language \<Rightarrow> str list" where
  "file_extensions JavaLanguage = [''java'']"
| "file_extensions KotlinLanguage = [''kt'', ''kts'']"

definition builtin_languages :: "language list" where
  "builtin_languages = [JavaLanguage, KotlinLanguage]"

definition lookup_language :: "str \<Rightarrow> language option" where
  "lookup_language lang_id = find (\<lambda>l. supports l lang_id) builtin_languages"

record language_registry =
  lr_languages :: "language list"

definition language_registry_new :: language_registry where
  "language_registry_new = \<lparr>lr_languages = [JavaLanguage, KotlinLanguage]\<rparr>"

definition registry_find :: "language_registry \<Rightarrow> str \<Rightarrow> language option" where
  "registry_find registry lang_id = find (\<lambda>l. supports l lang_id) (lr_languages registry)"

definition registry_register :: "language \<Rightarrow> language_registry \<Rightarrow> language_registry" where
  "registry_register l registry = registry\<lparr>lr_languages := lr_languages registry @ [l]\<rparr>"

definition ascii_lower :: "char \<Rightarrow> char" where
  "ascii_lower c = (if CHR ''A'' \<le> c \<and> c \<le> CHR ''Z'' then char_of ((of_char c :: nat) + 32) else c)"

text \<open>\<open>Path::extension\<close> on the last component: the part behind the last dot that is not the first character.\<close>

definition path_extension :: "str \<Rightarrow> str option" where
  "path_extension file_name =
     (case rfind_char file_name (CHR ''.'') of
        Some pos \<Rightarrow> if pos = 0 \<or> file_name = ''..'' then None else Some (drop (pos + 1) file_name)
      | None \<Rightarrow> None)"

definition infer_language_id_from_path :: "str \<Rightarrow> str option" where
  "infer_language_id_from_path file_name =
     (case path_extension file_name of
        None \<Rightarrow> None
      | Some ext \<Rightarrow> find_map (\<lambda>l. if map ascii_lower ext \<in> set (file_extensions l) then Some (language_id l) else None)
                       builtin_languages)"

text \<open>\<open>path\<close> is the file name of the URI, None for a URI that is no path.\<close>

definition resolve_supported_language_id :: "language_registry \<Rightarrow> str option \<Rightarrow> str \<Rightarrow> str option" where
  "resolve_supported_language_id registry path reported =
     (if registry_find registry reported \<noteq> None then Some reported
      else case path of
        None \<Rightarrow> None
      | Some file_name \<Rightarrow>
          (case infer_language_id_from_path file_name of
             Some lang_id \<Rightarrow> if registry_find registry lang_id \<noteq> None then Some lang_id else None
           | None \<Rightarrow> None))"

subsection \<open>Snapshots and documents\<close>

record ('r, 't) source_file =
  sf_uri :: str
  sf_language_id :: str
  sf_version :: int
  sf_text :: unicode
  sf_rope :: 'r
  sf_tree :: "'t option"

definition source_file_new ::
  "'r rope_ops \<Rightarrow> str \<Rightarrow> str \<Rightarrow> int \<Rightarrow> unicode \<Rightarrow> 't option \<Rightarrow> ('r, 't) source_file" where
  "source_file_new R uri lang version text' tree =
     \<lparr>sf_uri = uri, sf_language_id = lang, sf_version = version, sf_text = text', sf_rope = rp_from_str R text', sf_tree = tree\<rparr>"

definition with_tree :: "'t option \<Rightarrow> ('r, 't) source_file \<Rightarrow> ('r, 't) source_file" where
  "with_tree tree source = source\<lparr>sf_tree := tree\<rparr>"

record semantic_token =
  tok_delta_line :: nat
  tok_delta_start :: nat
  tok_length :: nat
  tok_type :: nat
  tok_modifiers :: "32 word"

record context_cache_key =
  ck_document_version :: int
  ck_workspace_version :: nat
  ck_module :: nat
  ck_classpath :: nat
  ck_source_root :: "nat option"
  ck_overlay_class_count :: nat
  ck_offset :: nat
  ck_trigger :: "rune option"

text \<open>A cache that forgets entries when it is full: what it finds has been put and not cleared since.\<close>

record ('l, 'v) context_cache_ops =
  cc_new :: 'l
  cc_peek :: "'l \<Rightarrow> context_cache_key \<Rightarrow> 'v option"
  cc_put :: "'l \<Rightarrow> context_cache_key \<Rightarrow> 'v \<Rightarrow> 'l"
  cc_clear :: "'l \<Rightarrow> 'l"
  cc_len :: "'l \<Rightarrow> nat"

definition context_cache_laws :: "('l, 'v) context_cache_ops \<Rightarrow> bool" where
  "context_cache_laws L \<longleftrightarrow>
     (\<forall>k. cc_peek L (cc_new L) k = None) \<and> (\<forall>l k. cc_peek L (cc_clear L l) k = None)
     \<and> (\<forall>l k v k'. cc_peek L (cc_put L l k v) k' \<in> (if k' = k then {Some v} else {None, cc_peek L l k'}))"

record ('r, 't, 'l) document =
  dc_source :: "('r, 't) source_file"
  dc_semantic_token_cache :: "(str \<times> semantic_token list) option"
  dc_semantic_context_cache :: 'l

definition document_new :: "('l, 'v) context_cache_ops \<Rightarrow> ('r, 't) source_file \<Rightarrow> ('r, 't, 'l) document" where
  "document_new L source =
     \<lparr>dc_source = source, dc_semantic_token_cache = None, dc_semantic_context_cache = cc_new L\<rparr>"

definition clear_caches :: "('l, 'v) context_cache_ops \<Rightarrow> ('r, 't, 'l) document \<Rightarrow> ('r, 't, 'l) document" where
  "clear_caches L d = d\<lparr>dc_semantic_token_cache := None, dc_semantic_context_cache := cc_clear L (dc_semantic_context_cache d)\<rparr>"

definition document_update_source ::
  "('l, 'v) context_cache_ops \<Rightarrow> ('r, 't) source_file \<Rightarrow> ('r, 't, 'l) document \<Rightarrow> ('r, 't, 'l) document" where
  "document_update_source L source d = clear_caches L (d\<lparr>dc_source := source\<rparr>)"

definition set_tree :: "('l, 'v) context_cache_ops \<Rightarrow> 't option \<Rightarrow> ('r, 't, 'l) document \<Rightarrow> ('r, 't, 'l) document" where
  "set_tree L tree d = d\<lparr>dc_source := with_tree tree (dc_source d), dc_semantic_context_cache := cc_clear L (dc_semantic_context_cache d)\<rparr>"

definition cached_semantic_context :: "('l, 'v) context_cache_ops \<Rightarrow> ('r, 't, 'l) document \<Rightarrow> context_cache_key \<Rightarrow> 'v option" where
  "cached_semantic_context L d key = cc_peek L (dc_semantic_context_cache d) key"

definition cache_semantic_context ::
  "('l, 'v) context_cache_ops \<Rightarrow> context_cache_key \<Rightarrow> 'v \<Rightarrow> ('r, 't, 'l) document \<Rightarrow> ('r, 't, 'l) document" where
  "cache_semantic_context L key context d =
     d\<lparr>dc_semantic_context_cache := cc_put L (dc_semantic_context_cache d) key context\<rparr>"

definition document_uri :: "('r, 't, 'l) document \<Rightarrow> str" where
  "document_uri d = sf_uri (dc_source d)"

definition document_language_id :: "('r, 't, 'l) document \<Rightarrow> str" where
  "document_language_id d = sf_language_id (dc_source d)"

definition document_version :: "('r, 't, 'l) document \<Rightarrow> int" where
  "document_version d = sf_version (dc_source d)"

subsection \<open>The store\<close>

type_synonym ('r, 't, 'l) document_store = "(str, ('r, 't, 'l) document) hash_map"

definition store_open :: "('r, 't, 'l) document \<Rightarrow> ('r, 't, 'l) document_store \<Rightarrow> ('r, 't, 'l) document_store" where
  "store_open d docs = hinsert (document_uri d) d docs"

definition store_close :: "str \<Rightarrow> ('r, 't, 'l) document_store \<Rightarrow> ('r, 't, 'l) document_store" where
  "store_close uri docs = hremove uri docs"

definition with_doc :: "('r, 't, 'l) document_store \<Rightarrow> str \<Rightarrow> (('r, 't, 'l) document \<Rightarrow> 'a) \<Rightarrow> 'a option" where
  "with_doc docs uri f = map_option f (hget docs uri)"

definition with_doc_mut ::
  "str \<Rightarrow> (('r, 't, 'l) document \<Rightarrow> ('r, 't, 'l) document) \<Rightarrow> ('r, 't, 'l) document_store \<Rightarrow> ('r, 't, 'l) document_store" where
  "with_doc_mut uri f docs = (case hget docs uri of None \<Rightarrow> docs | Some d \<Rightarrow> hinsert uri (f d) docs)"

record document_overlay_snapshot =
  dos_uri :: str
  dos_language_id :: str
  dos_text :: unicode

definition snapshot_documents :: "('r, 't, 'l) document_store \<Rightarrow> document_overlay_snapshot list" where
  "snapshot_documents docs =
     map (\<lambda>(_, d). \<lparr>dos_uri = document_uri d, dos_language_id = document_language_id d, dos_text = sf_text (dc_source d)\<rparr>) docs"

record document_cache_stats =
  dcs_token_entries :: nat
  dcs_token_bytes :: nat
  dcs_context_entries :: nat

definition size_of_semantic_token :: nat where "size_of_semantic_token = 20"

definition cache_stats :: "('l, 'v) context_cache_ops \<Rightarrow> ('r, 't, 'l) document \<Rightarrow> document_cache_stats" where
  "cache_stats L d =
     (case (case dc_semantic_token_cache d of
              Some (result_id, tokens) \<Rightarrow> (1, length result_id + length tokens * size_of_semantic_token)
            | None \<Rightarrow> (0, 0)) of
        (entries, bytes) \<Rightarrow> \<lparr>dcs_token_entries = entries, dcs_token_bytes = bytes,
          dcs_context_entries = cc_len L (dc_semantic_context_cache d)\<rparr>)"

record document_store_stats =
  dss_open_document_count :: nat
  dss_text_bytes :: nat
  dss_rope_bytes :: nat
  dss_tree_count :: nat
  dss_token_entries :: nat
  dss_token_bytes :: nat
  dss_context_entries :: nat

definition store_stats :: "'r rope_ops \<Rightarrow> ('l, 'v) context_cache_ops \<Rightarrow> ('r, 't, 'l) document_store \<Rightarrow> document_store_stats" where
  "store_stats R L docs =
     fold (\<lambda>(_, d) stats.
         let cs = cache_stats L d
         in \<lparr>dss_open_document_count = dss_open_document_count stats + 1,
             dss_text_bytes = dss_text_bytes stats + utf8_len (sf_text (dc_source d)),
             dss_rope_bytes = dss_rope_bytes stats + rp_len_bytes R (sf_rope (dc_source d)),
             dss_tree_count = dss_tree_count stats + (if sf_tree (dc_source d) = None then 0 else 1),
             dss_token_entries = dss_token_entries stats + dcs_token_entries cs,
             dss_token_bytes = dss_token_bytes stats + dcs_token_bytes cs,
             dss_context_entries = dss_context_entries stats + dcs_context_entries cs\<rparr>)
       docs
       \<lparr>dss_open_document_count = 0, dss_text_bytes = 0, dss_rope_bytes = 0, dss_tree_count = 0, dss_token_entries = 0,
        dss_token_bytes = 0, dss_context_entries = 0\<rparr>"

definition clear_lsp_caches :: "('l, 'v) context_cache_ops \<Rightarrow> ('r, 't, 'l) document_store \<Rightarrow> ('r, 't, 'l) document_store" where
  "clear_lsp_caches L docs = map (\<lambda>(uri, d). (uri, clear_caches L d)) docs"

definition document_snapshot :: "('r, 't, 'l) document_store \<Rightarrow> str \<Rightarrow> ('r, 't) source_file option" where
  "document_snapshot docs uri = with_doc docs uri dc_source"

subsection \<open>Parsers and edits of trees\<close>

text \<open>A point is a row and a column in bytes.\<close>

record input_edit =
  ie_start_byte :: nat
  ie_old_end_byte :: nat
  ie_new_end_byte :: nat
  ie_start_position :: "nat \<times> nat"
  ie_old_end_position :: "nat \<times> nat"
  ie_new_end_position :: "nat \<times> nat"

record 't parser_ops =
  pa_parse :: "language \<Rightarrow> unicode \<Rightarrow> 't option \<Rightarrow> 't option"
  pa_edit :: "'t \<Rightarrow> input_edit \<Rightarrow> 't"

definition ensure_tree ::
  "('l, 'v) context_cache_ops \<Rightarrow> 't parser_ops \<Rightarrow> str \<Rightarrow> language \<Rightarrow> ('r, 't, 'l) document_store
     \<Rightarrow> ('r, 't) source_file option \<times> ('r, 't, 'l) document_store" where
  "ensure_tree L P uri lang docs =
     (let has_tree = (case with_doc docs uri (\<lambda>d. sf_tree (dc_source d) \<noteq> None) of Some b \<Rightarrow> b | None \<Rightarrow> False);
          docs1 = (if has_tree then docs
            else with_doc_mut uri (\<lambda>d. if sf_tree (dc_source d) \<noteq> None then d
                   else set_tree L (pa_parse P lang (sf_text (dc_source d)) None) d) docs)
      in (document_snapshot docs1 uri, docs1))"

definition line_feeds :: "unicode \<Rightarrow> nat" where
  "line_feeds s = length (filter (\<lambda>c. c = 0x0A) s)"

definition after_last_line_feed :: "unicode \<Rightarrow> unicode" where
  "after_last_line_feed s = rev (takeWhile (\<lambda>c. c \<noteq> 0x0A) (rev s))"

definition point_after_insert_bytes :: "nat \<Rightarrow> nat \<Rightarrow> unicode \<Rightarrow> nat \<times> nat" where
  "point_after_insert_bytes start_row start_col_bytes inserted =
     (if inserted = [] then (start_row, start_col_bytes)
      else if 0x0A \<in> set inserted then (start_row + line_feeds inserted, utf8_len (after_last_line_feed inserted))
      else (start_row, start_col_bytes + utf8_len inserted))"

subsection \<open>Notifications\<close>

datatype sync_effect =
    ReindexDocument str
  | RefreshSemanticTokens
  | NotifyBuildFileChange str
  | ScheduleReindex str int
  | ReconcileClosedDocument str

definition did_open ::
  "'r rope_ops \<Rightarrow> ('l, 'v) context_cache_ops \<Rightarrow> 't parser_ops \<Rightarrow> language_registry \<Rightarrow> str option \<Rightarrow> str \<Rightarrow> str \<Rightarrow> int \<Rightarrow> unicode
     \<Rightarrow> ('r, 't, 'l) document_store \<Rightarrow> sync_effect list \<times> ('r, 't, 'l) document_store" where
  "did_open R L P registry path uri reported version text' docs =
     (case resolve_supported_language_id registry path reported of
        None \<Rightarrow> ([], docs)
      | Some lang_id \<Rightarrow>
          (case registry_find registry lang_id of
             None \<Rightarrow> ([], docs)
           | Some lang \<Rightarrow>
               (let docs1 = store_open (document_new L (source_file_new R uri lang_id version text' None)) docs;
                    docs2 = with_doc_mut uri (set_tree L (pa_parse P lang text' None)) docs1
                in ([ReindexDocument uri, RefreshSemanticTokens, NotifyBuildFileChange uri], docs2))))"

record content_change =
  ch_range :: "lsp_range option"
  ch_text :: unicode

datatype ('r, 't) change_outcome = Edited unicode 'r 't | Replaced unicode

text \<open>The body of the loop for a change of a range, between two offsets that exist.\<close>

definition apply_edit ::
  "'r rope_ops \<Rightarrow> 't parser_ops \<Rightarrow> lsp_range \<Rightarrow> unicode \<Rightarrow> nat \<Rightarrow> nat \<Rightarrow> unicode \<Rightarrow> 'r \<Rightarrow> 't \<Rightarrow> rust_panic + unicode \<times> 'r \<times> 't" where
  "apply_edit R P rng new start_byte old_end_byte text' rope tree =
     (let start_line = ps_line (rg_start rng); end_line = ps_line (rg_end rng);
          start_position = (start_line, start_byte - rp_line_to_byte R rope start_line);
          old_end_position = (end_line, old_end_byte - rp_line_to_byte R rope end_line)
      in map_ok (\<lambda>text1.
           let start_char = rp_byte_to_char R rope start_byte;
               old_end_char = rp_byte_to_char R rope old_end_byte;
               rope1 = rp_insert R (rp_remove R rope start_char old_end_char) start_char new
           in (text1, rope1, pa_edit P tree
                \<lparr>ie_start_byte = start_byte, ie_old_end_byte = old_end_byte, ie_new_end_byte = start_byte + utf8_len new,
                 ie_start_position = start_position, ie_old_end_position = old_end_position,
                 ie_new_end_position = point_after_insert_bytes (fst start_position) (snd start_position) new\<rparr>))
         (replace_range text' start_byte old_end_byte new))"

fun apply_changes ::
  "'r rope_ops \<Rightarrow> 't parser_ops \<Rightarrow> content_change list \<Rightarrow> unicode \<times> 'r \<times> 't \<Rightarrow> rust_panic + ('r, 't) change_outcome" where
  "apply_changes R P [] (text', rope, tree) = Inr (Edited text' rope tree)"
| "apply_changes R P (ch # chs) (text', rope, tree) =
     (case ch_range ch of
        None \<Rightarrow> Inr (Replaced (ch_text ch))
      | Some rng \<Rightarrow>
          (case rope_line_col_to_offset R rope (ps_line (rg_start rng)) (ps_character (rg_start rng)) of
             None \<Rightarrow> apply_changes R P chs (text', rope, tree)
           | Some start_byte \<Rightarrow>
               (case rope_line_col_to_offset R rope (ps_line (rg_end rng)) (ps_character (rg_end rng)) of
                  None \<Rightarrow> apply_changes R P chs (text', rope, tree)
                | Some old_end_byte \<Rightarrow>
                    and_then (apply_edit R P rng (ch_text ch) start_byte old_end_byte text' rope tree)
                      (apply_changes R P chs))))"

definition base_tree :: "'t parser_ops \<Rightarrow> language \<Rightarrow> ('r, 't) source_file \<Rightarrow> 't option" where
  "base_tree P lang source =
     (case sf_tree source of Some t \<Rightarrow> Some t | None \<Rightarrow> pa_parse P lang (sf_text source) None)"

text \<open>The closure of \<open>did_change\<close>: the new document, None where it is left as it is.\<close>

definition change_document ::
  "'r rope_ops \<Rightarrow> ('l, 'v) context_cache_ops \<Rightarrow> 't parser_ops \<Rightarrow> language \<Rightarrow> int \<Rightarrow> content_change list \<Rightarrow> ('r, 't, 'l) document
     \<Rightarrow> rust_panic + ('r, 't, 'l) document option" where
  "change_document R L P lang new_version changes d =
     (let source = dc_source d;
          replace = (\<lambda>text' tree. document_update_source L
            (source_file_new R (sf_uri source) (sf_language_id source) new_version text' tree) d)
      in case base_tree P lang source of
           None \<Rightarrow> Inr None
         | Some tree \<Rightarrow>
             map_ok (\<lambda>outcome. Some (case outcome of
                 Replaced text' \<Rightarrow> replace text' (pa_parse P lang text' None)
               | Edited text' _ edited \<Rightarrow> replace text' (pa_parse P lang text' (Some edited))))
               (apply_changes R P changes (sf_text source, sf_rope source, tree)))"

definition did_change ::
  "'r rope_ops \<Rightarrow> ('l, 'v) context_cache_ops \<Rightarrow> 't parser_ops \<Rightarrow> language_registry \<Rightarrow> str \<Rightarrow> int \<Rightarrow> content_change list
     \<Rightarrow> ('r, 't, 'l) document_store \<Rightarrow> rust_panic + (sync_effect list \<times> ('r, 't, 'l) document_store)" where
  "did_change R L P registry uri version changes docs =
     (case hget docs uri of
        None \<Rightarrow> Inr ([], docs)
      | Some d \<Rightarrow>
          (case registry_find registry (document_language_id d) of
             None \<Rightarrow> Inr ([], docs)
           | Some lang \<Rightarrow>
               map_ok (\<lambda>changed. case changed of
                   None \<Rightarrow> ([], docs)
                 | Some d1 \<Rightarrow> ([ScheduleReindex uri version], hinsert uri d1 docs))
                 (change_document R L P lang version changes d)))"

definition save_document ::
  "'r rope_ops \<Rightarrow> ('l, 'v) context_cache_ops \<Rightarrow> 't parser_ops \<Rightarrow> language \<Rightarrow> unicode option \<Rightarrow> ('r, 't, 'l) document \<Rightarrow> ('r, 't, 'l) document" where
  "save_document R L P lang saved d =
     (let source = dc_source d
      in case saved of
           Some text' \<Rightarrow> document_update_source L (source_file_new R (sf_uri source) (sf_language_id source) (document_version d) text'
                            (pa_parse P lang text' None)) d
         | None \<Rightarrow> set_tree L (pa_parse P lang (sf_text source) None) d)"

definition did_save ::
  "'r rope_ops \<Rightarrow> ('l, 'v) context_cache_ops \<Rightarrow> 't parser_ops \<Rightarrow> language_registry \<Rightarrow> str \<Rightarrow> unicode option
     \<Rightarrow> ('r, 't, 'l) document_store \<Rightarrow> sync_effect list \<times> ('r, 't, 'l) document_store" where
  "did_save R L P registry uri saved docs =
     (case hget docs uri of
        None \<Rightarrow> ([], docs)
      | Some d \<Rightarrow>
          (case registry_find registry (document_language_id d) of
             None \<Rightarrow> ([], docs)
           | Some lang \<Rightarrow> ([ReindexDocument uri, RefreshSemanticTokens, NotifyBuildFileChange uri],
                            with_doc_mut uri (save_document R L P lang saved) docs)))"

definition did_close :: "str \<Rightarrow> ('r, 't, 'l) document_store \<Rightarrow> sync_effect list \<times> ('r, 't, 'l) document_store" where
  "did_close uri docs = ([ReconcileClosedDocument uri], store_close uri docs)"

end
