(* ===== verification/Document_Laws.thy ===== *)
theory Document_Laws
  imports Document_Sync
begin

text \<open>
  Laws of open documents: the rope of a snapshot holds its text after every operation of the store; after
  \<open>did_change\<close> the server has the text that the client has, where the client's positions are ones of its
  text and a change of the whole text comes last; the edit that a tree is given has the points of the old
  and the new text. The specification of the client is \<open>client_changes\<close>, on characters.
\<close>

subsection \<open>What the client does\<close>

text \<open>A position names a place between characters of a line of the text.\<close>

definition at_position :: "unicode list \<Rightarrow> lsp_position \<Rightarrow> nat \<Rightarrow> bool" where
  "at_position ls p k \<longleftrightarrow> ps_line p < length ls
     \<and> (\<exists>m\<le>length (ls ! ps_line p). ps_character p = utf16_len (take m (ls ! ps_line p))
          \<and> k = length (concat (take (ps_line p) ls)) + m)"

inductive client_change :: "(unicode \<Rightarrow> unicode list) \<Rightarrow> unicode \<Rightarrow> content_change \<Rightarrow> unicode \<Rightarrow> bool" for ls where
  change_whole: "ch_range ch = None \<Longrightarrow> client_change ls t ch (ch_text ch)"
| change_range: "ch_range ch = Some rng \<Longrightarrow> at_position (ls t) (rg_start rng) a \<Longrightarrow> at_position (ls t) (rg_end rng) b
    \<Longrightarrow> a \<le> b \<Longrightarrow> client_change ls t ch (take a t @ ch_text ch @ drop b t)"

inductive client_changes :: "(unicode \<Rightarrow> unicode list) \<Rightarrow> unicode \<Rightarrow> content_change list \<Rightarrow> unicode \<Rightarrow> bool" for ls where
  changes_none: "client_changes ls t [] t"
| changes_more: "client_change ls t ch t1 \<Longrightarrow> client_changes ls t1 chs t2 \<Longrightarrow> client_changes ls t (ch # chs) t2"

inductive_cases client_changesE: "client_changes ls t chs t'"
inductive_cases client_changes_consE: "client_changes ls t (ch # chs) t'"
inductive_simps client_changes_Nil [simp]: "client_changes ls t [] t'"

definition rope_lines :: "'r rope_ops \<Rightarrow> unicode \<Rightarrow> unicode list" where
  "rope_lines R t = rp_lines R (rp_from_str R t)"

subsection \<open>Snapshots in step\<close>

definition synced :: "'r rope_ops \<Rightarrow> ('r, 't) source_file \<Rightarrow> bool" where
  "synced R source \<longleftrightarrow> rp_chars R (sf_rope source) = sf_text source"

definition store_synced :: "'r rope_ops \<Rightarrow> ('r, 't, 'l) document_store \<Rightarrow> bool" where
  "store_synced R docs \<longleftrightarrow> (\<forall>uri d. hget docs uri = Some d \<longrightarrow> synced R (dc_source d) \<and> document_uri d = uri)"

lemma document_simps [simp]:
  "dc_source (document_update_source L s d) = s" "dc_semantic_token_cache (document_update_source L s d) = None"
  "dc_source (set_tree L tr d) = with_tree tr (dc_source d)"
  "dc_semantic_token_cache (set_tree L tr d) = dc_semantic_token_cache d"
  "dc_source (document_new L s) = s" "dc_semantic_token_cache (document_new L s) = None"
  "dc_source (clear_caches L d) = dc_source d" "dc_semantic_token_cache (clear_caches L d) = None"
  "dc_source (cache_semantic_context L k c d) = dc_source d"
  by (simp_all add: document_update_source_def set_tree_def document_new_def clear_caches_def cache_semantic_context_def)

lemma source_simps [simp]:
  "sf_uri (source_file_new R u l v t tr) = u" "sf_language_id (source_file_new R u l v t tr) = l"
  "sf_version (source_file_new R u l v t tr) = v" "sf_text (source_file_new R u l v t tr) = t"
  "sf_rope (source_file_new R u l v t tr) = rp_from_str R t" "sf_tree (source_file_new R u l v t tr) = tr"
  "sf_uri (with_tree tr s) = sf_uri s" "sf_text (with_tree tr s) = sf_text s" "sf_rope (with_tree tr s) = sf_rope s"
  "sf_version (with_tree tr s) = sf_version s" "sf_language_id (with_tree tr s) = sf_language_id s" "sf_tree (with_tree tr s) = tr"
  by (simp_all add: source_file_new_def with_tree_def)

lemma with_doc_mut_get: "hget (with_doc_mut u f docs) v = (if v = u then map_option f (hget docs u) else hget docs v)"
  by (simp add: with_doc_mut_def split: option.split)

text \<open>Points of a tree: the line feeds before a place and the bytes behind the last of them.\<close>

definition byte_point :: "unicode \<Rightarrow> nat \<times> nat" where
  "byte_point s = (line_feeds s, utf8_len (after_last_line_feed s))"

definition at_column :: "unicode list \<Rightarrow> lsp_position \<Rightarrow> nat \<Rightarrow> bool" where
  "at_column ls p k \<longleftrightarrow> ps_line p < length ls
     \<and> (\<exists>m\<le>length (ls ! ps_line p). ps_character p = utf16_len (take m (ls ! ps_line p))
          \<and> 0x0A \<notin> set (take m (ls ! ps_line p)) \<and> k = length (concat (take (ps_line p) ls)) + m)"

lemma at_column_position: "at_column ls p k \<Longrightarrow> at_position ls p k"
  by (auto simp: at_column_def at_position_def)

lemma line_feeds_append [simp]: "line_feeds (xs @ ys) = line_feeds xs + line_feeds ys"
  by (simp add: line_feeds_def)

lemma line_feeds_none [simp]: "0x0A \<notin> set ys \<Longrightarrow> line_feeds ys = 0"
  by (auto simp: line_feeds_def filter_empty_conv)

lemma after_last_append:
  "after_last_line_feed (xs @ ys) = (if 0x0A \<in> set ys then after_last_line_feed ys else after_last_line_feed xs @ ys)"
  by (auto simp: after_last_line_feed_def takeWhile_append)

lemma byte_point_append:
  "0x0A \<notin> set ys \<Longrightarrow> byte_point (xs @ ys) = (fst (byte_point xs), snd (byte_point xs) + utf8_len ys)"
  by (simp add: byte_point_def after_last_append)

lemma point_after_byte_point:
  "point_after_insert_bytes (fst (byte_point s)) (snd (byte_point s)) new = byte_point (s @ new)"
  by (auto simp: point_after_insert_bytes_def byte_point_def after_last_append)

lemma lf_lines_shape:
  "Suc i < length (lf_lines t) \<Longrightarrow> \<exists>l. lf_lines t ! i = l @ [0x0A] \<and> 0x0A \<notin> set l"
proof (induction t arbitrary: i)
  case (Cons c cs)
  obtain l ls where ls: "lf_lines cs = l # ls" by (cases "lf_lines cs") auto
  show ?case
  proof (cases "c = 0x0A")
    case True
    with Cons.prems Cons.IH [of "i - 1"] show ?thesis by (cases i) auto
  next
    case False
    with Cons.prems Cons.IH [of i] ls obtain l' where l': "(l # ls) ! i = l' @ [0x0A]" "0x0A \<notin> set l'" by auto
    with False ls show ?thesis by (cases i) (auto intro: exI [of _ "c # l'"])
  qed
qed simp

lemma byte_point_lines: "i < length (lf_lines t) \<Longrightarrow> byte_point (concat (take i (lf_lines t))) = (i, 0)"
proof (induction i)
  case (Suc i)
  from lf_lines_shape [OF Suc.prems] obtain l where l: "lf_lines t ! i = l @ [0x0A]" "0x0A \<notin> set l" by blast
  with Suc show ?case
    by (simp add: concat_take_nth byte_point_def after_last_append)
       (simp add: line_feeds_def after_last_line_feed_def)
qed (simp add: byte_point_def line_feeds_def after_last_line_feed_def)

context rope_text
begin

lemma new_synced [simp]: "synced R (source_file_new R u l v t tr)"
  by (simp add: synced_def)

lemma tree_synced [simp]: "synced R (with_tree tr s) = synced R s"
  by (simp add: synced_def)

text \<open>The offsets of positions, and an edit between them.\<close>

lemma position_offset:
  assumes "at_position (rp_lines R r) p k"
  shows "rope_line_col_to_offset R r (ps_line p) (ps_character p) = Some (utf8_len (take k (rp_chars R r)))" "k \<le> length (rp_chars R r)"
proof -
  from assms obtain m where m: "ps_line p < length (rp_lines R r)" "m \<le> length (rp_lines R r ! ps_line p)"
    "ps_character p = utf16_len (take m (rp_lines R r ! ps_line p))" "k = length (concat (take (ps_line p) (rp_lines R r))) + m"
    by (auto simp: at_position_def)
  from offset_of_char [OF m(1,2)] m(3,4)
  show "rope_line_col_to_offset R r (ps_line p) (ps_character p) = Some (utf8_len (take k (rp_chars R r)))" by simp
  show "k \<le> length (rp_chars R r)"
    using arg_cong [OF concat_split [OF m(1)], of length] m(2,4) by (simp add: lines)
qed

lemma edit_between:
  assumes "rp_chars R r = t" "at_position (rp_lines R r) (rg_start rng) a" "at_position (rp_lines R r) (rg_end rng) b" "a \<le> b"
  obtains r' tree' where "rp_chars R r' = take a t @ new @ drop b t"
    "apply_edit R P rng new (utf8_len (take a t)) (utf8_len (take b t)) t r tree = Inr (take a t @ new @ drop b t, r', tree')"
proof -
  note a = position_offset [OF assms(2)] and b = position_offset [OF assms(3)]
  have chars: "char_of_byte t (utf8_len (take a t)) = a" "char_of_byte t (utf8_len (take b t)) = b"
    using a(2) b(2) assms(1) by simp_all
  have repl: "replace_range t (utf8_len (take a t)) (utf8_len (take b t)) new = Inr (take a t @ new @ drop b t)"
    using chars utf8_len_take_mono [OF assms(4)] by (simp add: replace_range_def)
  have conv: "rp_byte_to_char R r (utf8_len (take a t)) = a" "rp_byte_to_char R r (utf8_len (take b t)) = b"
    using chars assms(1) by (simp_all add: to_char utf8_len_take_le)
  have "rp_chars R (rp_insert R (rp_remove R r a b) a new) = take a t @ new @ drop b t"
    using a(2) b(2) assms(1,4) by (simp add: insert_at remove)
  with repl conv show thesis by (intro that) (simp_all add: apply_edit_def Let_def)
qed

lemma changes_follow:
  assumes "client_changes (rope_lines R) t chs t'" "rp_chars R r = t" "list_all (\<lambda>ch. ch_range ch \<noteq> None) (butlast chs)"
  shows "(\<exists>r' tree'. apply_changes R P chs (t, r, tree) = Inr (Edited t' r' tree')) \<or> apply_changes R P chs (t, r, tree) = Inr (Replaced t')"
  using assms
proof (induction arbitrary: r tree rule: client_changes.induct)
  case (changes_more t ch t1 chs t2)
  have lines_eq: "rope_lines R t = rp_lines R r"
    unfolding rope_lines_def by (rule lines_of_chars) (simp add: changes_more.prems)
  from changes_more.hyps(1) show ?case
  proof cases
    case change_whole
    have "chs = []" using change_whole changes_more.prems(2) by (cases chs) simp_all
    with change_whole changes_more.hyps(2) show ?thesis by simp
  next
    case (change_range rng a b)
    note ends = change_range(3,4) [unfolded lines_eq]
    obtain r' tree' where e: "rp_chars R r' = t1"
      "apply_edit R P rng (ch_text ch) (utf8_len (take a t)) (utf8_len (take b t)) t r tree = Inr (t1, r', tree')"
      by (rule edit_between [OF changes_more.prems(1) ends change_range(5), where new = "ch_text ch" and P = P and tree = tree])
         (rule that, simp_all only: change_range(1))
    have "list_all (\<lambda>ch. ch_range ch \<noteq> None) (butlast chs)" using changes_more.prems(2) by (cases chs) auto
    from changes_more.IH [OF e(1) this] e(2) change_range(2) position_offset(1) [OF ends(1)] position_offset(1) [OF ends(2)] changes_more.prems(1)
    show ?thesis by simp
  qed
qed simp

lemma change_follows:
  assumes "client_changes (rope_lines R) (sf_text (dc_source d)) chs t'" "synced R (dc_source d)"
    "list_all (\<lambda>ch. ch_range ch \<noteq> None) (butlast chs)" "base_tree P lang (dc_source d) \<noteq> None"
  shows "\<exists>d'. change_document R L P lang v chs d = Inr (Some d') \<and> sf_text (dc_source d') = t' \<and> sf_version (dc_source d') = v
    \<and> synced R (dc_source d') \<and> dc_semantic_token_cache d' = None \<and> document_uri d' = document_uri d"
proof -
  from assms(4) obtain tree where tree: "base_tree P lang (dc_source d) = Some tree" by blast
  show ?thesis
    using changes_follow [OF assms(1) assms(2) [unfolded synced_def] assms(3), of P tree] tree
    by (auto simp: change_document_def Let_def document_uri_def)
qed

text \<open>The points of an edit, where lines end at line feeds.\<close>

lemma start_point:
  assumes "rp_lines R r = lf_lines (rp_chars R r)" "at_column (rp_lines R r) p k"
  shows "(ps_line p, utf8_len (take k (rp_chars R r)) - rp_line_to_byte R r (ps_line p)) = byte_point (take k (rp_chars R r))"
proof -
  from assms(2) obtain m where m: "ps_line p < length (rp_lines R r)" "m \<le> length (rp_lines R r ! ps_line p)"
    "0x0A \<notin> set (take m (rp_lines R r ! ps_line p))" "k = length (concat (take (ps_line p) (rp_lines R r))) + m"
    by (auto simp: at_column_def)
  have "take k (rp_chars R r) = concat (take (ps_line p) (rp_lines R r)) @ take m (rp_lines R r ! ps_line p)"
    using take_at_line [OF m(1,2)] m(4) by (simp add: lines)
  with m(1,3) byte_point_lines [of "ps_line p" "rp_chars R r"] show ?thesis
    by (simp add: at_line assms(1) byte_point_append)
qed

lemma edit_points:
  assumes "rp_chars R r = t" "rp_lines R r = lf_lines t" "at_column (rp_lines R r) (rg_start rng) a"
    "at_column (rp_lines R r) (rg_end rng) b" "a \<le> b"
  shows "\<exists>r'. apply_edit R P rng new (utf8_len (take a t)) (utf8_len (take b t)) t r tree
    = Inr (take a t @ new @ drop b t, r', pa_edit P tree
        \<lparr>ie_start_byte = utf8_len (take a t), ie_old_end_byte = utf8_len (take b t), ie_new_end_byte = utf8_len (take a t @ new),
         ie_start_position = byte_point (take a t), ie_old_end_position = byte_point (take b t),
         ie_new_end_position = byte_point (take a t @ new)\<rparr>)"
proof -
  note col = at_column_position [OF assms(3)] at_column_position [OF assms(4)]
  have chars: "char_of_byte t (utf8_len (take a t)) = a" "char_of_byte t (utf8_len (take b t)) = b"
    using position_offset(2) [OF col(1)] position_offset(2) [OF col(2)] assms(1) by simp_all
  have "replace_range t (utf8_len (take a t)) (utf8_len (take b t)) new = Inr (take a t @ new @ drop b t)"
    using chars utf8_len_take_mono [OF assms(5)] by (simp add: replace_range_def)
  moreover have "(ps_line (rg_start rng), utf8_len (take a t) - rp_line_to_byte R r (ps_line (rg_start rng))) = byte_point (take a t)"
    "(ps_line (rg_end rng), utf8_len (take b t) - rp_line_to_byte R r (ps_line (rg_end rng))) = byte_point (take b t)"
    using start_point [of r] assms(1-4) by simp_all
  moreover from this have "point_after_insert_bytes (ps_line (rg_start rng)) (utf8_len (take a t) - rp_line_to_byte R r (ps_line (rg_start rng))) new
      = byte_point (take a t @ new)"
    using point_after_byte_point [of "take a t" new] by (metis fst_conv snd_conv)
  ultimately show ?thesis by (simp add: apply_edit_def Let_def)
qed

end

subsection \<open>Changes\<close>



text \<open>A change of the whole text ends the loop: the changes behind it are lost.\<close>

lemma whole_change_hides_later:
  "ch_range ch = None \<Longrightarrow> apply_changes R P (ch # chs) st = Inr (Replaced (ch_text ch))"
  by (cases st) simp

text \<open>A range whose end is before its start panics; a line that the text does not have is skipped.\<close>

lemma reversed_range_panics:
  assumes "rope_line_col_to_offset R r (ps_line (rg_start rng)) (ps_character (rg_start rng)) = Some x"
    "rope_line_col_to_offset R r (ps_line (rg_end rng)) (ps_character (rg_end rng)) = Some y" "y < x" "ch_range ch = Some rng"
  shows "apply_changes R P (ch # chs) (t, r, tree) = Inl SliceRange"
  using assms by (simp add: apply_edit_def Let_def replace_range_def map_ok_def)

lemma missing_line_skipped:
  assumes "rp_len_lines R r \<le> ps_line (rg_start rng)" "ch_range ch = Some rng"
  shows "apply_changes R P (ch # chs) (t, r, tree) = apply_changes R P chs (t, r, tree)"
  using assms by (simp add: rope_line_col_to_offset_def)

subsection \<open>Runs of the store\<close>

datatype 'v store_event =
    OpenDocument "str option" str str int unicode
  | ChangeDocument str int "content_change list"
  | SaveDocument str "unicode option"
  | CloseDocument str
  | EnsureTree str language
  | CacheContext str context_cache_key 'v
  | ClearCaches

fun store_step ::
  "'r rope_ops \<Rightarrow> ('l, 'v) context_cache_ops \<Rightarrow> 't parser_ops \<Rightarrow> language_registry \<Rightarrow> 'v store_event \<Rightarrow> ('r, 't, 'l) document_store
     \<Rightarrow> rust_panic + ('r, 't, 'l) document_store" where
  "store_step R L P registry (OpenDocument path uri reported v t) docs = Inr (snd (did_open R L P registry path uri reported v t docs))"
| "store_step R L P registry (ChangeDocument uri v chs) docs = map_ok snd (did_change R L P registry uri v chs docs)"
| "store_step R L P registry (SaveDocument uri saved) docs = Inr (snd (did_save R L P registry uri saved docs))"
| "store_step R L P registry (CloseDocument uri) docs = Inr (snd (did_close uri docs))"
| "store_step R L P registry (EnsureTree uri lang) docs = Inr (snd (ensure_tree L P uri lang docs))"
| "store_step R L P registry (CacheContext uri key c) docs = Inr (with_doc_mut uri (cache_semantic_context L key c) docs)"
| "store_step R L P registry ClearCaches docs = Inr (clear_lsp_caches L docs)"

fun store_run ::
  "'r rope_ops \<Rightarrow> ('l, 'v) context_cache_ops \<Rightarrow> 't parser_ops \<Rightarrow> language_registry \<Rightarrow> 'v store_event list \<Rightarrow> ('r, 't, 'l) document_store
     \<Rightarrow> rust_panic + ('r, 't, 'l) document_store" where
  "store_run R L P registry [] docs = Inr docs"
| "store_run R L P registry (e # es) docs = and_then (store_step R L P registry e docs) (store_run R L P registry es)"

lemma uri_simps [simp]:
  "document_uri (document_update_source L s d) = sf_uri s" "document_uri (set_tree L tr d) = document_uri d"
  "document_uri (document_new L s) = sf_uri s" "document_uri (clear_caches L d) = document_uri d"
  "document_uri (cache_semantic_context L k c d) = document_uri d"
  by (simp_all add: document_uri_def)

lemma clear_lsp_caches_get: "hget (clear_lsp_caches L docs) u = map_option (clear_caches L) (hget docs u)"
  unfolding clear_lsp_caches_def by (induction docs) auto

lemma synced_mut:
  assumes "store_synced R docs" "\<And>d. synced R (dc_source d) \<Longrightarrow> synced R (dc_source (f d)) \<and> document_uri (f d) = document_uri d"
  shows "store_synced R (with_doc_mut uri f docs)"
  using assms by (auto simp: store_synced_def with_doc_mut_get)

lemma synced_insert:
  "store_synced R docs \<Longrightarrow> synced R (dc_source d) \<Longrightarrow> document_uri d = uri \<Longrightarrow> store_synced R (hinsert uri d docs)"
  by (auto simp: store_synced_def)

context rope_text
begin

lemma open_synced:
  assumes "store_synced R docs"
  shows "store_synced R (snd (did_open R L P registry path uri reported v t docs))"
proof -
  have "store_synced R (store_open (document_new L (source_file_new R uri i v t None)) docs)" for i
    unfolding store_open_def using assms by (intro synced_insert) simp_all
  then show ?thesis using assms
    by (auto simp: did_open_def Let_def intro!: synced_mut split: option.splits)
qed

lemma change_document_synced:
  assumes "change_document R L P lang v chs d = Inr (Some d')"
  shows "synced R (dc_source d') \<and> document_uri d' = document_uri d"
proof -
  from assms obtain tree outcome where "base_tree P lang (dc_source d) = Some tree"
    "apply_changes R P chs (sf_text (dc_source d), sf_rope (dc_source d), tree) = Inr outcome"
    by (auto simp: change_document_def Let_def map_ok_Inr split: option.splits)
  with assms show ?thesis by (cases outcome) (auto simp: change_document_def Let_def document_uri_def)
qed

lemma change_synced:
  assumes "store_synced R docs" "did_change R L P registry uri v chs docs = Inr (es, docs')"
  shows "store_synced R docs'"
proof (cases "\<exists>d lang d'. hget docs uri = Some d \<and> change_document R L P lang v chs d = Inr (Some d') \<and> docs' = hinsert uri d' docs")
  case True
  then obtain d lang d' where d: "hget docs uri = Some d" "change_document R L P lang v chs d = Inr (Some d')" "docs' = hinsert uri d' docs"
    by blast
  with assms(1) have "document_uri d = uri" by (simp add: store_synced_def)
  with change_document_synced [OF d(2)] d(3) assms(1) show ?thesis by (simp add: synced_insert)
next
  case False
  with assms(2) have "docs' = docs" by (auto simp: did_change_def map_ok_Inr split: option.splits)
  with assms(1) show ?thesis by simp
qed

lemma save_synced: "store_synced R docs \<Longrightarrow> store_synced R (snd (did_save R L P registry uri saved docs))"
  by (auto simp: did_save_def save_document_def Let_def document_uri_def intro!: synced_mut split: option.splits)

lemma step_synced: "store_synced R docs \<Longrightarrow> store_step R L P registry e docs = Inr docs' \<Longrightarrow> store_synced R docs'"
proof (cases e)
  case (ChangeDocument u v chs)
  assume "store_synced R docs" "store_step R L P registry e docs = Inr docs'"
  with ChangeDocument change_synced [of docs L P registry u v chs] show ?thesis by (auto simp: map_ok_Inr)
next
  case (ClearCaches)
  assume "store_synced R docs" "store_step R L P registry e docs = Inr docs'"
  with ClearCaches show ?thesis by (auto simp: store_synced_def clear_lsp_caches_get)
qed (auto simp: open_synced save_synced did_close_def store_close_def ensure_tree_def Let_def store_synced_def [of R "hremove _ _"]
      intro!: synced_mut, auto simp: store_synced_def)

lemma run_synced: "store_synced R docs \<Longrightarrow> store_run R L P registry es docs = Inr docs' \<Longrightarrow> store_synced R docs'"
proof (induction es arbitrary: docs)
  case (Cons e es)
  from Cons.prems(2) obtain mid where "store_step R L P registry e docs = Inr mid" "store_run R L P registry es mid = Inr docs'"
    by (auto simp: and_then_Inr)
  with Cons.IH step_synced [OF Cons.prems(1)] show ?case by blast
qed simp

end

text \<open>
  C7. After every run of the notifications and the other operations of the store, each open document is stored
  under its own URI and its rope holds its text.
\<close>

theorem store_stays_synced:
  assumes "rope_laws R" "store_run R L P registry es [] = Inr docs"
  shows "store_synced R docs"
  by (rule rope_text.run_synced [OF rope_text.intro, OF assms(1) _ assms(2)]) (simp add: store_synced_def)

subsection \<open>Cached contexts\<close>

text \<open>A new source or a new tree forgets the cached contexts of the old one.\<close>

lemma no_context_of_old_source:
  assumes "context_cache_laws L"
  shows "cached_semantic_context L (document_update_source L s d) key = None" "cached_semantic_context L (set_tree L tr d) key = None"
    "cached_semantic_context L (cache_semantic_context L key c d) key = Some c"
proof -
  have "cc_peek L (cc_clear L l) key = None" for l
    using assms unfolding context_cache_laws_def by blast
  moreover have "cc_peek L (cc_put L (dc_semantic_context_cache d) key c) key = Some c"
    using assms [unfolded context_cache_laws_def, THEN conjunct2, THEN conjunct2, THEN spec, THEN spec, THEN spec, THEN spec,
      of "dc_semantic_context_cache d" key c key] by simp
  ultimately show "cached_semantic_context L (document_update_source L s d) key = None" "cached_semantic_context L (set_tree L tr d) key = None"
    "cached_semantic_context L (cache_semantic_context L key c d) key = Some c"
    by (simp_all add: cached_semantic_context_def document_update_source_def clear_caches_def set_tree_def cache_semantic_context_def)
qed

subsection \<open>Instances\<close>

text \<open>Texts as their own trees, and a cache without a limit.\<close>

definition text_parser :: "unicode parser_ops" where
  "text_parser = \<lparr>pa_parse = (\<lambda>l t old. Some t), pa_edit = (\<lambda>t e. t)\<rparr>"

definition list_cache :: "((context_cache_key \<times> 'v) list, 'v) context_cache_ops" where
  "list_cache = \<lparr>cc_new = [], cc_peek = map_of, cc_put = (\<lambda>l k v. (k, v) # l), cc_clear = (\<lambda>l. []), cc_len = length\<rparr>"

lemma list_cache_laws: "context_cache_laws list_cache"
  by (simp add: context_cache_laws_def list_cache_def)

definition sample_document :: "unicode \<Rightarrow> (unicode, unicode, (context_cache_key \<times> nat) list) document" where
  "sample_document t = document_new list_cache (source_file_new text_rope ''A.java'' ''java'' 1 t (Some t))"

text \<open>A text of two lines; the second gets a letter in front.\<close>

definition sample_changes :: "content_change list" where
  "sample_changes =
     [\<lparr>ch_range = Some \<lparr>rg_start = \<lparr>ps_line = 1, ps_character = 0\<rparr>, rg_end = \<lparr>ps_line = 1, ps_character = 0\<rparr>\<rparr>, ch_text = [0x63]\<rparr>]"

lemma sample_client: "client_changes (rope_lines text_rope) [0x61, 0x0A, 0x62] sample_changes [0x61, 0x0A, 0x63, 0x62]"
proof -
  have lines: "rope_lines text_rope [0x61, 0x0A, 0x62] = [[0x61, 0x0A], [0x62]]"
    by (simp add: rope_lines_def text_rope_def)
  have "client_change (rope_lines text_rope) [0x61, 0x0A, 0x62]
      \<lparr>ch_range = Some \<lparr>rg_start = \<lparr>ps_line = 1, ps_character = 0\<rparr>, rg_end = \<lparr>ps_line = 1, ps_character = 0\<rparr>\<rparr>, ch_text = [0x63]\<rparr>
      (take 2 [0x61, 0x0A, 0x62] @ [0x63] @ drop 2 [0x61, 0x0A, 0x62])"
    using change_range [where ls = "rope_lines text_rope" and t = "[0x61, 0x0A, 0x62]" and a = 2 and b = 2
        and rng = "\<lparr>rg_start = \<lparr>ps_line = 1, ps_character = 0\<rparr>, rg_end = \<lparr>ps_line = 1, ps_character = 0\<rparr>\<rparr>"
        and ch = "\<lparr>ch_range = Some \<lparr>rg_start = \<lparr>ps_line = 1, ps_character = 0\<rparr>, rg_end = \<lparr>ps_line = 1, ps_character = 0\<rparr>\<rparr>, ch_text = [0x63]\<rparr>"]
    by (simp add: at_position_def lines)
  then show ?thesis unfolding sample_changes_def by (auto intro: client_changes.intros)
qed



theorem store_stays_synced_witness:
  "\<exists>docs. store_run text_rope (list_cache :: ((context_cache_key \<times> nat) list, nat) context_cache_ops) text_parser language_registry_new
      [OpenDocument None ''A.java'' ''java'' 1 [0x61], SaveDocument ''A.java'' None] [] = Inr docs \<and> docs \<noteq> [] \<and> store_synced text_rope docs"
proof -
  obtain docs where "store_run text_rope (list_cache :: ((context_cache_key \<times> nat) list, nat) context_cache_ops) text_parser language_registry_new
      [OpenDocument None ''A.java'' ''java'' 1 [0x61], SaveDocument ''A.java'' None] [] = Inr docs" "docs \<noteq> []"
    by (simp add: did_open_def did_save_def resolve_supported_language_id_def registry_find_def language_registry_new_def
        supports_def with_doc_mut_def store_open_def hinsert_def document_language_id_def Let_def)
  with store_stays_synced [OF text_rope_laws this(1)] show ?thesis by blast
qed

text \<open>A client that replaces the text and then inserts a letter has a text that the server has not.\<close>

lemma later_change_lost:
  "client_changes (rope_lines text_rope) [] [\<lparr>ch_range = None, ch_text = [0x61]\<rparr>, \<lparr>ch_range = None, ch_text = [0x62]\<rparr>] [0x62]"
  "apply_changes text_rope text_parser [\<lparr>ch_range = None, ch_text = [0x61]\<rparr>, \<lparr>ch_range = None, ch_text = [0x62]\<rparr>] ([], [], [])
     = Inr (Replaced [0x61])"
proof -
  have "client_change (rope_lines text_rope) t \<lparr>ch_range = None, ch_text = s\<rparr> s" for t s
    using change_whole [of "\<lparr>ch_range = None, ch_text = s\<rparr>" "rope_lines text_rope" t] by simp
  then show "client_changes (rope_lines text_rope) [] [\<lparr>ch_range = None, ch_text = [0x61]\<rparr>, \<lparr>ch_range = None, ch_text = [0x62]\<rparr>] [0x62]"
    by (blast intro: client_changes.intros)
qed simp

end
