(* ===== verification/Semantic_Tokens.thy ===== *)
theory Semantic_Tokens
  imports Document_Sync Request_Cancellation
begin

text \<open>
  Semantic tokens: the tables of types and modifiers (\<open>lsp/semantic_tokens.rs\<close>), the collector that walks a
  syntax tree (\<open>TokenCollector\<close> of \<open>language.rs\<close>), and the three requests (\<open>lsp/handlers/semantic_tokens.rs\<close>).

  The syntax tree and its classification by a language are data: \<open>token_node\<close> is a node with its bytes, what
  \<open>classify_semantic_token\<close> says of it, and its children; the function \<open>nodes\<close> gives the root of the tree of
  a file. \<open>cancel\<close> is the reason that a check of the request finds, by the number of nodes visited before
  it (0 for the check before the tree); None for a collector without a request.
\<close>

unbundle bit_operations_syntax

subsection \<open>Tables\<close>

definition TOKEN_TYPES :: "str list" where
  "TOKEN_TYPES =
     [''class'', ''interface'', ''enum'', ''typeParameter'', ''method'', ''property'', ''variable'', ''parameter'',
      ''keyword'', ''modifier'', ''decorator'', ''string'']"

definition TOKEN_MODIFIERS :: "str list" where
  "TOKEN_MODIFIERS = [''static'', ''abstract'', ''readonly'']"

definition get_type_idx :: "str \<Rightarrow> nat" where
  "get_type_idx t = (case position (\<lambda>it. it = t) TOKEN_TYPES of Some i \<Rightarrow> i | None \<Rightarrow> 0)"

definition get_modifier_mask :: "str \<Rightarrow> 32 word" where
  "get_modifier_mask m = (case position (\<lambda>it. it = m) TOKEN_MODIFIERS of Some i \<Rightarrow> push_bit i 1 | None \<Rightarrow> 0)"

definition mods_to_bitset :: "str list \<Rightarrow> 32 word" where
  "mods_to_bitset mods = fold (\<lambda>m bitset. bitset OR get_modifier_mask m) mods 0"

subsection \<open>The collector\<close>

datatype token_node =
  TokenNode (nd_start: nat) (nd_end: nat) (nd_class: "(str \<times> str list) option") (nd_children: "token_node list")

record token_collector =
  cl_visited_nodes :: nat
  cl_data :: "semantic_token list"
  cl_last_line :: nat
  cl_last_col_utf16 :: nat

definition token_collector_new :: token_collector where
  "token_collector_new = \<lparr>cl_visited_nodes = 0, cl_data = [], cl_last_line = 0, cl_last_col_utf16 = 0\<rparr>"

definition utf16_units_in_rope_char_range :: "'r rope_ops \<Rightarrow> 'r \<Rightarrow> nat \<Rightarrow> nat \<Rightarrow> nat" where
  "utf16_units_in_rope_char_range R rope start_char end_char =
     (if end_char \<le> start_char then 0
      else sum_list (map (\<lambda>c. if c \<ge> 0x10000 then 2 else 1) (rp_slice R rope start_char end_char)))"

definition push_token ::
  "'r rope_ops \<Rightarrow> 'r \<Rightarrow> nat \<Rightarrow> nat \<Rightarrow> str \<Rightarrow> str list \<Rightarrow> token_collector \<Rightarrow> token_collector" where
  "push_token R rope start_byte end_byte ty modifiers tc =
     (let start_char = rp_byte_to_char R rope start_byte;
          end_char = rp_byte_to_char R rope end_byte;
          line_idx = rp_char_to_line R rope start_char;
          line_start_char = rp_line_to_char R rope line_idx;
          col_char = start_char - line_start_char;
          line = as_u32 line_idx;
          col = as_u32 (utf16_units_in_rope_char_range R rope line_start_char (line_start_char + col_char));
          len = as_u32 (utf16_units_in_rope_char_range R rope start_char end_char);
          delta_line = line - cl_last_line tc;
          delta_start = (if delta_line = 0 then col - cl_last_col_utf16 tc else col)
      in tc\<lparr>cl_data := cl_data tc @ [\<lparr>tok_delta_line = delta_line, tok_delta_start = delta_start, tok_length = len,
             tok_type = get_type_idx ty, tok_modifiers = mods_to_bitset modifiers\<rparr>],
            cl_last_line := line, cl_last_col_utf16 := col\<rparr>)"

definition check_visited :: "(nat \<Rightarrow> cancelled option) \<Rightarrow> token_collector \<Rightarrow> cancelled + token_collector" where
  "check_visited cancel tc =
     (let n = cl_visited_nodes tc + 1
      in case (if n mod 64 = 0 then cancel n else None) of
           Some reason \<Rightarrow> Inl reason | None \<Rightarrow> Inr (tc\<lparr>cl_visited_nodes := n\<rparr>))"

definition push_classified :: "'r rope_ops \<Rightarrow> 'r \<Rightarrow> token_node \<Rightarrow> token_collector \<Rightarrow> token_collector" where
  "push_classified R rope child tc =
     (case nd_class child of
        Some (ty, modifiers) \<Rightarrow> push_token R rope (nd_start child) (nd_end child) ty modifiers tc
      | None \<Rightarrow> tc)"

text \<open>\<open>collect\<close> of a node is the loop over its children.\<close>

fun collect_children ::
  "'r rope_ops \<Rightarrow> 'r \<Rightarrow> (nat \<Rightarrow> cancelled option) \<Rightarrow> token_node list \<Rightarrow> token_collector \<Rightarrow> cancelled + token_collector" where
  "collect_children R rope cancel [] tc = Inr tc"
| "collect_children R rope cancel (TokenNode a b cls kids # rest) tc =
     and_then (check_visited cancel tc) (\<lambda>tc1.
       let tc2 = push_classified R rope (TokenNode a b cls kids) tc1
       in and_then (if kids \<noteq> [] then collect_children R rope cancel kids tc2 else Inr tc2)
            (collect_children R rope cancel rest))"

definition collect ::
  "'r rope_ops \<Rightarrow> 'r \<Rightarrow> (nat \<Rightarrow> cancelled option) \<Rightarrow> token_node \<Rightarrow> token_collector \<Rightarrow> cancelled + token_collector" where
  "collect R rope cancel node = collect_children R rope cancel (nd_children node)"

definition outside :: "nat \<Rightarrow> nat \<Rightarrow> token_node \<Rightarrow> bool" where
  "outside range_start range_end node \<longleftrightarrow> nd_end node \<le> range_start \<or> nd_start node \<ge> range_end"

text \<open>The test at the start of the recursive call repeats the one of the loop.\<close>

fun collect_range_children ::
  "'r rope_ops \<Rightarrow> 'r \<Rightarrow> (nat \<Rightarrow> cancelled option) \<Rightarrow> nat \<Rightarrow> nat \<Rightarrow> token_node list \<Rightarrow> token_collector
     \<Rightarrow> cancelled + token_collector" where
  "collect_range_children R rope cancel range_start range_end [] tc = Inr tc"
| "collect_range_children R rope cancel range_start range_end (TokenNode a b cls kids # rest) tc =
     and_then (check_visited cancel tc) (\<lambda>tc1.
       if outside range_start range_end (TokenNode a b cls kids)
       then collect_range_children R rope cancel range_start range_end rest tc1
       else let tc2 = push_classified R rope (TokenNode a b cls kids) tc1
            in and_then (if kids \<noteq> [] then collect_range_children R rope cancel range_start range_end kids tc2 else Inr tc2)
                 (collect_range_children R rope cancel range_start range_end rest))"

definition collect_range ::
  "'r rope_ops \<Rightarrow> 'r \<Rightarrow> (nat \<Rightarrow> cancelled option) \<Rightarrow> token_node \<Rightarrow> nat \<Rightarrow> nat \<Rightarrow> token_collector
     \<Rightarrow> cancelled + token_collector" where
  "collect_range R rope cancel node range_start range_end tc =
     (if outside range_start range_end node then Inr tc
      else collect_range_children R rope cancel range_start range_end (nd_children node) tc)"

subsection \<open>Differences\<close>

record semantic_tokens_edit =
  te_start :: nat
  te_delete_count :: nat
  te_data :: "semantic_token list option"

definition prefix_len :: "'a list \<Rightarrow> 'a list \<Rightarrow> nat" where
  "prefix_len xs ys = length (takeWhile (\<lambda>(a, b). a = b) (zip xs ys))"

definition diff_semantic_tokens :: "semantic_token list \<Rightarrow> semantic_token list \<Rightarrow> semantic_tokens_edit list" where
  "diff_semantic_tokens old new =
     (if old = [] \<and> new = [] then []
      else let prefix = prefix_len old new
           in if prefix = length old \<and> prefix = length new then []
              else let suffix = prefix_len (rev (drop prefix old)) (rev (drop prefix new));
                       old_end = length old - suffix;
                       new_end = length new - suffix;
                       replacement = take (new_end - prefix) (drop prefix new)
                   in [\<lparr>te_start = as_u32 prefix, te_delete_count = as_u32 (old_end - prefix),
                        te_data = (if replacement = [] then None else Some replacement)\<rparr>])"

subsection \<open>Requests\<close>

text \<open>\<open>i32::to_string\<close>\<close>

fun nat_digits :: "nat \<Rightarrow> str" where
  "nat_digits n = (if n < 10 then [char_of (48 + n)] else nat_digits (n div 10) @ [char_of (48 + n mod 10)])"

declare nat_digits.simps [simp del]

definition make_result_id :: "int \<Rightarrow> str" where
  "make_result_id version = (if version < 0 then ''-'' @ nat_digits (nat (- version)) else nat_digits (nat version))"

datatype tokens_answer =
    FullTokens "str option" "semantic_token list"
  | TokensDelta str "semantic_tokens_edit list"

text \<open>What the three requests share: the language of the document and a snapshot with a tree.\<close>

definition snapshot_root ::
  "('l, 'v) context_cache_ops \<Rightarrow> 't parser_ops \<Rightarrow> language_registry \<Rightarrow> (('r, 't) source_file \<Rightarrow> token_node)
     \<Rightarrow> (nat \<Rightarrow> cancelled option) \<Rightarrow> str \<Rightarrow> ('r, 't, 'l) document_store
     \<Rightarrow> cancelled + ((('r, 't) source_file \<times> token_node) option \<times> ('r, 't, 'l) document_store)" where
  "snapshot_root L P registry nodes cancel uri docs =
     (case with_doc docs uri document_language_id of
        None \<Rightarrow> Inr (None, docs)
      | Some lang_id \<Rightarrow>
          (case registry_find registry lang_id of
             None \<Rightarrow> Inr (None, docs)
           | Some lang \<Rightarrow>
               (case cancel 0 of
                  Some reason \<Rightarrow> Inl reason
                | None \<Rightarrow>
                    (case ensure_tree L P uri lang docs of
                       (None, docs1) \<Rightarrow> Inr (None, docs1)
                     | (Some file, docs1) \<Rightarrow>
                         Inr (if sf_tree file = None then None else Some (file, nodes file), docs1)))))"

definition store_tokens :: "str \<Rightarrow> str \<times> semantic_token list \<Rightarrow> ('r, 't, 'l) document_store \<Rightarrow> ('r, 't, 'l) document_store" where
  "store_tokens uri entry docs = with_doc_mut uri (\<lambda>d. d\<lparr>dc_semantic_token_cache := Some entry\<rparr>) docs"

definition tokens_full ::
  "'r rope_ops \<Rightarrow> ('l, 'v) context_cache_ops \<Rightarrow> 't parser_ops \<Rightarrow> language_registry \<Rightarrow> (('r, 't) source_file \<Rightarrow> token_node)
     \<Rightarrow> (nat \<Rightarrow> cancelled option) \<Rightarrow> str \<Rightarrow> ('r, 't, 'l) document_store
     \<Rightarrow> cancelled + (tokens_answer option \<times> ('r, 't, 'l) document_store)" where
  "tokens_full R L P registry nodes cancel uri docs =
     and_then (snapshot_root L P registry nodes cancel uri docs) (\<lambda>(found, docs1).
       case found of
         None \<Rightarrow> Inr (None, docs1)
       | Some (file, root) \<Rightarrow>
           map_ok (\<lambda>tc.
             let result_id = make_result_id (sf_version file)
             in (Some (FullTokens (Some result_id) (cl_data tc)), store_tokens uri (result_id, cl_data tc) docs1))
           (collect R (sf_rope file) cancel root token_collector_new))"

definition tokens_range ::
  "'r rope_ops \<Rightarrow> ('l, 'v) context_cache_ops \<Rightarrow> 't parser_ops \<Rightarrow> language_registry \<Rightarrow> (('r, 't) source_file \<Rightarrow> token_node)
     \<Rightarrow> (nat \<Rightarrow> cancelled option) \<Rightarrow> str \<Rightarrow> lsp_range \<Rightarrow> ('r, 't, 'l) document_store
     \<Rightarrow> cancelled + (tokens_answer option \<times> ('r, 't, 'l) document_store)" where
  "tokens_range R L P registry nodes cancel uri rng docs =
     and_then (snapshot_root L P registry nodes cancel uri docs) (\<lambda>(found, docs1).
       case found of
         None \<Rightarrow> Inr (None, docs1)
       | Some (file, root) \<Rightarrow>
           (let start_byte = (case rope_line_col_to_offset R (sf_rope file) (ps_line (rg_start rng)) (ps_character (rg_start rng)) of
                  Some b \<Rightarrow> b | None \<Rightarrow> 0);
                end_byte = (case rope_line_col_to_offset R (sf_rope file) (ps_line (rg_end rng)) (ps_character (rg_end rng)) of
                  Some b \<Rightarrow> b | None \<Rightarrow> utf8_len (sf_text file))
            in map_ok (\<lambda>tc. (Some (FullTokens None (cl_data tc)), docs1))
                 (collect_range R (sf_rope file) cancel root start_byte end_byte token_collector_new)))"

definition tokens_full_delta ::
  "'r rope_ops \<Rightarrow> ('l, 'v) context_cache_ops \<Rightarrow> 't parser_ops \<Rightarrow> language_registry \<Rightarrow> (('r, 't) source_file \<Rightarrow> token_node)
     \<Rightarrow> (nat \<Rightarrow> cancelled option) \<Rightarrow> str \<Rightarrow> str \<Rightarrow> ('r, 't, 'l) document_store
     \<Rightarrow> cancelled + (tokens_answer option \<times> ('r, 't, 'l) document_store)" where
  "tokens_full_delta R L P registry nodes cancel uri previous_result_id docs =
     and_then (snapshot_root L P registry nodes cancel uri docs) (\<lambda>(found, docs1).
       case found of
         None \<Rightarrow> Inr (None, docs1)
       | Some (file, root) \<Rightarrow>
           map_ok (\<lambda>tc.
             let new_data = cl_data tc;
                 new_result_id = make_result_id (sf_version file);
                 maybe_old_data = with_doc docs1 uri (\<lambda>d. case dc_semantic_token_cache d of
                     Some (i, data) \<Rightarrow> if i = previous_result_id then Some data else None
                   | None \<Rightarrow> None)
             in case maybe_old_data of
                  None \<Rightarrow> (None, docs1)
                | Some cached \<Rightarrow>
                    (Some (case cached of
                         Some old_data \<Rightarrow> TokensDelta new_result_id (diff_semantic_tokens old_data new_data)
                       | None \<Rightarrow> FullTokens (Some new_result_id) new_data),
                     store_tokens uri (new_result_id, new_data) docs1))
           (collect R (sf_rope file) cancel root token_collector_new))"

end
