(* ===== verification/Token_Laws.thy ===== *)
theory Token_Laws
  imports Semantic_Tokens Document_Laws
begin

text \<open>
  Laws of semantic tokens: the edit of a delta turns the old tokens into the new ones; the relative
  positions of a full collection decode to the positions of the classified nodes; and a client that starts
  with a full request and then asks for deltas always holds the tokens of the current tree, whatever is
  opened, changed, saved and closed in between. The last section shows that the edit counts tokens where the
  protocol counts integers.
\<close>

subsection \<open>Differences\<close>

definition apply_edit_to :: "semantic_tokens_edit \<Rightarrow> semantic_token list \<Rightarrow> semantic_token list" where
  "apply_edit_to e tokens =
     take (te_start e) tokens @ (case te_data e of Some data \<Rightarrow> data | None \<Rightarrow> []) @ drop (te_start e + te_delete_count e) tokens"

definition apply_edits :: "semantic_tokens_edit list \<Rightarrow> semantic_token list \<Rightarrow> semantic_token list" where
  "apply_edits es tokens = fold apply_edit_to es tokens"

lemma prefix_len_le: "prefix_len xs ys \<le> length xs" "prefix_len xs ys \<le> length ys"
  using length_takeWhile_le [of "\<lambda>(a, b). a = b" "zip xs ys"] by (simp_all add: prefix_len_def)

lemma prefix_len_take: "take (prefix_len xs ys) xs = take (prefix_len xs ys) ys"
proof (induction xs arbitrary: ys)
  case (Cons x xs)
  then show ?case by (cases ys) (auto simp: prefix_len_def)
qed (simp add: prefix_len_def)

lemma suffix_len_drop:
  "drop (length xs - prefix_len (rev xs) (rev ys)) xs = drop (length ys - prefix_len (rev xs) (rev ys)) ys"
  using prefix_len_take [of "rev xs" "rev ys"] by (simp add: take_rev)

lemma diff_applies:
  assumes "length old < 2 ^ 32" "length new < 2 ^ 32"
  shows "apply_edits (diff_semantic_tokens old new) old = new"
proof -
  define p where "p = prefix_len old new"
  define s where "s = prefix_len (rev (drop p old)) (rev (drop p new))"
  have p: "p \<le> length old" "p \<le> length new" "take p old = take p new"
    using prefix_len_le prefix_len_take by (simp_all add: p_def)
  have s: "s \<le> length old - p" "s \<le> length new - p"
    using prefix_len_le [of "rev (drop p old)" "rev (drop p new)"] by (simp_all add: s_def)
  have "drop (length old - p - s) (drop p old) = drop (length new - p - s) (drop p new)"
    using suffix_len_drop [of "drop p old" "drop p new"] by (simp add: s_def)
  then have tail: "drop (length old - s) old = drop (length new - s) new"
    using p s by (simp add: add.commute)
  have u: "as_u32 p = p" "as_u32 (length old - s - p) = length old - s - p"
    using assms p(1) by (simp_all add: as_u32_def)
  show ?thesis
  proof (cases "old = [] \<and> new = [] \<or> p = length old \<and> p = length new")
    case True
    with p(3) show ?thesis by (auto simp: diff_semantic_tokens_def p_def apply_edits_def Let_def)
  next
    case False
    have split: "new = take p new @ take (length new - s - p) (drop p new) @ drop (length new - s) new"
    proof -
      have "drop (length new - s - p) (drop p new) = drop (length new - s) new" using p s by simp
      then show ?thesis by (metis append_take_drop_id)
    qed
    have e: "diff_semantic_tokens old new = [\<lparr>te_start = p, te_delete_count = length old - s - p,
        te_data = (if take (length new - s - p) (drop p new) = [] then None else Some (take (length new - s - p) (drop p new)))\<rparr>]"
      using False u by (auto simp: diff_semantic_tokens_def Let_def simp flip: p_def s_def)
    have "apply_edits (diff_semantic_tokens old new) old
        = take p old @ take (length new - s - p) (drop p new) @ drop (p + (length old - s - p)) old"
      unfolding e by (simp add: apply_edits_def apply_edit_to_def)
    also have "\<dots> = new" using split p(3) tail p s by simp
    finally show ?thesis .
  qed
qed

subsection \<open>Positions of tokens\<close>

text \<open>The classified nodes in the order of the walk, and what a client decodes.\<close>

type_synonym token_item = "nat \<times> nat \<times> str \<times> str list"

fun classified :: "token_node list \<Rightarrow> token_item list" where
  "classified [] = []"
| "classified (TokenNode a b cls kids # rest) =
     (case cls of Some (ty, mods) \<Rightarrow> [(a, b, ty, mods)] | None \<Rightarrow> []) @ classified kids @ classified rest"

fun decode_tokens :: "nat \<Rightarrow> nat \<Rightarrow> semantic_token list \<Rightarrow> (nat \<times> nat \<times> nat \<times> nat \<times> 32 word) list" where
  "decode_tokens line col [] = []"
| "decode_tokens line col (t # ts) =
     (let l = line + tok_delta_line t; c = (if tok_delta_line t = 0 then col + tok_delta_start t else tok_delta_start t)
      in (l, c, tok_length t, tok_type t, tok_modifiers t) # decode_tokens l c ts)"

definition token_length :: "'r rope_ops \<Rightarrow> 'r \<Rightarrow> nat \<Rightarrow> nat \<Rightarrow> nat" where
  "token_length R rope a b =
     as_u32 (utf16_units_in_rope_char_range R rope (rp_byte_to_char R rope a) (rp_byte_to_char R rope b))"

definition absolute :: "'r rope_ops \<Rightarrow> 'r \<Rightarrow> token_item \<Rightarrow> nat \<times> nat \<times> nat \<times> nat \<times> 32 word" where
  "absolute R rope it = (case it of (a, b, ty, mods) \<Rightarrow>
     (case rope_byte_offset_to_line_col R rope a of (l, c) \<Rightarrow> (l, c, token_length R rope a b, get_type_idx ty, mods_to_bitset mods)))"

abbreviation push_item :: "'r rope_ops \<Rightarrow> 'r \<Rightarrow> token_item \<Rightarrow> token_collector \<Rightarrow> token_collector" where
  "push_item R rope \<equiv> \<lambda>(a, b, ty, mods). push_token R rope a b ty mods"

lemma push_visited: "push_token R rope a b ty mods (tc\<lparr>cl_visited_nodes := n\<rparr>) = (push_token R rope a b ty mods tc)\<lparr>cl_visited_nodes := n\<rparr>"
  by (simp add: push_token_def Let_def)

lemma push_items_visited: "fold (push_item R rope) its (tc\<lparr>cl_visited_nodes := n\<rparr>) = (fold (push_item R rope) its tc)\<lparr>cl_visited_nodes := n\<rparr>"
  by (induction its arbitrary: tc) (auto simp: push_visited split: prod.split)

lemma check_visited_Inr: "check_visited cancel tc = Inr tc' \<Longrightarrow> tc' = tc\<lparr>cl_visited_nodes := cl_visited_nodes tc + 1\<rparr>"
  by (auto simp: check_visited_def Let_def split: option.splits if_splits)

lemma collected:
  "collect_children R rope cancel ns tc = Inr tc' \<Longrightarrow> \<exists>n. tc' = (fold (push_item R rope) (classified ns) tc)\<lparr>cl_visited_nodes := n\<rparr>"
proof (induction R rope cancel ns tc arbitrary: tc' rule: collect_children.induct)
  case (1 R rope cancel tc)
  then show ?case by (intro exI [of _ "cl_visited_nodes tc"]) simp
next
  case (2 R rope cancel a b cls kids rest tc)
  let ?own = "case cls of Some (ty, mods) \<Rightarrow> [(a, b, ty, mods)] | None \<Rightarrow> []"
  from 2(3) obtain tc1 tc3 where tc: "check_visited cancel tc = Inr tc1"
    "(if kids \<noteq> [] then collect_children R rope cancel kids (push_classified R rope (TokenNode a b cls kids) tc1)
      else Inr (push_classified R rope (TokenNode a b cls kids) tc1)) = Inr tc3" "collect_children R rope cancel rest tc3 = Inr tc'"
    by (auto simp: and_then_Inr Let_def)
  have own: "push_classified R rope (TokenNode a b cls kids) tc1 = fold (push_item R rope) ?own tc1"
    by (simp add: push_classified_def split: option.split)
  have "\<exists>n. tc3 = (fold (push_item R rope) (classified kids) (fold (push_item R rope) ?own tc1))\<lparr>cl_visited_nodes := n\<rparr>"
  proof (cases "kids = []")
    case True
    with tc(2) own show ?thesis by (intro exI [of _ "cl_visited_nodes tc3"]) simp
  next
    case False
    with tc(2) have "collect_children R rope cancel kids (push_classified R rope (TokenNode a b cls kids) tc1) = Inr tc3" by simp
    from 2(1) [OF refl False this] show ?thesis by (simp only: own)
  qed
  moreover obtain n where "tc' = (fold (push_item R rope) (classified rest) tc3)\<lparr>cl_visited_nodes := n\<rparr>"
    using 2(2) [OF refl tc(3)] by blast
  ultimately show ?case using check_visited_Inr [OF tc(1)] by (auto simp: push_items_visited)
qed

lemma units_are_utf16: "utf16_units_in_rope_char_range R rope a b = (if b \<le> a then 0 else utf16_len (rp_slice R rope a b))"
proof -
  have "(if c \<ge> 0x10000 then 2 else 1) = len_utf16 c" for c by (simp add: len_utf16_def)
  then show ?thesis by (simp add: utf16_units_in_rope_char_range_def utf16_len_def)
qed

lemma line_of_char_mono: "lines_ok ls \<Longrightarrow> k \<le> k' \<Longrightarrow> line_of_char ls k \<le> line_of_char ls k'"
proof (induction ls k arbitrary: k' rule: line_of_char.induct)
  case (1 l m ls k)
  then show ?case by (auto simp: lines_ok_cons)
qed simp_all

lemma char_of_byte_mono: "b \<le> b' \<Longrightarrow> char_of_byte t b \<le> char_of_byte t b'"
  by (induction t b arbitrary: b' rule: char_of_byte.induct) auto

definition not_before :: "nat \<times> nat \<Rightarrow> nat \<times> nat \<Rightarrow> bool" where
  "not_before p q \<longleftrightarrow> fst p < fst q \<or> fst p = fst q \<and> snd p \<le> snd q"

context rope_text
begin

text \<open>The line and the column of an offset, and their order.\<close>

lemma line_col_at:
  assumes "b \<le> utf8_len (rp_chars R r)"
  obtains i m where "i < length (rp_lines R r)" "m \<le> length (rp_lines R r ! i)" "i = line_of_char (rp_lines R r) (char_of_byte (rp_chars R r) b)"
    "char_of_byte (rp_chars R r) b = length (concat (take i (rp_lines R r))) + m"
    "rope_byte_offset_to_line_col R r b = (as_u32 i, as_u32 (utf16_len (take m (rp_lines R r ! i))))"
    "rp_slice R r (length (concat (take i (rp_lines R r)))) (char_of_byte (rp_chars R r) b) = take m (rp_lines R r ! i)"
proof -
  let ?k = "char_of_byte (rp_chars R r) b"
  from char_at_line [OF char_of_byte_le] obtain i m where im: "i < length (rp_lines R r)" "m \<le> length (rp_lines R r ! i)"
    "?k = length (concat (take i (rp_lines R r))) + m" "line_of_char (rp_lines R r) ?k = i" .
  have "drop (length (concat (take i (rp_lines R r)))) (rp_chars R r) = rp_lines R r ! i @ concat (drop (Suc i) (rp_lines R r))"
    using drop_at_line [OF im(1)] by (simp add: lines)
  then have slice_eq: "rp_slice R r (length (concat (take i (rp_lines R r)))) ?k = take m (rp_lines R r ! i)"
    using char_of_byte_le [of "rp_chars R r" b] im(2,3) by (simp add: slice)
  have "rope_byte_offset_to_line_col R r b = (as_u32 i, as_u32 (utf16_len (take m (rp_lines R r ! i))))"
    using assms slice_eq im char_of_byte_le [of "rp_chars R r" b]
    by (simp add: rope_byte_offset_to_line_col_def Let_def lines(3) min.absorb1 to_char to_line at_line)
  with im slice_eq show thesis by (intro that [of i m]) simp_all
qed

lemma column_small:
  assumes "i < length (rp_lines R r)" "utf16_len (rp_chars R r) < 2 ^ 32" "length (rp_lines R r) < 2 ^ 32"
  shows "as_u32 (utf16_len (take m (rp_lines R r ! i))) = utf16_len (take m (rp_lines R r ! i))" "as_u32 i = i"
proof -
  have "utf16_len (take m (rp_lines R r ! i)) \<le> utf16_len (rp_lines R r ! i)"
    by (metis append_take_drop_id le_add1 utf_len_simps(6))
  also have "\<dots> \<le> utf16_len (rp_chars R r)"
    using concat_split [OF assms(1)] lines(1) [of r] by (metis le_add1 le_add2 order_trans utf_len_simps(6))
  finally show "as_u32 (utf16_len (take m (rp_lines R r ! i))) = utf16_len (take m (rp_lines R r ! i))" "as_u32 i = i"
    using assms by (simp_all add: as_u32_def)
qed

lemma line_col_mono:
  assumes "b \<le> b'" "b' \<le> utf8_len (rp_chars R r)" "utf16_len (rp_chars R r) < 2 ^ 32" "length (rp_lines R r) < 2 ^ 32"
  shows "not_before (rope_byte_offset_to_line_col R r b) (rope_byte_offset_to_line_col R r b')"
proof -
  from assms(1,2) have "b \<le> utf8_len (rp_chars R r)" by simp
  from line_col_at [OF this] obtain i m where im: "i < length (rp_lines R r)" "i = line_of_char (rp_lines R r) (char_of_byte (rp_chars R r) b)"
    "char_of_byte (rp_chars R r) b = length (concat (take i (rp_lines R r))) + m"
    "rope_byte_offset_to_line_col R r b = (as_u32 i, as_u32 (utf16_len (take m (rp_lines R r ! i))))" .
  from line_col_at [OF assms(2)] obtain i' m' where im': "i' < length (rp_lines R r)" "i' = line_of_char (rp_lines R r) (char_of_byte (rp_chars R r) b')"
    "char_of_byte (rp_chars R r) b' = length (concat (take i' (rp_lines R r))) + m'"
    "rope_byte_offset_to_line_col R r b' = (as_u32 i', as_u32 (utf16_len (take m' (rp_lines R r ! i'))))" .
  have k: "char_of_byte (rp_chars R r) b \<le> char_of_byte (rp_chars R r) b'" by (rule char_of_byte_mono) (rule assms(1))
  then have "i \<le> i'" using line_of_char_mono [OF lines(2) k] im(2) im'(2) by simp
  moreover have "utf16_len (take m l) \<le> utf16_len (take m' l)" if "i = i'" for l
  proof -
    from that k im(3) im'(3) have "m \<le> m'" by simp
    then show ?thesis by (metis le_add1 le_add_diff_inverse take_add utf_len_simps(6))
  qed
  ultimately show ?thesis
    using im(4) im'(4) column_small [OF im(1) assms(3,4)] column_small [OF im'(1) assms(3,4)] by (auto simp: not_before_def)
qed

text \<open>One token, and all of them.\<close>

lemma push_token_decodes:
  assumes "a \<le> utf8_len (rp_chars R r)" "not_before (cl_last_line tc, cl_last_col_utf16 tc) (rope_byte_offset_to_line_col R r a)"
  shows "\<exists>t. cl_data (push_token R r a b ty mods tc) = cl_data tc @ [t]
    \<and> (cl_last_line (push_token R r a b ty mods tc), cl_last_col_utf16 (push_token R r a b ty mods tc)) = rope_byte_offset_to_line_col R r a
    \<and> decode_tokens (cl_last_line tc) (cl_last_col_utf16 tc) [t] = [absolute R r (a, b, ty, mods)]"
proof -
  from line_col_at [OF assms(1)] obtain i m where im: "i < length (rp_lines R r)" "i = line_of_char (rp_lines R r) (char_of_byte (rp_chars R r) a)"
    "char_of_byte (rp_chars R r) a = length (concat (take i (rp_lines R r))) + m"
    "rope_byte_offset_to_line_col R r a = (as_u32 i, as_u32 (utf16_len (take m (rp_lines R r ! i))))"
    "rp_slice R r (length (concat (take i (rp_lines R r)))) (char_of_byte (rp_chars R r) a) = take m (rp_lines R r ! i)" .
  have at: "rp_byte_to_char R r a = char_of_byte (rp_chars R r) a" "rp_char_to_line R r (char_of_byte (rp_chars R r) a) = i"
    "rp_line_to_char R r i = length (concat (take i (rp_lines R r)))"
    using assms(1) im(1,2) by (simp_all add: to_char to_line char_of_byte_le at_line)
  have col: "utf16_units_in_rope_char_range R r (length (concat (take i (rp_lines R r))))
      (length (concat (take i (rp_lines R r))) + (char_of_byte (rp_chars R r) a - length (concat (take i (rp_lines R r)))))
    = utf16_len (take m (rp_lines R r ! i))"
    using im(3,5) by (cases m) (simp_all add: units_are_utf16)
  show ?thesis using assms(2) im(4)
    by (auto simp: push_token_def Let_def at col not_before_def absolute_def token_length_def)
qed

lemma push_items_decode:
  assumes "sorted (map fst its)" "\<forall>it\<in>set its. fst it \<le> utf8_len (rp_chars R r)" "utf16_len (rp_chars R r) < 2 ^ 32"
    "length (rp_lines R r) < 2 ^ 32"
    "\<forall>it\<in>set its. not_before (cl_last_line tc, cl_last_col_utf16 tc) (rope_byte_offset_to_line_col R r (fst it))"
  shows "\<exists>ts. cl_data (fold (push_item R r) its tc) = cl_data tc @ ts
    \<and> decode_tokens (cl_last_line tc) (cl_last_col_utf16 tc) ts = map (absolute R r) its"
  using assms
proof (induction its arbitrary: tc)
  case (Cons it its)
  obtain a b ty mods where it: "it = (a, b, ty, mods)" by (cases it)
  let ?tc = "push_token R r a b ty mods tc"
  from Cons.prems it push_token_decodes [of a r tc b ty mods] obtain t where t: "cl_data ?tc = cl_data tc @ [t]"
    "(cl_last_line ?tc, cl_last_col_utf16 ?tc) = rope_byte_offset_to_line_col R r a"
    "decode_tokens (cl_last_line tc) (cl_last_col_utf16 tc) [t] = [absolute R r (a, b, ty, mods)]" by auto
  have "\<forall>it\<in>set its. not_before (cl_last_line ?tc, cl_last_col_utf16 ?tc) (rope_byte_offset_to_line_col R r (fst it))"
    unfolding t(2) using Cons.prems it line_col_mono by auto
  with Cons.IH [of ?tc] Cons.prems it obtain ts where ts: "cl_data (fold (push_item R r) its ?tc) = cl_data ?tc @ ts"
    "decode_tokens (cl_last_line ?tc) (cl_last_col_utf16 ?tc) ts = map (absolute R r) its" by auto
  have "decode_tokens (cl_last_line tc) (cl_last_col_utf16 tc) (t # ts) = absolute R r (a, b, ty, mods) # map (absolute R r) its"
    using t(2,3) ts(2) by (cases "rope_byte_offset_to_line_col R r a") (auto simp: Let_def absolute_def)
  with t(1) ts(1) it show ?case by (intro exI [of _ "t # ts"]) simp
qed simp

end

text \<open>
  C11. The tokens of a collection decode to the classified nodes of the tree in order: each at the line and the
  column of its first byte, in a text of fewer than \<open>2 ^ 32\<close> lines and UTF-16 units whose tree lists its nodes
  by their first bytes.
\<close>

theorem tokens_decode:
  assumes "rope_laws R" "collect R r cancel root token_collector_new = Inr tc" "sorted (map fst (classified (nd_children root)))"
    "\<forall>it\<in>set (classified (nd_children root)). fst it \<le> utf8_len (rp_chars R r)"
    "utf16_len (rp_chars R r) < 2 ^ 32" "length (rp_lines R r) < 2 ^ 32"
  shows "decode_tokens 0 0 (cl_data tc) = map (absolute R r) (classified (nd_children root))"
proof -
  from collected [OF assms(2) [unfolded collect_def]] obtain n where "tc = (fold (push_item R r) (classified (nd_children root)) token_collector_new)\<lparr>cl_visited_nodes := n\<rparr>"
    by (elim exE)
  with rope_text.push_items_decode [OF rope_text.intro [OF assms(1)] assms(3-6), of token_collector_new] show ?thesis
    by (auto simp: token_collector_new_def not_before_def)
qed

subsection \<open>Clients\<close>

text \<open>What a client holds for each document: the identifier of the last result and its tokens.\<close>

type_synonym client_tokens = "str \<Rightarrow> (str \<times> semantic_token list) option"

definition client_receives :: "str \<Rightarrow> tokens_answer \<Rightarrow> client_tokens \<Rightarrow> client_tokens" where
  "client_receives uri answer client =
     (case answer of
        FullTokens (Some i) data \<Rightarrow> client(uri \<mapsto> (i, data))
      | FullTokens None data \<Rightarrow> client
      | TokensDelta i edits \<Rightarrow>
          (case client uri of Some (_, old) \<Rightarrow> client(uri \<mapsto> (i, apply_edits edits old)) | None \<Rightarrow> client))"

text \<open>The first request of a client is a full one; with tokens it asks for a delta.\<close>

definition client_request ::
  "'r rope_ops \<Rightarrow> ('l, 'v) context_cache_ops \<Rightarrow> 't parser_ops \<Rightarrow> language_registry \<Rightarrow> (('r, 't) source_file \<Rightarrow> token_node)
     \<Rightarrow> (nat \<Rightarrow> cancelled option) \<Rightarrow> str \<Rightarrow> client_tokens \<Rightarrow> ('r, 't, 'l) document_store
     \<Rightarrow> cancelled + (tokens_answer option \<times> ('r, 't, 'l) document_store)" where
  "client_request R L P registry nodes cancel uri client docs =
     (case client uri of
        None \<Rightarrow> tokens_full R L P registry nodes cancel uri docs
      | Some (i, _) \<Rightarrow> tokens_full_delta R L P registry nodes cancel uri i docs)"

text \<open>Every cached result is the one that the client holds.\<close>

definition cache_known :: "client_tokens \<Rightarrow> ('r, 't, 'l) document_store \<Rightarrow> bool" where
  "cache_known client docs \<longleftrightarrow>
     (\<forall>uri d entry. hget docs uri = Some d \<longrightarrow> dc_semantic_token_cache d = Some entry
       \<longrightarrow> client uri = Some entry \<and> length (snd entry) < 2 ^ 32)"

inductive token_session ::
  "'r rope_ops \<Rightarrow> ('l, 'v) context_cache_ops \<Rightarrow> 't parser_ops \<Rightarrow> language_registry \<Rightarrow> (('r, 't) source_file \<Rightarrow> token_node)
     \<Rightarrow> client_tokens \<Rightarrow> ('r, 't, 'l) document_store \<Rightarrow> bool" for R L P registry nodes where
  session_start: "token_session R L P registry nodes (\<lambda>_. None) []"
| session_store: "token_session R L P registry nodes client docs \<Longrightarrow> store_step R L P registry e docs = Inr docs'
    \<Longrightarrow> token_session R L P registry nodes client docs'"
| session_cancelled: "token_session R L P registry nodes client docs
    \<Longrightarrow> client_request R L P registry nodes cancel uri client docs = Inl reason \<Longrightarrow> token_session R L P registry nodes client docs"
| session_silent: "token_session R L P registry nodes client docs
    \<Longrightarrow> client_request R L P registry nodes cancel uri client docs = Inr (None, docs') \<Longrightarrow> token_session R L P registry nodes client docs'"
| session_range: "token_session R L P registry nodes client docs
    \<Longrightarrow> tokens_range R L P registry nodes cancel uri rng docs = Inr (answer, docs') \<Longrightarrow> token_session R L P registry nodes client docs'"
| session_answer: "token_session R L P registry nodes client docs
    \<Longrightarrow> client_request R L P registry nodes cancel uri client docs = Inr (Some answer, docs')
    \<Longrightarrow> token_session R L P registry nodes (client_receives uri answer client) docs'"

lemma cache_known_mut:
  assumes "cache_known client docs" "\<And>d entry. dc_semantic_token_cache (f d) = Some entry \<Longrightarrow> dc_semantic_token_cache d = Some entry"
  shows "cache_known client (with_doc_mut uri f docs)"
  unfolding cache_known_def
proof (intro allI impI)
  fix u d entry
  assume d: "hget (with_doc_mut uri f docs) u = Some d" "dc_semantic_token_cache d = Some entry"
  then obtain d0 where "hget docs u = Some d0" "d = d0 \<or> d = f d0" by (auto simp: with_doc_mut_get split: if_splits)
  with d(2) assms(2) [of d0 entry] assms(1) show "client u = Some entry \<and> length (snd entry) < 2 ^ 32"
    unfolding cache_known_def by blast
qed

lemma cache_known_insert:
  "cache_known client docs \<Longrightarrow> dc_semantic_token_cache d = None \<Longrightarrow> cache_known client (hinsert uri d docs)"
  by (auto simp: cache_known_def)

lemma change_document_cache:
  assumes "change_document R L P lang v chs d = Inr (Some d')"
  shows "dc_semantic_token_cache d' = None"
proof -
  from assms obtain tree outcome where "base_tree P lang (dc_source d) = Some tree"
    "apply_changes R P chs (sf_text (dc_source d), sf_rope (dc_source d), tree) = Inr outcome"
    by (auto simp: change_document_def Let_def map_ok_Inr split: option.splits)
  with assms show ?thesis by (cases outcome) (auto simp: change_document_def Let_def)
qed

lemma change_known:
  assumes "cache_known client docs" "did_change R L P registry uri v chs docs = Inr (es, docs')"
  shows "cache_known client docs'"
proof (cases "\<exists>lang d d'. change_document R L P lang v chs d = Inr (Some d') \<and> docs' = hinsert uri d' docs")
  case True
  then show ?thesis using assms(1) change_document_cache by (blast intro: cache_known_insert)
next
  case False
  with assms(2) have "docs' = docs" by (auto simp: did_change_def map_ok_Inr split: option.splits)
  with assms(1) show ?thesis by simp
qed

lemma ensure_tree_known: "cache_known client docs \<Longrightarrow> ensure_tree L P uri lang docs = (f, docs') \<Longrightarrow> cache_known client docs'"
  by (auto simp: ensure_tree_def Let_def split: if_splits intro!: cache_known_mut)

lemma open_known:
  assumes "cache_known client docs"
  shows "cache_known client (snd (did_open R L P registry path uri reported v t docs))"
proof -
  have "cache_known client (store_open (document_new L (source_file_new R uri i v t None)) docs)" for i
    unfolding store_open_def using assms by (intro cache_known_insert) simp_all
  then show ?thesis using assms by (auto simp: did_open_def Let_def intro!: cache_known_mut split: option.splits)
qed

lemma save_known: "cache_known client docs \<Longrightarrow> cache_known client (snd (did_save R L P registry uri saved docs))"
  by (auto simp: did_save_def save_document_def Let_def intro!: cache_known_mut split: option.splits)

lemma store_step_known:
  assumes "cache_known client docs" "store_step R L P registry e docs = Inr docs'"
  shows "cache_known client docs'"
proof (cases e)
  case (ChangeDocument u v chs)
  with assms change_known [of client docs R L P registry u v chs] show ?thesis by (auto simp: map_ok_Inr)
next
  case (EnsureTree u lang)
  with assms show ?thesis by (cases "ensure_tree L P u lang docs") (auto intro: ensure_tree_known)
next
  case (CloseDocument u)
  with assms show ?thesis by (auto simp: did_close_def store_close_def cache_known_def split: if_splits)
next
  case ClearCaches
  with assms show ?thesis by (auto simp: cache_known_def clear_lsp_caches_get)
next
  case (CacheContext u k c)
  with assms show ?thesis by (auto intro!: cache_known_mut simp: cache_semantic_context_def)
qed (use assms in \<open>auto simp: open_known save_known\<close>)

lemma snapshot_rootD:
  assumes "snapshot_root L P registry nodes cancel uri docs = Inr (found, docs')" "cache_known client docs"
  shows "cache_known client docs'" "found = Some (file, root) \<Longrightarrow> root = nodes file \<and> (\<exists>d. hget docs' uri = Some d \<and> dc_source d = file)"
proof -
  show "cache_known client docs'"
    using assms ensure_tree_known [OF assms(2)]
    by (auto simp: snapshot_root_def split: option.splits prod.splits if_splits)
  show "root = nodes file \<and> (\<exists>d. hget docs' uri = Some d \<and> dc_source d = file)" if "found = Some (file, root)"
  proof -
    from that assms(1) obtain lang where "ensure_tree L P uri lang docs = (Some file, docs')" "root = nodes file"
      by (auto simp: snapshot_root_def split: option.splits prod.splits if_splits)
    then show ?thesis by (auto simp: ensure_tree_def Let_def document_snapshot_def with_doc_def)
  qed
qed

lemma push_token_length: "length (cl_data (push_token R r a b ty mods tc)) = length (cl_data tc) + 1"
  by (simp add: push_token_def Let_def)

lemma push_items_length: "length (cl_data (fold (push_item R r) its tc)) = length (cl_data tc) + length its"
  by (induction its arbitrary: tc) (auto simp: push_token_length split: prod.split)

lemma collected_length: "collect R r cancel root token_collector_new = Inr tc \<Longrightarrow> length (cl_data tc) = length (classified (nd_children root))"
  using collected [of R r cancel "nd_children root" token_collector_new tc]
  by (auto simp: collect_def push_items_length token_collector_new_def)

definition small_trees :: "('s \<Rightarrow> token_node) \<Rightarrow> bool" where
  "small_trees nodes \<longleftrightarrow> (\<forall>src. length (classified (nd_children (nodes src))) < 2 ^ 32)"

text \<open>The answer to a client, from the snapshot it is made of.\<close>

definition answered ::
  "'r rope_ops \<Rightarrow> (('r, 't) source_file \<Rightarrow> token_node) \<Rightarrow> (nat \<Rightarrow> cancelled option) \<Rightarrow> str \<Rightarrow> client_tokens
     \<Rightarrow> ('r, 't, 'l) document_store \<Rightarrow> bool" where
  "answered R nodes cancel uri client docs \<longleftrightarrow>
     (\<exists>d tc. hget docs uri = Some d \<and> collect R (sf_rope (dc_source d)) cancel (nodes (dc_source d)) token_collector_new = Inr tc
        \<and> client uri = Some (make_result_id (document_version d), cl_data tc)
        \<and> dc_semantic_token_cache d = Some (make_result_id (document_version d), cl_data tc))"

lemma store_tokens_known:
  assumes "cache_known client docs" "client' uri = Some entry" "\<And>u. u \<noteq> uri \<Longrightarrow> client' u = client u" "length (snd entry) < 2 ^ 32"
  shows "cache_known client' (store_tokens uri entry docs)"
  unfolding cache_known_def
proof (intro allI impI)
  fix u d e
  assume "hget (store_tokens uri entry docs) u = Some d" "dc_semantic_token_cache d = Some e"
  note d = this
  show "client' u = Some e \<and> length (snd e) < 2 ^ 32"
  proof (cases "u = uri")
    case True
    with d assms(2,4) show ?thesis by (auto simp: store_tokens_def with_doc_mut_get)
  next
    case False
    with d have "hget docs u = Some d" by (simp add: store_tokens_def with_doc_mut_get)
    with d(2) assms(1) have "client u = Some e \<and> length (snd e) < 2 ^ 32" unfolding cache_known_def by blast
    with assms(3) [OF False] show ?thesis by simp
  qed
qed

lemma store_tokens_answered:
  assumes "hget docs uri = Some d" "collect R (sf_rope (dc_source d)) cancel (nodes (dc_source d)) token_collector_new = Inr tc"
    "client uri = Some (make_result_id (document_version d), cl_data tc)"
  shows "answered R nodes cancel uri client (store_tokens uri (make_result_id (document_version d), cl_data tc) docs)"
  using assms by (auto simp: answered_def store_tokens_def with_doc_mut_get document_version_def)

lemma full_answer:
  assumes "cache_known client docs" "small_trees nodes"
    "tokens_full R L P registry nodes cancel uri docs = Inr (Some answer, docs')"
  shows "cache_known (client_receives uri answer client) docs' \<and> answered R nodes cancel uri (client_receives uri answer client) docs'"
proof -
  from assms(3) obtain src root docs1 tc where f: "snapshot_root L P registry nodes cancel uri docs = Inr (Some (src, root), docs1)"
    "collect R (sf_rope src) cancel root token_collector_new = Inr tc"
    "answer = FullTokens (Some (make_result_id (sf_version src))) (cl_data tc)"
    "docs' = store_tokens uri (make_result_id (sf_version src), cl_data tc) docs1"
    by (auto simp: tokens_full_def and_then_Inr map_ok_Inr Let_def split: option.splits)
  from snapshot_rootD [OF f(1) assms(1)] obtain d where d: "cache_known client docs1" "root = nodes src" "hget docs1 uri = Some d" "dc_source d = src"
    by blast
  have client: "client_receives uri answer client = client(uri \<mapsto> (make_result_id (sf_version src), cl_data tc))"
    by (simp add: client_receives_def f(3))
  have "length (cl_data tc) < 2 ^ 32" using collected_length [OF f(2)] assms(2) d(2) by (simp add: small_trees_def)
  then have "cache_known (client_receives uri answer client) docs'"
    unfolding client f(4) by (intro store_tokens_known [OF d(1)]) simp_all
  moreover have "answered R nodes cancel uri (client_receives uri answer client) docs'"
    using store_tokens_answered [where nodes = nodes and tc = tc and R = R and cancel = cancel, OF d(3)] d(2,4) f(2,4) client
    by (simp add: document_version_def)
  ultimately show ?thesis ..
qed

lemma delta_answer:
  assumes "cache_known client docs" "small_trees nodes"
    "tokens_full_delta R L P registry nodes cancel uri i docs = Inr (Some answer, docs')" "client uri = Some (i, theirs)"
  shows "cache_known (client_receives uri answer client) docs' \<and> answered R nodes cancel uri (client_receives uri answer client) docs'"
proof -
  from assms(3) obtain src root docs1 tc where f: "snapshot_root L P registry nodes cancel uri docs = Inr (Some (src, root), docs1)"
    "collect R (sf_rope src) cancel root token_collector_new = Inr tc"
    by (auto simp: tokens_full_delta_def and_then_Inr map_ok_Inr split: option.splits)
  from snapshot_rootD [OF f(1) assms(1)] obtain d where d: "cache_known client docs1" "root = nodes src" "hget docs1 uri = Some d" "dc_source d = src"
    by blast
  let ?new = "(make_result_id (sf_version src), cl_data tc)"
  have len: "length (cl_data tc) < 2 ^ 32" using collected_length [OF f(2)] assms(2) d(2) by (simp add: small_trees_def)
  have answer: "docs' = store_tokens uri ?new docs1 \<and> client_receives uri answer client = client(uri \<mapsto> ?new)"
  proof (cases "\<exists>old. dc_semantic_token_cache d = Some (i, old)")
    case True
    then obtain old where old: "dc_semantic_token_cache d = Some (i, old)" by blast
    with d(1,3) assms(4) have "old = theirs" "length old < 2 ^ 32" by (auto simp: cache_known_def)
    with old f d assms(3,4) diff_applies [OF _ len, of old] show ?thesis
      by (auto simp: tokens_full_delta_def and_then_Inr map_ok_Inr Let_def with_doc_def client_receives_def)
  next
    case False
    then have none: "(case dc_semantic_token_cache d of Some (j, data) \<Rightarrow> if j = i then Some data else None | None \<Rightarrow> None) = None"
      by (auto split: option.splits)
    with f d assms(3) show ?thesis
      by (auto simp: tokens_full_delta_def and_then_Inr map_ok_Inr Let_def with_doc_def client_receives_def)
  qed
  then have "cache_known (client_receives uri answer client) docs'"
    using len by (auto intro!: store_tokens_known [OF d(1)])
  moreover have "answered R nodes cancel uri (client_receives uri answer client) docs'"
    using store_tokens_answered [where nodes = nodes and tc = tc and R = R and cancel = cancel, OF d(3)] d(2,4) f(2) answer
    by (simp add: document_version_def)
  ultimately show ?thesis ..
qed

lemma request_known:
  assumes "cache_known client docs" "client_request R L P registry nodes cancel uri client docs = Inr (None, docs')"
  shows "cache_known client docs'"
proof -
  have "\<exists>found. snapshot_root L P registry nodes cancel uri docs = Inr (found, docs')"
    using assms(2) by (auto simp: client_request_def tokens_full_def tokens_full_delta_def and_then_Inr map_ok_Inr Let_def split: option.splits)
  then show ?thesis using snapshot_rootD(1) [OF _ assms(1)] by blast
qed

lemma range_snapshot:
  assumes "tokens_range R L P registry nodes cancel uri rng docs = Inr (answer, docs')"
  shows "\<exists>found. snapshot_root L P registry nodes cancel uri docs = Inr (found, docs')"
proof (cases "snapshot_root L P registry nodes cancel uri docs")
  case (Inr p)
  obtain found docs1 where p: "p = (found, docs1)" by (cases p)
  show ?thesis
  proof (cases found)
    case None
    with assms Inr p show ?thesis by (simp add: tokens_range_def)
  next
    case (Some q)
    with assms Inr p show ?thesis by (cases q) (auto simp: tokens_range_def Let_def map_ok_Inr)
  qed
qed (use assms in \<open>simp add: tokens_range_def\<close>)

lemma session_known:
  assumes "token_session R L P registry nodes client docs" "small_trees nodes"
  shows "cache_known client docs"
  using assms(1)
proof induction
  case session_start
  then show ?case by (simp add: cache_known_def)
next
  case (session_store client docs e docs')
  then show ?case using store_step_known by blast
next
  case (session_silent client docs cancel uri docs')
  then show ?case using request_known by blast
next
  case (session_range client docs cancel uri rng answer docs')
  then show ?case using range_snapshot snapshot_rootD(1) [OF _ session_range.IH] by blast
next
  case (session_answer client docs cancel uri answer docs')
  then show ?case
    using full_answer [OF session_answer.IH assms(2), of R L P registry cancel uri answer docs']
      delta_answer [OF session_answer.IH assms(2), of R L P registry cancel uri _ answer docs']
    by (auto simp: client_request_def split: option.splits)
qed


subsection \<open>Integers\<close>

text \<open>
  The protocol sends five integers for a token and counts integers in an edit. The edit of the code counts
  tokens: applied to the integers of the old tokens it does not give those of the new ones.
\<close>

definition token_integers :: "semantic_token list \<Rightarrow> nat list" where
  "token_integers ts =
     concat (map (\<lambda>t. [tok_delta_line t, tok_delta_start t, tok_length t, tok_type t, unat (tok_modifiers t)]) ts)"

definition apply_edit_to_integers :: "semantic_tokens_edit \<Rightarrow> nat list \<Rightarrow> nat list" where
  "apply_edit_to_integers e ints =
     take (te_start e) ints @ token_integers (case te_data e of Some data \<Rightarrow> data | None \<Rightarrow> [])
       @ drop (te_start e + te_delete_count e) ints"

abbreviation word_token :: "nat \<Rightarrow> nat \<Rightarrow> semantic_token" where
  "word_token c n \<equiv> \<lparr>tok_delta_line = 0, tok_delta_start = c, tok_length = n, tok_type = 8, tok_modifiers = 0\<rparr>"

lemma edit_counts_tokens:
  "diff_semantic_tokens [word_token 0 3, word_token 4 5] [word_token 0 3, word_token 4 6]
     = [\<lparr>te_start = 1, te_delete_count = 1, te_data = Some [word_token 4 6]\<rparr>]"
  "apply_edit_to_integers \<lparr>te_start = 1, te_delete_count = 1, te_data = Some [word_token 4 6]\<rparr> (token_integers [word_token 0 3, word_token 4 5])
     \<noteq> token_integers [word_token 0 3, word_token 4 6]"
  by (simp_all add: diff_semantic_tokens_def prefix_len_def as_u32_def apply_edit_to_integers_def token_integers_def Let_def)

subsection \<open>Instances\<close>

definition sample_tree :: token_node where
  "sample_tree = TokenNode 0 4 None
     [TokenNode 0 2 (Some (''keyword'', [])) [], TokenNode 3 4 None [TokenNode 3 4 (Some (''class'', [''static''])) []]]"

lemma tokens_decode_witness_collect:
  "\<exists>tc. collect text_rope [0x61, 0x62, 0x0A, 0x63] (\<lambda>_. None) sample_tree token_collector_new = Inr tc"
  by (simp add: collect_def sample_tree_def check_visited_def Let_def)

theorem tokens_decode_witness:
  "\<exists>tc. collect text_rope [0x61, 0x62, 0x0A, 0x63] (\<lambda>_. None) sample_tree token_collector_new = Inr tc
    \<and> decode_tokens 0 0 (cl_data tc)
      = map (absolute text_rope [0x61, 0x62, 0x0A, 0x63]) [(0, 2, ''keyword'', []), (3, 4, ''class'', [''static''])]"
proof -
  obtain tc where tc: "collect text_rope [0x61, 0x62, 0x0A, 0x63] (\<lambda>_. None) sample_tree token_collector_new = Inr tc"
    using tokens_decode_witness_collect by blast
  have items: "classified (nd_children sample_tree) = [(0, 2, ''keyword'', []), (3, 4, ''class'', [''static''])]"
    by (simp add: sample_tree_def)
  have "decode_tokens 0 0 (cl_data tc) = map (absolute text_rope [0x61, 0x62, 0x0A, 0x63]) (classified (nd_children sample_tree))"
    by (rule tokens_decode [OF text_rope_laws tc]) (simp_all add: items text_rope_def len_utf8_def len_utf16_def)
  with tc items show ?thesis by auto
qed

definition sample_store :: "(unicode, unicode, (context_cache_key \<times> nat) list) document_store" where
  "sample_store = [(''A.java'', sample_document [0x61])]"

definition sample_nodes :: "(unicode, unicode) source_file \<Rightarrow> token_node" where
  "sample_nodes src = TokenNode 0 1 None [TokenNode 0 1 (Some (''class'', [])) []]"

lemma sample_session:
  "token_session text_rope (list_cache :: ((context_cache_key \<times> nat) list, nat) context_cache_ops) text_parser language_registry_new
     sample_nodes (\<lambda>_. None) sample_store"
proof (rule session_store [OF session_start, where e = "OpenDocument None ''A.java'' ''java'' 1 [0x61]"])
  show "store_step text_rope list_cache text_parser language_registry_new (OpenDocument None ''A.java'' ''java'' 1 [0x61]) [] = Inr sample_store"
    by (simp add: did_open_def resolve_supported_language_id_def registry_find_def language_registry_new_def
        supports_def with_doc_mut_def store_open_def hinsert_def Let_def sample_store_def sample_document_def document_uri_def
        document_new_def source_file_new_def set_tree_def with_tree_def text_parser_def list_cache_def)
qed


end
