(* ===== verification/Spec2Isabelle.thy ===== *)
theory Spec2Isabelle
  imports Type_Name Jvm_Type Class_Metadata Archive_Stub Class_Source Bucket_Index Bucket_Laws
    Artifact_Reader Index_View View_Members View_Laws View_Properties Module_Index Workspace_Index
    Workspace_Laws Scope_Cache Conversion Type_Bindings Type_Resolver Resolver_Laws
    Request_Cancellation Build_Model Build_Reload Source_Types Source_Laws Semantic_Context
    Symbol_Resolver Symbol_Laws Synthetic_Laws Document_Laws Token_Laws
begin

text \<open>
  A model of a Java language server: its class index, its types and its open documents, and the theorems
  that make them correct.

  \<^bold>\<open>The program.\<close> The server answers editor requests from an index of Java classes. Class files and
  sources are read into class metadata (\<open>src/src/index.rs\<close>); metadata is stored in buckets
  (\<open>index/bucket.rs\<close>), one per source root, jar or overlay, or read lazily from artifact archives
  (\<open>index/artifact_reader.rs\<close>, \<open>index/archive_stub.rs\<close>). A module (\<open>index/module_index.rs\<close>) owns
  source buckets and classpath entries, the workspace (\<open>index/workspace_index.rs\<close>) owns modules, the
  dependency graph (\<open>index/module_graph.rs\<close>), the JDK and a cache of scopes. A scope
  (\<open>index/scope_snapshot.rs\<close>) is the ordered list of layers that an analysis context sees, and a
  view (\<open>index/view.rs\<close>) answers look-ups over the layers of a scope. Types of members are texts in
  the JVM formats that \<open>semantic/types/generics.rs\<close>, \<open>semantic/types/type_name.rs\<close> and
  \<open>jvm/descriptor.rs\<close> read and print. The build tools (\<open>build_integration\<close>) give the workspace its modules;
  names and types of sources are resolved against a view (\<open>language/java/type_ctx.rs\<close>,
  \<open>semantic/context.rs\<close>, \<open>semantic/types/symbol_resolver.rs\<close>), members that annotations and records imply are
  added (\<open>language/java/lombok\<close>, \<open>language/java/synthetic\<close>). Open documents follow the edits of the client
  (\<open>lsp/server.rs\<close>, \<open>workspace/document.rs\<close>), and requests on them can be cancelled
  (\<open>lsp/request_cancellation.rs\<close>).

  \<^bold>\<open>The theories.\<close>
  \<^item> \<open>Prelude\<close>: hash maps as association lists (\<open>hget\<close>, \<open>hinsert\<close>), panics as \<open>rust_panic +\<close> values
    with \<open>try_map\<close> and \<open>map_ok\<close>, string slicing, the worklist loop \<open>bfs\<close>, generic lemmas.
  \<^item> \<open>Type_Name\<close>: \<open>TypeName\<close> of \<open>type_name.rs\<close>; text round trip, flat intersections, arrays.
  \<^item> \<open>Jvm_Type\<close>: \<open>JvmType\<close> of \<open>generics.rs\<close>: parser, printers, substitution, type parameter
    sections, method signatures, bounds of type variables; round trips, normalisation, agreement of
    the two printers and the two substitutions, and the one panic of \<open>split_internal_name\<close>.
  \<^item> \<open>Class_Metadata\<close>: the data of \<open>index.rs\<close>, descriptors, owner chains, name tables and the merge
    of source names into bytecode.
  \<^item> \<open>Archive_Stub\<close>: the compact form of a class in an archive and its rebuilding.
  \<^item> \<open>Class_Source\<close>: the hierarchy loop shared by buckets and views, and the locales \<open>class_lookup\<close>
    and \<open>class_source\<close> that state what a source of classes promises. \<open>Bucket_Index\<close> interprets them
    for buckets, \<open>View_Laws\<close> for views.
  \<^item> \<open>Bucket_Index\<close>, \<open>Bucket_Laws\<close>: \<open>BucketIndex\<close> with its slots, free list and secondary indices;
    reachable buckets are consistent, and every operation refines an update of one map from names
    to classes.
  \<^item> \<open>Artifact_Reader\<close>: \<open>ArtifactScopeReader\<close> and its cache; a reader refines its archive.
  \<^item> \<open>Index_View\<close>, \<open>View_Members\<close>, \<open>View_Laws\<close>, \<open>View_Properties\<close>: \<open>ScopeSnapshot\<close> and \<open>IndexView\<close>;
    precedence of layers, consistency of the look-ups, hierarchies, members, lazy references, scoped
    names, overlays.
  \<^item> \<open>Module_Index\<close>, \<open>Workspace_Index\<close>, \<open>Workspace_Laws\<close>: modules, graph and workspace as explicit
    state; the step relation \<open>ws_step\<close> has one rule per mutation or query, and \<open>ws_inv\<close> holds in all
    states that \<open>ws_run\<close> reaches.
  \<^item> \<open>Scope_Cache\<close>: the same cache under interleaved readers and writers; the locale
    \<open>scope_topology\<close> is interpreted on the scopes of \<open>Workspace_Laws\<close>.
  \<^item> \<open>Conversion\<close>: conversions between types and overload selection by argument types
    (\<open>semantic/types.rs\<close>): numeric promotion, reference widening as reachability over supertypes,
    the selected overload as the first best match.
  \<^item> \<open>Type_Bindings\<close>: binding of method type variables, texts of lambdas and method references, and
    the parser of call chains (\<open>completion/parser.rs\<close>); inference finds the substitution.
  \<^item> \<open>Type_Resolver\<close>, \<open>Resolver_Laws\<close>: \<open>TypeResolver\<close>: expression texts, single abstract methods,
    functional arguments, calls and call chains; the recursion through lambda bodies ends, and a
    call site selects the one best candidate.
  \<^item> \<open>Request_Cancellation\<close>: tokens, manager and guards of \<open>lsp/request_cancellation.rs\<close> as step relations
    of interleaved threads; one current request per family and document, and the wake-up that can be missed.
  \<^item> \<open>Build_Model\<close>, \<open>Build_Reload\<close>: the workspace model, detection, Gradle and Maven imports
    (\<open>build_integration/model.rs\<close>, \<open>gradle.rs\<close>, \<open>maven.rs\<close>, \<open>detection.rs\<close>), and the reload loop with its
    debounce (\<open>reload.rs\<close>, \<open>status.rs\<close>, \<open>index/handle.rs\<close>) as a step relation; its invariant and progress.
  \<^item> \<open>Source_Types\<close>, \<open>Source_Laws\<close>: \<open>SourceTypeCtx\<close>: names, type arguments and descriptors written in a
    source, with the two caches as state; strict types are well-formed, descriptors read back, and the caches
    change no answer.
  \<^item> \<open>Semantic_Context\<close>, \<open>Symbol_Resolver\<close>, \<open>Symbol_Laws\<close>: the context of a cursor, enclosing owners, the
    classification of names and the resolution of symbols; names classified as fields resolve, and the search
    for an owner returns or does not exactly as the chain of owners ends or not.
  \<^item> \<open>Lombok_Support\<close>, \<open>Synthetic_Members\<close>, \<open>Synthetic_Laws\<close>: \<open>lombok.config\<close>, annotation queries, the twelve
    rules of \<open>synthetic/common.rs\<close> and their merge with declared members; declared members win, go-to-definition
    finds every generated member, \<open>@Data\<close> is its parts.
  \<^item> \<open>Text_Positions\<close>, \<open>Document_Sync\<close>, \<open>Document_Laws\<close>: UTF-16 positions and byte offsets
    (\<open>language/rope_utils.rs\<close>), the document store and the notifications of \<open>lsp/server.rs\<close>; the server has the
    text of the client. The locale \<open>rope_text\<close> holds what follows from the contract of ropes and is
    interpreted on \<open>text_rope\<close>.
  \<^item> \<open>Semantic_Tokens\<close>, \<open>Token_Laws\<close>: the token collector of \<open>language.rs\<close> and the requests of
    \<open>lsp/handlers/semantic_tokens.rs\<close>; a client that asks for deltas holds the current tokens.
  \<^item> This theory: the property that spans editing, scopes and views.

  \<^bold>\<open>State and sharing.\<close> A reference-counted bucket is an address in a heap (\<open>bucket_heap\<close>), so that an
  edit of a bucket is seen through every scope that holds it. Locks are not modelled where an
  operation takes one lock for its whole duration; where the code releases it in between, the steps
  are separate (\<open>Scope_Cache\<close>, and \<open>bucket_collect_publish\<close> for the member cache).

  \<^bold>\<open>Bounds.\<close> Every loop of the model is a total function. The worklist loops carry the finite set of
  names or modules they can meet, which is enough because each turn removes one. Owner chains stop
  after 64 owners and scope chains after 65 as the code does. The resolver of call chains recurses
  through lambda bodies with the bound \<open>chain_depth\<close>, one more than the longest argument text; it is
  enough because a lambda body is shorter than the lambda. Slots of an archive are 32-bit words
  and the conversion panics beyond; versions are 64-bit words, and the concurrent theorem is about
  runs with fewer than \<open>2 ^ 64\<close> increments. The cancellation theorem is about fewer than \<open>2 ^ 64\<close>
  requests, the Gradle theorem about at most 400,000 projects and 10,000 roots each, and positions and
  tokens about texts of fewer than \<open>2 ^ 32\<close> lines and UTF-16 units, as numbers are cut to 32 bits there. The
  debounce of a reload is 900 ms. One search does not always return, the one for an enclosing owner in the
  index: it is a \<open>partial_function (option)\<close>, None where it runs for ever. \<open>capitalize_first\<close> is exact for
  names that begin with a character of ASCII.

  \<^bold>\<open>Parameters.\<close> The LRU cache (\<open>lru_ops\<close>, with its documented laws \<open>lru_laws\<close>), the fuzzy score and
  the disk (\<open>disk_ops\<close>: opening a jar and loading an archive) stand for code outside the repository
  or for I/O. \<open>block_return\<close> stands for the search for the one returned expression of a block lambda
  in its syntax tree; the termination theorem uses that this expression is shorter than the lambda.
  The rope library (\<open>rope_ops\<close>, \<open>rope_laws\<close>), the parsers (\<open>parser_ops\<close>), the cache of contexts
  (\<open>context_cache_ops\<close>, \<open>context_cache_laws\<close>), the notification primitive of the runtime (\<open>notify_ops\<close>,
  \<open>notify_laws\<close>), the files that exist and the outcomes of imports of the build tools, and the texts of
  \<open>lombok.config\<close> files (\<open>read\<close>) are parameters as well. Where an operation reads a syntax tree, what it
  reads is data of the model: \<open>type_decl\<close> for the rules of generated members, \<open>token_node\<close> for tokens.

  \<^bold>\<open>Not modelled.\<close> Syntax trees come from grammars outside the repository, so what the Java and Kotlin
  front ends make of them (\<open>language/java.rs\<close>, \<open>class_parser.rs\<close>, \<open>completion_context.rs\<close>, \<open>location.rs\<close>,
  \<open>expression_typing.rs\<close>, \<open>language/kotlin.rs\<close>), the completion providers over them and the incremental queries
  (\<open>salsa_queries\<close>) are left out, as are the class-file reader, the on-disk store, the processes of the build
  tools, the file watcher, the decompiler, the metrics and the transport of the protocol, which are input and
  output around the index. The re-indexing task of a changed document appears as an effect of the notification.
\<close>

lemma scope_query_extends:
  assumes "scope_for_analysis_context L w key = (snapshot, w')"
  shows "\<exists>w1. extends w w1 \<and> ws_heap w' = ws_heap w1 \<and> ws_modules w' = ws_modules w1"
proof -
  obtain sn w1 where b: "build_scope_snapshot L w key = (sn, w1)" by fastforce
  consider "w' = w" | "w' = w1" | c where "w' = w1\<lparr>ws_scope_cache := c\<rparr>"
    using assms b by (auto simp: scope_for_analysis_context_def Let_def split: option.splits if_splits)
  then show ?thesis
  proof cases
    case 1
    then show ?thesis by (intro exI [of _ w]) simp
  qed (use build_scope_ok(1) [OF b] in auto)
qed

lemma preferred_root_first:
  assumes "hget (mi_source_roots m) root = Some r"
  shows "\<exists>ls. visible_source_layers m cp (Some root) = sr_bucket r # ls"
proof -
  have push: "\<exists>ls'. fst (push_matching m requested (b # ls, seen)) = b # ls'" for requested b ls seen
  proof -
    have "\<exists>ls'. fst (fold (\<lambda>(i, root) (ls, seen).
        if i \<in> seen \<or> sr_classpath root \<noteq> requested then (ls, seen)
        else (ls @ [sr_bucket root], insert i seen)) rs (b # ls, seen)) = b # ls'" for rs
    proof (induction rs arbitrary: ls seen)
      case (Cons x rs)
      then show ?case by (cases x) auto
    qed simp
    then show ?thesis by (simp add: push_matching_def)
  qed
  have roots: "mi_source_roots m \<noteq> []" using assms by auto
  show ?thesis
  proof (cases cp)
    case Main
    with roots assms push [of Main "sr_bucket r" "[]" "{root}"] show ?thesis
      by (auto simp: visible_source_layers_def Let_def)
  next
    case Test
    obtain ls seen where t: "push_matching m Test ([sr_bucket r], {root}) = (sr_bucket r # ls, seen)"
      using push [of Test "sr_bucket r" "[]" "{root}"] by (metis prod.collapse)
    with Test roots assms push [of Main "sr_bucket r" ls seen] show ?thesis
      by (auto simp: visible_source_layers_def Let_def)
  qed
qed

text \<open>
  C4. Edits are visible: after the classes of a source file have been updated in a source root,
  the view of that module and root finds every class of the update that was not blocked by a jar
  class of the same name, whatever other layers hold under its name.
\<close>

theorem edit_visible:
  assumes "disk_ok D" "ws_run L D w" "hget (ws_modules w) i = Some m" "hget (mi_source_roots m) root = Some r"
    and "update_source_in_context L w i (Some root) (SourceFile uri) cs = Inr (True, w1)"
    and "class_map (filter (not_blocked (hp_buckets (ws_heap w) (sr_bucket r))) cs) n = Some c" "is_source c"
    and "view_for_analysis_context L D w1 (i, cp, Some root) = (v, w2)"
  shows "view_get_class v n = Some c"
proof -
  let ?b = "sr_bucket r"
  have inv: "ws_inv w" by (rule ws_run_inv [OF assms(2,1)])
  have rb: "root_bucket m (Some root) = ?b" using assms(4) by (simp add: root_bucket_def)
  have b: "?b < hp_next (ws_heap w)"
    using ws_core_refs [OF _ assms(3) root_bucket_ref [of m "Some root"]] inv rb by (simp add: ws_inv_def)
  then have binv: "bucket_inv (hp_buckets (ws_heap w) ?b)" using inv by (simp add: ws_inv_def ws_core_def heap_ok_def)
  from assms(5) obtain s where s: "bucket_update_source_with_declarations L (hp_buckets (ws_heap w) ?b) (SourceFile uri) cs None
      = Inr (True, s)"
    "w1 = invalidate_analysis_caches (w\<lparr>ws_heap := (ws_heap w)\<lparr>hp_buckets := (hp_buckets (ws_heap w))(?b := s)\<rparr>\<rparr>)"
    by (auto simp: update_source_in_context_def update_source_in_context_with_declarations_def
          ensure_module_present [OF assms(3)] update_source_in_root_with_declarations_def rb
          commit_change_def heap_update_def map_ok_Inr)
  obtain b' s' where s': "bucket_update_source_with_declarations L (hp_buckets (ws_heap w) ?b) (SourceFile uri) cs None
      = Inr (b', s')"
    "b' \<longrightarrow> bucket_get_class s' = without_origin (SourceFile uri) (bucket_get_class (hp_buckets (ws_heap w) ?b))
       ++ class_map (filter (not_blocked (hp_buckets (ws_heap w) ?b)) cs)"
    by (rule update_source_ok [OF binv])
  have get: "bucket_get_class s n = Some c" using s(1) s' assms(6) by auto
  have step: "ws_step L D w w1"
    using assms(5) unfolding update_source_in_context_def by (rule ws_step.update_context)
  have run1: "ws_inv w1" by (rule ws_step_inv [OF assms(1) step inv])
  obtain sn where q: "scope_for_analysis_context L w1 (i, cp, Some root) = (sn, w2)"
    using assms(8) by (auto simp: view_for_analysis_context_def split: prod.splits)
  from scope_query_extends [OF q] obtain w3 where
    e: "extends w1 w3" "ws_heap w2 = ws_heap w3" "ws_modules w2 = ws_modules w3" by blast
  have w1: "hget (ws_modules w1) i = Some m" "hp_next (ws_heap w1) = hp_next (ws_heap w)" "hp_buckets (ws_heap w1) ?b = s"
    using assms(3) by (simp_all add: s(2) invalidate_analysis_caches_def increment_version_def)
  have w2: "hget (ws_modules w2) i = Some m" "hp_buckets (ws_heap w2) ?b = s"
    using extends_module [OF e(1) w1(1)] e w1 b by (simp_all add: extends_def)
  note v = view_of_workspace_ok [OF run1 assms(1,8)]
  obtain ls where "visible_source_layers m cp (Some root) = ?b # ls" using preferred_root_first [OF assms(4)] by blast
  then have ls: "\<exists>ls. layers v = Overlay ?b # ls"
    by (auto simp: layers_def v(3) scope_spec_def scope_new_def w2(1) module_layers_def)
  have "layer_lookup v (Overlay ?b) n = Some c"
    using get w2(2) by (simp add: layer_lookup_def v(5) workspace_world_def)
  with ls assms(7) show ?thesis
    by (auto simp: view_get_class_best [OF v(1)] map_filter_simps best_def)
qed

theorem edit_visible_witness:
  "\<exists>w1. update_source_in_context map_cache
        (register_module_source_roots map_cache (workspace_new map_cache) 0 [(7, Main)]) 0 (Some 7)
        (SourceFile ''A.java'') [plain_class None ''A'' ''A'' (SourceFile ''A.java'')] = Inr (True, w1)
     \<and> view_get_class (fst (view_for_analysis_context map_cache no_disk w1 (0, Main, Some 7))) ''A''
        = Some (plain_class None ''A'' ''A'' (SourceFile ''A.java''))"
proof -
  let ?w = "register_module_source_roots map_cache (workspace_new map_cache) 0 [(7, Main)]"
  let ?c = "plain_class None ''A'' ''A'' (SourceFile ''A.java'')"
  let ?r = "\<lparr>sr_classpath = Main, sr_bucket = 1\<rparr>"
  obtain m where m: "hget (ws_modules ?w) 0 = Some m" "hget (mi_source_roots m) 7 = Some ?r"
    "hp_buckets (ws_heap ?w) 1 = bucket_new map_cache"
    by (simp add: register_module_source_roots_def workspace_new_def module_new_def heap_new_def
          ensure_module_def ROOT_def set_source_roots_def put_module_def invalidate_analysis_caches_def
          increment_version_def)
  have run: "ws_run map_cache no_disk ?w" by (intro ws_run.step [OF _ ws_step.source_roots] ws_run.init)
  have filt: "filter (not_blocked (bucket_new map_cache)) [?c] = [?c]" by (simp add: not_blocked_def)
  have "\<not> same_classes_for_origin (bucket_new map_cache) (SourceFile ''A.java'') [?c]"
    by (simp add: same_classes_for_origin_def bucket_new_def)
  moreover obtain b s where u: "bucket_update_source_with_declarations map_cache (bucket_new map_cache)
      (SourceFile ''A.java'') [?c] None = Inr (b, s)"
    by (rule update_source_ok [OF bucket_new_inv])
  ultimately have b: "b = True"
    by (simp add: bucket_update_source_with_declarations_def filt map_ok_Inr del: filter.simps)
  note u [unfolded b]
  then obtain w1 where w1: "update_source_in_context map_cache ?w 0 (Some 7) (SourceFile ''A.java'') [?c] = Inr (True, w1)"
    using m by (simp add: update_source_in_context_def update_source_in_context_with_declarations_def
        ensure_module_present update_source_in_root_with_declarations_def root_bucket_def
        commit_change_def heap_update_def)
  obtain v w2 where v: "view_for_analysis_context map_cache no_disk w1 (0, Main, Some 7) = (v, w2)" by fastforce
  have "view_get_class v ''A'' = Some ?c"
    by (rule edit_visible [OF no_disk_ok run m(1,2) w1 _ _ v])
       (use m(3) filt in \<open>simp_all add: plain_class_def is_source_def not_blocked_def\<close>)
  with w1 v show ?thesis by simp
qed


end
